(* ===== verification/Prelude.thy ===== *)
theory Prelude
  imports Complex_Main "HOL-Library.AList" "HOL-Library.List_Lexorder"
    "HOL-Library.Char_ord" "HOL-Library.Product_Lexorder"
begin

text \<open>
  Shared vocabulary of the development: Python exceptions as values, the error monad used by
  every validating constructor, state-passing effects that keep the state when they raise,
  insertion-ordered dictionaries as association lists, and the little string library (blank
  tests, decimal rendering) that the identifiers of the program are built from.
\<close>

section \<open>Proof collections\<close>

named_theorems err_simps \<open>equations of the error and effect monads\<close>
named_theorems dict_simps \<open>lookups and updates of insertion-ordered dictionaries\<close>
named_theorems contract_intros \<open>sufficient conditions for a constructor to accept\<close>

section \<open>Exceptions\<close>

text \<open>
  The exception class is what callers dispatch on. The reason names the message family of the
  \<open>raise\<close> statement (labels interpolated into messages are not modelled).
\<close>

datatype reason =
    BlankText | NotPositiveInt | NotNonNegativeInt | NotInteger | NotFinite | KeyNotString
  | NotJsonSafe | NotObject | NotArray | FieldMismatch | InvalidJson | BadEnum | BadSchemaVersion
  | BadNumber | NotUnique | Undeclared | Missing | Unreachable | Conflict
  | SequenceConflict | UnknownCommand | UnknownSubscription | AlreadyActive | Closed | Foreign
  | NotInitialized | MissionMismatch | RevisionMismatch | Regression | StateMismatch | WrongMessage
  | ForbiddenClaim | Ambiguous | BadIdentifier | NotPermitted | NotCurrent | Inconsistent | BadType | Unavailable

datatype exn =
    ValueError reason
  | TypeError reason
  | RuntimeError reason
  | KeyError
  | AttributeError
  | AssertionError
  | OverflowError
  | FileNotFoundError
  | IsADirectoryError

section \<open>The error monad\<close>

type_synonym 'a result = "exn + 'a"

definition bindE :: "'a result \<Rightarrow> ('a \<Rightarrow> 'b result) \<Rightarrow> 'b result" where
  "bindE m f = (case m of Inl e \<Rightarrow> Inl e | Inr x \<Rightarrow> f x)"

definition guardE :: "bool \<Rightarrow> exn \<Rightarrow> unit result" where
  "guardE b e = (if b then Inr () else Inl e)"

lemma bindE_Inl [simp, err_simps]: "bindE (Inl e) f = Inl e"
  by (simp add: bindE_def)

lemma bindE_Inr [simp, err_simps]: "bindE (Inr x) f = f x"
  by (simp add: bindE_def)

lemma bindE_eq_Inr [err_simps]: "bindE m f = Inr y \<longleftrightarrow> (\<exists>x. m = Inr x \<and> f x = Inr y)"
  by (cases m) (auto simp: bindE_def)

lemma bindE_assoc: "bindE (bindE m f) g = bindE m (\<lambda>x. bindE (f x) g)"
  by (cases m) auto

lemma guardE_simps [simp, err_simps]: "guardE True e = Inr ()" "guardE False e = Inl e"
  by (simp_all add: guardE_def)

lemma guardE_eq_Inr [simp, err_simps]: "guardE b e = Inr u \<longleftrightarrow> b"
  by (simp add: guardE_def)

lemma guardE_eq_Inl [simp, err_simps]: "guardE b e = Inl e' \<longleftrightarrow> \<not> b \<and> e' = e"
  by (auto simp: guardE_def)

lemma bindE_guardE_eq_Inr [simp, err_simps]:
  "bindE (guardE b e) f = Inr y \<longleftrightarrow> b \<and> f () = Inr y"
  by (auto simp: bindE_def guardE_def)

lemma bindE_guardE_eq_Inl [err_simps]:
  "bindE (guardE b e) f = Inl e' \<longleftrightarrow> (if b then f () = Inl e' else e' = e)"
  by (auto simp: bindE_def guardE_def)

lemma bindE_cong [fundef_cong]:
  "m = m' \<Longrightarrow> (\<And>x. m' = Inr x \<Longrightarrow> f x = f' x) \<Longrightarrow> bindE m f = bindE m' f'"
  by (cases m') (auto simp: bindE_def)

fun mapE :: "('a \<Rightarrow> 'b result) \<Rightarrow> 'a list \<Rightarrow> 'b list result" where
  "mapE f [] = Inr []"
| "mapE f (x # xs) = bindE (f x) (\<lambda>y. bindE (mapE f xs) (\<lambda>ys. Inr (y # ys)))"

lemma mapE_map_Inr: "(\<And>x. x \<in> set xs \<Longrightarrow> f (g x) = Inr (h x)) \<Longrightarrow> mapE f (map g xs) = Inr (map h xs)"
  by (induction xs) auto

lemma mapE_Inr_set: "mapE f xs = Inr ys \<Longrightarrow> y \<in> set ys \<Longrightarrow> \<exists>x \<in> set xs. f x = Inr y"
  by (induction xs arbitrary: ys) (auto simp: err_simps)

lemma mapE_length: "mapE f xs = Inr ys \<Longrightarrow> length ys = length xs"
  by (induction xs arbitrary: ys) (auto simp: err_simps)

fun opt_all :: "('a \<Rightarrow> bool) \<Rightarrow> 'a option \<Rightarrow> bool" where
  "opt_all P None = True"
| "opt_all P (Some x) = P x"

lemma opt_all_iff: "opt_all P x \<longleftrightarrow> (\<forall>y. x = Some y \<longrightarrow> P y)"
  by (cases x) auto

definition isOk :: "'a result \<Rightarrow> bool" where
  "isOk r = (case r of Inl _ \<Rightarrow> False | Inr _ \<Rightarrow> True)"

lemma isOk_simps [simp]: "isOk (Inr x)" "\<not> isOk (Inl e)"
  by (simp_all add: isOk_def)

lemma isOk_iff: "isOk r \<longleftrightarrow> (\<exists>x. r = Inr x)"
  by (cases r) (auto simp: isOk_def)

section \<open>Effects\<close>

text \<open>
  An operation on a mutable object takes the object's state and returns its outcome together
  with the state it leaves behind, also when it raises: assignments made before a \<open>raise\<close> stay.
\<close>

type_synonym ('a, 's) eff = "'s \<Rightarrow> 'a result \<times> 's"

definition bindS :: "('a, 's) eff \<Rightarrow> ('a \<Rightarrow> ('b, 's) eff) \<Rightarrow> ('b, 's) eff" where
  "bindS m f s = (case m s of (Inl e, s') \<Rightarrow> (Inl e, s') | (Inr x, s') \<Rightarrow> f x s')"

definition returnS :: "'a \<Rightarrow> ('a, 's) eff" where
  "returnS x s = (Inr x, s)"

definition raiseS :: "exn \<Rightarrow> ('a, 's) eff" where
  "raiseS e s = (Inl e, s)"

definition liftE :: "'a result \<Rightarrow> ('a, 's) eff" where
  "liftE r s = (r, s)"

definition guardS :: "bool \<Rightarrow> exn \<Rightarrow> (unit, 's) eff" where
  "guardS b e s = (guardE b e, s)"

text \<open>An effect on one component of a larger state.\<close>

definition onSnd :: "('a, 's) eff \<Rightarrow> ('a, 'r \<times> 's) eff" where
  "onSnd m rs = (case m (snd rs) of (x, s') \<Rightarrow> (x, (fst rs, s')))"

definition onFst :: "('r \<Rightarrow> 'r) \<Rightarrow> (unit, 'r \<times> 's) eff" where
  "onFst f rs = (Inr (), (f (fst rs), snd rs))"

lemma onSnd_apply [simp, err_simps]: "onSnd m (r, s) = (fst (m s), (r, snd (m s)))"
  by (simp add: onSnd_def split: prod.split)

lemma onFst_apply [simp, err_simps]: "onFst f (r, s) = (Inr (), (f r, s))"
  by (simp add: onFst_def)

lemma bindS_cases: "bindS m f s = (case fst (m s) of Inl e \<Rightarrow> (Inl e, snd (m s)) | Inr x \<Rightarrow> f x (snd (m s)))"
  by (simp add: bindS_def split: prod.split sum.split)

lemma bindS_onFst [simp]: "bindS (onFst f) g (r, s) = g () (f r, s)"
  by (simp add: bindS_cases)

lemma bindS_liftE_Inr [simp]: "bindS (liftE (Inr x)) g s = g x s"
  by (simp add: bindS_cases liftE_def)

lemma bindS_liftE_Inl [simp]: "bindS (liftE (Inl e)) g s = (Inl e, s)"
  by (simp add: bindS_cases liftE_def)

lemma bindS_returnS [simp]: "bindS (returnS x) g s = g x s"
  by (simp add: bindS_cases returnS_def)

lemma returnS_apply [simp, err_simps]: "returnS x s = (Inr x, s)"
  by (simp add: returnS_def)

lemma raiseS_apply [simp, err_simps]: "raiseS e s = (Inl e, s)"
  by (simp add: raiseS_def)

lemma liftE_apply [simp, err_simps]: "liftE r s = (r, s)"
  by (simp add: liftE_def)

lemma guardS_apply [simp, err_simps]: "guardS b e s = (guardE b e, s)"
  by (simp add: guardS_def)

lemma bindS_Inr: "m s = (Inr x, s') \<Longrightarrow> bindS m f s = f x s'"
  by (simp add: bindS_def)

lemma bindS_Inl: "m s = (Inl e, s') \<Longrightarrow> bindS m f s = (Inl e, s')"
  by (simp add: bindS_def)

lemma bindS_liftE [simp, err_simps]:
  "bindS (liftE r) f s = (case r of Inl e \<Rightarrow> (Inl e, s) | Inr x \<Rightarrow> f x s)"
  by (simp add: bindS_def split: sum.split)

lemma bindS_guardS [simp, err_simps]:
  "bindS (guardS b e) f s = (if b then f () s else (Inl e, s))"
  by (simp add: bindS_def guardE_def)

lemma bindS_eq_Inr [err_simps]:
  "bindS m f s = (Inr y, s'') \<longleftrightarrow> (\<exists>x s'. m s = (Inr x, s') \<and> f x s' = (Inr y, s''))"
  by (auto simp: bindS_def split: prod.splits sum.splits)

section \<open>Insertion-ordered dictionaries\<close>

text \<open>
  A Python \<open>dict\<close> keeps its insertion order: an association list whose keys are distinct.
  \<open>map_of\<close> is \<open>d.get(k)\<close>; \<open>AList.update\<close> is \<open>d[k] = v\<close>, which keeps the position of an
  existing key and appends a new one.
\<close>

definition getd :: "('k \<times> 'v) list \<Rightarrow> 'k \<Rightarrow> 'v \<Rightarrow> 'v" where
  "getd d k x = (case map_of d k of None \<Rightarrow> x | Some v \<Rightarrow> v)"

abbreviation put :: "'k \<Rightarrow> 'v \<Rightarrow> ('k \<times> 'v) list \<Rightarrow> ('k \<times> 'v) list" where
  "put \<equiv> AList.update"

lemma map_of_put [simp, dict_simps]: "map_of (put k v d) j = (if j = k then Some v else map_of d j)"
  by (simp add: update_conv)

lemma map_of_put_fun: "map_of (put k v d) = (map_of d)(k \<mapsto> v)"
  by (simp add: update_conv fun_eq_iff)

lemma getd_put [simp, dict_simps]: "getd (put k v d) j x = (if j = k then v else getd d j x)"
  by (simp add: getd_def)

lemma keys_put [simp, dict_simps]: "fst ` set (put k v d) = insert k (fst ` set d)"
  by (simp add: dom_map_of_conv_image_fst [symmetric] map_of_put_fun)

lemma distinct_put [simp, intro]: "distinct (map fst d) \<Longrightarrow> distinct (map fst (put k v d))"
  by (simp add: distinct_update)

lemma set_put_subset: "set (put k v d) \<subseteq> insert (k, v) (set d)"
  by (induction d) auto

lemma filter_one: "distinct xs \<Longrightarrow> x \<in> set xs \<Longrightarrow> filter (\<lambda>y. y = x) xs = [x]"
  by (induction xs) (auto simp: filter_empty_conv)

lemma put_new: "k \<notin> fst ` set d \<Longrightarrow> put k v d = d @ [(k, v)]"
  by (induction d) auto

lemma put_same: "map_of d k = Some v \<Longrightarrow> distinct (map fst d) \<Longrightarrow> put k v d = d"
proof (induction d)
  case Nil
  then show ?case by simp
next
  case (Cons p d)
  then show ?case by (cases p) (auto split: if_splits)
qed

lemma getd_empty [simp]: "getd [] k x = x"
  by (simp add: getd_def)

lemma map_of_mem_values: "map_of d k = Some v \<Longrightarrow> v \<in> snd ` set d"
  by (force dest: map_of_SomeD)

section \<open>Strings\<close>

text \<open>
  A Python \<open>str\<close> is a list of characters, read as its code points below 256. \<open>py_space\<close> are
  the code points of that range that \<open>str.strip\<close> removes.
\<close>

definition py_space :: "char \<Rightarrow> bool" where
  "py_space c \<longleftrightarrow> c \<in> set [CHR 0x09, CHR 0x0A, CHR 0x0B, CHR 0x0C, CHR 0x0D, CHR 0x1C,
     CHR 0x1D, CHR 0x1E, CHR 0x1F, CHR 0x20, CHR 0x85, CHR 0xA0]"

definition py_strip :: "string \<Rightarrow> string" where
  "py_strip s = rev (dropWhile py_space (rev (dropWhile py_space s)))"

definition nonblank :: "string \<Rightarrow> bool" where
  "nonblank s \<longleftrightarrow> py_strip s \<noteq> []"

lemma nonblank_iff: "nonblank s \<longleftrightarrow> (\<exists>c \<in> set s. \<not> py_space c)"
proof -
  have "py_strip s = [] \<longleftrightarrow> (\<forall>c \<in> set (dropWhile py_space s). py_space c)"
    by (simp add: py_strip_def)
  also have "\<dots> \<longleftrightarrow> (\<forall>c \<in> set s. py_space c)"
    by (metis dropWhile_eq_Nil_conv empty_iff hd_dropWhile hd_in_set list.set(1))
  finally show ?thesis by (auto simp: nonblank_def)
qed

lemma nonblank_Nil [simp]: "\<not> nonblank []"
  by (simp add: nonblank_iff)

lemma nonblank_not_Nil: "nonblank s \<Longrightarrow> s \<noteq> []"
  by auto

lemma nonblank_append [simp]: "nonblank (s @ t) \<longleftrightarrow> nonblank s \<or> nonblank t"
  by (auto simp: nonblank_iff)

lemma nonblank_Cons [simp]: "nonblank (c # s) \<longleftrightarrow> \<not> py_space c \<or> nonblank s"
  by (auto simp: nonblank_iff)

lemma py_space_visible [simp]:
  "\<not> py_space CHR ''a''" "\<not> py_space CHR ''b''" "\<not> py_space CHR ''c''" "\<not> py_space CHR ''d''"
  "\<not> py_space CHR ''e''" "\<not> py_space CHR ''f''" "\<not> py_space CHR ''g''" "\<not> py_space CHR ''h''"
  "\<not> py_space CHR ''i''" "\<not> py_space CHR ''j''" "\<not> py_space CHR ''k''" "\<not> py_space CHR ''l''"
  "\<not> py_space CHR ''m''" "\<not> py_space CHR ''n''" "\<not> py_space CHR ''o''" "\<not> py_space CHR ''p''"
  "\<not> py_space CHR ''q''" "\<not> py_space CHR ''r''" "\<not> py_space CHR ''s''" "\<not> py_space CHR ''t''"
  "\<not> py_space CHR ''u''" "\<not> py_space CHR ''v''" "\<not> py_space CHR ''w''" "\<not> py_space CHR ''x''"
  "\<not> py_space CHR ''y''" "\<not> py_space CHR ''z''" "\<not> py_space CHR ''A''" "\<not> py_space CHR ''B''"
  "\<not> py_space CHR ''C''" "\<not> py_space CHR ''D''" "\<not> py_space CHR ''E''" "\<not> py_space CHR ''F''"
  "\<not> py_space CHR ''G''" "\<not> py_space CHR ''H''" "\<not> py_space CHR ''I''" "\<not> py_space CHR ''J''"
  "\<not> py_space CHR ''K''" "\<not> py_space CHR ''L''" "\<not> py_space CHR ''M''" "\<not> py_space CHR ''N''"
  "\<not> py_space CHR ''O''" "\<not> py_space CHR ''P''" "\<not> py_space CHR ''Q''" "\<not> py_space CHR ''R''"
  "\<not> py_space CHR ''S''" "\<not> py_space CHR ''T''" "\<not> py_space CHR ''U''" "\<not> py_space CHR ''V''"
  "\<not> py_space CHR ''W''" "\<not> py_space CHR ''X''" "\<not> py_space CHR ''Y''" "\<not> py_space CHR ''Z''"
  "\<not> py_space CHR ''0''" "\<not> py_space CHR ''1''" "\<not> py_space CHR ''2''" "\<not> py_space CHR ''3''"
  "\<not> py_space CHR ''4''" "\<not> py_space CHR ''5''" "\<not> py_space CHR ''6''" "\<not> py_space CHR ''7''"
  "\<not> py_space CHR ''8''" "\<not> py_space CHR ''9''" "\<not> py_space CHR '':''" "\<not> py_space CHR ''_''"
  "\<not> py_space CHR ''.''" "\<not> py_space CHR ''-''" "\<not> py_space CHR ''/''"
  by (simp_all add: py_space_def)

subsection \<open>Decimal rendering of integers\<close>

definition decimals :: string where
  "decimals = ''0123456789''"

definition digit :: "nat \<Rightarrow> char" where
  "digit n = decimals ! n"

fun show_nat :: "nat \<Rightarrow> string" where
  "show_nat n = (if n < 10 then [digit n] else show_nat (n div 10) @ [digit (n mod 10)])"

declare show_nat.simps [simp del]

definition show_int :: "int \<Rightarrow> string" where
  "show_int i = (if i < 0 then CHR ''-'' # show_nat (nat (- i)) else show_nat (nat i))"

lemma length_decimals: "length decimals = 10"
  by (simp add: decimals_def)

lemma distinct_decimals: "distinct decimals"
  by (simp add: decimals_def)

lemma digit_inject: "m < 10 \<Longrightarrow> n < 10 \<Longrightarrow> digit m = digit n \<Longrightarrow> m = n"
  by (simp add: digit_def nth_eq_iff_index_eq distinct_decimals length_decimals)

lemma digit_mem: "n < 10 \<Longrightarrow> digit n \<in> set decimals"
  by (simp add: digit_def length_decimals)

lemma show_nat_digits: "set (show_nat n) \<subseteq> set decimals"
proof (induction n rule: show_nat.induct)
  case (1 n)
  then show ?case
    by (subst show_nat.simps) (simp add: digit_mem)
qed

lemma show_nat_not_Nil [simp]: "show_nat n \<noteq> []"
  by (subst show_nat.simps) simp

lemma show_nat_inject: "show_nat m = show_nat n \<Longrightarrow> m = n"
proof (induction m arbitrary: n rule: show_nat.induct)
  case (1 m)
  have len: "length (show_nat k) = 1 \<longleftrightarrow> k < 10" for k
    by (subst show_nat.simps) simp
  show ?case
  proof (cases "m < 10")
    case True
    with "1.prems" len have "n < 10" by metis
    with True "1.prems" show ?thesis
      by (simp add: show_nat.simps [of m] show_nat.simps [of n] digit_inject)
  next
    case False
    with "1.prems" len have n: "\<not> n < 10" by metis
    with False "1.prems" have "show_nat (m div 10) = show_nat (n div 10)"
      and "digit (m mod 10) = digit (n mod 10)"
      by (simp_all add: show_nat.simps [of m] show_nat.simps [of n])
    with False "1.IH" have "m div 10 = n div 10" and "m mod 10 = n mod 10"
      by (auto intro: digit_inject)
    then show ?thesis by (metis div_mult_mod_eq)
  qed
qed

lemma colon_not_decimal: "CHR '':'' \<notin> set decimals"
  by (simp add: decimals_def)

lemma minus_not_decimal: "CHR ''-'' \<notin> set decimals"
  by (simp add: decimals_def)

lemma colon_not_in_show_int: "CHR '':'' \<notin> set (show_int i)"
  using show_nat_digits colon_not_decimal by (auto simp: show_int_def dest!: subsetD)

lemma show_int_nonneg_inject: "0 \<le> i \<Longrightarrow> 0 \<le> j \<Longrightarrow> show_int i = show_int j \<Longrightarrow> i = j"
  by (auto simp: show_int_def dest: show_nat_inject)

text \<open>
  Identifiers have the shape \<open>prefix:mission:sequence\<close>; the sequence is what follows the last
  colon, so two identifiers agree only when mission and sequence agree.
\<close>

lemma last_colon_unique:
  assumes "s @ CHR '':'' # a = t @ CHR '':'' # b"
    and "CHR '':'' \<notin> set a" and "CHR '':'' \<notin> set b"
  shows "s = t \<and> a = b"
proof -
  have suffix: "takeWhile (\<lambda>c. c \<noteq> CHR '':'') (rev (u @ CHR '':'' # c)) = rev c"
    if "CHR '':'' \<notin> set c" for u c
  proof -
    have "takeWhile (\<lambda>c. c \<noteq> CHR '':'') (rev c @ CHR '':'' # rev u)
        = rev c @ takeWhile (\<lambda>c. c \<noteq> CHR '':'') (CHR '':'' # rev u)"
      using that by (intro takeWhile_append2) auto
    then show ?thesis by simp
  qed
  have "takeWhile (\<lambda>c. c \<noteq> CHR '':'') (rev (s @ CHR '':'' # a)) = rev a"
    using assms(2) by (rule suffix)
  moreover have "takeWhile (\<lambda>c. c \<noteq> CHR '':'') (rev (t @ CHR '':'' # b)) = rev b"
    using assms(3) by (rule suffix)
  ultimately have "a = b" using assms(1) by simp
  with assms(1) show ?thesis by simp
qed

section \<open>Lists\<close>

lemma find_mem: "find P xs = Some x \<Longrightarrow> x \<in> set xs \<and> P x"
  by (induction xs) (auto split: if_splits)

definition is_sorted_by :: "('a \<Rightarrow> 'k::linorder) \<Rightarrow> 'a list \<Rightarrow> bool" where
  "is_sorted_by f xs \<longleftrightarrow> sorted (map f xs)"

text \<open>\<open>max(map(f, xs), default=d)\<close>.\<close>

definition max_default :: "int \<Rightarrow> int list \<Rightarrow> int" where
  "max_default d xs = (if xs = [] then d else Max (set xs))"

lemma max_default_ge: "x \<in> set xs \<Longrightarrow> x \<le> max_default d xs"
  by (auto simp: max_default_def)

lemma max_default_mem: "xs \<noteq> [] \<Longrightarrow> max_default d xs \<in> set xs"
  by (simp add: max_default_def)

lemma max_default_lower: "(\<And>x. x \<in> set xs \<Longrightarrow> d \<le> x) \<Longrightarrow> d \<le> max_default d xs"
  by (cases xs) (auto simp: max_default_def intro: Max_ge_iff [THEN iffD2])

lemma max_default_Nil [simp]: "max_default d [] = d"
  by (simp add: max_default_def)

text \<open>\<open>max(xs, key=f, default=None)\<close>: the first element among those of maximal key.\<close>

fun max_by :: "('a \<Rightarrow> 'k::linorder) \<Rightarrow> 'a list \<Rightarrow> 'a option" where
  "max_by f [] = None"
| "max_by f (x # xs) = (case max_by f xs of None \<Rightarrow> Some x
     | Some y \<Rightarrow> if f y \<le> f x then Some x else Some y)"

lemma max_by_None [simp]: "max_by f xs = None \<longleftrightarrow> xs = []"
  by (cases xs) (auto split: option.splits)

lemma max_by_Some: "max_by f xs = Some x \<Longrightarrow> x \<in> set xs \<and> (\<forall>y \<in> set xs. f y \<le> f x)"
  by (induction xs arbitrary: x) (fastforce split: option.splits if_splits)+

lemma max_by_unique:
  assumes "x \<in> set xs" and "\<And>y. y \<in> set xs \<Longrightarrow> y \<noteq> x \<Longrightarrow> f y < f x"
  shows "max_by f xs = Some x"
proof -
  from assms(1) obtain z where z: "max_by f xs = Some z" by (cases "max_by f xs") auto
  with assms(1) have "z \<in> set xs" "f x \<le> f z" by (auto dest: max_by_Some)
  with assms(2) have "z = x" by force
  with z show ?thesis by simp
qed

end
