(* ===== verification/PyValue.thy ===== *)
theory PyValue
  imports Prelude
begin

text \<open>
  Dynamically typed Python values and the JSON values the contracts freeze them into. The
  contract modules under \<open>src/onr/contracts\<close> each carry the same private helpers
  (\<open>_freeze_json\<close>, \<open>_json_value\<close>, \<open>_canonical\<close>, \<open>_identity\<close>/\<open>_text\<close>, the integer checks);
  they are modelled once here. A frozen value (\<open>MappingProxyType\<close> and tuples all the way down)
  is a separate type, so that immutability and JSON-safety hold by construction.
\<close>

section \<open>Raw values\<close>

text \<open>
  A finite float is its exact rational value (the sign of zero is not represented). A mapping key
  is a string or some other hashable object. \<open>PObj\<close> is any object the code does not know.
\<close>

datatype pyfloat = Fin rat | PosInf | NegInf | NaN

datatype pykey = KStr string | KOther nat

datatype pyval =
    PNone
  | PBool bool
  | PInt int
  | PFloat pyfloat
  | PStr string
  | PList "pyval list"
  | PTuple "pyval list"
  | PDict "(pykey \<times> pyval) list"
  | PProxy "(pykey \<times> pyval) list"
  | PObj nat

type_synonym pyitems = "(pykey \<times> pyval) list"

text \<open>\<open>isinstance(value, Mapping)\<close> and \<open>isinstance(value, (list, tuple))\<close>.\<close>

fun as_mapping :: "pyval \<Rightarrow> pyitems option" where
  "as_mapping (PDict kvs) = Some kvs"
| "as_mapping (PProxy kvs) = Some kvs"
| "as_mapping _ = None"

fun as_array :: "pyval \<Rightarrow> pyval list option" where
  "as_array (PList vs) = Some vs"
| "as_array (PTuple vs) = Some vs"
| "as_array _ = None"

text \<open>\<open>set(value) == fields\<close>, \<open>value[field]\<close> and \<open>value.get(field)\<close> on a mapping.\<close>

definition has_fields :: "string list \<Rightarrow> pyitems \<Rightarrow> bool" where
  "has_fields fs kvs \<longleftrightarrow> set (map fst kvs) = KStr ` set fs"

definition item :: "pyitems \<Rightarrow> string \<Rightarrow> pyval" where
  "item kvs f = (case map_of kvs (KStr f) of None \<Rightarrow> PNone | Some v \<Rightarrow> v)"

section \<open>Frozen JSON values\<close>

datatype json =
    JNull
  | JBool bool
  | JInt int
  | JFloat rat
  | JStr string
  | JArr "json list"
  | JObj "(string \<times> json) list"

type_synonym jobj = "(string \<times> json) list"

text \<open>
  \<open>_freeze_json(value)\<close>: validate and freeze. The modules differ in the exception raised for a
  key that is not a string (\<open>ValueError\<close> in transport and planning, \<open>TypeError\<close> in fsm,
  transition_intent and communication), which is the first argument.
\<close>

fun freeze_json :: "exn \<Rightarrow> pyval \<Rightarrow> json result"
  and freeze_list :: "exn \<Rightarrow> pyval list \<Rightarrow> json list result"
  and freeze_items :: "exn \<Rightarrow> pyitems \<Rightarrow> jobj result" where
  "freeze_json e PNone = Inr JNull"
| "freeze_json e (PBool b) = Inr (JBool b)"
| "freeze_json e (PInt i) = Inr (JInt i)"
| "freeze_json e (PStr s) = Inr (JStr s)"
| "freeze_json e (PFloat x) = (case x of Fin q \<Rightarrow> Inr (JFloat q) | _ \<Rightarrow> Inl (ValueError NotFinite))"
| "freeze_json e (PDict kvs) = bindE (freeze_items e kvs) (\<lambda>o'. Inr (JObj o'))"
| "freeze_json e (PProxy kvs) = bindE (freeze_items e kvs) (\<lambda>o'. Inr (JObj o'))"
| "freeze_json e (PList vs) = bindE (freeze_list e vs) (\<lambda>js. Inr (JArr js))"
| "freeze_json e (PTuple vs) = bindE (freeze_list e vs) (\<lambda>js. Inr (JArr js))"
| "freeze_json e (PObj _) = Inl (ValueError NotJsonSafe)"
| "freeze_list e [] = Inr []"
| "freeze_list e (v # vs) = bindE (freeze_json e v) (\<lambda>j. bindE (freeze_list e vs) (\<lambda>js. Inr (j # js)))"
| "freeze_items e [] = Inr []"
| "freeze_items e ((KStr k, v) # kvs) =
     bindE (freeze_json e v) (\<lambda>j. bindE (freeze_items e kvs) (\<lambda>js. Inr ((k, j) # js)))"
| "freeze_items e ((KOther _, v) # kvs) = Inl e"

text \<open>
  A frozen value seen as a Python value again. \<open>view False\<close> is \<open>_json_value(value)\<close>, the thawed
  copy in which mappings are dicts and tuples are lists (also what \<open>json.loads\<close> returns);
  \<open>view True\<close> is the frozen object itself, proxies and tuples.
\<close>

fun view :: "bool \<Rightarrow> json \<Rightarrow> pyval" where
  "view b JNull = PNone"
| "view b (JBool x) = PBool x"
| "view b (JInt i) = PInt i"
| "view b (JFloat q) = PFloat (Fin q)"
| "view b (JStr s) = PStr s"
| "view b (JArr js) = (if b then PTuple (map (view b) js) else PList (map (view b) js))"
| "view b (JObj o') = (if b then PProxy (map (\<lambda>(k, j). (KStr k, view b j)) o')
     else PDict (map (\<lambda>(k, j). (KStr k, view b j)) o'))"

abbreviation thaw :: "json \<Rightarrow> pyval" where
  "thaw \<equiv> view False"

abbreviation proxied :: "json \<Rightarrow> pyval" where
  "proxied \<equiv> view True"

text \<open>\<open>_payload(value)\<close>: freeze and insist on an object; the second exception is the one for a
  value that is not a mapping.\<close>

definition payload :: "exn \<Rightarrow> exn \<Rightarrow> pyval \<Rightarrow> jobj result" where
  "payload ek eo v = bindE (freeze_json ek v) (\<lambda>j. case j of JObj o' \<Rightarrow> Inr o' | _ \<Rightarrow> Inl eo)"

section \<open>Field checks\<close>

text \<open>\<open>_identity\<close> / \<open>_text\<close>: a string with a character that is not whitespace.\<close>

fun text_of :: "pyval \<Rightarrow> string result" where
  "text_of (PStr s) = (if nonblank s then Inr s else Inl (ValueError BlankText))"
| "text_of _ = Inl (ValueError BlankText)"

text \<open>\<open>bool\<close> is a subclass of \<open>int\<close>; the checks reject it explicitly.\<close>

fun positive_int :: "pyval \<Rightarrow> int result" where
  "positive_int (PInt i) = (if i \<le> 0 then Inl (ValueError NotPositiveInt) else Inr i)"
| "positive_int _ = Inl (ValueError NotPositiveInt)"

fun nonneg_int :: "pyval \<Rightarrow> int result" where
  "nonneg_int (PInt i) = (if i < 0 then Inl (ValueError NotNonNegativeInt) else Inr i)"
| "nonneg_int _ = Inl (ValueError NotNonNegativeInt)"

text \<open>An integer of any sign.\<close>

fun integer :: "pyval \<Rightarrow> int result" where
  "integer (PInt i) = Inr i"
| "integer _ = Inl (ValueError NotInteger)"

text \<open>An optional field: \<open>if x is not None: check(x)\<close>.\<close>

definition optional :: "(pyval \<Rightarrow> 'a result) \<Rightarrow> pyval \<Rightarrow> 'a option result" where
  "optional f v = (if v = PNone then Inr None else bindE (f v) (\<lambda>x. Inr (Some x)))"

text \<open>A \<open>StrEnum\<close> called on a value: the member whose text it is.\<close>

definition enum_of :: "('a \<Rightarrow> string) \<Rightarrow> 'a list \<Rightarrow> pyval \<Rightarrow> 'a result" where
  "enum_of text members v = (case v of
     PStr s \<Rightarrow> (case find (\<lambda>x. text x = s) members of
       Some x \<Rightarrow> Inr x | None \<Rightarrow> Inl (ValueError BadEnum))
   | _ \<Rightarrow> Inl (ValueError BadEnum))"

text \<open>\<open>_strict_fields(value, expected)\<close>.\<close>

definition strict_fields :: "string list \<Rightarrow> pyval \<Rightarrow> pyitems result" where
  "strict_fields fs v = (case as_mapping v of
     None \<Rightarrow> Inl (ValueError FieldMismatch)
   | Some kvs \<Rightarrow> if has_fields fs kvs then Inr kvs else Inl (ValueError FieldMismatch))"

text \<open>\<open>schema_version != 2\<close> and the like compare by value: \<open>True == 1\<close> and \<open>2.0 == 2\<close>.\<close>

fun num_value :: "pyval \<Rightarrow> rat option" where
  "num_value (PBool b) = Some (if b then 1 else 0)"
| "num_value (PInt i) = Some (of_int i)"
| "num_value (PFloat (Fin q)) = Some q"
| "num_value _ = None"

definition equals_int :: "pyval \<Rightarrow> int \<Rightarrow> bool" where
  "equals_int v n \<longleftrightarrow> num_value v = Some (of_int n)"

text \<open>\<open>tuple(value)\<close>: strings iterate over their characters and mappings over their keys.\<close>

fun iterate :: "pyval \<Rightarrow> pyval list result" where
  "iterate (PList vs) = Inr vs"
| "iterate (PTuple vs) = Inr vs"
| "iterate (PStr s) = Inr (map (\<lambda>c. PStr [c]) s)"
| "iterate (PDict kvs) = Inr (map (\<lambda>kv. case fst kv of KStr k \<Rightarrow> PStr k | KOther n \<Rightarrow> PObj n) kvs)"
| "iterate (PProxy kvs) = Inr (map (\<lambda>kv. case fst kv of KStr k \<Rightarrow> PStr k | KOther n \<Rightarrow> PObj n) kvs)"
| "iterate _ = Inl (TypeError BadType)"

text \<open>\<open>from_json\<close> of a contract: the decoded value must be a mapping, whose items \<open>from_dict\<close> reads.\<close>

definition loaded_object :: "(pyitems \<Rightarrow> 'a result) \<Rightarrow> pyval option \<Rightarrow> 'a result" where
  "loaded_object f decoded = (case decoded of
     None \<Rightarrow> Inl (ValueError InvalidJson)
   | Some v \<Rightarrow> (case as_mapping v of None \<Rightarrow> Inl (ValueError NotObject) | Some kvs \<Rightarrow> f kvs))"

section \<open>Python equality of frozen values\<close>

text \<open>
  \<open>==\<close> on frozen values: numbers compare by value across \<open>bool\<close>, \<open>int\<close> and \<open>float\<close>, mappings
  regardless of the order of their keys, tuples element by element.
\<close>

fun jnum :: "json \<Rightarrow> rat option" where
  "jnum (JBool b) = Some (if b then 1 else 0)"
| "jnum (JInt i) = Some (of_int i)"
| "jnum (JFloat q) = Some q"
| "jnum _ = None"

fun json_eq :: "json \<Rightarrow> json \<Rightarrow> bool"
  and json_eq_list :: "json list \<Rightarrow> json list \<Rightarrow> bool"
  and json_eq_items :: "jobj \<Rightarrow> jobj \<Rightarrow> bool" where
  "json_eq JNull y = (y = JNull)"
| "json_eq (JBool b) y = (jnum y = Some (if b then 1 else 0))"
| "json_eq (JInt i) y = (jnum y = Some (of_int i))"
| "json_eq (JFloat q) y = (jnum y = Some q)"
| "json_eq (JStr s) y = (y = JStr s)"
| "json_eq (JArr xs) y = (case y of JArr ys \<Rightarrow> json_eq_list xs ys | _ \<Rightarrow> False)"
| "json_eq (JObj xs) y = (case y of JObj ys \<Rightarrow> length xs = length ys \<and> json_eq_items xs ys | _ \<Rightarrow> False)"
| "json_eq_list [] ys = (ys = [])"
| "json_eq_list (x # xs) ys = (case ys of [] \<Rightarrow> False | y # ys' \<Rightarrow> json_eq x y \<and> json_eq_list xs ys')"
| "json_eq_items [] ys = True"
| "json_eq_items ((k, x) # xs) ys =
     ((case map_of ys k of None \<Rightarrow> False | Some y \<Rightarrow> json_eq x y) \<and> json_eq_items xs ys)"

definition jobj_eq :: "jobj \<Rightarrow> jobj \<Rightarrow> bool" where
  "jobj_eq xs ys \<longleftrightarrow> json_eq (JObj xs) (JObj ys)"

section \<open>Canonical JSON\<close>

text \<open>
  \<open>json.dumps(..., sort_keys=True)\<close>: the text is modelled by its parse, an object whose members
  appear in key order at every level. Two texts agree exactly when these trees are identical.
\<close>

fun canonical :: "json \<Rightarrow> json" where
  "canonical (JArr js) = JArr (map canonical js)"
| "canonical (JObj o') = JObj (sort_key fst (map (\<lambda>(k, j). (k, canonical j)) o'))"
| "canonical j = j"

definition canonical_obj :: "jobj \<Rightarrow> jobj" where
  "canonical_obj o' = sort_key fst (map (\<lambda>(k, j). (k, canonical j)) o')"

lemma canonical_JObj [simp]: "canonical (JObj o') = JObj (canonical_obj o')"
  by (simp add: canonical_obj_def)

declare canonical.simps(2) [simp del]

section \<open>Well-formed values\<close>

text \<open>Keys of a mapping are distinct, at every level.\<close>

fun wf_py :: "pyval \<Rightarrow> bool" where
  "wf_py (PList vs) = (\<forall>v \<in> set vs. wf_py v)"
| "wf_py (PTuple vs) = (\<forall>v \<in> set vs. wf_py v)"
| "wf_py (PDict kvs) = (distinct (map fst kvs) \<and> (\<forall>kv \<in> set kvs. wf_py (snd kv)))"
| "wf_py (PProxy kvs) = (distinct (map fst kvs) \<and> (\<forall>kv \<in> set kvs. wf_py (snd kv)))"
| "wf_py _ = True"

fun wf_json :: "json \<Rightarrow> bool" where
  "wf_json (JArr js) = (\<forall>j \<in> set js. wf_json j)"
| "wf_json (JObj o') = (distinct (map fst o') \<and> (\<forall>kj \<in> set o'. wf_json (snd kj)))"
| "wf_json _ = True"

definition wf_obj :: "jobj \<Rightarrow> bool" where
  "wf_obj o' \<longleftrightarrow> wf_json (JObj o')"

section \<open>Lemmas on frozen values\<close>

lemma json_induct [case_names Null Bool Int Float Str Arr Obj, induct type: json]:
  assumes "P JNull" and "\<And>b. P (JBool b)" and "\<And>i. P (JInt i)" and "\<And>q. P (JFloat q)"
    and "\<And>s. P (JStr s)" and "\<And>js. (\<And>j. j \<in> set js \<Longrightarrow> P j) \<Longrightarrow> P (JArr js)"
    and "\<And>o'. (\<And>kj. kj \<in> set o' \<Longrightarrow> P (snd kj)) \<Longrightarrow> P (JObj o')"
  shows "P j"
proof (induction j rule: json.induct)
  case (JObj o')
  show ?case
  proof (rule assms(7))
    fix kj assume "kj \<in> set o'"
    then show "P (snd kj)" using JObj by (cases kj) (auto simp: snds.simps)
  qed
qed (use assms in auto)

lemma freeze_list_map: "(\<And>j. j \<in> set js \<Longrightarrow> freeze_json e (f j) = Inr j) \<Longrightarrow>
    freeze_list e (map f js) = Inr js"
  by (induction js) auto

lemma freeze_items_map: "(\<And>kj. kj \<in> set o' \<Longrightarrow> freeze_json e (f (snd kj)) = Inr (snd kj)) \<Longrightarrow>
    freeze_items e (map (\<lambda>(k, j). (KStr k, f j)) o') = Inr o'"
proof (induction o')
  case (Cons kj o')
  from Cons.prems [of kj] have "freeze_json e (f (snd kj)) = Inr (snd kj)" by simp
  moreover have "freeze_items e (map (\<lambda>(k, j). (KStr k, f j)) o') = Inr o'"
    by (rule Cons.IH) (rule Cons.prems, simp)
  ultimately show ?case by (cases kj) simp
qed simp

text \<open>Freezing a thawed value, or a value that is already frozen, gives it back.\<close>

lemma freeze_view [simp]: "freeze_json e (view b j) = Inr j"
proof (induction j)
  case (Obj o')
  then have "freeze_items e (map (\<lambda>(k, j). (KStr k, view b j)) o') = Inr o'"
    by (rule freeze_items_map)
  then show ?case by (cases b) simp_all
qed (auto simp: freeze_list_map)

lemma freeze_items_keys: "freeze_items e kvs = Inr o' \<Longrightarrow> map fst kvs = map (KStr \<circ> fst) o'"
proof (induction kvs arbitrary: o')
  case (Cons kv kvs)
  obtain k v where kv: "kv = (k, v)" by (cases kv)
  with Cons show ?case by (cases k) (auto simp: err_simps)
qed simp

lemma distinct_map_KStr [simp]: "distinct (map (KStr \<circ> f) xs) \<longleftrightarrow> distinct (map f xs)"
  by (simp add: distinct_map inj_on_def comp_def)

lemma freeze_wf:
  "freeze_json e v = Inr j \<Longrightarrow> wf_py v \<Longrightarrow> wf_json j"
  "freeze_list e vs = Inr js \<Longrightarrow> (\<forall>v \<in> set vs. wf_py v) \<Longrightarrow> (\<forall>j \<in> set js. wf_json j)"
  "freeze_items e kvs = Inr o' \<Longrightarrow> (\<forall>kv \<in> set kvs. wf_py (snd kv)) \<Longrightarrow>
     (\<forall>kj \<in> set o'. wf_json (snd kj))"
proof (induction e v and e vs and e kvs arbitrary: j and js and o'
    rule: freeze_json_freeze_list_freeze_items.induct)
  case (6 e kvs)
  then obtain o' where o': "freeze_items e kvs = Inr o'" "j = JObj o'" by (auto simp: err_simps)
  with 6 have "\<forall>kj \<in> set o'. wf_json (snd kj)" by simp
  moreover from 6(3) freeze_items_keys [OF o'(1)] have "distinct (map fst o')" by simp
  ultimately show ?case using o' by simp
next
  case (7 e kvs)
  then obtain o' where o': "freeze_items e kvs = Inr o'" "j = JObj o'" by (auto simp: err_simps)
  with 7 have "\<forall>kj \<in> set o'. wf_json (snd kj)" by simp
  moreover from 7(3) freeze_items_keys [OF o'(1)] have "distinct (map fst o')" by simp
  ultimately show ?case using o' by simp
next
  case (14 e k v kvs)
  from 14(3) obtain j js where j: "freeze_json e v = Inr j" "freeze_items e kvs = Inr js"
    "o' = (k, j) # js" by (auto simp: err_simps)
  from 14(1) [OF j(1)] 14(4) have "wf_json j" by simp
  moreover from 14(2) [OF j(1) j(2)] 14(4) have "\<forall>kj \<in> set js. wf_json (snd kj)" by simp
  ultimately show ?case using j(3) by simp
qed (auto simp: err_simps split: pyfloat.splits)

lemma wf_view [simp]: "wf_py (view b j) = wf_json j"
proof (induction j)
  case (Obj o')
  have "map fst (map (\<lambda>(k, j). (KStr k, view b j)) o') = map (KStr \<circ> fst) o'" by auto
  with Obj show ?case by (auto simp del: map_map)
qed auto

lemma as_mapping_view_Obj [simp]:
  "as_mapping (view b (JObj o')) = Some (map (\<lambda>(k, j). (KStr k, view b j)) o')"
  by (cases b) simp_all

lemma as_array_view_Arr [simp]: "as_array (view b (JArr js)) = Some (map (view b) js)"
  by (cases b) simp_all

lemma view_eq_PNone [simp]: "view b j = PNone \<longleftrightarrow> j = JNull"
  by (cases j) auto

declare view.simps(6,7) [simp del]

lemma iterate_view_Arr [simp]: "iterate (view b (JArr js)) = Inr (map (view b) js)"
  by (cases b) (simp_all add: view.simps)

lemma canonical_JArr_map_JStr: "canonical (JArr (map (\<lambda>x. JStr (f x)) xs)) = JArr (map (\<lambda>x. JStr (f x)) xs)"
  by (simp add: comp_def)

subsection \<open>Payloads\<close>

lemma payload_view [simp]: "payload ek eo (view b (JObj o')) = Inr o'"
  by (simp add: payload_def)

lemma payload_Inr: "payload ek eo v = Inr o' \<longleftrightarrow> freeze_json ek v = Inr (JObj o')"
  by (cases "freeze_json ek v") (auto simp: payload_def split: json.splits)

lemma payload_wf: "payload ek eo v = Inr o' \<Longrightarrow> wf_py v \<Longrightarrow> wf_obj o'"
  by (simp add: payload_Inr wf_obj_def freeze_wf(1) del: wf_json.simps)

lemma map_of_map_KStr: "map_of (map (\<lambda>(k, j). (KStr k, f j)) o') (KStr s) = map_option f (map_of o' s)"
  by (induction o') auto

lemma item_simps [simp]:
  "item [] f = PNone"
  "item ((k, v) # kvs) f = (if k = KStr f then v else item kvs f)"
  by (simp_all add: item_def)

lemma item_view [simp]: "item (map (\<lambda>(k, j). (KStr k, view b j)) o') f =
    (case map_of o' f of None \<Rightarrow> PNone | Some j \<Rightarrow> view b j)"
  by (simp add: item_def map_of_map_KStr split: option.splits)

lemma has_fields_view [simp]: "has_fields fs (map (\<lambda>(k, j). (KStr k, view b j)) o') \<longleftrightarrow>
    fst ` set o' = set fs"
proof -
  have "set (map fst (map (\<lambda>(k, j). (KStr k, view b j)) o')) = KStr ` (fst ` set o')" by force
  then show ?thesis by (simp add: has_fields_def inj_image_eq_iff inj_def del: map_map)
qed

lemma strict_fields_view [simp]: "strict_fields fs (view b (JObj o')) =
    (if fst ` set o' = set fs then Inr (map (\<lambda>(k, j). (KStr k, view b j)) o')
     else Inl (ValueError FieldMismatch))"
  by (simp add: strict_fields_def)

lemma strict_fields_Inr: "strict_fields fs v = Inr kvs \<longleftrightarrow> as_mapping v = Some kvs \<and> has_fields fs kvs"
  by (auto simp: strict_fields_def split: option.splits)

lemma text_of_Inr [err_simps]: "text_of v = Inr s \<longleftrightarrow> v = PStr s \<and> nonblank s"
  by (cases v) auto

lemma positive_int_Inr [err_simps]: "positive_int v = Inr i \<longleftrightarrow> v = PInt i \<and> 0 < i"
  by (cases v) auto

lemma nonneg_int_Inr [err_simps]: "nonneg_int v = Inr i \<longleftrightarrow> v = PInt i \<and> 0 \<le> i"
  by (cases v) auto

lemma integer_Inr [err_simps]: "integer v = Inr i \<longleftrightarrow> v = PInt i"
  by (cases v) auto

lemma equals_int_PInt [simp]: "equals_int (PInt i) n \<longleftrightarrow> i = n"
  by (simp add: equals_int_def)

lemma mapE_text_of_PStr: "\<forall>s \<in> set xs. nonblank s \<Longrightarrow> mapE text_of (map PStr xs) = Inr xs"
  by (induction xs) auto

lemma mapE_text_of_Inr: "mapE text_of vs = Inr xs \<Longrightarrow> vs = map PStr xs \<and> (\<forall>s \<in> set xs. nonblank s)"
  by (induction vs arbitrary: xs) (auto simp: err_simps)

lemma optional_Inr [err_simps]: "optional f v = Inr r \<longleftrightarrow>
    (if v = PNone then r = None else \<exists>x. f v = Inr x \<and> r = Some x)"
  by (auto simp: optional_def err_simps)

lemma enum_of_Inr: "enum_of t ms v = Inr x \<Longrightarrow> v = PStr (t x) \<and> x \<in> set ms"
  by (auto simp: enum_of_def find_Some_iff split: pyval.splits option.splits)

lemma enum_of_text: "inj_on t (set ms) \<Longrightarrow> x \<in> set ms \<Longrightarrow> enum_of t ms (PStr (t x)) = Inr x"
  by (auto simp: enum_of_def find_None_iff find_Some_iff inj_on_def split: option.splits)

lemma wf_item: "as_mapping v = Some kvs \<Longrightarrow> wf_py v \<Longrightarrow> wf_py (item kvs f)"
  by (cases v) (force simp: item_def split: option.splits dest: map_of_SomeD)+

lemma payload_Inr_mapping: "payload ek eo v = Inr o' \<Longrightarrow> \<exists>kvs. as_mapping v = Some kvs"
  by (cases v) (auto simp: payload_Inr err_simps split: pyfloat.splits)

subsection \<open>Equality and canonical form\<close>

lemma json_eq_items_iff: "json_eq_items xs ys \<longleftrightarrow>
    (\<forall>kx \<in> set xs. \<exists>y. map_of ys (fst kx) = Some y \<and> json_eq (snd kx) y)"
  by (induction xs) (auto split: option.splits)

lemma json_eq_list_iff: "json_eq_list xs ys \<longleftrightarrow> list_all2 json_eq xs ys"
  by (induction xs arbitrary: ys) (auto simp: list_all2_Cons1 split: list.splits)

lemma json_eq_ObjE:
  assumes "json_eq (JObj xs) y"
  obtains ys where "y = JObj ys" and "length xs = length ys"
    and "\<forall>kx \<in> set xs. \<exists>z. map_of ys (fst kx) = Some z \<and> json_eq (snd kx) z"
  using assms by (cases y) (auto simp: json_eq_items_iff)

lemma json_eq_ArrE:
  assumes "json_eq (JArr xs) y"
  obtains ys where "y = JArr ys" and "list_all2 json_eq xs ys"
  using assms by (cases y) (auto simp: json_eq_list_iff)

lemma json_eq_refl [simp]: "wf_json j \<Longrightarrow> json_eq j j"
  by (induction j) (auto simp: json_eq_list_iff list_all2_same json_eq_items_iff)

lemma json_eq_jnum: "jnum x \<noteq> None \<Longrightarrow> json_eq x y \<longleftrightarrow> jnum y = jnum x"
  by (cases x) auto

lemma json_eq_num_cases: "json_eq x y \<Longrightarrow> jnum x = jnum y"
  by (cases x; cases y) auto

lemma same_keys:
  assumes "length xs = length ys" and "distinct (map fst xs)" and "distinct (map fst ys)"
    and "\<forall>k \<in> fst ` set xs. k \<in> fst ` set ys"
  shows "fst ` set xs = fst ` set ys"
proof (rule card_subset_eq)
  show "card (fst ` set xs) = card (fst ` set ys)"
    using assms(1-3) by (metis distinct_card length_map set_map)
qed (use assms(4) in auto)

lemma json_eq_sym: "wf_json x \<Longrightarrow> wf_json y \<Longrightarrow> json_eq x y \<Longrightarrow> json_eq y x"
proof (induction x arbitrary: y)
  case (Arr xs)
  from Arr.prems(3) obtain ys where y: "y = JArr ys" "list_all2 json_eq xs ys"
    by (rule json_eq_ArrE)
  have "list_all2 json_eq ys xs"
    using y Arr by (auto simp: list_all2_conv_all_nth)
  with y show ?case by (simp add: json_eq_list_iff)
next
  case (Obj xs)
  from Obj.prems(3) obtain ys where y: "y = JObj ys" and len: "length xs = length ys"
    and sub: "\<forall>kx \<in> set xs. \<exists>z. map_of ys (fst kx) = Some z \<and> json_eq (snd kx) z"
    by (rule json_eq_ObjE)
  from Obj.prems y have d: "distinct (map fst xs)" "distinct (map fst ys)" by auto
  have "\<forall>k \<in> fst ` set xs. k \<in> fst ` set ys"
    using sub by (force dest: map_of_SomeD)
  from same_keys [OF len d this] have keys: "fst ` set xs = fst ` set ys" .
  have "\<exists>z. map_of xs (fst kw) = Some z \<and> json_eq (snd kw) z" if kw: "kw \<in> set ys" for kw
  proof -
    from kw keys have "fst kw \<in> fst ` set xs" by simp
    then obtain kx where kx: "kx \<in> set xs" "fst kx = fst kw" by auto
    with d have x: "map_of xs (fst kw) = Some (snd kx)" by (metis map_of_is_SomeI prod.collapse)
    from d kw have w: "map_of ys (fst kw) = Some (snd kw)" by (simp add: map_of_is_SomeI)
    from sub kx w have "json_eq (snd kx) (snd kw)" by force
    with Obj.IH [OF kx(1)] Obj.prems kx kw y have "json_eq (snd kw) (snd kx)" by auto
    with x show ?thesis by blast
  qed
  with y len show ?case by (simp add: json_eq_items_iff)
qed (frule json_eq_num_cases, simp_all add: json_eq_jnum)

lemma json_eq_trans:
  "wf_json x \<Longrightarrow> wf_json y \<Longrightarrow> wf_json z \<Longrightarrow> json_eq x y \<Longrightarrow> json_eq y z \<Longrightarrow> json_eq x z"
proof (induction x arbitrary: y z)
  case (Arr xs)
  from Arr.prems(4) obtain ys where ys: "y = JArr ys" "list_all2 json_eq xs ys"
    by (rule json_eq_ArrE)
  from Arr.prems(5) [unfolded ys(1)] obtain zs where zs: "z = JArr zs" "list_all2 json_eq ys zs"
    by (rule json_eq_ArrE)
  have "json_eq (xs ! i) (zs ! i)" if "i < length xs" for i
    using that Arr.IH [of "xs ! i" "ys ! i" "zs ! i"] Arr.prems ys zs
    by (auto simp: list_all2_conv_all_nth)
  with ys zs show ?case by (auto simp: json_eq_list_iff list_all2_conv_all_nth)
next
  case (Obj xs)
  from Obj.prems(4) obtain ys where y: "y = JObj ys" "length xs = length ys"
    "\<forall>kx \<in> set xs. \<exists>w. map_of ys (fst kx) = Some w \<and> json_eq (snd kx) w"
    by (rule json_eq_ObjE)
  from Obj.prems(5) [unfolded y(1)] obtain zs where z: "z = JObj zs" "length ys = length zs"
    "\<forall>kx \<in> set ys. \<exists>w. map_of zs (fst kx) = Some w \<and> json_eq (snd kx) w"
    by (rule json_eq_ObjE)
  have "\<exists>w. map_of zs (fst kx) = Some w \<and> json_eq (snd kx) w" if kx: "kx \<in> set xs" for kx
  proof -
    from y kx obtain u where u: "map_of ys (fst kx) = Some u" "json_eq (snd kx) u" by blast
    then have ku: "(fst kx, u) \<in> set ys" by (simp add: map_of_SomeD)
    with z obtain w where w: "map_of zs (fst kx) = Some w" "json_eq u w" by force
    then have kw: "(fst kx, w) \<in> set zs" by (simp add: map_of_SomeD)
    have "wf_json (snd kx)" "wf_json u" "wf_json w"
      using Obj.prems kx ku kw y z by force+
    from Obj.IH [OF kx this u(2) w(2)] w show ?thesis by blast
  qed
  with y z show ?case by (simp add: json_eq_items_iff)
qed (auto simp: json_eq_jnum)

lemma distinct_sort_key_fst [simp]: "distinct (map fst (sort_key fst xs)) \<longleftrightarrow> distinct (map fst xs)"
  by (simp add: distinct_map)

lemma map_of_sort_key_fst:
  assumes "distinct (map fst xs)"
  shows "map_of (sort_key fst xs) = map_of xs"
  using assms by (simp add: map_of_inject_set)

lemma map_of_canonical_obj:
  "distinct (map fst o') \<Longrightarrow> map_of (canonical_obj o') k = map_option canonical (map_of o' k)"
proof -
  assume "distinct (map fst o')"
  then have "distinct (map fst (map (\<lambda>(k, j). (k, canonical j)) o'))"
    by (simp add: comp_def case_prod_unfold)
  then show ?thesis by (simp add: canonical_obj_def map_of_sort_key_fst map_of_map)
qed

lemma set_canonical_obj: "set (canonical_obj o') = (\<lambda>(k, j). (k, canonical j)) ` set o'"
  by (simp add: canonical_obj_def)

lemma keys_canonical_obj [simp]: "fst ` set (canonical_obj o') = fst ` set o'"
  by (force simp: set_canonical_obj)

lemma length_canonical_obj [simp]: "length (canonical_obj o') = length o'"
  by (simp add: canonical_obj_def)

lemma distinct_canonical_obj [simp]:
  "distinct (map fst (canonical_obj o')) \<longleftrightarrow> distinct (map fst o')"
  by (simp add: canonical_obj_def comp_def case_prod_unfold)

lemma wf_canonical [simp]: "wf_json j \<Longrightarrow> wf_json (canonical j)"
proof (induction j)
  case (Obj o')
  then show ?case
    by (auto simp: set_canonical_obj)
qed auto

lemma json_eq_canonical: "wf_json j \<Longrightarrow> json_eq j (canonical j)"
proof (induction j)
  case (Arr js)
  then show ?case by (simp add: json_eq_list_iff list_all2_conv_all_nth)
next
  case (Obj o')
  have "\<exists>y. map_of (canonical_obj o') (fst kx) = Some y \<and> json_eq (snd kx) y"
    if kx: "kx \<in> set o'" for kx
  proof -
    from Obj.prems have d: "distinct (map fst o')" by simp
    with kx have eq: "map_of o' (fst kx) = Some (snd kx)" by (simp add: map_of_is_SomeI)
    have "map_of (canonical_obj o') (fst kx) = Some (canonical (snd kx))"
      by (simp only: map_of_canonical_obj [OF d] eq option.map)
    moreover have "json_eq (snd kx) (canonical (snd kx))"
      using Obj kx by simp
    ultimately show ?thesis by blast
  qed
  then show ?case by (simp add: json_eq_items_iff)
qed auto

lemma wf_canonical_obj [simp]: "wf_obj o' \<Longrightarrow> wf_obj (canonical_obj o')"
  using wf_canonical [of "JObj o'"] by (simp add: wf_obj_def del: wf_json.simps)

lemma jobj_eq_canonical [simp]: "wf_obj o' \<Longrightarrow> jobj_eq o' (canonical_obj o')"
  using json_eq_canonical [of "JObj o'"] by (simp add: wf_obj_def jobj_eq_def del: wf_json.simps json_eq.simps)

lemma jobj_eq_refl [simp]: "wf_obj o' \<Longrightarrow> jobj_eq o' o'"
  unfolding wf_obj_def jobj_eq_def by (rule json_eq_refl)

lemma jobj_eq_sym: "wf_obj x \<Longrightarrow> wf_obj y \<Longrightarrow> jobj_eq x y \<Longrightarrow> jobj_eq y x"
  unfolding wf_obj_def jobj_eq_def by (rule json_eq_sym)

lemma jobj_eq_trans:
  "wf_obj x \<Longrightarrow> wf_obj y \<Longrightarrow> wf_obj z \<Longrightarrow> jobj_eq x y \<Longrightarrow> jobj_eq y z \<Longrightarrow> jobj_eq x z"
  unfolding wf_obj_def jobj_eq_def by (rule json_eq_trans)

lemma canonical_eq_imp_json_eq:
  assumes "wf_json x" and "wf_json y" and "canonical x = canonical y"
  shows "json_eq x y"
proof -
  have "json_eq (canonical x) y"
    using assms json_eq_sym [OF _ _ json_eq_canonical [of y]] by simp
  with json_eq_canonical [of x] show ?thesis
    using json_eq_trans [of x "canonical x" y] assms by simp
qed

lemma sort_key_fst_map_snd:
  "sort_key fst (map (\<lambda>(k, p). (k, f p)) xs) = map (\<lambda>(k, p). (k, f p)) (sort_key fst xs)"
proof -
  have *: "insort_key fst (k, f p) (map (\<lambda>(k, p). (k, f p)) ys) =
      map (\<lambda>(k, p). (k, f p)) (insort_key fst (k, p) ys)" for k p ys
    by (induction ys) auto
  show ?thesis by (induction xs) (auto simp: *)
qed

lemma sort_key_fst_idem [simp]: "sort_key fst (sort_key fst xs) = sort_key fst xs"
  by (simp add: sort_key_id_if_sorted)

lemma canonical_obj_map: "canonical_obj o' = map (\<lambda>(k, j). (k, canonical j)) (sort_key fst o')"
  by (simp add: canonical_obj_def sort_key_fst_map_snd)

lemma canonical_idem [simp]: "canonical (canonical j) = canonical j"
proof (induction j)
  case (Obj o')
  have "map (\<lambda>(k, j). (k, canonical j)) (map (\<lambda>(k, j). (k, canonical j)) (sort_key fst o')) =
      map (\<lambda>(k, j). (k, canonical j)) (sort_key fst o')"
    using Obj by (auto intro!: map_cong)
  then show ?case
    by (simp add: canonical_obj_map sort_key_fst_map_snd)
qed simp_all

lemma canonical_obj_idem [simp]: "canonical_obj (canonical_obj o') = canonical_obj o'"
  using canonical_idem [of "JObj o'"] by simp

lemma canonical_obj_cong:
  "map fst xs = map fst ys \<Longrightarrow> map (canonical \<circ> snd) xs = map (canonical \<circ> snd) ys \<Longrightarrow>
     canonical_obj xs = canonical_obj ys"
proof -
  assume "map fst xs = map fst ys" and "map (canonical \<circ> snd) xs = map (canonical \<circ> snd) ys"
  then have "zip (map fst xs) (map (canonical \<circ> snd) xs) = zip (map fst ys) (map (canonical \<circ> snd) ys)"
    by simp
  then have "map (\<lambda>(k, j). (k, canonical j)) xs = map (\<lambda>(k, j). (k, canonical j)) ys"
    by (simp add: zip_map_map zip_same_conv_map comp_def case_prod_unfold)
  then show ?thesis by (simp add: canonical_obj_def)
qed

end
