(* ===== verification/Transport_Contracts.thy ===== *)
theory Transport_Contracts
  imports PyValue
begin

text \<open>
  The wire records of \<open>src/onr/contracts/transport.py\<close>: \<open>TransportEvent\<close>, \<open>Command\<close>,
  \<open>CommandReceipt\<close> and \<open>CommandOutcome\<close>. Each record is built by a validating constructor
  (\<open>__post_init__\<close>), serialised by \<open>to_dict\<close> and read back by \<open>from_dict\<close>. The typed records hold
  checked values; the constructors take raw Python values, since nothing checks types before.
\<close>

section \<open>Reading JSON\<close>

text \<open>
  \<open>from_json\<close>: the argument is what \<open>json.loads\<close> makes of the text, \<open>None\<close> when it raises.
\<close>

definition from_json :: "(pyval \<Rightarrow> 'a result) \<Rightarrow> pyval option \<Rightarrow> 'a result" where
  "from_json f decoded = (case decoded of None \<Rightarrow> Inl (ValueError InvalidJson) | Some v \<Rightarrow> f v)"

section \<open>Command status\<close>

datatype command_status = ACCEPTED | ALREADY_IN_FLIGHT | COMPLETED | FAILED

fun status_text :: "command_status \<Rightarrow> string" where
  "status_text ACCEPTED = ''accepted''"
| "status_text ALREADY_IN_FLIGHT = ''already_in_flight''"
| "status_text COMPLETED = ''completed''"
| "status_text FAILED = ''failed''"

definition command_status_of :: "pyval \<Rightarrow> command_status result" where
  "command_status_of v = enum_of status_text [ACCEPTED, ALREADY_IN_FLIGHT, COMPLETED, FAILED] v"

lemma command_status_of_text [simp]: "command_status_of (PStr (status_text st)) = Inr st"
  by (cases st) (simp_all add: command_status_of_def enum_of_def)

lemma command_status_of_accepted [simp]: "command_status_of (PStr ''accepted'') = Inr ACCEPTED"
  using command_status_of_text [of ACCEPTED] by simp

section \<open>Transport Events\<close>

record transport_event =
  te_schema_version :: int
  te_event_id :: string
  te_mission_id :: string
  te_sequence :: int
  te_event_kind :: string
  te_payload :: jobj

abbreviation transport_payload :: "pyval \<Rightarrow> jobj result" where
  "transport_payload \<equiv> payload (ValueError KeyNotString) (ValueError NotObject)"

definition transport_event_new ::
  "pyval \<Rightarrow> pyval \<Rightarrow> pyval \<Rightarrow> pyval \<Rightarrow> pyval \<Rightarrow> pyval \<Rightarrow> transport_event result" where
  "transport_event_new schema_version event_id mission_id sequence event_kind pl =
     bindE (positive_int schema_version) (\<lambda>sv.
     bindE (text_of event_id) (\<lambda>eid.
     bindE (text_of mission_id) (\<lambda>mid.
     bindE (nonneg_int sequence) (\<lambda>sq.
     bindE (text_of event_kind) (\<lambda>kind.
     bindE (transport_payload pl) (\<lambda>p.
       Inr \<lparr>te_schema_version = sv, te_event_id = eid, te_mission_id = mid, te_sequence = sq,
         te_event_kind = kind, te_payload = p\<rparr>))))))"

definition transport_event_to_dict :: "transport_event \<Rightarrow> json" where
  "transport_event_to_dict e = JObj [
     (''schema_version'', JInt (te_schema_version e)),
     (''event_id'', JStr (te_event_id e)),
     (''mission_id'', JStr (te_mission_id e)),
     (''sequence'', JInt (te_sequence e)),
     (''event_kind'', JStr (te_event_kind e)),
     (''payload'', JObj (te_payload e))]"

definition transport_event_from_dict :: "pyval \<Rightarrow> transport_event result" where
  "transport_event_from_dict v =
     bindE (strict_fields [''schema_version'', ''event_id'', ''mission_id'', ''sequence'',
       ''event_kind'', ''payload''] v) (\<lambda>kvs.
     transport_event_new (item kvs ''schema_version'') (item kvs ''event_id'')
       (item kvs ''mission_id'') (item kvs ''sequence'') (item kvs ''event_kind'')
       (item kvs ''payload''))"

definition transport_event_json :: "transport_event \<Rightarrow> json" where
  "transport_event_json e = canonical (transport_event_to_dict e)"

text \<open>The dataclass \<open>==\<close>: field by field, payloads by Python equality.\<close>

definition transport_event_eq :: "transport_event \<Rightarrow> transport_event \<Rightarrow> bool" where
  "transport_event_eq a b \<longleftrightarrow>
     te_schema_version a = te_schema_version b \<and> te_event_id a = te_event_id b \<and>
     te_mission_id a = te_mission_id b \<and> te_sequence a = te_sequence b \<and>
     te_event_kind a = te_event_kind b \<and> jobj_eq (te_payload a) (te_payload b)"

definition transport_event_wf :: "transport_event \<Rightarrow> bool" where
  "transport_event_wf e \<longleftrightarrow> 0 < te_schema_version e \<and> nonblank (te_event_id e) \<and>
     nonblank (te_mission_id e) \<and> 0 \<le> te_sequence e \<and> nonblank (te_event_kind e) \<and>
     wf_obj (te_payload e)"

lemma transport_event_new_wf:
  "transport_event_new sv eid mid sq kind pl = Inr e \<Longrightarrow> wf_py pl \<Longrightarrow> transport_event_wf e"
  by (auto simp: transport_event_new_def transport_event_wf_def err_simps payload_wf)

lemma transport_event_from_dict_wf:
  "transport_event_from_dict v = Inr e \<Longrightarrow> wf_py v \<Longrightarrow> transport_event_wf e"
  by (auto simp: transport_event_from_dict_def bindE_eq_Inr strict_fields_Inr
      intro: transport_event_new_wf wf_item)

lemma transport_event_view:
  "transport_event_wf e \<Longrightarrow> transport_event_from_dict (view b (transport_event_to_dict e)) = Inr e"
  by (simp add: transport_event_from_dict_def transport_event_to_dict_def transport_event_new_def
      transport_event_wf_def)

lemma transport_event_json_view:
  "transport_event_wf e \<Longrightarrow> transport_event_from_dict (view b (transport_event_json e)) =
     Inr (e\<lparr>te_payload := canonical_obj (te_payload e)\<rparr>)"
  by (simp add: transport_event_from_dict_def transport_event_json_def transport_event_to_dict_def
      transport_event_new_def transport_event_wf_def map_of_canonical_obj)

lemma transport_event_eq_refl [simp]: "transport_event_wf e \<Longrightarrow> transport_event_eq e e"
  by (simp add: transport_event_eq_def transport_event_wf_def)

lemma transport_event_json_inject:
  assumes "transport_event_wf a" and "transport_event_wf b"
    and "transport_event_json a = transport_event_json b"
  shows "te_event_id a = te_event_id b \<and> te_mission_id a = te_mission_id b \<and>
    te_sequence a = te_sequence b \<and> te_event_kind a = te_event_kind b \<and>
    te_schema_version a = te_schema_version b \<and>
    canonical_obj (te_payload a) = canonical_obj (te_payload b)"
proof -
  have "a\<lparr>te_payload := canonical_obj (te_payload a)\<rparr> = b\<lparr>te_payload := canonical_obj (te_payload b)\<rparr>"
    using transport_event_json_view [OF assms(1), of False]
      transport_event_json_view [OF assms(2), of False] assms(3) by simp
  then show ?thesis by (cases a, cases b) simp
qed

section \<open>Commands\<close>

record command =
  cmd_schema_version :: int
  cmd_command_id :: string
  cmd_correlation_id :: string
  cmd_mission_id :: string
  cmd_target_service :: string
  cmd_command_kind :: string
  cmd_payload :: jobj

definition command_new ::
  "pyval \<Rightarrow> pyval \<Rightarrow> pyval \<Rightarrow> pyval \<Rightarrow> pyval \<Rightarrow> pyval \<Rightarrow> pyval \<Rightarrow> command result" where
  "command_new schema_version command_id correlation_id mission_id target_service command_kind pl =
     bindE (positive_int schema_version) (\<lambda>sv.
     bindE (text_of command_id) (\<lambda>cid.
     bindE (text_of correlation_id) (\<lambda>cor.
     bindE (text_of mission_id) (\<lambda>mid.
     bindE (text_of target_service) (\<lambda>ts.
     bindE (text_of command_kind) (\<lambda>kind.
     bindE (transport_payload pl) (\<lambda>p.
       Inr \<lparr>cmd_schema_version = sv, cmd_command_id = cid, cmd_correlation_id = cor,
         cmd_mission_id = mid, cmd_target_service = ts, cmd_command_kind = kind,
         cmd_payload = p\<rparr>)))))))"

definition command_to_dict :: "command \<Rightarrow> json" where
  "command_to_dict c = JObj [
     (''schema_version'', JInt (cmd_schema_version c)),
     (''command_id'', JStr (cmd_command_id c)),
     (''correlation_id'', JStr (cmd_correlation_id c)),
     (''mission_id'', JStr (cmd_mission_id c)),
     (''target_service'', JStr (cmd_target_service c)),
     (''command_kind'', JStr (cmd_command_kind c)),
     (''payload'', JObj (cmd_payload c))]"

definition command_from_dict :: "pyval \<Rightarrow> command result" where
  "command_from_dict v =
     bindE (strict_fields [''schema_version'', ''command_id'', ''correlation_id'', ''mission_id'',
       ''target_service'', ''command_kind'', ''payload''] v) (\<lambda>kvs.
     command_new (item kvs ''schema_version'') (item kvs ''command_id'')
       (item kvs ''correlation_id'') (item kvs ''mission_id'') (item kvs ''target_service'')
       (item kvs ''command_kind'') (item kvs ''payload''))"

definition command_json :: "command \<Rightarrow> json" where
  "command_json c = canonical (command_to_dict c)"

definition command_wf :: "command \<Rightarrow> bool" where
  "command_wf c \<longleftrightarrow> 0 < cmd_schema_version c \<and> nonblank (cmd_command_id c) \<and>
     nonblank (cmd_correlation_id c) \<and> nonblank (cmd_mission_id c) \<and>
     nonblank (cmd_target_service c) \<and> nonblank (cmd_command_kind c) \<and> wf_obj (cmd_payload c)"

lemma command_new_wf:
  "command_new sv cid cor mid ts kind pl = Inr c \<Longrightarrow> wf_py pl \<Longrightarrow> command_wf c"
  by (auto simp: command_new_def command_wf_def err_simps payload_wf)

lemma command_from_dict_wf: "command_from_dict v = Inr c \<Longrightarrow> wf_py v \<Longrightarrow> command_wf c"
  by (auto simp: command_from_dict_def bindE_eq_Inr strict_fields_Inr
      intro: command_new_wf wf_item)

lemma command_view:
  "command_wf c \<Longrightarrow> command_from_dict (view b (command_to_dict c)) = Inr c"
  by (simp add: command_from_dict_def command_to_dict_def command_new_def command_wf_def)

lemma command_json_view:
  "command_wf c \<Longrightarrow> command_from_dict (view b (command_json c)) =
     Inr (c\<lparr>cmd_payload := canonical_obj (cmd_payload c)\<rparr>)"
  by (simp add: command_from_dict_def command_json_def command_to_dict_def command_new_def
      command_wf_def map_of_canonical_obj)

lemma command_json_inject:
  assumes "command_wf a" and "command_wf b" and "command_json a = command_json b"
  shows "a\<lparr>cmd_payload := canonical_obj (cmd_payload a)\<rparr> = b\<lparr>cmd_payload := canonical_obj (cmd_payload b)\<rparr>"
  using command_json_view [OF assms(1), of False] command_json_view [OF assms(2), of False] assms(3)
  by simp

section \<open>Command receipts\<close>

record command_receipt =
  rc_schema_version :: int
  rc_command_id :: string
  rc_correlation_id :: string
  rc_mission_id :: string
  rc_target_service :: string
  rc_status :: command_status

definition command_receipt_new ::
  "pyval \<Rightarrow> pyval \<Rightarrow> pyval \<Rightarrow> pyval \<Rightarrow> pyval \<Rightarrow> pyval \<Rightarrow> command_receipt result" where
  "command_receipt_new schema_version command_id correlation_id mission_id target_service status =
     bindE (positive_int schema_version) (\<lambda>sv.
     bindE (text_of command_id) (\<lambda>cid.
     bindE (text_of correlation_id) (\<lambda>cor.
     bindE (text_of mission_id) (\<lambda>mid.
     bindE (text_of target_service) (\<lambda>ts.
     bindE (command_status_of status) (\<lambda>st.
     bindE (guardE (st = ACCEPTED) (ValueError BadEnum)) (\<lambda>_.
       Inr \<lparr>rc_schema_version = sv, rc_command_id = cid, rc_correlation_id = cor,
         rc_mission_id = mid, rc_target_service = ts, rc_status = st\<rparr>)))))))"

definition command_receipt_to_dict :: "command_receipt \<Rightarrow> json" where
  "command_receipt_to_dict r = JObj [
     (''schema_version'', JInt (rc_schema_version r)),
     (''command_id'', JStr (rc_command_id r)),
     (''correlation_id'', JStr (rc_correlation_id r)),
     (''mission_id'', JStr (rc_mission_id r)),
     (''target_service'', JStr (rc_target_service r)),
     (''status'', JStr (status_text (rc_status r)))]"

definition command_receipt_from_dict :: "pyval \<Rightarrow> command_receipt result" where
  "command_receipt_from_dict v =
     bindE (strict_fields [''schema_version'', ''command_id'', ''correlation_id'', ''mission_id'',
       ''target_service'', ''status''] v) (\<lambda>kvs.
     command_receipt_new (item kvs ''schema_version'') (item kvs ''command_id'')
       (item kvs ''correlation_id'') (item kvs ''mission_id'') (item kvs ''target_service'')
       (item kvs ''status''))"

definition command_receipt_json :: "command_receipt \<Rightarrow> json" where
  "command_receipt_json r = canonical (command_receipt_to_dict r)"

definition command_receipt_wf :: "command_receipt \<Rightarrow> bool" where
  "command_receipt_wf r \<longleftrightarrow> 0 < rc_schema_version r \<and> nonblank (rc_command_id r) \<and>
     nonblank (rc_correlation_id r) \<and> nonblank (rc_mission_id r) \<and>
     nonblank (rc_target_service r) \<and> rc_status r = ACCEPTED"

lemma command_receipt_new_wf:
  "command_receipt_new sv cid cor mid ts st = Inr r \<Longrightarrow> command_receipt_wf r"
  by (auto simp: command_receipt_new_def command_receipt_wf_def err_simps)

lemma command_receipt_view:
  "command_receipt_wf r \<Longrightarrow> command_receipt_from_dict (view b (command_receipt_to_dict r)) = Inr r"
  by (simp add: command_receipt_from_dict_def command_receipt_to_dict_def command_receipt_new_def
      command_receipt_wf_def)

lemma command_receipt_json_view:
  "command_receipt_wf r \<Longrightarrow> command_receipt_from_dict (view b (command_receipt_json r)) = Inr r"
  by (simp add: command_receipt_from_dict_def command_receipt_json_def command_receipt_to_dict_def
      command_receipt_new_def command_receipt_wf_def map_of_canonical_obj)

section \<open>Command outcomes\<close>

record command_outcome =
  oc_schema_version :: int
  oc_command_id :: string
  oc_correlation_id :: string
  oc_mission_id :: string
  oc_status :: command_status
  oc_payload :: jobj

definition command_outcome_new ::
  "pyval \<Rightarrow> pyval \<Rightarrow> pyval \<Rightarrow> pyval \<Rightarrow> pyval \<Rightarrow> pyval \<Rightarrow> command_outcome result" where
  "command_outcome_new schema_version command_id correlation_id mission_id status pl =
     bindE (positive_int schema_version) (\<lambda>sv.
     bindE (text_of command_id) (\<lambda>cid.
     bindE (text_of correlation_id) (\<lambda>cor.
     bindE (text_of mission_id) (\<lambda>mid.
     bindE (command_status_of status) (\<lambda>st.
     bindE (transport_payload pl) (\<lambda>p.
       Inr \<lparr>oc_schema_version = sv, oc_command_id = cid, oc_correlation_id = cor,
         oc_mission_id = mid, oc_status = st, oc_payload = p\<rparr>))))))"

definition command_outcome_to_dict :: "command_outcome \<Rightarrow> json" where
  "command_outcome_to_dict c = JObj [
     (''schema_version'', JInt (oc_schema_version c)),
     (''command_id'', JStr (oc_command_id c)),
     (''correlation_id'', JStr (oc_correlation_id c)),
     (''mission_id'', JStr (oc_mission_id c)),
     (''status'', JStr (status_text (oc_status c))),
     (''payload'', JObj (oc_payload c))]"

definition command_outcome_from_dict :: "pyval \<Rightarrow> command_outcome result" where
  "command_outcome_from_dict v =
     bindE (strict_fields [''schema_version'', ''command_id'', ''correlation_id'', ''mission_id'',
       ''status'', ''payload''] v) (\<lambda>kvs.
     command_outcome_new (item kvs ''schema_version'') (item kvs ''command_id'')
       (item kvs ''correlation_id'') (item kvs ''mission_id'') (item kvs ''status'')
       (item kvs ''payload''))"

definition command_outcome_json :: "command_outcome \<Rightarrow> json" where
  "command_outcome_json c = canonical (command_outcome_to_dict c)"

definition command_outcome_wf :: "command_outcome \<Rightarrow> bool" where
  "command_outcome_wf c \<longleftrightarrow> 0 < oc_schema_version c \<and> nonblank (oc_command_id c) \<and>
     nonblank (oc_correlation_id c) \<and> nonblank (oc_mission_id c) \<and> wf_obj (oc_payload c)"

lemma command_outcome_new_wf:
  "command_outcome_new sv cid cor mid st pl = Inr c \<Longrightarrow> wf_py pl \<Longrightarrow> command_outcome_wf c"
  by (auto simp: command_outcome_new_def command_outcome_wf_def err_simps payload_wf)

lemma command_outcome_from_dict_wf:
  "command_outcome_from_dict v = Inr c \<Longrightarrow> wf_py v \<Longrightarrow> command_outcome_wf c"
  by (auto simp: command_outcome_from_dict_def bindE_eq_Inr strict_fields_Inr
      intro: command_outcome_new_wf wf_item)

lemma command_outcome_view:
  "command_outcome_wf c \<Longrightarrow> command_outcome_from_dict (view b (command_outcome_to_dict c)) = Inr c"
  by (simp add: command_outcome_from_dict_def command_outcome_to_dict_def command_outcome_new_def
      command_outcome_wf_def)

lemma command_outcome_json_view:
  "command_outcome_wf c \<Longrightarrow> command_outcome_from_dict (view b (command_outcome_json c)) =
     Inr (c\<lparr>oc_payload := canonical_obj (oc_payload c)\<rparr>)"
  by (simp add: command_outcome_from_dict_def command_outcome_json_def command_outcome_to_dict_def
      command_outcome_new_def command_outcome_wf_def map_of_canonical_obj)

end
