(* ===== verification/Event_Port.thy ===== *)
theory Event_Port
  imports Transport_Contracts
begin

text \<open>
  The publishing half of the \<open>Transport\<close> protocol of \<open>src/onr/ports/transport.py\<close>, as the clients
  (FSM Runner, Transition Intent journal, Maneuver Control) see it: three operations on some
  transport state, and the laws a durable transport gives them. A mission's stream on a topic is
  the set of events published there; an event identity is used once in the whole transport.
\<close>

record 's event_port =
  port_publish_event :: "string \<Rightarrow> transport_event \<Rightarrow> (transport_event, 's) eff"
  port_next_event_sequence :: "string \<Rightarrow> string \<Rightarrow> (int, 's) eff"
  port_latest_event :: "string \<Rightarrow> string \<Rightarrow> string option \<Rightarrow> (transport_event option, 's) eff"

abbreviation event_key :: "transport_event \<Rightarrow> int \<times> string" where
  "event_key e \<equiv> (te_sequence e, te_event_id e)"

definition kind_matches :: "string option \<Rightarrow> transport_event \<Rightarrow> bool" where
  "kind_matches kind e \<longleftrightarrow> (case kind of None \<Rightarrow> True | Some k \<Rightarrow> te_event_kind e = k)"

lemma kind_matches_simps [simp]: "kind_matches None e" "kind_matches (Some k) e \<longleftrightarrow> te_event_kind e = k"
  by (simp_all add: kind_matches_def)

text \<open>
  Clients name their events \<open>prefix:mission:sequence\<close>. A client owns its identifiers on a topic when
  such an identifier is only in use for the event with that sequence number of that topic.
\<close>

definition prefixed_id :: "string \<Rightarrow> string \<Rightarrow> int \<Rightarrow> string" where
  "prefixed_id prefix m n = prefix @ '':'' @ m @ '':'' @ show_int n"

lemma prefixed_id_inject:
  "0 \<le> n \<Longrightarrow> 0 \<le> n' \<Longrightarrow> prefixed_id p m n = prefixed_id p m' n' \<longleftrightarrow> m = m' \<and> n = n'"
  using last_colon_unique [of m "show_int n" m' "show_int n'"]
  by (auto simp: prefixed_id_def colon_not_in_show_int dest: show_int_nonneg_inject)

lemma nonblank_prefixed_id [simp]: "nonblank (prefixed_id p m n)"
  by (simp add: prefixed_id_def)

definition owns_ids :: "('s \<Rightarrow> string \<Rightarrow> string \<Rightarrow> transport_event list) \<Rightarrow> ('s \<Rightarrow> string \<Rightarrow> bool) \<Rightarrow>
  string \<Rightarrow> string \<Rightarrow> 's \<Rightarrow> bool" where
  "owns_ids stream used prefix topic s \<longleftrightarrow> (\<forall>m n. 0 \<le> n \<longrightarrow> used s (prefixed_id prefix m n) \<longrightarrow>
     (\<exists>e \<in> set (stream s topic m). te_sequence e = n))"

locale event_stream =
  fixes P :: "'s event_port"
    and inv :: "'s \<Rightarrow> bool"
    and stream :: "'s \<Rightarrow> string \<Rightarrow> string \<Rightarrow> transport_event list"
    and used :: "'s \<Rightarrow> string \<Rightarrow> bool"
  assumes next_sequence: "inv s \<Longrightarrow> nonblank t \<Longrightarrow> nonblank m \<Longrightarrow>
      port_next_event_sequence P t m s =
        (Inr (max_default (-1) (map te_sequence (stream s t m)) + 1), s)"
    and latest: "inv s \<Longrightarrow> port_latest_event P t m k s =
        (Inr (max_by event_key (filter (kind_matches k) (stream s t m))), s)"
    and stream_events: "inv s \<Longrightarrow> e \<in> set (stream s t m) \<Longrightarrow>
        transport_event_wf e \<and> te_mission_id e = m \<and> used s (te_event_id e)"
    and used_streams: "inv s \<Longrightarrow> used s i \<Longrightarrow> \<exists>t m e. e \<in> set (stream s t m) \<and> te_event_id e = i"
    and publish_fresh: "inv s \<Longrightarrow> nonblank t \<Longrightarrow> transport_event_wf e \<Longrightarrow>
        \<not> used s (te_event_id e) \<Longrightarrow>
        te_sequence e \<notin> te_sequence ` set (stream s t (te_mission_id e)) \<Longrightarrow>
        \<exists>s'. port_publish_event P t e s = (Inr e, s') \<and> inv s' \<and>
          set (stream s' t (te_mission_id e)) = insert e (set (stream s t (te_mission_id e))) \<and>
          (\<forall>t' m'. (t', m') \<noteq> (t, te_mission_id e) \<longrightarrow> stream s' t' m' = stream s t' m') \<and>
          (\<forall>i. used s' i \<longleftrightarrow> i = te_event_id e \<or> used s i)"
begin

definition next_of :: "'s \<Rightarrow> string \<Rightarrow> string \<Rightarrow> int" where
  "next_of s t m = max_default (-1) (map te_sequence (stream s t m)) + 1"

lemma next_nonneg: "inv s \<Longrightarrow> 0 \<le> next_of s t m"
  using max_default_lower [of "map te_sequence (stream s t m)" "-1"]
  by (force simp: next_of_def transport_event_wf_def dest: stream_events)

lemma next_above: "e \<in> set (stream s t m) \<Longrightarrow> te_sequence e < next_of s t m"
  using max_default_ge [of "te_sequence e" "map te_sequence (stream s t m)" "-1"]
  by (simp add: next_of_def)

text \<open>
  The clients' pattern \<open>next_event_sequence\<close> then \<open>publish_event\<close>: it always succeeds, and the
  published event is then the latest of its kind and of the whole stream.
\<close>

lemma publish_next:
  assumes "inv s" and "nonblank t" and "transport_event_wf e"
    and "te_sequence e = next_of s t (te_mission_id e)" and "\<not> used s (te_event_id e)"
  shows "\<exists>s'. port_publish_event P t e s = (Inr e, s') \<and> inv s' \<and>
    set (stream s' t (te_mission_id e)) = insert e (set (stream s t (te_mission_id e))) \<and>
    (\<forall>t' m'. (t', m') \<noteq> (t, te_mission_id e) \<longrightarrow> stream s' t' m' = stream s t' m') \<and>
    (\<forall>i. used s' i \<longleftrightarrow> i = te_event_id e \<or> used s i) \<and>
    port_latest_event P t (te_mission_id e) (Some (te_event_kind e)) s' = (Inr (Some e), s') \<and>
    port_latest_event P t (te_mission_id e) None s' = (Inr (Some e), s')"
proof -
  have "te_sequence e \<notin> te_sequence ` set (stream s t (te_mission_id e))"
    using next_above assms(4) by fastforce
  from publish_fresh [OF assms(1-3,5) this] obtain s' where s':
    "port_publish_event P t e s = (Inr e, s')" "inv s'"
    "set (stream s' t (te_mission_id e)) = insert e (set (stream s t (te_mission_id e)))"
    "\<forall>t' m'. (t', m') \<noteq> (t, te_mission_id e) \<longrightarrow> stream s' t' m' = stream s t' m'"
    "\<forall>i. used s' i \<longleftrightarrow> i = te_event_id e \<or> used s i"
    by blast
  have below: "event_key x < event_key e" if "x \<in> set (stream s' t (te_mission_id e))" "x \<noteq> e" for x
    using that s'(3) next_above [of x s t "te_mission_id e"] assms(4) by (auto simp: less_prod_def)
  have max: "max_by event_key (filter (kind_matches k) (stream s' t (te_mission_id e))) = Some e"
    if "kind_matches k e" for k
    using that below s'(3) by (intro max_by_unique) auto
  have "port_latest_event P t (te_mission_id e) (Some (te_event_kind e)) s' = (Inr (Some e), s')"
    and "port_latest_event P t (te_mission_id e) None s' = (Inr (Some e), s')"
    using max [of "Some (te_event_kind e)"] max [of None] s'(2) by (simp_all add: latest)
  with s' show ?thesis by blast
qed

text \<open>A client that owns its identifiers can always publish its next event.\<close>

lemma publish_owned:
  assumes "inv s" and "nonblank t" and "transport_event_wf e" and own: "owns_ids stream used p t s"
    and seq: "te_sequence e = next_of s t (te_mission_id e)"
    and id: "te_event_id e = prefixed_id p (te_mission_id e) (te_sequence e)"
  shows "\<exists>s'. port_publish_event P t e s = (Inr e, s') \<and> inv s' \<and> owns_ids stream used p t s' \<and>
    set (stream s' t (te_mission_id e)) = insert e (set (stream s t (te_mission_id e))) \<and>
    (\<forall>t' m'. (t', m') \<noteq> (t, te_mission_id e) \<longrightarrow> stream s' t' m' = stream s t' m') \<and>
    port_latest_event P t (te_mission_id e) (Some (te_event_kind e)) s' = (Inr (Some e), s') \<and>
    port_latest_event P t (te_mission_id e) None s' = (Inr (Some e), s')"
proof -
  have n: "0 \<le> te_sequence e" using next_nonneg [OF assms(1)] seq by simp
  have "\<not> used s (te_event_id e)"
  proof
    assume "used s (te_event_id e)"
    with own n id obtain x where "x \<in> set (stream s t (te_mission_id e))" "te_sequence x = te_sequence e"
      unfolding owns_ids_def by metis
    with next_above seq show False by fastforce
  qed
  from publish_next [OF assms(1-3) seq this] obtain s' where s':
    "port_publish_event P t e s = (Inr e, s')" "inv s'"
    "set (stream s' t (te_mission_id e)) = insert e (set (stream s t (te_mission_id e)))"
    "\<forall>t' m'. (t', m') \<noteq> (t, te_mission_id e) \<longrightarrow> stream s' t' m' = stream s t' m'"
    "\<forall>i. used s' i \<longleftrightarrow> i = te_event_id e \<or> used s i"
    "port_latest_event P t (te_mission_id e) (Some (te_event_kind e)) s' = (Inr (Some e), s')"
    "port_latest_event P t (te_mission_id e) None s' = (Inr (Some e), s')"
    by blast
  have "owns_ids stream used p t s'"
    unfolding owns_ids_def
  proof (intro allI impI)
    fix m n' assume n': "0 \<le> n'" and "used s' (prefixed_id p m n')"
    with s'(5) id have "prefixed_id p m n' = prefixed_id p (te_mission_id e) (te_sequence e) \<or>
        used s (prefixed_id p m n')" by simp
    then consider "m = te_mission_id e" "n' = te_sequence e" | "used s (prefixed_id p m n')"
      using prefixed_id_inject [OF n' n] by blast
    then show "\<exists>x \<in> set (stream s' t m). te_sequence x = n'"
    proof cases
      case 1
      with s'(3) show ?thesis by auto
    next
      case 2
      with own n' obtain x where "x \<in> set (stream s t m)" "te_sequence x = n'"
        unfolding owns_ids_def by blast
      with s'(3,4) show ?thesis by (cases "m = te_mission_id e") auto
    qed
  qed
  with s' show ?thesis by blast
qed

lemma latest_mem:
  assumes "inv s" and "port_latest_event P t m k s = (Inr (Some e), s')"
  shows "e \<in> set (stream s t m)" and "kind_matches k e" and "s' = s"
  using assms by (auto simp: latest dest: max_by_Some)

end

end
