(* ===== verification/Command_Port.thy ===== *)
theory Command_Port
  imports Transport_Contracts
begin

text \<open>
  The command half of the transport port, \<open>src/onr/ports/transport.py\<close>, as its clients use it, and what
  they rely on: commands and outcomes are recorded once under their identifier, never replaced, and
  sending or answering again is accepted exactly when the canonical text is the same.
\<close>

record 's command_port =
  cport_send_command :: "command \<Rightarrow> (command_receipt, 's) eff"
  cport_publish_outcome :: "command_outcome \<Rightarrow> (command_outcome, 's) eff"
  cport_get_receipt :: "string \<Rightarrow> 's \<Rightarrow> command_receipt option"
  cport_get_outcome :: "string \<Rightarrow> 's \<Rightarrow> command_outcome option"

definition receipt_for :: "command \<Rightarrow> command_receipt" where
  "receipt_for c = \<lparr>rc_schema_version = cmd_schema_version c, rc_command_id = cmd_command_id c,
     rc_correlation_id = cmd_correlation_id c, rc_mission_id = cmd_mission_id c,
     rc_target_service = cmd_target_service c, rc_status = ACCEPTED\<rparr>"

locale command_log =
  fixes P :: "'s command_port"
    and inv :: "'s \<Rightarrow> bool"
    and sent :: "'s \<Rightarrow> string \<Rightarrow> json option"
    and outcome_at :: "'s \<Rightarrow> string \<Rightarrow> command_outcome option"
  assumes get_outcome: "inv s \<Longrightarrow> cport_get_outcome P i s = outcome_at s i"
    and get_receipt: "inv s \<Longrightarrow> (case sent s i of
        None \<Rightarrow> cport_get_receipt P i s = None
      | Some j \<Rightarrow> \<exists>c. command_wf c \<and> command_json c = j \<and> cmd_command_id c = i \<and>
          cport_get_receipt P i s = Some (receipt_for c))"
    and send_new: "inv s \<Longrightarrow> command_wf c \<Longrightarrow> sent s (cmd_command_id c) = None \<Longrightarrow>
      \<exists>s'. cport_send_command P c s = (Inr (receipt_for c), s') \<and> inv s' \<and>
        sent s' = (sent s)(cmd_command_id c \<mapsto> command_json c) \<and> outcome_at s' = outcome_at s"
    and send_again: "inv s \<Longrightarrow> command_wf c \<Longrightarrow> sent s (cmd_command_id c) = Some j \<Longrightarrow>
      cport_send_command P c s = (if j = command_json c then Inr (receipt_for c) else Inl (ValueError Conflict), s)"
    and answer_unknown: "inv s \<Longrightarrow> sent s (oc_command_id r) = None \<Longrightarrow>
      cport_publish_outcome P r s = (Inl (ValueError UnknownCommand), s)"
    and answer_new: "inv s \<Longrightarrow> sent s (oc_command_id r) \<noteq> None \<Longrightarrow> outcome_at s (oc_command_id r) = None \<Longrightarrow>
      \<exists>s'. cport_publish_outcome P r s = (Inr r, s') \<and> inv s' \<and> sent s' = sent s \<and>
        outcome_at s' = (outcome_at s)(oc_command_id r \<mapsto> r)"
    and answer_again: "inv s \<Longrightarrow> sent s (oc_command_id r) \<noteq> None \<Longrightarrow> outcome_at s (oc_command_id r) = Some r' \<Longrightarrow>
      cport_publish_outcome P r s =
        (if command_outcome_json r' = command_outcome_json r then Inr r else Inl (ValueError Conflict), s)"

context command_log
begin

lemma send_state:
  assumes "inv s" and "command_wf c"
  shows "inv (snd (cport_send_command P c s)) \<and> outcome_at (snd (cport_send_command P c s)) = outcome_at s"
proof (cases "sent s (cmd_command_id c)")
  case None
  from send_new [OF assms None] show ?thesis by auto
next
  case (Some j)
  with send_again [OF assms Some] assms(1) show ?thesis by simp
qed

lemma answer_state:
  assumes "inv s"
  shows "inv (snd (cport_publish_outcome P r s)) \<and>
    (\<forall>i o'. outcome_at s i = Some o' \<longrightarrow> outcome_at (snd (cport_publish_outcome P r s)) i = Some o')"
proof (cases "sent s (oc_command_id r) = None")
  case True
  with answer_unknown [OF assms True] assms show ?thesis by simp
next
  case False
  show ?thesis
  proof (cases "outcome_at s (oc_command_id r)")
    case None
    from answer_new [OF assms False None] None show ?thesis by auto
  next
    case (Some r')
    with answer_again [OF assms False Some] assms show ?thesis by simp
  qed
qed

text \<open>An accepted outcome is the recorded one, up to its canonical text.\<close>

lemma answer_Inr:
  assumes "inv s" and "fst (cport_publish_outcome P r s) = Inr x"
  shows "x = r \<and> (\<exists>r'. outcome_at (snd (cport_publish_outcome P r s)) (oc_command_id r) = Some r' \<and>
    command_outcome_json r' = command_outcome_json r)"
proof (cases "sent s (oc_command_id r) = None")
  case True
  with answer_unknown [OF assms(1) True] assms(2) show ?thesis by simp
next
  case False
  show ?thesis
  proof (cases "outcome_at s (oc_command_id r)")
    case None
    from answer_new [OF assms(1) False None] assms(2) show ?thesis by auto
  next
    case (Some r')
    with answer_again [OF assms(1) False Some] assms(2) show ?thesis by (auto split: if_splits)
  qed
qed

end

end
