(* ===== verification/InProcess_Transport.thy ===== *)
theory InProcess_Transport
  imports Event_Port Command_Port
begin

text \<open>
  \<open>src/onr/adapters/inprocess_transport.py\<close> with the subscription record of
  \<open>src/onr/ports/transport.py\<close>: the durable state of the transport, the publishing operations
  and the at-least-once consumer. Dictionaries keep their insertion order.
\<close>

section \<open>Subscriptions and messages\<close>

record subscription =
  sub_service_id :: string
  sub_mission_id :: string
  sub_topic :: string
  sub_max_retries :: int

definition subscription_new :: "pyval \<Rightarrow> pyval \<Rightarrow> pyval \<Rightarrow> pyval \<Rightarrow> subscription result" where
  "subscription_new service_id mission_id topic max_retries =
     bindE (text_of service_id) (\<lambda>sid.
     bindE (text_of mission_id) (\<lambda>mid.
     bindE (text_of topic) (\<lambda>tp.
     case max_retries of
       PInt n \<Rightarrow> if n < 1 then Inl (ValueError NotPositiveInt)
         else Inr \<lparr>sub_service_id = sid, sub_mission_id = mid, sub_topic = tp, sub_max_retries = n\<rparr>
     | _ \<Rightarrow> Inl (ValueError NotInteger))))"

datatype message =
    MEvent transport_event
  | MCommand command
  | MOutcome command_outcome

fun message_to_dict :: "message \<Rightarrow> json" where
  "message_to_dict (MEvent e) = transport_event_to_dict e"
| "message_to_dict (MCommand c) = command_to_dict c"
| "message_to_dict (MOutcome r) = command_outcome_to_dict r"

section \<open>State\<close>

text \<open>
  \<open>InProcessTransportState\<close>. Sets are lists without duplicates. \<open>ts_active\<close> is the part of the
  class variable \<open>InProcessTransport._active\<close> that belongs to this state (its keys start with
  \<open>id(state)\<close>).
\<close>

type_synonym sub_key = "string \<times> string \<times> string"
type_synonym cursor = "(string \<times> int) list"

record dead_letter =
  dead_identity :: string
  dead_attempt :: int
  dead_message :: json

record transport_state =
  ts_events :: "((string \<times> string) \<times> transport_event list) list"
  ts_commands :: "((string \<times> string) \<times> (int \<times> message) list) list"
  ts_identities :: "(string \<times> json) list"
  ts_receipts :: "(string \<times> command_receipt) list"
  ts_outcomes :: "(string \<times> command_outcome) list"
  ts_cursors :: "(sub_key \<times> cursor) list"
  ts_processed :: "(sub_key \<times> string list) list"
  ts_attempts :: "(sub_key \<times> (string \<times> int) list) list"
  ts_dead_letters :: "(sub_key \<times> dead_letter list) list"
  ts_active :: "sub_key list"

definition initial_state :: transport_state where
  "initial_state = \<lparr>ts_events = [], ts_commands = [], ts_identities = [], ts_receipts = [],
     ts_outcomes = [], ts_cursors = [], ts_processed = [], ts_attempts = [],
     ts_dead_letters = [], ts_active = []\<rparr>"

record inprocess_transport =
  ip_subscriptions :: "subscription list"
  ip_max_retries :: int

definition inprocess_new :: "subscription list \<Rightarrow> pyval \<Rightarrow> inprocess_transport result" where
  "inprocess_new subscriptions max_retries = (case max_retries of
     PInt n \<Rightarrow> if n < 1 then Inl (ValueError NotPositiveInt)
       else Inr \<lparr>ip_subscriptions = subscriptions, ip_max_retries = n\<rparr>
   | _ \<Rightarrow> Inl (ValueError NotPositiveInt))"

section \<open>Publishing\<close>

definition event_identity :: "string \<Rightarrow> string" where
  "event_identity i = ''event:'' @ i"

definition command_identity :: "string \<Rightarrow> string" where
  "command_identity i = ''command:'' @ i"

definition outcome_identity :: "string \<Rightarrow> string" where
  "outcome_identity i = ''outcome:'' @ i"

definition stream_of :: "transport_state \<Rightarrow> string \<Rightarrow> string \<Rightarrow> transport_event list" where
  "stream_of s topic mission = getd (ts_events s) (topic, mission) []"

definition queue_of :: "transport_state \<Rightarrow> string \<Rightarrow> string \<Rightarrow> (int \<times> message) list" where
  "queue_of s service mission = getd (ts_commands s) (service, mission) []"

definition publish_event :: "string \<Rightarrow> transport_event \<Rightarrow> (transport_event, transport_state) eff" where
  "publish_event topic wire s =
     (if \<not> nonblank topic then (Inl (ValueError BlankText), s)
      else let identity = event_identity (te_event_id wire); content = transport_event_json wire
      in case map_of (ts_identities s) identity of
        Some existing \<Rightarrow>
          (if existing \<noteq> content then (Inl (ValueError Conflict), s) else (Inr wire, s))
      | None \<Rightarrow>
          let key = (topic, te_mission_id wire);
              stream = stream_of s topic (te_mission_id wire)
          in if \<exists>item \<in> set stream. te_sequence item = te_sequence wire \<and> \<not> transport_event_eq item wire
             then (Inl (ValueError SequenceConflict), s\<lparr>ts_events := put key stream (ts_events s)\<rparr>)
             else (Inr wire, s\<lparr>
               ts_events := put key (sort_key event_key (stream @ [wire])) (ts_events s),
               ts_identities := put identity content (ts_identities s)\<rparr>))"

definition send_command :: "command \<Rightarrow> (command_receipt, transport_state) eff" where
  "send_command c s =
     (let identity = command_identity (cmd_command_id c); content = command_json c
      in case map_of (ts_identities s) identity of
        Some existing \<Rightarrow>
          (if existing \<noteq> content then (Inl (ValueError Conflict), s)
           else (case map_of (ts_receipts s) (cmd_command_id c) of
             None \<Rightarrow> (Inl KeyError, s) | Some r \<Rightarrow> (Inr r, s)))
      | None \<Rightarrow>
          let key = (cmd_target_service c, cmd_mission_id c);
              queue = queue_of s (cmd_target_service c) (cmd_mission_id c);
              receipt = receipt_for c
          in (Inr receipt, s\<lparr>
            ts_commands := put key (queue @ [(int (length queue), MCommand c)]) (ts_commands s),
            ts_identities := put identity content (ts_identities s),
            ts_receipts := put (cmd_command_id c) receipt (ts_receipts s)\<rparr>))"

text \<open>\<open>_command\<close>: the first queued command with this identifier, queues in insertion order.\<close>

fun commands_in :: "(int \<times> message) list \<Rightarrow> command list" where
  "commands_in [] = []"
| "commands_in ((n, MCommand c) # q) = c # commands_in q"
| "commands_in ((n, MEvent e) # q) = commands_in q"
| "commands_in ((n, MOutcome r) # q) = commands_in q"

definition find_command :: "transport_state \<Rightarrow> string \<Rightarrow> command option" where
  "find_command s command_id =
     find (\<lambda>c. cmd_command_id c = command_id) (concat (map (commands_in \<circ> snd) (ts_commands s)))"

definition publish_outcome :: "command_outcome \<Rightarrow> (command_outcome, transport_state) eff" where
  "publish_outcome r s = (case find_command s (oc_command_id r) of
     None \<Rightarrow> (Inl (ValueError UnknownCommand), s)
   | Some c \<Rightarrow>
       let identity = outcome_identity (oc_command_id r); content = command_outcome_json r
       in case map_of (ts_identities s) identity of
         Some existing \<Rightarrow>
           (if existing \<noteq> content then (Inl (ValueError Conflict), s) else (Inr r, s))
       | None \<Rightarrow>
           let key = (cmd_target_service c, cmd_mission_id c);
               queue = queue_of s (cmd_target_service c) (cmd_mission_id c)
           in (Inr r, s\<lparr>
             ts_commands := put key (queue @ [(int (length queue), MOutcome r)]) (ts_commands s),
             ts_identities := put identity content (ts_identities s),
             ts_outcomes := put (oc_command_id r) r (ts_outcomes s)\<rparr>))"

section \<open>Queries\<close>

definition get_command_receipt :: "string \<Rightarrow> transport_state \<Rightarrow> command_receipt option" where
  "get_command_receipt command_id s = map_of (ts_receipts s) command_id"

definition get_command_outcome :: "string \<Rightarrow> transport_state \<Rightarrow> command_outcome option" where
  "get_command_outcome command_id s = map_of (ts_outcomes s) command_id"

definition next_event_sequence :: "string \<Rightarrow> string \<Rightarrow> (int, transport_state) eff" where
  "next_event_sequence topic mission s =
     (if \<not> nonblank topic \<or> \<not> nonblank mission then (Inl (ValueError BlankText), s)
      else (Inr (max_default (-1) (map te_sequence (stream_of s topic mission)) + 1), s))"

definition latest_event ::
  "string \<Rightarrow> string \<Rightarrow> string option \<Rightarrow> transport_state \<Rightarrow> transport_event option" where
  "latest_event topic mission kind s =
     max_by event_key (filter (kind_matches kind) (stream_of s topic mission))"

definition sub_key_of :: "subscription \<Rightarrow> sub_key" where
  "sub_key_of sub = (sub_service_id sub, sub_mission_id sub, sub_topic sub)"

definition get_dead_letters :: "subscription \<Rightarrow> transport_state \<Rightarrow> dead_letter list" where
  "get_dead_letters sub s = getd (ts_dead_letters s) (sub_key_of sub) []"

definition get_cursor :: "subscription \<Rightarrow> transport_state \<Rightarrow> cursor" where
  "get_cursor sub s = getd (ts_cursors s) (sub_key_of sub) [(''sequence'', -1)]"

section \<open>The invariant of the event streams\<close>

text \<open>
  Every stream is sorted by \<open>(sequence, event_id)\<close> and holds each sequence number once; its
  events belong to the stream's mission and are well-formed; an event identity is registered with
  the canonical text of the event exactly when the event is in some stream.
\<close>

definition stream_inv :: "transport_state \<Rightarrow> string \<times> string \<Rightarrow> transport_event list \<Rightarrow> bool" where
  "stream_inv s key es \<longleftrightarrow> sorted (map event_key es) \<and> distinct (map te_sequence es) \<and>
     (\<forall>e \<in> set es. transport_event_wf e \<and> te_mission_id e = snd key \<and>
       map_of (ts_identities s) (event_identity (te_event_id e)) = Some (transport_event_json e))"

definition events_inv :: "transport_state \<Rightarrow> bool" where
  "events_inv s \<longleftrightarrow> distinct (map fst (ts_events s)) \<and>
     (\<forall>ke \<in> set (ts_events s). stream_inv s (fst ke) (snd ke)) \<and>
     (\<forall>i. map_of (ts_identities s) (event_identity i) \<noteq> None \<longrightarrow>
       (\<exists>ke \<in> set (ts_events s). \<exists>e \<in> set (snd ke). te_event_id e = i))"

definition event_used :: "transport_state \<Rightarrow> string \<Rightarrow> bool" where
  "event_used s i \<longleftrightarrow> map_of (ts_identities s) (event_identity i) \<noteq> None"

lemma identity_distinct [simp]:
  "event_identity i \<noteq> command_identity j" "command_identity j \<noteq> event_identity i"
  "event_identity i \<noteq> outcome_identity j" "outcome_identity j \<noteq> event_identity i"
  "command_identity i \<noteq> outcome_identity j" "outcome_identity j \<noteq> command_identity i"
  by (simp_all add: event_identity_def command_identity_def outcome_identity_def)

lemma identity_inject [simp]:
  "event_identity i = event_identity j \<longleftrightarrow> i = j"
  "command_identity i = command_identity j \<longleftrightarrow> i = j"
  "outcome_identity i = outcome_identity j \<longleftrightarrow> i = j"
  by (simp_all add: event_identity_def command_identity_def outcome_identity_def)

lemma events_inv_initial: "events_inv initial_state"
  by (simp add: events_inv_def initial_state_def)

lemma stream_of_mem:
  "events_inv s \<Longrightarrow> ((t, m), es) \<in> set (ts_events s) \<Longrightarrow> stream_of s t m = es"
  by (simp add: stream_of_def getd_def events_inv_def map_of_is_SomeI)

lemma stream_of_cases:
  obtains "stream_of s t m = []" | "((t, m), stream_of s t m) \<in> set (ts_events s)"
  by (cases "map_of (ts_events s) (t, m)") (auto simp: stream_of_def getd_def dest: map_of_SomeD)

lemma stream_of_inv: "events_inv s \<Longrightarrow> stream_inv s (t, m) (stream_of s t m)"
  by (rule stream_of_cases [of s t m]) (force simp: events_inv_def stream_inv_def)+

lemma stream_of_event:
  assumes "events_inv s" and "e \<in> set (stream_of s t m)"
  shows "transport_event_wf e" and "te_mission_id e = m" and "event_used s (te_event_id e)"
    and "map_of (ts_identities s) (event_identity (te_event_id e)) = Some (transport_event_json e)"
  using stream_of_inv [OF assms(1), of t m] assms(2) by (auto simp: stream_inv_def event_used_def)

lemma event_used_stream:
  assumes "events_inv s" and "event_used s i"
  shows "\<exists>t m e. e \<in> set (stream_of s t m) \<and> te_event_id e = i"
proof -
  from assms obtain ke e where ke: "ke \<in> set (ts_events s)" "e \<in> set (snd ke)" "te_event_id e = i"
    unfolding events_inv_def event_used_def by blast
  then have "stream_of s (fst (fst ke)) (snd (fst ke)) = snd ke"
    by (intro stream_of_mem [OF assms(1)]) simp
  with ke have "e \<in> set (stream_of s (fst (fst ke)) (snd (fst ke)))" by simp
  with ke(3) show ?thesis by blast
qed

subsection \<open>Publishing an event\<close>

lemma publish_event_Some:
  "nonblank t \<Longrightarrow> map_of (ts_identities s) (event_identity (te_event_id e)) = Some j \<Longrightarrow>
   publish_event t e s = (if j \<noteq> transport_event_json e then (Inl (ValueError Conflict), s) else (Inr e, s))"
  by (simp add: publish_event_def Let_def)

definition appended :: "string \<Rightarrow> transport_event \<Rightarrow> transport_state \<Rightarrow> transport_state" where
  "appended t e s = s\<lparr>
     ts_events := put (t, te_mission_id e)
       (sort_key event_key (stream_of s t (te_mission_id e) @ [e])) (ts_events s),
     ts_identities := put (event_identity (te_event_id e)) (transport_event_json e) (ts_identities s)\<rparr>"

lemma publish_event_fresh:
  assumes "nonblank t" and "\<not> event_used s (te_event_id e)"
    and "te_sequence e \<notin> te_sequence ` set (stream_of s t (te_mission_id e))"
  shows "publish_event t e s = (Inr e, appended t e s)"
proof -
  have "\<not> (\<exists>x \<in> set (stream_of s t (te_mission_id e)). te_sequence x = te_sequence e \<and> \<not> transport_event_eq x e)"
    using assms(3) by (auto simp: image_iff)
  then show ?thesis
    using assms(1,2) by (simp add: publish_event_def event_used_def appended_def Let_def)
qed

lemma stream_of_appended: "stream_of (appended t e s) t' m' =
    (if (t', m') = (t, te_mission_id e) then sort_key event_key (stream_of s t (te_mission_id e) @ [e])
     else stream_of s t' m')"
  by (auto simp: stream_of_def appended_def)

lemma event_used_appended [simp]:
  "event_used (appended t e s) i \<longleftrightarrow> i = te_event_id e \<or> event_used s i"
  by (auto simp: event_used_def appended_def)

lemma stream_inv_appended:
  assumes "stream_inv s key es" and "\<not> event_used s (te_event_id e)"
  shows "stream_inv (appended t e s) key es"
  using assms by (auto simp: stream_inv_def appended_def event_used_def)

lemma events_inv_appended:
  assumes inv: "events_inv s" and wf: "transport_event_wf e" and new: "\<not> event_used s (te_event_id e)"
    and seq: "te_sequence e \<notin> te_sequence ` set (stream_of s t (te_mission_id e))"
  shows "events_inv (appended t e s)"
proof -
  let ?es = "sort_key event_key (stream_of s t (te_mission_id e) @ [e])"
  let ?s = "appended t e s"
  have "distinct (map te_sequence (stream_of s t (te_mission_id e)))"
    using stream_of_inv [OF inv] by (simp add: stream_inv_def)
  with seq have d: "distinct (map te_sequence ?es)"
    by (auto simp: distinct_map stream_inv_def)
  have "stream_inv ?s (t, te_mission_id e) ?es"
    using stream_inv_appended [OF stream_of_inv [OF inv] new] d wf
    by (auto simp: stream_inv_def appended_def)
  moreover have "stream_inv ?s (fst ke) (snd ke)" if "ke \<in> set (ts_events s)" for ke
    using inv new that by (auto simp: events_inv_def intro!: stream_inv_appended)
  moreover have "set (ts_events ?s) \<subseteq> insert ((t, te_mission_id e), ?es) (set (ts_events s))"
    by (simp add: appended_def set_put_subset)
  ultimately have "\<forall>ke \<in> set (ts_events ?s). stream_inv ?s (fst ke) (snd ke)" by auto
  moreover have "\<exists>ke \<in> set (ts_events ?s). \<exists>x \<in> set (snd ke). te_event_id x = i"
    if reg: "map_of (ts_identities ?s) (event_identity i) \<noteq> None" for i
  proof -
    obtain t' m' x where x: "x \<in> set (stream_of ?s t' m')" "te_event_id x = i"
    proof (cases "i = te_event_id e")
      case True
      have "e \<in> set (stream_of ?s t (te_mission_id e))" by (simp add: stream_of_appended)
      with True that show ?thesis by blast
    next
      case False
      with reg have "event_used s i" by (simp add: event_used_def appended_def)
      from event_used_stream [OF inv this] obtain t' m' x
        where "x \<in> set (stream_of s t' m')" "te_event_id x = i" by blast
      then have "x \<in> set (stream_of ?s t' m')" by (auto simp: stream_of_appended)
      with \<open>te_event_id x = i\<close> that show ?thesis by blast
    qed
    from x(1) have "((t', m'), stream_of ?s t' m') \<in> set (ts_events ?s)"
      by (cases rule: stream_of_cases [of ?s t' m']) auto
    with x show ?thesis by force
  qed
  moreover have "distinct (map fst (ts_events ?s))"
    using inv by (simp add: events_inv_def appended_def)
  ultimately show ?thesis by (simp add: events_inv_def)
qed

text \<open>Every outcome of \<open>publish_event\<close> under the invariant.\<close>

lemma publish_event_cases:
  assumes inv: "events_inv s" and t: "nonblank t" and wf: "transport_event_wf e"
  shows "publish_event t e s =
    (if event_used s (te_event_id e)
     then (if map_of (ts_identities s) (event_identity (te_event_id e)) = Some (transport_event_json e)
           then (Inr e, s) else (Inl (ValueError Conflict), s))
     else if te_sequence e \<in> te_sequence ` set (stream_of s t (te_mission_id e))
     then (Inl (ValueError SequenceConflict), s)
     else (Inr e, appended t e s))"
proof (cases "event_used s (te_event_id e)")
  case True
  with t show ?thesis by (auto simp: event_used_def publish_event_Some)
next
  case new: False
  show ?thesis
  proof (cases "te_sequence e \<in> te_sequence ` set (stream_of s t (te_mission_id e))")
    case False
    with new t publish_event_fresh show ?thesis by simp
  next
    case True
    then obtain x where x: "x \<in> set (stream_of s t (te_mission_id e))" "te_sequence x = te_sequence e"
      by auto
    with stream_of_event [OF inv x(1)] new have "te_event_id x \<noteq> te_event_id e" by auto
    with x have "\<exists>x \<in> set (stream_of s t (te_mission_id e)).
        te_sequence x = te_sequence e \<and> \<not> transport_event_eq x e"
      by (auto simp: transport_event_eq_def)
    moreover have "put (t, te_mission_id e) (stream_of s t (te_mission_id e)) (ts_events s) = ts_events s"
      using x inv by (intro put_same)
        (auto simp: stream_of_def getd_def events_inv_def split: option.splits)
    ultimately show ?thesis
      using new t True by (simp add: publish_event_def event_used_def Let_def)
  qed
qed

lemma publish_event_inv:
  assumes "events_inv s" and "transport_event_wf e"
  shows "events_inv (snd (publish_event t e s))"
proof (cases "nonblank t")
  case True
  with assms show ?thesis by (simp add: publish_event_cases events_inv_appended)
next
  case False
  with assms show ?thesis by (simp add: publish_event_def)
qed

section \<open>The in-process transport as an event port\<close>
definition inprocess_events :: "transport_state event_port" where
  "inprocess_events = \<lparr>
     port_publish_event = publish_event,
     port_next_event_sequence = next_event_sequence,
     port_latest_event = (\<lambda>t m k s. (Inr (latest_event t m k s), s))\<rparr>"

interpretation inproc: event_stream inprocess_events events_inv stream_of event_used
proof unfold_locales
  fix s t m e k i
  assume inv: "events_inv s"
  show "port_next_event_sequence inprocess_events t m s =
      (Inr (max_default (-1) (map te_sequence (stream_of s t m)) + 1), s)"
    if "nonblank t" "nonblank m"
    using that by (simp add: inprocess_events_def next_event_sequence_def)
  show "port_latest_event inprocess_events t m k s =
      (Inr (max_by event_key (filter (kind_matches k) (stream_of s t m))), s)"
    by (simp add: inprocess_events_def latest_event_def)
  show "transport_event_wf e \<and> te_mission_id e = m \<and> event_used s (te_event_id e)"
    if "e \<in> set (stream_of s t m)"
    using stream_of_event [OF inv that] by simp
  show "\<exists>t m e. e \<in> set (stream_of s t m) \<and> te_event_id e = i" if "event_used s i"
    using event_used_stream [OF inv that] .
  assume t: "nonblank t" and wf: "transport_event_wf e" and new: "\<not> event_used s (te_event_id e)"
    and seq: "te_sequence e \<notin> te_sequence ` set (stream_of s t (te_mission_id e))"
  show "\<exists>s'. port_publish_event inprocess_events t e s = (Inr e, s') \<and> events_inv s' \<and>
      set (stream_of s' t (te_mission_id e)) = insert e (set (stream_of s t (te_mission_id e))) \<and>
      (\<forall>t' m'. (t', m') \<noteq> (t, te_mission_id e) \<longrightarrow> stream_of s' t' m' = stream_of s t' m') \<and>
      (\<forall>i. event_used s' i \<longleftrightarrow> i = te_event_id e \<or> event_used s i)"
    using publish_event_fresh [OF t new seq] events_inv_appended [OF inv wf new seq]
    by (intro exI [of _ "appended t e s"])
      (auto simp: inprocess_events_def stream_of_appended)
qed

end
