(* ===== verification/Transport_Port.thy ===== *)
theory Transport_Port
  imports Event_Port Command_Port
begin

text \<open>
  A transport that offers both halves of the \<open>Transport\<close> protocol of \<open>src/onr/ports/transport.py\<close> over one
  state: events do not affect commands and their outcomes, and commands do not affect event streams.
\<close>

locale transport_port = event_stream E inv stream used + command_log C inv sent outcome_at
  for E :: "'s event_port" and C :: "'s command_port" and inv :: "'s \<Rightarrow> bool"
    and stream :: "'s \<Rightarrow> string \<Rightarrow> string \<Rightarrow> transport_event list" and used :: "'s \<Rightarrow> string \<Rightarrow> bool"
    and sent :: "'s \<Rightarrow> string \<Rightarrow> json option" and outcome_at :: "'s \<Rightarrow> string \<Rightarrow> command_outcome option" +
  assumes send_streams: "inv s \<Longrightarrow> command_wf c \<Longrightarrow>
      stream (snd (cport_send_command C c s)) = stream s \<and> used (snd (cport_send_command C c s)) = used s"
    and publish_commands: "inv s \<Longrightarrow> transport_event_wf e \<Longrightarrow>
      sent (snd (port_publish_event E t e s)) = sent s \<and> outcome_at (snd (port_publish_event E t e s)) = outcome_at s"

end
