(* ===== verification/InProcess_Commands.thy ===== *)
theory InProcess_Commands
  imports InProcess_Transport Transport_Port
begin

text \<open>
  The command side of the in-process transport: what \<open>send_command\<close> and \<open>publish_outcome\<close> keep of
  the queues, and their outcome on every branch.
\<close>

section \<open>The invariant of the command queues\<close>

text \<open>
  A queue numbers its entries from 0 without gaps; a queued command is registered with its
  canonical text, sits in the queue of its service and mission and has its receipt; an outcome is
  registered and recorded, and answers a queued command.
\<close>

fun entry_inv :: "transport_state \<Rightarrow> string \<Rightarrow> string \<Rightarrow> message \<Rightarrow> bool" where
  "entry_inv s t m (MCommand c) \<longleftrightarrow> command_wf c \<and> t = cmd_target_service c \<and> m = cmd_mission_id c \<and>
     map_of (ts_identities s) (command_identity (cmd_command_id c)) = Some (command_json c) \<and>
     map_of (ts_receipts s) (cmd_command_id c) = Some (receipt_for c)"
| "entry_inv s t m (MOutcome r) \<longleftrightarrow>
     map_of (ts_identities s) (outcome_identity (oc_command_id r)) = Some (command_outcome_json r) \<and>
     map_of (ts_outcomes s) (oc_command_id r) = Some r"
| "entry_inv s t m (MEvent e) \<longleftrightarrow> False"

definition numbered :: "(int \<times> message) list \<Rightarrow> bool" where
  "numbered q \<longleftrightarrow> map fst q = map int [0..<length q]"

definition entries :: "transport_state \<Rightarrow> string \<Rightarrow> string \<Rightarrow> message list" where
  "entries s t m = map snd (queue_of s t m)"

definition queued :: "transport_state \<Rightarrow> message \<Rightarrow> bool" where
  "queued s x \<longleftrightarrow> (\<exists>t m. x \<in> set (entries s t m))"

definition commands_inv :: "transport_state \<Rightarrow> bool" where
  "commands_inv s \<longleftrightarrow> distinct (map fst (ts_commands s)) \<and>
     (\<forall>t m. numbered (queue_of s t m)) \<and>
     (\<forall>t m x. x \<in> set (entries s t m) \<longrightarrow> entry_inv s t m x) \<and>
     (\<forall>i. map_of (ts_identities s) (command_identity i) \<noteq> None \<longrightarrow>
       (\<exists>c. queued s (MCommand c) \<and> cmd_command_id c = i)) \<and>
     (\<forall>i. map_of (ts_identities s) (outcome_identity i) \<noteq> None \<longrightarrow>
       (\<exists>r. queued s (MOutcome r) \<and> oc_command_id r = i))"

lemma commands_inv_initial: "commands_inv initial_state"
  by (simp add: commands_inv_def initial_state_def queue_of_def numbered_def entries_def)

lemma numbered_snoc: "numbered q \<Longrightarrow> numbered (q @ [(int (length q), x)])"
  by (simp add: numbered_def)

lemma commands_in_iff: "c \<in> set (commands_in q) \<longleftrightarrow> MCommand c \<in> snd ` set q"
  by (induction q rule: commands_in.induct) auto

lemma mem_commands_queued:
  assumes "distinct (map fst (ts_commands s))"
  shows "(\<exists>kq \<in> set (ts_commands s). x \<in> snd ` set (snd kq)) \<longleftrightarrow> queued s x"
proof
  assume "\<exists>kq \<in> set (ts_commands s). x \<in> snd ` set (snd kq)"
  then obtain kq where kq: "kq \<in> set (ts_commands s)" "x \<in> snd ` set (snd kq)" by blast
  obtain t m where "fst kq = (t, m)" by (cases "fst kq")
  with kq(1) have "((t, m), snd kq) \<in> set (ts_commands s)" by (metis prod.collapse)
  with assms have "map_of (ts_commands s) (t, m) = Some (snd kq)" by (rule map_of_is_SomeI)
  then have "entries s t m = map snd (snd kq)" by (simp add: entries_def queue_of_def getd_def)
  with kq show "queued s x" unfolding queued_def by (metis set_map)
next
  assume "queued s x"
  then obtain t m where x: "x \<in> set (entries s t m)" by (auto simp: queued_def)
  then have "map_of (ts_commands s) (t, m) = Some (queue_of s t m)"
    by (cases "map_of (ts_commands s) (t, m)") (auto simp: entries_def queue_of_def getd_def)
  then have "((t, m), queue_of s t m) \<in> set (ts_commands s)" by (rule map_of_SomeD)
  with x show "\<exists>kq \<in> set (ts_commands s). x \<in> snd ` set (snd kq)"
    unfolding entries_def by (metis set_map snd_conv)
qed

lemma find_command_Some:
  assumes "commands_inv s" and "find_command s i = Some c"
  shows "queued s (MCommand c) \<and> cmd_command_id c = i"
proof -
  from assms(2) have "c \<in> set (concat (map (commands_in \<circ> snd) (ts_commands s)))"
    and "cmd_command_id c = i"
    by (auto simp: find_command_def dest: find_mem)
  then show ?thesis
    using assms(1) mem_commands_queued [of s "MCommand c"]
    by (auto simp: commands_in_iff commands_inv_def)
qed

lemma find_command_None:
  assumes "commands_inv s"
  shows "find_command s i = None \<longleftrightarrow> (\<forall>c. queued s (MCommand c) \<longrightarrow> cmd_command_id c \<noteq> i)"
proof -
  have "c \<in> set (concat (map (commands_in \<circ> snd) (ts_commands s))) \<longleftrightarrow> queued s (MCommand c)" for c
    using assms mem_commands_queued [of s "MCommand c"]
    by (auto simp: commands_in_iff commands_inv_def)
  then show ?thesis by (auto simp: find_command_def find_None_iff)
qed

lemma queued_entry:
  "commands_inv s \<Longrightarrow> queued s x \<Longrightarrow> \<exists>t m. x \<in> set (entries s t m) \<and> entry_inv s t m x"
  unfolding queued_def commands_inv_def by blast

lemma command_registered:
  assumes "commands_inv s"
  shows "map_of (ts_identities s) (command_identity i) \<noteq> None \<longleftrightarrow>
    (\<exists>c. queued s (MCommand c) \<and> cmd_command_id c = i)"
proof
  show "map_of (ts_identities s) (command_identity i) \<noteq> None \<Longrightarrow>
      \<exists>c. queued s (MCommand c) \<and> cmd_command_id c = i"
    using assms by (simp add: commands_inv_def)
qed (use assms in \<open>fastforce dest: queued_entry\<close>)

section \<open>Appending to a queue\<close>

definition enqueued :: "string \<Rightarrow> string \<Rightarrow> message \<Rightarrow> transport_state \<Rightarrow> transport_state" where
  "enqueued t m x s = s\<lparr>ts_commands :=
     put (t, m) (queue_of s t m @ [(int (length (queue_of s t m)), x)]) (ts_commands s)\<rparr>"

definition command_added :: "command \<Rightarrow> transport_state \<Rightarrow> transport_state" where
  "command_added c s = (enqueued (cmd_target_service c) (cmd_mission_id c) (MCommand c) s)\<lparr>
     ts_identities := put (command_identity (cmd_command_id c)) (command_json c) (ts_identities s),
     ts_receipts := put (cmd_command_id c) (receipt_for c) (ts_receipts s)\<rparr>"

definition outcome_added :: "command \<Rightarrow> command_outcome \<Rightarrow> transport_state \<Rightarrow> transport_state" where
  "outcome_added c r s = (enqueued (cmd_target_service c) (cmd_mission_id c) (MOutcome r) s)\<lparr>
     ts_identities := put (outcome_identity (oc_command_id r)) (command_outcome_json r) (ts_identities s),
     ts_outcomes := put (oc_command_id r) r (ts_outcomes s)\<rparr>"

lemma queue_of_enqueued [simp]: "queue_of (enqueued t m x s) t' m' =
    (if t' = t \<and> m' = m then queue_of s t m @ [(int (length (queue_of s t m)), x)]
     else queue_of s t' m')"
  by (auto simp: queue_of_def enqueued_def)

lemma entries_enqueued [simp]: "entries (enqueued t m x s) t' m' =
    (if t' = t \<and> m' = m then entries s t m @ [x] else entries s t' m')"
  by (simp add: entries_def)

lemma entries_fields [simp]:
  "entries (s\<lparr>ts_identities := a\<rparr>) t m = entries s t m"
  "entries (s\<lparr>ts_receipts := b\<rparr>) t m = entries s t m"
  "entries (s\<lparr>ts_outcomes := d\<rparr>) t m = entries s t m"
  by (simp_all add: entries_def queue_of_def)

lemma queue_of_identities [simp]:
  "queue_of (s\<lparr>ts_identities := a\<rparr>) t m = queue_of s t m"
  "queue_of (s\<lparr>ts_receipts := b\<rparr>) t m = queue_of s t m"
  "queue_of (s\<lparr>ts_outcomes := d\<rparr>) t m = queue_of s t m"
  by (simp_all add: queue_of_def)

lemma queued_enqueued: "queued (enqueued t m x s) y \<longleftrightarrow> y = x \<or> queued s y"
  by (auto simp: queued_def split: if_splits)

lemma queued_fields [simp]:
  "queued (s\<lparr>ts_identities := a\<rparr>) x = queued s x" "queued (s\<lparr>ts_receipts := b\<rparr>) x = queued s x"
  "queued (s\<lparr>ts_outcomes := d\<rparr>) x = queued s x"
  by (simp_all add: queued_def)

lemma queued_added [simp]:
  "queued (command_added c s) y \<longleftrightarrow> y = MCommand c \<or> queued s y"
  "queued (outcome_added c r s) y \<longleftrightarrow> y = MOutcome r \<or> queued s y"
  by (simp_all add: queued_enqueued command_added_def outcome_added_def)

lemma enqueued_fields [simp]:
  "ts_identities (enqueued t m x s) = ts_identities s" "ts_receipts (enqueued t m x s) = ts_receipts s"
  "ts_outcomes (enqueued t m x s) = ts_outcomes s" "ts_events (enqueued t m x s) = ts_events s"
  by (simp_all add: enqueued_def)

lemma distinct_enqueued: "distinct (map fst (ts_commands s)) \<Longrightarrow>
    distinct (map fst (ts_commands (enqueued t m x s)))"
  by (simp add: enqueued_def)

lemma entry_inv_command_added:
  assumes "entry_inv s t m x" and "map_of (ts_identities s) (command_identity (cmd_command_id c)) = None"
  shows "entry_inv (command_added c s) t m x"
  using assms by (cases x) (auto simp: command_added_def)

lemma entry_inv_outcome_added:
  assumes "entry_inv s t m x" and "map_of (ts_identities s) (outcome_identity (oc_command_id r)) = None"
  shows "entry_inv (outcome_added c r s) t m x"
  using assms by (cases x) (auto simp: outcome_added_def)

lemma commands_inv_command_added:
  assumes inv: "commands_inv s" and wf: "command_wf c"
    and new: "map_of (ts_identities s) (command_identity (cmd_command_id c)) = None"
  shows "commands_inv (command_added c s)"
proof -
  have "entry_inv (command_added c s) t m x"
    if "x \<in> set (entries (command_added c s) t m)" for t m x
  proof (cases "x \<in> set (entries s t m)")
    case True
    with inv have "entry_inv s t m x" by (auto simp: commands_inv_def)
    with new show ?thesis by (rule entry_inv_command_added [rotated])
  next
    case False
    with that have "x = MCommand c" "t = cmd_target_service c" "m = cmd_mission_id c"
      by (auto simp: command_added_def split: if_splits)
    with wf show ?thesis by (simp add: command_added_def)
  qed
  moreover have "numbered (queue_of (command_added c s) t m)" for t m
    using inv by (simp add: command_added_def commands_inv_def numbered_snoc)
  moreover have "distinct (map fst (ts_commands (command_added c s)))"
    using inv by (simp add: command_added_def commands_inv_def distinct_enqueued)
  moreover have "ts_identities (command_added c s)
      = put (command_identity (cmd_command_id c)) (command_json c) (ts_identities s)"
    by (simp add: command_added_def)
  ultimately show ?thesis using inv by (auto simp: commands_inv_def)
qed

lemma commands_inv_outcome_added:
  assumes inv: "commands_inv s"
    and new: "map_of (ts_identities s) (outcome_identity (oc_command_id r)) = None"
  shows "commands_inv (outcome_added c r s)"
proof -
  have "entry_inv (outcome_added c r s) t m x"
    if "x \<in> set (entries (outcome_added c r s) t m)" for t m x
  proof (cases "x \<in> set (entries s t m)")
    case True
    with inv have "entry_inv s t m x" by (auto simp: commands_inv_def)
    with new show ?thesis by (rule entry_inv_outcome_added [rotated])
  next
    case False
    with that have "x = MOutcome r" by (auto simp: outcome_added_def split: if_splits)
    then show ?thesis by (simp add: outcome_added_def)
  qed
  moreover have "numbered (queue_of (outcome_added c r s) t m)" for t m
    using inv by (simp add: outcome_added_def commands_inv_def numbered_snoc)
  moreover have "distinct (map fst (ts_commands (outcome_added c r s)))"
    using inv by (simp add: outcome_added_def commands_inv_def distinct_enqueued)
  moreover have "ts_identities (outcome_added c r s)
      = put (outcome_identity (oc_command_id r)) (command_outcome_json r) (ts_identities s)"
    by (simp add: outcome_added_def)
  ultimately show ?thesis using inv by (auto simp: commands_inv_def)
qed

section \<open>Every branch of the two operations\<close>

lemma receipt_for_json_inject:
  assumes "command_wf a" and "command_wf b" and "command_json a = command_json b"
  shows "receipt_for a = receipt_for b"
  using command_json_inject [OF assms] by (cases a, cases b) (simp add: receipt_for_def)

lemma send_command_cases:
  assumes inv: "commands_inv s" and wf: "command_wf c"
  shows "send_command c s =
    (case map_of (ts_identities s) (command_identity (cmd_command_id c)) of
       None \<Rightarrow> (Inr (receipt_for c), command_added c s)
     | Some j \<Rightarrow> if j = command_json c then (Inr (receipt_for c), s) else (Inl (ValueError Conflict), s))"
proof (cases "map_of (ts_identities s) (command_identity (cmd_command_id c))")
  case None
  then show ?thesis by (simp add: send_command_def command_added_def enqueued_def Let_def)
next
  case (Some j)
  then obtain c' where c': "queued s (MCommand c')" "cmd_command_id c' = cmd_command_id c"
    using command_registered [OF inv] by blast
  with inv Some have "command_wf c'" "j = command_json c'"
    "map_of (ts_receipts s) (cmd_command_id c) = Some (receipt_for c')"
    using queued_entry [OF inv c'(1)] by auto
  with Some wf show ?thesis
    by (auto simp: send_command_def Let_def dest: receipt_for_json_inject)
qed

lemma publish_outcome_cases:
  assumes inv: "commands_inv s"
  shows "publish_outcome r s =
    (case find_command s (oc_command_id r) of
       None \<Rightarrow> (Inl (ValueError UnknownCommand), s)
     | Some c \<Rightarrow> (case map_of (ts_identities s) (outcome_identity (oc_command_id r)) of
         None \<Rightarrow> (Inr r, outcome_added c r s)
       | Some j \<Rightarrow> if j = command_outcome_json r then (Inr r, s) else (Inl (ValueError Conflict), s)))"
  by (simp add: publish_outcome_def outcome_added_def enqueued_def Let_def split: option.splits)

lemma send_command_state:
  "commands_inv s \<Longrightarrow> command_wf c \<Longrightarrow>
     snd (send_command c s) = s \<or> snd (send_command c s) = command_added c s"
  by (simp add: send_command_cases split: option.splits)

lemma publish_outcome_state:
  assumes "commands_inv s"
  obtains "snd (publish_outcome r s) = s" | c where "snd (publish_outcome r s) = outcome_added c r s"
  using publish_outcome_cases [OF assms, of r]
  by (cases "find_command s (oc_command_id r)";
      cases "map_of (ts_identities s) (outcome_identity (oc_command_id r))") (simp_all split: if_splits)

lemma publish_event_state:
  assumes "events_inv s" and "transport_event_wf e"
  shows "snd (publish_event t e s) = s \<or> snd (publish_event t e s) = appended t e s"
proof (cases "nonblank t")
  case True
  with assms show ?thesis by (simp add: publish_event_cases)
next
  case False
  then show ?thesis by (simp add: publish_event_def)
qed

lemma send_command_inv: "commands_inv s \<Longrightarrow> command_wf c \<Longrightarrow> commands_inv (snd (send_command c s))"
  by (auto simp: send_command_cases commands_inv_command_added split: option.splits)

lemma publish_outcome_inv: "commands_inv s \<Longrightarrow> commands_inv (snd (publish_outcome r s))"
  by (auto simp: publish_outcome_cases commands_inv_outcome_added split: option.splits)

text \<open>The two halves of the transport do not disturb each other.\<close>

lemma events_inv_frame:
  assumes "events_inv s" and "ts_events s' = ts_events s"
    and "\<And>i. map_of (ts_identities s') (event_identity i) = map_of (ts_identities s) (event_identity i)"
  shows "events_inv s'"
  using assms by (simp add: events_inv_def stream_inv_def)

lemma commands_inv_frame:
  assumes "commands_inv s" and "ts_commands s' = ts_commands s" and "ts_receipts s' = ts_receipts s"
    and "ts_outcomes s' = ts_outcomes s"
    and "\<And>i. map_of (ts_identities s') (command_identity i) = map_of (ts_identities s) (command_identity i)"
    and "\<And>i. map_of (ts_identities s') (outcome_identity i) = map_of (ts_identities s) (outcome_identity i)"
  shows "commands_inv s'"
proof -
  have "queue_of s' = queue_of s" using assms(2) by (simp add: queue_of_def fun_eq_iff)
  moreover have "entries s' = entries s" using calculation by (simp add: entries_def fun_eq_iff)
  moreover have "queued s' = queued s" using calculation by (simp add: queued_def fun_eq_iff)
  moreover have "entry_inv s' t m x = entry_inv s t m x" for t m x
    using assms(3-6) by (cases x) simp_all
  ultimately show ?thesis using assms by (simp add: commands_inv_def)
qed

definition transport_inv :: "transport_state \<Rightarrow> bool" where
  "transport_inv s \<longleftrightarrow> events_inv s \<and> commands_inv s"

lemma transport_inv_initial: "transport_inv initial_state"
  by (simp add: transport_inv_def events_inv_initial commands_inv_initial)

lemma events_inv_command_added: "events_inv s \<Longrightarrow> events_inv (command_added c s)"
  by (erule events_inv_frame) (simp_all add: command_added_def)

lemma events_inv_outcome_added: "events_inv s \<Longrightarrow> events_inv (outcome_added c r s)"
  by (erule events_inv_frame) (simp_all add: outcome_added_def)

lemma commands_inv_appended: "commands_inv s \<Longrightarrow> commands_inv (appended t e s)"
  by (erule commands_inv_frame) (simp_all add: appended_def)

lemma transport_inv_publish_event:
  assumes "transport_inv s" and "transport_event_wf e"
  shows "transport_inv (snd (publish_event t e s))"
proof -
  from assms(1) have s: "events_inv s" "commands_inv s" by (simp_all add: transport_inv_def)
  from publish_event_state [OF s(1) assms(2), of t] have "commands_inv (snd (publish_event t e s))"
  proof
    assume *: "snd (publish_event t e s) = s"
    show ?thesis unfolding * by (rule s(2))
  next
    assume *: "snd (publish_event t e s) = appended t e s"
    show ?thesis unfolding * by (rule commands_inv_appended [OF s(2)])
  qed
  with publish_event_inv [OF s(1) assms(2)] show ?thesis by (simp add: transport_inv_def)
qed

lemma transport_inv_send_command:
  assumes "transport_inv s" and "command_wf c"
  shows "transport_inv (snd (send_command c s))"
proof -
  from assms(1) have s: "events_inv s" "commands_inv s" by (simp_all add: transport_inv_def)
  from send_command_state [OF s(2) assms(2)] have "events_inv (snd (send_command c s))"
  proof
    assume *: "snd (send_command c s) = s"
    show ?thesis unfolding * by (rule s(1))
  next
    assume *: "snd (send_command c s) = command_added c s"
    show ?thesis unfolding * by (rule events_inv_command_added [OF s(1)])
  qed
  with send_command_inv [OF s(2) assms(2)] show ?thesis by (simp add: transport_inv_def)
qed

lemma transport_inv_publish_outcome:
  assumes "transport_inv s"
  shows "transport_inv (snd (publish_outcome r s))"
proof -
  from assms(1) have s: "events_inv s" "commands_inv s" by (simp_all add: transport_inv_def)
  from s(2) have "events_inv (snd (publish_outcome r s))"
  proof (rule publish_outcome_state [of s r])
    assume *: "snd (publish_outcome r s) = s"
    show ?thesis unfolding * by (rule s(1))
  next
    fix c assume *: "snd (publish_outcome r s) = outcome_added c r s"
    show ?thesis unfolding * by (rule events_inv_outcome_added [OF s(1)])
  qed
  with publish_outcome_inv [OF s(2)] show ?thesis by (simp add: transport_inv_def)
qed

section \<open>The transport as a command log\<close>

text \<open>Receipts and outcomes exist only for registered commands and outcomes.\<close>

definition log_inv :: "transport_state \<Rightarrow> bool" where
  "log_inv s \<longleftrightarrow> transport_inv s \<and>
     (\<forall>i. map_of (ts_receipts s) i \<noteq> None \<longrightarrow> map_of (ts_identities s) (command_identity i) \<noteq> None) \<and>
     (\<forall>i. map_of (ts_outcomes s) i \<noteq> None \<longrightarrow> map_of (ts_identities s) (outcome_identity i) \<noteq> None)"

definition sent_in :: "transport_state \<Rightarrow> string \<Rightarrow> json option" where
  "sent_in s i = map_of (ts_identities s) (command_identity i)"

definition outcome_in :: "transport_state \<Rightarrow> string \<Rightarrow> command_outcome option" where
  "outcome_in s i = map_of (ts_outcomes s) i"

definition inprocess_commands :: "transport_state command_port" where
  "inprocess_commands = \<lparr>cport_send_command = send_command, cport_publish_outcome = publish_outcome,
     cport_get_receipt = get_command_receipt, cport_get_outcome = get_command_outcome\<rparr>"

lemma log_inv_initial [simp]: "log_inv initial_state"
  using transport_inv_initial by (simp add: log_inv_def initial_state_def)

lemma log_inv_commands: "log_inv s \<Longrightarrow> commands_inv s"
  by (simp add: log_inv_def transport_inv_def)

lemma log_inv_command_added:
  assumes "log_inv s" and "command_wf c" and "sent_in s (cmd_command_id c) = None"
  shows "log_inv (command_added c s)"
proof -
  from assms have "transport_inv (command_added c s)"
    by (simp add: log_inv_def transport_inv_def sent_in_def commands_inv_command_added events_inv_command_added)
  with assms show ?thesis by (auto simp: log_inv_def sent_in_def command_added_def)
qed

lemma log_inv_outcome_added:
  assumes "log_inv s" and "map_of (ts_identities s) (outcome_identity (oc_command_id r)) = None"
  shows "log_inv (outcome_added c r s)"
proof -
  from assms have "transport_inv (outcome_added c r s)"
    by (simp add: log_inv_def transport_inv_def commands_inv_outcome_added events_inv_outcome_added)
  with assms show ?thesis by (auto simp: log_inv_def outcome_added_def)
qed

lemma log_inv_publish_event:
  assumes "log_inv s" and "transport_event_wf e"
  shows "log_inv (snd (publish_event t e s)) \<and> outcome_in (snd (publish_event t e s)) = outcome_in s"
proof -
  from assms(1) have inv: "transport_inv s" by (simp add: log_inv_def)
  then have "snd (publish_event t e s) = s \<or> snd (publish_event t e s) = appended t e s"
    using publish_event_state [OF _ assms(2)] by (simp add: transport_inv_def)
  with assms(1) transport_inv_publish_event [OF inv assms(2), of t] show ?thesis
    by (auto simp: log_inv_def outcome_in_def appended_def fun_eq_iff)
qed

lemma known_command: "commands_inv s \<Longrightarrow> find_command s i = None \<longleftrightarrow> sent_in s i = None"
  using command_registered [of s i] by (auto simp: find_command_None sent_in_def)

lemma outcome_registered:
  assumes "log_inv s"
  shows "map_of (ts_identities s) (outcome_identity i) = map_option command_outcome_json (outcome_in s i)"
proof (cases "map_of (ts_identities s) (outcome_identity i)")
  case None
  with assms show ?thesis by (auto simp: log_inv_def outcome_in_def)
next
  case (Some j)
  from assms have inv: "commands_inv s" by (rule log_inv_commands)
  from Some have "map_of (ts_identities s) (outcome_identity i) \<noteq> None" by simp
  with inv obtain r where r: "queued s (MOutcome r)" "oc_command_id r = i"
    unfolding commands_inv_def by blast
  from queued_entry [OF inv r(1)] obtain t m where "entry_inv s t m (MOutcome r)" by blast
  with r(2) Some show ?thesis by (simp add: outcome_in_def)
qed

lemma sent_receipt:
  assumes "commands_inv s" and "sent_in s i = Some j"
  shows "\<exists>c. command_wf c \<and> command_json c = j \<and> cmd_command_id c = i \<and>
    map_of (ts_receipts s) i = Some (receipt_for c)"
proof -
  from assms(2) command_registered [OF assms(1), of i]
  obtain c where c: "queued s (MCommand c)" "cmd_command_id c = i" by (auto simp: sent_in_def)
  from queued_entry [OF assms(1) c(1)] c(2) assms(2) show ?thesis by (auto simp: sent_in_def)
qed

interpretation inproc_commands: command_log inprocess_commands log_inv sent_in outcome_in
proof (unfold_locales, goal_cases)
  case (1 s i)
  then show ?case by (simp add: inprocess_commands_def get_command_outcome_def outcome_in_def)
next
  case (2 s i)
  then show ?case using sent_receipt [OF log_inv_commands, of s i]
    by (auto simp: inprocess_commands_def get_command_receipt_def log_inv_def sent_in_def split: option.split)
next
  case (3 s c)
  then have "cport_send_command inprocess_commands c s = (Inr (receipt_for c), command_added c s)"
    by (simp add: inprocess_commands_def send_command_cases log_inv_commands sent_in_def)
  moreover have "sent_in (command_added c s) = (sent_in s)(cmd_command_id c \<mapsto> command_json c)"
    by (auto simp: sent_in_def command_added_def fun_eq_iff)
  moreover have "outcome_in (command_added c s) = outcome_in s"
    by (simp add: outcome_in_def command_added_def fun_eq_iff)
  ultimately show ?case using log_inv_command_added [OF 3] by blast
next
  case (4 s c j)
  then show ?case
    by (simp add: inprocess_commands_def send_command_cases log_inv_commands sent_in_def)
next
  case (5 s r)
  then show ?case
    using known_command [of s "oc_command_id r"]
    by (simp add: inprocess_commands_def publish_outcome_cases log_inv_commands)
next
  case (6 s r)
  then have inv: "commands_inv s" by (simp add: log_inv_commands)
  with 6 known_command [OF inv, of "oc_command_id r"] obtain c where c: "find_command s (oc_command_id r) = Some c" by auto
  from outcome_registered [OF 6(1)] 6(3) have new: "map_of (ts_identities s) (outcome_identity (oc_command_id r)) = None"
    by simp
  have "cport_publish_outcome inprocess_commands r s = (Inr r, outcome_added c r s)"
    by (simp add: inprocess_commands_def publish_outcome_cases inv c new)
  moreover have "sent_in (outcome_added c r s) = sent_in s"
    by (simp add: sent_in_def outcome_added_def fun_eq_iff)
  moreover have "outcome_in (outcome_added c r s) = (outcome_in s)(oc_command_id r \<mapsto> r)"
    by (auto simp: outcome_in_def outcome_added_def fun_eq_iff)
  ultimately show ?case using log_inv_outcome_added [OF 6(1) new] by blast
next
  case (7 s r r')
  then have inv: "commands_inv s" by (simp add: log_inv_commands)
  with 7 known_command [OF inv, of "oc_command_id r"] obtain c where c: "find_command s (oc_command_id r) = Some c" by auto
  from outcome_registered [OF 7(1)] 7(3)
  have "map_of (ts_identities s) (outcome_identity (oc_command_id r)) = Some (command_outcome_json r')" by simp
  with c show ?case by (simp add: inprocess_commands_def publish_outcome_cases inv)
qed

text \<open>The two halves together.\<close>

lemma stream_of_command_added [simp]: "stream_of (command_added c s) = stream_of s"
  by (simp add: stream_of_def command_added_def fun_eq_iff)

lemma event_used_command_added [simp]: "event_used (command_added c s) = event_used s"
  by (simp add: event_used_def command_added_def fun_eq_iff)

interpretation inproc_port: transport_port inprocess_events inprocess_commands log_inv stream_of event_used sent_in outcome_in
proof (unfold_locales, goal_cases)
  case (1 s t m)
  then show ?case by (intro inproc.next_sequence) (simp_all add: log_inv_def transport_inv_def)
next
  case (2 s t m k)
  then show ?case by (intro inproc.latest) (simp_all add: log_inv_def transport_inv_def)
next
  case (3 s e t m)
  then show ?case by (intro inproc.stream_events) (simp_all add: log_inv_def transport_inv_def)
next
  case (4 s i)
  then show ?case by (intro inproc.used_streams) (simp_all add: log_inv_def transport_inv_def)
next
  case (5 s t e)
  from 5(1) have "events_inv s" by (simp add: log_inv_def transport_inv_def)
  from inproc.publish_fresh [OF this 5(2-5)] obtain s' where s': "port_publish_event inprocess_events t e s = (Inr e, s')"
    "set (stream_of s' t (te_mission_id e)) = insert e (set (stream_of s t (te_mission_id e)))"
    "\<forall>t' m'. (t', m') \<noteq> (t, te_mission_id e) \<longrightarrow> stream_of s' t' m' = stream_of s t' m'"
    "\<forall>i. event_used s' i \<longleftrightarrow> i = te_event_id e \<or> event_used s i" by blast
  moreover have "log_inv s'" using log_inv_publish_event [OF 5(1,3), of t] s'(1) by (simp add: inprocess_events_def)
  ultimately show ?case by blast
next
  case (6 s c)
  then have "snd (cport_send_command inprocess_commands c s) = s \<or> snd (cport_send_command inprocess_commands c s) = command_added c s"
    using send_command_state [OF log_inv_commands] by (simp add: inprocess_commands_def)
  then show ?case by (elim disjE) simp_all
next
  case (7 s e t)
  then have "snd (port_publish_event inprocess_events t e s) = s \<or> snd (port_publish_event inprocess_events t e s) = appended t e s"
    using publish_event_state [of s e t] by (simp add: inprocess_events_def log_inv_def transport_inv_def)
  then show ?case by (elim disjE) (simp_all add: sent_in_def outcome_in_def appended_def fun_eq_iff)
qed

text \<open>What other users of the transport may do to it meanwhile.\<close>

inductive transport_other :: "transport_state \<Rightarrow> transport_state \<Rightarrow> bool" where
  "transport_event_wf e \<Longrightarrow> transport_other s (snd (publish_event t e s))"
| "command_wf c \<Longrightarrow> transport_other s (snd (send_command c s))"
| "transport_other s (snd (publish_outcome r s))"

lemma transport_other_inv:
  assumes "transport_other s s'" and "log_inv s"
  shows "log_inv s' \<and> (\<forall>i r. outcome_in s i = Some r \<longrightarrow> outcome_in s' i = Some r)"
  using assms
proof (induction rule: transport_other.induct)
  case (1 e s t)
  then show ?case by (simp add: log_inv_publish_event)
next
  case (2 c s)
  with inproc_commands.send_state [of s c] show ?case by (simp add: inprocess_commands_def)
next
  case (3 s r)
  with inproc_commands.answer_state [of s r] show ?case by (simp add: inprocess_commands_def)
qed

end
