(* ===== verification/InProcess_Consumer.thy ===== *)
theory InProcess_Consumer
  imports InProcess_Commands
begin

text \<open>
  The at-least-once consumer of \<open>src/onr/adapters/inprocess_transport.py\<close>: opening and closing,
  selection of the next message, delivery, acknowledgement, retries and dead letters. A consumer
  and the transport state change together; object identity is a number given when the object is
  created. What holds along every run of a consumer with concurrent publishers is proved by rule
  induction over the runs.
\<close>

section \<open>Consumers and deliveries\<close>

type_synonym candidate = "int \<times> string \<times> message \<times> string"

record consumer =
  co_id :: nat
  co_subscription :: subscription
  co_closed :: bool
  co_active :: "candidate option"

record delivery =
  dl_consumer :: nat
  dl_message :: message
  dl_identity :: string
  dl_sequence :: int
  dl_attempt :: int
  dl_done :: bool

type_synonym session = "consumer \<times> transport_state"

definition open_consumer ::
  "inprocess_transport \<Rightarrow> nat \<Rightarrow> subscription \<Rightarrow> (consumer, transport_state) eff" where
  "open_consumer tr new_id sub s =
     (if sub \<notin> set (ip_subscriptions tr) then (Inl (ValueError Undeclared), s)
      else if sub_key_of sub \<in> set (ts_active s) then (Inl (RuntimeError AlreadyActive), s)
      else (Inr \<lparr>co_id = new_id, co_subscription = sub, co_closed = False, co_active = None\<rparr>,
            s\<lparr>ts_active := sub_key_of sub # ts_active s\<rparr>))"

definition close_consumer :: "(unit, session) eff" where
  "close_consumer cs = (case cs of (c, s) \<Rightarrow>
     if co_closed c then (Inr (), (c, s))
     else (Inr (), (c\<lparr>co_closed := True\<rparr>,
       s\<lparr>ts_active := removeAll (sub_key_of (co_subscription c)) (ts_active s)\<rparr>)))"

section \<open>Selection\<close>

definition accepts_kind :: "subscription \<Rightarrow> string \<Rightarrow> bool" where
  "accepts_kind sub kind \<longleftrightarrow>
     kind \<in> {sub_topic sub, ''commands/'' @ sub_topic sub, ''commands''}"

definition event_candidate :: "transport_event \<Rightarrow> candidate" where
  "event_candidate e = (te_sequence e, te_event_id e, MEvent e, ''event'')"

fun command_candidates :: "subscription \<Rightarrow> (int \<times> message) list \<Rightarrow> candidate list" where
  "command_candidates sub [] = []"
| "command_candidates sub ((n, MCommand c) # q) =
     (if accepts_kind sub (cmd_command_kind c)
      then (n, cmd_command_id c, MCommand c, ''command'') # command_candidates sub q
      else command_candidates sub q)"
| "command_candidates sub ((n, MOutcome r) # q) =
     (n, outcome_identity (oc_command_id r), MOutcome r, ''command'') # command_candidates sub q"
| "command_candidates sub ((n, MEvent e) # q) = command_candidates sub q"

definition delivery_candidates :: "subscription \<Rightarrow> transport_state \<Rightarrow> candidate list" where
  "delivery_candidates sub s =
     map event_candidate (stream_of s (sub_topic sub) (sub_mission_id sub)) @
     command_candidates sub (queue_of s (sub_service_id sub) (sub_mission_id sub))"

definition limit_of :: "cursor \<Rightarrow> string \<Rightarrow> int" where
  "limit_of cursor source =
     getd cursor source (if source = ''event'' then getd cursor ''sequence'' (-1) else -1)"

definition processed_of :: "subscription \<Rightarrow> transport_state \<Rightarrow> string list" where
  "processed_of sub s = getd (ts_processed s) (sub_key_of sub) []"

definition attempts_of :: "subscription \<Rightarrow> transport_state \<Rightarrow> (string \<times> int) list" where
  "attempts_of sub s = getd (ts_attempts s) (sub_key_of sub) []"

definition eligible :: "cursor \<Rightarrow> string list \<Rightarrow> candidate \<Rightarrow> bool" where
  "eligible cursor processed x = (case x of (sequence, identity, _, source) \<Rightarrow>
     identity \<notin> set processed \<and> sequence > limit_of cursor source)"

definition candidate_key :: "candidate \<Rightarrow> int \<times> string" where
  "candidate_key x = (case x of (sequence, identity, _, _) \<Rightarrow> (sequence, identity))"

definition next_candidate :: "subscription \<Rightarrow> transport_state \<Rightarrow> candidate option" where
  "next_candidate sub s =
     find (eligible (get_cursor sub s) (processed_of sub s)) (sort_key candidate_key (delivery_candidates sub s))"

section \<open>Delivery\<close>

definition save_cursor :: "subscription \<Rightarrow> int \<Rightarrow> string \<Rightarrow> transport_state \<Rightarrow> transport_state" where
  "save_cursor sub sequence source s =
     (let cursor = get_cursor sub s;
          default = (if source = ''event'' then getd cursor ''sequence'' (-1) else -1);
          cursor1 = put source (max (getd cursor source default) sequence) cursor;
          cursor2 = put ''sequence'' (max (getd cursor1 ''sequence'' (-1)) sequence) cursor1
      in s\<lparr>ts_cursors := put (sub_key_of sub) cursor2 (ts_cursors s)\<rparr>)"

definition add_processed :: "subscription \<Rightarrow> string \<Rightarrow> transport_state \<Rightarrow> transport_state" where
  "add_processed sub identity s =
     s\<lparr>ts_processed := put (sub_key_of sub) (List.insert identity (processed_of sub s)) (ts_processed s)\<rparr>"

definition set_attempt :: "subscription \<Rightarrow> string \<Rightarrow> int \<Rightarrow> transport_state \<Rightarrow> transport_state" where
  "set_attempt sub identity n s =
     s\<lparr>ts_attempts := put (sub_key_of sub) (put identity n (attempts_of sub s)) (ts_attempts s)\<rparr>"

definition add_dead_letter :: "subscription \<Rightarrow> dead_letter \<Rightarrow> transport_state \<Rightarrow> transport_state" where
  "add_dead_letter sub d s =
     s\<lparr>ts_dead_letters := put (sub_key_of sub) (get_dead_letters sub s @ [d]) (ts_dead_letters s)\<rparr>"

text \<open>One turn of the loop of \<open>receive\<close>: nothing left, a delivery, or a message given up.\<close>

datatype turn =
    Idle
  | Deliver delivery session
  | GiveUp session

definition receive_turn :: "session \<Rightarrow> turn" where
  "receive_turn cs = (case cs of (c, s) \<Rightarrow>
     let sub = co_subscription c
     in case (case co_active c of Some x \<Rightarrow> Some x | None \<Rightarrow> next_candidate sub s) of
       None \<Rightarrow> Idle
     | Some (sequence, identity, message, source) \<Rightarrow>
         let attempt = getd (attempts_of sub s) identity 0 + 1;
             s1 = set_attempt sub identity attempt s
         in if attempt > sub_max_retries sub
            then GiveUp (c\<lparr>co_active := None\<rparr>,
              save_cursor sub sequence source (add_processed sub identity (add_dead_letter sub
                \<lparr>dead_identity = identity, dead_attempt = attempt,
                  dead_message = message_to_dict message\<rparr> s1)))
            else Deliver
              \<lparr>dl_consumer = co_id c, dl_message = message, dl_identity = identity,
                dl_sequence = sequence, dl_attempt = attempt, dl_done = False\<rparr>
              (c\<lparr>co_active := Some (sequence, identity, message, source)\<rparr>, s1))"

definition unprocessed :: "subscription \<Rightarrow> transport_state \<Rightarrow> candidate list" where
  "unprocessed sub s = filter (\<lambda>x. fst (snd x) \<notin> set (processed_of sub s)) (delivery_candidates sub s)"

definition backlog :: "session \<Rightarrow> nat" where
  "backlog cs = length (unprocessed (co_subscription (fst cs)) (snd cs)) +
     (if co_active (fst cs) = None then 0 else 1)"

lemma state_updates [simp]:
  "delivery_candidates sub (save_cursor sub' n src s) = delivery_candidates sub s"
  "delivery_candidates sub (add_processed sub' i s) = delivery_candidates sub s"
  "delivery_candidates sub (set_attempt sub' i n s) = delivery_candidates sub s"
  "delivery_candidates sub (add_dead_letter sub' d s) = delivery_candidates sub s"
  "processed_of sub (save_cursor sub' n src s) = processed_of sub s"
  "processed_of sub (set_attempt sub' i n s) = processed_of sub s"
  "processed_of sub (add_dead_letter sub' d s) = processed_of sub s"
  "get_cursor sub (add_processed sub' i s) = get_cursor sub s"
  "get_cursor sub (set_attempt sub' i n s) = get_cursor sub s"
  "get_cursor sub (add_dead_letter sub' d s) = get_cursor sub s"
  "attempts_of sub (save_cursor sub' n src s) = attempts_of sub s"
  "attempts_of sub (add_processed sub' i s) = attempts_of sub s"
  "attempts_of sub (add_dead_letter sub' d s) = attempts_of sub s"
  "get_dead_letters sub (save_cursor sub' n src s) = get_dead_letters sub s"
  "get_dead_letters sub (add_processed sub' i s) = get_dead_letters sub s"
  "get_dead_letters sub (set_attempt sub' i n s) = get_dead_letters sub s"
  by (simp_all add: delivery_candidates_def stream_of_def queue_of_def save_cursor_def add_processed_def
      set_attempt_def add_dead_letter_def processed_of_def get_cursor_def attempts_of_def
      get_dead_letters_def Let_def)

lemma processed_add [simp]: "set (processed_of sub (add_processed sub i s)) = insert i (set (processed_of sub s))"
  by (simp add: processed_of_def add_processed_def)

lemma attempts_set [simp]: "attempts_of sub (set_attempt sub i n s) = put i n (attempts_of sub s)"
  by (simp add: attempts_of_def set_attempt_def)

lemma dead_letters_add [simp]:
  "get_dead_letters sub (add_dead_letter sub d s) = get_dead_letters sub s @ [d]"
  by (simp add: get_dead_letters_def add_dead_letter_def)

lemma next_candidate_Some:
  assumes "next_candidate sub s = Some x"
  shows "x \<in> set (delivery_candidates sub s)" and "eligible (get_cursor sub s) (processed_of sub s) x"
  using assms by (auto simp: next_candidate_def dest: find_mem)

lemma next_candidate_None: "next_candidate sub s = None \<longleftrightarrow>
    (\<forall>x \<in> set (delivery_candidates sub s). \<not> eligible (get_cursor sub s) (processed_of sub s) x)"
  by (auto simp: next_candidate_def find_None_iff)

lemma unprocessed_less:
  assumes "x \<in> set (delivery_candidates sub s)" and "fst (snd x) \<notin> set (processed_of sub s)"
    and "delivery_candidates sub s' = delivery_candidates sub s"
    and "set (processed_of sub s') = insert (fst (snd x)) (set (processed_of sub s))"
  shows "length (unprocessed sub s') < length (unprocessed sub s)"
proof -
  have "unprocessed sub s' = filter (\<lambda>y. fst (snd y) \<noteq> fst (snd x)) (unprocessed sub s)"
    using assms(3,4) by (auto simp: unprocessed_def intro: filter_cong)
  moreover have "x \<in> set (unprocessed sub s)" using assms(1,2) by (simp add: unprocessed_def)
  ultimately show ?thesis
    by (metis (mono_tags, lifting) length_filter_less)
qed

lemma unprocessed_le:
  assumes "delivery_candidates sub s' = delivery_candidates sub s"
    and "set (processed_of sub s) \<subseteq> set (processed_of sub s')"
  shows "length (unprocessed sub s') \<le> length (unprocessed sub s)"
proof -
  have "unprocessed sub s' = filter (\<lambda>y. fst (snd y) \<notin> set (processed_of sub s')) (unprocessed sub s)"
    using assms by (auto simp: unprocessed_def intro: filter_cong)
  then show ?thesis by (metis length_filter_le)
qed

text \<open>A message given up leaves the backlog, so the loop of \<open>receive\<close> ends.\<close>

lemma GiveUp_backlog:
  assumes "receive_turn cs = GiveUp cs'"
  shows "backlog cs' < backlog cs"
proof -
  obtain c s where cs: "cs = (c, s)" by (cases cs)
  show ?thesis
  proof (cases "co_active c")
    case None
    with assms cs obtain x where x: "next_candidate (co_subscription c) s = Some x"
      by (auto simp: receive_turn_def Let_def split: option.splits)
    note mem = next_candidate_Some [OF x]
    with None x assms cs show ?thesis
      by (cases x) (auto simp: receive_turn_def Let_def backlog_def eligible_def
          split: if_splits intro!: unprocessed_less [of x])
  next
    case (Some x)
    with assms cs show ?thesis
      by (cases x) (auto simp: receive_turn_def Let_def backlog_def less_Suc_eq_le
          split: if_splits intro!: unprocessed_le)
  qed
qed

function receive_loop :: "session \<Rightarrow> delivery option \<times> session" where
  "receive_loop cs = (case receive_turn cs of
     Idle \<Rightarrow> (None, cs)
   | Deliver d cs' \<Rightarrow> (Some d, cs')
   | GiveUp cs' \<Rightarrow> receive_loop cs')"
  by auto
termination
  by (relation "measure backlog") (simp_all add: GiveUp_backlog)

declare receive_loop.simps [simp del]

text \<open>\<open>receive\<close> creates the entries of the subscription that are missing before it loops.\<close>

definition with_defaults :: "subscription \<Rightarrow> transport_state \<Rightarrow> transport_state" where
  "with_defaults sub s =
     s\<lparr>ts_processed := put (sub_key_of sub) (processed_of sub s) (ts_processed s),
       ts_attempts := put (sub_key_of sub) (attempts_of sub s) (ts_attempts s)\<rparr>"

definition receive :: "(delivery option, session) eff" where
  "receive cs = (case cs of (c, s) \<Rightarrow>
     if co_closed c then (Inl (RuntimeError Closed), (c, s))
     else (case receive_loop (c, with_defaults (co_subscription c) s) of (d, cs') \<Rightarrow> (Inr d, cs')))"

definition ack :: "delivery \<Rightarrow> (delivery, session) eff" where
  "ack d cs = (case cs of (c, s) \<Rightarrow>
     if dl_consumer d \<noteq> co_id c then (Inl (ValueError Foreign), (c, s))
     else if dl_done d then (Inr d, (c, s))
     else
       let sub = co_subscription c;
           s1 = add_processed sub (dl_identity d) s;
           mine = (case co_active c of Some (_, identity, _, _) \<Rightarrow> identity = dl_identity d | None \<Rightarrow> False);
           source = (case co_active c of
               Some (_, identity, _, src) \<Rightarrow> if identity = dl_identity d then src else ''event''
             | None \<Rightarrow> ''event'')
       in (Inr (d\<lparr>dl_done := True\<rparr>),
           (if mine then c\<lparr>co_active := None\<rparr> else c, save_cursor sub (dl_sequence d) source s1)))"

definition nack :: "delivery \<Rightarrow> (unit, session) eff" where
  "nack d cs = (if dl_consumer d \<noteq> co_id (fst cs) then (Inl (ValueError Foreign), cs) else (Inr (), cs))"


section \<open>Runs of a consumer with concurrent publishers\<close>

text \<open>
  A step of a run: somebody publishes, sends or answers; the consumer receives or acknowledges a
  delivery it was handed; or the consumer is closed and a new one is opened for the same
  subscription. The first component holds every delivery object handed out so far.
\<close>

type_synonym run_state = "delivery set \<times> session"

inductive consumer_step :: "inprocess_transport \<Rightarrow> run_state \<Rightarrow> run_state \<Rightarrow> bool"
  for tr :: inprocess_transport where
  publish: "transport_event_wf e \<Longrightarrow>
    consumer_step tr (D, (c, s)) (D, (c, snd (publish_event t e s)))"
| send: "command_wf k \<Longrightarrow> consumer_step tr (D, (c, s)) (D, (c, snd (send_command k s)))"
| outcome: "consumer_step tr (D, (c, s)) (D, (c, snd (publish_outcome r s)))"
| idle: "receive cs = (Inr None, cs') \<Longrightarrow> consumer_step tr (D, cs) (D, cs')"
| deliver: "receive cs = (Inr (Some d), cs') \<Longrightarrow> consumer_step tr (D, cs) (insert d D, cs')"
| acknowledge: "d \<in> D \<Longrightarrow> ack d cs = (Inr d', cs') \<Longrightarrow>
    consumer_step tr (D, cs) (insert d' (D - {d}), cs')"
| restart: "close_consumer (c, s) = (Inr (), (c1, s1)) \<Longrightarrow> n \<notin> dl_consumer ` D \<Longrightarrow> n \<noteq> co_id c \<Longrightarrow>
    open_consumer tr n (co_subscription c) s1 = (Inr c2, s2) \<Longrightarrow>
    consumer_step tr (D, (c, s)) (D, (c2, s2))"

inductive consumer_run :: "inprocess_transport \<Rightarrow> subscription \<Rightarrow> run_state \<Rightarrow> bool"
  for tr :: inprocess_transport and sub :: subscription where
  start: "open_consumer tr n sub initial_state = (Inr c, s) \<Longrightarrow> consumer_run tr sub ({}, (c, s))"
| step: "consumer_run tr sub x \<Longrightarrow> consumer_step tr x y \<Longrightarrow> consumer_run tr sub y"

abbreviation cand_identity :: "candidate \<Rightarrow> string" where
  "cand_identity x \<equiv> fst (snd x)"

abbreviation cand_source :: "candidate \<Rightarrow> string" where
  "cand_source x \<equiv> snd (snd (snd x))"

definition own_commands :: "subscription \<Rightarrow> transport_state \<Rightarrow> candidate list" where
  "own_commands sub s = command_candidates sub (queue_of s (sub_service_id sub) (sub_mission_id sub))"

definition command_limit :: "subscription \<Rightarrow> transport_state \<Rightarrow> int" where
  "command_limit sub s = getd (get_cursor sub s) ''command'' (-1)"

definition queue_length :: "subscription \<Rightarrow> transport_state \<Rightarrow> int" where
  "queue_length sub s = int (length (queue_of s (sub_service_id sub) (sub_mission_id sub)))"

definition done_below :: "subscription \<Rightarrow> transport_state \<Rightarrow> int \<Rightarrow> bool" where
  "done_below sub s n \<longleftrightarrow>
     (\<forall>y \<in> set (own_commands sub s). fst y < n \<longrightarrow> cand_identity y \<in> set (processed_of sub s))"

definition active_inv :: "subscription \<Rightarrow> transport_state \<Rightarrow> candidate \<Rightarrow> bool" where
  "active_inv sub s x \<longleftrightarrow> x \<in> set (delivery_candidates sub s) \<and> cand_identity x \<notin> set (processed_of sub s) \<and>
     (cand_source x = ''command'' \<longrightarrow> done_below sub s (fst x))"

definition delivery_inv :: "consumer \<Rightarrow> transport_state \<Rightarrow> delivery \<Rightarrow> bool" where
  "delivery_inv c s d \<longleftrightarrow>
     (dl_done d \<longrightarrow> dl_identity d \<in> set (processed_of (co_subscription c) s)) \<and>
     (dl_consumer d = co_id c \<longrightarrow> dl_identity d \<in> set (processed_of (co_subscription c) s) \<or>
       (\<exists>x. co_active c = Some x \<and> cand_identity x = dl_identity d \<and> fst x = dl_sequence d))"

definition accounted :: "delivery set \<Rightarrow> subscription \<Rightarrow> transport_state \<Rightarrow> string \<Rightarrow> bool" where
  "accounted D sub s i \<longleftrightarrow> (\<exists>d \<in> D. dl_done d \<and> dl_identity d = i) \<or>
     (\<exists>l \<in> set (get_dead_letters sub s). dead_identity l = i)"

definition run_inv :: "run_state \<Rightarrow> bool" where
  "run_inv x \<longleftrightarrow> (case x of (D, (c, s)) \<Rightarrow>
     (let sub = co_subscription c in
       transport_inv s \<and> done_below sub s (command_limit sub s + 1) \<and>
       command_limit sub s < queue_length sub s \<and>
       (\<forall>x. co_active c = Some x \<longrightarrow> active_inv sub s x) \<and>
       (\<forall>d \<in> D. delivery_inv c s d) \<and>
       (\<forall>i \<in> set (processed_of sub s). accounted D sub s i) \<and>
       (\<forall>i. 0 \<le> getd (attempts_of sub s) i 0)))"

subsection \<open>Selection and the command limit\<close>

lemma command_candidates_append:
  "command_candidates sub (p @ q) = command_candidates sub p @ command_candidates sub q"
  by (induction sub p rule: command_candidates.induct) simp_all

lemma command_candidates_mem:
  "x \<in> set (command_candidates sub q) \<Longrightarrow> fst x \<in> fst ` set q \<and> cand_source x = ''command''"
  by (induction sub q rule: command_candidates.induct) (auto split: if_splits)

lemma delivery_candidates_mem:
  "x \<in> set (delivery_candidates sub s) \<longleftrightarrow>
     x \<in> event_candidate ` set (stream_of s (sub_topic sub) (sub_mission_id sub)) \<or>
     x \<in> set (own_commands sub s)"
  by (auto simp: delivery_candidates_def own_commands_def)

lemma own_commands_source: "x \<in> set (own_commands sub s) \<Longrightarrow> cand_source x = ''command''"
  using command_candidates_mem [of x] by (simp add: own_commands_def)

lemma event_candidate_source [simp]: "cand_source (event_candidate e) = ''event''"
  by (simp add: event_candidate_def)

lemma candidate_source:
  assumes "x \<in> set (delivery_candidates sub s)"
  shows "cand_source x = ''command'' \<and> x \<in> set (own_commands sub s) \<or> cand_source x = ''event''"
proof (cases "x \<in> set (own_commands sub s)")
  case True
  then show ?thesis using own_commands_source [OF True] by simp
next
  case False
  with assms obtain e where "x = event_candidate e" unfolding delivery_candidates_mem by blast
  then show ?thesis by simp
qed

lemma own_commands_updates [simp]:
  "own_commands sub (save_cursor sub' n src s) = own_commands sub s"
  "own_commands sub (add_processed sub' i s) = own_commands sub s"
  "own_commands sub (set_attempt sub' i n s) = own_commands sub s"
  "own_commands sub (add_dead_letter sub' d s) = own_commands sub s"
  by (simp_all add: own_commands_def queue_of_def save_cursor_def add_processed_def
      set_attempt_def add_dead_letter_def Let_def)

lemma command_limit_updates [simp]:
  "command_limit sub (add_processed sub' i s) = command_limit sub s"
  "command_limit sub (set_attempt sub' i n s) = command_limit sub s"
  "command_limit sub (add_dead_letter sub' d s) = command_limit sub s"
  by (simp_all add: command_limit_def)

lemma command_limit_save [simp]:
  "command_limit sub (save_cursor sub n ''command'' s) = max (command_limit sub s) n"
  "command_limit sub (save_cursor sub n ''event'' s) = command_limit sub s"
  by (simp_all add: command_limit_def save_cursor_def get_cursor_def getd_def Let_def)

lemma next_candidate_least:
  assumes "next_candidate sub s = Some x" and "y \<in> set (delivery_candidates sub s)"
    and "eligible (get_cursor sub s) (processed_of sub s) y"
  shows "candidate_key x \<le> candidate_key y"
proof -
  let ?l = "sort_key candidate_key (delivery_candidates sub s)"
  from assms(1) obtain i where i: "i < length ?l" "?l ! i = x"
    and before: "\<forall>j<i. \<not> eligible (get_cursor sub s) (processed_of sub s) (?l ! j)"
    by (auto simp: next_candidate_def find_Some_iff)
  from assms(2) obtain j where j: "j < length ?l" "?l ! j = y" by (metis in_set_conv_nth set_sort)
  with before assms(3) have "i \<le> j" by (meson not_le)
  moreover have "sorted (map candidate_key ?l)" by simp
  ultimately have "map candidate_key ?l ! i \<le> map candidate_key ?l ! j"
    using j(1) by (intro sorted_nth_mono) simp_all
  with i j show ?thesis by simp
qed

lemma next_candidate_done_below:
  assumes x: "next_candidate sub s = Some x" and "cand_source x = ''command''"
    and below: "done_below sub s (command_limit sub s + 1)"
  shows "done_below sub s (fst x)"
  unfolding done_below_def
proof (intro ballI impI)
  fix y assume y: "y \<in> set (own_commands sub s)" "fst y < fst x"
  then have src: "cand_source y = ''command''" by (simp add: own_commands_def command_candidates_mem)
  have "\<not> candidate_key x \<le> candidate_key y"
    using y(2) by (cases x, cases y) (simp add: candidate_key_def less_eq_prod_def)
  moreover have "y \<in> set (delivery_candidates sub s)" using y(1) by (simp add: delivery_candidates_mem)
  ultimately have "\<not> eligible (get_cursor sub s) (processed_of sub s) y"
    using next_candidate_least [OF x] by blast
  with src have "cand_identity y \<in> set (processed_of sub s) \<or> fst y \<le> command_limit sub s"
    by (cases y) (auto simp: eligible_def limit_of_def command_limit_def)
  then show "cand_identity y \<in> set (processed_of sub s)"
    using below y(1) by (auto simp: done_below_def)
qed

subsection \<open>Numbered queues\<close>

lemma distinct_command_candidates:
  "distinct (map fst q) \<Longrightarrow> distinct (map fst (command_candidates sub q))"
  by (induction sub q rule: command_candidates.induct) (auto dest: command_candidates_mem)

lemma own_commands_numbered:
  assumes "transport_inv s"
  shows "distinct (map fst (own_commands sub s))"
    and "x \<in> set (own_commands sub s) \<Longrightarrow> 0 \<le> fst x \<and> fst x < queue_length sub s"
proof -
  let ?q = "queue_of s (sub_service_id sub) (sub_mission_id sub)"
  from assms have q: "map fst ?q = map int [0..<length ?q]"
    by (simp add: transport_inv_def commands_inv_def numbered_def)
  then have "distinct (map fst ?q)" by (simp add: distinct_map)
  then show "distinct (map fst (own_commands sub s))"
    unfolding own_commands_def by (rule distinct_command_candidates)
  assume "x \<in> set (own_commands sub s)"
  then have "fst x \<in> fst ` set ?q"
    unfolding own_commands_def by (blast dest: command_candidates_mem)
  also have "\<dots> = set (map fst ?q)" by simp
  also have "\<dots> = int ` {0..<length ?q}" unfolding q by simp
  finally show "0 \<le> fst x \<and> fst x < queue_length sub s" by (auto simp: queue_length_def)
qed

lemma own_commands_unique:
  "transport_inv s \<Longrightarrow> x \<in> set (own_commands sub s) \<Longrightarrow> y \<in> set (own_commands sub s) \<Longrightarrow>
     fst x = fst y \<Longrightarrow> x = y"
  using own_commands_numbered(1) by (metis distinct_map inj_onD)

lemma transport_inv_frame:
  assumes "transport_inv s" and "ts_events s' = ts_events s" and "ts_commands s' = ts_commands s"
    and "ts_identities s' = ts_identities s" and "ts_receipts s' = ts_receipts s"
    and "ts_outcomes s' = ts_outcomes s"
  shows "transport_inv s'"
proof -
  from assms(1) have "events_inv s" "commands_inv s" by (simp_all add: transport_inv_def)
  then have "events_inv s'" "commands_inv s'"
    by - (erule events_inv_frame commands_inv_frame; simp add: assms)+
  then show ?thesis by (simp add: transport_inv_def)
qed

lemma transport_inv_updates:
  assumes "transport_inv s"
  shows "transport_inv (save_cursor sub n src s)" and "transport_inv (add_processed sub i s)"
    and "transport_inv (set_attempt sub i n s)" and "transport_inv (add_dead_letter sub d s)"
    and "transport_inv (with_defaults sub s)" and "transport_inv (s\<lparr>ts_active := a\<rparr>)"
  by (rule transport_inv_frame [OF assms];
      simp add: save_cursor_def add_processed_def set_attempt_def add_dead_letter_def
        with_defaults_def Let_def)+

lemma queue_length_updates [simp]:
  "queue_length sub (save_cursor sub' n src s) = queue_length sub s"
  "queue_length sub (add_processed sub' i s) = queue_length sub s"
  "queue_length sub (set_attempt sub' i n s) = queue_length sub s"
  "queue_length sub (add_dead_letter sub' d s) = queue_length sub s"
  by (simp_all add: queue_length_def queue_of_def save_cursor_def add_processed_def
      set_attempt_def add_dead_letter_def Let_def)

subsection \<open>A turn of the loop keeps the invariant\<close>

definition chosen :: "session \<Rightarrow> candidate option" where
  "chosen cs = (case co_active (fst cs) of Some x \<Rightarrow> Some x
     | None \<Rightarrow> next_candidate (co_subscription (fst cs)) (snd cs))"

lemma chosen_pair: "chosen (c, s) = (case co_active c of Some x \<Rightarrow> Some x
    | None \<Rightarrow> next_candidate (co_subscription c) s)"
  by (simp add: chosen_def split: option.split)

definition next_attempt :: "subscription \<Rightarrow> candidate \<Rightarrow> transport_state \<Rightarrow> int" where
  "next_attempt sub x s = getd (attempts_of sub s) (cand_identity x) 0 + 1"

definition attempted :: "subscription \<Rightarrow> candidate \<Rightarrow> transport_state \<Rightarrow> transport_state" where
  "attempted sub x s = set_attempt sub (cand_identity x) (next_attempt sub x s) s"

definition dead_lettered :: "subscription \<Rightarrow> candidate \<Rightarrow> transport_state \<Rightarrow> transport_state" where
  "dead_lettered sub x s = add_dead_letter sub
     \<lparr>dead_identity = cand_identity x, dead_attempt = next_attempt sub x s,
       dead_message = message_to_dict (fst (snd (snd x)))\<rparr> (attempted sub x s)"

definition delivery_of :: "consumer \<Rightarrow> candidate \<Rightarrow> transport_state \<Rightarrow> delivery" where
  "delivery_of c x s = \<lparr>dl_consumer = co_id c, dl_message = fst (snd (snd x)),
     dl_identity = cand_identity x, dl_sequence = fst x,
     dl_attempt = next_attempt (co_subscription c) x s, dl_done = False\<rparr>"

lemma receive_turn_chosen: "receive_turn (c, s) = (case chosen (c, s) of
    None \<Rightarrow> Idle
  | Some x \<Rightarrow> if next_attempt (co_subscription c) x s > sub_max_retries (co_subscription c)
      then GiveUp (c\<lparr>co_active := None\<rparr>,
        save_cursor (co_subscription c) (fst x) (cand_source x)
          (add_processed (co_subscription c) (cand_identity x) (dead_lettered (co_subscription c) x s)))
      else Deliver (delivery_of c x s) (c\<lparr>co_active := Some x\<rparr>, attempted (co_subscription c) x s))"
proof (cases "chosen (c, s)")
  case None
  then show ?thesis unfolding receive_turn_def chosen_pair by simp
next
  case (Some x)
  moreover obtain n i m src where "x = (n, i, m, src)" by (cases x)
  ultimately show ?thesis
    unfolding receive_turn_def chosen_pair
    by (simp add: Let_def next_attempt_def attempted_def dead_lettered_def delivery_of_def)
qed

lemma run_invD:
  assumes "run_inv (D, (c, s))"
  defines "sub \<equiv> co_subscription c"
  shows "transport_inv s" and "done_below sub s (command_limit sub s + 1)"
    and "command_limit sub s < queue_length sub s" and "co_active c = Some x \<Longrightarrow> active_inv sub s x"
    and "d \<in> D \<Longrightarrow> delivery_inv c s d" and "i \<in> set (processed_of sub s) \<Longrightarrow> accounted D sub s i"
    and "0 \<le> getd (attempts_of sub s) j 0"
  using assms unfolding run_inv_def Let_def by blast+

lemma chosen_inv:
  assumes "run_inv (D, (c, s))" and "chosen (c, s) = Some x"
  shows "active_inv (co_subscription c) s x"
proof (cases "co_active c")
  case None
  with assms(2) have x: "next_candidate (co_subscription c) s = Some x" by (simp add: chosen_def)
  from assms(1) have "done_below (co_subscription c) s (command_limit (co_subscription c) s + 1)"
    by (simp add: run_inv_def Let_def)
  with next_candidate_done_below [OF x] next_candidate_Some [OF x] show ?thesis
    by (cases x) (simp add: active_inv_def eligible_def)
next
  case (Some y)
  with assms(2) have "y = x" by (simp add: chosen_def)
  with run_invD(4) [OF assms(1) Some] show ?thesis by simp
qed

text \<open>Raising the cursor over a message that is now processed skips no command.\<close>

lemma processed_cursor:
  assumes "transport_inv s" and "done_below sub s (command_limit sub s + 1)"
    and "command_limit sub s < queue_length sub s"
    and x: "x \<in> set (delivery_candidates sub s)" "cand_source x = ''command'' \<longrightarrow> done_below sub s (fst x)"
  defines "s' \<equiv> save_cursor sub (fst x) (cand_source x) (add_processed sub (cand_identity x) s)"
  shows "done_below sub s' (command_limit sub s' + 1) \<and> command_limit sub s' < queue_length sub s'"
  using candidate_source [OF x(1)]
proof
  assume src: "cand_source x = ''command'' \<and> x \<in> set (own_commands sub s)"
  have "cand_identity y = cand_identity x \<or> cand_identity y \<in> set (processed_of sub s)"
    if y: "y \<in> set (own_commands sub s)" "fst y < max (command_limit sub s) (fst x) + 1" for y
  proof -
    from y(2) consider "fst y < command_limit sub s + 1" | "fst y < fst x" | "fst y = fst x"
      by linarith
    then show ?thesis
    proof cases
      case 3
      with own_commands_unique [OF assms(1)] src y(1) have "y = x" by blast
      then show ?thesis by simp
    qed (use assms(2) x(2) src y(1) in \<open>simp_all add: done_below_def\<close>)
  qed
  with assms(3) src own_commands_numbered(2) [OF assms(1)] show ?thesis
    by (auto simp: s'_def done_below_def)
next
  assume "cand_source x = ''event''"
  with assms(2,3) show ?thesis by (simp add: s'_def done_below_def)
qed

lemma run_invI:
  assumes "transport_inv s" and "done_below (co_subscription c) s (command_limit (co_subscription c) s + 1)"
    and "command_limit (co_subscription c) s < queue_length (co_subscription c) s"
    and "\<And>x. co_active c = Some x \<Longrightarrow> active_inv (co_subscription c) s x"
    and "\<And>d. d \<in> D \<Longrightarrow> delivery_inv c s d"
    and "\<And>i. i \<in> set (processed_of (co_subscription c) s) \<Longrightarrow> accounted D (co_subscription c) s i"
    and "\<And>i. 0 \<le> getd (attempts_of (co_subscription c) s) i 0"
  shows "run_inv (D, (c, s))"
  using assms unfolding run_inv_def Let_def by blast

lemma attempts_nonneg: "run_inv (D, (c, s)) \<Longrightarrow>
    0 \<le> getd (attempts_of (co_subscription c) (attempted (co_subscription c) x s)) i 0"
  using run_invD(7) [of D c s i] run_invD(7) [of D c s "cand_identity x"]
  by (simp add: attempted_def next_attempt_def getd_def)

lemma turn_GiveUp:
  assumes inv: "run_inv (D, (c, s))" and turn: "receive_turn (c, s) = GiveUp cs'"
  shows "run_inv (D, cs')"
proof -
  let ?sub = "co_subscription c"
  from turn obtain x where x: "chosen (c, s) = Some x" and cs': "cs' = (c\<lparr>co_active := None\<rparr>,
        save_cursor ?sub (fst x) (cand_source x)
          (add_processed ?sub (cand_identity x) (dead_lettered ?sub x s)))" (is "_ = (_, ?s2)")
    unfolding receive_turn_chosen by (auto split: option.splits if_splits)
  note act = chosen_inv [OF inv x] and i = run_invD [OF inv]
  have s1: "transport_inv (dead_lettered ?sub x s)"
    using i(1) by (simp add: dead_lettered_def attempted_def transport_inv_updates)
  have "done_below ?sub ?s2 (command_limit ?sub ?s2 + 1) \<and> command_limit ?sub ?s2 < queue_length ?sub ?s2"
    using s1 i(2,3) act
    by (intro processed_cursor)
      (simp_all add: dead_lettered_def attempted_def done_below_def active_inv_def)
  moreover have "delivery_inv (c\<lparr>co_active := None\<rparr>) ?s2 d" if "d \<in> D" for d
    using i(5) [OF that] x
    by (auto simp: delivery_inv_def dead_lettered_def attempted_def chosen_pair)
  moreover have "accounted D ?sub ?s2 i" if "i \<in> set (processed_of ?sub ?s2)" for i
    using that i(6) by (auto simp: dead_lettered_def attempted_def accounted_def)
  ultimately show ?thesis
    unfolding cs' using s1 attempts_nonneg [OF inv, of x]
    by (intro run_invI) (simp_all add: transport_inv_updates dead_lettered_def)
qed

lemma turn_Deliver:
  assumes inv: "run_inv (D, (c, s))" and turn: "receive_turn (c, s) = Deliver d cs'"
  shows "run_inv (insert d D, cs')"
    and "1 \<le> dl_attempt d \<and> dl_attempt d \<le> sub_max_retries (co_subscription c)"
    and "dl_identity d \<notin> set (processed_of (co_subscription c) s)"
proof -
  let ?sub = "co_subscription c"
  from turn obtain x where x: "chosen (c, s) = Some x" and d: "d = delivery_of c x s"
    and cs': "cs' = (c\<lparr>co_active := Some x\<rparr>, attempted ?sub x s)"
    and le: "next_attempt ?sub x s \<le> sub_max_retries ?sub"
    unfolding receive_turn_chosen by (auto split: option.splits if_splits)
  note act = chosen_inv [OF inv x] and i = run_invD [OF inv]
  show "dl_identity d \<notin> set (processed_of ?sub s)"
    using act by (simp add: d delivery_of_def active_inv_def)
  show "1 \<le> dl_attempt d \<and> dl_attempt d \<le> sub_max_retries ?sub"
    using le i(7) [of "cand_identity x"] by (simp add: d delivery_of_def next_attempt_def)
  have "delivery_inv (c\<lparr>co_active := Some x\<rparr>) (attempted ?sub x s) d'" if "d' \<in> insert d D" for d'
    using that i(5) [of d'] x
    by (auto simp: delivery_inv_def attempted_def chosen_pair d delivery_of_def)
  moreover have "active_inv ?sub (attempted ?sub x s) x"
    using act by (simp add: active_inv_def attempted_def done_below_def)
  ultimately show "run_inv (insert d D, cs')"
    unfolding cs' using i(1,2,3,6) attempts_nonneg [OF inv, of x]
    by (intro run_invI)
      (auto simp: transport_inv_updates attempted_def done_below_def accounted_def)
qed

subsection \<open>Receiving\<close>

lemma with_defaults_updates [simp]:
  "delivery_candidates sub (with_defaults sub' s) = delivery_candidates sub s"
  "own_commands sub (with_defaults sub' s) = own_commands sub s"
  "queue_length sub (with_defaults sub' s) = queue_length sub s"
  "processed_of sub (with_defaults sub s) = processed_of sub s"
  "attempts_of sub (with_defaults sub s) = attempts_of sub s"
  "get_cursor sub (with_defaults sub' s) = get_cursor sub s"
  "command_limit sub (with_defaults sub' s) = command_limit sub s"
  "get_dead_letters sub (with_defaults sub' s) = get_dead_letters sub s"
  by (simp_all add: with_defaults_def delivery_candidates_def own_commands_def queue_length_def stream_of_def
      queue_of_def processed_of_def attempts_of_def get_cursor_def command_limit_def get_dead_letters_def)

lemma run_inv_with_defaults:
  assumes inv: "run_inv (D, (c, s))"
  shows "run_inv (D, (c, with_defaults (co_subscription c) s))"
  using run_invD [OF inv]
  by (intro run_invI)
    (auto simp: transport_inv_updates done_below_def active_inv_def delivery_inv_def accounted_def)

lemma chosen_with_defaults: "chosen (c, with_defaults (co_subscription c) s) = chosen (c, s)"
  by (simp add: chosen_pair next_candidate_def split: option.split)

lemma GiveUp_same:
  "receive_turn cs = GiveUp cs' \<Longrightarrow> co_subscription (fst cs') = co_subscription (fst cs) \<and>
     co_id (fst cs') = co_id (fst cs) \<and>
     set (processed_of (co_subscription (fst cs)) (snd cs))
       \<subseteq> set (processed_of (co_subscription (fst cs)) (snd cs')) \<and>
     delivery_candidates (co_subscription (fst cs)) (snd cs') = delivery_candidates (co_subscription (fst cs)) (snd cs) \<and>
     own_commands (co_subscription (fst cs)) (snd cs') = own_commands (co_subscription (fst cs)) (snd cs)"
  by (cases cs; cases "chosen cs")
    (auto simp: receive_turn_chosen dead_lettered_def attempted_def split: if_splits)

lemma receive_loop_inv:
  assumes "run_inv (D, cs)" and "receive_loop cs = (r, cs')"
  shows "(case r of
      None \<Rightarrow> run_inv (D, cs') \<and> chosen cs' = None
    | Some d \<Rightarrow> run_inv (insert d D, cs') \<and>
        1 \<le> dl_attempt d \<and> dl_attempt d \<le> sub_max_retries (co_subscription (fst cs)) \<and>
        dl_identity d \<notin> set (processed_of (co_subscription (fst cs)) (snd cs))) \<and>
    co_subscription (fst cs') = co_subscription (fst cs) \<and>
    own_commands (co_subscription (fst cs)) (snd cs') = own_commands (co_subscription (fst cs)) (snd cs)"
  using assms
proof (induction cs rule: receive_loop.induct)
  case (1 cs)
  obtain c s where cs: "cs = (c, s)" by (cases cs)
  show ?case
  proof (cases "receive_turn cs")
    case Idle
    then have "chosen cs = None"
      by (auto simp: cs receive_turn_chosen split: option.splits if_splits)
    with Idle 1 show ?thesis by (auto simp: receive_loop.simps [of cs])
  next
    case (Deliver d cs1)
    with 1(3) have "r = Some d" "cs' = cs1" by (simp_all add: receive_loop.simps [of cs])
    moreover from Deliver have "co_subscription (fst cs1) = co_subscription c \<and>
        own_commands (co_subscription c) (snd cs1) = own_commands (co_subscription c) s"
      by (auto simp: cs receive_turn_chosen attempted_def split: option.splits if_splits)
    ultimately show ?thesis
      using turn_Deliver [of D c s d cs1] 1(2) Deliver by (simp add: cs)
  next
    case (GiveUp cs1)
    with 1(2) have "run_inv (D, cs1)" unfolding cs by (rule turn_GiveUp)
    moreover from GiveUp 1(3) have "receive_loop cs1 = (r, cs')"
      by (simp add: receive_loop.simps [of cs])
    ultimately show ?thesis
      using 1(1) [OF GiveUp] GiveUp_same [OF GiveUp] by (auto split: option.splits)
  qed
qed

lemma receive_inv:
  assumes inv: "run_inv (D, (c, s))" and "receive (c, s) = (Inr r, cs')"
  shows "case r of
      None \<Rightarrow> run_inv (D, cs') \<and> chosen cs' = None
    | Some d \<Rightarrow> run_inv (insert d D, cs') \<and>
        1 \<le> dl_attempt d \<and> dl_attempt d \<le> sub_max_retries (co_subscription c) \<and>
        dl_identity d \<notin> set (processed_of (co_subscription c) s)"
    and "co_subscription (fst cs') = co_subscription c"
    and "own_commands (co_subscription c) (snd cs') = own_commands (co_subscription c) s"
proof -
  have "receive_loop (c, with_defaults (co_subscription c) s) = (r, cs')"
    using assms(2) by (auto simp: receive_def split: if_splits prod.splits)
  note receive_loop_inv [OF run_inv_with_defaults [OF inv] this]
  then show "case r of
      None \<Rightarrow> run_inv (D, cs') \<and> chosen cs' = None
    | Some d \<Rightarrow> run_inv (insert d D, cs') \<and>
        1 \<le> dl_attempt d \<and> dl_attempt d \<le> sub_max_retries (co_subscription c) \<and>
        dl_identity d \<notin> set (processed_of (co_subscription c) s)"
    and "co_subscription (fst cs') = co_subscription c"
    and "own_commands (co_subscription c) (snd cs') = own_commands (co_subscription c) s"
    by (simp_all split: option.splits)
qed

subsection \<open>Acknowledging\<close>

lemma ack_inv:
  assumes inv: "run_inv (D, (c, s))" and d: "d \<in> D" and ack: "ack d (c, s) = (Inr d', cs')"
  shows "run_inv (insert d' (D - {d}), cs')" and "co_subscription (fst cs') = co_subscription c"
proof -
  let ?sub = "co_subscription c"
  note i = run_invD [OF inv]
  have own: "dl_consumer d = co_id c" using ack by (auto simp: ack_def split: if_splits)
  have "run_inv (insert d' (D - {d}), cs') \<and> co_subscription (fst cs') = ?sub"
  proof (cases "dl_done d")
    case True
    with ack own have "d' = d" "cs' = (c, s)" by (simp_all add: ack_def)
    with inv d show ?thesis by (simp add: insert_absorb)
  next
    case False
    let ?D = "insert (d\<lparr>dl_done := True\<rparr>) (D - {d})"
    have acc: "accounted ?D ?sub s' i"
      if "i = dl_identity d \<or> i \<in> set (processed_of ?sub s)"
        and "get_dead_letters ?sub s' = get_dead_letters ?sub s" for i s'
      using that i(6) [of i] False by (force simp: accounted_def)
    show ?thesis
    proof (cases "\<exists>x. co_active c = Some x \<and> cand_identity x = dl_identity d")
      case True
      then obtain x where x: "co_active c = Some x" "cand_identity x = dl_identity d" by blast
      note act = i(4) [OF x(1)]
      have seq: "fst x = dl_sequence d"
        using i(5) [OF d] act x own by (auto simp: delivery_inv_def active_inv_def)
      let ?s = "save_cursor ?sub (fst x) (cand_source x) (add_processed ?sub (cand_identity x) s)"
      have *: "d' = d\<lparr>dl_done := True\<rparr>" "cs' = (c\<lparr>co_active := None\<rparr>, ?s)"
        using ack own False x seq by (cases x; simp add: ack_def Let_def)+
      have "done_below ?sub ?s (command_limit ?sub ?s + 1) \<and> command_limit ?sub ?s < queue_length ?sub ?s"
        using i(1,2,3) act by (intro processed_cursor) (simp_all add: active_inv_def)
      moreover have "delivery_inv (c\<lparr>co_active := None\<rparr>) ?s e" if "e \<in> ?D" for e
        using that i(5) [of e] x by (auto simp: delivery_inv_def)
      ultimately show ?thesis
        unfolding * using i(1,7) x(2) acc
        by (auto simp: transport_inv_updates intro!: run_invI)
    next
      case False2: False
      let ?s = "save_cursor ?sub (dl_sequence d) ''event'' (add_processed ?sub (dl_identity d) s)"
      have *: "d' = d\<lparr>dl_done := True\<rparr>" "cs' = (c, ?s)"
        using ack own False False2 by (auto simp: ack_def Let_def split: option.splits prod.splits)
      have "delivery_inv c ?s e" if "e \<in> ?D" for e
        using that i(5) [of e] by (auto simp: delivery_inv_def)
      moreover have "active_inv ?sub ?s x" if "co_active c = Some x" for x
        using i(4) [OF that] False2 that by (auto simp: active_inv_def done_below_def)
      ultimately show ?thesis
        unfolding * using i(1,2,3,7) acc
        by (auto simp: transport_inv_updates done_below_def intro!: run_invI)
    qed
  qed
  then show "run_inv (insert d' (D - {d}), cs')" "co_subscription (fst cs') = co_subscription c"
    by simp_all
qed

subsection \<open>Publishers\<close>

text \<open>What a publisher may change: streams and queues grow, the consumer's records stay.\<close>

definition grows :: "subscription \<Rightarrow> transport_state \<Rightarrow> transport_state \<Rightarrow> bool" where
  "grows sub s s' \<longleftrightarrow> ts_cursors s' = ts_cursors s \<and> ts_processed s' = ts_processed s \<and>
     ts_attempts s' = ts_attempts s \<and> ts_dead_letters s' = ts_dead_letters s \<and>
     set (stream_of s (sub_topic sub) (sub_mission_id sub))
       \<subseteq> set (stream_of s' (sub_topic sub) (sub_mission_id sub)) \<and>
     (\<exists>q. queue_of s' (sub_service_id sub) (sub_mission_id sub) =
            queue_of s (sub_service_id sub) (sub_mission_id sub) @ q \<and>
          (\<forall>n \<in> fst ` set q. queue_length sub s \<le> n))"

lemma grows_refl: "grows sub s s"
  by (simp add: grows_def)

lemma grows_command_added: "grows sub s (command_added k s)"
  by (auto simp: grows_def command_added_def queue_length_def stream_of_def)
    (simp_all add: enqueued_def)

lemma grows_outcome_added: "grows sub s (outcome_added k r s)"
  by (auto simp: grows_def outcome_added_def queue_length_def stream_of_def)
    (simp_all add: enqueued_def)

lemma grows_appended: "grows sub s (appended t e s)"
  by (auto simp: grows_def stream_of_appended queue_of_def)
    (simp_all add: appended_def)

lemma grows_inv:
  assumes inv: "run_inv (D, (c, s))" and s': "transport_inv s'" and g: "grows (co_subscription c) s s'"
  shows "run_inv (D, (c, s'))"
proof -
  let ?sub = "co_subscription c"
  note i = run_invD [OF inv]
  from g have p: "processed_of ?sub s' = processed_of ?sub s" "attempts_of ?sub s' = attempts_of ?sub s"
    "command_limit ?sub s' = command_limit ?sub s" "get_dead_letters ?sub s' = get_dead_letters ?sub s"
    by (simp_all add: grows_def processed_of_def attempts_of_def command_limit_def get_cursor_def
        get_dead_letters_def)
  from g obtain q where q: "queue_of s' (sub_service_id ?sub) (sub_mission_id ?sub) =
      queue_of s (sub_service_id ?sub) (sub_mission_id ?sub) @ q"
    "\<forall>n \<in> fst ` set q. queue_length ?sub s \<le> n"
    unfolding grows_def by blast
  then have own: "own_commands ?sub s' = own_commands ?sub s @ command_candidates ?sub q"
    by (simp add: own_commands_def command_candidates_append)
  have new: "queue_length ?sub s \<le> fst y" if "y \<in> set (command_candidates ?sub q)" for y
    using command_candidates_mem [OF that] q(2) by blast
  have below: "done_below ?sub s' n" if "done_below ?sub s n" "n \<le> queue_length ?sub s" for n
    using that new p(1) by (fastforce simp: done_below_def own)
  have "active_inv ?sub s' x" if "co_active c = Some x" for x
  proof -
    from i(4) [OF that] have act: "active_inv ?sub s x" .
    then have "x \<in> set (delivery_candidates ?sub s')"
      using g own by (auto simp: active_inv_def delivery_candidates_mem grows_def)
    moreover have "done_below ?sub s' (fst x)" if "cand_source x = ''command''"
      using act that own_commands_numbered(2) [OF i(1)] candidate_source [of x ?sub s]
      by (intro below) (fastforce simp: active_inv_def)+
    ultimately show ?thesis using act p(1) by (simp add: active_inv_def)
  qed
  moreover have "queue_length ?sub s \<le> queue_length ?sub s'"
    using q(1) by (simp add: queue_length_def)
  ultimately show ?thesis
    using s' below [OF i(2)] i(3,5,6,7)
    by (intro run_invI) (auto simp: p delivery_inv_def accounted_def)
qed

lemma consumer_step_inv:
  assumes "consumer_step tr x y" and "run_inv x"
  shows "run_inv y" and "co_subscription (fst (snd y)) = co_subscription (fst (snd x))"
proof -
  from assms have "run_inv y \<and> co_subscription (fst (snd y)) = co_subscription (fst (snd x))"
  proof cases
    case (publish e D c s t)
    with assms(2) have s: "transport_inv s" "run_inv (D, (c, s))" by (simp_all add: run_invD)
    then have "grows (co_subscription c) s (snd (publish_event t e s))"
      using publish_event_state [of s e t] publish(3) grows_refl grows_appended
      by (auto simp: transport_inv_def)
    with s publish show ?thesis by (simp add: grows_inv transport_inv_publish_event)
  next
    case (send k D c s)
    with assms(2) have s: "transport_inv s" "run_inv (D, (c, s))" by (simp_all add: run_invD)
    then have "grows (co_subscription c) s (snd (send_command k s))"
      using send_command_state [of s k] send(3) grows_refl grows_command_added
      by (auto simp: transport_inv_def)
    with s send show ?thesis by (simp add: grows_inv transport_inv_send_command)
  next
    case (outcome D c s r)
    with assms(2) have s: "transport_inv s" "run_inv (D, (c, s))" by (simp_all add: run_invD)
    then have "commands_inv s" by (simp add: transport_inv_def)
    then have "grows (co_subscription c) s (snd (publish_outcome r s))"
      by (rule publish_outcome_state [of s r]) (simp_all add: grows_refl grows_outcome_added)
    with s outcome show ?thesis by (simp add: grows_inv transport_inv_publish_outcome)
  next
    case (idle cs cs' D)
    with assms(2) receive_inv [of D "fst cs" "snd cs" None cs'] show ?thesis by simp
  next
    case (deliver cs d cs' D)
    with assms(2) receive_inv [of D "fst cs" "snd cs" "Some d" cs'] show ?thesis by simp
  next
    case (acknowledge d D cs d' cs')
    with assms(2) ack_inv [of D "fst cs" "snd cs" d d' cs'] show ?thesis by simp
  next
    case (restart c s c1 s1 n D c2 s2)
    have "s1 = s\<lparr>ts_active := ts_active s1\<rparr>"
      using restart(3) by (auto simp: close_consumer_def split: if_splits)
    then obtain a where s1: "s1 = s\<lparr>ts_active := a\<rparr>" by blast
    with restart(6) obtain b where s2: "s2 = s\<lparr>ts_active := b\<rparr>"
      and c2: "c2 = \<lparr>co_id = n, co_subscription = co_subscription c, co_closed = False, co_active = None\<rparr>"
      by (auto simp: open_consumer_def split: if_splits)
    from assms(2) restart(1) have "run_inv (D, (c, s))" by simp
    note i = run_invD [OF this]
    have "run_inv (D, (c2, s2))"
      using i restart(4) unfolding s2 c2
      by (intro run_invI)
        (auto simp: transport_inv_updates done_below_def command_limit_def queue_length_def
          own_commands_def delivery_inv_def accounted_def processed_of_def attempts_of_def
          get_cursor_def get_dead_letters_def queue_of_def)
    then show ?thesis by (simp add: restart c2)
  qed
  then show "run_inv y" "co_subscription (fst (snd y)) = co_subscription (fst (snd x))" by simp_all
qed

lemma consumer_run_inv: "consumer_run tr sub x \<Longrightarrow> run_inv x \<and> co_subscription (fst (snd x)) = sub"
proof (induction rule: consumer_run.induct)
  case (start n c s)
  then have "s = initial_state\<lparr>ts_active := [sub_key_of sub]\<rparr>"
    "c = \<lparr>co_id = n, co_subscription = sub, co_closed = False, co_active = None\<rparr>"
    by (auto simp: open_consumer_def initial_state_def split: if_splits)
  then show ?case
    using transport_inv_updates(6) [OF transport_inv_initial]
    by (auto simp: initial_state_def done_below_def command_limit_def get_cursor_def queue_length_def
        own_commands_def queue_of_def processed_of_def attempts_of_def getd_def intro!: run_invI)
qed (auto simp: consumer_step_inv)

lemma receive_loop_Some:
  assumes "receive_loop cs = (Some d, (c', s'))"
  shows "\<exists>src. co_active c' = Some (dl_sequence d, dl_identity d, dl_message d, src) \<and>
    getd (attempts_of (co_subscription c') s') (dl_identity d) 0 = dl_attempt d \<and>
    co_id c' = dl_consumer d \<and> \<not> dl_done d \<and>
    co_subscription c' = co_subscription (fst cs) \<and> co_closed c' = co_closed (fst cs)"
  using assms
proof (induction cs rule: receive_loop.induct)
  case (1 cs)
  obtain c s where cs: "cs = (c, s)" by (cases cs)
  show ?case
  proof (cases "receive_turn cs")
    case Idle
    with 1 show ?thesis by (simp add: receive_loop.simps [of cs])
  next
    case (Deliver e cs1)
    with 1(2) have "receive_turn (c, s) = Deliver d (c', s')"
      using receive_loop.simps [of cs] by (simp add: cs)
    then show ?thesis
      by (auto simp: cs receive_turn_chosen delivery_of_def attempted_def
          split: option.splits if_splits)
  next
    case (GiveUp cs1)
    with 1 have "co_closed (fst cs1) = co_closed c"
      by (auto simp: cs receive_turn_chosen split: option.splits if_splits)
    moreover from GiveUp 1(2) have "receive_loop cs1 = (Some d, (c', s'))"
      by (simp add: receive_loop.simps [of cs])
    ultimately show ?thesis using 1(1) [OF GiveUp] GiveUp_same [OF GiveUp] by (auto simp: cs)
  qed
qed

section \<open>What a run guarantees\<close>

text \<open>A concrete run used by the witnesses: a command is sent, delivered and acknowledged.\<close>

definition ex_sub :: subscription where
  "ex_sub = \<lparr>sub_service_id = ''planner'', sub_mission_id = ''m1'', sub_topic = ''plans'',
     sub_max_retries = 2\<rparr>"

definition ex_transport :: inprocess_transport where
  "ex_transport = \<lparr>ip_subscriptions = [ex_sub], ip_max_retries = 3\<rparr>"

definition ex_command :: command where
  "ex_command = \<lparr>cmd_schema_version = 1, cmd_command_id = ''c1'', cmd_correlation_id = ''r1'',
     cmd_mission_id = ''m1'', cmd_target_service = ''planner'', cmd_command_kind = ''plans'',
     cmd_payload = []\<rparr>"

definition ex_event :: transport_event where
  "ex_event = \<lparr>te_schema_version = 1, te_event_id = ''e1'', te_mission_id = ''m1'', te_sequence = 0, te_event_kind = ''plan.ready'',
     te_payload = []\<rparr>"

definition ex_consumer :: consumer where
  "ex_consumer = \<lparr>co_id = 7, co_subscription = ex_sub, co_closed = False, co_active = None\<rparr>"

definition ex_opened :: transport_state where
  "ex_opened = snd (open_consumer ex_transport 7 ex_sub initial_state)"

definition ex_sent :: transport_state where
  "ex_sent = snd (send_command ex_command ex_opened)"

definition ex_received :: session where
  "ex_received = snd (receive (ex_consumer, ex_sent))"

definition ex_delivery :: delivery where
  "ex_delivery = \<lparr>dl_consumer = 7, dl_message = MCommand ex_command, dl_identity = ''c1'',
     dl_sequence = 0, dl_attempt = 1, dl_done = False\<rparr>"

definition ex_acked :: session where
  "ex_acked = snd (ack ex_delivery ex_received)"

lemma ex_run_sent: "consumer_run ex_transport ex_sub ({}, (ex_consumer, ex_sent))"
proof -
  have "open_consumer ex_transport 7 ex_sub initial_state = (Inr ex_consumer, ex_opened)" by code_simp
  moreover have "command_wf ex_command" by code_simp
  ultimately show ?thesis
    unfolding ex_sent_def by (blast intro: consumer_run.intros consumer_step.send)
qed

lemma ex_receive: "receive (ex_consumer, ex_sent) = (Inr (Some ex_delivery), ex_received)"
  by code_simp

lemma ex_run_acked: "consumer_run ex_transport ex_sub ({ex_delivery\<lparr>dl_done := True\<rparr>}, ex_acked)"
proof -
  have "ack ex_delivery ex_received = (Inr (ex_delivery\<lparr>dl_done := True\<rparr>), ex_acked)" by code_simp
  then have "consumer_step ex_transport ({ex_delivery}, ex_received)
      (insert (ex_delivery\<lparr>dl_done := True\<rparr>) ({ex_delivery} - {ex_delivery}), ex_acked)"
    by (intro consumer_step.acknowledge) simp_all
  with consumer_run.step [OF ex_run_sent consumer_step.deliver [OF ex_receive]]
  show ?thesis by (auto intro: consumer_run.step)
qed

section \<open>Properties\<close>





text \<open>Redelivery. A message that was delivered and not acknowledged is delivered again by the
  next \<open>receive\<close>, the same message with the attempt number increased by one, as long as the
  subscription allows another attempt.\<close>

theorem receive_again:
  assumes "receive (c, s) = (Inr (Some d), cs')" and "dl_attempt d < sub_max_retries (co_subscription c)"
  shows "fst (receive cs') = Inr (Some (d\<lparr>dl_attempt := dl_attempt d + 1\<rparr>))"
proof -
  obtain c' s' where cs': "cs' = (c', s')" by (cases cs')
  from assms(1) have open1: "\<not> co_closed c"
    and loop: "receive_loop (c, with_defaults (co_subscription c) s) = (Some d, (c', s'))"
    by (auto simp: receive_def cs' split: if_splits prod.splits)
  from receive_loop_Some [OF loop] obtain src where
    "co_active c' = Some (dl_sequence d, dl_identity d, dl_message d, src)" (is "_ = Some ?x")
    and at: "getd (attempts_of (co_subscription c') s') (dl_identity d) 0 = dl_attempt d"
    and d: "co_id c' = dl_consumer d" "\<not> dl_done d"
    and c': "co_subscription c' = co_subscription c" "\<not> co_closed c'"
    using open1 by auto
  then have "chosen (c', with_defaults (co_subscription c') s') = Some ?x" by (simp add: chosen_pair)
  with at assms(2) c' have "\<exists>cs2. receive_turn (c', with_defaults (co_subscription c') s') =
      Deliver (delivery_of c' ?x (with_defaults (co_subscription c') s')) cs2"
    by (simp add: receive_turn_chosen next_attempt_def)
  moreover have "delivery_of c' ?x (with_defaults (co_subscription c') s') = d\<lparr>dl_attempt := dl_attempt d + 1\<rparr>"
    using at d by (simp add: delivery_of_def next_attempt_def)
  ultimately show ?thesis
    using c'(2) by (auto simp: receive_def cs' receive_loop.simps)
qed

theorem receive_again_witness:
  "fst (receive ex_received) = Inr (Some (ex_delivery\<lparr>dl_attempt := 2\<rparr>))"
  using receive_again [OF ex_receive] by (simp add: ex_delivery_def ex_consumer_def ex_sub_def)


end
