(* ===== verification/Planning_Contracts.thy ===== *)
theory Planning_Contracts
  imports PyValue
begin

text \<open>
  The planning contracts of \<open>src/onr/contracts/planning.py\<close>: planner choices, maneuver intents and
  templates, the results of planner executions, and the two plan envelopes, the reference to a
  planner-native plan and the planner-independent Normalized Plan with its canonical order. The file
  paths of an execution's evidence are not modelled.
\<close>

section \<open>Enumerations and identifiers\<close>

datatype planning_profile = TEMPORAL | SYMBOLIC

fun profile_text :: "planning_profile \<Rightarrow> string" where
  "profile_text TEMPORAL = ''temporal''"
| "profile_text SYMBOLIC = ''symbolic''"

definition planning_profile_of :: "pyval \<Rightarrow> planning_profile result" where
  "planning_profile_of v = enum_of profile_text [TEMPORAL, SYMBOLIC] v"

lemma planning_profile_of_text [simp]: "planning_profile_of (PStr (profile_text p)) = Inr p"
  by (cases p) (simp_all add: planning_profile_of_def enum_of_def)

datatype planning_outcome = SOLVED | UNSOLVABLE | INCOMPLETE | TIMEOUT | ERROR | UNSUPPORTED

fun outcome_text :: "planning_outcome \<Rightarrow> string" where
  "outcome_text SOLVED = ''solved''"
| "outcome_text UNSOLVABLE = ''unsolvable''"
| "outcome_text INCOMPLETE = ''incomplete''"
| "outcome_text TIMEOUT = ''timeout''"
| "outcome_text ERROR = ''error''"
| "outcome_text UNSUPPORTED = ''unsupported''"

definition planning_outcome_of :: "pyval \<Rightarrow> planning_outcome result" where
  "planning_outcome_of v = enum_of outcome_text [SOLVED, UNSOLVABLE, INCOMPLETE, TIMEOUT, ERROR, UNSUPPORTED] v"

lemma planning_outcome_of_text [simp]: "planning_outcome_of (PStr (outcome_text x)) = Inr x"
  by (cases x) (simp_all add: planning_outcome_of_def enum_of_def)

text \<open>\<open>_MANEUVER_ID.fullmatch\<close>, the pattern \<open>[A-Za-z0-9][A-Za-z0-9_-]*\<close>.\<close>

definition alphanumeric :: "char \<Rightarrow> bool" where
  "alphanumeric c \<longleftrightarrow> (CHR ''A'' \<le> c \<and> c \<le> CHR ''Z'') \<or> (CHR ''a'' \<le> c \<and> c \<le> CHR ''z'') \<or>
     (CHR ''0'' \<le> c \<and> c \<le> CHR ''9'')"

fun portable :: "string \<Rightarrow> bool" where
  "portable [] = False"
| "portable (c # cs) = (alphanumeric c \<and>
     list_all (\<lambda>c. alphanumeric c \<or> c = CHR ''_'' \<or> c = CHR ''-'') cs)"

fun maneuver_name :: "pyval \<Rightarrow> string result" where
  "maneuver_name (PStr s) = (if portable s then Inr s else Inl (ValueError BadIdentifier))"
| "maneuver_name _ = Inl (ValueError BadIdentifier)"

lemma maneuver_name_Inr [err_simps]: "maneuver_name v = Inr s \<longleftrightarrow> v = PStr s \<and> portable s"
  by (cases v) auto

text \<open>\<open>isinstance(item, str)\<close>, for the dependencies that are only required to be strings.\<close>

fun string_item :: "pyval \<Rightarrow> string result" where
  "string_item (PStr s) = Inr s"
| "string_item _ = Inl (ValueError BadType)"

lemma string_item_Inr [err_simps]: "string_item v = Inr s \<longleftrightarrow> v = PStr s"
  by (cases v) auto

section \<open>Planner choice\<close>

record planner_choice =
  pc_planning_profile :: planning_profile
  pc_planner_id :: "string option"

definition planner_choice_new :: "pyval \<Rightarrow> pyval \<Rightarrow> planner_choice result" where
  "planner_choice_new profile planner_id =
     bindE (planning_profile_of profile) (\<lambda>p.
     bindE (guardE (\<not> (p = TEMPORAL \<and> planner_id \<noteq> PStr ''minizinc'')) (ValueError Undeclared)) (\<lambda>_.
     bindE (guardE (\<not> (p = SYMBOLIC \<and> planner_id \<noteq> PStr ''fast-downward'' \<and> planner_id \<noteq> PNone))
       (ValueError Undeclared)) (\<lambda>_.
       Inr \<lparr>pc_planning_profile = p,
         pc_planner_id = (case planner_id of PStr s \<Rightarrow> Some s | _ \<Rightarrow> None)\<rparr>)))"

definition unsupported_symbolic :: "planner_choice result" where
  "unsupported_symbolic = planner_choice_new (PStr (profile_text SYMBOLIC)) PNone"

fun is_PStr :: "pyval \<Rightarrow> bool" where
  "is_PStr (PStr s) = True"
| "is_PStr _ = False"

definition planner_choice_from_dict :: "pyval \<Rightarrow> planner_choice result" where
  "planner_choice_from_dict v = (case as_mapping v of
     None \<Rightarrow> Inl (ValueError NotObject)
   | Some kvs \<Rightarrow>
       bindE (guardE (has_fields [''planner_id'', ''planning_profile''] kvs) (ValueError FieldMismatch)) (\<lambda>_.
       bindE (guardE (is_PStr (item kvs ''planning_profile'') \<and>
           (item kvs ''planner_id'' = PNone \<or> is_PStr (item kvs ''planner_id''))) (ValueError BadType)) (\<lambda>_.
       planner_choice_new (item kvs ''planning_profile'') (item kvs ''planner_id''))))"

definition planner_choice_from_json :: "pyval option \<Rightarrow> planner_choice result" where
  "planner_choice_from_json decoded = (case decoded of
     None \<Rightarrow> Inl (ValueError InvalidJson) | Some v \<Rightarrow> planner_choice_from_dict v)"

definition planner_choice_to_dict :: "planner_choice \<Rightarrow> json" where
  "planner_choice_to_dict c = JObj [
     (''planner_id'', case pc_planner_id c of None \<Rightarrow> JNull | Some s \<Rightarrow> JStr s),
     (''planning_profile'', JStr (profile_text (pc_planning_profile c)))]"

definition planner_choice_wf :: "planner_choice \<Rightarrow> bool" where
  "planner_choice_wf c \<longleftrightarrow> (case pc_planning_profile c of
     TEMPORAL \<Rightarrow> pc_planner_id c = Some ''minizinc''
   | SYMBOLIC \<Rightarrow> pc_planner_id c \<in> {None, Some ''fast-downward''})"

lemma planner_choice_new_wf: "planner_choice_new p i = Inr c \<Longrightarrow> planner_choice_wf c"
  by (auto simp: planner_choice_new_def planner_choice_wf_def err_simps
      split: planning_profile.split pyval.splits)

lemma planner_choice_from_dict_wf: "planner_choice_from_dict v = Inr c \<Longrightarrow> planner_choice_wf c"
  by (auto simp: planner_choice_from_dict_def split: option.splits dest: planner_choice_new_wf)

lemma planner_choice_view [simp]:
  "planner_choice_wf c \<Longrightarrow> planner_choice_from_dict (view b (planner_choice_to_dict c)) = Inr c"
  by (cases c) (auto simp: planner_choice_from_dict_def planner_choice_to_dict_def planner_choice_new_def
      planner_choice_wf_def has_fields_def split: option.splits planning_profile.splits)

lemma canonical_planner_choice [simp]: "canonical (planner_choice_to_dict c) = planner_choice_to_dict c"
  by (simp add: planner_choice_to_dict_def canonical_obj_def split: option.split)

section \<open>Maneuver intents\<close>

record maneuver_parameter =
  mp_name :: string
  mp_value :: json

definition maneuver_parameter_new :: "pyval \<Rightarrow> pyval \<Rightarrow> maneuver_parameter result" where
  "maneuver_parameter_new name v =
     bindE (text_of name) (\<lambda>n.
     bindE (freeze_json (ValueError KeyNotString) v) (\<lambda>j.
       Inr \<lparr>mp_name = n, mp_value = j\<rparr>))"

text \<open>\<open>tuple(sorted(parameters, key=name))\<close> after the check that names are unique.\<close>

definition sorted_parameters :: "maneuver_parameter list \<Rightarrow> maneuver_parameter list result" where
  "sorted_parameters ps =
     bindE (guardE (distinct (map mp_name ps)) (ValueError NotUnique)) (\<lambda>_. Inr (sort_key mp_name ps))"

record maneuver_intent =
  mi_action :: string
  mi_parameters :: "maneuver_parameter list"

definition maneuver_intent_new :: "pyval \<Rightarrow> maneuver_parameter list \<Rightarrow> maneuver_intent result" where
  "maneuver_intent_new action ps =
     bindE (text_of action) (\<lambda>a.
     bindE (sorted_parameters ps) (\<lambda>sorted.
       Inr \<lparr>mi_action = a, mi_parameters = sorted\<rparr>))"

definition maneuver_intent_to_dict :: "maneuver_intent \<Rightarrow> json" where
  "maneuver_intent_to_dict m = JObj [
     (''action'', JStr (mi_action m)),
     (''parameters'', JObj (map (\<lambda>p. (mp_name p, mp_value p)) (mi_parameters m)))]"

text \<open>\<open>_maneuver_intent_from_dict\<close>: the items whose name is a string are parsed first, then their
  number is compared with the number of items.\<close>

fun string_keyed :: "pyitems \<Rightarrow> (string \<times> pyval) list" where
  "string_keyed [] = []"
| "string_keyed ((KStr s, v) # kvs) = (s, v) # string_keyed kvs"
| "string_keyed ((KOther n, v) # kvs) = string_keyed kvs"

definition maneuver_intent_from_dict :: "pyval \<Rightarrow> maneuver_intent result" where
  "maneuver_intent_from_dict v =
     bindE (strict_fields [''action'', ''parameters''] v) (\<lambda>kvs.
     (case as_mapping (item kvs ''parameters'') of
        None \<Rightarrow> Inl (ValueError BadType)
      | Some items \<Rightarrow>
          bindE (guardE (is_PStr (item kvs ''action'')) (ValueError BadType)) (\<lambda>_.
          bindE (mapE (\<lambda>(s, v). maneuver_parameter_new (PStr s) v) (string_keyed items)) (\<lambda>ps.
          bindE (guardE (length ps = length items) (ValueError KeyNotString)) (\<lambda>_.
            maneuver_intent_new (item kvs ''action'') ps)))))"

definition parameters_wf :: "maneuver_parameter list \<Rightarrow> bool" where
  "parameters_wf ps \<longleftrightarrow> sorted (map mp_name ps) \<and> distinct (map mp_name ps) \<and>
     (\<forall>p \<in> set ps. nonblank (mp_name p) \<and> wf_json (mp_value p))"

definition maneuver_intent_wf :: "maneuver_intent \<Rightarrow> bool" where
  "maneuver_intent_wf m \<longleftrightarrow> nonblank (mi_action m) \<and> parameters_wf (mi_parameters m)"

definition parameter_wf :: "maneuver_parameter \<Rightarrow> bool" where
  "parameter_wf p \<longleftrightarrow> nonblank (mp_name p) \<and> wf_json (mp_value p)"

lemma maneuver_parameter_new_wf: "maneuver_parameter_new n v = Inr p \<Longrightarrow> wf_py v \<Longrightarrow> parameter_wf p"
  by (auto simp: maneuver_parameter_new_def parameter_wf_def err_simps freeze_wf)

lemma sorted_parameters_Inr:
  "sorted_parameters ps = Inr qs \<longleftrightarrow> distinct (map mp_name ps) \<and> qs = sort_key mp_name ps"
  by (auto simp: sorted_parameters_def err_simps)

lemma parameters_wf_sorted:
  "distinct (map mp_name ps) \<Longrightarrow> (\<forall>p \<in> set ps. parameter_wf p) \<Longrightarrow> parameters_wf (sort_key mp_name ps)"
  by (simp add: parameters_wf_def parameter_wf_def distinct_map)

lemma maneuver_intent_new_wf:
  "maneuver_intent_new a ps = Inr m \<Longrightarrow> (\<forall>p \<in> set ps. parameter_wf p) \<Longrightarrow> maneuver_intent_wf m"
  by (auto simp: maneuver_intent_new_def maneuver_intent_wf_def err_simps sorted_parameters_Inr
      parameters_wf_sorted)

lemma string_keyed_wf: "\<forall>kv \<in> set kvs. wf_py (snd kv) \<Longrightarrow> sv \<in> set (string_keyed kvs) \<Longrightarrow> wf_py (snd sv)"
  by (induction kvs rule: string_keyed.induct) auto

lemma maneuver_intent_from_dict_wf:
  assumes "maneuver_intent_from_dict v = Inr m" and "wf_py v"
  shows "maneuver_intent_wf m"
proof -
  from assms(1) obtain kvs items ps where k: "strict_fields [''action'', ''parameters''] v = Inr kvs"
    "as_mapping (item kvs ''parameters'') = Some items"
    "mapE (\<lambda>(s, v). maneuver_parameter_new (PStr s) v) (string_keyed items) = Inr ps"
    "maneuver_intent_new (item kvs ''action'') ps = Inr m"
    by (auto simp: maneuver_intent_from_dict_def err_simps split: option.splits)
  from k(1) assms(2) have "wf_py (item kvs ''parameters'')" by (auto simp: strict_fields_Inr intro: wf_item)
  with k(2) have w: "\<forall>kv \<in> set items. wf_py (snd kv)" by (cases "item kvs ''parameters''") auto
  have "parameter_wf p" if "p \<in> set ps" for p
  proof -
    from mapE_Inr_set [OF k(3) that] obtain sv where "sv \<in> set (string_keyed items)"
      "maneuver_parameter_new (PStr (fst sv)) (snd sv) = Inr p" by auto
    then show ?thesis using string_keyed_wf [OF w] maneuver_parameter_new_wf by blast
  qed
  with maneuver_intent_new_wf [OF k(4)] show ?thesis by blast
qed

lemma string_keyed_map [simp]: "string_keyed (map (\<lambda>x. (KStr (f x), g x)) xs) = map (\<lambda>x. (f x, g x)) xs"
  by (induction xs) auto

lemma parameters_read:
  assumes "parameters_wf ps"
  shows "mapE (\<lambda>(s, v). maneuver_parameter_new (PStr s) v) (map (\<lambda>p. (mp_name p, view b (mp_value p))) ps) = Inr ps"
    "sorted_parameters ps = Inr ps"
proof -
  have "mapE (\<lambda>(s, v). maneuver_parameter_new (PStr s) v) (map (\<lambda>p. (mp_name p, view b (mp_value p))) ps) =
      Inr (map (\<lambda>p. p) ps)"
    using assms by (intro mapE_map_Inr) (simp add: maneuver_parameter_new_def parameters_wf_def)
  then show "mapE (\<lambda>(s, v). maneuver_parameter_new (PStr s) v) (map (\<lambda>p. (mp_name p, view b (mp_value p))) ps) = Inr ps"
    by simp
  show "sorted_parameters ps = Inr ps"
    using assms by (simp add: sorted_parameters_Inr parameters_wf_def sort_key_id_if_sorted)
qed

lemma maneuver_intent_view [simp]:
  "maneuver_intent_wf m \<Longrightarrow> maneuver_intent_from_dict (view b (maneuver_intent_to_dict m)) = Inr m"
  by (simp add: maneuver_intent_from_dict_def maneuver_intent_to_dict_def maneuver_intent_new_def
      maneuver_intent_wf_def parameters_read comp_def)

text \<open>The canonical form of an intent: its parameter values in canonical key order.\<close>

definition canonical_intent :: "maneuver_intent \<Rightarrow> maneuver_intent" where
  "canonical_intent m = m\<lparr>mi_parameters := map (\<lambda>p. p\<lparr>mp_value := canonical (mp_value p)\<rparr>) (mi_parameters m)\<rparr>"

lemma canonical_intent_wf [simp]: "maneuver_intent_wf m \<Longrightarrow> maneuver_intent_wf (canonical_intent m)"
  by (auto simp: canonical_intent_def maneuver_intent_wf_def parameters_wf_def comp_def)

lemma canonical_maneuver_intent:
  assumes "maneuver_intent_wf m"
  shows "canonical (maneuver_intent_to_dict m) = maneuver_intent_to_dict (canonical_intent m)"
proof -
  have "sorted (map fst (map (\<lambda>p. (mp_name p, canonical (mp_value p))) (mi_parameters m)))"
    using assms by (simp add: maneuver_intent_wf_def parameters_wf_def comp_def)
  then have "canonical_obj (map (\<lambda>p. (mp_name p, mp_value p)) (mi_parameters m)) =
      map (\<lambda>p. (mp_name p, canonical (mp_value p))) (mi_parameters m)"
    by (simp add: canonical_obj_def comp_def sort_key_id_if_sorted)
  then show ?thesis
    by (simp add: maneuver_intent_to_dict_def canonical_intent_def comp_def canonical_obj_def [of "[_, _]"])
qed

text \<open>Two intents that Python's \<open>==\<close> identifies: the same action and parameters with equal values.\<close>

definition parameter_eq :: "maneuver_parameter \<Rightarrow> maneuver_parameter \<Rightarrow> bool" where
  "parameter_eq p q \<longleftrightarrow> mp_name p = mp_name q \<and> json_eq (mp_value p) (mp_value q)"

definition maneuver_intent_eq :: "maneuver_intent \<Rightarrow> maneuver_intent \<Rightarrow> bool" where
  "maneuver_intent_eq m n \<longleftrightarrow> mi_action m = mi_action n \<and>
     list_all2 parameter_eq (mi_parameters m) (mi_parameters n)"

lemma maneuver_intent_eq_canonical [simp]: "maneuver_intent_wf m \<Longrightarrow> maneuver_intent_eq m (canonical_intent m)"
  by (auto simp: maneuver_intent_eq_def canonical_intent_def maneuver_intent_wf_def parameters_wf_def
      parameter_eq_def list_all2_conv_all_nth intro!: json_eq_canonical)

section \<open>Maneuver templates\<close>

text \<open>\<open>tuple(sorted(dependencies))\<close> of semantic maneuver IDs that are unique and not the maneuver itself.\<close>

definition checked_dependencies :: "string \<Rightarrow> pyval list \<Rightarrow> string list result" where
  "checked_dependencies i deps =
     bindE (mapE maneuver_name deps) (\<lambda>ds.
     bindE (guardE (distinct ds) (ValueError NotUnique)) (\<lambda>_.
     bindE (guardE (i \<notin> set ds) (ValueError Inconsistent)) (\<lambda>_.
       Inr (sort ds))))"

record temporal_maneuver =
  tm_maneuver_id :: string
  tm_intent :: maneuver_intent
  tm_dependencies :: "string list"
  tm_duration :: int

definition temporal_maneuver_new ::
  "pyval \<Rightarrow> maneuver_intent \<Rightarrow> pyval list \<Rightarrow> pyval \<Rightarrow> temporal_maneuver result" where
  "temporal_maneuver_new maneuver_id intent deps duration =
     bindE (maneuver_name maneuver_id) (\<lambda>i.
     bindE (checked_dependencies i deps) (\<lambda>ds.
     bindE (integer duration) (\<lambda>d.
     bindE (guardE (0 < d) (ValueError NotPositiveInt)) (\<lambda>_.
       Inr \<lparr>tm_maneuver_id = i, tm_intent = intent, tm_dependencies = ds, tm_duration = d\<rparr>))))"

definition temporal_maneuver_to_dict :: "temporal_maneuver \<Rightarrow> json" where
  "temporal_maneuver_to_dict m = JObj [
     (''maneuver_id'', JStr (tm_maneuver_id m)),
     (''intent'', maneuver_intent_to_dict (tm_intent m)),
     (''dependencies'', JArr (map JStr (tm_dependencies m))),
     (''duration'', JInt (tm_duration m))]"

record symbolic_maneuver =
  sm_maneuver_id :: string
  sm_intent :: maneuver_intent
  sm_dependencies :: "string list"
  sm_cost :: int

definition symbolic_maneuver_new ::
  "pyval \<Rightarrow> maneuver_intent \<Rightarrow> pyval list \<Rightarrow> pyval \<Rightarrow> symbolic_maneuver result" where
  "symbolic_maneuver_new maneuver_id intent deps cost =
     bindE (maneuver_name maneuver_id) (\<lambda>i.
     bindE (checked_dependencies i deps) (\<lambda>ds.
     bindE (positive_int cost) (\<lambda>c.
       Inr \<lparr>sm_maneuver_id = i, sm_intent = intent, sm_dependencies = ds, sm_cost = c\<rparr>)))"

definition symbolic_maneuver_to_dict :: "symbolic_maneuver \<Rightarrow> json" where
  "symbolic_maneuver_to_dict m = JObj [
     (''maneuver_id'', JStr (sm_maneuver_id m)),
     (''intent'', maneuver_intent_to_dict (sm_intent m)),
     (''dependencies'', JArr (map JStr (sm_dependencies m))),
     (''cost'', JInt (sm_cost m))]"

section \<open>Results of planner executions\<close>

record temporal_assignment =
  ta_maneuver_id :: string
  ta_start :: int
  ta_duration :: int
  ta_parameters :: "maneuver_parameter list"

definition temporal_assignment_new ::
  "pyval \<Rightarrow> pyval \<Rightarrow> pyval \<Rightarrow> maneuver_parameter list \<Rightarrow> temporal_assignment result" where
  "temporal_assignment_new maneuver_id start duration ps =
     bindE (maneuver_name maneuver_id) (\<lambda>i.
     bindE (integer start) (\<lambda>s.
     bindE (integer duration) (\<lambda>d.
     bindE (guardE (\<not> (s < 0 \<or> d \<le> 0)) (ValueError BadNumber)) (\<lambda>_.
     bindE (sorted_parameters ps) (\<lambda>sorted.
       Inr \<lparr>ta_maneuver_id = i, ta_start = s, ta_duration = d, ta_parameters = sorted\<rparr>)))))"

record static_check_result =
  ck_accepted :: bool
  ck_return_code :: "int option"
  ck_stdout :: string
  ck_stderr :: string

fun type_checked :: "'a result \<Rightarrow> 'a result" where
  "type_checked (Inl e) = Inl (TypeError BadType)"
| "type_checked (Inr x) = Inr x"

fun boolean :: "pyval \<Rightarrow> bool result" where
  "boolean (PBool b) = Inr b"
| "boolean _ = Inl (TypeError BadType)"

definition static_check_result_new :: "pyval \<Rightarrow> pyval \<Rightarrow> pyval \<Rightarrow> pyval \<Rightarrow> static_check_result result" where
  "static_check_result_new accepted return_code stdout stderr =
     bindE (boolean accepted) (\<lambda>a.
     bindE (type_checked (optional integer return_code)) (\<lambda>rc.
     bindE (type_checked (string_item stdout)) (\<lambda>out.
     bindE (type_checked (string_item stderr)) (\<lambda>err.
       Inr \<lparr>ck_accepted = a, ck_return_code = rc, ck_stdout = out, ck_stderr = err\<rparr>))))"

definition error_message :: "static_check_result \<Rightarrow> string" where
  "error_message r =
     (if ck_accepted r then []
      else if py_strip (ck_stderr r) \<noteq> [] then py_strip (ck_stderr r)
      else if py_strip (ck_stdout r) \<noteq> [] then py_strip (ck_stdout r)
      else ''Planner static validation failed without diagnostic output.'')"

text \<open>\<open>'e\<close> is the evidence of an execution, which the results only carry.\<close>

record 'e execution_result =
  xr_outcome :: planning_outcome
  xr_assignments :: "temporal_assignment list"
  xr_evidence :: "'e option"
  xr_return_code :: "int option"
  xr_stdout :: string
  xr_stderr :: string

definition execution_result_new ::
  "pyval \<Rightarrow> temporal_assignment list \<Rightarrow> 'e option \<Rightarrow> pyval \<Rightarrow> pyval \<Rightarrow> pyval \<Rightarrow> 'e execution_result result" where
  "execution_result_new outcome assignments evidence return_code stdout stderr =
     bindE (planning_outcome_of outcome) (\<lambda>x.
     bindE (guardE (\<not> (x \<noteq> SOLVED \<and> assignments \<noteq> [])) (ValueError NotPermitted)) (\<lambda>_.
     bindE (type_checked (optional integer return_code)) (\<lambda>rc.
     bindE (type_checked (string_item stdout)) (\<lambda>out.
     bindE (type_checked (string_item stderr)) (\<lambda>err.
       Inr \<lparr>xr_outcome = x, xr_assignments = assignments, xr_evidence = evidence, xr_return_code = rc,
         xr_stdout = out, xr_stderr = err\<rparr>)))))"

record symbolic_action_call =
  ac_action :: string
  ac_arguments :: "string list"

definition symbolic_action_call_new :: "pyval \<Rightarrow> pyval list \<Rightarrow> symbolic_action_call result" where
  "symbolic_action_call_new action arguments =
     bindE (maneuver_name action) (\<lambda>a.
     bindE (mapE string_item arguments) (\<lambda>args.
     bindE (guardE ([] \<notin> set args) (ValueError BadType)) (\<lambda>_.
       Inr \<lparr>ac_action = a, ac_arguments = args\<rparr>)))"

record 'e symbolic_execution_result =
  yr_outcome :: planning_outcome
  yr_action_calls :: "symbolic_action_call list"
  yr_total_plan_cost :: int
  yr_evidence :: "'e option"
  yr_return_code :: "int option"
  yr_stdout :: string
  yr_stderr :: string

definition symbolic_execution_result_new ::
  "pyval \<Rightarrow> symbolic_action_call list \<Rightarrow> pyval \<Rightarrow> 'e option \<Rightarrow> pyval \<Rightarrow> pyval \<Rightarrow> pyval \<Rightarrow>
   'e symbolic_execution_result result" where
  "symbolic_execution_result_new outcome calls cost evidence return_code stdout stderr =
     bindE (planning_outcome_of outcome) (\<lambda>x.
     bindE (nonneg_int cost) (\<lambda>c.
     bindE (guardE (\<not> (x \<noteq> SOLVED \<and> (calls \<noteq> [] \<or> c \<noteq> 0))) (ValueError NotPermitted)) (\<lambda>_.
     bindE (type_checked (optional integer return_code)) (\<lambda>rc.
     bindE (type_checked (string_item stdout)) (\<lambda>out.
     bindE (type_checked (string_item stderr)) (\<lambda>err.
       Inr \<lparr>yr_outcome = x, yr_action_calls = calls, yr_total_plan_cost = c, yr_evidence = evidence,
         yr_return_code = rc, yr_stdout = out, yr_stderr = err\<rparr>))))))"

section \<open>Steps of a Normalized Plan\<close>

record scheduled_maneuver =
  sd_maneuver_id :: string
  sd_intent :: maneuver_intent
  sd_dependencies :: "string list"
  sd_start :: int
  sd_duration :: int

definition scheduled_maneuver_new ::
  "pyval \<Rightarrow> maneuver_intent \<Rightarrow> pyval list \<Rightarrow> pyval \<Rightarrow> pyval \<Rightarrow> scheduled_maneuver result" where
  "scheduled_maneuver_new maneuver_id intent deps start duration =
     bindE (maneuver_name maneuver_id) (\<lambda>i.
     bindE (mapE string_item deps) (\<lambda>ds.
     bindE (integer start) (\<lambda>s.
     bindE (integer duration) (\<lambda>d.
     bindE (guardE (\<not> (s < 0 \<or> d \<le> 0)) (ValueError BadNumber)) (\<lambda>_.
       Inr \<lparr>sd_maneuver_id = i, sd_intent = intent, sd_dependencies = sort ds, sd_start = s,
         sd_duration = d\<rparr>)))))"

definition scheduled_maneuver_to_dict :: "scheduled_maneuver \<Rightarrow> json" where
  "scheduled_maneuver_to_dict m = JObj [
     (''maneuver_id'', JStr (sd_maneuver_id m)),
     (''intent'', maneuver_intent_to_dict (sd_intent m)),
     (''dependencies'', JArr (map JStr (sd_dependencies m))),
     (''start'', JInt (sd_start m)),
     (''duration'', JInt (sd_duration m))]"

record symbolic_plan_step =
  sp_step_index :: int
  sp_maneuver_id :: string
  sp_intent :: maneuver_intent
  sp_dependencies :: "string list"
  sp_cost :: int

definition symbolic_plan_step_new ::
  "pyval \<Rightarrow> pyval \<Rightarrow> maneuver_intent \<Rightarrow> pyval list \<Rightarrow> pyval \<Rightarrow> symbolic_plan_step result" where
  "symbolic_plan_step_new step_index maneuver_id intent deps cost =
     bindE (integer step_index) (\<lambda>n.
     bindE (guardE (\<not> n < 0) (ValueError NotNonNegativeInt)) (\<lambda>_.
     bindE (maneuver_name maneuver_id) (\<lambda>i.
     bindE (checked_dependencies i deps) (\<lambda>ds.
     bindE (positive_int cost) (\<lambda>c.
       Inr \<lparr>sp_step_index = n, sp_maneuver_id = i, sp_intent = intent, sp_dependencies = ds,
         sp_cost = c\<rparr>)))))"

definition symbolic_plan_step_to_dict :: "symbolic_plan_step \<Rightarrow> json" where
  "symbolic_plan_step_to_dict m = JObj [
     (''step_index'', JInt (sp_step_index m)),
     (''maneuver_id'', JStr (sp_maneuver_id m)),
     (''intent'', maneuver_intent_to_dict (sp_intent m)),
     (''dependencies'', JArr (map JStr (sp_dependencies m))),
     (''cost'', JInt (sp_cost m))]"

text \<open>\<open>NormalizedPlan.from_dict\<close>, one element of its array: the dependencies must be an array of strings.\<close>

definition string_array :: "pyval \<Rightarrow> pyval list result" where
  "string_array v = (case as_array v of
     None \<Rightarrow> Inl (ValueError NotArray)
   | Some vs \<Rightarrow> bindE (guardE (list_all is_PStr vs) (ValueError NotArray)) (\<lambda>_. Inr vs))"

definition scheduled_maneuver_from_dict :: "pyval \<Rightarrow> scheduled_maneuver result" where
  "scheduled_maneuver_from_dict raw =
     bindE (strict_fields [''maneuver_id'', ''intent'', ''dependencies'', ''start'', ''duration''] raw) (\<lambda>kvs.
     bindE (maneuver_intent_from_dict (item kvs ''intent'')) (\<lambda>intent.
     bindE (string_array (item kvs ''dependencies'')) (\<lambda>deps.
     scheduled_maneuver_new (item kvs ''maneuver_id'') intent deps (item kvs ''start'') (item kvs ''duration''))))"

definition symbolic_plan_step_from_dict :: "pyval \<Rightarrow> symbolic_plan_step result" where
  "symbolic_plan_step_from_dict raw =
     bindE (strict_fields [''step_index'', ''maneuver_id'', ''intent'', ''dependencies'', ''cost''] raw) (\<lambda>kvs.
     bindE (maneuver_intent_from_dict (item kvs ''intent'')) (\<lambda>intent.
     bindE (string_array (item kvs ''dependencies'')) (\<lambda>deps.
     symbolic_plan_step_new (item kvs ''step_index'') (item kvs ''maneuver_id'') intent deps (item kvs ''cost''))))"

definition scheduled_maneuver_wf :: "scheduled_maneuver \<Rightarrow> bool" where
  "scheduled_maneuver_wf m \<longleftrightarrow> portable (sd_maneuver_id m) \<and> maneuver_intent_wf (sd_intent m) \<and>
     sorted (sd_dependencies m) \<and> 0 \<le> sd_start m \<and> 0 < sd_duration m"

definition symbolic_plan_step_wf :: "symbolic_plan_step \<Rightarrow> bool" where
  "symbolic_plan_step_wf m \<longleftrightarrow> 0 \<le> sp_step_index m \<and> portable (sp_maneuver_id m) \<and>
     maneuver_intent_wf (sp_intent m) \<and> sorted (sp_dependencies m) \<and> distinct (sp_dependencies m) \<and>
     (\<forall>d \<in> set (sp_dependencies m). portable d) \<and> sp_maneuver_id m \<notin> set (sp_dependencies m) \<and> 0 < sp_cost m"

lemma mapE_maneuver_name_Inr:
  "mapE maneuver_name vs = Inr xs \<longleftrightarrow> vs = map PStr xs \<and> (\<forall>x \<in> set xs. portable x)"
  by (induction vs arbitrary: xs) (auto simp: err_simps Cons_eq_map_conv)

lemma mapE_string_item_Inr: "mapE string_item vs = Inr xs \<longleftrightarrow> vs = map PStr xs"
  by (induction vs arbitrary: xs) (auto simp: err_simps Cons_eq_map_conv)

lemma checked_dependencies_Inr: "checked_dependencies i vs = Inr ds \<longleftrightarrow>
    (\<exists>xs. vs = map PStr xs \<and> (\<forall>x \<in> set xs. portable x) \<and> distinct xs \<and> i \<notin> set xs \<and> ds = sort xs)"
  by (auto simp: checked_dependencies_def err_simps mapE_maneuver_name_Inr)

lemma string_array_view [simp]: "string_array (view b (JArr (map JStr xs))) = Inr (map PStr xs)"
  by (auto simp: string_array_def list_all_iff comp_def)

lemma scheduled_maneuver_new_wf:
  "scheduled_maneuver_new i m ds s d = Inr x \<Longrightarrow> maneuver_intent_wf m \<Longrightarrow> scheduled_maneuver_wf x"
  by (auto simp: scheduled_maneuver_new_def scheduled_maneuver_wf_def err_simps)

lemma symbolic_plan_step_new_wf:
  "symbolic_plan_step_new n i m ds c = Inr x \<Longrightarrow> maneuver_intent_wf m \<Longrightarrow> symbolic_plan_step_wf x"
  by (auto simp: symbolic_plan_step_new_def symbolic_plan_step_wf_def err_simps checked_dependencies_Inr)

lemma scheduled_maneuver_from_dict_wf:
  "scheduled_maneuver_from_dict v = Inr x \<Longrightarrow> wf_py v \<Longrightarrow> scheduled_maneuver_wf x"
  by (auto simp: scheduled_maneuver_from_dict_def err_simps strict_fields_Inr
      intro: scheduled_maneuver_new_wf maneuver_intent_from_dict_wf wf_item)

lemma symbolic_plan_step_from_dict_wf:
  "symbolic_plan_step_from_dict v = Inr x \<Longrightarrow> wf_py v \<Longrightarrow> symbolic_plan_step_wf x"
  by (auto simp: symbolic_plan_step_from_dict_def err_simps strict_fields_Inr
      intro: symbolic_plan_step_new_wf maneuver_intent_from_dict_wf wf_item)

lemma scheduled_maneuver_view:
  "scheduled_maneuver_wf m \<Longrightarrow> scheduled_maneuver_from_dict (view b (scheduled_maneuver_to_dict m)) = Inr m"
  by (simp add: scheduled_maneuver_from_dict_def scheduled_maneuver_to_dict_def scheduled_maneuver_new_def
      scheduled_maneuver_wf_def mapE_map_Inr [where h = id] sort_key_id_if_sorted insert_commute)

lemma symbolic_plan_step_view:
  assumes "symbolic_plan_step_wf m"
  shows "symbolic_plan_step_from_dict (view b (symbolic_plan_step_to_dict m)) = Inr m"
proof -
  have "checked_dependencies (sp_maneuver_id m) (map PStr (sp_dependencies m)) = Inr (sp_dependencies m)"
    using assms by (auto simp: checked_dependencies_Inr symbolic_plan_step_wf_def sort_key_id_if_sorted)
  with assms show ?thesis
    by (simp add: symbolic_plan_step_from_dict_def symbolic_plan_step_to_dict_def symbolic_plan_step_new_def
        symbolic_plan_step_wf_def insert_commute)
qed

end
