(* ===== verification/FSM_Contracts.thy ===== *)
theory FSM_Contracts
  imports Transport_Contracts Planning_Contracts
begin

text \<open>
  The declarative contracts of \<open>src/onr/contracts/fsm.py\<close>: FSM events, maneuver feedback and
  decisions, the Statechart with its topology checks, transition candidates, the execution record
  and the published status. The two closure loops of the Statechart constructor compute the
  reflexive-transitive closure of the transition relation.
\<close>

section \<open>Helpers of the module\<close>

abbreviation fsm_payload :: "pyval \<Rightarrow> jobj result" where
  "fsm_payload \<equiv> payload (TypeError KeyNotString) (TypeError NotObject)"

definition decoded_object :: "(pyval \<Rightarrow> 'a result) \<Rightarrow> pyval option \<Rightarrow> 'a result" where
  "decoded_object f decoded = (case decoded of
     None \<Rightarrow> Inl (ValueError InvalidJson)
   | Some v \<Rightarrow> if as_mapping v = None then Inl (TypeError NotObject) else f v)"

definition schema_is :: "int \<Rightarrow> pyval \<Rightarrow> json result" where
  "schema_is n v = (if equals_int v n then freeze_json (TypeError KeyNotString) v
     else Inl (ValueError BadSchemaVersion))"

definition or_else :: "pyval \<Rightarrow> pyval \<Rightarrow> pyval" where
  "or_else a b = (if a \<noteq> PNone then a else b)"

text \<open>\<open>isinstance(item, str) and item\<close>: a string that is not empty, blank or not.\<close>

fun name_of :: "pyval \<Rightarrow> string result" where
  "name_of (PStr s) = (if s = [] then Inl (ValueError BlankText) else Inr s)"
| "name_of _ = Inl (ValueError BlankText)"

lemma name_of_Inr [err_simps]: "name_of v = Inr s \<longleftrightarrow> v = PStr s \<and> s \<noteq> []"
  by (cases v) auto

lemma or_else_None [simp]: "or_else PNone v = v" "v \<noteq> PNone \<Longrightarrow> or_else v w = v"
  by (simp_all add: or_else_def)

lemma schema_is_view [simp]: "jnum j = Some (of_int n) \<Longrightarrow> schema_is n (view b j) = Inr j"
  by (cases j) (auto simp: schema_is_def equals_int_def)

lemma schema_is_Inr: "schema_is n v = Inr j \<Longrightarrow> jnum j = Some (of_int n)"
  by (cases v rule: num_value.cases) (auto simp: schema_is_def equals_int_def split: if_splits)

section \<open>FSM events\<close>

record fsm_event =
  fe_event_id :: string
  fe_event_kind :: string
  fe_payload :: jobj
  fe_schema_version :: int

definition fsm_event_new ::
  "pyval \<Rightarrow> pyval \<Rightarrow> pyval \<Rightarrow> pyval \<Rightarrow> pyval \<Rightarrow> pyval \<Rightarrow> fsm_event result" where
  "fsm_event_new event_id event_kind pl schema_version identity kind =
     bindE (text_of (or_else event_id identity)) (\<lambda>eid.
     bindE (text_of (or_else event_kind kind)) (\<lambda>k.
     bindE (positive_int schema_version) (\<lambda>sv.
     bindE (fsm_payload (or_else pl (PDict []))) (\<lambda>p.
       Inr \<lparr>fe_event_id = eid, fe_event_kind = k, fe_payload = p, fe_schema_version = sv\<rparr>))))"

definition fsm_event_to_dict :: "fsm_event \<Rightarrow> json" where
  "fsm_event_to_dict e = JObj [
     (''schema_version'', JInt (fe_schema_version e)),
     (''event_id'', JStr (fe_event_id e)),
     (''event_kind'', JStr (fe_event_kind e)),
     (''payload'', JObj (fe_payload e))]"

definition fsm_event_from_dict :: "pyval \<Rightarrow> fsm_event result" where
  "fsm_event_from_dict v =
     bindE (strict_fields [''schema_version'', ''event_id'', ''event_kind'', ''payload''] v) (\<lambda>kvs.
     fsm_event_new (item kvs ''event_id'') (item kvs ''event_kind'') (item kvs ''payload'')
       (item kvs ''schema_version'') PNone PNone)"

definition fsm_event_wf :: "fsm_event \<Rightarrow> bool" where
  "fsm_event_wf e \<longleftrightarrow> nonblank (fe_event_id e) \<and> nonblank (fe_event_kind e) \<and>
     wf_obj (fe_payload e) \<and> 0 < fe_schema_version e"

lemma wf_or_else [simp]: "wf_py v \<Longrightarrow> wf_py w \<Longrightarrow> wf_py (or_else v w)"
  by (simp add: or_else_def)

lemma fsm_event_new_wf: "fsm_event_new eid k pl sv i k' = Inr e \<Longrightarrow> wf_py pl \<Longrightarrow> fsm_event_wf e"
  by (auto simp: fsm_event_new_def fsm_event_wf_def err_simps intro!: payload_wf)

lemma fsm_event_view: "fsm_event_wf e \<Longrightarrow> fsm_event_from_dict (view b (fsm_event_to_dict e)) = Inr e"
  by (simp add: fsm_event_from_dict_def fsm_event_to_dict_def fsm_event_new_def fsm_event_wf_def)

section \<open>Maneuver feedback\<close>

record maneuver_feedback =
  mf_feedback_id :: string
  mf_mission_id :: string
  mf_maneuver_id :: string
  mf_lifecycle :: string
  mf_payload :: jobj
  mf_schema_version :: int

definition lifecycles :: "string list" where
  "lifecycles = [''active'', ''completed'', ''failed'', ''cancelled'']"

definition maneuver_feedback_new ::
  "pyval \<Rightarrow> pyval \<Rightarrow> pyval \<Rightarrow> pyval \<Rightarrow> pyval \<Rightarrow> pyval \<Rightarrow> pyval \<Rightarrow> pyval \<Rightarrow> maneuver_feedback result" where
  "maneuver_feedback_new feedback_id mission_id maneuver_id lifecycle pl schema_version event_id status =
     bindE (text_of (or_else feedback_id event_id)) (\<lambda>fid.
     bindE (text_of mission_id) (\<lambda>mid.
     bindE (text_of maneuver_id) (\<lambda>man.
     bindE (text_of (or_else lifecycle status)) (\<lambda>lc.
     bindE (guardE (lc \<in> set lifecycles) (ValueError BadEnum)) (\<lambda>_.
     bindE (positive_int schema_version) (\<lambda>sv.
     bindE (fsm_payload (or_else pl (PProxy []))) (\<lambda>p.
       Inr \<lparr>mf_feedback_id = fid, mf_mission_id = mid, mf_maneuver_id = man, mf_lifecycle = lc,
         mf_payload = p, mf_schema_version = sv\<rparr>)))))))"

definition maneuver_feedback_to_dict :: "maneuver_feedback \<Rightarrow> json" where
  "maneuver_feedback_to_dict f = JObj [
     (''schema_version'', JInt (mf_schema_version f)),
     (''feedback_id'', JStr (mf_feedback_id f)),
     (''mission_id'', JStr (mf_mission_id f)),
     (''maneuver_id'', JStr (mf_maneuver_id f)),
     (''lifecycle'', JStr (mf_lifecycle f)),
     (''payload'', JObj (mf_payload f))]"

definition maneuver_feedback_from_dict :: "pyval \<Rightarrow> maneuver_feedback result" where
  "maneuver_feedback_from_dict v =
     bindE (strict_fields [''schema_version'', ''feedback_id'', ''mission_id'', ''maneuver_id'',
       ''lifecycle'', ''payload''] v) (\<lambda>kvs.
     maneuver_feedback_new (item kvs ''feedback_id'') (item kvs ''mission_id'')
       (item kvs ''maneuver_id'') (item kvs ''lifecycle'') (item kvs ''payload'')
       (item kvs ''schema_version'') PNone PNone)"

definition maneuver_feedback_wf :: "maneuver_feedback \<Rightarrow> bool" where
  "maneuver_feedback_wf f \<longleftrightarrow> nonblank (mf_feedback_id f) \<and> nonblank (mf_mission_id f) \<and>
     nonblank (mf_maneuver_id f) \<and> nonblank (mf_lifecycle f) \<and> mf_lifecycle f \<in> set lifecycles \<and>
     wf_obj (mf_payload f) \<and> 0 < mf_schema_version f"

lemma maneuver_feedback_new_wf:
  "maneuver_feedback_new fid mid man lc pl sv eid st = Inr f \<Longrightarrow> wf_py pl \<Longrightarrow> maneuver_feedback_wf f"
  by (auto simp: maneuver_feedback_new_def maneuver_feedback_wf_def err_simps intro!: payload_wf)

lemma maneuver_feedback_view: "maneuver_feedback_wf f \<Longrightarrow>
    maneuver_feedback_from_dict (view b (maneuver_feedback_to_dict f)) = Inr f"
  by (simp add: maneuver_feedback_from_dict_def maneuver_feedback_to_dict_def
      maneuver_feedback_new_def maneuver_feedback_wf_def)

section \<open>Maneuver decisions\<close>

record maneuver_decision =
  md_decision_id :: string
  md_mission_id :: string
  md_transition_event :: "string option"
  md_maneuver_id :: "string option"
  md_physical_maneuver :: "jobj option"
  md_payload :: jobj
  md_schema_version :: int

definition lifecycle_claims :: "string list" where
  "lifecycle_claims = [''lifecycle'', ''status'', ''completed'']"

text \<open>
  The aliases \<open>event_id\<close>, \<open>event\<close>, \<open>transition\<close>, \<open>physical_action\<close> and \<open>lifecycle\<close> of the
  constructor are resolved first; the checks of \<open>__post_init__\<close> follow.
\<close>

definition maneuver_decision_check ::
  "pyval \<Rightarrow> pyval \<Rightarrow> pyval \<Rightarrow> pyval \<Rightarrow> pyval \<Rightarrow> pyval \<Rightarrow> pyval \<Rightarrow> maneuver_decision result" where
  "maneuver_decision_check decision_id mission_id transition_event maneuver_id physical pl schema_version =
     bindE (text_of decision_id) (\<lambda>did.
     bindE (text_of mission_id) (\<lambda>mid.
     bindE (optional text_of transition_event) (\<lambda>tev.
     bindE (optional text_of maneuver_id) (\<lambda>man.
     bindE (guardE (\<not> (tev = None \<and> man = None \<and> physical = PNone)) (ValueError Missing)) (\<lambda>_.
     bindE (guardE (\<not> (tev \<noteq> None \<and> physical \<noteq> PNone)) (ValueError Ambiguous)) (\<lambda>_.
     bindE (optional fsm_payload physical) (\<lambda>phys.
     bindE (fsm_payload pl) (\<lambda>p.
     bindE (guardE (\<forall>k \<in> set lifecycle_claims. map_of p k = None) (ValueError ForbiddenClaim)) (\<lambda>_.
     bindE (positive_int schema_version) (\<lambda>sv.
       Inr \<lparr>md_decision_id = did, md_mission_id = mid, md_transition_event = tev,
         md_maneuver_id = man, md_physical_maneuver = phys, md_payload = p,
         md_schema_version = sv\<rparr>))))))))))"

definition maneuver_decision_new ::
  "pyval \<Rightarrow> pyval \<Rightarrow> pyval \<Rightarrow> pyval \<Rightarrow> pyval \<Rightarrow> pyval \<Rightarrow> pyval \<Rightarrow>
   pyval \<Rightarrow> pyval \<Rightarrow> pyval \<Rightarrow> pyval \<Rightarrow> pyval \<Rightarrow> maneuver_decision result" where
  "maneuver_decision_new decision_id mission_id transition_event maneuver_id physical_maneuver pl
     schema_version event_id event transition lifecycle physical_action =
   maneuver_decision_check (or_else decision_id event_id) mission_id
     (or_else transition_event (or_else event transition)) maneuver_id
     (or_else physical_maneuver physical_action)
     (if lifecycle \<noteq> PNone then PDict [(KStr ''lifecycle'', lifecycle)] else or_else pl (PProxy []))
     schema_version"

definition optional_json :: "('a \<Rightarrow> json) \<Rightarrow> 'a option \<Rightarrow> json" where
  "optional_json f x = (case x of None \<Rightarrow> JNull | Some y \<Rightarrow> f y)"

definition maneuver_decision_to_dict :: "maneuver_decision \<Rightarrow> json" where
  "maneuver_decision_to_dict d = JObj [
     (''schema_version'', JInt (md_schema_version d)),
     (''decision_id'', JStr (md_decision_id d)),
     (''mission_id'', JStr (md_mission_id d)),
     (''transition_event'', optional_json JStr (md_transition_event d)),
     (''maneuver_id'', optional_json JStr (md_maneuver_id d)),
     (''physical_maneuver'', optional_json JObj (md_physical_maneuver d)),
     (''payload'', JObj (md_payload d))]"

definition maneuver_decision_from_dict :: "pyval \<Rightarrow> maneuver_decision result" where
  "maneuver_decision_from_dict v =
     bindE (strict_fields [''schema_version'', ''decision_id'', ''mission_id'', ''transition_event'',
       ''maneuver_id'', ''physical_maneuver'', ''payload''] v) (\<lambda>kvs.
     maneuver_decision_new (item kvs ''decision_id'') (item kvs ''mission_id'')
       (item kvs ''transition_event'') (item kvs ''maneuver_id'') (item kvs ''physical_maneuver'')
       (item kvs ''payload'') (item kvs ''schema_version'') PNone PNone PNone PNone PNone)"

definition maneuver_decision_wf :: "maneuver_decision \<Rightarrow> bool" where
  "maneuver_decision_wf d \<longleftrightarrow> nonblank (md_decision_id d) \<and> nonblank (md_mission_id d) \<and>
     opt_all nonblank (md_transition_event d) \<and>
     opt_all nonblank (md_maneuver_id d) \<and>
     (md_transition_event d \<noteq> None \<or> md_maneuver_id d \<noteq> None \<or> md_physical_maneuver d \<noteq> None) \<and>
     (md_transition_event d = None \<or> md_physical_maneuver d = None) \<and>
     opt_all wf_obj (md_physical_maneuver d) \<and> wf_obj (md_payload d) \<and>
     (\<forall>k \<in> set lifecycle_claims. map_of (md_payload d) k = None) \<and> 0 < md_schema_version d"

lemma optional_wf:
  "optional text_of v = Inr x \<Longrightarrow> opt_all nonblank x"
  "optional nonneg_int v = Inr y \<Longrightarrow> opt_all (\<lambda>n. 0 \<le> n) y"
  "optional (payload ek eo) v = Inr z \<Longrightarrow> wf_py v \<Longrightarrow> opt_all wf_obj z"
  by (auto simp: optional_Inr text_of_Inr nonneg_int_Inr payload_wf split: if_splits)

lemma maneuver_decision_check_wf:
  assumes "maneuver_decision_check did mid tev man phys pl sv = Inr d" and "wf_py phys" and "wf_py pl"
  shows "maneuver_decision_wf d"
  using assms
  by (auto simp: maneuver_decision_check_def maneuver_decision_wf_def err_simps lifecycle_claims_def
      payload_wf split: if_splits)

lemma optional_view [simp]:
  "opt_all nonblank x \<Longrightarrow> optional text_of (view b (optional_json JStr x)) = Inr x"
  "optional (payload ek eo) (view b (optional_json JObj y)) = Inr y"
  "opt_all (\<lambda>n. 0 \<le> n) z \<Longrightarrow> optional nonneg_int (view b (optional_json JInt z)) = Inr z"
  by (cases x; cases y; cases z; simp add: optional_json_def optional_def)+

lemma optional_json_JNull [simp]: "optional_json JStr x = JNull \<longleftrightarrow> x = None"
  "optional_json JObj y = JNull \<longleftrightarrow> y = None" "optional_json JInt z = JNull \<longleftrightarrow> z = None"
  by (simp_all add: optional_json_def split: option.split)

lemma or_else_view [simp]: "or_else (view b (optional_json f x)) PNone = view b (optional_json f x)"
  by (simp add: or_else_def)

lemma maneuver_decision_view: "maneuver_decision_wf d \<Longrightarrow>
    maneuver_decision_from_dict (view b (maneuver_decision_to_dict d)) = Inr d"
  by (auto simp: maneuver_decision_from_dict_def maneuver_decision_to_dict_def maneuver_decision_new_def
      maneuver_decision_check_def maneuver_decision_wf_def split: option.split)

section \<open>Statechart topology\<close>

record statechart_transition =
  tr_event :: string
  tr_source :: string
  tr_target :: string
  tr_context :: jobj

definition statechart_transition_new ::
  "pyval \<Rightarrow> pyval \<Rightarrow> pyval \<Rightarrow> pyval \<Rightarrow> statechart_transition result" where
  "statechart_transition_new event source target context =
     bindE (text_of event) (\<lambda>ev.
     bindE (text_of source) (\<lambda>src.
     bindE (text_of target) (\<lambda>tgt.
     bindE (fsm_payload context) (\<lambda>ctx.
       Inr \<lparr>tr_event = ev, tr_source = src, tr_target = tgt, tr_context = ctx\<rparr>))))"

definition statechart_transition_to_dict :: "statechart_transition \<Rightarrow> json" where
  "statechart_transition_to_dict t = JObj [
     (''event'', JStr (tr_event t)),
     (''source'', JStr (tr_source t)),
     (''target'', JStr (tr_target t)),
     (''context'', JObj (tr_context t))]"

definition statechart_transition_from_dict :: "pyval \<Rightarrow> statechart_transition result" where
  "statechart_transition_from_dict v =
     bindE (strict_fields [''event'', ''source'', ''target'', ''context''] v) (\<lambda>kvs.
     statechart_transition_new (item kvs ''event'') (item kvs ''source'') (item kvs ''target'')
       (item kvs ''context''))"

definition transition_wf :: "statechart_transition \<Rightarrow> bool" where
  "transition_wf t \<longleftrightarrow> nonblank (tr_event t) \<and> nonblank (tr_source t) \<and> nonblank (tr_target t) \<and>
     wf_obj (tr_context t)"

lemma statechart_transition_from_dict_wf:
  "statechart_transition_from_dict v = Inr t \<Longrightarrow> wf_py v \<Longrightarrow> transition_wf t"
  by (auto simp: statechart_transition_from_dict_def statechart_transition_new_def transition_wf_def
      bindE_eq_Inr strict_fields_Inr text_of_Inr intro!: payload_wf wf_item)

lemma statechart_transition_view [simp]: "transition_wf t \<Longrightarrow>
    statechart_transition_from_dict (view b (statechart_transition_to_dict t)) = Inr t"
  by (simp add: statechart_transition_from_dict_def statechart_transition_to_dict_def
      statechart_transition_new_def transition_wf_def)

text \<open>
  The two \<open>while True\<close> loops of the constructor: a set of states is expanded along the edges until
  nothing is added, forwards from the entry state and backwards from the terminal states.
\<close>

definition expanded :: "(string \<times> string) list \<Rightarrow> string set \<Rightarrow> string set" where
  "expanded es R = R \<union> set (map snd (filter (\<lambda>e. fst e \<in> R) es))"

function closure :: "(string \<times> string) list \<Rightarrow> string set \<Rightarrow> string set" where
  "closure es R = (let R' = expanded es R in if R' = R then R else closure es R')"
  by auto
termination
proof (relation "measure (\<lambda>(es, R). card (snd ` set es - R))", simp, clarsimp)
  fix es :: "(string \<times> string) list" and R
  assume "expanded es R \<noteq> R"
  then obtain e where "e \<in> set es" "snd e \<notin> R" "fst e \<in> R" by (auto simp: expanded_def)
  then have "snd ` set es - expanded es R \<subset> snd ` set es - R" by (auto simp: expanded_def)
  then show "card (snd ` set es - expanded es R) < card (snd ` set es - R)"
    by (simp add: psubset_card_mono)
qed

declare closure.simps [simp del]

lemma closure_rtrancl: "closure es R = (set es)\<^sup>* `` R"
proof (induction es R rule: closure.induct)
  case (1 es R)
  have step: "expanded es R = R \<union> set es `` R" by (force simp: expanded_def)
  show ?case
  proof (cases "expanded es R = R")
    case True
    then have "set es `` R \<subseteq> R" using step by blast
    then have "(set es)\<^sup>* `` R = R" by (rule Image_closed_trancl)
    with True show ?thesis by (simp add: closure.simps [of es R])
  next
    case False
    have "(set es)\<^sup>* `` expanded es R = (set es)\<^sup>* `` R"
      unfolding step by (auto intro: converse_rtrancl_into_rtrancl)
    with False 1 show ?thesis by (simp add: closure.simps [of es R] Let_def)
  qed
qed

definition forward_edges :: "statechart_transition list \<Rightarrow> (string \<times> string) list" where
  "forward_edges ts = map (\<lambda>t. (tr_source t, tr_target t)) ts"

definition backward_edges :: "statechart_transition list \<Rightarrow> (string \<times> string) list" where
  "backward_edges ts = map (\<lambda>t. (tr_target t, tr_source t)) ts"

section \<open>The Statechart\<close>

record statechart =
  sc_mission_id :: string
  sc_plan_revision :: int
  sc_mission_snapshot_id :: string
  sc_planning_profile :: planning_profile
  sc_entry_state :: string
  sc_states :: "string list"
  sc_transitions :: "statechart_transition list"
  sc_terminal_states :: "string list"
  sc_state_context :: "(string \<times> jobj) list"
  sc_schema_version :: json

definition member_of :: "string list \<Rightarrow> pyval \<Rightarrow> string result" where
  "member_of xs v = (case v of
     PStr s \<Rightarrow> if s \<in> set xs then Inr s else Inl (ValueError Undeclared)
   | _ \<Rightarrow> Inl (ValueError Undeclared))"

definition keyed_payload :: "pykey \<times> pyval \<Rightarrow> (string \<times> jobj) result" where
  "keyed_payload kv = (case fst kv of
     KStr k \<Rightarrow> bindE (fsm_payload (snd kv)) (\<lambda>p. Inr (k, p))
   | KOther _ \<Rightarrow> Inl (TypeError KeyNotString))"

definition check_topology :: "string \<Rightarrow> string list \<Rightarrow> string list \<Rightarrow> statechart_transition list \<Rightarrow> unit result" where
  "check_topology entry states terminals ts =
     bindE (guardE (\<forall>t \<in> set ts. tr_source t \<in> set states \<and> tr_target t \<in> set states)
       (ValueError Undeclared)) (\<lambda>_.
     bindE (guardE (distinct (map (\<lambda>t. (tr_event t, tr_source t)) ts)) (ValueError NotUnique)) (\<lambda>_.
     bindE (guardE (distinct (map tr_event ts)) (ValueError NotUnique)) (\<lambda>_.
     bindE (guardE (distinct (map (\<lambda>t. (tr_source t, tr_target t)) ts)) (ValueError NotUnique)) (\<lambda>_.
     bindE (guardE (closure (forward_edges ts) {entry} = set states) (ValueError Unreachable)) (\<lambda>_.
     guardE (closure (backward_edges ts) (set terminals) = set states) (ValueError Unreachable))))))"

definition statechart_new ::
  "pyval \<Rightarrow> pyval \<Rightarrow> pyval \<Rightarrow> pyval \<Rightarrow> pyval \<Rightarrow> pyval list \<Rightarrow> statechart_transition list \<Rightarrow>
   pyval list \<Rightarrow> pyval \<Rightarrow> pyval \<Rightarrow> statechart result" where
  "statechart_new mission_id plan_revision snapshot_id profile entry_state raw_states ts raw_terminals
     raw_context schema_version =
     bindE (text_of mission_id) (\<lambda>mid.
     bindE (nonneg_int plan_revision) (\<lambda>rev.
     bindE (text_of snapshot_id) (\<lambda>snap.
     bindE (planning_profile_of profile) (\<lambda>prof.
     bindE (text_of entry_state) (\<lambda>entry.
     bindE (guardE (raw_states \<noteq> []) (ValueError BlankText)) (\<lambda>_.
     bindE (mapE text_of raw_states) (\<lambda>states.
     bindE (guardE (distinct states) (ValueError NotUnique)) (\<lambda>_.
     bindE (guardE (entry \<in> set states) (ValueError Undeclared)) (\<lambda>_.
     bindE (guardE (raw_terminals \<noteq> []) (ValueError Missing)) (\<lambda>_.
     bindE (mapE (member_of states) raw_terminals) (\<lambda>terminals.
     bindE (guardE (distinct terminals) (ValueError NotUnique)) (\<lambda>_.
     bindE (check_topology entry states terminals ts) (\<lambda>_.
     bindE (strict_fields states raw_context) (\<lambda>kvs.
     bindE (mapE keyed_payload kvs) (\<lambda>context.
     bindE (schema_is 2 schema_version) (\<lambda>sv.
       Inr \<lparr>sc_mission_id = mid, sc_plan_revision = rev, sc_mission_snapshot_id = snap,
         sc_planning_profile = prof, sc_entry_state = entry, sc_states = states,
         sc_transitions = ts, sc_terminal_states = terminals, sc_state_context = context,
         sc_schema_version = sv\<rparr>))))))))))))))))"

definition context_for :: "statechart \<Rightarrow> string \<Rightarrow> jobj result" where
  "context_for c state = (case map_of (sc_state_context c) state of
     None \<Rightarrow> Inl KeyError | Some p \<Rightarrow> Inr p)"

definition statechart_to_dict :: "statechart \<Rightarrow> json" where
  "statechart_to_dict c = JObj [
     (''schema_version'', sc_schema_version c),
     (''mission_id'', JStr (sc_mission_id c)),
     (''plan_revision'', JInt (sc_plan_revision c)),
     (''mission_snapshot_id'', JStr (sc_mission_snapshot_id c)),
     (''planning_profile'', JStr (profile_text (sc_planning_profile c))),
     (''entry_state'', JStr (sc_entry_state c)),
     (''states'', JArr (map JStr (sc_states c))),
     (''transitions'', JArr (map statechart_transition_to_dict (sc_transitions c))),
     (''terminal_states'', JArr (map JStr (sc_terminal_states c))),
     (''state_context'', JObj (map (\<lambda>(k, p). (k, JObj p)) (sort_key fst (sc_state_context c))))]"

definition array_of :: "pyval \<Rightarrow> pyval list result" where
  "array_of v = (case as_array v of None \<Rightarrow> Inl (TypeError NotArray) | Some vs \<Rightarrow> Inr vs)"

definition statechart_from_dict :: "pyval \<Rightarrow> statechart result" where
  "statechart_from_dict v =
     bindE (strict_fields [''schema_version'', ''mission_id'', ''plan_revision'', ''mission_snapshot_id'',
       ''planning_profile'', ''entry_state'', ''terminal_states'', ''states'', ''state_context'',
       ''transitions''] v) (\<lambda>kvs.
     bindE (array_of (item kvs ''states'')) (\<lambda>states.
     bindE (array_of (item kvs ''transitions'')) (\<lambda>ts.
     bindE (array_of (item kvs ''terminal_states'')) (\<lambda>terminals.
     bindE (mapE statechart_transition_from_dict ts) (\<lambda>transitions.
     statechart_new (item kvs ''mission_id'') (item kvs ''plan_revision'')
       (item kvs ''mission_snapshot_id'') (item kvs ''planning_profile'') (item kvs ''entry_state'')
       states transitions terminals (item kvs ''state_context'') (item kvs ''schema_version''))))))"

definition statechart_from_json :: "pyval option \<Rightarrow> statechart result" where
  "statechart_from_json decoded = decoded_object statechart_from_dict decoded"

definition statechart_json :: "statechart \<Rightarrow> json" where
  "statechart_json c = canonical (statechart_to_dict c)"

definition statechart_eq :: "statechart \<Rightarrow> statechart \<Rightarrow> bool" where
  "statechart_eq a b \<longleftrightarrow> sc_mission_id a = sc_mission_id b \<and> sc_plan_revision a = sc_plan_revision b \<and>
     sc_mission_snapshot_id a = sc_mission_snapshot_id b \<and>
     sc_planning_profile a = sc_planning_profile b \<and> sc_entry_state a = sc_entry_state b \<and>
     sc_states a = sc_states b \<and>
     list_all2 (\<lambda>s t. tr_event s = tr_event t \<and> tr_source s = tr_source t \<and>
       tr_target s = tr_target t \<and> jobj_eq (tr_context s) (tr_context t))
       (sc_transitions a) (sc_transitions b) \<and>
     sc_terminal_states a = sc_terminal_states b \<and>
     jobj_eq (map (\<lambda>(k, p). (k, JObj p)) (sc_state_context a))
       (map (\<lambda>(k, p). (k, JObj p)) (sc_state_context b)) \<and>
     json_eq (sc_schema_version a) (sc_schema_version b)"

definition statechart_wf :: "statechart \<Rightarrow> bool" where
  "statechart_wf c \<longleftrightarrow> nonblank (sc_mission_id c) \<and> 0 \<le> sc_plan_revision c \<and>
     nonblank (sc_mission_snapshot_id c) \<and> nonblank (sc_entry_state c) \<and>
     (\<forall>s \<in> set (sc_states c). nonblank s) \<and> distinct (sc_states c) \<and>
     sc_entry_state c \<in> set (sc_states c) \<and> sc_terminal_states c \<noteq> [] \<and>
     set (sc_terminal_states c) \<subseteq> set (sc_states c) \<and> distinct (sc_terminal_states c) \<and>
     check_topology (sc_entry_state c) (sc_states c) (sc_terminal_states c) (sc_transitions c) = Inr () \<and>
     (\<forall>t \<in> set (sc_transitions c). transition_wf t) \<and>
     distinct (map fst (sc_state_context c)) \<and> fst ` set (sc_state_context c) = set (sc_states c) \<and>
     (\<forall>kp \<in> set (sc_state_context c). wf_obj (snd kp)) \<and> jnum (sc_schema_version c) = Some 2"

subsection \<open>Well-formedness and topology\<close>

lemma mapE_member_of: "mapE (member_of ys) vs = Inr xs \<Longrightarrow> vs = map PStr xs \<and> set xs \<subseteq> set ys"
  by (induction vs arbitrary: xs)
    (auto simp: err_simps member_of_def split: pyval.splits if_splits)

lemma mapE_keyed_payload:
  assumes "mapE keyed_payload kvs = Inr c" and "\<forall>kv \<in> set kvs. wf_py (snd kv)"
  shows "map fst kvs = map (KStr \<circ> fst) c \<and> (\<forall>kp \<in> set c. wf_obj (snd kp))"
  using assms
proof (induction kvs arbitrary: c)
  case (Cons kv kvs)
  then obtain k p ps where "fst kv = KStr k" "fsm_payload (snd kv) = Inr p" "c = (k, p) # ps"
    "mapE keyed_payload kvs = Inr ps"
    by (cases "fst kv") (auto simp: bindE_eq_Inr keyed_payload_def [of kv])
  with Cons show ?case by (auto intro: payload_wf)
qed simp

lemma wf_mapping_items: "as_mapping v = Some kvs \<Longrightarrow> wf_py v \<Longrightarrow>
    distinct (map fst kvs) \<and> (\<forall>kv \<in> set kvs. wf_py (snd kv))"
  by (cases v) auto

lemma statechart_new_wf:
  assumes new: "statechart_new mid pr snap prof en rs ts rt ctx sv = Inr c"
    and ts: "\<forall>t \<in> set ts. transition_wf t" and ctx: "wf_py ctx"
  shows "statechart_wf c"
proof -
  from new obtain kvs cs where kvs: "as_mapping ctx = Some kvs" "has_fields (sc_states c) kvs"
    "mapE keyed_payload kvs = Inr cs" and c: "sc_state_context c = cs"
    by (auto simp: statechart_new_def bindE_eq_Inr strict_fields_Inr)
  from wf_mapping_items [OF kvs(1) ctx] mapE_keyed_payload [OF kvs(3)]
  have keys: "distinct (map (KStr \<circ> fst) cs)" "\<forall>kp \<in> set cs. wf_obj (snd kp)"
    and *: "set (map fst kvs) = KStr ` fst ` set cs"
    by (auto simp: image_comp simp flip: set_map)
  from keys(1) have "distinct (map fst cs)" by (simp add: distinct_map inj_on_def)
  moreover from kvs(2) * have "fst ` set cs = set (sc_states c)"
    by (simp add: has_fields_def inj_image_eq_iff inj_def)
  ultimately show ?thesis
    using new ts keys(2) c
    by (auto simp: statechart_new_def statechart_wf_def bindE_eq_Inr text_of_Inr nonneg_int_Inr
        dest: mapE_text_of_Inr schema_is_Inr dest!: mapE_member_of)
qed

lemma wf_py_array: "array_of v = Inr vs \<Longrightarrow> wf_py v \<Longrightarrow> \<forall>x \<in> set vs. wf_py x"
  by (cases v) (auto simp: array_of_def)

lemma statechart_from_dict_wf:
  assumes "statechart_from_dict v = Inr c" and "wf_py v"
  shows "statechart_wf c"
proof -
  from assms(1) obtain kvs states ts terminals transitions where
    v: "as_mapping v = Some kvs" and ts: "array_of (item kvs ''transitions'') = Inr ts"
      "mapE statechart_transition_from_dict ts = Inr transitions"
    and c: "statechart_new (item kvs ''mission_id'') (item kvs ''plan_revision'')
       (item kvs ''mission_snapshot_id'') (item kvs ''planning_profile'') (item kvs ''entry_state'')
       states transitions terminals (item kvs ''state_context'') (item kvs ''schema_version'') = Inr c"
    by (auto simp: statechart_from_dict_def bindE_eq_Inr strict_fields_Inr)
  have "\<forall>t \<in> set transitions. transition_wf t"
    using mapE_Inr_set [OF ts(2)] wf_py_array [OF ts(1) wf_item [OF v assms(2)]]
      statechart_transition_from_dict_wf by blast
  then show ?thesis by (rule statechart_new_wf [OF c]) (rule wf_item [OF v assms(2)])
qed

definition chart_edges :: "statechart \<Rightarrow> (string \<times> string) set" where
  "chart_edges c = {(tr_source t, tr_target t) |t. t \<in> set (sc_transitions c)}"

lemma set_forward_edges: "set (forward_edges (sc_transitions c)) = chart_edges c"
  by (auto simp: forward_edges_def chart_edges_def)

lemma set_backward_edges: "set (backward_edges (sc_transitions c)) = (chart_edges c)\<inverse>"
  by (auto simp: backward_edges_def chart_edges_def)

lemma check_topology_Inr:
  "check_topology (sc_entry_state c) (sc_states c) (sc_terminal_states c) (sc_transitions c) = Inr () \<longleftrightarrow>
     (\<forall>t \<in> set (sc_transitions c). tr_source t \<in> set (sc_states c) \<and> tr_target t \<in> set (sc_states c)) \<and>
     distinct (map tr_event (sc_transitions c)) \<and>
     distinct (map (\<lambda>t. (tr_source t, tr_target t)) (sc_transitions c)) \<and>
     (chart_edges c)\<^sup>* `` {sc_entry_state c} = set (sc_states c) \<and>
     ((chart_edges c)\<inverse>)\<^sup>* `` set (sc_terminal_states c) = set (sc_states c)"
proof -
  have "distinct (map tr_event ts) \<Longrightarrow> distinct (map (\<lambda>t. (tr_event t, tr_source t)) ts)" for ts
    by (auto simp: distinct_map inj_on_def)
  then show ?thesis
    by (auto simp: check_topology_def closure_rtrancl set_forward_edges set_backward_edges)
qed

lemma statechart_wfD:
  assumes "statechart_wf c"
  shows "nonblank (sc_mission_id c)" and "0 \<le> sc_plan_revision c"
    and "sc_entry_state c \<in> set (sc_states c)" and "s \<in> set (sc_states c) \<Longrightarrow> nonblank s"
    and "t \<in> set (sc_transitions c) \<Longrightarrow>
      transition_wf t \<and> tr_source t \<in> set (sc_states c) \<and> tr_target t \<in> set (sc_states c)"
    and "distinct (map tr_event (sc_transitions c))"
    and "s \<in> set (sc_states c) \<Longrightarrow> \<exists>p. context_for c s = Inr p \<and> wf_obj p"
proof -
  show "\<exists>p. context_for c s = Inr p \<and> wf_obj p" if "s \<in> set (sc_states c)"
  proof -
    from that assms have "s \<in> fst ` set (sc_state_context c)" by (simp add: statechart_wf_def)
    then obtain p where p: "map_of (sc_state_context c) s = Some p"
      by (cases "map_of (sc_state_context c) s") (auto simp: map_of_eq_None_iff)
    then have "wf_obj p" using assms by (auto simp: statechart_wf_def dest!: map_of_SomeD)
    with p show ?thesis by (simp add: context_for_def)
  qed
qed (use assms in \<open>auto simp: statechart_wf_def check_topology_Inr\<close>)

subsection \<open>Reading a Statechart back\<close>

definition canonical_transition :: "statechart_transition \<Rightarrow> statechart_transition" where
  "canonical_transition t = t\<lparr>tr_context := canonical_obj (tr_context t)\<rparr>"

definition statechart_canonical :: "statechart \<Rightarrow> statechart" where
  "statechart_canonical c = c\<lparr>
     sc_transitions := map canonical_transition (sc_transitions c),
     sc_state_context := sort_key fst (map (\<lambda>(k, p). (k, canonical_obj p)) (sc_state_context c))\<rparr>"

lemma canonical_transition_fields [simp]:
  "tr_event (canonical_transition t) = tr_event t" "tr_source (canonical_transition t) = tr_source t"
  "tr_target (canonical_transition t) = tr_target t"
  "transition_wf t \<Longrightarrow> transition_wf (canonical_transition t)"
  by (simp_all add: canonical_transition_def transition_wf_def)

lemma canonical_transition_view [simp]: "transition_wf t \<Longrightarrow>
    statechart_transition_from_dict (view b (canonical (statechart_transition_to_dict t))) =
      Inr (canonical_transition t)"
  by (simp add: statechart_transition_from_dict_def statechart_transition_to_dict_def
      statechart_transition_new_def transition_wf_def canonical_transition_def map_of_canonical_obj)

lemma check_topology_canonical [simp]:
  "check_topology en ss te (map canonical_transition ts) = check_topology en ss te ts"
  by (simp add: check_topology_def forward_edges_def backward_edges_def comp_def)

lemma view_strings [simp]:
  "view b \<circ> (canonical \<circ> JStr) = PStr" "(view b \<circ> canonical) \<circ> JStr = PStr" "view b \<circ> JStr = PStr"
  by (simp_all add: fun_eq_iff)

lemma mapE_name_of_PStr: "[] \<notin> set xs \<Longrightarrow> mapE name_of (map PStr xs) = Inr xs"
  by (induction xs) auto

lemma mapE_member_of_PStr: "set xs \<subseteq> set ys \<Longrightarrow> mapE (member_of ys) (map PStr xs) = Inr xs"
  by (induction xs) (auto simp: member_of_def)

lemma mapE_keyed_payload_view:
  "mapE keyed_payload (map (\<lambda>(k, j). (KStr k, view b j)) (map (\<lambda>(k, p). (k, JObj p)) c)) = Inr c"
  by (induction c) (auto simp: keyed_payload_def)

lemma canonical_context: "canonical_obj (map (\<lambda>(k, p). (k, JObj p)) (sort_key fst c)) =
    map (\<lambda>(k, p). (k, JObj p)) (sort_key fst (map (\<lambda>(k, p). (k, canonical_obj p)) c))"
proof -
  have "canonical_obj (map (\<lambda>(k, p). (k, JObj p)) (sort_key fst c)) =
      sort_key fst (map (\<lambda>(k, p). (k, JObj (canonical_obj p))) (sort_key fst c))"
    by (simp add: canonical_obj_def [of "map f xs" for f xs] comp_def case_prod_unfold)
  also have "\<dots> = map (\<lambda>(k, p). (k, JObj (canonical_obj p))) (sort_key fst c)"
    by (simp add: sort_key_fst_map_snd [of "\<lambda>p. JObj (canonical_obj p)"])
  finally show ?thesis
    by (simp only: sort_key_fst_map_snd [of canonical_obj]) (simp add: comp_def case_prod_unfold)
qed

lemma fst_comp_keyed [simp]: "fst \<circ> (\<lambda>(k, p). (k, f p)) = fst"
  by (simp add: fun_eq_iff split: prod.split)

lemma fst_image_keyed [simp]: "fst ` (\<lambda>(k, p). (k, f p)) ` A = fst ` A"
  by force

lemma array_of_view [simp]: "array_of (view b (JArr js)) = Inr (map (view b) js)"
  by (simp add: array_of_def)

lemma statechart_json_view:
  assumes "statechart_wf c"
  shows "statechart_from_dict (view b (statechart_json c)) = Inr (statechart_canonical c)"
proof -
  have "mapE statechart_transition_from_dict
      (map (view b) (map canonical (map statechart_transition_to_dict (sc_transitions c)))) =
      Inr (map canonical_transition (sc_transitions c))"
    unfolding map_map using assms by (intro mapE_map_Inr) (simp add: statechart_wf_def)
  moreover have "canonical (sc_schema_version c) = sc_schema_version c"
    using assms by (cases "sc_schema_version c") (auto simp: statechart_wf_def)
  ultimately show ?thesis
    using assms mapE_text_of_PStr [of "sc_states c"]
      mapE_member_of_PStr [of "sc_terminal_states c" "sc_states c"]
      mapE_keyed_payload_view [of b "sort_key fst (map (\<lambda>(k, p). (k, canonical_obj p)) (sc_state_context c))"]
    by (simp add: statechart_from_dict_def statechart_json_def statechart_to_dict_def
        map_of_canonical_obj statechart_new_def statechart_wf_def statechart_canonical_def
        canonical_context insert_commute) (auto)
qed

lemma jobj_eq_keyed:
  assumes "distinct (map fst c)" and "\<forall>kp \<in> set c. wf_obj (snd kp)"
  shows "jobj_eq (map (\<lambda>(k, p). (k, JObj p)) c)
    (map (\<lambda>(k, p). (k, JObj p)) (sort_key fst (map (\<lambda>(k, p). (k, canonical_obj p)) c)))"
proof -
  have "wf_obj (map (\<lambda>(k, p). (k, JObj p)) c)"
    using assms by (auto simp: wf_obj_def comp_def case_prod_unfold)
  then have "jobj_eq (map (\<lambda>(k, p). (k, JObj p)) c) (canonical_obj (map (\<lambda>(k, p). (k, JObj p)) c))"
    by simp
  moreover have "canonical_obj (map (\<lambda>(k, p). (k, JObj p)) c) =
      map (\<lambda>(k, p). (k, JObj p)) (sort_key fst (map (\<lambda>(k, p). (k, canonical_obj p)) c))"
  proof -
    have "canonical_obj (map (\<lambda>(k, p). (k, JObj p)) c) = sort_key fst (map (\<lambda>(k, p). (k, JObj (canonical_obj p))) c)"
      by (simp add: canonical_obj_def [of "map f xs" for f xs] comp_def case_prod_unfold)
    also have "\<dots> = map (\<lambda>(k, p). (k, JObj (canonical_obj p))) (sort_key fst c)"
      by (rule sort_key_fst_map_snd)
    finally show ?thesis
      by (simp only: sort_key_fst_map_snd [of canonical_obj]) (simp add: comp_def case_prod_unfold)
  qed
  ultimately show ?thesis by simp
qed

lemma statechart_eq_canonical: "statechart_wf c \<Longrightarrow> statechart_eq c (statechart_canonical c)"
  by (auto simp: statechart_eq_def statechart_canonical_def statechart_wf_def jobj_eq_keyed
      list_all2_map2 list_all2_same canonical_transition_def transition_wf_def json_eq_jnum)

lemma statechart_wf_canonical: "statechart_wf c \<Longrightarrow> statechart_wf (statechart_canonical c)"
  by (auto simp: statechart_wf_def statechart_canonical_def)

lemma canonical_keyed: "canonical_obj (map (\<lambda>(k, p). (k, JObj p)) c) =
    map (\<lambda>(k, p). (k, JObj (canonical_obj p))) (sort_key fst c)"
proof -
  have "canonical_obj (map (\<lambda>(k, p). (k, JObj p)) c) = sort_key fst (map (\<lambda>(k, p). (k, JObj (canonical_obj p))) c)"
    by (simp add: canonical_obj_def [of "map f xs" for f xs] comp_def case_prod_unfold)
  then show ?thesis by (simp add: sort_key_fst_map_snd [of "\<lambda>p. JObj (canonical_obj p)"])
qed

lemma statechart_json_canonical [simp]:
  "statechart_json (statechart_canonical c) = statechart_json c"
proof -
  have "canonical_obj (map (\<lambda>(k, p). (k, JObj p)) (sort_key fst (sc_state_context (statechart_canonical c)))) =
      canonical_obj (map (\<lambda>(k, p). (k, JObj p)) (sort_key fst (sc_state_context c)))"
    unfolding canonical_keyed
    by (simp add: statechart_canonical_def sort_key_fst_map_snd) (simp add: comp_def case_prod_unfold)
  moreover have "canonical (statechart_transition_to_dict (canonical_transition t)) =
      canonical (statechart_transition_to_dict t)" for t
    unfolding canonical_transition_def statechart_transition_to_dict_def canonical_JObj
    by (intro arg_cong [where f = JObj] canonical_obj_cong) simp_all
  ultimately show ?thesis
    unfolding statechart_json_def statechart_to_dict_def canonical_JObj
    by (intro arg_cong [where f = JObj] canonical_obj_cong)
      (simp_all add: statechart_canonical_def)
qed

section \<open>Transition candidates\<close>

record transition_candidate =
  tc_event :: string
  tc_source :: string
  tc_target :: string
  tc_transition_context :: jobj
  tc_source_state_context :: jobj
  tc_target_state_context :: jobj
  tc_schema_version :: json

definition transition_candidate_new ::
  "pyval \<Rightarrow> pyval \<Rightarrow> pyval \<Rightarrow> pyval \<Rightarrow> pyval \<Rightarrow> pyval \<Rightarrow> pyval \<Rightarrow> transition_candidate result" where
  "transition_candidate_new event source target transition_context source_context target_context
     schema_version =
     bindE (text_of event) (\<lambda>ev.
     bindE (text_of source) (\<lambda>src.
     bindE (text_of target) (\<lambda>tgt.
     bindE (fsm_payload transition_context) (\<lambda>tctx.
     bindE (fsm_payload source_context) (\<lambda>sctx.
     bindE (fsm_payload target_context) (\<lambda>gctx.
     bindE (schema_is 2 schema_version) (\<lambda>sv.
       Inr \<lparr>tc_event = ev, tc_source = src, tc_target = tgt, tc_transition_context = tctx,
         tc_source_state_context = sctx, tc_target_state_context = gctx,
         tc_schema_version = sv\<rparr>)))))))"

definition transition_candidate_to_dict :: "transition_candidate \<Rightarrow> json" where
  "transition_candidate_to_dict c = JObj [
     (''schema_version'', tc_schema_version c),
     (''event'', JStr (tc_event c)),
     (''source'', JStr (tc_source c)),
     (''target'', JStr (tc_target c)),
     (''transition_context'', JObj (tc_transition_context c)),
     (''source_state_context'', JObj (tc_source_state_context c)),
     (''target_state_context'', JObj (tc_target_state_context c))]"

definition transition_candidate_from_dict :: "pyval \<Rightarrow> transition_candidate result" where
  "transition_candidate_from_dict v =
     bindE (strict_fields [''schema_version'', ''event'', ''source'', ''target'',
       ''transition_context'', ''source_state_context'', ''target_state_context''] v) (\<lambda>kvs.
     transition_candidate_new (item kvs ''event'') (item kvs ''source'') (item kvs ''target'')
       (item kvs ''transition_context'') (item kvs ''source_state_context'')
       (item kvs ''target_state_context'') (item kvs ''schema_version''))"

definition transition_candidate_eq :: "transition_candidate \<Rightarrow> transition_candidate \<Rightarrow> bool" where
  "transition_candidate_eq a b \<longleftrightarrow> tc_event a = tc_event b \<and> tc_source a = tc_source b \<and>
     tc_target a = tc_target b \<and> jobj_eq (tc_transition_context a) (tc_transition_context b) \<and>
     jobj_eq (tc_source_state_context a) (tc_source_state_context b) \<and>
     jobj_eq (tc_target_state_context a) (tc_target_state_context b) \<and>
     json_eq (tc_schema_version a) (tc_schema_version b)"

definition candidate_wf :: "transition_candidate \<Rightarrow> bool" where
  "candidate_wf c \<longleftrightarrow> nonblank (tc_event c) \<and> nonblank (tc_source c) \<and> nonblank (tc_target c) \<and>
     wf_obj (tc_transition_context c) \<and> wf_obj (tc_source_state_context c) \<and>
     wf_obj (tc_target_state_context c) \<and> jnum (tc_schema_version c) = Some 2"

lemma transition_candidate_from_dict_wf:
  "transition_candidate_from_dict v = Inr c \<Longrightarrow> wf_py v \<Longrightarrow> candidate_wf c"
  by (auto simp: transition_candidate_from_dict_def transition_candidate_new_def candidate_wf_def
      bindE_eq_Inr strict_fields_Inr text_of_Inr intro!: payload_wf wf_item dest: schema_is_Inr)

lemma transition_candidate_view [simp]: "candidate_wf c \<Longrightarrow>
    transition_candidate_from_dict (view b (transition_candidate_to_dict c)) = Inr c"
  by (simp add: transition_candidate_from_dict_def transition_candidate_to_dict_def
      transition_candidate_new_def candidate_wf_def)

section \<open>Execution records\<close>

record execution_record =
  er_mission_id :: string
  er_plan_revision :: int
  er_statechart_revision :: int
  er_active_state :: string
  er_active_configuration :: "string list"
  er_last_applied_event :: "string option"
  er_transition_history :: "string list"
  er_superseded_plan_revision :: "int option"
  er_record_revision :: int
  er_last_applied_event_identity :: "string option"
  er_applied_event_identities :: "string list"
  er_schema_version :: int

definition execution_record_new ::
  "pyval \<Rightarrow> pyval \<Rightarrow> pyval \<Rightarrow> pyval \<Rightarrow> pyval list \<Rightarrow> pyval \<Rightarrow> pyval list \<Rightarrow> pyval \<Rightarrow> pyval \<Rightarrow>
   pyval \<Rightarrow> pyval list \<Rightarrow> pyval \<Rightarrow> execution_record result" where
  "execution_record_new mission_id plan_revision statechart_revision active_state configuration
     last_event history superseded record_revision last_identity identities schema_version =
     bindE (text_of mission_id) (\<lambda>mid.
     bindE (nonneg_int plan_revision) (\<lambda>pr.
     bindE (nonneg_int statechart_revision) (\<lambda>sr.
     bindE (text_of active_state) (\<lambda>act.
     bindE (mapE name_of (if configuration = [] then [PStr act] else configuration)) (\<lambda>conf.
     bindE (mapE name_of history) (\<lambda>hist.
     bindE (optional text_of last_event) (\<lambda>le.
     bindE (optional text_of last_identity) (\<lambda>li.
     bindE (optional nonneg_int superseded) (\<lambda>sup.
     bindE (mapE name_of identities) (\<lambda>ids.
     bindE (positive_int record_revision) (\<lambda>rr.
     bindE (positive_int schema_version) (\<lambda>sv.
       Inr \<lparr>er_mission_id = mid, er_plan_revision = pr, er_statechart_revision = sr,
         er_active_state = act, er_active_configuration = conf, er_last_applied_event = le,
         er_transition_history = hist, er_superseded_plan_revision = sup,
         er_record_revision = rr, er_last_applied_event_identity = li,
         er_applied_event_identities = ids, er_schema_version = sv\<rparr>))))))))))))"

definition execution_record_to_dict :: "execution_record \<Rightarrow> json" where
  "execution_record_to_dict r = JObj [
     (''schema_version'', JInt (er_schema_version r)),
     (''mission_id'', JStr (er_mission_id r)),
     (''plan_revision'', JInt (er_plan_revision r)),
     (''statechart_revision'', JInt (er_statechart_revision r)),
     (''active_state'', JStr (er_active_state r)),
     (''active_configuration'', JArr (map JStr (er_active_configuration r))),
     (''last_applied_event'', optional_json JStr (er_last_applied_event r)),
     (''transition_history'', JArr (map JStr (er_transition_history r))),
     (''superseded_plan_revision'', optional_json JInt (er_superseded_plan_revision r)),
     (''record_revision'', JInt (er_record_revision r)),
     (''last_applied_event_identity'', optional_json JStr (er_last_applied_event_identity r)),
     (''applied_event_identities'', JArr (map JStr (er_applied_event_identities r)))]"

definition execution_record_from_dict :: "pyval \<Rightarrow> execution_record result" where
  "execution_record_from_dict v =
     bindE (strict_fields [''schema_version'', ''mission_id'', ''plan_revision'',
       ''statechart_revision'', ''active_state'', ''active_configuration'', ''last_applied_event'',
       ''transition_history'', ''superseded_plan_revision'', ''record_revision'',
       ''last_applied_event_identity'', ''applied_event_identities''] v) (\<lambda>kvs.
     bindE (array_of (item kvs ''active_configuration'')) (\<lambda>conf.
     bindE (array_of (item kvs ''transition_history'')) (\<lambda>hist.
     bindE (array_of (item kvs ''applied_event_identities'')) (\<lambda>ids.
     execution_record_new (item kvs ''mission_id'') (item kvs ''plan_revision'')
       (item kvs ''statechart_revision'') (item kvs ''active_state'') conf
       (item kvs ''last_applied_event'') hist (item kvs ''superseded_plan_revision'')
       (item kvs ''record_revision'') (item kvs ''last_applied_event_identity'') ids
       (item kvs ''schema_version'')))))"

definition execution_record_from_json :: "pyval option \<Rightarrow> execution_record result" where
  "execution_record_from_json decoded = decoded_object execution_record_from_dict decoded"

definition execution_record_json :: "execution_record \<Rightarrow> json" where
  "execution_record_json r = canonical (execution_record_to_dict r)"

definition execution_record_wf :: "execution_record \<Rightarrow> bool" where
  "execution_record_wf r \<longleftrightarrow> nonblank (er_mission_id r) \<and> 0 \<le> er_plan_revision r \<and>
     0 \<le> er_statechart_revision r \<and> nonblank (er_active_state r) \<and>
     er_active_configuration r \<noteq> [] \<and> [] \<notin> set (er_active_configuration r) \<and>
     opt_all nonblank (er_last_applied_event r) \<and> [] \<notin> set (er_transition_history r) \<and>
     opt_all (\<lambda>n. 0 \<le> n) (er_superseded_plan_revision r) \<and> 0 < er_record_revision r \<and>
     opt_all nonblank (er_last_applied_event_identity r) \<and>
     [] \<notin> set (er_applied_event_identities r) \<and> 0 < er_schema_version r"

lemma mapE_name_of: "mapE name_of vs = Inr xs \<Longrightarrow> vs = map PStr xs \<and> [] \<notin> set xs"
  by (induction vs arbitrary: xs) (auto simp: err_simps)

lemma nonblank_ne: "nonblank s \<Longrightarrow> s \<noteq> []"
  by auto

lemma execution_record_new_wf:
  "execution_record_new mid pr sr act conf le hist sp rr li ids sv = Inr r \<Longrightarrow> execution_record_wf r"
  by (auto simp: execution_record_new_def execution_record_wf_def bindE_eq_Inr text_of_Inr
      nonneg_int_Inr positive_int_Inr dest!: mapE_name_of optional_wf split: if_splits)

lemma canonical_optional [simp]:
  "canonical (optional_json JStr x) = optional_json JStr x"
  "canonical (optional_json JInt y) = optional_json JInt y"
  "canonical (optional_json JObj z) = optional_json (\<lambda>p. JObj (canonical_obj p)) z"
  by (simp_all add: optional_json_def split: option.split)

lemma execution_record_json_view:
  assumes "execution_record_wf r"
  shows "execution_record_from_dict (view b (execution_record_json r)) = Inr r"
  using assms
  by (auto simp: execution_record_from_dict_def execution_record_json_def execution_record_to_dict_def
      map_of_canonical_obj execution_record_new_def execution_record_wf_def mapE_name_of_PStr
      split: option.split)

section \<open>Published status\<close>

record fsm_status =
  fs_mission_id :: string
  fs_plan_revision :: int
  fs_statechart_revision :: int
  fs_active_state :: string
  fs_transition_candidates :: "transition_candidate list"
  fs_status :: string
  fs_superseded_plan_revision :: "int option"
  fs_last_applied_event :: "string option"
  fs_schema_version :: int
  fs_active_state_context :: jobj
  fs_state_entry_revision :: int

definition fsm_status_new ::
  "pyval \<Rightarrow> pyval \<Rightarrow> pyval \<Rightarrow> pyval \<Rightarrow> transition_candidate list \<Rightarrow> pyval \<Rightarrow> pyval \<Rightarrow> pyval \<Rightarrow>
   pyval \<Rightarrow> pyval \<Rightarrow> pyval \<Rightarrow> fsm_status result" where
  "fsm_status_new mission_id plan_revision statechart_revision active_state candidates status superseded
     last_event schema_version state_context entry_revision =
     bindE (text_of mission_id) (\<lambda>mid.
     bindE (nonneg_int plan_revision) (\<lambda>pr.
     bindE (nonneg_int statechart_revision) (\<lambda>sr.
     bindE (text_of active_state) (\<lambda>act.
     bindE (text_of status) (\<lambda>st.
     bindE (optional nonneg_int superseded) (\<lambda>sp.
     bindE (optional text_of last_event) (\<lambda>le.
     bindE (positive_int schema_version) (\<lambda>sv.
     bindE (positive_int entry_revision) (\<lambda>er.
     bindE (fsm_payload state_context) (\<lambda>ctx.
       Inr \<lparr>fs_mission_id = mid, fs_plan_revision = pr, fs_statechart_revision = sr,
         fs_active_state = act, fs_transition_candidates = candidates, fs_status = st,
         fs_superseded_plan_revision = sp, fs_last_applied_event = le, fs_schema_version = sv,
         fs_active_state_context = ctx, fs_state_entry_revision = er\<rparr>))))))))))"

definition fsm_status_to_dict :: "fsm_status \<Rightarrow> json" where
  "fsm_status_to_dict s = JObj [
     (''schema_version'', JInt (fs_schema_version s)),
     (''mission_id'', JStr (fs_mission_id s)),
     (''plan_revision'', JInt (fs_plan_revision s)),
     (''statechart_revision'', JInt (fs_statechart_revision s)),
     (''active_state'', JStr (fs_active_state s)),
     (''transition_candidates'', JArr (map transition_candidate_to_dict (fs_transition_candidates s))),
     (''status'', JStr (fs_status s)),
     (''superseded_plan_revision'', optional_json JInt (fs_superseded_plan_revision s)),
     (''last_applied_event'', optional_json JStr (fs_last_applied_event s)),
     (''active_state_context'', JObj (fs_active_state_context s)),
     (''state_entry_revision'', JInt (fs_state_entry_revision s))]"

definition fsm_status_from_dict :: "pyval \<Rightarrow> fsm_status result" where
  "fsm_status_from_dict v =
     bindE (strict_fields [''schema_version'', ''mission_id'', ''plan_revision'',
       ''statechart_revision'', ''active_state'', ''transition_candidates'', ''status'',
       ''superseded_plan_revision'', ''last_applied_event'', ''active_state_context'',
       ''state_entry_revision''] v) (\<lambda>kvs.
     bindE (array_of (item kvs ''transition_candidates'')) (\<lambda>raw.
     bindE (mapE transition_candidate_from_dict raw) (\<lambda>candidates.
     fsm_status_new (item kvs ''mission_id'') (item kvs ''plan_revision'')
       (item kvs ''statechart_revision'') (item kvs ''active_state'') candidates
       (item kvs ''status'') (item kvs ''superseded_plan_revision'')
       (item kvs ''last_applied_event'') (item kvs ''schema_version'')
       (item kvs ''active_state_context'') (item kvs ''state_entry_revision''))))"

definition fsm_status_wf :: "fsm_status \<Rightarrow> bool" where
  "fsm_status_wf s \<longleftrightarrow> nonblank (fs_mission_id s) \<and> 0 \<le> fs_plan_revision s \<and>
     0 \<le> fs_statechart_revision s \<and> nonblank (fs_active_state s) \<and>
     (\<forall>c \<in> set (fs_transition_candidates s). candidate_wf c) \<and> nonblank (fs_status s) \<and>
     opt_all (\<lambda>n. 0 \<le> n) (fs_superseded_plan_revision s) \<and>
     opt_all nonblank (fs_last_applied_event s) \<and> 0 < fs_schema_version s \<and>
     wf_obj (fs_active_state_context s) \<and> 0 < fs_state_entry_revision s"

lemma fsm_status_view:
  assumes "fsm_status_wf s"
  shows "fsm_status_from_dict (view b (fsm_status_to_dict s)) = Inr s"
proof -
  have "mapE transition_candidate_from_dict
      (map (view b) (map transition_candidate_to_dict (fs_transition_candidates s))) =
      Inr (map (\<lambda>c. c) (fs_transition_candidates s))"
    unfolding map_map using assms by (intro mapE_map_Inr) (simp add: fsm_status_wf_def)
  with assms show ?thesis
    by (auto simp: fsm_status_from_dict_def fsm_status_to_dict_def fsm_status_new_def
        fsm_status_wf_def split: option.split)
qed

lemma fsm_status_from_dict_wf:
  assumes "fsm_status_from_dict v = Inr s" and "wf_py v"
  shows "fsm_status_wf s"
proof -
  from assms(1) obtain kvs raw candidates where
    v: "as_mapping v = Some kvs" and raw: "array_of (item kvs ''transition_candidates'') = Inr raw"
      "mapE transition_candidate_from_dict raw = Inr candidates"
    and s: "fsm_status_new (item kvs ''mission_id'') (item kvs ''plan_revision'')
       (item kvs ''statechart_revision'') (item kvs ''active_state'') candidates
       (item kvs ''status'') (item kvs ''superseded_plan_revision'')
       (item kvs ''last_applied_event'') (item kvs ''schema_version'')
       (item kvs ''active_state_context'') (item kvs ''state_entry_revision'') = Inr s"
    by (auto simp: fsm_status_from_dict_def bindE_eq_Inr strict_fields_Inr)
  have "\<forall>c \<in> set candidates. candidate_wf c"
    using mapE_Inr_set [OF raw(2)] wf_py_array [OF raw(1) wf_item [OF v assms(2)]]
      transition_candidate_from_dict_wf by blast
  moreover have "wf_py (item kvs ''active_state_context'')" by (rule wf_item [OF v assms(2)])
  ultimately show ?thesis
    using s by (auto simp: fsm_status_new_def fsm_status_wf_def bindE_eq_Inr text_of_Inr
        nonneg_int_Inr positive_int_Inr dest!: optional_wf intro: payload_wf)
qed

lemma wf_optional_json [simp]: "wf_json (optional_json JStr x)" "wf_json (optional_json JInt y)"
  by (simp_all add: optional_json_def split: option.split)

lemma wf_candidate_json: "candidate_wf c \<Longrightarrow> wf_json (transition_candidate_to_dict c)"
  by (cases "tc_schema_version c") (auto simp: candidate_wf_def transition_candidate_to_dict_def wf_obj_def)

lemma wf_status_json: "fsm_status_wf s \<Longrightarrow> wf_json (fsm_status_to_dict s)"
  by (auto simp: fsm_status_wf_def fsm_status_to_dict_def wf_obj_def wf_candidate_json)

section \<open>Properties\<close>

text \<open>Reading back what was written. An FSM Status, a Maneuver Decision and a Maneuver Feedback
  record built by their constructors are recovered exactly from their dictionary form, thawed or
  frozen; so is an Execution Record from its canonical JSON text.\<close>

theorem fsm_records_round_trip:
  "(fsm_status_wf s \<longrightarrow> fsm_status_from_dict (view b (fsm_status_to_dict s)) = Inr s) \<and>
   (maneuver_decision_wf d \<longrightarrow> maneuver_decision_from_dict (view b (maneuver_decision_to_dict d)) = Inr d) \<and>
   (maneuver_feedback_wf f \<longrightarrow> maneuver_feedback_from_dict (view b (maneuver_feedback_to_dict f)) = Inr f) \<and>
   (execution_record_wf r \<longrightarrow> execution_record_from_json (Some (thaw (execution_record_json r))) = Inr r)"
  using fsm_status_view maneuver_decision_view maneuver_feedback_view execution_record_json_view
  by (simp add: execution_record_from_json_def decoded_object_def execution_record_json_def
      execution_record_to_dict_def)

definition ex_record :: execution_record where
  "ex_record = \<lparr>er_mission_id = ''m1'', er_plan_revision = 3, er_statechart_revision = 3,
     er_active_state = ''search'', er_active_configuration = [''search''],
     er_last_applied_event = Some ''go'', er_transition_history = [''go''],
     er_superseded_plan_revision = None, er_record_revision = 2,
     er_last_applied_event_identity = Some ''d1'', er_applied_event_identities = [''d1''],
     er_schema_version = 1\<rparr>"

theorem fsm_records_round_trip_witness:
  "execution_record_from_json (Some (thaw (execution_record_json ex_record))) = Inr ex_record"
proof -
  have "execution_record_wf ex_record" by code_simp
  then show ?thesis using fsm_records_round_trip [of undefined False undefined undefined ex_record] by blast
qed

text \<open>C26: a Statechart that the constructor accepts has no dead ends. Every state is reachable from
  the entry state along the transitions, from every state a terminal state can be reached, no two
  transitions carry the same event, and every state has a context.\<close>

theorem statechart_sound:
  assumes "statechart_from_dict v = Inr c" and "wf_py v" and "s \<in> set (sc_states c)"
  shows "(sc_entry_state c, s) \<in> (chart_edges c)\<^sup>* \<and>
    (\<exists>t \<in> set (sc_terminal_states c). (s, t) \<in> (chart_edges c)\<^sup>*) \<and>
    distinct (map tr_event (sc_transitions c)) \<and> (\<exists>p. context_for c s = Inr p)"
proof -
  have wf: "statechart_wf c" using statechart_from_dict_wf [OF assms(1,2)] .
  then have "(chart_edges c)\<^sup>* `` {sc_entry_state c} = set (sc_states c)"
    "((chart_edges c)\<inverse>)\<^sup>* `` set (sc_terminal_states c) = set (sc_states c)"
    by (simp_all add: statechart_wf_def check_topology_Inr)
  with assms(3) have "(sc_entry_state c, s) \<in> (chart_edges c)\<^sup>*"
    "\<exists>t \<in> set (sc_terminal_states c). (s, t) \<in> (chart_edges c)\<^sup>*"
    by (auto simp: rtrancl_converse set_eq_iff)
  moreover from statechart_wfD(7) [OF wf assms(3)] have "\<exists>p. context_for c s = Inr p" by blast
  ultimately show ?thesis using statechart_wfD(6) [OF wf] by blast
qed

definition ex_chart :: statechart where
  "ex_chart = \<lparr>sc_mission_id = ''m1'', sc_plan_revision = 3, sc_mission_snapshot_id = ''snap'',
     sc_planning_profile = TEMPORAL, sc_entry_state = ''search'', sc_states = [''search'', ''home''],
     sc_transitions = [\<lparr>tr_event = ''go'', tr_source = ''search'', tr_target = ''home'', tr_context = []\<rparr>],
     sc_terminal_states = [''home''], sc_state_context = [(''home'', []), (''search'', [(''n'', JInt 1)])],
     sc_schema_version = JInt 2\<rparr>"

lemma ex_chart_from_dict: "statechart_from_dict (thaw (statechart_to_dict ex_chart)) = Inr ex_chart"
  by code_simp

theorem statechart_sound_witness: "(''search'', ''home'') \<in> (chart_edges ex_chart)\<^sup>*"
proof -
  have "wf_py (thaw (statechart_to_dict ex_chart))" by code_simp
  then show ?thesis
    using statechart_sound [OF ex_chart_from_dict, of "''home''"] by (simp add: ex_chart_def)
qed

text \<open>A Statechart survives storage. Reading the canonical JSON text of a well-formed Statechart
  yields a Statechart that is equal to it in the sense of the dataclass comparison.\<close>

theorem statechart_round_trip:
  assumes "statechart_wf c"
  shows "\<exists>c'. statechart_from_json (Some (thaw (statechart_json c))) = Inr c' \<and> statechart_eq c c'"
  using statechart_json_view [OF assms] statechart_eq_canonical [OF assms]
  by (simp add: statechart_from_json_def decoded_object_def statechart_json_def statechart_to_dict_def)

theorem statechart_round_trip_witness:
  "\<exists>c'. statechart_from_json (Some (thaw (statechart_json ex_chart))) = Inr c' \<and> statechart_eq ex_chart c'"
proof -
  have "statechart_wf ex_chart" by code_simp
  then show ?thesis by (rule statechart_round_trip)
qed

end
