(* ===== verification/Operational_Log.thy ===== *)
theory Operational_Log
  imports PyValue
begin

text \<open>
  Calls of \<open>OperationalLog.emit\<close>, \<open>src/onr/ports/operational_log.py\<close>: the log is a port that the services
  only write to, so a service's calls are recorded in the order in which it makes them.
\<close>

record log_call =
  lc_mission_id :: string
  lc_source :: string
  lc_event_kind :: string
  lc_outcome :: string
  lc_details :: jobj

text \<open>\<open>type(exc).__name__\<close>.\<close>

fun exn_name :: "exn \<Rightarrow> string" where
  "exn_name (ValueError r) = ''ValueError''"
| "exn_name (TypeError r) = ''TypeError''"
| "exn_name (RuntimeError r) = ''RuntimeError''"
| "exn_name KeyError = ''KeyError''"
| "exn_name AttributeError = ''AttributeError''"
| "exn_name AssertionError = ''AssertionError''"
| "exn_name OverflowError = ''OverflowError''"
| "exn_name FileNotFoundError = ''FileNotFoundError''"

end
