(* ===== verification/FSM_Runner.thy ===== *)
theory FSM_Runner
  imports InProcess_Consumer FSM_Contracts Operational_Log
begin

text \<open>
  The FSM Runner of \<open>src/onr/application/fsm.py\<close> with its in-memory JSON store: construction from
  persisted state, activation of a Statechart, application of an authorised transition, and the
  published status. Operations act on the runner and on the transport together. The running state
  machine (\<open>python-statemachine\<close>) is a parameter; calls to the operational log are recorded.
\<close>

section \<open>State\<close>

record 'm machine_port =
  mk_build :: "statechart \<Rightarrow> string option \<Rightarrow> 'm result"
  mk_send :: "'m \<Rightarrow> string \<Rightarrow> unit result \<times> 'm"
  mk_current :: "'m \<Rightarrow> string"

text \<open>The two JSON texts of \<open>InMemoryFSMStateStore\<close>, by their parse.\<close>

record fsm_store =
  st_statechart :: "json option"
  st_record :: "json option"

record 'm runner =
  ru_topic :: string
  ru_subscription :: "subscription option"
  ru_chart :: "statechart option"
  ru_record :: "execution_record option"
  ru_superseded :: "int option"
  ru_machine :: "'m option"
  ru_store :: fsm_store
  ru_log :: "log_call list option"

definition load_statechart :: "fsm_store \<Rightarrow> statechart option result" where
  "load_statechart st = (case st_statechart st of
     None \<Rightarrow> Inr None
   | Some j \<Rightarrow> bindE (statechart_from_json (Some (thaw j))) (\<lambda>c. Inr (Some c)))"

definition load_execution_record :: "fsm_store \<Rightarrow> execution_record option result" where
  "load_execution_record st = (case st_record st of
     None \<Rightarrow> Inr None
   | Some j \<Rightarrow> bindE (execution_record_from_json (Some (thaw j))) (\<lambda>r. Inr (Some r)))"

definition save_statechart :: "statechart \<Rightarrow> fsm_store \<Rightarrow> fsm_store" where
  "save_statechart c st = st\<lparr>st_statechart := Some (statechart_json c)\<rparr>"

definition save_execution_record :: "execution_record \<Rightarrow> fsm_store \<Rightarrow> fsm_store" where
  "save_execution_record r st = st\<lparr>st_record := Some (execution_record_json r)\<rparr>"

definition subscription_for :: "string \<Rightarrow> subscription result" where
  "subscription_for mission_id =
     subscription_new (PStr ''fsm-runner'') (PStr mission_id) (PStr ''normalized-plans'') (PInt 3)"

section \<open>Construction\<close>

definition persisted_consistent :: "statechart \<Rightarrow> execution_record \<Rightarrow> unit result" where
  "persisted_consistent c r =
     bindE (guardE (sc_mission_id c = er_mission_id r) (RuntimeError MissionMismatch)) (\<lambda>_.
     bindE (guardE (sc_plan_revision c = er_plan_revision r) (RuntimeError RevisionMismatch)) (\<lambda>_.
     bindE (guardE (sc_plan_revision c = er_statechart_revision r) (RuntimeError RevisionMismatch)) (\<lambda>_.
     bindE (guardE (er_active_configuration r \<noteq> [] \<and>
         er_active_state r \<in> set (er_active_configuration r) \<and>
         set (er_active_configuration r) \<subseteq> set (sc_states c) \<and>
         er_active_state r \<in> set (sc_states c)) (RuntimeError Undeclared)) (\<lambda>_.
     guardE (case er_superseded_plan_revision r of None \<Rightarrow> True | Some n \<Rightarrow> n < er_plan_revision r)
       (RuntimeError Regression)))))"

text \<open>The checks and the parts that follow the two loads.\<close>

definition runner_init ::
  "'m machine_port option \<Rightarrow> statechart option \<Rightarrow> execution_record option \<Rightarrow> fsm_store \<Rightarrow> string \<Rightarrow>
   subscription option \<Rightarrow> log_call list option \<Rightarrow> 'm runner result" where
  "runner_init F chart record st topic sub lg =
     bindE (guardE ((chart = None) = (record = None)) (RuntimeError Inconsistent)) (\<lambda>_.
     bindE (case (chart, record) of
         (Some c, Some r) \<Rightarrow> persisted_consistent c r
       | _ \<Rightarrow> Inr ()) (\<lambda>_.
     bindE (case (sub, chart) of
         (Some sb, Some c) \<Rightarrow> bindE (guardE (sub_mission_id sb = sc_mission_id c) (ValueError MissionMismatch))
           (\<lambda>_. Inr sub)
       | (None, Some c) \<Rightarrow> bindE (subscription_for (sc_mission_id c)) (\<lambda>sb. Inr (Some sb))
       | _ \<Rightarrow> Inr sub) (\<lambda>sub'.
     bindE (case (F, chart, record) of
         (Some f, Some c, Some r) \<Rightarrow> bindE (mk_build f c (Some (er_active_state r))) (\<lambda>m. Inr (Some m))
       | _ \<Rightarrow> Inr None) (\<lambda>machine.
     Inr \<lparr>ru_topic = topic, ru_subscription = sub', ru_chart = chart, ru_record = record,
       ru_superseded = (case record of None \<Rightarrow> None | Some r \<Rightarrow> er_superseded_plan_revision r),
       ru_machine = machine, ru_store = st, ru_log = lg\<rparr>))))"

definition runner_new ::
  "'m machine_port option \<Rightarrow> fsm_store \<Rightarrow> string \<Rightarrow> subscription option \<Rightarrow> log_call list option \<Rightarrow>
   'm runner result" where
  "runner_new F st topic sub lg =
     bindE (load_statechart st) (\<lambda>chart.
     bindE (load_execution_record st) (\<lambda>record.
     runner_init F chart record st topic sub lg))"

section \<open>Publishing the status\<close>

definition candidate_for :: "statechart \<Rightarrow> statechart_transition \<Rightarrow> transition_candidate result" where
  "candidate_for c t =
     bindE (context_for c (tr_source t)) (\<lambda>src.
     bindE (context_for c (tr_target t)) (\<lambda>tgt.
     transition_candidate_new (PStr (tr_event t)) (PStr (tr_source t)) (PStr (tr_target t))
       (proxied (JObj (tr_context t))) (proxied (JObj src)) (proxied (JObj tgt)) (PInt 2)))"

definition status_of :: "statechart \<Rightarrow> execution_record \<Rightarrow> int option \<Rightarrow> string \<Rightarrow> fsm_status result" where
  "status_of c r superseded reason =
     bindE (mapE (candidate_for c) (filter (\<lambda>t. tr_source t = er_active_state r) (sc_transitions c))) (\<lambda>cs.
     bindE (context_for c (er_active_state r)) (\<lambda>ctx.
     fsm_status_new (PStr (er_mission_id r)) (PInt (er_plan_revision r))
       (PInt (er_statechart_revision r)) (PStr (er_active_state r)) cs (PStr reason)
       (proxied (optional_json JInt superseded)) (proxied (optional_json JStr (er_last_applied_event r)))
       (PInt 1) (proxied (JObj ctx)) (PInt (er_record_revision r))))"

definition status_event_id :: "string \<Rightarrow> int \<Rightarrow> string" where
  "status_event_id mission sequence = ''fsm-status:'' @ mission @ '':'' @ show_int sequence"

definition status_event :: "fsm_status \<Rightarrow> int \<Rightarrow> transport_event result" where
  "status_event status sequence =
     transport_event_new (PInt 1) (PStr (status_event_id (fs_mission_id status) sequence))
       (PStr (fs_mission_id status)) (PInt sequence) (PStr ''fsm-status'')
       (thaw (fsm_status_to_dict status))"

definition emit :: "log_call \<Rightarrow> (unit, 'm runner \<times> 's) eff" where
  "emit l = onFst (\<lambda>r. r\<lparr>ru_log := map_option (\<lambda>ls. ls @ [l]) (ru_log r)\<rparr>)"

definition status_log :: "fsm_status \<Rightarrow> int \<Rightarrow> log_call" where
  "status_log status sequence = \<lparr>lc_mission_id = fs_mission_id status, lc_source = ''fsm-runner'',
     lc_event_kind = ''fsm'', lc_outcome = fs_status status,
     lc_details = [(''operation'', JStr ''publish_status''), (''plan_revision'', JInt (fs_plan_revision status)),
       (''state'', JStr (fs_active_state status)), (''status'', JStr (fs_status status)),
       (''transport_sequence'', JInt sequence)]\<rparr>"

definition publish_status ::
  "'s event_port \<Rightarrow> string \<Rightarrow> bool \<Rightarrow> (fsm_status, 'm runner \<times> 's) eff" where
  "publish_status P reason publish rs = (case (ru_chart (fst rs), ru_record (fst rs)) of
     (Some c, Some r) \<Rightarrow>
       bindS (liftE (status_of c r (ru_superseded (fst rs)) reason)) (\<lambda>status.
       if \<not> publish then returnS status
       else
         bindS (onSnd (port_next_event_sequence P (ru_topic (fst rs)) (fs_mission_id status))) (\<lambda>sequence.
         bindS (liftE (status_event status sequence)) (\<lambda>event.
         bindS (onSnd (port_publish_event P (ru_topic (fst rs)) event)) (\<lambda>_.
         bindS (emit (status_log status sequence)) (\<lambda>_.
         returnS status))))) rs
   | _ \<Rightarrow> (Inl AssertionError, rs))"

section \<open>Activation\<close>

datatype fsm_message = ChartMessage statechart | EventMessage transport_event | OtherMessage

fun chart_from_message :: "fsm_message \<Rightarrow> statechart result" where
  "chart_from_message (ChartMessage c) = Inr c"
| "chart_from_message (EventMessage e) =
     (if te_event_kind e = ''statechart'' then statechart_from_dict (proxied (JObj (te_payload e)))
      else Inl (TypeError WrongMessage))"
| "chart_from_message OtherMessage = Inl (TypeError WrongMessage)"

definition check_subscription :: "statechart \<Rightarrow> (unit, 'm runner \<times> 's) eff" where
  "check_subscription chart rs = (case ru_subscription (fst rs) of
     None \<Rightarrow> bindS (liftE (subscription_for (sc_mission_id chart))) (\<lambda>sub.
       onFst (\<lambda>r. r\<lparr>ru_subscription := Some sub\<rparr>)) rs
   | Some sub \<Rightarrow> guardS (sub_mission_id sub = sc_mission_id chart) (ValueError MissionMismatch) rs)"

text \<open>The last part of \<open>handle\<close>: the chart becomes the active one.\<close>

definition install :: "'s event_port \<Rightarrow> 'm machine_port option \<Rightarrow> statechart \<Rightarrow>
  (fsm_status, 'm runner \<times> 's) eff" where
  "install P F chart rs =
     (bindS (onFst (\<lambda>r. r\<lparr>ru_superseded := (case ru_chart r of
         None \<Rightarrow> ru_superseded r | Some c \<Rightarrow> Some (sc_plan_revision c)), ru_chart := Some chart\<rparr>)) (\<lambda>_ rs1.
      bindS (liftE (execution_record_new (PStr (sc_mission_id chart)) (PInt (sc_plan_revision chart))
        (PInt (sc_plan_revision chart)) (PStr (sc_entry_state chart)) [PStr (sc_entry_state chart)] PNone []
        (proxied (optional_json JInt (ru_superseded (fst rs1))))
        (PInt (case ru_record (fst rs) of Some r \<Rightarrow> er_record_revision r + 1 | None \<Rightarrow> 1))
        PNone [] (PInt 1))) (\<lambda>record.
      bindS (onFst (\<lambda>r. r\<lparr>ru_record := Some record,
        ru_store := save_execution_record record (save_statechart chart (ru_store r))\<rparr>)) (\<lambda>_.
      bindS (case F of
          None \<Rightarrow> returnS ()
        | Some f \<Rightarrow> bindS (liftE (mk_build f chart None)) (\<lambda>m. onFst (\<lambda>r. r\<lparr>ru_machine := Some m\<rparr>))) (\<lambda>_ rs2.
      publish_status P (if ru_superseded (fst rs2) \<noteq> None then ''superseded'' else ''initialized'') True rs2)))
      rs1)) rs"

definition handle :: "'s event_port \<Rightarrow> 'm machine_port option \<Rightarrow> fsm_message \<Rightarrow>
  (fsm_status, 'm runner \<times> 's) eff" where
  "handle P F message =
     bindS (liftE (chart_from_message message)) (\<lambda>chart.
     bindS (check_subscription chart) (\<lambda>_ rs.
     case ru_chart (fst rs) of
       None \<Rightarrow> install P F chart rs
     | Some current \<Rightarrow>
         if sc_plan_revision chart < sc_plan_revision current then (Inl (ValueError Regression), rs)
         else if sc_plan_revision chart = sc_plan_revision current
         then if \<not> statechart_eq chart current then (Inl (ValueError Conflict), rs)
           else publish_status P ''updated'' False rs
         else install P F chart rs))"

section \<open>Transitions\<close>

definition decision_authorizes :: "execution_record \<Rightarrow> string \<Rightarrow> maneuver_decision \<Rightarrow> bool" where
  "decision_authorizes r event d \<longleftrightarrow> md_mission_id d = er_mission_id r \<and>
     md_transition_event d = Some event \<and>
     (case map_of (md_payload d) ''plan_revision'' of
        None \<Rightarrow> False | Some j \<Rightarrow> json_eq j (JInt (er_plan_revision r)))"

definition current_transition :: "statechart \<Rightarrow> execution_record \<Rightarrow> string \<Rightarrow> statechart_transition option" where
  "current_transition c r event =
     find (\<lambda>t. tr_source t = er_active_state r \<and> tr_event t = event) (sc_transitions c)"

definition transitioned_record :: "execution_record \<Rightarrow> statechart_transition \<Rightarrow> string \<Rightarrow>
  execution_record result" where
  "transitioned_record r t identity =
     execution_record_new (PStr (er_mission_id r)) (PInt (er_plan_revision r))
       (PInt (er_statechart_revision r)) (PStr (tr_target t)) [PStr (tr_target t)] (PStr (tr_event t))
       (map PStr (er_transition_history r @ [tr_event t]))
       (proxied (optional_json JInt (er_superseded_plan_revision r)))
       (PInt (er_record_revision r + 1)) (PStr identity)
       (map PStr (er_applied_event_identities r @ [identity])) (PInt (er_schema_version r))"

definition drive_machine :: "'m machine_port option \<Rightarrow> statechart_transition \<Rightarrow> (unit, 'm runner \<times> 's) eff" where
  "drive_machine F t rs = (case (F, ru_machine (fst rs)) of
     (Some f, Some m) \<Rightarrow> (case mk_send f m (tr_event t) of (outcome, m') \<Rightarrow>
       bindS (onFst (\<lambda>r. r\<lparr>ru_machine := Some m'\<rparr>)) (\<lambda>_.
       bindS (liftE outcome) (\<lambda>_.
       guardS (mk_current f m' = tr_target t) (RuntimeError StateMismatch))) rs)
   | _ \<Rightarrow> (Inr (), rs))"

definition apply_candidate :: "'s event_port \<Rightarrow> 'm machine_port option \<Rightarrow> transition_candidate \<Rightarrow>
  maneuver_decision \<Rightarrow> (fsm_status, 'm runner \<times> 's) eff" where
  "apply_candidate P F candidate decision rs = (case (ru_chart (fst rs), ru_record (fst rs)) of
     (Some c, Some r) \<Rightarrow>
       (case current_transition c r (tc_event candidate) of
          None \<Rightarrow> publish_status P ''unchanged'' True rs
        | Some t \<Rightarrow>
            bindS (liftE (candidate_for c t)) (\<lambda>expected.
            if \<not> transition_candidate_eq candidate expected then publish_status P ''unchanged'' True
            else if \<not> decision_authorizes r (tr_event t) decision then publish_status P ''unchanged'' True
            else if md_decision_id decision \<in> set (er_applied_event_identities r)
            then publish_status P ''unchanged'' True
            else
              bindS (drive_machine F t) (\<lambda>_.
              bindS (liftE (transitioned_record r t (md_decision_id decision))) (\<lambda>record.
              bindS (onFst (\<lambda>ru. ru\<lparr>ru_record := Some record,
                ru_store := save_execution_record record (ru_store ru)\<rparr>)) (\<lambda>_.
              publish_status P ''transitioned'' True)))) rs)
   | _ \<Rightarrow> (Inl (RuntimeError NotInitialized), rs))"

definition runner_status :: "'s event_port \<Rightarrow> (fsm_status option, 'm runner \<times> 's) eff" where
  "runner_status P rs = (if ru_chart (fst rs) = None \<or> ru_record (fst rs) = None then (Inr None, rs)
     else bindS (publish_status P ''updated'' True) (\<lambda>st. returnS (Some st)) rs)"

section \<open>The runner's invariant\<close>

text \<open>Where a history of events leads from a state.\<close>

fun walk :: "statechart_transition list \<Rightarrow> string \<Rightarrow> string list \<Rightarrow> string option" where
  "walk ts s [] = Some s"
| "walk ts s (e # es) = (case find (\<lambda>t. tr_source t = s \<and> tr_event t = e) ts of
     None \<Rightarrow> None | Some t \<Rightarrow> walk ts (tr_target t) es)"

definition record_inv :: "statechart \<Rightarrow> execution_record \<Rightarrow> bool" where
  "record_inv c r \<longleftrightarrow> statechart_wf c \<and> execution_record_wf r \<and>
     er_mission_id r = sc_mission_id c \<and> er_plan_revision r = sc_plan_revision c \<and>
     er_statechart_revision r = sc_plan_revision c \<and>
     er_active_configuration r = [er_active_state r] \<and> er_active_state r \<in> set (sc_states c) \<and>
     walk (sc_transitions c) (sc_entry_state c) (er_transition_history r) = Some (er_active_state r) \<and>
     distinct (er_applied_event_identities r) \<and>
     length (er_applied_event_identities r) = length (er_transition_history r) \<and>
     opt_all (\<lambda>n. n < er_plan_revision r) (er_superseded_plan_revision r)"

definition runner_inv :: "'m runner \<Rightarrow> bool" where
  "runner_inv ru \<longleftrightarrow> (case (ru_chart ru, ru_record ru) of
     (None, None) \<Rightarrow> ru_superseded ru = None \<and> st_statechart (ru_store ru) = None \<and>
       st_record (ru_store ru) = None
   | (Some c, Some r) \<Rightarrow> record_inv c r \<and> ru_superseded ru = er_superseded_plan_revision r \<and>
       st_statechart (ru_store ru) = Some (statechart_json c) \<and>
       st_record (ru_store ru) = Some (execution_record_json r) \<and>
       (\<exists>sub. ru_subscription ru = Some sub \<and> sub_mission_id sub = sc_mission_id c)
   | _ \<Rightarrow> False)"

definition same_control :: "'m runner \<Rightarrow> 'm runner \<Rightarrow> bool" where
  "same_control a b \<longleftrightarrow> ru_chart a = ru_chart b \<and> ru_record a = ru_record b \<and>
     ru_superseded a = ru_superseded b \<and> ru_store a = ru_store b \<and>
     ru_subscription a = ru_subscription b \<and> ru_topic a = ru_topic b"

lemma same_control_refl [simp]: "same_control a a"
  by (simp add: same_control_def)

lemma same_control_trans: "same_control a b \<Longrightarrow> same_control b c \<Longrightarrow> same_control a c"
  by (simp add: same_control_def)

lemma same_control_inv: "same_control a b \<Longrightarrow> runner_inv a = runner_inv b"
  unfolding same_control_def by (clarsimp simp: runner_inv_def split: option.splits)

lemma same_control_updates [simp]:
  "same_control ru (ru\<lparr>ru_log := l\<rparr>)" "same_control ru (ru\<lparr>ru_machine := m\<rparr>)"
  by (simp_all add: same_control_def)

lemma walk_append: "walk ts s (es @ [e]) = (case walk ts s es of None \<Rightarrow> None
    | Some s' \<Rightarrow> map_option tr_target (find (\<lambda>t. tr_source t = s' \<and> tr_event t = e) ts))"
  by (induction ts s es rule: walk.induct) (auto split: option.splits)

lemma walk_canonical: "walk (map canonical_transition ts) s es = walk ts s es"
proof (induction ts s es rule: walk.induct)
  case (2 ts s e es)
  have "find (\<lambda>t. tr_source t = s \<and> tr_event t = e) (map canonical_transition ts) =
      map_option canonical_transition (find (\<lambda>t. tr_source t = s \<and> tr_event t = e) ts)"
    by (induction ts) auto
  with 2 show ?case by (simp split: option.split)
qed simp

subsection \<open>The building blocks always succeed\<close>

lemma candidate_for_Inr:
  assumes "statechart_wf c" and "t \<in> set (sc_transitions c)"
  shows "\<exists>x. candidate_for c t = Inr x \<and> candidate_wf x \<and> tc_event x = tr_event t \<and>
    tc_source x = tr_source t \<and> tc_target x = tr_target t"
proof -
  from statechart_wfD(5) [OF assms] have t: "transition_wf t" "tr_source t \<in> set (sc_states c)"
    "tr_target t \<in> set (sc_states c)" by simp_all
  from statechart_wfD(7) [OF assms(1) t(2)] statechart_wfD(7) [OF assms(1) t(3)]
  obtain p q where "context_for c (tr_source t) = Inr p" "wf_obj p"
    "context_for c (tr_target t) = Inr q" "wf_obj q" by blast
  with t(1) schema_is_view [of "JInt 2" 2 False] show ?thesis
    by (simp add: candidate_for_def transition_candidate_new_def candidate_wf_def transition_wf_def)
qed

lemma mapE_ok: "(\<And>x. x \<in> set xs \<Longrightarrow> \<exists>y. f x = Inr y \<and> P y) \<Longrightarrow> \<exists>ys. mapE f xs = Inr ys \<and> (\<forall>y \<in> set ys. P y)"
  by (induction xs) (auto, fastforce)

lemma status_of_Inr:
  assumes inv: "record_inv c r" and "nonblank reason" and "opt_all (\<lambda>n. 0 \<le> n) sp"
  shows "\<exists>x. status_of c r sp reason = Inr x \<and> fsm_status_wf x \<and> fs_mission_id x = er_mission_id r \<and>
    fs_active_state x = er_active_state r \<and> fs_plan_revision x = er_plan_revision r \<and> fs_status x = reason"
proof -
  from inv have wf: "statechart_wf c" "execution_record_wf r" "er_active_state r \<in> set (sc_states c)"
    by (simp_all add: record_inv_def)
  have *: "\<exists>x. candidate_for c t = Inr x \<and> candidate_wf x"
    if "t \<in> set (filter (\<lambda>t. tr_source t = er_active_state r) (sc_transitions c))" for t
    using candidate_for_Inr [OF wf(1)] that by fastforce
  from mapE_ok [of _ "candidate_for c" candidate_wf, OF *] obtain cs where
    "mapE (candidate_for c) (filter (\<lambda>t. tr_source t = er_active_state r) (sc_transitions c)) = Inr cs"
    "\<forall>x \<in> set cs. candidate_wf x" by blast
  moreover obtain ctx where "context_for c (er_active_state r) = Inr ctx" "wf_obj ctx"
    using statechart_wfD(7) [OF wf(1) wf(3)] by blast
  ultimately show ?thesis
    using wf(2) assms(2,3)
    by (auto simp: status_of_def fsm_status_new_def fsm_status_wf_def execution_record_wf_def
        split: option.split)
qed

lemma publish_status_frame: "same_control ru (fst (snd (publish_status P reason pub (ru, s))))"
  by (auto simp: publish_status_def bindS_cases emit_def split: option.split sum.split)

lemma publish_status_frame_trans:
  "same_control a ru \<Longrightarrow> same_control a (fst (snd (publish_status P reason pub (ru, s))))"
  using publish_status_frame by (rule same_control_trans [rotated])

lemma publish_status_inv:
  "runner_inv ru \<Longrightarrow> runner_inv (fst (snd (publish_status P reason pub (ru, s))))"
  using same_control_inv [OF publish_status_frame [of ru P reason pub s]] by simp

subsection \<open>Installing a Statechart\<close>

definition entry_record :: "statechart \<Rightarrow> int option \<Rightarrow> int \<Rightarrow> execution_record" where
  "entry_record c sp n = \<lparr>er_mission_id = sc_mission_id c, er_plan_revision = sc_plan_revision c,
     er_statechart_revision = sc_plan_revision c, er_active_state = sc_entry_state c,
     er_active_configuration = [sc_entry_state c], er_last_applied_event = None,
     er_transition_history = [], er_superseded_plan_revision = sp, er_record_revision = n,
     er_last_applied_event_identity = None, er_applied_event_identities = [],
     er_schema_version = 1\<rparr>"

lemma entry_record_new:
  assumes "statechart_wf c" and "opt_all (\<lambda>n. 0 \<le> n) sp" and "0 < n"
  shows "execution_record_new (PStr (sc_mission_id c)) (PInt (sc_plan_revision c))
    (PInt (sc_plan_revision c)) (PStr (sc_entry_state c)) [PStr (sc_entry_state c)] PNone []
    (proxied (optional_json JInt sp)) (PInt n) PNone [] (PInt 1) = Inr (entry_record c sp n)"
proof -
  have "nonblank (sc_entry_state c)" using assms(1) by (simp add: statechart_wf_def)
  then show ?thesis
    using assms statechart_wfD(1,2) [OF assms(1)] nonblank_ne [of "sc_entry_state c"]
    by (auto simp: execution_record_new_def entry_record_def optional_def [of _ PNone] split: option.split)
qed

lemma entry_record_inv:
  assumes "statechart_wf c" and "opt_all (\<lambda>m. 0 \<le> m \<and> m < sc_plan_revision c) sp" and "0 < n"
  shows "record_inv c (entry_record c sp n)"
proof -
  have sp: "opt_all (\<lambda>n. 0 \<le> n) sp" "opt_all (\<lambda>m. m < sc_plan_revision c) sp"
    using assms(2) by (cases sp; simp)+
  have "execution_record_wf (entry_record c sp n)"
    using execution_record_new_wf [OF entry_record_new [OF assms(1) sp(1) assms(3)]] .
  then show ?thesis
    using assms(1) sp(2) statechart_wfD(3) [OF assms(1)] by (simp add: record_inv_def entry_record_def)
qed

definition installed :: "statechart \<Rightarrow> 'm runner \<Rightarrow> 'm runner" where
  "installed c ru = (let
     sp = (case ru_chart ru of None \<Rightarrow> ru_superseded ru | Some old \<Rightarrow> Some (sc_plan_revision old));
     r = entry_record c sp (case ru_record ru of Some r \<Rightarrow> er_record_revision r + 1 | None \<Rightarrow> 1)
     in ru\<lparr>ru_superseded := sp, ru_chart := Some c, ru_record := Some r,
       ru_store := save_execution_record r (save_statechart c (ru_store ru))\<rparr>)"

lemma installed_inv:
  assumes inv: "runner_inv ru" and c: "statechart_wf c"
    and sub: "ru_subscription ru = Some sub" "sub_mission_id sub = sc_mission_id c"
    and newer: "\<forall>old. ru_chart ru = Some old \<longrightarrow> sc_plan_revision old < sc_plan_revision c"
  shows "runner_inv (installed c ru)"
proof (cases "ru_chart ru")
  case None
  with inv have "ru_record ru = None" "ru_superseded ru = None"
    by (auto simp: runner_inv_def split: option.splits)
  with None c sub entry_record_inv [of c None 1] show ?thesis
    by (simp add: installed_def runner_inv_def Let_def save_statechart_def save_execution_record_def
        entry_record_def)
next
  case (Some old)
  with inv obtain r where r: "ru_record ru = Some r" "record_inv old r"
    by (auto simp: runner_inv_def split: option.splits)
  then have "0 \<le> sc_plan_revision old" "0 < er_record_revision r"
    by (auto simp: record_inv_def statechart_wf_def execution_record_wf_def)
  with Some newer entry_record_inv [OF c, of "Some (sc_plan_revision old)" "er_record_revision r + 1"]
  have "record_inv c (entry_record c (Some (sc_plan_revision old)) (er_record_revision r + 1))" by simp
  with Some r(1) sub show ?thesis
    by (simp add: installed_def runner_inv_def Let_def save_statechart_def save_execution_record_def
        entry_record_def)
qed

lemma install_eq:
  assumes inv: "runner_inv ru" and c: "statechart_wf c"
  shows "install P F c (ru, s) =
      bindS (case F of None \<Rightarrow> returnS ()
        | Some f \<Rightarrow> bindS (liftE (mk_build f c None)) (\<lambda>m. onFst (\<lambda>r. r\<lparr>ru_machine := Some m\<rparr>)))
      (\<lambda>_ rs2. publish_status P (if ru_superseded (fst rs2) \<noteq> None then ''superseded'' else ''initialized'') True rs2)
      (installed c ru, s)"
proof -
  define sp where "sp = (case ru_chart ru of None \<Rightarrow> ru_superseded ru | Some old \<Rightarrow> Some (sc_plan_revision old))"
  define n where "n = (case ru_record ru of Some r \<Rightarrow> er_record_revision r + 1 | None \<Rightarrow> 1)"
  have "opt_all (\<lambda>n. 0 \<le> n) sp" and n: "0 < n"
    using inv by (auto simp: sp_def n_def runner_inv_def record_inv_def statechart_wf_def
        execution_record_wf_def split: option.splits)
  note rec = entry_record_new [OF c this]
  show ?thesis
    using rec by (simp add: install_def installed_def Let_def sp_def [symmetric] n_def [symmetric])
qed

lemma install_control:
  assumes inv: "runner_inv ru" and c: "statechart_wf c"
  shows "same_control (installed c ru) (fst (snd (install P F c (ru, s))))"
proof -
  note ins = install_eq [OF assms, of P F s]
  show ?thesis
  proof (cases F)
    case None
    then show ?thesis unfolding ins by (simp add: publish_status_frame)
  next
    case (Some f)
    show ?thesis
    proof (cases "mk_build f c None")
      case (Inr m)
      have "same_control (installed c ru) ((installed c ru)\<lparr>ru_machine := Some m\<rparr>)" by simp
      with Some Inr show ?thesis
        unfolding ins by (simp add: bindS_cases publish_status_frame_trans)
    next
      case (Inl e)
      with Some show ?thesis unfolding ins by (simp add: bindS_cases)
    qed
  qed
qed

subsection \<open>Every operation keeps the invariant\<close>

fun message_wf :: "fsm_message \<Rightarrow> bool" where
  "message_wf (ChartMessage c) = statechart_wf c"
| "message_wf (EventMessage e) = transport_event_wf e"
| "message_wf OtherMessage = True"

lemma chart_from_message_wf: "chart_from_message m = Inr c \<Longrightarrow> message_wf m \<Longrightarrow> statechart_wf c"
proof (cases m)
  case (EventMessage e)
  assume "chart_from_message m = Inr c" "message_wf m"
  with EventMessage show ?thesis
    by (auto simp: transport_event_wf_def wf_obj_def intro!: statechart_from_dict_wf wf_view split: if_splits)
qed simp_all

lemma subscription_for_mission: "subscription_for m = Inr sub \<Longrightarrow> sub_mission_id sub = m"
  by (auto simp: subscription_for_def subscription_new_def bindE_eq_Inr text_of_Inr split: if_splits)

text \<open>
  A call of \<open>handle\<close> leaves the control state alone (it only takes the subscription of the first
  Statechart it sees), or installs a Statechart that is newer than the one before.
\<close>

lemma handle_control:
  assumes inv: "runner_inv ru" and m: "message_wf m"
  shows "same_control ru (fst (snd (handle P F m (ru, s)))) \<or>
    (\<exists>sub. ru_chart ru = None \<and> same_control (ru\<lparr>ru_subscription := Some sub\<rparr>) (fst (snd (handle P F m (ru, s))))) \<or>
    (\<exists>c sub. statechart_wf c \<and> sub_mission_id sub = sc_mission_id c \<and>
      (ru_chart ru \<noteq> None \<longrightarrow> ru_subscription ru = Some sub) \<and>
      (\<forall>old. ru_chart ru = Some old \<longrightarrow> sc_plan_revision old < sc_plan_revision c) \<and>
      same_control (installed c (ru\<lparr>ru_subscription := Some sub\<rparr>)) (fst (snd (handle P F m (ru, s)))))"
proof (cases "chart_from_message m")
  case (Inl e)
  then show ?thesis by (simp add: handle_def)
next
  case (Inr c)
  have c: "statechart_wf c" by (rule chart_from_message_wf [OF Inr m])
  show ?thesis
  proof (cases "ru_subscription ru")
    case None
    with inv have chart: "ru_chart ru = None" by (auto simp: runner_inv_def split: option.splits)
    show ?thesis
    proof (cases "subscription_for (sc_mission_id c)")
      case (Inl e)
      with None \<open>chart_from_message m = Inr c\<close> show ?thesis
        by (simp add: handle_def check_subscription_def bindS_cases)
    next
      case sub: (Inr sub)
      have "runner_inv (ru\<lparr>ru_subscription := Some sub\<rparr>)"
        using inv chart by (auto simp: runner_inv_def split: option.splits)
      note install_control [OF this c, of P F s]
      moreover have "handle P F m (ru, s) = install P F c (ru\<lparr>ru_subscription := Some sub\<rparr>, s)"
        using None sub chart \<open>chart_from_message m = Inr c\<close>
        by (simp add: handle_def check_subscription_def bindS_cases [of "check_subscription c"])
      ultimately show ?thesis
        using chart c subscription_for_mission [OF sub] by auto
    qed
  next
    case (Some sub)
    show ?thesis
    proof (cases "sub_mission_id sub = sc_mission_id c")
      case False
      with Some Inr show ?thesis by (simp add: handle_def check_subscription_def bindS_cases)
    next
      case True
      with Some have "check_subscription c (ru, s) = (Inr (), (ru, s))"
        by (simp add: check_subscription_def)
      then have h: "handle P F m (ru, s) = (case ru_chart ru of
          None \<Rightarrow> install P F c (ru, s)
        | Some current \<Rightarrow>
            if sc_plan_revision c < sc_plan_revision current then (Inl (ValueError Regression), (ru, s))
            else if sc_plan_revision c = sc_plan_revision current
            then if \<not> statechart_eq c current then (Inl (ValueError Conflict), (ru, s))
              else publish_status P ''updated'' False (ru, s)
            else install P F c (ru, s))"
        using Inr by (simp add: handle_def bindS_Inr)
      have ru: "ru\<lparr>ru_subscription := Some sub\<rparr> = ru" using Some by simp
      have inst: "same_control (installed c (ru\<lparr>ru_subscription := Some sub\<rparr>)) (fst (snd (install P F c (ru, s))))"
        unfolding ru by (rule install_control [OF inv c])
      show ?thesis
      proof (cases "ru_chart ru")
        case None
        with inst c True Some show ?thesis unfolding h by auto
      next
        case (Some old)
        with inst c True \<open>ru_subscription ru = Some sub\<close>
          publish_status_frame [of ru P "''updated''" False s]
        show ?thesis unfolding h by auto
      qed
    qed
  qed
qed

lemma handle_inv:
  assumes inv: "runner_inv ru" and m: "message_wf m"
  shows "runner_inv (fst (snd (handle P F m (ru, s))))"
  using handle_control [OF inv m, of P F s]
proof (elim disjE exE conjE)
  assume "same_control ru (fst (snd (handle P F m (ru, s))))"
  with inv show ?thesis by (simp add: same_control_inv)
next
  fix sub
  assume "ru_chart ru = None"
    and *: "same_control (ru\<lparr>ru_subscription := Some sub\<rparr>) (fst (snd (handle P F m (ru, s))))"
  with inv have "runner_inv (ru\<lparr>ru_subscription := Some sub\<rparr>)"
    by (auto simp: runner_inv_def split: option.splits)
  with same_control_inv [OF *] show ?thesis by simp
next
  fix c sub
  assume a: "statechart_wf c" "sub_mission_id sub = sc_mission_id c"
    "ru_chart ru \<noteq> None \<longrightarrow> ru_subscription ru = Some sub"
    "\<forall>old. ru_chart ru = Some old \<longrightarrow> sc_plan_revision old < sc_plan_revision c"
    and *: "same_control (installed c (ru\<lparr>ru_subscription := Some sub\<rparr>)) (fst (snd (handle P F m (ru, s))))"
  have "runner_inv (ru\<lparr>ru_subscription := Some sub\<rparr>)"
    using inv a(3) by (auto simp: runner_inv_def split: option.splits)
  then have "runner_inv (installed c (ru\<lparr>ru_subscription := Some sub\<rparr>))"
    by (rule installed_inv [OF _ a(1)]) (use a in simp_all)
  with same_control_inv [OF *] show ?thesis by simp
qed

subsection \<open>Applying a transition\<close>

definition moved :: "execution_record \<Rightarrow> statechart_transition \<Rightarrow> string \<Rightarrow> execution_record" where
  "moved r t identity = r\<lparr>er_record_revision := er_record_revision r + 1,
     er_active_state := tr_target t, er_active_configuration := [tr_target t],
     er_last_applied_event := Some (tr_event t), er_last_applied_event_identity := Some identity,
     er_applied_event_identities := er_applied_event_identities r @ [identity],
     er_transition_history := er_transition_history r @ [tr_event t]\<rparr>"

lemma mapE_name_of_snoc: "[] \<notin> set xs \<Longrightarrow> x \<noteq> [] \<Longrightarrow>
    mapE name_of (map PStr xs @ [PStr x]) = Inr (xs @ [x])"
  using mapE_name_of_PStr [of "xs @ [x]"] by simp

lemma transitioned_record_Inr:
  assumes "execution_record_wf r" and "transition_wf t" and "nonblank identity"
  shows "transitioned_record r t identity = Inr (moved r t identity)"
proof -
  have "mapE name_of (map PStr (er_transition_history r) @ [PStr (tr_event t)]) = Inr (er_transition_history r @ [tr_event t])"
    "mapE name_of (map PStr (er_applied_event_identities r) @ [PStr identity]) = Inr (er_applied_event_identities r @ [identity])"
    and "tr_target t \<noteq> []"
    using assms nonblank_ne by (auto simp: execution_record_wf_def transition_wf_def intro!: mapE_name_of_snoc)
  then show ?thesis
    using assms
    by (auto simp: transitioned_record_def execution_record_new_def moved_def optional_def [of _ "PStr x" for x]
        execution_record_wf_def transition_wf_def split: option.split)
qed

lemma moved_inv:
  assumes inv: "record_inv c r" and t: "current_transition c r e = Some t" and "nonblank i"
    and "i \<notin> set (er_applied_event_identities r)"
  shows "record_inv c (moved r t i)"
proof -
  from t have mem: "t \<in> set (sc_transitions c)"
    and find: "find (\<lambda>t. tr_source t = er_active_state r \<and> tr_event t = tr_event t) (sc_transitions c) \<noteq> None"
    by (auto simp: current_transition_def find_None_iff dest: find_mem)
  have te: "tr_event t = e" using t by (auto simp: current_transition_def dest: find_mem)
  from inv have wf: "statechart_wf c" "execution_record_wf r" by (simp_all add: record_inv_def)
  from statechart_wfD(5) [OF wf(1) mem] have tw: "transition_wf t" "tr_target t \<in> set (sc_states c)" by simp_all
  have "execution_record_wf (moved r t i)"
    using execution_record_new_wf transitioned_record_Inr [OF wf(2) tw(1) assms(3)]
    unfolding transitioned_record_def by blast
  moreover have "walk (sc_transitions c) (sc_entry_state c) (er_transition_history r @ [tr_event t]) = Some (tr_target t)"
    using inv t by (simp add: walk_append record_inv_def current_transition_def te)
  ultimately show ?thesis
    using inv tw(2) assms(4) by (auto simp: record_inv_def moved_def)
qed

lemma drive_machine_frame: "same_control ru (fst (snd (drive_machine F t (ru, s))))"
  by (auto simp: drive_machine_def bindS_cases same_control_def split: option.split prod.split sum.split)

text \<open>An authorised candidate drives the machine, and then the record moves; any other one changes nothing.\<close>

definition authorized :: "'m runner \<Rightarrow> transition_candidate \<Rightarrow> maneuver_decision \<Rightarrow> statechart \<Rightarrow> execution_record \<Rightarrow>
  statechart_transition \<Rightarrow> bool" where
  "authorized ru x d c r t \<longleftrightarrow> ru_chart ru = Some c \<and> ru_record ru = Some r \<and>
     current_transition c r (tc_event x) = Some t \<and> decision_authorizes r (tr_event t) d \<and>
     md_decision_id d \<notin> set (er_applied_event_identities r) \<and>
     (\<exists>exp. candidate_for c t = Inr exp \<and> transition_candidate_eq x exp)"

definition moved_to :: "execution_record \<Rightarrow> statechart_transition \<Rightarrow> maneuver_decision \<Rightarrow> 'm runner \<Rightarrow> 'm runner" where
  "moved_to r t d ru = ru\<lparr>ru_record := Some (moved r t (md_decision_id d)),
     ru_store := save_execution_record (moved r t (md_decision_id d)) (ru_store ru)\<rparr>"

lemma apply_authorized:
  assumes inv: "runner_inv ru" and d: "maneuver_decision_wf d" and auth: "authorized ru x d c r t"
  shows "apply_candidate P F x d (ru, s) = (case drive_machine F t (ru, s) of
      (Inl e, rs1) \<Rightarrow> (Inl e, rs1)
    | (Inr _, (ru1, s1)) \<Rightarrow> publish_status P ''transitioned'' True (moved_to r t d ru1, s1))"
proof -
  from auth have a: "ru_chart ru = Some c" "ru_record ru = Some r" "current_transition c r (tc_event x) = Some t"
    "decision_authorizes r (tr_event t) d" "md_decision_id d \<notin> set (er_applied_event_identities r)"
    and "\<exists>exp. candidate_for c t = Inr exp \<and> transition_candidate_eq x exp"
    by (simp_all add: authorized_def)
  then obtain exp where exp: "candidate_for c t = Inr exp" "transition_candidate_eq x exp" by blast
  from inv a(1,2) have "record_inv c r" by (simp add: runner_inv_def)
  then have wf: "statechart_wf c" "execution_record_wf r" by (simp_all add: record_inv_def)
  from a(3) have mem: "t \<in> set (sc_transitions c)" by (auto simp: current_transition_def dest: find_mem)
  have "transitioned_record r t (md_decision_id d) = Inr (moved r t (md_decision_id d))"
    using statechart_wfD(5) [OF wf(1) mem] d
    by (intro transitioned_record_Inr [OF wf(2)]) (simp_all add: maneuver_decision_wf_def)
  with a exp show ?thesis
    by (simp add: apply_candidate_def bindS_cases [of "drive_machine F t"] moved_to_def split: sum.split prod.split)
qed

lemma apply_refused:
  assumes inv: "runner_inv ru" and "\<And>c r t. \<not> authorized ru x d c r t"
  shows "apply_candidate P F x d (ru, s) = (Inl (RuntimeError NotInitialized), (ru, s)) \<or>
    apply_candidate P F x d (ru, s) = publish_status P ''unchanged'' True (ru, s)"
proof (cases "ru_chart ru")
  case None
  then show ?thesis by (simp add: apply_candidate_def)
next
  case chart: (Some c)
  with inv obtain r where r: "ru_record ru = Some r" "record_inv c r"
    by (auto simp: runner_inv_def split: option.splits)
  show ?thesis
  proof (cases "current_transition c r (tc_event x)")
    case None
    with chart r(1) show ?thesis by (simp add: apply_candidate_def)
  next
    case t: (Some t)
    then have mem: "t \<in> set (sc_transitions c)" by (auto simp: current_transition_def dest: find_mem)
    from r(2) have "statechart_wf c" by (simp add: record_inv_def)
    with mem obtain exp where exp: "candidate_for c t = Inr exp" using candidate_for_Inr by blast
    with assms(2) [of c r t] chart r(1) t
    have "\<not> (transition_candidate_eq x exp \<and> decision_authorizes r (tr_event t) d \<and>
        md_decision_id d \<notin> set (er_applied_event_identities r))" by (auto simp: authorized_def)
    with chart r(1) t exp show ?thesis by (auto simp: apply_candidate_def)
  qed
qed

text \<open>What \<open>apply\<close> does to the control state: nothing, or one transition of the chart.\<close>

lemma apply_control:
  assumes inv: "runner_inv ru" and d: "maneuver_decision_wf d"
  shows "same_control ru (fst (snd (apply_candidate P F x d (ru, s)))) \<or>
    (\<exists>c r t. ru_chart ru = Some c \<and> ru_record ru = Some r \<and>
      current_transition c r (tc_event x) = Some t \<and> decision_authorizes r (tr_event t) d \<and>
      md_decision_id d \<notin> set (er_applied_event_identities r) \<and>
      (\<exists>exp. candidate_for c t = Inr exp \<and> transition_candidate_eq x exp) \<and>
      same_control (ru\<lparr>ru_record := Some (moved r t (md_decision_id d)),
        ru_store := save_execution_record (moved r t (md_decision_id d)) (ru_store ru)\<rparr>)
        (fst (snd (apply_candidate P F x d (ru, s)))))"
proof (cases "\<exists>c r t. authorized ru x d c r t")
  case False
  with apply_refused [OF inv, of x d P F s] show ?thesis by (auto simp: publish_status_frame)
next
  case True
  then obtain c r t where auth: "authorized ru x d c r t" by blast
  obtain o1 ru1 s1 where dm: "drive_machine F t (ru, s) = (o1, (ru1, s1))"
    by (cases "drive_machine F t (ru, s)") auto
  have same1: "same_control ru ru1" using drive_machine_frame [of ru F t s] dm by simp
  note app = apply_authorized [OF inv d auth, of P F s, unfolded dm]
  show ?thesis
  proof (cases o1)
    case (Inl e)
    with same1 show ?thesis by (simp add: app)
  next
    case (Inr u)
    have "same_control (moved_to r t d ru) (moved_to r t d ru1)" using same1 by (simp add: same_control_def moved_to_def)
    then have "same_control (moved_to r t d ru) (fst (snd (apply_candidate P F x d (ru, s))))"
      unfolding app Inr by (simp add: publish_status_frame_trans)
    with auth show ?thesis unfolding authorized_def moved_to_def by blast
  qed
qed

lemma apply_inv:
  assumes inv: "runner_inv ru" and d: "maneuver_decision_wf d"
  shows "runner_inv (fst (snd (apply_candidate P F x d (ru, s))))"
  using apply_control [OF inv d, of P F x s]
proof (elim disjE exE conjE)
  assume "same_control ru (fst (snd (apply_candidate P F x d (ru, s))))"
  with inv show ?thesis by (simp add: same_control_inv)
next
  fix c r t
  assume a: "ru_chart ru = Some c" "ru_record ru = Some r" "current_transition c r (tc_event x) = Some t"
    "md_decision_id d \<notin> set (er_applied_event_identities r)"
    and *: "same_control (ru\<lparr>ru_record := Some (moved r t (md_decision_id d)),
        ru_store := save_execution_record (moved r t (md_decision_id d)) (ru_store ru)\<rparr>)
        (fst (snd (apply_candidate P F x d (ru, s))))"
  from inv a have "record_inv c r" by (simp add: runner_inv_def)
  then have "record_inv c (moved r t (md_decision_id d))"
    by (rule moved_inv [OF _ a(3) _ a(4)]) (use d in \<open>simp add: maneuver_decision_wf_def\<close>)
  with inv a(1,2) have "runner_inv (ru\<lparr>ru_record := Some (moved r t (md_decision_id d)),
        ru_store := save_execution_record (moved r t (md_decision_id d)) (ru_store ru)\<rparr>)"
    by (auto simp: runner_inv_def save_execution_record_def moved_def)
  with same_control_inv [OF *] show ?thesis by simp
qed

lemma status_inv: "runner_inv ru \<Longrightarrow> runner_inv (fst (snd (runner_status P (ru, s))))"
  using publish_status_inv [of ru P "''updated''" True s]
  by (auto simp: runner_status_def bindS_cases split: sum.split)

subsection \<open>Restarting from the store\<close>

lemma record_inv_canonical: "record_inv c r \<Longrightarrow> record_inv (statechart_canonical c) r"
  using statechart_wf_canonical [of c]
  by (simp add: record_inv_def) (auto simp: statechart_canonical_def walk_canonical)

lemma load_statechart_saved: "statechart_wf c \<Longrightarrow> st_statechart st = Some (statechart_json c) \<Longrightarrow>
    load_statechart st = Inr (Some (statechart_canonical c))"
  using statechart_json_view [of c False]
  by (simp add: load_statechart_def statechart_from_json_def decoded_object_def statechart_json_def
      statechart_to_dict_def)

lemma load_execution_record_saved: "execution_record_wf r \<Longrightarrow> st_record st = Some (execution_record_json r) \<Longrightarrow>
    load_execution_record st = Inr (Some r)"
  using execution_record_json_view [of r False]
  by (simp add: load_execution_record_def execution_record_from_json_def decoded_object_def
      execution_record_json_def execution_record_to_dict_def)

lemma persisted_consistent_inv: "record_inv c r \<Longrightarrow> persisted_consistent c r = Inr ()"
  by (auto simp: persisted_consistent_def record_inv_def split: option.splits)

lemma runner_new_inv:
  assumes inv: "runner_inv ru" and new: "runner_new F (ru_store ru) topic sub lg = Inr ru'"
  shows "runner_inv ru' \<and> ru_record ru' = ru_record ru \<and>
    ru_chart ru' = map_option statechart_canonical (ru_chart ru)"
proof (cases "ru_chart ru")
  case None
  with inv have "ru_record ru = None" "st_statechart (ru_store ru) = None" "st_record (ru_store ru) = None"
    by (auto simp: runner_inv_def split: option.splits)
  with None new show ?thesis
    by (auto simp: runner_new_def runner_init_def load_statechart_def load_execution_record_def runner_inv_def bindE_eq_Inr
        split: option.splits)
next
  case (Some c)
  with inv obtain r where r: "ru_record ru = Some r" "record_inv c r"
    "st_statechart (ru_store ru) = Some (statechart_json c)" "st_record (ru_store ru) = Some (execution_record_json r)"
    by (auto simp: runner_inv_def split: option.splits)
  then have wf: "statechart_wf c" "execution_record_wf r" by (simp_all add: record_inv_def)
  have mission: "sc_mission_id (statechart_canonical c) = sc_mission_id c" by (simp add: statechart_canonical_def)
  from new have ru': "ru_chart ru' = Some (statechart_canonical c)" "ru_record ru' = Some r"
    "ru_superseded ru' = er_superseded_plan_revision r" "ru_store ru' = ru_store ru"
    "\<exists>sb. ru_subscription ru' = Some sb \<and> sub_mission_id sb = sc_mission_id c"
    using load_statechart_saved [OF wf(1) r(3)] load_execution_record_saved [OF wf(2) r(4)]
    by (auto simp: runner_new_def runner_init_def bindE_eq_Inr mission split: option.splits dest: subscription_for_mission)
  with r Some record_inv_canonical [OF r(2)] show ?thesis by (simp add: runner_inv_def mission)
qed

section \<open>Runs\<close>

text \<open>
  A run of the runner: Statecharts and other messages arrive, Maneuver Control applies candidates,
  somebody asks for the status, the process restarts from its store, and the transport changes in
  any way in between. Operations that raise are steps too.
\<close>

inductive runner_step :: "'s event_port \<Rightarrow> 'm machine_port option \<Rightarrow> 'm runner \<times> 's \<Rightarrow> 'm runner \<times> 's \<Rightarrow> bool"
  for P F where
  handled: "message_wf m \<Longrightarrow> runner_step P F (ru, s) (snd (handle P F m (ru, s)))"
| applied: "maneuver_decision_wf d \<Longrightarrow> runner_step P F (ru, s) (snd (apply_candidate P F x d (ru, s)))"
| asked: "runner_step P F (ru, s) (snd (runner_status P (ru, s)))"
| restarted: "runner_new F (ru_store ru) topic sub lg = Inr ru' \<Longrightarrow> runner_step P F (ru, s) (ru', s)"
| environment: "runner_step P F (ru, s) (ru, s')"

definition empty_store :: fsm_store where
  "empty_store = \<lparr>st_statechart = None, st_record = None\<rparr>"

inductive runner_run :: "'s event_port \<Rightarrow> 'm machine_port option \<Rightarrow> 'm runner \<times> 's \<Rightarrow> bool"
  for P F where
  fresh: "runner_new F empty_store topic sub lg = Inr ru \<Longrightarrow> runner_run P F (ru, s)"
| step: "runner_run P F x \<Longrightarrow> runner_step P F x y \<Longrightarrow> runner_run P F y"

inductive_cases runner_stepE: "runner_step P F x y"

lemma runner_new_empty: "runner_new F empty_store topic sub lg = Inr ru \<Longrightarrow> runner_inv ru"
  by (auto simp: runner_new_def runner_init_def load_statechart_def load_execution_record_def runner_inv_def empty_store_def
      bindE_eq_Inr split: option.splits)

lemma runner_step_inv: "runner_step P F x y \<Longrightarrow> runner_inv (fst x) \<Longrightarrow> runner_inv (fst y)"
  by (erule runner_stepE) (auto simp: handle_inv apply_inv status_inv dest: runner_new_inv)

lemma runner_run_inv: "runner_run P F x \<Longrightarrow> runner_inv (fst x)"
  by (induction rule: runner_run.induct) (auto intro: runner_new_empty runner_step_inv)

lemma same_control_chart: "same_control a b \<Longrightarrow> ru_chart b = ru_chart a"
  by (simp add: same_control_def)

lemma handle_chart:
  assumes inv: "runner_inv ru" and m: "message_wf m" and c: "ru_chart ru = Some c"
  shows "\<exists>c'. ru_chart (fst (snd (handle P F m (ru, s)))) = Some c' \<and> sc_mission_id c' = sc_mission_id c \<and>
    sc_plan_revision c \<le> sc_plan_revision c'"
  using handle_control [OF inv m, of P F s]
proof (elim disjE exE conjE)
  fix c' sub
  assume "sub_mission_id sub = sc_mission_id c'" "ru_chart ru \<noteq> None \<longrightarrow> ru_subscription ru = Some sub"
    "\<forall>old. ru_chart ru = Some old \<longrightarrow> sc_plan_revision old < sc_plan_revision c'"
    "same_control (installed c' (ru\<lparr>ru_subscription := Some sub\<rparr>)) (fst (snd (handle P F m (ru, s))))"
  with inv c show ?thesis
    by (auto simp: installed_def Let_def runner_inv_def dest!: same_control_chart split: option.splits)
qed (use c in \<open>auto dest: same_control_chart\<close>)

lemma apply_chart:
  assumes inv: "runner_inv ru" and d: "maneuver_decision_wf d"
  shows "ru_chart (fst (snd (apply_candidate P F x d (ru, s)))) = ru_chart ru"
  using apply_control [OF inv d, of P F x s] by (auto dest: same_control_chart)

lemma status_chart: "ru_chart (fst (snd (runner_status P (ru, s)))) = ru_chart ru"
  using same_control_chart [OF publish_status_frame [of ru P "''updated''" True s]]
  by (auto simp: runner_status_def bindS_cases split: sum.split)

lemma runner_step_chart:
  assumes "runner_step P F x y" and "runner_inv (fst x)" and "ru_chart (fst x) = Some c"
  shows "\<exists>c'. ru_chart (fst y) = Some c' \<and> sc_mission_id c' = sc_mission_id c \<and>
    sc_plan_revision c \<le> sc_plan_revision c'"
  using assms(1)
proof (rule runner_stepE)
  fix m ru s
  assume "x = (ru, s)" "y = snd (handle P F m (ru, s))" "message_wf m"
  with assms handle_chart [of ru m c P F s] show ?thesis by simp
next
  fix d ru s xa
  assume "x = (ru, s)" "y = snd (apply_candidate P F xa d (ru, s))" "maneuver_decision_wf d"
  with assms apply_chart [of ru d P F xa s] show ?thesis by simp
next
  fix ru topic sub lg ru' s
  assume "x = (ru, s)" "y = (ru', s)" "runner_new F (ru_store ru) topic sub lg = Inr ru'"
  with assms runner_new_inv [of ru F topic sub lg ru'] show ?thesis by (simp add: statechart_canonical_def)
qed (use assms in \<open>auto simp: status_chart\<close>)

section \<open>Publishing over a durable event stream\<close>

lemma status_event_id_prefixed: "status_event_id m n = prefixed_id ''fsm-status'' m n"
  by (simp add: status_event_id_def prefixed_id_def)

lemma status_event_Inr:
  assumes "fsm_status_wf st" and "0 \<le> n"
  shows "\<exists>e. status_event st n = Inr e \<and> transport_event_wf e \<and> te_event_id e = status_event_id (fs_mission_id st) n \<and>
    te_mission_id e = fs_mission_id st \<and> te_sequence e = n \<and> te_event_kind e = ''fsm-status'' \<and>
    JObj (te_payload e) = fsm_status_to_dict st"
proof -
  obtain items where d: "fsm_status_to_dict st = JObj items" by (simp add: fsm_status_to_dict_def)
  have "wf_obj items" using wf_status_json [OF assms(1)] by (simp add: d wf_obj_def)
  moreover have "nonblank (status_event_id (fs_mission_id st) n)" by (simp add: status_event_id_def)
  ultimately show ?thesis
    using assms by (simp add: status_event_def transport_event_new_def transport_event_wf_def d fsm_status_wf_def)
qed

context event_stream
begin

lemma publish_status_ok:
  assumes s: "inv s" and ids: "owns_ids stream used ''fsm-status'' (ru_topic ru) s" and topic: "nonblank (ru_topic ru)"
    and ru: "runner_inv ru" "ru_chart ru = Some c" "ru_record ru = Some r" and reason: "nonblank reason"
  shows "\<exists>st e ru' s'. publish_status P reason True (ru, s) = (Inr st, (ru', s')) \<and> inv s' \<and>
    same_control ru ru' \<and> owns_ids stream used ''fsm-status'' (ru_topic ru) s' \<and>
    status_of c r (ru_superseded ru) reason = Inr st \<and>
    te_sequence e = next_of s (ru_topic ru) (er_mission_id r) \<and> JObj (te_payload e) = fsm_status_to_dict st \<and>
    set (stream s' (ru_topic ru) (er_mission_id r)) = insert e (set (stream s (ru_topic ru) (er_mission_id r))) \<and>
    port_latest_event P (ru_topic ru) (er_mission_id r) (Some ''fsm-status'') s' = (Inr (Some e), s')"
proof -
  let ?t = "ru_topic ru" and ?m = "er_mission_id r"
  let ?n = "next_of s ?t ?m"
  from ru have rec: "record_inv c r" "ru_superseded ru = er_superseded_plan_revision r"
    by (simp_all add: runner_inv_def)
  then have "opt_all (\<lambda>n. 0 \<le> n) (ru_superseded ru)" and m: "nonblank ?m"
    by (auto simp: record_inv_def execution_record_wf_def)
  from status_of_Inr [OF rec(1) reason this(1)] obtain st where
    st: "status_of c r (ru_superseded ru) reason = Inr st" "fsm_status_wf st" "fs_mission_id st = ?m" by blast
  from status_event_Inr [OF st(2) next_nonneg [OF s, of ?t ?m]] obtain e where
    e: "status_event st ?n = Inr e" "transport_event_wf e" "te_event_id e = status_event_id ?m ?n"
      "te_mission_id e = ?m" "te_sequence e = ?n" "te_event_kind e = ''fsm-status''"
      "JObj (te_payload e) = fsm_status_to_dict st"
    using st(3) by auto
  have "te_event_id e = prefixed_id ''fsm-status'' ?m (te_sequence e)"
    by (simp add: e(3,5) status_event_id_prefixed)
  from publish_owned [OF s topic e(2) ids, unfolded e(4,6), OF e(5) this] obtain s' where
    p: "port_publish_event P ?t e s = (Inr e, s')" "inv s'" "owns_ids stream used ''fsm-status'' ?t s'"
      "set (stream s' ?t ?m) = insert e (set (stream s ?t ?m))"
      "port_latest_event P ?t ?m (Some ''fsm-status'') s' = (Inr (Some e), s')"
    by blast
  have "port_next_event_sequence P ?t ?m s = (Inr ?n, s)"
    by (simp add: next_sequence [OF s topic m] next_of_def)
  then have "publish_status P reason True (ru, s) =
      (Inr st, (ru\<lparr>ru_log := map_option (\<lambda>ls. ls @ [status_log st ?n]) (ru_log ru)\<rparr>, s'))"
    using ru st e(1) p(1) by (simp add: publish_status_def bindS_cases emit_def)
  then show ?thesis using p e st(1) by (intro exI conjI) auto
qed

end

section \<open>Properties\<close>

text \<open>C2: what holds in every run of the FSM Runner. With a Statechart installed there is an execution
  record, its active state is a declared state and is where the transition history leads from the
  entry state of the chart, no decision was applied twice, the history holds one transition per
  applied decision, and a superseded plan revision is older than the active one.\<close>

theorem runner_run_control:
  assumes "runner_run P F (ru, s)" and "ru_chart ru = Some c"
  shows "\<exists>r. ru_record ru = Some r \<and> er_active_state r \<in> set (sc_states c) \<and>
    walk (sc_transitions c) (sc_entry_state c) (er_transition_history r) = Some (er_active_state r) \<and>
    distinct (er_applied_event_identities r) \<and>
    length (er_applied_event_identities r) = length (er_transition_history r) \<and>
    opt_all (\<lambda>n. n < er_plan_revision r) (ru_superseded ru)"
  using runner_run_inv [OF assms(1)] assms(2)
  by (auto simp: runner_inv_def record_inv_def split: option.splits)

definition ex_runner :: "unit runner" where
  "ex_runner = \<lparr>ru_topic = ''fsm-status'', ru_subscription = None, ru_chart = None, ru_record = None,
     ru_superseded = None, ru_machine = None, ru_store = empty_store, ru_log = Some []\<rparr>"

definition ex_decision :: maneuver_decision where
  "ex_decision = \<lparr>md_decision_id = ''d1'', md_mission_id = ''m1'', md_transition_event = Some ''go'',
     md_maneuver_id = None, md_physical_maneuver = None, md_payload = [(''plan_revision'', JInt 3)],
     md_schema_version = 1\<rparr>"

definition ex_candidate :: transition_candidate where
  "ex_candidate = \<lparr>tc_event = ''go'', tc_source = ''search'', tc_target = ''home'',
     tc_transition_context = [], tc_source_state_context = [(''n'', JInt 1)],
     tc_target_state_context = [], tc_schema_version = JInt 2\<rparr>"

definition ex_handled :: "unit runner \<times> transport_state" where
  "ex_handled = snd (handle inprocess_events None (ChartMessage ex_chart) (ex_runner, initial_state))"

definition ex_applied :: "unit runner \<times> transport_state" where
  "ex_applied = snd (apply_candidate inprocess_events None ex_candidate ex_decision ex_handled)"

lemma ex_run_handled: "runner_run inprocess_events None ex_handled"
proof -
  have "runner_new None empty_store ''fsm-status'' None (Some []) = Inr ex_runner" by code_simp
  then have "runner_run inprocess_events None (ex_runner, initial_state)" by (rule runner_run.fresh)
  moreover have "message_wf (ChartMessage ex_chart)" by code_simp
  then have "runner_step inprocess_events None (ex_runner, initial_state) ex_handled"
    unfolding ex_handled_def by (rule runner_step.handled)
  ultimately show ?thesis by (rule runner_run.step)
qed

lemma ex_step_applied: "runner_step inprocess_events None ex_handled ex_applied"
proof -
  have d: "maneuver_decision_wf ex_decision" by code_simp
  show ?thesis
    using runner_step.applied [OF d, of inprocess_events None "fst ex_handled" "snd ex_handled" ex_candidate]
    by (simp add: ex_applied_def)
qed

lemma ex_run_applied: "runner_run inprocess_events None ex_applied"
  by (rule runner_run.step [OF ex_run_handled ex_step_applied])

theorem runner_run_control_witness:
  "\<exists>r. ru_record (fst ex_applied) = Some r \<and> er_transition_history r = [''go''] \<and>
     walk (sc_transitions ex_chart) ''search'' [''go''] = Some (er_active_state r)"
proof -
  have c: "ru_chart (fst ex_applied) = Some ex_chart" by code_simp
  have "map_option er_transition_history (ru_record (fst ex_applied)) = Some [''go'']" by code_simp
  moreover have "sc_entry_state ex_chart = ''search''" by code_simp
  moreover have "runner_run inprocess_events None (fst ex_applied, snd ex_applied)"
    using ex_run_applied by simp
  ultimately show ?thesis using runner_run_control [OF _ c] by fastforce
qed

text \<open>A runner never goes back to an older plan. In every run, no step (a message, a transition,
  a status request or a restart) removes the installed Statechart, changes its mission or lowers its
  plan revision.\<close>

theorem runner_never_regresses:
  assumes "runner_run P F x" and "runner_step P F x y" and "ru_chart (fst x) = Some c"
  shows "\<exists>c'. ru_chart (fst y) = Some c' \<and> sc_mission_id c' = sc_mission_id c \<and>
    sc_plan_revision c \<le> sc_plan_revision c'"
  using runner_step_chart [OF assms(2) runner_run_inv [OF assms(1)] assms(3)] .

theorem runner_never_regresses_witness: "\<exists>c'. ru_chart (fst ex_applied) = Some c' \<and> 3 \<le> sc_plan_revision c'"
proof -
  have "ru_chart (fst ex_handled) = Some ex_chart" by code_simp
  from runner_never_regresses [OF ex_run_handled ex_step_applied this] show ?thesis
    by (auto simp: ex_chart_def)
qed

text \<open>C7: what \<open>apply\<close> may do. Whatever candidate and decision arrive, the control state either stays
  as it is or makes exactly the one transition of the installed chart that leaves the active state
  on the candidate's event, and then the candidate is the one the runner would offer, the decision
  names that event, the mission and the active plan revision, and it was not applied before.\<close>

theorem apply_moves_only_when_authorized:
  assumes "runner_run P F (ru, s)" and "maneuver_decision_wf d"
    and "apply_candidate P F x d (ru, s) = (result, (ru', s'))" and "ru_record ru' \<noteq> ru_record ru"
  shows "\<exists>c r t. ru_chart ru = Some c \<and> ru_record ru = Some r \<and>
    t \<in> set (sc_transitions c) \<and> tr_source t = er_active_state r \<and> tr_event t = tc_event x \<and>
    (\<exists>expected. candidate_for c t = Inr expected \<and> transition_candidate_eq x expected) \<and>
    md_mission_id d = sc_mission_id c \<and> md_transition_event d = Some (tr_event t) \<and>
    (\<exists>j. map_of (md_payload d) ''plan_revision'' = Some j \<and> json_eq j (JInt (sc_plan_revision c))) \<and>
    md_decision_id d \<notin> set (er_applied_event_identities r) \<and>
    ru_record ru' = Some (moved r t (md_decision_id d)) \<and> ru_chart ru' = Some c"
proof -
  have inv: "runner_inv ru" using runner_run_inv [OF assms(1)] by simp
  from apply_control [OF inv assms(2), of P F x s] assms(3,4) obtain c r t where
    a: "ru_chart ru = Some c" "ru_record ru = Some r" "current_transition c r (tc_event x) = Some t"
      "decision_authorizes r (tr_event t) d" "md_decision_id d \<notin> set (er_applied_event_identities r)"
      "\<exists>expected. candidate_for c t = Inr expected \<and> transition_candidate_eq x expected"
      "ru_record ru' = Some (moved r t (md_decision_id d))" "ru_chart ru' = Some c"
    by (auto simp: same_control_def)
  moreover from a(3) have "t \<in> set (sc_transitions c)" "tr_source t = er_active_state r" "tr_event t = tc_event x"
    by (auto simp: current_transition_def dest: find_mem)
  moreover from inv a(1,2) have "er_mission_id r = sc_mission_id c" "er_plan_revision r = sc_plan_revision c"
    by (simp_all add: runner_inv_def record_inv_def)
  ultimately show ?thesis by (auto simp: decision_authorizes_def split: option.splits)
qed

theorem apply_moves_only_when_authorized_witness:
  "\<exists>t \<in> set (sc_transitions ex_chart). tr_source t = ''search'' \<and> tr_event t = ''go''"
proof -
  have d: "maneuver_decision_wf ex_decision" by code_simp
  have run: "runner_run inprocess_events None (fst ex_handled, snd ex_handled)" using ex_run_handled by simp
  have app: "apply_candidate inprocess_events None ex_candidate ex_decision (fst ex_handled, snd ex_handled) =
      (fst (apply_candidate inprocess_events None ex_candidate ex_decision ex_handled), (fst ex_applied, snd ex_applied))"
    by (simp add: ex_applied_def)
  have "ru_record (fst ex_applied) \<noteq> ru_record (fst ex_handled)" by code_simp
  moreover have "ru_chart (fst ex_handled) = Some ex_chart" by code_simp
  moreover have "map_option er_active_state (ru_record (fst ex_handled)) = Some ''search''" by code_simp
  ultimately show ?thesis
    using apply_moves_only_when_authorized [OF run d app] by (auto simp: ex_candidate_def)
qed

lemma runner_new_ok:
  assumes inv: "runner_inv ru" and "ru_chart ru = Some c"
  shows "\<exists>ru' c'. runner_new (None :: 'm machine_port option) (ru_store ru) topic None lg = Inr ru' \<and>
    ru_record ru' = ru_record ru \<and> ru_superseded ru' = ru_superseded ru \<and>
    ru_chart ru' = Some c' \<and> statechart_eq c c'"
proof -
  from inv assms(2) obtain r where r: "ru_record ru = Some r" "record_inv c r"
    "ru_superseded ru = er_superseded_plan_revision r"
    "st_statechart (ru_store ru) = Some (statechart_json c)" "st_record (ru_store ru) = Some (execution_record_json r)"
    by (auto simp: runner_inv_def split: option.splits)
  then have wf: "statechart_wf c" "execution_record_wf r" by (simp_all add: record_inv_def)
  have "\<exists>sb. subscription_for (sc_mission_id (statechart_canonical c)) = Inr sb"
    using statechart_wfD(1) [OF wf(1)]
    by (simp add: subscription_for_def subscription_new_def statechart_canonical_def)
  with load_statechart_saved [OF wf(1) r(4)] load_execution_record_saved [OF wf(2) r(5)]
    persisted_consistent_inv [OF record_inv_canonical [OF r(2)]]
  show ?thesis
    using r statechart_eq_canonical [OF wf(1)] by (auto simp: runner_new_def runner_init_def)
qed

text \<open>A restart loses nothing. From the store of any runner with an installed Statechart a new
  runner can be built, and it has the same execution record, the same superseded revision and an
  equal Statechart.\<close>

theorem runner_restart:
  assumes "runner_run P F (ru, s)" and "ru_chart ru = Some c"
  shows "\<exists>ru' c'. runner_new (None :: 'm machine_port option) (ru_store ru) topic None lg = Inr ru' \<and>
    ru_record ru' = ru_record ru \<and> ru_superseded ru' = ru_superseded ru \<and>
    ru_chart ru' = Some c' \<and> statechart_eq c c'"
  using runner_new_ok [OF runner_run_inv [OF assms(1), simplified] assms(2)] .

theorem runner_restart_witness:
  "\<exists>ru'. runner_new (None :: unit machine_port option) (ru_store (fst ex_applied)) ''fsm-status'' None None = Inr ru' \<and>
     ru_record ru' = ru_record (fst ex_applied)"
proof -
  have c: "ru_chart (fst ex_applied) = Some ex_chart" by code_simp
  have run: "runner_run inprocess_events None (fst ex_applied, snd ex_applied)" using ex_run_applied by simp
  from runner_restart [OF run c, of "''fsm-status''" None] show ?thesis by blast
qed

text \<open>The published status is current. Over the in-process transport a status request of a runner
  with an installed Statechart always succeeds, and afterwards the latest status event of the mission
  on the runner's topic carries exactly the status that was returned, with the runner's active state
  and plan revision.\<close>

theorem status_published:
  assumes "runner_run P F (ru, s0)" and "ru_chart ru = Some c" and "ru_record ru = Some r"
    and "nonblank (ru_topic ru)" and "events_inv s" and "owns_ids stream_of event_used ''fsm-status'' (ru_topic ru) s"
  shows "\<exists>st e ru' s'. runner_status inprocess_events (ru, s) = (Inr (Some st), (ru', s')) \<and>
    latest_event (ru_topic ru) (sc_mission_id c) (Some ''fsm-status'') s' = Some e \<and>
    JObj (te_payload e) = fsm_status_to_dict st \<and> fs_active_state st = er_active_state r \<and>
    fs_plan_revision st = sc_plan_revision c \<and>
    events_inv s' \<and> owns_ids stream_of event_used ''fsm-status'' (ru_topic ru) s'"
proof -
  have inv: "runner_inv ru" using runner_run_inv [OF assms(1)] by simp
  with assms(2,3) have rec: "record_inv c r" "ru_superseded ru = er_superseded_plan_revision r"
    by (simp_all add: runner_inv_def)
  then have m: "er_mission_id r = sc_mission_id c" "er_plan_revision r = sc_plan_revision c"
    and sp: "opt_all (\<lambda>n. 0 \<le> n) (ru_superseded ru)"
    by (auto simp: record_inv_def execution_record_wf_def)
  from inproc.publish_status_ok [OF assms(5,6,4) inv assms(2,3), of "''updated''"] m obtain st e ru' s' where
    p: "publish_status inprocess_events ''updated'' True (ru, s) = (Inr st, (ru', s'))" "events_inv s'"
      "owns_ids stream_of event_used ''fsm-status'' (ru_topic ru) s'"
      "status_of c r (ru_superseded ru) ''updated'' = Inr st" "JObj (te_payload e) = fsm_status_to_dict st"
      "port_latest_event inprocess_events (ru_topic ru) (sc_mission_id c) (Some ''fsm-status'') s' = (Inr (Some e), s')"
    by auto
  moreover have "fs_active_state st = er_active_state r \<and> fs_plan_revision st = sc_plan_revision c"
    using status_of_Inr [OF rec(1) _ sp, of "''updated''"] p(4) m(2) by auto
  moreover have "runner_status inprocess_events (ru, s) = (Inr (Some st), (ru', s'))"
    using p(1) assms(2,3) by (simp add: runner_status_def bindS_Inr)
  moreover have "latest_event (ru_topic ru) (sc_mission_id c) (Some ''fsm-status'') s' = Some e"
    using p(6) by (simp add: inprocess_events_def)
  ultimately show ?thesis by blast
qed

theorem status_published_witness:
  "\<exists>st e ru' s'. runner_status inprocess_events (fst ex_applied, initial_state) = (Inr (Some st), (ru', s')) \<and>
     latest_event ''fsm-status'' ''m1'' (Some ''fsm-status'') s' = Some e \<and> fs_active_state st = ''home''"
proof -
  have run: "runner_run inprocess_events None (fst ex_applied, snd ex_applied)" using ex_run_applied by simp
  have c: "ru_chart (fst ex_applied) = Some ex_chart" by code_simp
  have "map_option er_active_state (ru_record (fst ex_applied)) = Some ''home''" by code_simp
  then obtain r where r: "ru_record (fst ex_applied) = Some r" "er_active_state r = ''home''" by blast
  have t: "ru_topic (fst ex_applied) = ''fsm-status''" by code_simp
  have m: "sc_mission_id ex_chart = ''m1''" by code_simp
  have "owns_ids stream_of event_used ''fsm-status'' ''fsm-status'' initial_state"
    by (simp add: owns_ids_def event_used_def initial_state_def)
  with status_published [OF run c r(1), of initial_state] r(2) t m events_inv_initial show ?thesis by auto
qed

end
