(* ===== verification/Py_Float.thy ===== *)
theory Py_Float
  imports PyValue
begin

text \<open>
  \<open>float(n)\<close> for a Python integer: the nearest binary64 value, ties to even, with
  \<open>OverflowError\<close> beyond its range. A finite float is its exact rational value.
\<close>

fun bit_length :: "nat \<Rightarrow> nat" where
  "bit_length n = (if n = 0 then 0 else Suc (bit_length (n div 2)))"

declare bit_length.simps [simp del]

lemma bit_length_le: "n < 2 ^ k \<Longrightarrow> bit_length n \<le> k"
proof (induction n arbitrary: k rule: bit_length.induct)
  case (1 n)
  show ?case
  proof (cases "n = 0")
    case False
    with 1(2) obtain k' where k: "k = Suc k'" by (cases k) auto
    with 1(2) have "n div 2 < 2 ^ k'" by auto
    with 1(1) False k show ?thesis by (simp add: bit_length.simps [of n])
  qed (simp add: bit_length.simps)
qed

text \<open>The 53 leading bits of a natural number, rounded half to even.\<close>

definition round_nat :: "nat \<Rightarrow> nat" where
  "round_nat n = (let k = bit_length n - 53; q = n div 2 ^ k; r = n mod 2 ^ k
     in (if 2 * r > 2 ^ k \<or> (2 * r = 2 ^ k \<and> odd q) then q + 1 else q) * 2 ^ k)"

definition float_of_int :: "int \<Rightarrow> rat result" where
  "float_of_int i = (let m = round_nat (nat \<bar>i\<bar>)
     in if m \<ge> 2 ^ 1024 then Inl OverflowError
        else Inr (if i < 0 then - of_nat m else of_nat m))"

lemma round_nat_exact:
  assumes "n < 2 ^ 53"
  shows "round_nat n = n"
proof -
  have "bit_length n - 53 = 0" using bit_length_le [OF assms] by simp
  then show ?thesis by (simp add: round_nat_def)
qed

lemma float_of_int_exact: "\<bar>i\<bar> < 2 ^ 53 \<Longrightarrow> float_of_int i = Inr (of_int i)"
proof -
  assume "\<bar>i\<bar> < 2 ^ 53"
  then have "nat \<bar>i\<bar> < 2 ^ 53" by simp
  then have "round_nat (nat \<bar>i\<bar>) = nat \<bar>i\<bar>" and lt: "nat \<bar>i\<bar> < 2 ^ 1024"
    by (auto simp: round_nat_exact intro: less_trans [of _ "2 ^ 53"])
  moreover have "(of_nat (nat \<bar>i\<bar>) :: rat) = of_int \<bar>i\<bar>" by (simp add: of_nat_nat)
  ultimately show ?thesis by (simp add: float_of_int_def Let_def not_le abs_if)
qed

text \<open>The numbers among the frozen values, and their value as a float.\<close>

fun json_float :: "json \<Rightarrow> rat result" where
  "json_float (JInt i) = float_of_int i"
| "json_float (JFloat q) = Inr q"
| "json_float _ = Inl (ValueError BadNumber)"

text \<open>A point in time: an int or finite float that is not negative (\<open>bool\<close> excluded).\<close>

fun timestamp :: "pyval \<Rightarrow> json result" where
  "timestamp (PInt i) = bindE (float_of_int i) (\<lambda>q. if q < 0 then Inl (ValueError BadNumber) else Inr (JInt i))"
| "timestamp (PFloat (Fin q)) = (if q < 0 then Inl (ValueError BadNumber) else Inr (JFloat q))"
| "timestamp _ = Inl (ValueError BadNumber)"

definition timestamp_wf :: "json \<Rightarrow> bool" where
  "timestamp_wf j \<longleftrightarrow> (case json_float j of Inl _ \<Rightarrow> False | Inr q \<Rightarrow> 0 \<le> q)"

lemma timestamp_Inr: "timestamp v = Inr j \<Longrightarrow> timestamp_wf j"
  by (cases v rule: timestamp.cases)
    (auto simp: timestamp_wf_def bindE_eq_Inr split: if_splits)

lemma timestamp_view [simp]: "timestamp_wf j \<Longrightarrow> timestamp (view b j) = Inr j"
  by (cases j) (auto simp: timestamp_wf_def split: sum.splits)

definition the_float :: "json \<Rightarrow> rat" where
  "the_float j = (case json_float j of Inl _ \<Rightarrow> 0 | Inr q \<Rightarrow> q)"

lemma the_float_JFloat [simp]: "the_float (JFloat q) = q"
  by (simp add: the_float_def)

lemma timestamp_wf_float [simp]: "timestamp_wf j \<Longrightarrow> timestamp_wf (JFloat (the_float j))"
  by (auto simp: timestamp_wf_def the_float_def split: sum.splits)

end
