(* ===== verification/Transition_Intents.thy ===== *)
theory Transition_Intents
  imports FSM_Runner Py_Float
begin

text \<open>
  Transition intents: the contracts of \<open>src/onr/contracts/transition_intent.py\<close> and the
  append-only journal of \<open>src/onr/application/transition_intents.py\<close>, which keeps Maneuver
  Control's selected target as the latest event of a transport topic. The journal's laws are proved
  for any durable event stream and used on the in-process transport.
\<close>

section \<open>Contracts\<close>

datatype intent_status = SELECTED | CONSUMED | INVALIDATED

fun intent_status_text :: "intent_status \<Rightarrow> string" where
  "intent_status_text SELECTED = ''selected''"
| "intent_status_text CONSUMED = ''consumed''"
| "intent_status_text INVALIDATED = ''invalidated''"

definition intent_status_of :: "pyval \<Rightarrow> intent_status result" where
  "intent_status_of v = enum_of intent_status_text [SELECTED, CONSUMED, INVALIDATED] v"

lemma intent_status_of_text [simp]: "intent_status_of (PStr (intent_status_text st)) = Inr st"
  by (cases st) (simp_all add: intent_status_of_def enum_of_def)

datatype transition_assessment = SATISFIED | SATISFIED_WITH_UNCERTAINTY

fun assessment_text :: "transition_assessment \<Rightarrow> string" where
  "assessment_text SATISFIED = ''satisfied''"
| "assessment_text SATISFIED_WITH_UNCERTAINTY = ''satisfied_with_uncertainty''"

definition assessment_of :: "pyval \<Rightarrow> transition_assessment result" where
  "assessment_of v = enum_of assessment_text [SATISFIED, SATISFIED_WITH_UNCERTAINTY] v"

text \<open>A condition is checked to be a mapping before its values are.\<close>

definition condition_of :: "pyval \<Rightarrow> jobj result" where
  "condition_of v = (if as_mapping v = None then Inl (TypeError NotObject) else fsm_payload v)"

lemma condition_of_view [simp]: "condition_of (view b (JObj p)) = Inr p"
  by (simp add: condition_of_def)

lemma condition_of_wf: "condition_of v = Inr p \<Longrightarrow> wf_py v \<Longrightarrow> wf_obj p"
  by (auto simp: condition_of_def payload_wf split: if_splits)

record transition_intent =
  ti_intent_id :: string
  ti_mission_id :: string
  ti_plan_revision :: int
  ti_statechart_revision :: int
  ti_source_state :: string
  ti_target_state :: string
  ti_condition :: jobj
  ti_state_entry_revision :: int
  ti_selection_revision :: int
  ti_selected_at :: json
  ti_rationale :: string
  ti_status :: intent_status
  ti_superseded_intent :: "string option"
  ti_schema_version :: json

definition transition_intent_new ::
  "pyval \<Rightarrow> pyval \<Rightarrow> pyval \<Rightarrow> pyval \<Rightarrow> pyval \<Rightarrow> pyval \<Rightarrow> pyval \<Rightarrow> pyval \<Rightarrow> pyval \<Rightarrow> pyval \<Rightarrow>
   pyval \<Rightarrow> pyval \<Rightarrow> pyval \<Rightarrow> pyval \<Rightarrow> transition_intent result" where
  "transition_intent_new intent_id mission_id plan_revision statechart_revision source_state
     target_state condition entry_revision selection_revision selected_at rationale status
     superseded schema_version =
     bindE (text_of intent_id) (\<lambda>iid.
     bindE (text_of mission_id) (\<lambda>mid.
     bindE (text_of source_state) (\<lambda>src.
     bindE (text_of target_state) (\<lambda>tgt.
     bindE (text_of rationale) (\<lambda>why.
     bindE (nonneg_int plan_revision) (\<lambda>pr.
     bindE (nonneg_int statechart_revision) (\<lambda>sr.
     bindE (nonneg_int entry_revision) (\<lambda>er.
     bindE (nonneg_int selection_revision) (\<lambda>sel.
     bindE (timestamp selected_at) (\<lambda>tm.
     bindE (condition_of condition) (\<lambda>cond.
     bindE (intent_status_of status) (\<lambda>st.
     bindE (optional text_of superseded) (\<lambda>sp.
     bindE (schema_is 1 schema_version) (\<lambda>sv.
       Inr \<lparr>ti_intent_id = iid, ti_mission_id = mid, ti_plan_revision = pr,
         ti_statechart_revision = sr, ti_source_state = src, ti_target_state = tgt,
         ti_condition = cond, ti_state_entry_revision = er, ti_selection_revision = sel,
         ti_selected_at = tm, ti_rationale = why, ti_status = st, ti_superseded_intent = sp,
         ti_schema_version = sv\<rparr>))))))))))))))"

definition transition_intent_to_dict :: "transition_intent \<Rightarrow> json" where
  "transition_intent_to_dict i = JObj [
     (''schema_version'', ti_schema_version i),
     (''intent_id'', JStr (ti_intent_id i)),
     (''mission_id'', JStr (ti_mission_id i)),
     (''plan_revision'', JInt (ti_plan_revision i)),
     (''statechart_revision'', JInt (ti_statechart_revision i)),
     (''source_state'', JStr (ti_source_state i)),
     (''target_state'', JStr (ti_target_state i)),
     (''condition'', JObj (ti_condition i)),
     (''state_entry_revision'', JInt (ti_state_entry_revision i)),
     (''selection_revision'', JInt (ti_selection_revision i)),
     (''selected_at'', JFloat (the_float (ti_selected_at i))),
     (''rationale'', JStr (ti_rationale i)),
     (''status'', JStr (intent_status_text (ti_status i))),
     (''superseded_intent'', optional_json JStr (ti_superseded_intent i))]"

definition transition_intent_from_dict :: "pyval \<Rightarrow> transition_intent result" where
  "transition_intent_from_dict v =
     bindE (strict_fields [''schema_version'', ''intent_id'', ''mission_id'', ''plan_revision'',
       ''statechart_revision'', ''source_state'', ''target_state'', ''condition'',
       ''state_entry_revision'', ''selection_revision'', ''selected_at'', ''rationale'', ''status'',
       ''superseded_intent''] v) (\<lambda>kvs.
     transition_intent_new (item kvs ''intent_id'') (item kvs ''mission_id'')
       (item kvs ''plan_revision'') (item kvs ''statechart_revision'') (item kvs ''source_state'')
       (item kvs ''target_state'') (item kvs ''condition'') (item kvs ''state_entry_revision'')
       (item kvs ''selection_revision'') (item kvs ''selected_at'') (item kvs ''rationale'')
       (item kvs ''status'') (item kvs ''superseded_intent'') (item kvs ''schema_version''))"

definition is_selected :: "transition_intent \<Rightarrow> bool" where
  "is_selected i \<longleftrightarrow> ti_status i = SELECTED"

definition intent_wf :: "transition_intent \<Rightarrow> bool" where
  "intent_wf i \<longleftrightarrow> nonblank (ti_intent_id i) \<and> nonblank (ti_mission_id i) \<and>
     nonblank (ti_source_state i) \<and> nonblank (ti_target_state i) \<and> nonblank (ti_rationale i) \<and>
     0 \<le> ti_plan_revision i \<and> 0 \<le> ti_statechart_revision i \<and> 0 \<le> ti_state_entry_revision i \<and>
     0 \<le> ti_selection_revision i \<and> timestamp_wf (ti_selected_at i) \<and> wf_obj (ti_condition i) \<and>
     opt_all nonblank (ti_superseded_intent i) \<and> jnum (ti_schema_version i) = Some 1"

definition floated :: "transition_intent \<Rightarrow> transition_intent" where
  "floated i = i\<lparr>ti_selected_at := JFloat (the_float (ti_selected_at i))\<rparr>"

lemma transition_intent_new_wf:
  assumes "transition_intent_new iid mid pr sr src tgt cond en sel tm why st sp sv = Inr i" and "wf_py cond"
  shows "intent_wf i"
  using assms
  by (auto simp: transition_intent_new_def intent_wf_def bindE_eq_Inr text_of_Inr nonneg_int_Inr
      dest!: optional_wf timestamp_Inr schema_is_Inr intro: condition_of_wf)

lemma transition_intent_from_dict_wf:
  "transition_intent_from_dict v = Inr i \<Longrightarrow> wf_py v \<Longrightarrow> intent_wf i"
  by (auto simp: transition_intent_from_dict_def bindE_eq_Inr strict_fields_Inr
      intro: transition_intent_new_wf wf_item)

lemma transition_intent_view:
  assumes "intent_wf i"
  shows "transition_intent_from_dict (view b (transition_intent_to_dict i)) = Inr (floated i)"
proof -
  from assms have "timestamp (PFloat (Fin (the_float (ti_selected_at i)))) = Inr (JFloat (the_float (ti_selected_at i)))"
    using timestamp_view [of "JFloat (the_float (ti_selected_at i))" b] by (simp add: intent_wf_def)
  with assms show ?thesis
    by (auto simp: transition_intent_from_dict_def transition_intent_to_dict_def transition_intent_new_def
        intent_wf_def floated_def split: option.split)
qed

section \<open>The focused view of the active state\<close>

record maneuver_candidate =
  mc_target_state :: string
  mc_condition :: jobj

definition maneuver_candidate_new :: "pyval \<Rightarrow> pyval \<Rightarrow> maneuver_candidate result" where
  "maneuver_candidate_new target condition =
     bindE (text_of target) (\<lambda>t.
     bindE (condition_of condition) (\<lambda>c. Inr \<lparr>mc_target_state = t, mc_condition = c\<rparr>))"

definition maneuver_candidate_to_dict :: "maneuver_candidate \<Rightarrow> json" where
  "maneuver_candidate_to_dict c = JObj [
     (''target_state'', JStr (mc_target_state c)), (''condition'', JObj (mc_condition c))]"

definition maneuver_candidate_from_dict :: "pyval \<Rightarrow> maneuver_candidate result" where
  "maneuver_candidate_from_dict v = bindE (strict_fields [''target_state'', ''condition''] v) (\<lambda>kvs.
     maneuver_candidate_new (item kvs ''target_state'') (item kvs ''condition''))"

record maneuver_context =
  mx_current_state :: string
  mx_current_state_context :: jobj
  mx_transition_candidates :: "maneuver_candidate list"
  mx_state_entry_revision :: int
  mx_transition_intent :: "transition_intent option"

definition maneuver_context_new ::
  "pyval \<Rightarrow> pyval \<Rightarrow> maneuver_candidate list \<Rightarrow> pyval \<Rightarrow> transition_intent option \<Rightarrow> maneuver_context result" where
  "maneuver_context_new state context candidates entry_revision intent =
     bindE (text_of state) (\<lambda>s.
     bindE (condition_of context) (\<lambda>c.
     bindE (nonneg_int entry_revision) (\<lambda>r.
       Inr \<lparr>mx_current_state = s, mx_current_state_context = c, mx_transition_candidates = candidates,
         mx_state_entry_revision = r, mx_transition_intent = intent\<rparr>)))"

definition maneuver_context_to_dict :: "maneuver_context \<Rightarrow> json" where
  "maneuver_context_to_dict x = JObj [
     (''current_state'', JStr (mx_current_state x)),
     (''current_state_context'', JObj (mx_current_state_context x)),
     (''transition_candidates'', JArr (map maneuver_candidate_to_dict (mx_transition_candidates x))),
     (''state_entry_revision'', JInt (mx_state_entry_revision x)),
     (''transition_intent'', optional_json transition_intent_to_dict (mx_transition_intent x))]"

definition maneuver_context_from_dict :: "pyval \<Rightarrow> maneuver_context result" where
  "maneuver_context_from_dict v =
     bindE (strict_fields [''current_state'', ''current_state_context'', ''transition_candidates'',
       ''state_entry_revision'', ''transition_intent''] v) (\<lambda>kvs.
     bindE (array_of (item kvs ''transition_candidates'')) (\<lambda>raw.
     bindE (guardE (item kvs ''transition_intent'' = PNone \<or>
       as_mapping (item kvs ''transition_intent'') \<noteq> None) (TypeError NotObject)) (\<lambda>_.
     bindE (mapE maneuver_candidate_from_dict raw) (\<lambda>candidates.
     bindE (optional transition_intent_from_dict (item kvs ''transition_intent'')) (\<lambda>intent.
     maneuver_context_new (item kvs ''current_state'') (item kvs ''current_state_context'') candidates
       (item kvs ''state_entry_revision'') intent)))))"

definition maneuver_context_wf :: "maneuver_context \<Rightarrow> bool" where
  "maneuver_context_wf x \<longleftrightarrow> nonblank (mx_current_state x) \<and> wf_obj (mx_current_state_context x) \<and>
     (\<forall>c \<in> set (mx_transition_candidates x). nonblank (mc_target_state c) \<and> wf_obj (mc_condition c)) \<and>
     0 \<le> mx_state_entry_revision x \<and> opt_all intent_wf (mx_transition_intent x)"

lemma maneuver_candidate_view: "nonblank (mc_target_state c) \<Longrightarrow>
    maneuver_candidate_from_dict (view b (maneuver_candidate_to_dict c)) = Inr c"
  by (simp add: maneuver_candidate_from_dict_def maneuver_candidate_to_dict_def maneuver_candidate_new_def)

lemma maneuver_context_view:
  assumes "maneuver_context_wf x"
  shows "maneuver_context_from_dict (view b (maneuver_context_to_dict x)) =
    Inr (x\<lparr>mx_transition_intent := map_option floated (mx_transition_intent x)\<rparr>)"
proof -
  have "mapE maneuver_candidate_from_dict
      (map (view b) (map maneuver_candidate_to_dict (mx_transition_candidates x))) =
      Inr (map (\<lambda>c. c) (mx_transition_candidates x))"
    unfolding map_map using assms
    by (intro mapE_map_Inr) (simp add: maneuver_context_wf_def maneuver_candidate_view)
  moreover have "optional transition_intent_from_dict
      (view b (optional_json transition_intent_to_dict (mx_transition_intent x))) =
      Inr (map_option floated (mx_transition_intent x)) \<and>
      (view b (optional_json transition_intent_to_dict (mx_transition_intent x)) = PNone \<or>
       as_mapping (view b (optional_json transition_intent_to_dict (mx_transition_intent x))) \<noteq> None)"
  proof (cases "mx_transition_intent x")
    case None
    then show ?thesis by (simp add: optional_json_def optional_def)
  next
    case (Some i)
    with assms have "intent_wf i" by (simp add: maneuver_context_wf_def)
    with Some transition_intent_view [OF this, of b] show ?thesis
      by (simp add: optional_json_def optional_def) (simp add: transition_intent_to_dict_def)
  qed
  ultimately show ?thesis
    using assms
    by (simp add: maneuver_context_from_dict_def maneuver_context_to_dict_def maneuver_context_new_def
        maneuver_context_wf_def)
qed

section \<open>The journal\<close>

definition latest_intent :: "'s event_port \<Rightarrow> string \<Rightarrow> string \<Rightarrow> (transition_intent option, 's) eff" where
  "latest_intent P topic mission_id =
     bindS (port_latest_event P topic mission_id (Some ''transition-intent'')) (\<lambda>event.
     case event of
       None \<Rightarrow> returnS None
     | Some e \<Rightarrow> bindS (liftE (transition_intent_from_dict (proxied (JObj (te_payload e))))) (\<lambda>i. returnS (Some i)))"

definition exact_candidate :: "fsm_status \<Rightarrow> string \<Rightarrow> transition_candidate result" where
  "exact_candidate st target_state =
     (case filter (\<lambda>c. tc_source c = fs_active_state st \<and> tc_target c = target_state)
        (fs_transition_candidates st) of
        [c] \<Rightarrow> Inr c
      | _ \<Rightarrow> Inl (ValueError NotUnique))"

definition matches_status :: "transition_intent \<Rightarrow> fsm_status \<Rightarrow> bool" where
  "matches_status i st \<longleftrightarrow> ti_mission_id i = fs_mission_id st \<and> ti_plan_revision i = fs_plan_revision st \<and>
     ti_statechart_revision i = fs_statechart_revision st \<and> ti_source_state i = fs_active_state st \<and>
     ti_state_entry_revision i = fs_state_entry_revision st \<and>
     (case exact_candidate st (ti_target_state i) of
        Inl _ \<Rightarrow> False
      | Inr c \<Rightarrow> jobj_eq (tc_transition_context c) (ti_condition i))"

definition with_status :: "transition_intent \<Rightarrow> intent_status \<Rightarrow> transition_intent result" where
  "with_status i st =
     transition_intent_new (PStr (ti_intent_id i)) (PStr (ti_mission_id i)) (PInt (ti_plan_revision i))
       (PInt (ti_statechart_revision i)) (PStr (ti_source_state i)) (PStr (ti_target_state i))
       (proxied (JObj (ti_condition i))) (PInt (ti_state_entry_revision i))
       (PInt (ti_selection_revision i)) (proxied (ti_selected_at i)) (PStr (ti_rationale i))
       (PStr (intent_status_text st)) (proxied (optional_json JStr (ti_superseded_intent i)))
       (proxied (ti_schema_version i))"

definition intent_event :: "transition_intent \<Rightarrow> int \<Rightarrow> transport_event result" where
  "intent_event i sequence =
     transport_event_new (PInt 1)
       (PStr (''transition-intent:'' @ ti_mission_id i @ '':'' @ show_int sequence))
       (PStr (ti_mission_id i)) (PInt sequence) (PStr ''transition-intent'')
       (thaw (transition_intent_to_dict i))"

definition publish_intent :: "'s event_port \<Rightarrow> string \<Rightarrow> transition_intent \<Rightarrow> (transition_intent, 's) eff" where
  "publish_intent P topic i =
     bindS (port_next_event_sequence P topic (ti_mission_id i)) (\<lambda>sequence.
     bindS (liftE (intent_event i sequence)) (\<lambda>e.
     bindS (port_publish_event P topic e) (\<lambda>_. returnS i)))"

definition current_intent :: "'s event_port \<Rightarrow> string \<Rightarrow> fsm_status \<Rightarrow> bool \<Rightarrow> (transition_intent option, 's) eff" where
  "current_intent P topic st invalidate_stale =
     bindS (latest_intent P topic (fs_mission_id st)) (\<lambda>latest.
     case latest of
       None \<Rightarrow> returnS None
     | Some i \<Rightarrow>
         if \<not> is_selected i then returnS None
         else if matches_status i st then returnS (Some i)
         else if invalidate_stale
         then bindS (liftE (with_status i INVALIDATED)) (\<lambda>i'.
           bindS (publish_intent P topic i') (\<lambda>_. returnS None))
         else returnS None)"

text \<open>The last part of \<open>select\<close>: a selection with the next revision, superseding the current one.\<close>

definition new_selection :: "'s event_port \<Rightarrow> string \<Rightarrow> fsm_status \<Rightarrow> transition_candidate \<Rightarrow> pyval \<Rightarrow> pyval \<Rightarrow>
  transition_intent option \<Rightarrow> (transition_intent, 's) eff" where
  "new_selection P topic st c rationale selected_at current =
     bindS (port_next_event_sequence P topic (fs_mission_id st)) (\<lambda>revision.
     bindS (liftE (transition_intent_new
       (PStr (''transition-intent-selection:'' @ fs_mission_id st @ '':'' @ show_int revision))
       (PStr (fs_mission_id st)) (PInt (fs_plan_revision st)) (PInt (fs_statechart_revision st))
       (PStr (fs_active_state st)) (PStr (tc_target c)) (proxied (JObj (tc_transition_context c)))
       (PInt (fs_state_entry_revision st)) (PInt revision) selected_at rationale (PStr ''selected'')
       (case current of None \<Rightarrow> PNone | Some i \<Rightarrow> PStr (ti_intent_id i)) (PInt 1)))
     (publish_intent P topic))"

definition select_intent :: "'s event_port \<Rightarrow> string \<Rightarrow> fsm_status \<Rightarrow> string \<Rightarrow> pyval \<Rightarrow> pyval \<Rightarrow>
  (transition_intent, 's) eff" where
  "select_intent P topic st target_state rationale selected_at =
     bindS (liftE (exact_candidate st target_state)) (\<lambda>c.
     bindS (current_intent P topic st True) (\<lambda>current.
     case current of
       None \<Rightarrow> new_selection P topic st c rationale selected_at None
     | Some i \<Rightarrow>
         if ti_target_state i = tc_target c \<and> jobj_eq (ti_condition i) (tc_transition_context c)
         then returnS i
         else new_selection P topic st c rationale selected_at (Some i)))"

definition consume_intent :: "'s event_port \<Rightarrow> string \<Rightarrow> transition_intent \<Rightarrow> (transition_intent, 's) eff" where
  "consume_intent P topic i =
     bindS (latest_intent P topic (ti_mission_id i)) (\<lambda>latest.
     case latest of
       None \<Rightarrow> raiseS (ValueError NotCurrent)
     | Some l \<Rightarrow>
         if \<not> is_selected l \<or> ti_intent_id l \<noteq> ti_intent_id i then raiseS (ValueError NotCurrent)
         else bindS (liftE (with_status l CONSUMED)) (publish_intent P topic))"

definition invalidate_latest :: "'s event_port \<Rightarrow> string \<Rightarrow> string \<Rightarrow> (transition_intent option, 's) eff" where
  "invalidate_latest P topic mission_id =
     bindS (latest_intent P topic mission_id) (\<lambda>latest.
     case latest of
       None \<Rightarrow> returnS None
     | Some l \<Rightarrow>
         if \<not> is_selected l then returnS (Some l)
         else bindS (liftE (with_status l INVALIDATED)) (\<lambda>i.
           bindS (publish_intent P topic i) (\<lambda>r. returnS (Some r))))"

definition focused_context :: "fsm_status \<Rightarrow> transition_intent option \<Rightarrow> maneuver_context result" where
  "focused_context st intent =
     bindE (mapE (\<lambda>c. maneuver_candidate_new (PStr (tc_target c)) (proxied (JObj (tc_transition_context c))))
       (fs_transition_candidates st)) (\<lambda>candidates.
     maneuver_context_new (PStr (fs_active_state st)) (proxied (JObj (fs_active_state_context st)))
       candidates (PInt (fs_state_entry_revision st)) intent)"

section \<open>The journal over a durable event stream\<close>

lemma with_status_Inr: "intent_wf i \<Longrightarrow> with_status i st = Inr (i\<lparr>ti_status := st\<rparr>)"
  by (simp add: with_status_def transition_intent_new_def intent_wf_def)

lemma with_status_wf: "intent_wf i \<Longrightarrow> intent_wf (i\<lparr>ti_status := st\<rparr>)"
  by (simp add: intent_wf_def)

lemma floated_wf: "intent_wf i \<Longrightarrow> intent_wf (floated i)"
  by (simp add: intent_wf_def floated_def)

lemma floated_fields [simp]:
  "ti_intent_id (floated i) = ti_intent_id i" "ti_mission_id (floated i) = ti_mission_id i"
  "ti_status (floated i) = ti_status i" "ti_target_state (floated i) = ti_target_state i"
  "ti_condition (floated i) = ti_condition i" "ti_selection_revision (floated i) = ti_selection_revision i"
  "floated (floated i) = floated i" "is_selected (floated i) = is_selected i"
  "matches_status (floated i) st = matches_status i st"
  by (simp_all add: floated_def is_selected_def matches_status_def split: sum.split)

lemma wf_intent_json: "intent_wf i \<Longrightarrow> wf_json (transition_intent_to_dict i)"
  by (cases "ti_schema_version i") (auto simp: intent_wf_def transition_intent_to_dict_def wf_obj_def)

lemma intent_event_Inr:
  assumes "intent_wf i" and "0 \<le> n"
  shows "\<exists>e. intent_event i n = Inr e \<and> transport_event_wf e \<and>
    te_event_id e = prefixed_id ''transition-intent'' (ti_mission_id i) n \<and>
    te_mission_id e = ti_mission_id i \<and> te_sequence e = n \<and> te_event_kind e = ''transition-intent'' \<and>
    JObj (te_payload e) = transition_intent_to_dict i"
proof -
  obtain items where d: "transition_intent_to_dict i = JObj items" by (simp add: transition_intent_to_dict_def)
  have "wf_obj items" using wf_intent_json [OF assms(1)] by (simp add: d wf_obj_def)
  then show ?thesis
    using assms by (simp add: intent_event_def transport_event_new_def transport_event_wf_def d intent_wf_def prefixed_id_def)
qed

text \<open>Every intent event of the stream can be read, and belongs to its mission.\<close>

definition readable_intents :: "transport_event list \<Rightarrow> string \<Rightarrow> bool" where
  "readable_intents es m \<longleftrightarrow> (\<forall>e \<in> set es. te_event_kind e = ''transition-intent'' \<longrightarrow>
     (\<exists>i. intent_wf i \<and> floated i = i \<and> ti_mission_id i = m \<and>
       transition_intent_from_dict (proxied (JObj (te_payload e))) = Inr i))"

definition journal_inv :: "('s \<Rightarrow> string \<Rightarrow> string \<Rightarrow> transport_event list) \<Rightarrow> ('s \<Rightarrow> string \<Rightarrow> bool) \<Rightarrow>
  string \<Rightarrow> 's \<Rightarrow> bool" where
  "journal_inv stream used topic s \<longleftrightarrow> owns_ids stream used ''transition-intent'' topic s \<and>
     (\<forall>m. readable_intents (stream s topic m) m)"

lemma exact_candidate_Inr:
  "exact_candidate st t = Inr c \<Longrightarrow> c \<in> set (fs_transition_candidates st) \<and> tc_target c = t \<and>
     tc_source c = fs_active_state st"
proof -
  assume "exact_candidate st t = Inr c"
  then have "filter (\<lambda>c. tc_source c = fs_active_state st \<and> tc_target c = t) (fs_transition_candidates st) = [c]"
    by (auto simp: exact_candidate_def split: list.splits)
  then have "c \<in> set (filter (\<lambda>c. tc_source c = fs_active_state st \<and> tc_target c = t) (fs_transition_candidates st))"
    by simp
  then show ?thesis by simp
qed

context event_stream
begin

abbreviation "journal topic s \<equiv> inv s \<and> nonblank topic \<and> journal_inv stream used topic s"

lemma latest_intent_cases:
  assumes "journal topic s"
  shows "latest_intent P topic m s = (Inr None, s) \<or>
    (\<exists>i. intent_wf i \<and> floated i = i \<and> ti_mission_id i = m \<and> latest_intent P topic m s = (Inr (Some i), s))"
proof -
  let ?es = "filter (kind_matches (Some ''transition-intent'')) (stream s topic m)"
  show ?thesis
  proof (cases "max_by event_key ?es")
    case None
    with assms show ?thesis by (simp add: latest_intent_def latest bindS_cases)
  next
    case (Some e)
    then have "e \<in> set (stream s topic m)" "te_event_kind e = ''transition-intent''"
      by (auto dest: max_by_Some)
    with assms obtain i where "intent_wf i" "floated i = i" "ti_mission_id i = m"
      "transition_intent_from_dict (proxied (JObj (te_payload e))) = Inr i"
      unfolding journal_inv_def readable_intents_def by blast
    with Some assms show ?thesis by (simp add: latest_intent_def latest bindS_cases)
  qed
qed

lemma publish_intent_ok:
  assumes j: "journal topic s" and i: "intent_wf i"
  shows "\<exists>s'. publish_intent P topic i s = (Inr i, s') \<and> journal topic s' \<and>
    latest_intent P topic (ti_mission_id i) s' = (Inr (Some (floated i)), s') \<and>
    (\<forall>m. m \<noteq> ti_mission_id i \<longrightarrow> stream s' topic m = stream s topic m)"
proof -
  let ?m = "ti_mission_id i"
  let ?n = "next_of s topic ?m"
  from j have s: "inv s" "nonblank topic" "owns_ids stream used ''transition-intent'' topic s"
    "\<And>m. readable_intents (stream s topic m) m"
    by (simp_all add: journal_inv_def)
  have m: "nonblank ?m" using i by (simp add: intent_wf_def)
  obtain e where e: "intent_event i ?n = Inr e" "transport_event_wf e"
    "te_event_id e = prefixed_id ''transition-intent'' ?m ?n" "te_mission_id e = ?m" "te_sequence e = ?n"
    "te_event_kind e = ''transition-intent''" "JObj (te_payload e) = transition_intent_to_dict i"
    using intent_event_Inr [OF i next_nonneg [OF s(1), of topic ?m]] by blast
  have id: "te_event_id e = prefixed_id ''transition-intent'' ?m (te_sequence e)" using e(3,5) by simp
  from publish_owned [OF s(1,2) e(2) s(3), unfolded e(4,6), OF e(5) id] obtain s' where
    p: "port_publish_event P topic e s = (Inr e, s')" "inv s'" "owns_ids stream used ''transition-intent'' topic s'"
      "set (stream s' topic ?m) = insert e (set (stream s topic ?m))"
      "\<forall>t' m'. (t', m') \<noteq> (topic, ?m) \<longrightarrow> stream s' t' m' = stream s t' m'"
      "port_latest_event P topic ?m (Some ''transition-intent'') s' = (Inr (Some e), s')"
    by blast
  have read: "transition_intent_from_dict (proxied (JObj (te_payload e))) = Inr (floated i)"
    unfolding e(7) by (rule transition_intent_view [OF i])
  have "readable_intents (stream s' topic m) m" for m
  proof (cases "m = ?m")
    case True
    with s(4) [of m] p(4) read floated_wf [OF i] show ?thesis
      by (auto simp: readable_intents_def)
  next
    case False
    with s(4) [of m] p(5) show ?thesis by simp
  qed
  with p(2,3) s(2) have "journal topic s'" by (simp add: journal_inv_def)
  moreover have "port_next_event_sequence P topic ?m s = (Inr ?n, s)"
    by (simp add: next_sequence [OF s(1,2) m] next_of_def)
  then have "publish_intent P topic i s = (Inr i, s')"
    using e(1) p(1) by (simp add: publish_intent_def bindS_Inr)
  moreover have "latest_intent P topic ?m s' = (Inr (Some (floated i)), s')"
    using p(6) read by (simp add: latest_intent_def bindS_Inr)
  ultimately show ?thesis using p(5) by blast
qed

lemma current_intent_cases:
  assumes j: "journal topic s"
  shows "(\<exists>i. current_intent P topic st b s = (Inr (Some i), s) \<and> intent_wf i \<and> floated i = i \<and>
      is_selected i \<and> matches_status i st \<and> latest_intent P topic (fs_mission_id st) s = (Inr (Some i), s)) \<or>
    (\<exists>s'. current_intent P topic st b s = (Inr None, s') \<and> journal topic s' \<and> (\<not> b \<longrightarrow> s' = s) \<and>
      (b \<longrightarrow> current_intent P topic st False s' = (Inr None, s')))"
  using latest_intent_cases [OF j, of "fs_mission_id st"]
proof (elim disjE exE conjE)
  assume "latest_intent P topic (fs_mission_id st) s = (Inr None, s)"
  with j show ?thesis by (simp add: current_intent_def bindS_Inr)
next
  fix i assume i: "intent_wf i" "floated i = i" "ti_mission_id i = fs_mission_id st"
    and l: "latest_intent P topic (fs_mission_id st) s = (Inr (Some i), s)"
  show ?thesis
  proof (cases "is_selected i \<and> \<not> matches_status i st \<and> b")
    case False
    with i l j show ?thesis
      by (cases "is_selected i"; cases "matches_status i st") (simp_all add: current_intent_def bindS_Inr)
  next
    case True
    from publish_intent_ok [OF j with_status_wf [OF i(1), of INVALIDATED]] obtain s' where
      p: "publish_intent P topic (i\<lparr>ti_status := INVALIDATED\<rparr>) s = (Inr (i\<lparr>ti_status := INVALIDATED\<rparr>), s')"
        "journal topic s'" and "latest_intent P topic (fs_mission_id st) s' = (Inr (Some (floated (i\<lparr>ti_status := INVALIDATED\<rparr>))), s')"
      using i(3) by auto
    then have "current_intent P topic st False s' = (Inr None, s')"
      by (simp add: current_intent_def bindS_Inr) (simp add: is_selected_def)
    with True i l p show ?thesis
      by (simp add: current_intent_def bindS_Inr with_status_Inr)
  qed
qed

lemma new_selection_ok:
  assumes j: "journal topic s" and st: "fsm_status_wf st" and c: "exact_candidate st t = Inr c"
    and why: "nonblank why" and tm: "timestamp_wf tm" and cur: "opt_all (\<lambda>i. nonblank (ti_intent_id i)) current"
  shows "\<exists>i s'. new_selection P topic st c (PStr why) (view b tm) current s = (Inr i, s') \<and> journal topic s' \<and>
    intent_wf i \<and> is_selected i \<and> matches_status i st \<and> ti_target_state i = t \<and>
    jobj_eq (ti_condition i) (tc_transition_context c) \<and>
    latest_intent P topic (fs_mission_id st) s' = (Inr (Some (floated i)), s')"
proof -
  let ?m = "fs_mission_id st"
  let ?n = "next_of s topic ?m"
  from exact_candidate_Inr [OF c] st have cw: "candidate_wf c" "tc_target c = t"
    by (auto simp: fsm_status_wf_def)
  have m: "nonblank ?m" using st by (simp add: fsm_status_wf_def)
  define i where "i = \<lparr>ti_intent_id = ''transition-intent-selection:'' @ ?m @ '':'' @ show_int ?n,
    ti_mission_id = ?m, ti_plan_revision = fs_plan_revision st,
    ti_statechart_revision = fs_statechart_revision st, ti_source_state = fs_active_state st,
    ti_target_state = t, ti_condition = tc_transition_context c,
    ti_state_entry_revision = fs_state_entry_revision st, ti_selection_revision = ?n,
    ti_selected_at = tm, ti_rationale = why, ti_status = SELECTED,
    ti_superseded_intent = map_option ti_intent_id current, ti_schema_version = JInt 1\<rparr>"
  have n: "port_next_event_sequence P topic ?m s = (Inr ?n, s)"
    using next_sequence [of s topic ?m] j m by (simp add: next_of_def)
  have wf: "intent_wf i"
    using st cw why tm cur next_nonneg [of s topic ?m] j
    by (cases current) (auto simp: i_def intent_wf_def fsm_status_wf_def candidate_wf_def)
  have "schema_is 1 (PInt 1) = Inr (JInt 1)" using schema_is_view [of "JInt 1" 1 True] by simp
  moreover have "intent_status_of (PStr ''selected'') = Inr SELECTED"
    using intent_status_of_text [of SELECTED] by simp
  ultimately have new: "transition_intent_new
       (PStr (''transition-intent-selection:'' @ ?m @ '':'' @ show_int ?n))
       (PStr ?m) (PInt (fs_plan_revision st)) (PInt (fs_statechart_revision st))
       (PStr (fs_active_state st)) (PStr (tc_target c)) (proxied (JObj (tc_transition_context c)))
       (PInt (fs_state_entry_revision st)) (PInt ?n) (view b tm) (PStr why) (PStr ''selected'')
       (case current of None \<Rightarrow> PNone | Some i \<Rightarrow> PStr (ti_intent_id i)) (PInt 1) = Inr i"
    using wf cw(2)
    by (cases current) (auto simp: transition_intent_new_def i_def intent_wf_def optional_def)
  have sel: "is_selected i" "matches_status i st" "ti_target_state i = t"
    "jobj_eq (ti_condition i) (tc_transition_context c)"
    using c cw by (simp_all add: is_selected_def matches_status_def i_def candidate_wf_def)
  from publish_intent_ok [OF j wf] obtain s2 where p: "publish_intent P topic i s = (Inr i, s2)"
    "journal topic s2" "latest_intent P topic ?m s2 = (Inr (Some (floated i)), s2)" by (auto simp: i_def)
  have "new_selection P topic st c (PStr why) (view b tm) current s = (Inr i, s2)"
    unfolding new_selection_def bindS_Inr [where m = "port_next_event_sequence P topic ?m" and s = s, OF n]
      bindS_liftE new by (simp add: p(1))
  with wf sel p show ?thesis by blast
qed

lemma select_intent_ok:
  assumes j: "journal topic s" and st: "fsm_status_wf st" and c: "exact_candidate st t = Inr c"
    and why: "nonblank why" and tm: "timestamp_wf tm"
  shows "\<exists>i s'. select_intent P topic st t (PStr why) (view b tm) s = (Inr i, s') \<and> journal topic s' \<and>
    intent_wf i \<and> is_selected i \<and> matches_status i st \<and> ti_target_state i = t \<and>
    jobj_eq (ti_condition i) (tc_transition_context c) \<and>
    latest_intent P topic (fs_mission_id st) s' = (Inr (Some (floated i)), s')"
proof -
  have sel: "select_intent P topic st t (PStr why) (view b tm) s = (case current of
       None \<Rightarrow> new_selection P topic st c (PStr why) (view b tm) None s1
     | Some i \<Rightarrow>
         if ti_target_state i = tc_target c \<and> jobj_eq (ti_condition i) (tc_transition_context c)
         then (Inr i, s1) else new_selection P topic st c (PStr why) (view b tm) (Some i) s1)"
    if "current_intent P topic st True s = (Inr current, s1)" for current s1
    unfolding select_intent_def bindS_liftE c sum.case
      bindS_Inr [where m = "current_intent P topic st True" and s = s, OF that]
    by (simp split: option.split)
  from current_intent_cases [OF j, of st True] show ?thesis
  proof (elim disjE exE conjE)
    fix i assume i: "current_intent P topic st True s = (Inr (Some i), s)" "intent_wf i" "floated i = i"
      "is_selected i" "matches_status i st" "latest_intent P topic (fs_mission_id st) s = (Inr (Some i), s)"
    show ?thesis
    proof (cases "ti_target_state i = tc_target c \<and> jobj_eq (ti_condition i) (tc_transition_context c)")
      case True
      with sel [OF i(1)] i(2-6) exact_candidate_Inr [OF c] j show ?thesis by simp
    next
      case False
      have "opt_all (\<lambda>i. nonblank (ti_intent_id i)) (Some i)" using i(2) by (simp add: intent_wf_def)
      note new = new_selection_ok [OF j st c why tm this, of b]
      have "select_intent P topic st t (PStr why) (view b tm) s =
          new_selection P topic st c (PStr why) (view b tm) (Some i) s"
        by (simp only: sel [OF i(1)] option.case if_not_P [OF False])
      with new show ?thesis by simp
    qed
  next
    fix s1 assume s1: "current_intent P topic st True s = (Inr None, s1)" "inv s1" "nonblank topic"
      "journal_inv stream used topic s1"
    then have "journal topic s1" by simp
    from new_selection_ok [OF this st c why tm, of None b] show ?thesis
      unfolding sel [OF s1(1)] by simp
  qed
qed

lemma consume_intent_ok:
  assumes j: "journal topic s" and i: "intent_wf i" "is_selected i"
    and l: "latest_intent P topic (ti_mission_id i) s = (Inr (Some (floated i)), s)"
  shows "\<exists>s'. consume_intent P topic i s = (Inr ((floated i)\<lparr>ti_status := CONSUMED\<rparr>), s') \<and> journal topic s' \<and>
    latest_intent P topic (ti_mission_id i) s' = (Inr (Some ((floated i)\<lparr>ti_status := CONSUMED\<rparr>)), s')"
proof -
  have f: "floated ((floated i)\<lparr>ti_status := CONSUMED\<rparr>) = (floated i)\<lparr>ti_status := CONSUMED\<rparr>"
    by (simp add: floated_def)
  from publish_intent_ok [OF j with_status_wf [OF floated_wf [OF i(1)], of CONSUMED]] obtain s' where
    "publish_intent P topic ((floated i)\<lparr>ti_status := CONSUMED\<rparr>) s = (Inr ((floated i)\<lparr>ti_status := CONSUMED\<rparr>), s')"
    "journal topic s'" "latest_intent P topic (ti_mission_id i) s' = (Inr (Some ((floated i)\<lparr>ti_status := CONSUMED\<rparr>)), s')"
    unfolding f by auto
  moreover have "consume_intent P topic i s = publish_intent P topic ((floated i)\<lparr>ti_status := CONSUMED\<rparr>) s"
    unfolding consume_intent_def bindS_Inr [where m = "latest_intent P topic (ti_mission_id i)" and s = s, OF l]
    using with_status_Inr [OF floated_wf [OF i(1)], of CONSUMED] i(2) by simp
  ultimately show ?thesis by metis
qed

end

section \<open>Properties\<close>

text \<open>C25: a selection becomes current. Over the in-process transport, selecting a target of a published
  status always succeeds when exactly one enabled candidate leads there; the intent that is returned
  is selected, names that target and the candidate's condition, is what the journal then reports as
  current for the status, and selecting the same target again returns it without a new event.\<close>

theorem select_makes_current:
  assumes "events_inv s" and "journal_inv stream_of event_used topic s" and "nonblank topic"
    and "fsm_status_wf st" and "exact_candidate st target = Inr c" and "nonblank why"
    and "timestamp_wf tm" and "timestamp_wf tm'"
  shows "\<exists>i s'. select_intent inprocess_events topic st target (PStr why) (thaw tm) s = (Inr i, s') \<and>
    is_selected i \<and> ti_target_state i = target \<and> jobj_eq (ti_condition i) (tc_transition_context c) \<and>
    current_intent inprocess_events topic st False s' = (Inr (Some (floated i)), s') \<and>
    select_intent inprocess_events topic st target (PStr why') (thaw tm') s' = (Inr (floated i), s') \<and>
    events_inv s' \<and> journal_inv stream_of event_used topic s'"
proof -
  from inproc.select_intent_ok [where topic = topic and s = s and b = False, OF _ assms(4-7)] assms(1-3) obtain i s' where
    i: "select_intent inprocess_events topic st target (PStr why) (thaw tm) s = (Inr i, s')"
      "events_inv s'" "journal_inv stream_of event_used topic s'" "is_selected i" "matches_status i st"
      "ti_target_state i = target" "jobj_eq (ti_condition i) (tc_transition_context c)"
      "latest_intent inprocess_events topic (fs_mission_id st) s' = (Inr (Some (floated i)), s')"
    by blast
  have cur: "current_intent inprocess_events topic st b s' = (Inr (Some (floated i)), s')" for b
    unfolding current_intent_def
      bindS_Inr [where m = "latest_intent inprocess_events topic (fs_mission_id st)" and s = s', OF i(8)]
    using i(4,5) by simp
  have "tc_target c = target" using exact_candidate_Inr [OF assms(5)] by simp
  then have "select_intent inprocess_events topic st target (PStr why') (thaw tm') s' = (Inr (floated i), s')"
    unfolding select_intent_def bindS_liftE assms(5) sum.case
      bindS_Inr [where m = "current_intent inprocess_events topic st True" and s = s', OF cur]
    using i(6,7) by simp
  with i cur show ?thesis by blast
qed

definition ex_status :: fsm_status where
  "ex_status = \<lparr>fs_mission_id = ''m1'', fs_plan_revision = 3, fs_statechart_revision = 3,
     fs_active_state = ''search'', fs_transition_candidates = [ex_candidate], fs_status = ''initialized'',
     fs_superseded_plan_revision = None, fs_last_applied_event = None, fs_schema_version = 1,
     fs_active_state_context = [(''n'', JInt 1)], fs_state_entry_revision = 1\<rparr>"

lemma ex_journal: "journal_inv stream_of event_used ''transition-intents'' initial_state"
  by (simp add: journal_inv_def owns_ids_def event_used_def initial_state_def readable_intents_def
      stream_of_def getd_def)

lemma ex_status_facts: "fsm_status_wf ex_status" "exact_candidate ex_status ''home'' = Inr ex_candidate"
  "timestamp_wf (JFloat 7)"
  by code_simp+

theorem select_makes_current_witness:
  "\<exists>i s'. select_intent inprocess_events ''transition-intents'' ex_status ''home'' (PStr ''done'') (PFloat (Fin 7))
     initial_state = (Inr i, s') \<and> ti_target_state i = ''home''"
  using select_makes_current [where why = "''done''", OF events_inv_initial ex_journal _ ex_status_facts(1,2) _ ex_status_facts(3,3)]
  by fastforce

text \<open>An intent is consumed once. Consuming the current selection records it as consumed; from then
  on no intent is current for any status of the mission, and consuming it again is refused.\<close>

theorem consume_is_final:
  assumes "events_inv s" and "journal_inv stream_of event_used topic s" and "nonblank topic"
    and "fsm_status_wf st" and "current_intent inprocess_events topic st False s = (Inr (Some i), s)"
    and "fs_mission_id st' = ti_mission_id i"
  shows "\<exists>s'. consume_intent inprocess_events topic i s = (Inr (i\<lparr>ti_status := CONSUMED\<rparr>), s') \<and>
    current_intent inprocess_events topic st' b s' = (Inr None, s') \<and>
    consume_intent inprocess_events topic i s' = (Inl (ValueError NotCurrent), s')"
proof -
  from inproc.current_intent_cases [where topic = topic and s = s and st = st and b = False] assms(1-3,5) have
    i: "intent_wf i" "floated i = i" "is_selected i"
      "latest_intent inprocess_events topic (fs_mission_id st) s = (Inr (Some i), s)"
    and m: "ti_mission_id i = fs_mission_id st"
    by (auto simp: matches_status_def)
  from inproc.consume_intent_ok [where topic = topic and s = s, OF _ i(1,3)] assms(1-3) i(2,4) m obtain s' where
    s': "consume_intent inprocess_events topic i s = (Inr (i\<lparr>ti_status := CONSUMED\<rparr>), s')"
      "latest_intent inprocess_events topic (ti_mission_id i) s' = (Inr (Some (i\<lparr>ti_status := CONSUMED\<rparr>)), s')"
    by auto
  have "current_intent inprocess_events topic st' b s' = (Inr None, s')"
    unfolding current_intent_def assms(6)
      bindS_Inr [where m = "latest_intent inprocess_events topic (ti_mission_id i)" and s = s', OF s'(2)]
    by (simp add: is_selected_def)
  moreover have "consume_intent inprocess_events topic i s' = (Inl (ValueError NotCurrent), s')"
    unfolding consume_intent_def
      bindS_Inr [where m = "latest_intent inprocess_events topic (ti_mission_id i)" and s = s', OF s'(2)]
    by (simp add: is_selected_def)
  ultimately show ?thesis using s'(1) by blast
qed

definition ex_selected :: "(exn + transition_intent) \<times> transport_state" where
  "ex_selected = select_intent inprocess_events ''transition-intents'' ex_status ''home'' (PStr ''done'')
     (PFloat (Fin 7)) initial_state"

theorem consume_is_final_witness:
  "\<exists>s'. consume_intent inprocess_events ''transition-intents'' (projr (fst ex_selected)) (snd ex_selected) =
     (Inr ((projr (fst ex_selected))\<lparr>ti_status := CONSUMED\<rparr>), s')"
proof -
  from inproc.select_intent_ok [where topic = "''transition-intents''" and s = initial_state and why = "''done''" and b = False,
      OF _ ex_status_facts(1,2) _ ex_status_facts(3)]
  obtain i s' where i: "ex_selected = (Inr i, s')" "events_inv s'" "journal_inv stream_of event_used ''transition-intents'' s'"
    using events_inv_initial ex_journal by (auto simp: ex_selected_def)
  have c: "current_intent inprocess_events ''transition-intents'' ex_status False (snd ex_selected) =
      (Inr (Some (projr (fst ex_selected))), snd ex_selected)"
    by code_simp
  have "fs_mission_id ex_status = ti_mission_id (projr (fst ex_selected))" by code_simp
  note final = consume_is_final [where b = False, OF _ _ _ ex_status_facts(1) c this]
  have e: "snd ex_selected = s'" by (simp add: i(1))
  from i(2,3) have "events_inv (snd ex_selected)"
    "journal_inv stream_of event_used ''transition-intents'' (snd ex_selected)"
    unfolding e by simp_all
  moreover have "nonblank ''transition-intents''" by code_simp
  ultimately show ?thesis using final by blast
qed

text \<open>Intent records survive the wire. A transition intent and the focused view given to the
  Maneuver agent are recovered from their dictionary form, frozen or thawed, with the selection time
  as a float.\<close>

theorem intent_round_trip:
  "(intent_wf i \<longrightarrow> transition_intent_from_dict (view b (transition_intent_to_dict i)) = Inr (floated i)) \<and>
   (maneuver_context_wf x \<longrightarrow> maneuver_context_from_dict (view b (maneuver_context_to_dict x)) =
      Inr (x\<lparr>mx_transition_intent := map_option floated (mx_transition_intent x)\<rparr>))"
  using transition_intent_view maneuver_context_view by blast

theorem intent_round_trip_witness:
  "transition_intent_from_dict (thaw (transition_intent_to_dict (projr (fst ex_selected)))) =
     Inr (floated (projr (fst ex_selected)))"
proof -
  have "intent_wf (projr (fst ex_selected))" by code_simp
  then show ?thesis using intent_round_trip [of "projr (fst ex_selected)" False undefined] by blast
qed

end
