(* ===== verification/Human_Decisions.thy ===== *)
theory Human_Decisions
  imports PyValue
begin

text \<open>
  The operator-decision contracts of \<open>src/onr/contracts/human_decision.py\<close>: the checkpoint of a paused
  Mission Run, the request put to the operator, the operator's decision and its resolution, with
  their checks and their canonical JSON forms. The schema version of these records is the constant 1.
\<close>

section \<open>Enumerations\<close>

datatype decision_category =
  TRANSLATION_REPAIR_EXHAUSTED | UNSOLVABLE | INSUFFICIENT_ENVIRONMENT_DATA | TIMEOUT

fun category_text :: "decision_category \<Rightarrow> string" where
  "category_text TRANSLATION_REPAIR_EXHAUSTED = ''translation_repair_exhausted''"
| "category_text UNSOLVABLE = ''unsolvable''"
| "category_text INSUFFICIENT_ENVIRONMENT_DATA = ''insufficient_environment_data''"
| "category_text TIMEOUT = ''timeout''"

definition category_of :: "pyval \<Rightarrow> decision_category result" where
  "category_of v = enum_of category_text
     [TRANSLATION_REPAIR_EXHAUSTED, UNSOLVABLE, INSUFFICIENT_ENVIRONMENT_DATA, TIMEOUT] v"

lemma category_of_text [simp]: "category_of (PStr (category_text c)) = Inr c"
  by (cases c) (simp_all add: category_of_def enum_of_def)

datatype decision_action =
  RETRY_TRANSLATION | REVISE_MISSION_INTENT | WAIT_FOR_ENVIRONMENT_DATA | RETRY_PLANNER | END_MISSION_RUN

fun action_text :: "decision_action \<Rightarrow> string" where
  "action_text RETRY_TRANSLATION = ''retry_translation''"
| "action_text REVISE_MISSION_INTENT = ''revise_mission_intent''"
| "action_text WAIT_FOR_ENVIRONMENT_DATA = ''wait_for_environment_data''"
| "action_text RETRY_PLANNER = ''retry_planner''"
| "action_text END_MISSION_RUN = ''end_mission_run''"

definition action_of :: "pyval \<Rightarrow> decision_action result" where
  "action_of v = enum_of action_text [RETRY_TRANSLATION, REVISE_MISSION_INTENT,
     WAIT_FOR_ENVIRONMENT_DATA, RETRY_PLANNER, END_MISSION_RUN] v"

lemma action_of_text [simp]: "action_of (PStr (action_text a)) = Inr a"
  by (cases a) (simp_all add: action_of_def enum_of_def)

lemma mapE_action_of_text [simp]: "mapE action_of (map (\<lambda>a. PStr (action_text a)) as) = Inr as"
  by (induction as) simp_all

datatype disposition = RESUME | END

section \<open>Reading an object from JSON\<close>

text \<open>\<open>set(value) != expected or value["schema_version"] != 1\<close>.\<close>

definition versioned :: "string list \<Rightarrow> pyitems \<Rightarrow> unit result" where
  "versioned fs kvs = guardE (has_fields fs kvs \<and> equals_int (item kvs ''schema_version'') 1)
     (ValueError FieldMismatch)"

section \<open>Run Checkpoint\<close>

record run_checkpoint =
  cp_checkpoint_id :: string
  cp_mission_id :: string
  cp_mission_run_id :: string
  cp_continuation :: string

definition run_checkpoint_new :: "pyval \<Rightarrow> pyval \<Rightarrow> pyval \<Rightarrow> pyval \<Rightarrow> run_checkpoint result" where
  "run_checkpoint_new checkpoint_id mission_id mission_run_id continuation =
     bindE (text_of checkpoint_id) (\<lambda>cid.
     bindE (text_of mission_id) (\<lambda>mid.
     bindE (text_of mission_run_id) (\<lambda>rid.
     bindE (text_of continuation) (\<lambda>cont.
       Inr \<lparr>cp_checkpoint_id = cid, cp_mission_id = mid, cp_mission_run_id = rid,
         cp_continuation = cont\<rparr>))))"

definition run_checkpoint_to_dict :: "run_checkpoint \<Rightarrow> json" where
  "run_checkpoint_to_dict c = JObj [
     (''schema_version'', JInt 1),
     (''checkpoint_id'', JStr (cp_checkpoint_id c)),
     (''mission_id'', JStr (cp_mission_id c)),
     (''mission_run_id'', JStr (cp_mission_run_id c)),
     (''continuation'', JStr (cp_continuation c))]"

definition run_checkpoint_json :: "run_checkpoint \<Rightarrow> json" where
  "run_checkpoint_json c = canonical (run_checkpoint_to_dict c)"

definition run_checkpoint_from_dict :: "pyitems \<Rightarrow> run_checkpoint result" where
  "run_checkpoint_from_dict kvs =
     bindE (versioned [''schema_version'', ''checkpoint_id'', ''mission_id'', ''mission_run_id'',
       ''continuation''] kvs) (\<lambda>_.
     run_checkpoint_new (item kvs ''checkpoint_id'') (item kvs ''mission_id'')
       (item kvs ''mission_run_id'') (item kvs ''continuation''))"

definition run_checkpoint_from_json :: "pyval option \<Rightarrow> run_checkpoint result" where
  "run_checkpoint_from_json decoded = loaded_object run_checkpoint_from_dict decoded"

definition run_checkpoint_wf :: "run_checkpoint \<Rightarrow> bool" where
  "run_checkpoint_wf c \<longleftrightarrow> nonblank (cp_checkpoint_id c) \<and> nonblank (cp_mission_id c) \<and>
     nonblank (cp_mission_run_id c) \<and> nonblank (cp_continuation c)"

lemma run_checkpoint_new_wf: "run_checkpoint_new a b c d = Inr r \<Longrightarrow> run_checkpoint_wf r"
  by (auto simp: run_checkpoint_new_def run_checkpoint_wf_def err_simps)

lemma run_checkpoint_json_read:
  "run_checkpoint_wf c \<Longrightarrow> run_checkpoint_from_json (Some (thaw (run_checkpoint_json c))) = Inr c"
  by (simp add: run_checkpoint_from_json_def loaded_object_def run_checkpoint_from_dict_def versioned_def
      run_checkpoint_json_def run_checkpoint_to_dict_def run_checkpoint_new_def run_checkpoint_wf_def
      map_of_canonical_obj insert_commute)

section \<open>Human Decision Request\<close>

record decision_request =
  dr_request_id :: string
  dr_mission_id :: string
  dr_mission_run_id :: string
  dr_category :: decision_category
  dr_correlation_id :: string
  dr_checkpoint_id :: string
  dr_evidence_references :: "string list"
  dr_permitted_actions :: "decision_action list"

definition decision_request_new ::
  "pyval \<Rightarrow> pyval \<Rightarrow> pyval \<Rightarrow> pyval \<Rightarrow> pyval \<Rightarrow> pyval \<Rightarrow> pyval list \<Rightarrow> pyval list \<Rightarrow>
   decision_request result" where
  "decision_request_new request_id mission_id mission_run_id category correlation_id checkpoint_id
     evidence_references permitted_actions =
     bindE (text_of request_id) (\<lambda>qid.
     bindE (text_of mission_id) (\<lambda>mid.
     bindE (text_of mission_run_id) (\<lambda>rid.
     bindE (text_of correlation_id) (\<lambda>cor.
     bindE (text_of checkpoint_id) (\<lambda>cid.
     bindE (guardE (evidence_references \<noteq> []) (ValueError BlankText)) (\<lambda>_.
     bindE (mapE text_of evidence_references) (\<lambda>refs.
     bindE (mapE action_of permitted_actions) (\<lambda>actions.
     bindE (guardE (actions \<noteq> [] \<and> distinct actions) (ValueError NotUnique)) (\<lambda>_.
     bindE (category_of category) (\<lambda>cat.
       Inr \<lparr>dr_request_id = qid, dr_mission_id = mid, dr_mission_run_id = rid, dr_category = cat,
         dr_correlation_id = cor, dr_checkpoint_id = cid, dr_evidence_references = refs,
         dr_permitted_actions = actions\<rparr>))))))))))"

definition decision_request_to_dict :: "decision_request \<Rightarrow> json" where
  "decision_request_to_dict r = JObj [
     (''schema_version'', JInt 1),
     (''request_id'', JStr (dr_request_id r)),
     (''mission_id'', JStr (dr_mission_id r)),
     (''mission_run_id'', JStr (dr_mission_run_id r)),
     (''category'', JStr (category_text (dr_category r))),
     (''correlation_id'', JStr (dr_correlation_id r)),
     (''checkpoint_id'', JStr (dr_checkpoint_id r)),
     (''evidence_references'', JArr (map JStr (dr_evidence_references r))),
     (''permitted_actions'', JArr (map (\<lambda>a. JStr (action_text a)) (dr_permitted_actions r)))]"

definition decision_request_json :: "decision_request \<Rightarrow> json" where
  "decision_request_json r = canonical (decision_request_to_dict r)"

definition decision_request_from_dict :: "pyitems \<Rightarrow> decision_request result" where
  "decision_request_from_dict kvs =
     bindE (versioned [''schema_version'', ''request_id'', ''mission_id'', ''mission_run_id'', ''category'',
       ''correlation_id'', ''checkpoint_id'', ''evidence_references'', ''permitted_actions''] kvs) (\<lambda>_.
     bindE (iterate (item kvs ''evidence_references'')) (\<lambda>refs.
     bindE (iterate (item kvs ''permitted_actions'')) (\<lambda>actions.
     decision_request_new (item kvs ''request_id'') (item kvs ''mission_id'')
       (item kvs ''mission_run_id'') (item kvs ''category'') (item kvs ''correlation_id'')
       (item kvs ''checkpoint_id'') refs actions)))"

definition decision_request_from_json :: "pyval option \<Rightarrow> decision_request result" where
  "decision_request_from_json decoded = loaded_object decision_request_from_dict decoded"

definition decision_request_wf :: "decision_request \<Rightarrow> bool" where
  "decision_request_wf r \<longleftrightarrow> nonblank (dr_request_id r) \<and> nonblank (dr_mission_id r) \<and>
     nonblank (dr_mission_run_id r) \<and> nonblank (dr_correlation_id r) \<and> nonblank (dr_checkpoint_id r) \<and>
     dr_evidence_references r \<noteq> [] \<and> (\<forall>s \<in> set (dr_evidence_references r). nonblank s) \<and>
     dr_permitted_actions r \<noteq> [] \<and> distinct (dr_permitted_actions r)"

lemma decision_request_new_wf:
  "decision_request_new a b c d e f g h = Inr r \<Longrightarrow> decision_request_wf r"
  by (auto simp: decision_request_new_def decision_request_wf_def err_simps dest!: mapE_text_of_Inr)

lemma decision_request_json_read:
  "decision_request_wf r \<Longrightarrow> decision_request_from_json (Some (thaw (decision_request_json r))) = Inr r"
  by (simp add: decision_request_from_json_def loaded_object_def decision_request_from_dict_def versioned_def
      decision_request_json_def decision_request_to_dict_def decision_request_new_def decision_request_wf_def
      map_of_canonical_obj mapE_text_of_PStr comp_def insert_commute)

lemma decision_request_json_inject:
  "decision_request_wf a \<Longrightarrow> decision_request_wf b \<Longrightarrow> decision_request_json a = decision_request_json b \<Longrightarrow> a = b"
  using decision_request_json_read by (metis sum.inject(2))

section \<open>Human Decision\<close>

record human_decision =
  hd_decision_id :: string
  hd_request_id :: string
  hd_mission_id :: string
  hd_mission_run_id :: string
  hd_action :: decision_action

definition human_decision_new :: "pyval \<Rightarrow> pyval \<Rightarrow> pyval \<Rightarrow> pyval \<Rightarrow> pyval \<Rightarrow> human_decision result" where
  "human_decision_new decision_id request_id mission_id mission_run_id action =
     bindE (text_of decision_id) (\<lambda>did.
     bindE (text_of request_id) (\<lambda>qid.
     bindE (text_of mission_id) (\<lambda>mid.
     bindE (text_of mission_run_id) (\<lambda>rid.
     bindE (action_of action) (\<lambda>act.
       Inr \<lparr>hd_decision_id = did, hd_request_id = qid, hd_mission_id = mid, hd_mission_run_id = rid,
         hd_action = act\<rparr>)))))"

definition human_decision_to_dict :: "human_decision \<Rightarrow> json" where
  "human_decision_to_dict d = JObj [
     (''schema_version'', JInt 1),
     (''decision_id'', JStr (hd_decision_id d)),
     (''request_id'', JStr (hd_request_id d)),
     (''mission_id'', JStr (hd_mission_id d)),
     (''mission_run_id'', JStr (hd_mission_run_id d)),
     (''action'', JStr (action_text (hd_action d)))]"

definition human_decision_json :: "human_decision \<Rightarrow> json" where
  "human_decision_json d = canonical (human_decision_to_dict d)"

definition human_decision_from_dict :: "pyitems \<Rightarrow> human_decision result" where
  "human_decision_from_dict kvs =
     bindE (versioned [''schema_version'', ''decision_id'', ''request_id'', ''mission_id'',
       ''mission_run_id'', ''action''] kvs) (\<lambda>_.
     human_decision_new (item kvs ''decision_id'') (item kvs ''request_id'') (item kvs ''mission_id'')
       (item kvs ''mission_run_id'') (item kvs ''action''))"

definition human_decision_from_json :: "pyval option \<Rightarrow> human_decision result" where
  "human_decision_from_json decoded = loaded_object human_decision_from_dict decoded"

definition human_decision_wf :: "human_decision \<Rightarrow> bool" where
  "human_decision_wf d \<longleftrightarrow> nonblank (hd_decision_id d) \<and> nonblank (hd_request_id d) \<and>
     nonblank (hd_mission_id d) \<and> nonblank (hd_mission_run_id d)"

lemma human_decision_new_wf: "human_decision_new a b c d e = Inr r \<Longrightarrow> human_decision_wf r"
  by (auto simp: human_decision_new_def human_decision_wf_def err_simps)

lemma human_decision_json_read:
  "human_decision_wf d \<Longrightarrow> human_decision_from_json (Some (thaw (human_decision_json d))) = Inr d"
  by (simp add: human_decision_from_json_def loaded_object_def human_decision_from_dict_def versioned_def
      human_decision_json_def human_decision_to_dict_def human_decision_new_def human_decision_wf_def
      map_of_canonical_obj insert_commute)

lemma human_decision_json_inject:
  "human_decision_wf a \<Longrightarrow> human_decision_wf b \<Longrightarrow> human_decision_json a = human_decision_json b \<Longrightarrow> a = b"
  using human_decision_json_read by (metis sum.inject(2))

section \<open>Resolution\<close>

record decision_resolution =
  rs_decision :: human_decision
  rs_disposition :: disposition
  rs_checkpoint :: "run_checkpoint option"

definition decision_resolution_new ::
  "human_decision \<Rightarrow> disposition \<Rightarrow> run_checkpoint option \<Rightarrow> decision_resolution result" where
  "decision_resolution_new decision dispo checkpoint =
     bindE (guardE (\<not> (dispo = RESUME \<and> checkpoint = None)) (ValueError Missing)) (\<lambda>_.
     bindE (guardE (\<not> (dispo = END \<and> checkpoint \<noteq> None)) (ValueError NotPermitted)) (\<lambda>_.
       Inr \<lparr>rs_decision = decision, rs_disposition = dispo, rs_checkpoint = checkpoint\<rparr>))"

end
