(* ===== verification/Decision_Coordinator.thy ===== *)
theory Decision_Coordinator
  imports Human_Decisions
begin

text \<open>
  \<open>HumanDecisionCoordinator\<close> of \<open>src/onr/application/human_decisions.py\<close> over the store interface of
  \<open>src/onr/ports/human_decisions.py\<close>: pausing a run with a request to the operator, and resolving the
  operator's decision. The locale states what the coordinator needs of a store.
\<close>

section \<open>The store interface\<close>

record 's decision_store =
  ds_save_pause :: "decision_request \<Rightarrow> run_checkpoint \<Rightarrow> (unit, 's) eff"
  ds_load_request_by_id :: "string \<Rightarrow> (decision_request option, 's) eff"
  ds_load_checkpoint :: "string \<Rightarrow> string \<Rightarrow> (run_checkpoint option, 's) eff"
  ds_save_decision :: "human_decision \<Rightarrow> (human_decision, 's) eff"

section \<open>The coordinator\<close>

fun actions_for :: "decision_category \<Rightarrow> decision_action list" where
  "actions_for TRANSLATION_REPAIR_EXHAUSTED = [RETRY_TRANSLATION, END_MISSION_RUN]"
| "actions_for UNSOLVABLE = [REVISE_MISSION_INTENT, END_MISSION_RUN]"
| "actions_for INSUFFICIENT_ENVIRONMENT_DATA = [WAIT_FOR_ENVIRONMENT_DATA, END_MISSION_RUN]"
| "actions_for TIMEOUT = [RETRY_PLANNER, END_MISSION_RUN]"

definition resume_actions :: "decision_action list" where
  "resume_actions = [RETRY_TRANSLATION, REVISE_MISSION_INTENT, WAIT_FOR_ENVIRONMENT_DATA, RETRY_PLANNER]"

definition request_id_for :: "string \<Rightarrow> decision_category \<Rightarrow> string" where
  "request_id_for run category = ''human-decision:'' @ run @ '':'' @ category_text category"

definition pause :: "'s decision_store \<Rightarrow> pyval \<Rightarrow> run_checkpoint \<Rightarrow> pyval \<Rightarrow> pyval list \<Rightarrow>
  (decision_request, 's) eff" where
  "pause D category checkpoint correlation_id evidence_references =
     bindS (liftE (category_of category)) (\<lambda>cat.
     bindS (liftE (decision_request_new (PStr (request_id_for (cp_mission_run_id checkpoint) cat))
       (PStr (cp_mission_id checkpoint)) (PStr (cp_mission_run_id checkpoint)) (PStr (category_text cat))
       correlation_id (PStr (cp_checkpoint_id checkpoint)) evidence_references
       (map (\<lambda>a. PStr (action_text a)) (actions_for cat)))) (\<lambda>request.
     bindS (ds_save_pause D request checkpoint) (\<lambda>_. returnS request)))"

text \<open>The outcome is given by its text, \<open>str(outcome)\<close>.\<close>

definition pause_for_outcome :: "'s decision_store \<Rightarrow> string \<Rightarrow> run_checkpoint \<Rightarrow> pyval \<Rightarrow> pyval list \<Rightarrow>
  (decision_request, 's) eff" where
  "pause_for_outcome D outcome checkpoint correlation_id evidence_references =
     (case map_of [(''repair_exhausted'', TRANSLATION_REPAIR_EXHAUSTED), (''unsolvable'', UNSOLVABLE),
         (''insufficient_environment_data'', INSUFFICIENT_ENVIRONMENT_DATA), (''timeout'', TIMEOUT)] outcome of
        None \<Rightarrow> raiseS (ValueError NotPermitted)
      | Some cat \<Rightarrow> pause D (PStr (category_text cat)) checkpoint correlation_id evidence_references)"

definition record_decision :: "'s decision_store \<Rightarrow> human_decision \<Rightarrow> (decision_resolution, 's) eff" where
  "record_decision D d =
     bindS (ds_load_request_by_id D (hd_request_id d)) (\<lambda>found. case found of
       None \<Rightarrow> raiseS (ValueError Missing)
     | Some request \<Rightarrow>
         bindS (guardS (hd_mission_id d = dr_mission_id request \<and>
             hd_mission_run_id d = dr_mission_run_id request) (ValueError MissionMismatch)) (\<lambda>_.
         bindS (guardS (hd_action d \<in> set (dr_permitted_actions request)) (ValueError NotPermitted)) (\<lambda>_.
         bindS (ds_save_decision D d) (\<lambda>recorded.
         if hd_action recorded \<in> set resume_actions
         then bindS (ds_load_checkpoint D (dr_mission_id request) (dr_mission_run_id request)) (\<lambda>checkpoint.
           bindS (guardS (case checkpoint of None \<Rightarrow> False
               | Some c \<Rightarrow> cp_checkpoint_id c = dr_checkpoint_id request) (RuntimeError Unavailable)) (\<lambda>_.
           liftE (decision_resolution_new recorded RESUME checkpoint)))
         else liftE (decision_resolution_new recorded END None)))))"

section \<open>What a store promises\<close>

text \<open>
  \<open>request_at\<close>, \<open>checkpoint_at\<close> and \<open>decision_at\<close> are the records a store holds for a run. They are
  immutable: saving a different record for a run that has one is refused.
\<close>

type_synonym run_key = "string \<times> string"

abbreviation request_key :: "decision_request \<Rightarrow> run_key" where
  "request_key q \<equiv> (dr_mission_id q, dr_mission_run_id q)"

abbreviation decision_key :: "human_decision \<Rightarrow> run_key" where
  "decision_key d \<equiv> (hd_mission_id d, hd_mission_run_id d)"

abbreviation checkpoint_key :: "run_checkpoint \<Rightarrow> run_key" where
  "checkpoint_key c \<equiv> (cp_mission_id c, cp_mission_run_id c)"

locale run_store =
  fixes D :: "'s decision_store"
    and inv :: "'s \<Rightarrow> bool"
    and named :: "run_key \<Rightarrow> bool"
    and request_at :: "'s \<Rightarrow> run_key \<Rightarrow> decision_request option"
    and checkpoint_at :: "'s \<Rightarrow> run_key \<Rightarrow> run_checkpoint option"
    and decision_at :: "'s \<Rightarrow> run_key \<Rightarrow> human_decision option"
  assumes save_pause: "inv s \<Longrightarrow> named (request_key q) \<Longrightarrow> decision_request_wf q \<Longrightarrow> run_checkpoint_wf c \<Longrightarrow>
      checkpoint_key c = request_key q \<Longrightarrow> request_at s (request_key q) \<in> {None, Some q} \<Longrightarrow>
      checkpoint_at s (request_key q) \<in> {None, Some c} \<Longrightarrow>
      \<exists>s'. ds_save_pause D q c s = (Inr (), s') \<and> inv s' \<and>
        request_at s' = (request_at s)(request_key q \<mapsto> q) \<and>
        checkpoint_at s' = (checkpoint_at s)(request_key q \<mapsto> c) \<and> decision_at s' = decision_at s"
    and load_request_by_id: "inv s \<Longrightarrow> \<exists>found. ds_load_request_by_id D i s = (Inr found, s) \<and>
      (case found of
         None \<Rightarrow> \<forall>k q. named k \<longrightarrow> request_at s k = Some q \<longrightarrow> dr_request_id q \<noteq> i
       | Some q \<Rightarrow> dr_request_id q = i \<and> request_at s (request_key q) = Some q)"
    and load_checkpoint: "inv s \<Longrightarrow> ds_load_checkpoint D (fst k) (snd k) s = (Inr (checkpoint_at s k), s)"
    and save_decision: "inv s \<Longrightarrow> named (decision_key d) \<Longrightarrow> human_decision_wf d \<Longrightarrow>
      (case decision_at s (decision_key d) of
         None \<Rightarrow> \<exists>s'. ds_save_decision D d s = (Inr d, s') \<and> inv s' \<and> request_at s' = request_at s \<and>
           checkpoint_at s' = checkpoint_at s \<and> decision_at s' = (decision_at s)(decision_key d \<mapsto> d)
       | Some d' \<Rightarrow> ds_save_decision D d s = (if d' = d then Inr d else Inl (ValueError Conflict), s))"
    and held: "inv s \<Longrightarrow> request_at s k = Some q \<Longrightarrow> request_key q = k"

text \<open>What \<open>record\<close> makes of a recorded decision.\<close>

definition resolution_for :: "human_decision \<Rightarrow> run_checkpoint \<Rightarrow> decision_resolution" where
  "resolution_for d c = (if hd_action d \<in> set resume_actions
     then \<lparr>rs_decision = d, rs_disposition = RESUME, rs_checkpoint = Some c\<rparr>
     else \<lparr>rs_decision = d, rs_disposition = END, rs_checkpoint = None\<rparr>)"

text \<open>The decision answers the request of its run, and no other run has a request of the same name.\<close>

definition answers :: "human_decision \<Rightarrow> decision_request \<Rightarrow> (run_key \<Rightarrow> decision_request option) \<Rightarrow> bool" where
  "answers d q requests \<longleftrightarrow> hd_request_id d = dr_request_id q \<and> decision_key d = request_key q \<and>
     hd_action d \<in> set (dr_permitted_actions q) \<and>
     (\<forall>k q'. requests k = Some q' \<longrightarrow> dr_request_id q' = dr_request_id q \<longrightarrow> k = request_key q)"

context run_store
begin

lemma load_request_unique:
  assumes "inv s" and "named (request_key q)" and "request_at s (request_key q) = Some q"
    and "answers d q (request_at s)"
  shows "ds_load_request_by_id D (hd_request_id d) s = (Inr (Some q), s)"
proof -
  from load_request_by_id [OF assms(1), of "hd_request_id d"] obtain found where
    f: "ds_load_request_by_id D (hd_request_id d) s = (Inr found, s)"
      "case found of None \<Rightarrow> \<forall>k q. named k \<longrightarrow> request_at s k = Some q \<longrightarrow> dr_request_id q \<noteq> hd_request_id d
       | Some q \<Rightarrow> dr_request_id q = hd_request_id d \<and> request_at s (request_key q) = Some q"
    by blast
  show ?thesis
  proof (cases found)
    case None
    with f(2) have "dr_request_id q \<noteq> hd_request_id d" using assms(2,3) by simp
    with assms(4) show ?thesis by (simp add: answers_def)
  next
    case (Some q')
    with f(2) have q': "dr_request_id q' = hd_request_id d" "request_at s (request_key q') = Some q'" by simp_all
    from assms(4) have u: "\<forall>k q'. request_at s k = Some q' \<longrightarrow> dr_request_id q' = dr_request_id q \<longrightarrow> k = request_key q"
      and i: "hd_request_id d = dr_request_id q" unfolding answers_def by blast+
    from q'(1) i have n: "dr_request_id q' = dr_request_id q" by (rule trans)
    have "request_key q' = request_key q" by (rule u [rule_format, OF q'(2) n])
    with q'(2) have "request_at s (request_key q) = Some q'" by (simp only:)
    with assms(3) have "q' = q" by simp
    with Some f(1) show ?thesis by simp
  qed
qed

lemma record_decision_new:
  assumes "inv s" and "named (request_key q)" and "request_at s (request_key q) = Some q"
    and "checkpoint_at s (request_key q) = Some c" and "cp_checkpoint_id c = dr_checkpoint_id q"
    and "answers d q (request_at s)" and "human_decision_wf d" and "decision_at s (request_key q) = None"
  shows "\<exists>s'. record_decision D d s = (Inr (resolution_for d c), s') \<and> inv s' \<and>
    request_at s' = request_at s \<and> checkpoint_at s' = checkpoint_at s \<and>
    decision_at s' = (decision_at s)(request_key q \<mapsto> d)"
proof -
  have k: "hd_mission_id d = dr_mission_id q" "hd_mission_run_id d = dr_mission_run_id q"
    "hd_action d \<in> set (dr_permitted_actions q)" using assms(6) by (auto simp: answers_def)
  from save_decision [of s d] assms k obtain s' where s': "ds_save_decision D d s = (Inr d, s')" "inv s'"
    "request_at s' = request_at s" "checkpoint_at s' = checkpoint_at s"
    "decision_at s' = (decision_at s)(request_key q \<mapsto> d)" by auto
  from load_checkpoint [OF s'(2), of "request_key q"] s'(4) assms(4)
  have c: "ds_load_checkpoint D (dr_mission_id q) (dr_mission_run_id q) s' = (Inr (Some c), s')" by simp
  have "record_decision D d s = (Inr (resolution_for d c), s')"
    using assms(5) unfolding record_decision_def
      bindS_Inr [where m = "ds_load_request_by_id D (hd_request_id d)" and s = s, OF load_request_unique [OF assms(1-3,6)]]
    by (simp add: k bindS_Inr [where m = "ds_save_decision D d" and s = s, OF s'(1)]
        bindS_Inr [where m = "ds_load_checkpoint D (dr_mission_id q) (dr_mission_run_id q)" and s = s', OF c]
        resolution_for_def decision_resolution_new_def)
  with s' show ?thesis by blast
qed

lemma record_decision_again:
  assumes "inv s" and "named (request_key q)" and "request_at s (request_key q) = Some q"
    and "checkpoint_at s (request_key q) = Some c" and "cp_checkpoint_id c = dr_checkpoint_id q"
    and "answers d q (request_at s)" and "human_decision_wf d" and "decision_at s (request_key q) = Some d'"
  shows "record_decision D d s = (if d' = d then Inr (resolution_for d c) else Inl (ValueError Conflict), s)"
proof -
  have k: "hd_mission_id d = dr_mission_id q" "hd_mission_run_id d = dr_mission_run_id q"
    "hd_action d \<in> set (dr_permitted_actions q)" using assms(6) by (auto simp: answers_def)
  from save_decision [of s d] assms k
  have sd: "ds_save_decision D d s = (if d' = d then Inr d else Inl (ValueError Conflict), s)" by simp
  from load_checkpoint [OF assms(1), of "request_key q"] assms(4)
  have c: "ds_load_checkpoint D (dr_mission_id q) (dr_mission_run_id q) s = (Inr (Some c), s)" by simp
  show ?thesis
    using assms(5) unfolding record_decision_def
      bindS_Inr [where m = "ds_load_request_by_id D (hd_request_id d)" and s = s, OF load_request_unique [OF assms(1-3,6)]]
    by (simp add: k bindS_cases [of "ds_save_decision D d"] sd
        bindS_Inr [where m = "ds_load_checkpoint D (dr_mission_id q) (dr_mission_run_id q)" and s = s, OF c]
        resolution_for_def decision_resolution_new_def)
qed

lemma pause_ok:
  assumes "inv s" and "run_checkpoint_wf c" and "named (checkpoint_key c)" and "nonblank cor"
    and "refs \<noteq> []" and "\<forall>r \<in> set refs. nonblank r"
    and "request_at s (checkpoint_key c) = None" and "checkpoint_at s (checkpoint_key c) = None"
  shows "\<exists>q s'. pause D (PStr (category_text cat)) c (PStr cor) (map PStr refs) s = (Inr q, s') \<and> inv s' \<and>
    dr_request_id q = request_id_for (cp_mission_run_id c) cat \<and> request_key q = checkpoint_key c \<and>
    dr_permitted_actions q = actions_for cat \<and> dr_checkpoint_id q = cp_checkpoint_id c \<and> decision_request_wf q \<and>
    request_at s' = (request_at s)(checkpoint_key c \<mapsto> q) \<and>
    checkpoint_at s' = (checkpoint_at s)(checkpoint_key c \<mapsto> c) \<and> decision_at s' = decision_at s"
proof -
  have "actions_for cat \<noteq> [] \<and> distinct (actions_for cat)" by (cases cat) simp_all
  then have acts: "mapE action_of (map (\<lambda>a. PStr (action_text a)) (actions_for cat)) = Inr (actions_for cat)"
      "actions_for cat \<noteq> []" "distinct (actions_for cat)" by simp_all
  define q where "q = \<lparr>dr_request_id = request_id_for (cp_mission_run_id c) cat, dr_mission_id = cp_mission_id c,
    dr_mission_run_id = cp_mission_run_id c, dr_category = cat, dr_correlation_id = cor,
    dr_checkpoint_id = cp_checkpoint_id c, dr_evidence_references = refs,
    dr_permitted_actions = actions_for cat\<rparr>"
  have q: "decision_request_new
      (PStr (request_id_for (cp_mission_run_id c) cat)) (PStr (cp_mission_id c)) (PStr (cp_mission_run_id c))
      (PStr (category_text cat)) (PStr cor) (PStr (cp_checkpoint_id c)) (map PStr refs)
      (map (\<lambda>a. PStr (action_text a)) (actions_for cat)) = Inr q"
    using assms(2,4,5) mapE_text_of_PStr [OF assms(6)] acts
    by (simp add: decision_request_new_def run_checkpoint_wf_def request_id_for_def q_def)
  have f: "dr_request_id q = request_id_for (cp_mission_run_id c) cat" "request_key q = checkpoint_key c"
      "dr_permitted_actions q = actions_for cat" "dr_checkpoint_id q = cp_checkpoint_id c"
    by (simp_all add: q_def)
  have wf: "decision_request_wf q" by (rule decision_request_new_wf [OF q])
  have pre: "named (request_key q)" "checkpoint_key c = request_key q" "request_at s (request_key q) \<in> {None, Some q}"
      "checkpoint_at s (request_key q) \<in> {None, Some c}"
    unfolding f(2) using assms(3,7,8) by simp_all
  from save_pause [OF assms(1) pre(1) wf assms(2) pre(2-4)]
  obtain s' where s': "ds_save_pause D q c s = (Inr (), s')" "inv s'"
    "request_at s' = (request_at s)(checkpoint_key c \<mapsto> q)"
    "checkpoint_at s' = (checkpoint_at s)(checkpoint_key c \<mapsto> c)" "decision_at s' = decision_at s"
    unfolding f(2) by blast
  have "pause D (PStr (category_text cat)) c (PStr cor) (map PStr refs) s = (Inr q, s')"
    by (simp add: pause_def q bindS_Inr [where m = "ds_save_pause D q c" and s = s, OF s'(1)])
  with s'(2-5) f wf show ?thesis by blast
qed

end

end
