(* ===== verification/File_Names.thy ===== *)
theory File_Names
  imports Prelude
begin

text \<open>
  Names of files: identifiers are quoted by \<open>urllib.parse.quote\<close>, and sequence numbers are
  written with leading zeros so that the order of names is the order of numbers.
\<close>

section \<open>Quoted names\<close>

text \<open>\<open>urllib.parse.quote(s, safe="._-")\<close>: UTF-8 bytes that are not unreserved become \<open>%XX\<close>.\<close>

definition quote_safe :: "char \<Rightarrow> bool" where
  "quote_safe c \<longleftrightarrow> c \<in> set ''ABCDEFGHIJKLMNOPQRSTUVWXYZabcdefghijklmnopqrstuvwxyz0123456789_.-~''"

definition utf8_nat :: "nat \<Rightarrow> nat list" where
  "utf8_nat n = (if n < 128 then [n] else [192 + n div 64, 128 + n mod 64])"

definition utf8 :: "char \<Rightarrow> nat list" where
  "utf8 c = utf8_nat (of_char c)"

definition hex_digit :: "nat \<Rightarrow> char" where
  "hex_digit n = ''0123456789ABCDEF'' ! n"

definition percent :: "nat \<Rightarrow> string" where
  "percent n = [CHR ''%'', hex_digit (n div 16), hex_digit (n mod 16)]"

definition quote_char :: "char \<Rightarrow> string" where
  "quote_char c = (if quote_safe c then [c] else concat (map percent (utf8 c)))"

definition quote :: "string \<Rightarrow> string" where
  "quote s = concat (map quote_char s)"

lemma hex_digit_inject: "m < 16 \<Longrightarrow> n < 16 \<Longrightarrow> hex_digit m = hex_digit n \<Longrightarrow> m = n"
  by (simp add: hex_digit_def nth_eq_iff_index_eq)

lemma percent_inject: "m < 256 \<Longrightarrow> n < 256 \<Longrightarrow> percent m @ s = percent n @ t \<Longrightarrow> m = n \<and> s = t"
proof -
  assume "m < 256" "n < 256" and eq: "percent m @ s = percent n @ t"
  then have "m div 16 < 16" "n div 16 < 16" by (simp_all add: less_mult_imp_div_less)
  with eq hex_digit_inject [of "m div 16" "n div 16"] hex_digit_inject [of "m mod 16" "n mod 16"]
  have "m div 16 = n div 16" "m mod 16 = n mod 16" "s = t"
    by (simp_all add: percent_def)
  then show ?thesis by (metis div_mult_mod_eq)
qed

lemma div_64_less: "k < 256 \<Longrightarrow> k div 64 < (64 :: nat)"
  by (rule less_mult_imp_div_less) simp

lemma utf8_nat_prefix:
  assumes eq: "concat (map percent (utf8_nat m)) @ s = concat (map percent (utf8_nat n)) @ t"
    and b: "m < 256" "n < 256"
  shows "m = n \<and> s = t"
proof (cases "m < 128"; cases "n < 128")
  assume "m < 128" "n < 128"
  with eq b percent_inject [of m n s t] show ?thesis by (simp add: utf8_nat_def)
next
  assume c: "m < 128" "\<not> n < 128"
  with eq have "percent m @ s = percent (192 + n div 64) @ (percent (128 + n mod 64) @ t)"
    by (simp add: utf8_nat_def)
  with percent_inject [OF _ _ this] b c div_64_less show ?thesis by simp
next
  assume c: "\<not> m < 128" "n < 128"
  with eq have "percent n @ t = percent (192 + m div 64) @ (percent (128 + m mod 64) @ s)"
    by (simp add: utf8_nat_def)
  with percent_inject [OF _ _ this] b c div_64_less show ?thesis by simp
next
  assume c: "\<not> m < 128" "\<not> n < 128"
  with eq have "percent (192 + m div 64) @ (percent (128 + m mod 64) @ s) =
      percent (192 + n div 64) @ (percent (128 + n mod 64) @ t)"
    by (simp add: utf8_nat_def)
  from percent_inject [OF _ _ this] b div_64_less have d: "m div 64 = n div 64"
    and r: "percent (128 + m mod 64) @ s = percent (128 + n mod 64) @ t" by simp_all
  have lt: "128 + k mod 64 < 256" for k :: nat
    using mod_less_divisor [of 64 k] by linarith
  from percent_inject [OF lt lt r] have "m mod 64 = n mod 64" "s = t" by simp_all
  with d show ?thesis by (metis div_mult_mod_eq)
qed

lemma utf8_prefix:
  "concat (map percent (utf8 c)) @ s = concat (map percent (utf8 d)) @ t \<Longrightarrow> c = d \<and> s = t"
  using utf8_nat_prefix [of "of_char c" s "of_char d" t]
  by (simp add: utf8_def of_char_eq_iff)

lemma quote_char_hd: "\<not> quote_safe c \<Longrightarrow> \<exists>u. quote_char c = CHR ''%'' # u"
  by (auto simp: quote_char_def utf8_def utf8_nat_def percent_def)

lemma quote_char_prefix: "quote_char c @ s = quote_char d @ t \<Longrightarrow> c = d \<and> s = t"
proof (cases "quote_safe c"; cases "quote_safe d")
  assume "\<not> quote_safe c" "\<not> quote_safe d" and "quote_char c @ s = quote_char d @ t"
  then show ?thesis using utf8_prefix by (simp add: quote_char_def)
next
  assume "quote_safe c" "quote_safe d" and "quote_char c @ s = quote_char d @ t"
  then show ?thesis by (simp add: quote_char_def)
next
  assume c: "quote_safe c" "\<not> quote_safe d" and "quote_char c @ s = quote_char d @ t"
  then have "c = CHR ''%''" using quote_char_hd [OF c(2)] by (auto simp: quote_char_def)
  with c show ?thesis by (simp add: quote_safe_def)
next
  assume c: "\<not> quote_safe c" "quote_safe d" and "quote_char c @ s = quote_char d @ t"
  then have "d = CHR ''%''" using quote_char_hd [OF c(1)] by (auto simp: quote_char_def)
  with c show ?thesis by (simp add: quote_safe_def)
qed

lemma quote_Cons [simp]: "quote [] = []" "quote (c # s) = quote_char c @ quote s"
  by (simp_all add: quote_def)

lemma quote_char_not_Nil [simp]: "quote_char c \<noteq> []"
proof (cases "quote_safe c")
  case False
  with quote_char_hd [of c] show ?thesis by auto
qed (simp add: quote_char_def)

lemma quote_inject: "quote s = quote t \<longleftrightarrow> s = t"
proof (induction s arbitrary: t)
  case Nil
  then show ?case by (cases t) auto
next
  case (Cons c s)
  show ?case
  proof (cases t)
    case (Cons d u)
    have "quote_char c @ quote s = quote_char d @ quote u \<longleftrightarrow> c = d \<and> s = u"
      using quote_char_prefix Cons.IH by metis
    with Cons show ?thesis by simp
  qed simp
qed

text \<open>
  A segment \<open>.\<close> of a path disappears; \<open>..\<close> stays and is left uninterpreted. \<open>plain\<close> identifiers
  are those that name a directory of their own.
\<close>

definition plain :: "string \<Rightarrow> bool" where
  "plain s \<longleftrightarrow> s \<noteq> [] \<and> s \<noteq> ''.'' \<and> s \<noteq> ''..''"

lemma quote_dots: "quote s = ''.'' \<longleftrightarrow> s = ''.''" "quote s = ''..'' \<longleftrightarrow> s = ''..''" "quote s = [] \<longleftrightarrow> s = []"
  using quote_inject [of s "''.''"] quote_inject [of s "''..''"] quote_inject [of s "[]"]
  by (simp_all add: quote_char_def quote_safe_def)

definition path_of :: "string list \<Rightarrow> string list" where
  "path_of ps = filter (\<lambda>p. p \<noteq> [] \<and> p \<noteq> ''.'') ps"

section \<open>Numbered names\<close>

text \<open>\<open>f"{n:020d}"\<close> for a number that is not negative.\<close>

definition padded :: "int \<Rightarrow> string" where
  "padded n = replicate (20 - length (show_int n)) CHR ''0'' @ show_int n"

text \<open>\<open>int(name.split("-", 1)[0])\<close> for a decimal numeral; \<open>None\<close> when it is not one.\<close>

definition read_nat :: "string \<Rightarrow> nat" where
  "read_nat s = foldl (\<lambda>n c. 10 * n + (of_char c - 48)) 0 s"

definition file_number :: "string \<Rightarrow> int option" where
  "file_number name = (let ds = takeWhile (\<lambda>c. c \<noteq> CHR ''-'') name
     in if ds \<noteq> [] \<and> list_all (\<lambda>c. c \<in> set decimals) ds then Some (int (read_nat ds)) else None)"

fun fixed_digits :: "nat \<Rightarrow> nat \<Rightarrow> string" where
  "fixed_digits 0 n = []"
| "fixed_digits (Suc k) n = fixed_digits k (n div 10) @ [digit (n mod 10)]"

lemma length_fixed_digits [simp]: "length (fixed_digits k n) = k"
  by (induction k arbitrary: n) simp_all

lemma digit_0: "digit 0 = CHR ''0''"
  by (simp add: digit_def decimals_def)

lemma fixed_digits_0: "fixed_digits k 0 = replicate k CHR ''0''"
  by (induction k) (simp_all add: digit_0 replicate_append_same)

lemma length_show_nat: "n < 10 ^ Suc k \<Longrightarrow> length (show_nat n) \<le> Suc k"
proof (induction k arbitrary: n)
  case 0
  then show ?case by (subst show_nat.simps) simp
next
  case (Suc k)
  then show ?case by (subst show_nat.simps) (simp add: less_mult_imp_div_less)
qed

lemma fixed_digits_show: "n < 10 ^ Suc k \<Longrightarrow>
    replicate (Suc k - length (show_nat n)) CHR ''0'' @ show_nat n = fixed_digits (Suc k) n"
proof (induction k arbitrary: n)
  case 0
  then have "n < 10" by simp
  then show ?case by (simp add: show_nat.simps [of n])
next
  case (Suc k)
  show ?case
  proof (cases "n < 10")
    case True
    then have "show_nat n = [digit n]" by (simp add: show_nat.simps [of n])
    moreover have "fixed_digits (Suc (Suc k)) n = fixed_digits (Suc k) 0 @ [digit n]" using True by simp
    ultimately show ?thesis unfolding fixed_digits_0 by simp
  next
    case False
    then have "show_nat n = show_nat (n div 10) @ [digit (n mod 10)]" by (simp add: show_nat.simps [of n])
    moreover have "n div 10 < 10 ^ Suc k" using Suc.prems by (simp add: less_mult_imp_div_less)
    from Suc.IH [OF this] have "replicate (Suc k - length (show_nat (n div 10))) CHR ''0'' @ show_nat (n div 10) =
        fixed_digits (Suc k) (n div 10)" .
    ultimately show ?thesis unfolding fixed_digits.simps(2) [of "Suc k"] by simp
  qed
qed

lemma padded_fixed: "0 \<le> n \<Longrightarrow> n < 10 ^ 20 \<Longrightarrow> padded n = fixed_digits 20 (nat n)"
  using fixed_digits_show [of "nat n" 19] by (simp add: padded_def show_int_def)

lemma digit_less: "m < n \<Longrightarrow> n < 10 \<Longrightarrow> digit m < digit n"
proof -
  have "\<forall>n \<in> set [0..<10]. \<forall>m \<in> set [0..<n]. digit m < digit n" by code_simp
  then show "m < n \<Longrightarrow> n < 10 \<Longrightarrow> digit m < digit n" by auto
qed

lemma list_less_append: "xs < ys \<Longrightarrow> length ys \<le> length xs \<Longrightarrow> xs @ us < ys @ (vs :: string)"
  unfolding list_less_def by (rule lexord_sufI)

lemma fixed_digits_less: "m < n \<Longrightarrow> n < 10 ^ k \<Longrightarrow> fixed_digits k m < fixed_digits k n"
proof (induction k arbitrary: m n)
  case (Suc k)
  show ?case
  proof (cases "m div 10 = n div 10")
    case True
    with Suc.prems(1) have "m mod 10 < n mod 10" by (metis add_less_cancel_left div_mult_mod_eq)
    then have "digit (m mod 10) < digit (n mod 10)" by (simp add: digit_less)
    then show ?thesis using True by (simp add: list_less_def lexord_append_leftI)
  next
    case False
    with Suc.prems(1) have "m div 10 < n div 10" by (metis div_le_mono le_neq_implies_less less_imp_le)
    moreover have "n div 10 < 10 ^ k" using Suc.prems(2) by (simp add: less_mult_imp_div_less)
    ultimately show ?thesis using Suc.IH by (auto intro: list_less_append)
  qed
qed simp

lemma padded_less: "0 \<le> m \<Longrightarrow> m < n \<Longrightarrow> n < 10 ^ 20 \<Longrightarrow> padded m @ us < padded n @ vs"
  by (rule list_less_append) (simp_all add: padded_fixed fixed_digits_less)

lemma padded_digits: "0 \<le> n \<Longrightarrow> set (padded n) \<subseteq> set decimals"
  using show_nat_digits [of "nat n"] by (auto simp: padded_def show_int_def decimals_def)

lemma padded_not_Nil [simp]: "padded n \<noteq> []"
  by (simp add: padded_def show_int_def)

lemma read_nat_snoc: "read_nat (s @ [c]) = 10 * read_nat s + (of_char c - 48)"
  by (simp add: read_nat_def)

lemma of_char_digit: "n < 10 \<Longrightarrow> of_char (digit n) = n + (48 :: nat)"
proof -
  have "\<forall>n \<in> set [0..<10]. of_char (digit n) = n + (48 :: nat)" by code_simp
  then show "n < 10 \<Longrightarrow> of_char (digit n) = n + (48 :: nat)" by simp
qed

lemma read_nat_show: "read_nat (replicate k CHR ''0'' @ show_nat n) = n"
proof (induction n rule: show_nat.induct)
  case (1 n)
  have zeros: "read_nat (replicate k CHR ''0'') = 0"
    by (induction k) (simp_all add: read_nat_def)
  show ?case
  proof (cases "n < 10")
    case True
    with zeros show ?thesis by (simp add: show_nat.simps [of n] read_nat_snoc of_char_digit)
  next
    case False
    with 1 have "read_nat ((replicate k CHR ''0'' @ show_nat (n div 10)) @ [digit (n mod 10)]) = n"
      unfolding read_nat_snoc by (simp add: of_char_digit)
    with False show ?thesis by (simp add: show_nat.simps [of n])
  qed
qed

lemma takeWhile_padded: "0 \<le> n \<Longrightarrow> takeWhile (\<lambda>c. c \<noteq> CHR ''-'') (padded n @ CHR ''-'' # s) = padded n"
  using padded_digits [of n] minus_not_decimal by (subst takeWhile_append2) auto

lemma read_padded: "0 \<le> n \<Longrightarrow> read_nat (padded n) = nat n"
  by (simp add: padded_def show_int_def read_nat_show)

lemma file_number_padded: "0 \<le> n \<Longrightarrow> file_number (padded n @ CHR ''-'' # s) = Some n"
  using padded_digits [of n] by (auto simp: file_number_def Let_def takeWhile_padded list_all_iff read_padded)

lemma padded_inject: "0 \<le> m \<Longrightarrow> 0 \<le> n \<Longrightarrow> padded m @ CHR ''-'' # s = padded n @ CHR ''-'' # t \<longleftrightarrow> m = n \<and> s = t"
  by (metis append_same_eq file_number_padded list.inject option.inject same_append_eq)

lemma padded_prefix: "0 \<le> m \<Longrightarrow> 0 \<le> n \<Longrightarrow> take (length (padded m) + 1) (padded n @ CHR ''-'' # s) = padded m @ ''-'' \<longleftrightarrow> m = n"
proof
  assume n: "0 \<le> m" "0 \<le> n" and p: "take (length (padded m) + 1) (padded n @ CHR ''-'' # s) = padded m @ ''-''"
  then have "padded n @ CHR ''-'' # s = padded m @ CHR ''-'' # drop (length (padded m) + 1) (padded n @ CHR ''-'' # s)"
    by (metis append_Cons append_assoc append_self_conv2 append_take_drop_id)
  with n padded_inject show "m = n" by blast
qed simp

end
