(* ===== verification/Decision_Files.thy ===== *)
theory Decision_Files
  imports Decision_Coordinator File_Names
begin

text \<open>
  The file store of operator decisions, \<open>src/onr/adapters/human_decisions.py\<close>. A file is its path below
  the root of the store with the JSON value its canonical text stands for; a directory of a run is
  named by the percent-encoded mission and run identifiers. Directory listings come in the order of
  the list. Input and output errors of the operating system are not modelled.
\<close>

section \<open>Directory names\<close>

text \<open>
  \<open>root / quote(mission) / quote(run)\<close>. A segment \<open>.\<close> disappears when a path is built; \<open>..\<close> stays
  and is left uninterpreted here. \<open>plain\<close> identifiers are those that name a directory of their own.
\<close>

definition directory :: "string \<Rightarrow> string \<Rightarrow> string list" where
  "directory mission_id mission_run_id =
     filter (\<lambda>p. p \<noteq> [] \<and> p \<noteq> ''.'') [quote mission_id, quote mission_run_id]"

lemma directory_plain: "plain m \<Longrightarrow> plain r \<Longrightarrow> directory m r = [quote m, quote r]"
  by (simp add: directory_def plain_def quote_dots)

lemma directory_inject:
  assumes "plain m" and "plain r" and "directory m r = directory m' r'"
  shows "m' = m \<and> r' = r"
proof -
  have "directory m' r' = [quote m, quote r]" using assms by (simp add: directory_plain)
  then have "[quote m', quote r'] = [quote m, quote r]"
    by (simp add: directory_def split: if_splits)
  then show ?thesis by (simp add: quote_inject)
qed

section \<open>The store\<close>

text \<open>
  The files, and the directories whose \<open>resume.lock\<close> some process holds. A directory exists once a file
  has been written to it.
\<close>

record file_store =
  df_files :: "(string list \<times> json) list"
  df_locks :: "string list list"

definition save_immutable :: "string list \<Rightarrow> json \<Rightarrow> (unit, file_store) eff" where
  "save_immutable path content st = (case map_of (df_files st) path of
     Some existing \<Rightarrow> if existing \<noteq> content then (Inl (ValueError Conflict), st) else (Inr (), st)
   | None \<Rightarrow> (Inr (), st\<lparr>df_files := put path content (df_files st)\<rparr>))"

definition read_file :: "(pyval option \<Rightarrow> 'a result) \<Rightarrow> string list \<Rightarrow> file_store \<Rightarrow> 'a option result" where
  "read_file from_json path st = (case map_of (df_files st) path of
     None \<Rightarrow> Inr None
   | Some content \<Rightarrow> bindE (from_json (Some (thaw content))) (\<lambda>x. Inr (Some x)))"

definition request_path :: "run_key \<Rightarrow> string list" where
  "request_path k = directory (fst k) (snd k) @ [''request.json'']"

definition checkpoint_path :: "run_key \<Rightarrow> string list" where
  "checkpoint_path k = directory (fst k) (snd k) @ [''checkpoint.json'']"

definition decision_path :: "run_key \<Rightarrow> string list" where
  "decision_path k = directory (fst k) (snd k) @ [''decision.json'']"

definition completed_path :: "run_key \<Rightarrow> string list" where
  "completed_path k = directory (fst k) (snd k) @ [''resume-completed.json'']"

definition save_pause :: "decision_request \<Rightarrow> run_checkpoint \<Rightarrow> (unit, file_store) eff" where
  "save_pause q c =
     bindS (save_immutable (request_path (request_key q)) (decision_request_json q)) (\<lambda>_.
     save_immutable (checkpoint_path (request_key q)) (run_checkpoint_json c))"

definition load_request :: "string \<Rightarrow> string \<Rightarrow> (decision_request option, file_store) eff" where
  "load_request m r st = (read_file decision_request_from_json (request_path (m, r)) st, st)"

text \<open>The paths that \<open>glob("*/*/request.json")\<close> matches, and the loop over them.\<close>

fun is_request_path :: "string list \<Rightarrow> bool" where
  "is_request_path [m, r, f] = (m \<noteq> ''..'' \<and> r \<noteq> ''..'' \<and> f = ''request.json'')"
| "is_request_path _ = False"

fun find_request :: "string \<Rightarrow> (string list \<times> json) list \<Rightarrow> decision_request option result" where
  "find_request i [] = Inr None"
| "find_request i ((path, content) # fs) =
     (if is_request_path path
      then bindE (decision_request_from_json (Some (thaw content))) (\<lambda>q.
        if dr_request_id q = i then Inr (Some q) else find_request i fs)
      else find_request i fs)"

definition load_request_by_id :: "string \<Rightarrow> (decision_request option, file_store) eff" where
  "load_request_by_id i st = (find_request i (df_files st), st)"

definition load_checkpoint :: "string \<Rightarrow> string \<Rightarrow> (run_checkpoint option, file_store) eff" where
  "load_checkpoint m r st = (read_file run_checkpoint_from_json (checkpoint_path (m, r)) st, st)"

definition save_decision :: "human_decision \<Rightarrow> (human_decision, file_store) eff" where
  "save_decision d =
     bindS (save_immutable (decision_path (decision_key d)) (human_decision_json d)) (\<lambda>_ st.
     (case read_file human_decision_from_json (decision_path (decision_key d)) st of
        Inl e \<Rightarrow> Inl e | Inr None \<Rightarrow> Inl FileNotFoundError | Inr (Some x) \<Rightarrow> Inr x, st))"

definition load_decision :: "string \<Rightarrow> string \<Rightarrow> (human_decision option, file_store) eff" where
  "load_decision m r st = (read_file human_decision_from_json (decision_path (m, r)) st, st)"

definition file_decisions :: "file_store decision_store" where
  "file_decisions = \<lparr>ds_save_pause = save_pause, ds_load_request_by_id = load_request_by_id,
     ds_load_checkpoint = load_checkpoint, ds_save_decision = save_decision\<rparr>"

section \<open>The files hold valid records\<close>

text \<open>A file with one of the four names holds the record of that kind, and requests and decisions are
  filed under the run they name.\<close>

definition entry_valid :: "string list \<times> json \<Rightarrow> bool" where
  "entry_valid f \<longleftrightarrow>
     (last (fst f) = ''request.json'' \<longrightarrow> (\<exists>q. decision_request_wf q \<and>
        fst f = request_path (request_key q) \<and> snd f = decision_request_json q)) \<and>
     (last (fst f) = ''checkpoint.json'' \<longrightarrow> (\<exists>c. run_checkpoint_wf c \<and> snd f = run_checkpoint_json c)) \<and>
     (last (fst f) = ''decision.json'' \<longrightarrow> (\<exists>d. human_decision_wf d \<and> snd f = human_decision_json d))"

definition files_inv :: "file_store \<Rightarrow> bool" where
  "files_inv st \<longleftrightarrow> distinct (map fst (df_files st)) \<and> (\<forall>f \<in> set (df_files st). entry_valid f)"

definition named_run :: "run_key \<Rightarrow> bool" where
  "named_run k \<longleftrightarrow> plain (fst k) \<and> plain (snd k)"

definition stored :: "(pyval option \<Rightarrow> 'a result) \<Rightarrow> string list \<Rightarrow> file_store \<Rightarrow> 'a option" where
  "stored from_json path st = (case read_file from_json path st of Inl _ \<Rightarrow> None | Inr x \<Rightarrow> x)"

definition request_in :: "file_store \<Rightarrow> run_key \<Rightarrow> decision_request option" where
  "request_in st k = (if named_run k then stored decision_request_from_json (request_path k) st else None)"

definition checkpoint_in :: "file_store \<Rightarrow> run_key \<Rightarrow> run_checkpoint option" where
  "checkpoint_in st k = stored run_checkpoint_from_json (checkpoint_path k) st"

definition decision_in :: "file_store \<Rightarrow> run_key \<Rightarrow> human_decision option" where
  "decision_in st k = stored human_decision_from_json (decision_path k) st"

text \<open>A successful save makes the file hold the content, whether it was there before or not.\<close>

definition written :: "string list \<Rightarrow> json \<Rightarrow> file_store \<Rightarrow> file_store" where
  "written path content st = st\<lparr>df_files := put path content (df_files st)\<rparr>"

lemma save_immutable_written:
  assumes "distinct (map fst (df_files st))" and "map_of (df_files st) p \<in> {None, Some c}"
  shows "save_immutable p c st = (Inr (), written p c st)"
proof (cases "map_of (df_files st) p")
  case (Some c')
  with assms(2) have c: "c' = c" by simp
  have "put p c (df_files st) = df_files st" by (rule put_same [OF _ assms(1)]) (simp only: Some c)
  then show ?thesis by (simp add: save_immutable_def written_def Some c)
qed (simp add: save_immutable_def written_def)

lemma save_immutable_conflict:
  "map_of (df_files st) p = Some c' \<Longrightarrow> c' \<noteq> c \<Longrightarrow> save_immutable p c st = (Inl (ValueError Conflict), st)"
  by (simp add: save_immutable_def)

lemma stored_eq: "stored f p st = (case map_of (df_files st) p of None \<Rightarrow> None
   | Some j \<Rightarrow> (case f (Some (thaw j)) of Inl _ \<Rightarrow> None | Inr x \<Rightarrow> Some x))"
  by (auto simp: stored_def read_file_def split: option.splits sum.splits)

lemma stored_written: "f (Some (thaw c)) = Inr x \<Longrightarrow>
    stored f p (written p' c st) = (if p = p' then Some x else stored f p st)"
  by (simp add: stored_eq written_def)

lemma stored_written_other: "p \<noteq> p' \<Longrightarrow> stored f p (written p' c st) = stored f p st"
  by (simp add: stored_eq written_def)

lemma files_inv_written: "files_inv st \<Longrightarrow> entry_valid (p, c) \<Longrightarrow> files_inv (written p c st)"
  using set_put_subset [of p c "df_files st"]
  by (auto simp: files_inv_def written_def)

lemma path_last [simp]:
  "last (request_path k) = ''request.json''" "last (checkpoint_path k) = ''checkpoint.json''"
  "last (decision_path k) = ''decision.json''" "last (completed_path k) = ''resume-completed.json''"
  by (simp_all add: request_path_def checkpoint_path_def decision_path_def completed_path_def)

lemma path_kinds [simp]:
  "request_path k \<noteq> checkpoint_path k'" "request_path k \<noteq> decision_path k'" "request_path k \<noteq> completed_path k'"
  "checkpoint_path k \<noteq> request_path k'" "checkpoint_path k \<noteq> decision_path k'" "checkpoint_path k \<noteq> completed_path k'"
  "decision_path k \<noteq> request_path k'" "decision_path k \<noteq> checkpoint_path k'" "decision_path k \<noteq> completed_path k'"
  by (simp_all add: request_path_def checkpoint_path_def decision_path_def completed_path_def)

lemma path_inject:
  assumes "named_run k"
  shows "request_path k' = request_path k \<longleftrightarrow> k' = k" "checkpoint_path k' = checkpoint_path k \<longleftrightarrow> k' = k"
    "decision_path k' = decision_path k \<longleftrightarrow> k' = k" "completed_path k' = completed_path k \<longleftrightarrow> k' = k"
  using directory_inject [of "fst k" "snd k" "fst k'" "snd k'"] assms
  by (auto simp: named_run_def request_path_def checkpoint_path_def decision_path_def completed_path_def prod_eq_iff)

lemma entry_valid_intros:
  "decision_request_wf q \<Longrightarrow> entry_valid (request_path (request_key q), decision_request_json q)"
  "run_checkpoint_wf c \<Longrightarrow> entry_valid (checkpoint_path k, run_checkpoint_json c)"
  "human_decision_wf d \<Longrightarrow> entry_valid (decision_path k, human_decision_json d)"
  "entry_valid (completed_path k, j)"
  by (auto simp: entry_valid_def)

lemma entry_validD: "files_inv st \<Longrightarrow> map_of (df_files st) p = Some j \<Longrightarrow> entry_valid (p, j)"
  by (auto simp: files_inv_def dest: map_of_SomeD)

lemma read_request: "files_inv st \<Longrightarrow> read_file decision_request_from_json (request_path k) st =
    Inr (stored decision_request_from_json (request_path k) st)"
  using entry_validD [of st "request_path k"] decision_request_json_read
  by (auto simp: read_file_def stored_eq entry_valid_def split: option.splits)

lemma read_checkpoint: "files_inv st \<Longrightarrow> read_file run_checkpoint_from_json (checkpoint_path k) st =
    Inr (checkpoint_in st k)"
  using entry_validD [of st "checkpoint_path k"] run_checkpoint_json_read
  by (auto simp: read_file_def stored_eq entry_valid_def checkpoint_in_def split: option.splits)

lemma decision_in_Some: "files_inv st \<Longrightarrow> decision_in st k = Some d \<longleftrightarrow>
    human_decision_wf d \<and> map_of (df_files st) (decision_path k) = Some (human_decision_json d)"
  using entry_validD [of st "decision_path k"] human_decision_json_read
  by (auto simp: decision_in_def stored_eq entry_valid_def split: option.splits sum.splits)

lemma decision_in_None: "files_inv st \<Longrightarrow> decision_in st k = None \<longleftrightarrow> map_of (df_files st) (decision_path k) = None"
  using entry_validD [of st "decision_path k"] human_decision_json_read
  by (auto simp: decision_in_def stored_eq entry_valid_def split: option.splits sum.splits)

lemma request_in_Some: "files_inv st \<Longrightarrow> request_in st k = Some q \<longleftrightarrow>
    named_run k \<and> k = request_key q \<and> decision_request_wf q \<and>
    map_of (df_files st) (request_path k) = Some (decision_request_json q)"
proof (cases "named_run k")
  case True
  assume inv: "files_inv st"
  have "\<exists>q'. j = decision_request_json q' \<and> decision_request_wf q' \<and> k = request_key q'"
    if "map_of (df_files st) (request_path k) = Some j" for j
  proof -
    from entry_validD [OF inv that] obtain q' where q': "decision_request_wf q'" "j = decision_request_json q'"
      "request_path k = request_path (request_key q')" by (auto simp: entry_valid_def)
    with path_inject(1) [OF True] have "request_key q' = k" by metis
    with q' show ?thesis by auto
  qed
  with True decision_request_json_read show ?thesis
    by (fastforce simp: request_in_def stored_eq split: option.splits sum.splits)
qed (simp add: request_in_def)

text \<open>The loop finds a request of the given name when there is one.\<close>

lemma is_request_path_named:
  "is_request_path (request_path k) \<longleftrightarrow> named_run k"
  by (cases k) (auto simp: request_path_def directory_def named_run_def plain_def quote_dots)

lemma find_request_valid:
  assumes "\<forall>f \<in> set fs. entry_valid f"
  shows "\<exists>found. find_request i fs = Inr found \<and> (case found of
     None \<Rightarrow> \<forall>q. named_run (request_key q) \<longrightarrow> (request_path (request_key q), decision_request_json q) \<in> set fs \<longrightarrow>
       decision_request_wf q \<longrightarrow> dr_request_id q \<noteq> i
   | Some q \<Rightarrow> dr_request_id q = i \<and> named_run (request_key q) \<and> decision_request_wf q \<and>
       (request_path (request_key q), decision_request_json q) \<in> set fs)"
  using assms
proof (induction fs)
  case Nil
  then show ?case by simp
next
  case (Cons f fs)
  obtain p j where f: "f = (p, j)" by (cases f)
  from Cons obtain found where IH: "find_request i fs = Inr found"
    "case found of
     None \<Rightarrow> \<forall>q. named_run (request_key q) \<longrightarrow> (request_path (request_key q), decision_request_json q) \<in> set fs \<longrightarrow>
       decision_request_wf q \<longrightarrow> dr_request_id q \<noteq> i
   | Some q \<Rightarrow> dr_request_id q = i \<and> named_run (request_key q) \<and> decision_request_wf q \<and>
       (request_path (request_key q), decision_request_json q) \<in> set fs" by auto
  show ?case
  proof (cases "is_request_path p")
    case True
    then have "last p = ''request.json''" by (cases p rule: is_request_path.cases) simp_all
    with Cons.prems f obtain q where q: "decision_request_wf q" "p = request_path (request_key q)"
      "j = decision_request_json q" by (auto simp: entry_valid_def)
    with True have n: "named_run (request_key q)" by (simp add: is_request_path_named)
    note r = decision_request_json_read
    show ?thesis
    proof (cases "dr_request_id q = i")
      case True
      with q n f \<open>is_request_path p\<close> r [OF q(1)] show ?thesis by auto
    next
      case False
      have step: "find_request i (f # fs) = Inr found"
        using q(3) f \<open>is_request_path p\<close> r [OF q(1)] False IH(1) by simp
      have other: "dr_request_id qa \<noteq> i" if "decision_request_wf qa" "f = (p', decision_request_json qa)" for p' qa
      proof -
        from that(2) f q(3) have "decision_request_json qa = decision_request_json q" by simp
        from decision_request_json_inject [OF that(1) q(1) this] have "qa = q" .
        with False show ?thesis by simp
      qed
      show ?thesis
      proof (cases found)
        case None
        with IH(2) other have "\<forall>qa. named_run (request_key qa) \<longrightarrow>
            (request_path (request_key qa), decision_request_json qa) \<in> set (f # fs) \<longrightarrow>
            decision_request_wf qa \<longrightarrow> dr_request_id qa \<noteq> i" by fastforce
        with step None show ?thesis by (intro exI [of _ None]) (simp only: option.case simp_thms)
      next
        case (Some qa)
        with IH(2) step show ?thesis by (intro exI [of _ found]) simp
      qed
    qed
  next
    case False
    with IH f is_request_path_named show ?thesis by (auto split: option.splits)
  qed
qed

section \<open>The store keeps the contract of the coordinator\<close>

lemma save_pause_written:
  assumes inv: "files_inv st" and k: "named_run (request_key q)" and wf: "decision_request_wf q" "run_checkpoint_wf c"
    and r: "request_in st (request_key q) \<in> {None, Some q}"
    and c: "checkpoint_in st (request_key q) \<in> {None, Some c}"
  shows "save_pause q c st = (Inr (), written (checkpoint_path (request_key q)) (run_checkpoint_json c)
    (written (request_path (request_key q)) (decision_request_json q) st))"
proof -
  let ?p = "request_path (request_key q)" and ?p' = "checkpoint_path (request_key q)"
  let ?st = "written ?p (decision_request_json q) st"
  have mq: "map_of (df_files st) ?p \<in> {None, Some (decision_request_json q)}"
  proof (cases "map_of (df_files st) ?p")
    case (Some j)
    from entry_validD [OF inv Some] obtain q' where q': "decision_request_wf q'" "j = decision_request_json q'"
      "?p = request_path (request_key q')" by (auto simp: entry_valid_def)
    then have "request_key q' = request_key q" using path_inject(1) [OF k] by metis
    with q' Some k have "request_in st (request_key q) = Some q'" by (simp add: request_in_Some [OF inv])
    with r q'(2) Some show ?thesis by simp
  qed simp
  have mc: "map_of (df_files st) ?p' \<in> {None, Some (run_checkpoint_json c)}"
  proof (cases "map_of (df_files st) ?p'")
    case (Some j)
    from entry_validD [OF inv Some] obtain c' where c': "run_checkpoint_wf c'" "j = run_checkpoint_json c'"
      by (auto simp: entry_valid_def)
    then have "checkpoint_in st (request_key q) = Some c'"
      using Some run_checkpoint_json_read by (simp add: checkpoint_in_def stored_eq)
    with c c'(2) Some show ?thesis by simp
  qed simp
  from inv have d: "distinct (map fst (df_files st))" by (simp add: files_inv_def)
  then have d': "distinct (map fst (df_files ?st))" by (simp add: written_def)
  from mc have "map_of (df_files ?st) ?p' \<in> {None, Some (run_checkpoint_json c)}"
    by (simp add: written_def)
  from save_immutable_written [OF d' this] save_immutable_written [OF d mq]
  show ?thesis by (simp add: save_pause_def bindS_cases)
qed

lemma save_decision_written:
  assumes inv: "files_inv st" and k: "named_run (decision_key d)" and wf: "human_decision_wf d"
    and none: "decision_in st (decision_key d) = None"
  shows "save_decision d st = (Inr d, written (decision_path (decision_key d)) (human_decision_json d) st)"
proof -
  from inv have dist: "distinct (map fst (df_files st))" by (simp add: files_inv_def)
  from none have "map_of (df_files st) (decision_path (decision_key d)) \<in> {None, Some (human_decision_json d)}"
    by (simp add: decision_in_None [OF inv])
  note w = save_immutable_written [OF dist this]
  show ?thesis using human_decision_json_read [OF wf]
    by (simp add: save_decision_def bindS_cases w read_file_def) (simp add: written_def)
qed

lemma save_decision_again:
  assumes inv: "files_inv st" and wf: "human_decision_wf d" and d': "decision_in st (decision_key d) = Some d'"
  shows "save_decision d st = (if d' = d then Inr d else Inl (ValueError Conflict), st)"
proof -
  from d' have m: "human_decision_wf d'"
    "map_of (df_files st) (decision_path (decision_key d)) = Some (human_decision_json d')"
    by (simp_all add: decision_in_Some [OF inv])
  show ?thesis
  proof (cases "d' = d")
    case True
    with m human_decision_json_read [OF wf] show ?thesis
      by (simp add: save_decision_def save_immutable_def bindS_cases read_file_def)
  next
    case False
    with human_decision_json_inject [OF m(1) wf] have "human_decision_json d' \<noteq> human_decision_json d" by auto
    from False save_immutable_conflict [OF m(2) this] show ?thesis by (simp add: save_decision_def bindS_cases)
  qed
qed

interpretation decisions: run_store file_decisions files_inv named_run request_in checkpoint_in decision_in
proof (unfold_locales, goal_cases)
  case (1 st q c)
  let ?st = "written (checkpoint_path (request_key q)) (run_checkpoint_json c)
    (written (request_path (request_key q)) (decision_request_json q) st)"
  have "ds_save_pause file_decisions q c st = (Inr (), ?st)"
    using save_pause_written [OF 1(1,2,3,4,6,7)] by (simp add: file_decisions_def)
  moreover have "files_inv ?st"
    by (intro files_inv_written 1 entry_valid_intros)
  moreover have "request_in ?st = (request_in st)(request_key q \<mapsto> q)"
    using 1(2) decision_request_json_read [OF 1(3)] path_inject(1) [OF 1(2)]
    by (auto simp: request_in_def stored_written stored_written_other fun_eq_iff)
  moreover have "checkpoint_in ?st = (checkpoint_in st)(request_key q \<mapsto> c)"
    using run_checkpoint_json_read [OF 1(4)] path_inject(2) [OF 1(2)]
    by (auto simp: checkpoint_in_def stored_written stored_written_other fun_eq_iff)
  moreover have "decision_in ?st = decision_in st"
    by (auto simp: decision_in_def stored_written_other fun_eq_iff)
  ultimately show ?case by blast
next
  case (2 st i)
  from 2 have "\<forall>f \<in> set (df_files st). entry_valid f" and d: "distinct (map fst (df_files st))"
    by (simp_all add: files_inv_def)
  from find_request_valid [OF this(1), of i] obtain found where f: "find_request i (df_files st) = Inr found"
    "case found of
     None \<Rightarrow> \<forall>q. named_run (request_key q) \<longrightarrow> (request_path (request_key q), decision_request_json q) \<in> set (df_files st) \<longrightarrow>
       decision_request_wf q \<longrightarrow> dr_request_id q \<noteq> i
   | Some q \<Rightarrow> dr_request_id q = i \<and> named_run (request_key q) \<and> decision_request_wf q \<and>
       (request_path (request_key q), decision_request_json q) \<in> set (df_files st)" by blast
  show ?case
  proof (cases found)
    case None
    with f(2) have "\<forall>k q. named_run k \<longrightarrow> request_in st k = Some q \<longrightarrow> dr_request_id q \<noteq> i"
      by (auto simp: request_in_Some [OF 2] dest: map_of_SomeD)
    with f(1) None show ?thesis
      by (intro exI [of _ None]) (simp add: file_decisions_def load_request_by_id_def)
  next
    case (Some q)
    with f(2) d have "dr_request_id q = i \<and> request_in st (request_key q) = Some q"
      by (simp add: request_in_Some [OF 2])
    with f(1) Some show ?thesis
      by (intro exI [of _ "Some q"]) (simp add: file_decisions_def load_request_by_id_def)
  qed
next
  case (3 st k)
  then show ?case by (simp add: file_decisions_def load_checkpoint_def read_checkpoint)
next
  case (4 st d)
  show ?case
  proof (cases "decision_in st (decision_key d)")
    case None
    let ?st = "written (decision_path (decision_key d)) (human_decision_json d) st"
    have "ds_save_decision file_decisions d st = (Inr d, ?st)"
      using save_decision_written [OF 4 None] by (simp add: file_decisions_def)
    moreover have "files_inv ?st" by (intro files_inv_written 4 entry_valid_intros)
    moreover have "request_in ?st = request_in st" "checkpoint_in ?st = checkpoint_in st"
      by (auto simp: request_in_def checkpoint_in_def stored_written_other fun_eq_iff)
    moreover have "decision_in ?st = (decision_in st)(decision_key d \<mapsto> d)"
      using human_decision_json_read [OF 4(3)] path_inject(3) [OF 4(2)]
      by (auto simp: decision_in_def stored_written stored_written_other fun_eq_iff)
    ultimately show ?thesis using None by auto
  next
    case (Some d')
    with save_decision_again [OF 4(1,3) Some] show ?thesis by (simp add: file_decisions_def)
  qed
next
  case (5 st k q)
  then show ?case by (simp add: request_in_Some)
qed

end
