(* ===== verification/Decision_Runs.thy ===== *)
theory Decision_Runs
  imports Decision_Files
begin

text \<open>
  What the coordinator and the file store do together: the life of a request from the pause to the
  operator's decision, and \<open>resume_claim\<close>, which lets exactly one continuation of a run be applied
  although several processes may try.
\<close>

section \<open>From the pause to the decision\<close>

text \<open>The life of an operator decision. Pausing a run whose files do not exist yet stores a request
  for the category of the pause. A decision that answers it with a permitted action is resolved: with
  the saved checkpoint when the action continues the run, as the end of the run otherwise. Recording
  the same decision again gives the same resolution and changes nothing, and a different decision for
  the run is refused from then on.\<close>

theorem pause_then_record:
  assumes "files_inv st" and "run_checkpoint_wf c" and "named_run (checkpoint_key c)" and "nonblank cor"
    and "refs \<noteq> []" and "\<forall>r \<in> set refs. nonblank r"
    and "request_in st (checkpoint_key c) = None" and "checkpoint_in st (checkpoint_key c) = None"
    and "decision_in st (checkpoint_key c) = None"
    and "\<forall>k q. request_in st k = Some q \<longrightarrow> dr_request_id q \<noteq> request_id_for (cp_mission_run_id c) cat"
    and "human_decision_wf d" and "decision_key d = checkpoint_key c"
    and "hd_request_id d = request_id_for (cp_mission_run_id c) cat" and "hd_action d \<in> set (actions_for cat)"
  shows "\<exists>q st1 st2.
    pause file_decisions (PStr (category_text cat)) c (PStr cor) (map PStr refs) st = (Inr q, st1) \<and>
    record_decision file_decisions d st1 = (Inr (resolution_for d c), st2) \<and>
    record_decision file_decisions d st2 = (Inr (resolution_for d c), st2) \<and>
    (\<forall>d'. human_decision_wf d' \<and> decision_key d' = decision_key d \<and> hd_request_id d' = hd_request_id d \<and>
       hd_action d' \<in> set (actions_for cat) \<and> d' \<noteq> d \<longrightarrow>
       record_decision file_decisions d' st2 = (Inl (ValueError Conflict), st2))"
proof -
  from decisions.pause_ok [OF assms(1-8)] obtain q st1 where
    p: "pause file_decisions (PStr (category_text cat)) c (PStr cor) (map PStr refs) st = (Inr q, st1)" "files_inv st1"
    and q: "dr_request_id q = request_id_for (cp_mission_run_id c) cat" "request_key q = checkpoint_key c"
      "dr_permitted_actions q = actions_for cat" "dr_checkpoint_id q = cp_checkpoint_id c"
    and st1: "request_in st1 = (request_in st)(checkpoint_key c \<mapsto> q)"
      "checkpoint_in st1 = (checkpoint_in st)(checkpoint_key c \<mapsto> c)" "decision_in st1 = decision_in st"
    by blast
  have held: "named_run (request_key q)" "request_in st1 (request_key q) = Some q"
    "checkpoint_in st1 (request_key q) = Some c" "cp_checkpoint_id c = dr_checkpoint_id q"
    "decision_in st1 (request_key q) = None"
    unfolding q(2) st1 using assms(3,9) q(4) by simp_all
  have unique: "\<forall>k q'. request_in st1 k = Some q' \<longrightarrow> dr_request_id q' = dr_request_id q \<longrightarrow> k = request_key q"
    unfolding st1 q(1,2) using assms(10) by (auto split: if_splits)
  have ans: "answers d' q (request_in st1)" if "decision_key d' = decision_key d" "hd_request_id d' = hd_request_id d"
    "hd_action d' \<in> set (actions_for cat)" for d'
    unfolding answers_def using that unique assms(12,13) q by (simp only: simp_thms)
  from decisions.record_decision_new [OF p(2) held(1-4) ans [OF refl refl assms(14)] assms(11) held(5)]
  obtain st2 where r: "record_decision file_decisions d st1 = (Inr (resolution_for d c), st2)" "files_inv st2"
    and st2: "request_in st2 = request_in st1" "checkpoint_in st2 = checkpoint_in st1"
      "decision_in st2 = (decision_in st1)(request_key q \<mapsto> d)" by blast
  have held2: "request_in st2 (request_key q) = Some q" "checkpoint_in st2 (request_key q) = Some c"
    "decision_in st2 (request_key q) = Some d"
    unfolding st2 using held by simp_all
  have again: "record_decision file_decisions d' st2 =
      (if d = d' then Inr (resolution_for d' c) else Inl (ValueError Conflict), st2)"
    if "human_decision_wf d'" "decision_key d' = decision_key d" "hd_request_id d' = hd_request_id d"
      "hd_action d' \<in> set (actions_for cat)" for d'
    by (rule decisions.record_decision_again [OF r(2) held(1) held2(1,2) held(4) _ that(1) held2(3)])
      (unfold st2(1), rule ans [OF that(2-4)])
  have "record_decision file_decisions d st2 = (Inr (resolution_for d c), st2)"
    using again [OF assms(11) refl refl assms(14)] by simp
  moreover have "record_decision file_decisions d' st2 = (Inl (ValueError Conflict), st2)"
    if "human_decision_wf d' \<and> decision_key d' = decision_key d \<and> hd_request_id d' = hd_request_id d \<and>
       hd_action d' \<in> set (actions_for cat) \<and> d' \<noteq> d" for d'
    using again [of d'] that by auto
  ultimately show ?thesis using p(1) r(1) by blast
qed

definition ex_checkpoint :: run_checkpoint where
  "ex_checkpoint = \<lparr>cp_checkpoint_id = ''c1'', cp_mission_id = ''m/1'', cp_mission_run_id = ''r1'',
     cp_continuation = ''plan''\<rparr>"

definition ex_answer :: human_decision where
  "ex_answer = \<lparr>hd_decision_id = ''d1'', hd_request_id = ''human-decision:r1:timeout'', hd_mission_id = ''m/1'',
     hd_mission_run_id = ''r1'', hd_action = RETRY_PLANNER\<rparr>"

definition empty_files :: file_store where
  "empty_files = \<lparr>df_files = [], df_locks = []\<rparr>"

lemma empty_files_facts [simp]: "files_inv empty_files" "request_in empty_files k = None"
  "checkpoint_in empty_files k = None" "decision_in empty_files k = None"
  by (simp_all add: empty_files_def files_inv_def request_in_def checkpoint_in_def decision_in_def stored_eq)

theorem pause_then_record_witness:
  "\<exists>q st1 st2. pause file_decisions (PStr ''timeout'') ex_checkpoint (PStr ''k'') [PStr ''log''] empty_files = (Inr q, st1) \<and>
     record_decision file_decisions ex_answer st1 = (Inr (resolution_for ex_answer ex_checkpoint), st2)"
proof -
  have "run_checkpoint_wf ex_checkpoint" "named_run (checkpoint_key ex_checkpoint)" "nonblank ''k''"
    "[''log''] \<noteq> []" "\<forall>r \<in> set [''log'']. nonblank r" "human_decision_wf ex_answer"
    "decision_key ex_answer = checkpoint_key ex_checkpoint"
    "hd_request_id ex_answer = request_id_for (cp_mission_run_id ex_checkpoint) TIMEOUT"
    "hd_action ex_answer \<in> set (actions_for TIMEOUT)"
    by code_simp+
  note h = this
  from pause_then_record [OF empty_files_facts(1) h(1-5) empty_files_facts(2-4) _ h(6-9)]
  show ?thesis by auto
qed

text \<open>C27: only a permitted answer is stored. When recording a decision changes the store, the run the
  decision names has a request of the name the decision gives, the action is among those the request
  permits, no decision was stored for the run before, and this one is afterwards.\<close>

theorem decision_stored_only_when_permitted:
  assumes "files_inv st" and "human_decision_wf d" and "record_decision file_decisions d st = (r, st')" and "st' \<noteq> st"
  shows "\<exists>q. request_in st (decision_key d) = Some q \<and> dr_request_id q = hd_request_id d \<and>
    hd_action d \<in> set (dr_permitted_actions q) \<and> decision_in st (decision_key d) = None \<and>
    decision_in st' (decision_key d) = Some d"
proof -
  from decisions.load_request_by_id [OF assms(1), of "hd_request_id d"] obtain found where
    f: "ds_load_request_by_id file_decisions (hd_request_id d) st = (Inr found, st)"
      "case found of None \<Rightarrow> \<forall>k q. named_run k \<longrightarrow> request_in st k = Some q \<longrightarrow> dr_request_id q \<noteq> hd_request_id d
       | Some q \<Rightarrow> dr_request_id q = hd_request_id d \<and> request_in st (request_key q) = Some q" by blast
  note run = assms(3) [unfolded record_decision_def
    bindS_Inr [where m = "ds_load_request_by_id file_decisions (hd_request_id d)" and s = st, OF f(1)]]
  from run assms(4) obtain q where q: "found = Some q" "hd_mission_id d = dr_mission_id q"
    "hd_mission_run_id d = dr_mission_run_id q" "hd_action d \<in> set (dr_permitted_actions q)"
    by (auto split: option.splits if_splits)
  with f(2) have key: "request_in st (decision_key d) = Some q" "dr_request_id q = hd_request_id d" by simp_all
  from key(1) have n: "named_run (decision_key d)" unfolding request_in_Some [OF assms(1)] by blast
  show ?thesis
  proof (cases "decision_in st (decision_key d)")
    case None
    with decisions.save_decision [OF assms(1) n assms(2)] obtain st1 where
      s: "ds_save_decision file_decisions d st = (Inr d, st1)" "files_inv st1"
        "decision_in st1 = (decision_in st)(decision_key d \<mapsto> d)" by auto
    have "st' = st1"
      using run decisions.load_checkpoint [OF s(2), of "request_key q"]
      by (auto simp: q bindS_cases s(1) split: if_splits option.splits sum.splits)
    with s(3) key q None show ?thesis by auto
  next
    case (Some d')
    with decisions.save_decision [OF assms(1) n assms(2)]
    have "ds_save_decision file_decisions d st = (if d' = d then Inr d else Inl (ValueError Conflict), st)" by simp
    then have "st' = st"
      using run decisions.load_checkpoint [OF assms(1), of "request_key q"]
      by (auto simp: q bindS_cases split: if_splits option.splits sum.splits)
    with assms(4) show ?thesis by simp
  qed
qed

definition ex_paused :: file_store where
  "ex_paused = snd (pause file_decisions (PStr ''timeout'') ex_checkpoint (PStr ''k'') [PStr ''log''] empty_files)"

lemma ex_paused_inv: "files_inv ex_paused"
proof -
  have "run_checkpoint_wf ex_checkpoint" "named_run (checkpoint_key ex_checkpoint)" "nonblank ''k''"
    "[''log''] \<noteq> []" "\<forall>r \<in> set [''log'']. nonblank r" by code_simp+
  from decisions.pause_ok [OF empty_files_facts(1) this empty_files_facts(2,3), of TIMEOUT]
  show ?thesis by (auto simp: ex_paused_def)
qed

theorem decision_stored_only_when_permitted_witness:
  "\<exists>q. request_in ex_paused (decision_key ex_answer) = Some q \<and>
     hd_action ex_answer \<in> set (dr_permitted_actions q)"
proof -
  have wf: "human_decision_wf ex_answer" by code_simp
  have "snd (record_decision file_decisions ex_answer ex_paused) \<noteq> ex_paused" by code_simp
  from decision_stored_only_when_permitted [OF ex_paused_inv wf surjective_pairing this]
  show ?thesis by blast
qed

text \<open>Two missions can share a request name. The name of a request contains the run and the category
  but not the mission. When runs of two missions have the same identifier and pause for the same
  reason, a valid decision of the second mission is matched with the request of the first and refused.\<close>

theorem shared_request_name:
  "let first = ex_checkpoint; second = ex_checkpoint\<lparr>cp_mission_id := ''m2''\<rparr>;
       d = ex_answer\<lparr>hd_mission_id := ''m2''\<rparr>;
       s1 = snd (pause file_decisions (PStr ''timeout'') first (PStr ''k'') [PStr ''log''] empty_files);
       (r2, s2) = pause file_decisions (PStr ''timeout'') second (PStr ''k'') [PStr ''log''] s1
   in isOk r2 \<and> dr_request_id (projr r2) = hd_request_id d \<and> dr_mission_id (projr r2) = hd_mission_id d \<and>
      dr_mission_run_id (projr r2) = hd_mission_run_id d \<and> hd_action d \<in> set (dr_permitted_actions (projr r2)) \<and>
      record_decision file_decisions d s2 = (Inl (ValueError MissionMismatch), s2)"
  by code_simp

section \<open>Claiming the continuation of a run\<close>

text \<open>
  \<open>resume_claim\<close> is a context manager: \<open>resume_enter\<close> is what happens up to the \<open>yield\<close>, \<open>resume_exit\<close>
  what happens after the body, which succeeded or raised (or whose process died). The exclusive lock
  on \<open>resume.lock\<close> blocks: entering waits until nobody holds the lock of the run's directory.
\<close>

definition claim_dir :: "human_decision \<Rightarrow> string list" where
  "claim_dir d = directory (hd_mission_id d) (hd_mission_run_id d)"

definition directory_exists :: "string list \<Rightarrow> file_store \<Rightarrow> bool" where
  "directory_exists dir st \<longleftrightarrow>
     (\<exists>p \<in> fst ` set (df_files st). length dir < length p \<and> take (length dir) p = dir)"

definition resume_enter :: "human_decision \<Rightarrow> (bool, file_store) eff" where
  "resume_enter d st =
     (if \<not> directory_exists (claim_dir d) st then (Inl FileNotFoundError, st)
      else let st' = st\<lparr>df_locks := claim_dir d # df_locks st\<rparr>
      in case map_of (df_files st) (completed_path (decision_key d)) of
        Some content \<Rightarrow> if content \<noteq> human_decision_json d then (Inl (ValueError Conflict), st) else (Inr False, st')
      | None \<Rightarrow> (Inr True, st'))"

definition unlocked :: "human_decision \<Rightarrow> file_store \<Rightarrow> file_store" where
  "unlocked d st = st\<lparr>df_locks := removeAll (claim_dir d) (df_locks st)\<rparr>"

definition resume_exit :: "human_decision \<Rightarrow> bool \<Rightarrow> bool \<Rightarrow> (unit, file_store) eff" where
  "resume_exit d claimed succeeded st =
     (if claimed \<and> succeeded
      then case save_immutable (completed_path (decision_key d)) (human_decision_json d) st of
        (r, st') \<Rightarrow> (r, unlocked d st')
      else (Inr (), unlocked d st))"

text \<open>\<open>HumanDecisionCoordinator.resume_claim\<close>: only a resolution that resumes may claim.\<close>

definition claimed_decision :: "decision_resolution \<Rightarrow> human_decision result" where
  "claimed_decision r = (if rs_disposition r \<noteq> RESUME then Inl (ValueError NotPermitted) else Inr (rs_decision r))"

text \<open>
  Any number of processes work on the store: they pause runs, record decisions, enter a claim when the
  lock is free, and leave it. A session is a claim that was entered with the value it was given; the
  last component lists the continuations that were applied, an outcome of a session that was told to.
\<close>

type_synonym claim_state = "file_store \<times> (human_decision \<times> bool) list \<times> human_decision list"

inductive claim_step :: "claim_state \<Rightarrow> claim_state \<Rightarrow> bool" where
  save: "claim_step (st, ss, applied) (snd (save_pause q c st), ss, applied)"
| decide: "claim_step (st, ss, applied) (snd (save_decision d st), ss, applied)"
| enter: "claim_dir d \<notin> set (df_locks st) \<Longrightarrow> human_decision_wf d \<Longrightarrow> resume_enter d st = (Inr b, st') \<Longrightarrow>
    claim_step (st, ss, applied) (st', (d, b) # ss, applied)"
| finish: "(d, b) \<in> set ss \<Longrightarrow> resume_exit d b True st = (Inr (), st') \<Longrightarrow>
    claim_step (st, ss, applied) (st', removeAll (d, b) ss, if b then d # applied else applied)"
| abort: "(d, b) \<in> set ss \<Longrightarrow> resume_exit d b False st = (Inr (), st') \<Longrightarrow>
    claim_step (st, ss, applied) (st', removeAll (d, b) ss, applied)"

inductive claim_run :: "claim_state \<Rightarrow> bool" where
  start: "claim_run (empty_files, [], [])"
| step: "claim_run x \<Longrightarrow> claim_step x y \<Longrightarrow> claim_run y"

inductive_cases claim_stepE: "claim_step x y"

definition completed_in :: "file_store \<Rightarrow> string list \<Rightarrow> json option" where
  "completed_in st dir = map_of (df_files st) (dir @ [''resume-completed.json''])"

lemma completed_path_dir: "completed_path (decision_key d) = claim_dir d @ [''resume-completed.json'']"
  by (simp add: completed_path_def claim_dir_def)

text \<open>Locks are held by the sessions, one per directory; a completion file exists exactly for the
  directories with an applied continuation, and holds it.\<close>

definition claim_inv :: "claim_state \<Rightarrow> bool" where
  "claim_inv x \<longleftrightarrow> (case x of (st, ss, applied) \<Rightarrow>
     set (df_locks st) = claim_dir ` fst ` set ss \<and> distinct (map (claim_dir \<circ> fst) ss) \<and>
     (\<forall>s \<in> set ss. human_decision_wf (fst s) \<and> (snd s \<longrightarrow> completed_in st (claim_dir (fst s)) = None)) \<and>
     distinct (map claim_dir applied) \<and> (\<forall>d \<in> set applied. human_decision_wf d) \<and>
     (\<forall>dir. completed_in st dir = map_option human_decision_json (find (\<lambda>d. claim_dir d = dir) applied)))"

lemma completed_in_save [simp]:
  "path \<noteq> dir @ [''resume-completed.json''] \<Longrightarrow> completed_in (snd (save_immutable path j st)) dir = completed_in st dir"
  "df_locks (snd (save_immutable path j st)) = df_locks st"
  by (auto simp: save_immutable_def completed_in_def split: option.split)

lemma completed_in_save_pause [simp]: "completed_in (snd (save_pause q c st)) dir = completed_in st dir"
    "df_locks (snd (save_pause q c st)) = df_locks st"
  by (auto simp: save_pause_def bindS_cases request_path_def checkpoint_path_def split: sum.split)

lemma completed_in_save_decision [simp]: "completed_in (snd (save_decision d st)) dir = completed_in st dir"
    "df_locks (snd (save_decision d st)) = df_locks st"
  by (auto simp: save_decision_def bindS_cases decision_path_def split: sum.split)

lemma completed_in_locks [simp]: "completed_in (st\<lparr>df_locks := l\<rparr>) dir = completed_in st dir"
  by (simp add: completed_in_def)

lemma resume_enter_Inr:
  assumes "resume_enter d st = (Inr b, st')"
  shows "st' = st\<lparr>df_locks := claim_dir d # df_locks st\<rparr> \<and> (b \<longrightarrow> completed_in st (claim_dir d) = None)"
  using assms by (auto simp: resume_enter_def completed_in_def completed_path_dir Let_def split: if_splits option.splits)

lemma session_removed:
  assumes "distinct (map (claim_dir \<circ> fst) ss)" and "s \<in> set ss"
  shows "claim_dir ` fst ` (set ss - {s}) = claim_dir ` fst ` set ss - {claim_dir (fst s)}"
proof -
  from assms(1) have "inj_on (claim_dir \<circ> fst) (set ss)" by (simp add: distinct_map)
  from inj_on_image_set_diff [OF this _, of "set ss" "{s}"] assms(2) show ?thesis
    by (simp add: image_image)
qed

lemma distinct_map_removeAll: "distinct (map f xs) \<Longrightarrow> distinct (map f (removeAll x xs))"
  by (auto simp: distinct_map distinct_removeAll intro: inj_on_subset)

lemma claim_inv_step:
  assumes "claim_step x y" and "claim_inv x"
  shows "claim_inv y"
  using assms
proof (induction rule: claim_step.induct)
  case (enter d st b st' ss applied)
  from resume_enter_Inr [OF enter(3)] enter(1,2,4) show ?case
    by (auto simp: claim_inv_def)
next
  case (finish d b ss st st' applied)
  then have d: "distinct (map (claim_dir \<circ> fst) ss)" by (simp add: claim_inv_def)
  have rest: "claim_dir ` fst ` (set ss - {(d, b)}) = claim_dir ` fst ` set ss - {claim_dir d}"
    using session_removed [OF d finish(1)] by simp
  show ?case
  proof (cases b)
    case True
    with finish(1,3) have none: "completed_in st (claim_dir d) = None" by (auto simp: claim_inv_def)
    with finish(2) True have st': "st' = unlocked d (written (completed_path (decision_key d)) (human_decision_json d) st)"
      by (simp add: resume_exit_def save_immutable_def written_def completed_in_def completed_path_dir)
    have c: "completed_in st' dir = (if dir = claim_dir d then Some (human_decision_json d) else completed_in st dir)" for dir
      by (simp add: st' unlocked_def written_def completed_in_def completed_path_dir)
    have l: "df_locks st' = removeAll (claim_dir d) (df_locks st)" by (simp add: st' unlocked_def written_def)
    from none finish(3) have new: "find (\<lambda>d'. claim_dir d' = claim_dir d) applied = None" by (simp add: claim_inv_def)
    have other: "claim_dir (fst s) \<noteq> claim_dir d" if "s \<in> set (removeAll (d, b) ss)" for s
    proof -
      from that have "claim_dir (fst s) \<in> claim_dir ` fst ` (set ss - {(d, b)})" by auto
      with rest show ?thesis by simp
    qed
    from finish(3) have I: "set (df_locks st) = claim_dir ` fst ` set ss"
      "\<forall>s \<in> set ss. human_decision_wf (fst s) \<and> (snd s \<longrightarrow> completed_in st (claim_dir (fst s)) = None)"
      "distinct (map claim_dir applied)" "\<forall>d \<in> set applied. human_decision_wf d"
      "\<forall>dir. completed_in st dir = map_option human_decision_json (find (\<lambda>d. claim_dir d = dir) applied)"
      unfolding claim_inv_def prod.case by blast+
    have "claim_inv (st', removeAll (d, b) ss, d # applied)"
      unfolding claim_inv_def prod.case
    proof (intro conjI)
      show "set (df_locks st') = claim_dir ` fst ` set (removeAll (d, b) ss)" using l I(1) rest by simp
      show "distinct (map (claim_dir \<circ> fst) (removeAll (d, b) ss))" by (rule distinct_map_removeAll [OF d])
      show "\<forall>s \<in> set (removeAll (d, b) ss). human_decision_wf (fst s) \<and>
          (snd s \<longrightarrow> completed_in st' (claim_dir (fst s)) = None)"
        using I(2) c other by auto
      show "distinct (map claim_dir (d # applied))" using I(3) new by (auto simp: find_None_iff)
      show "\<forall>d \<in> set (d # applied). human_decision_wf d" using I(2,4) finish(1) by auto
      show "\<forall>dir. completed_in st' dir = map_option human_decision_json (find (\<lambda>d. claim_dir d = dir) (d # applied))"
        using I(5) c by auto
    qed
    with True show ?thesis by simp
  next
    case False
    with finish(2) have "st' = unlocked d st" by (simp add: resume_exit_def)
    with finish(3) False rest d show ?thesis
      by (auto simp: claim_inv_def unlocked_def distinct_map_removeAll)
  qed
next
  case (abort d b ss st st' applied)
  then have d: "distinct (map (claim_dir \<circ> fst) ss)" by (simp add: claim_inv_def)
  have rest: "claim_dir ` fst ` (set ss - {(d, b)}) = claim_dir ` fst ` set ss - {claim_dir d}"
    using session_removed [OF d abort(1)] by simp
  from abort(2) have "st' = unlocked d st" by (simp add: resume_exit_def)
  with abort(3) rest d show ?case
    by (auto simp: claim_inv_def unlocked_def distinct_map_removeAll)
qed (auto simp: claim_inv_def)

lemma claim_run_inv: "claim_run x \<Longrightarrow> claim_inv x"
proof (induction rule: claim_run.induct)
  case start
  then show ?case by (simp add: claim_inv_def empty_files_def completed_in_def)
next
  case (step x y)
  then show ?case by (simp add: claim_inv_step)
qed

lemma find_dir: "find (\<lambda>d. claim_dir d = dir) ds = Some d \<Longrightarrow> d \<in> set ds \<and> claim_dir d = dir"
  by (rule find_mem)



text \<open>Operator records survive storage. A checkpoint, a request and a decision built by their
  constructors are recovered exactly from their canonical JSON text.\<close>

theorem decision_records_round_trip:
  "(run_checkpoint_new a b c d = Inr p \<longrightarrow> run_checkpoint_from_json (Some (thaw (run_checkpoint_json p))) = Inr p) \<and>
   (decision_request_new a b c d e f g h = Inr q \<longrightarrow>
      decision_request_from_json (Some (thaw (decision_request_json q))) = Inr q) \<and>
   (human_decision_new a b c d e = Inr x \<longrightarrow> human_decision_from_json (Some (thaw (human_decision_json x))) = Inr x)"
  by (intro conjI impI run_checkpoint_json_read decision_request_json_read human_decision_json_read)
    (erule run_checkpoint_new_wf decision_request_new_wf human_decision_new_wf)+

theorem decision_records_round_trip_witness:
  "human_decision_from_json (Some (thaw (human_decision_json ex_answer))) = Inr ex_answer"
proof -
  have "human_decision_new (PStr ''d1'') (PStr ''human-decision:r1:timeout'') (PStr ''m/1'') (PStr ''r1'')
    (PStr ''retry_planner'') = Inr ex_answer" by code_simp
  then show ?thesis
    using decision_records_round_trip [of "PStr ''d1''" "PStr ''human-decision:r1:timeout''" "PStr ''m/1''" "PStr ''r1''"
        ex_checkpoint "PStr ''retry_planner''" "PStr ''c1''" "[]" "[]" "projr (fst (pause file_decisions
          (PStr ''timeout'') ex_checkpoint (PStr ''k'') [PStr ''log''] empty_files))" ex_answer] by blast
qed

end
