(* ===== verification/Communication.thy ===== *)
theory Communication
  imports InProcess_Commands
begin

text \<open>
  Correlated messages between agents: the contract of \<open>src/onr/contracts/communication.py\<close> and
  \<open>TransportCommunicationPort\<close> of \<open>src/onr/application/communication.py\<close>, which dispatches a message to
  the handler of its recipient under a lock of the message identity and records the answer as the
  outcome of a command.
\<close>

section \<open>Agent messages\<close>

datatype message_kind = INVOKE | QUERY | REPORT | REPLAN

fun message_kind_text :: "message_kind \<Rightarrow> string" where
  "message_kind_text INVOKE = ''invoke''"
| "message_kind_text QUERY = ''query''"
| "message_kind_text REPORT = ''report''"
| "message_kind_text REPLAN = ''replan''"

definition message_kind_of :: "pyval \<Rightarrow> message_kind result" where
  "message_kind_of v = enum_of message_kind_text [INVOKE, QUERY, REPORT, REPLAN] v"

lemma message_kind_of_text [simp]: "message_kind_of (PStr (message_kind_text k)) = Inr k"
  by (cases k) (simp_all add: message_kind_of_def enum_of_def)

record agent_message =
  am_message_id :: string
  am_correlation_id :: string
  am_mission_id :: string
  am_plan_revision :: int
  am_sender :: string
  am_recipient :: string
  am_kind :: message_kind
  am_payload :: jobj

definition agent_message_new ::
  "pyval \<Rightarrow> pyval \<Rightarrow> pyval \<Rightarrow> pyval \<Rightarrow> pyval \<Rightarrow> pyval \<Rightarrow> pyval \<Rightarrow> pyval \<Rightarrow> agent_message result" where
  "agent_message_new message_id correlation_id mission_id plan_revision sender recipient kind pl =
     bindE (text_of message_id) (\<lambda>i.
     bindE (text_of correlation_id) (\<lambda>cor.
     bindE (text_of mission_id) (\<lambda>mid.
     bindE (text_of sender) (\<lambda>snd.
     bindE (text_of recipient) (\<lambda>rcp.
     bindE (nonneg_int plan_revision) (\<lambda>rev.
     bindE (message_kind_of kind) (\<lambda>k.
     bindE (payload (TypeError KeyNotString) (TypeError NotObject) pl) (\<lambda>p.
       Inr \<lparr>am_message_id = i, am_correlation_id = cor, am_mission_id = mid, am_plan_revision = rev,
         am_sender = snd, am_recipient = rcp, am_kind = k, am_payload = p\<rparr>))))))))"

definition agent_message_to_dict :: "agent_message \<Rightarrow> json" where
  "agent_message_to_dict m = JObj [
     (''message_id'', JStr (am_message_id m)),
     (''correlation_id'', JStr (am_correlation_id m)),
     (''mission_id'', JStr (am_mission_id m)),
     (''plan_revision'', JInt (am_plan_revision m)),
     (''sender'', JStr (am_sender m)),
     (''recipient'', JStr (am_recipient m)),
     (''kind'', JStr (message_kind_text (am_kind m))),
     (''payload'', JObj (am_payload m))]"

definition agent_message_json :: "agent_message \<Rightarrow> json" where
  "agent_message_json m = canonical (agent_message_to_dict m)"

definition agent_message_from_dict :: "pyval \<Rightarrow> agent_message result" where
  "agent_message_from_dict v =
     bindE (strict_fields [''message_id'', ''correlation_id'', ''mission_id'', ''plan_revision'', ''sender'',
       ''recipient'', ''kind'', ''payload''] v) (\<lambda>kvs.
     agent_message_new (item kvs ''message_id'') (item kvs ''correlation_id'') (item kvs ''mission_id'')
       (item kvs ''plan_revision'') (item kvs ''sender'') (item kvs ''recipient'') (item kvs ''kind'')
       (item kvs ''payload''))"

definition agent_message_from_json :: "pyval option \<Rightarrow> agent_message result" where
  "agent_message_from_json decoded = (case decoded of
     None \<Rightarrow> Inl (ValueError InvalidJson)
   | Some v \<Rightarrow> if as_mapping v = None then Inl (TypeError NotObject) else agent_message_from_dict v)"

definition agent_message_wf :: "agent_message \<Rightarrow> bool" where
  "agent_message_wf m \<longleftrightarrow> nonblank (am_message_id m) \<and> nonblank (am_correlation_id m) \<and>
     nonblank (am_mission_id m) \<and> nonblank (am_sender m) \<and> nonblank (am_recipient m) \<and>
     0 \<le> am_plan_revision m \<and> wf_obj (am_payload m)"

lemma agent_message_new_wf: "agent_message_new a b c d e f g h = Inr m \<Longrightarrow> wf_py h \<Longrightarrow> agent_message_wf m"
  by (auto simp: agent_message_new_def agent_message_wf_def err_simps payload_wf)

lemma agent_message_view:
  "agent_message_wf m \<Longrightarrow> agent_message_from_dict (view b (agent_message_to_dict m)) = Inr m"
  by (simp add: agent_message_from_dict_def agent_message_to_dict_def agent_message_new_def agent_message_wf_def)

lemma agent_message_json_view:
  "agent_message_wf m \<Longrightarrow> agent_message_from_json (Some (view b (agent_message_json m))) =
     Inr (m\<lparr>am_payload := canonical_obj (am_payload m)\<rparr>)"
  by (simp add: agent_message_from_json_def agent_message_from_dict_def agent_message_json_def
      agent_message_to_dict_def agent_message_new_def agent_message_wf_def map_of_canonical_obj)

lemma agent_message_dict_wf: "agent_message_wf m \<Longrightarrow> agent_message_to_dict m = JObj d \<Longrightarrow> wf_obj d"
  by (auto simp: agent_message_to_dict_def agent_message_wf_def wf_obj_def)

section \<open>The communication port\<close>

text \<open>
  The registered handlers by their recipient (a handler is its identity) and the message identities
  whose lock is held. Locks that are free need not be represented.
\<close>

record comm_port =
  cm_handlers :: "(string \<times> nat) list"
  cm_locks :: "string list"

definition register :: "pyval \<Rightarrow> nat option \<Rightarrow> (unit, comm_port) eff" where
  "register recipient handler cm =
     (case text_of recipient of
        Inl e \<Rightarrow> (Inl e, cm)
      | Inr r \<Rightarrow> (case handler of
          None \<Rightarrow> (Inl (TypeError BadType), cm)
        | Some h \<Rightarrow>
            (case map_of (cm_handlers cm) r of
               Some existing \<Rightarrow> if existing \<noteq> h then (Inl (ValueError AlreadyActive), cm)
                 else (Inr (), cm\<lparr>cm_handlers := put r h (cm_handlers cm)\<rparr>)
             | None \<Rightarrow> (Inr (), cm\<lparr>cm_handlers := put r h (cm_handlers cm)\<rparr>))))"

definition available_recipients :: "pyval \<Rightarrow> comm_port \<Rightarrow> string list result" where
  "available_recipients sender cm =
     bindE (text_of sender) (\<lambda>s. Inr (sort (filter (\<lambda>r. r \<noteq> s) (map fst (cm_handlers cm)))))"

text \<open>What a handler did: it returned an outcome, or an object whose \<open>to_dict()\<close>, if any, gave the value,
  or it raised, with the text and the type of the exception.\<close>

datatype response = ROutcome command_outcome | RValue pyval | RRaised string string

definition failure_payload :: "string \<Rightarrow> string \<Rightarrow> pyval" where
  "failure_payload text kind = PDict [(KStr ''error'', PStr text), (KStr ''error_type'', PStr kind)]"

fun response_payload :: "response \<Rightarrow> command_status \<times> pyval" where
  "response_payload (ROutcome r) = (COMPLETED, proxied (JObj (oc_payload r)))"
| "response_payload (RValue v) = (case as_mapping v of
     Some kvs \<Rightarrow> (COMPLETED, PDict kvs)
   | None \<Rightarrow> (FAILED, failure_payload ''agent communication handler must return a JSON object'' ''TypeError''))"
| "response_payload (RRaised text kind) = (FAILED, failure_payload text kind)"

definition message_outcome :: "agent_message \<Rightarrow> command_status \<Rightarrow> pyval \<Rightarrow> command_outcome result" where
  "message_outcome m status pl = command_outcome_new (PInt 1) (PStr (am_message_id m))
     (PStr (am_correlation_id m)) (PStr (am_mission_id m)) (PStr (status_text status)) pl"

definition message_command :: "agent_message \<Rightarrow> command result" where
  "message_command m = command_new (PInt 1) (PStr (am_message_id m)) (PStr (am_correlation_id m))
     (PStr (am_mission_id m)) (PStr (am_recipient m)) (PStr ''agent-message'') (thaw (agent_message_to_dict m))"

definition in_flight_outcome :: "agent_message \<Rightarrow> command_outcome result" where
  "in_flight_outcome m = message_outcome m ALREADY_IN_FLIGHT
     (PDict [(KStr ''status'', PStr ''already_in_flight'')])"

text \<open>
  \<open>request\<close> in its stages, between which other threads may run: the first look for an outcome, the lock,
  the second look and the command, and, after the handler, the outcome. A stage either finishes the
  call with a result or says what it is waiting for. The lock is released whenever a call that holds it
  finishes.
\<close>

datatype call = Looked nat | Locked nat | Handling nat | Finished "command_outcome result"

definition release :: "string \<Rightarrow> comm_port \<Rightarrow> comm_port" where
  "release i cm = cm\<lparr>cm_locks := removeAll i (cm_locks cm)\<rparr>"

definition request_begin :: "'s command_port \<Rightarrow> agent_message \<Rightarrow> comm_port \<times> 's \<Rightarrow> call" where
  "request_begin P m cs = (case map_of (cm_handlers (fst cs)) (am_recipient m) of
     None \<Rightarrow> Finished (Inl (ValueError Undeclared))
   | Some h \<Rightarrow> (case cport_get_outcome P (am_message_id m) (snd cs) of
       Some existing \<Rightarrow> Finished (Inr existing)
     | None \<Rightarrow> Looked h))"

definition request_lock :: "nat \<Rightarrow> agent_message \<Rightarrow> comm_port \<times> 's \<Rightarrow> call \<times> (comm_port \<times> 's)" where
  "request_lock h m cs = (case cs of (cm, s) \<Rightarrow>
     if am_message_id m \<in> set (cm_locks cm) then (Finished (in_flight_outcome m), cs)
     else (Locked h, (cm\<lparr>cm_locks := am_message_id m # cm_locks cm\<rparr>, s)))"

definition request_send :: "'s command_port \<Rightarrow> nat \<Rightarrow> agent_message \<Rightarrow> comm_port \<times> 's \<Rightarrow> call \<times> (comm_port \<times> 's)" where
  "request_send P h m cs = (case cs of (cm, s) \<Rightarrow>
     (case cport_get_outcome P (am_message_id m) s of
        Some existing \<Rightarrow> (Finished (Inr existing), (release (am_message_id m) cm, s))
      | None \<Rightarrow> (case message_command m of
          Inl e \<Rightarrow> (Finished (Inl e), (release (am_message_id m) cm, s))
        | Inr c \<Rightarrow> (case cport_send_command P c s of
            (Inl e, s') \<Rightarrow> (Finished (Inl e), (release (am_message_id m) cm, s'))
          | (Inr _, s') \<Rightarrow> (Handling h, (cm, s'))))))"

definition request_answer :: "'s command_port \<Rightarrow> response \<Rightarrow> agent_message \<Rightarrow> comm_port \<times> 's \<Rightarrow> call \<times> (comm_port \<times> 's)" where
  "request_answer P response m cs = (case cs of (cm, s) \<Rightarrow> case response_payload response of (status, pl) \<Rightarrow>
     (case message_outcome m status pl of
        Inl e \<Rightarrow> (Finished (Inl e), (release (am_message_id m) cm, s))
      | Inr r \<Rightarrow> (case cport_publish_outcome P r s of
          (Inl e, s') \<Rightarrow> (Finished (Inl e), (release (am_message_id m) cm, s'))
        | (Inr _, s') \<Rightarrow> (Finished (Inr r), (release (am_message_id m) cm, s')))))"

text \<open>A call that nothing interrupts; \<open>H h m\<close> is what handler \<open>h\<close> makes of \<open>m\<close>, with what it does to the
  port and the transport meanwhile.\<close>

definition request :: "'s command_port \<Rightarrow> (nat \<Rightarrow> agent_message \<Rightarrow> comm_port \<times> 's \<Rightarrow> response \<times> (comm_port \<times> 's)) \<Rightarrow>
  agent_message \<Rightarrow> (command_outcome, comm_port \<times> 's) eff" where
  "request P H m cs = (case request_begin P m cs of
     Looked h \<Rightarrow> (case request_lock h m cs of
       (Locked h, cs1) \<Rightarrow> (case request_send P h m cs1 of
         (Handling h, cs2) \<Rightarrow> (case H h m cs2 of (response, cs3) \<Rightarrow>
           (case request_answer P response m cs3 of
              (Finished r, cs4) \<Rightarrow> (r, cs4) | (_, cs4) \<Rightarrow> (Inl AssertionError, cs4)))
       | (Finished r, cs2) \<Rightarrow> (r, cs2)
       | (_, cs2) \<Rightarrow> (Inl AssertionError, cs2))
     | (Finished r, cs1) \<Rightarrow> (r, cs1)
     | (_, cs1) \<Rightarrow> (Inl AssertionError, cs1))
   | Finished r \<Rightarrow> (r, cs)
   | _ \<Rightarrow> (Inl AssertionError, cs))"

section \<open>Threads\<close>

text \<open>
  Any number of threads call \<open>request\<close>: calls are numbered, and a thread performs one stage at a time.
  \<open>E\<close> is what others do to the transport; a handler that itself uses the port appears as further calls.
  The last two components list the messages for which a handler was started and those whose handler
  ran but whose answer was not recorded.
\<close>

type_synonym 's comm_state =
  "(comm_port \<times> 's) \<times> (nat \<Rightarrow> (agent_message \<times> call) option) \<times> string list \<times> string list"

inductive comm_step :: "'s command_port \<Rightarrow> ('s \<Rightarrow> 's \<Rightarrow> bool) \<Rightarrow> 's comm_state \<Rightarrow> 's comm_state \<Rightarrow> bool"
  for P :: "'s command_port" and E :: "'s \<Rightarrow> 's \<Rightarrow> bool" where
  other: "E s s' \<Longrightarrow> comm_step P E ((cm, s), calls, started, lost) ((cm, s'), calls, started, lost)"
| register: "comm_step P E ((cm, s), calls, started, lost) ((snd (register v h cm), s), calls, started, lost)"
| arrive: "calls n = None \<Longrightarrow> agent_message_wf m \<Longrightarrow>
    comm_step P E (cs, calls, started, lost) (cs, calls(n \<mapsto> (m, request_begin P m cs)), started, lost)"
| lock: "calls n = Some (m, Looked h) \<Longrightarrow> request_lock h m cs = (c, cs') \<Longrightarrow>
    comm_step P E (cs, calls, started, lost) (cs', calls(n \<mapsto> (m, c)), started, lost)"
| send: "calls n = Some (m, Locked h) \<Longrightarrow> request_send P h m cs = (c, cs') \<Longrightarrow>
    comm_step P E (cs, calls, started, lost)
      (cs', calls(n \<mapsto> (m, c)), if c = Handling h then am_message_id m # started else started, lost)"
| answer: "calls n = Some (m, Handling h) \<Longrightarrow> request_answer P response m cs = (c, cs') \<Longrightarrow>
    comm_step P E (cs, calls, started, lost)
      (cs', calls(n \<mapsto> (m, c)), started,
       case c of Finished (Inr r) \<Rightarrow> lost | _ \<Rightarrow> am_message_id m # lost)"

inductive comm_run :: "'s command_port \<Rightarrow> ('s \<Rightarrow> 's \<Rightarrow> bool) \<Rightarrow> 's \<Rightarrow> 's comm_state \<Rightarrow> bool"
  for P :: "'s command_port" and E :: "'s \<Rightarrow> 's \<Rightarrow> bool" and s0 :: 's where
  start: "cm_locks cm = [] \<Longrightarrow> comm_run P E s0 ((cm, s0), \<lambda>_. None, [], [])"
| step: "comm_run P E s0 x \<Longrightarrow> comm_step P E x y \<Longrightarrow> comm_run P E s0 y"

text \<open>The calls for a message identity that hold its lock, and those whose handler is running.\<close>

fun holding :: "call \<Rightarrow> bool" where
  "holding (Locked h) = True" | "holding (Handling h) = True" | "holding _ = False"

fun handling :: "call \<Rightarrow> bool" where
  "handling (Handling h) = True" | "handling _ = False"

definition callers :: "(call \<Rightarrow> bool) \<Rightarrow> (nat \<Rightarrow> (agent_message \<times> call) option) \<Rightarrow> string \<Rightarrow> nat set" where
  "callers Q calls i = {n. \<exists>m c. calls n = Some (m, c) \<and> am_message_id m = i \<and> Q c}"

lemma callers_update: "callers Q (calls(n \<mapsto> (m, c))) i =
    (if am_message_id m = i \<and> Q c then insert n (callers Q calls i) else callers Q calls i - {n})"
  by (auto simp: callers_def)

lemma callers_empty [simp]: "callers Q (\<lambda>_. None) i = {}"
  by (simp add: callers_def)

lemma callers_mem: "n \<in> callers Q calls i \<longleftrightarrow> (\<exists>m c. calls n = Some (m, c) \<and> am_message_id m = i \<and> Q c)"
  by (simp add: callers_def)

lemma handling_holding: "callers handling calls i \<subseteq> callers holding calls i"
proof -
  have "handling c \<Longrightarrow> holding c" for c by (cases c) simp_all
  then show ?thesis by (auto simp: callers_def)
qed

definition locks_inv :: "comm_port \<Rightarrow> (nat \<Rightarrow> (agent_message \<times> call) option) \<Rightarrow> bool" where
  "locks_inv cm calls \<longleftrightarrow> (\<forall>i. (i \<in> set (cm_locks cm) \<longleftrightarrow> callers holding calls i \<noteq> {}) \<and>
     (\<forall>n n'. n \<in> callers holding calls i \<longrightarrow> n' \<in> callers holding calls i \<longrightarrow> n = n'))"

definition started_inv :: "(string \<Rightarrow> command_outcome option) \<Rightarrow> (nat \<Rightarrow> (agent_message \<times> call) option) \<Rightarrow>
  string list \<Rightarrow> string list \<Rightarrow> bool" where
  "started_inv outcomes calls started lost \<longleftrightarrow> (\<forall>i. count_list started i \<le> count_list lost i +
     (if outcomes i \<noteq> None \<or> callers handling calls i \<noteq> {} then 1 else 0))"

definition results_inv :: "(string \<Rightarrow> command_outcome option) \<Rightarrow> (nat \<Rightarrow> (agent_message \<times> call) option) \<Rightarrow> bool" where
  "results_inv outcomes calls \<longleftrightarrow> (\<forall>n m r. calls n = Some (m, Finished (Inr r)) \<longrightarrow>
     in_flight_outcome m = Inr r \<or>
     (\<exists>r'. outcomes (am_message_id m) = Some r' \<and> command_outcome_json r' = command_outcome_json r))"

definition messages_wf :: "(nat \<Rightarrow> (agent_message \<times> call) option) \<Rightarrow> bool" where
  "messages_wf calls \<longleftrightarrow> (\<forall>n m c. calls n = Some (m, c) \<longrightarrow> agent_message_wf m)"

lemma locks_release:
  assumes "locks_inv cm calls" and "calls n = Some (m, c)" and "holding c" and "\<not> holding c'"
  shows "locks_inv (release (am_message_id m) cm) (calls(n \<mapsto> (m, c')))"
proof -
  have n: "n \<in> callers holding calls (am_message_id m)" using assms(2,3) by (auto simp: callers_mem)
  with assms(1) have "callers holding calls (am_message_id m) = {n}" unfolding locks_inv_def by blast
  moreover have "n \<notin> callers holding calls i" if "i \<noteq> am_message_id m" for i
    using assms(2) that by (auto simp: callers_mem)
  ultimately show ?thesis using assms(1,4)
    by (auto simp: locks_inv_def callers_update release_def)
qed

lemma locks_same:
  assumes "locks_inv cm calls" and "calls n = None \<or> (\<exists>c. calls n = Some (m, c) \<and> holding c = holding c')"
    and "calls n = None \<Longrightarrow> \<not> holding c'"
  shows "locks_inv cm (calls(n \<mapsto> (m, c')))"
proof -
  have "callers holding (calls(n \<mapsto> (m, c'))) = callers holding calls"
    using assms(2,3) by (fastforce simp: callers_def fun_eq_iff)
  with assms(1) show ?thesis by (simp add: locks_inv_def)
qed

lemma locks_take:
  assumes "locks_inv cm calls" and "calls n = Some (m, c)" and "holding c'"
    and "am_message_id m \<notin> set (cm_locks cm)"
  shows "locks_inv (cm\<lparr>cm_locks := am_message_id m # cm_locks cm\<rparr>) (calls(n \<mapsto> (m, c')))"
proof -
  from assms(1,4) have "callers holding calls (am_message_id m) = {}" by (auto simp: locks_inv_def)
  moreover have "n \<notin> callers holding calls i" if "i \<noteq> am_message_id m" for i
    using assms(2) that by (auto simp: callers_mem)
  ultimately show ?thesis using assms(1,3) by (auto simp: locks_inv_def callers_update)
qed

lemma locks_register: "locks_inv (snd (register v h cm)) calls = locks_inv cm calls"
proof -
  have "cm_locks (snd (register v h cm)) = cm_locks cm"
    by (simp add: register_def split: sum.split option.split)
  then show ?thesis by (simp add: locks_inv_def)
qed

lemma results_update:
  assumes "results_inv os calls" and "\<And>r. c = Finished (Inr r) \<Longrightarrow> in_flight_outcome m = Inr r \<or>
    (\<exists>r'. os (am_message_id m) = Some r' \<and> command_outcome_json r' = command_outcome_json r)"
  shows "results_inv os (calls(n \<mapsto> (m, c)))"
  using assms by (auto simp: results_inv_def)

definition keeps :: "(string \<Rightarrow> command_outcome option) \<Rightarrow> (string \<Rightarrow> command_outcome option) \<Rightarrow> bool" where
  "keeps os os' \<longleftrightarrow> (\<forall>i r. os i = Some r \<longrightarrow> os' i = Some r)"

lemma keeps_refl [simp]: "keeps os os"
  by (simp add: keeps_def)

lemma results_keeps: "results_inv os calls \<Longrightarrow> keeps os os' \<Longrightarrow> results_inv os' calls"
  unfolding results_inv_def keeps_def by blast

lemma started_keeps:
  assumes "started_inv os calls st lo" and "keeps os os'"
  shows "started_inv os' calls st lo"
proof -
  have kept: "os i \<noteq> None \<Longrightarrow> os' i \<noteq> None" for i using assms(2) by (auto simp: keeps_def)
  show ?thesis
    unfolding started_inv_def
  proof
    fix i
    have "count_list st i \<le> count_list lo i + (if os i \<noteq> None \<or> callers handling calls i \<noteq> {} then 1 else 0)"
      using assms(1) by (simp add: started_inv_def)
    with kept [of i] show "count_list st i \<le> count_list lo i +
        (if os' i \<noteq> None \<or> callers handling calls i \<noteq> {} then 1 else 0)"
      by (auto split: if_splits)
  qed
qed

lemma started_same:
  assumes "started_inv os calls st lo" and "\<not> handling c'" and "\<And>c. calls n = Some (m, c) \<Longrightarrow> \<not> handling c"
    and "calls n = None \<or> (\<exists>c. calls n = Some (m, c))"
  shows "started_inv os (calls(n \<mapsto> (m, c'))) st lo"
proof -
  have "callers handling (calls(n \<mapsto> (m, c'))) = callers handling calls"
    using assms(2-4) by (fastforce simp: callers_def fun_eq_iff)
  with assms(1) show ?thesis by (simp add: started_inv_def)
qed

text \<open>A handler is started only when none is running and no outcome is recorded.\<close>

lemma started_handling:
  assumes "started_inv os calls st lo" and "os (am_message_id m) = None"
    and "callers handling calls (am_message_id m) = {}"
    and "calls n = Some (m, c)"
  shows "started_inv os (calls(n \<mapsto> (m, Handling h))) (am_message_id m # st) lo"
  unfolding started_inv_def
proof
  fix i
  show "count_list (am_message_id m # st) i \<le> count_list lo i +
    (if os i \<noteq> None \<or> callers handling (calls(n \<mapsto> (m, Handling h))) i \<noteq> {} then 1 else 0)"
  proof (cases "i = am_message_id m")
    case True
    have "count_list st (am_message_id m) \<le> count_list lo (am_message_id m)"
      using assms(1) [unfolded started_inv_def, rule_format, of "am_message_id m"] assms(2,3) by simp
    then show ?thesis by (simp add: True callers_update)
  next
    case False
    with assms(4) have "n \<notin> callers handling calls i" by (simp add: callers_mem)
    with False assms(1) show ?thesis by (simp add: callers_update started_inv_def)
  qed
qed

lemma started_finished:
  assumes "started_inv os calls st lo" and "calls n = Some (m, Handling h)" and "keeps os os'"
    and "os' (am_message_id m) \<noteq> None"
  shows "started_inv os' (calls(n \<mapsto> (m, Finished r))) st lo"
  unfolding started_inv_def
proof
  fix i
  have "started_inv os' calls st lo" by (rule started_keeps [OF assms(1,3)])
  then have c: "count_list st i \<le> count_list lo i + (if os' i \<noteq> None \<or> callers handling calls i \<noteq> {} then 1 else 0)"
    by (simp add: started_inv_def)
  show "count_list st i \<le> count_list lo i +
    (if os' i \<noteq> None \<or> callers handling (calls(n \<mapsto> (m, Finished r))) i \<noteq> {} then 1 else 0)"
  proof (cases "i = am_message_id m")
    case True
    with c assms(4) show ?thesis by simp
  next
    case False
    with assms(2) have "n \<notin> callers handling calls i" by (simp add: callers_mem)
    with c show ?thesis by (simp add: callers_update)
  qed
qed

lemma started_lost:
  assumes "started_inv os calls st lo" and "calls n = Some (m, Handling h)" and "keeps os os'"
  shows "started_inv os' (calls(n \<mapsto> (m, Finished r))) st (am_message_id m # lo)"
  unfolding started_inv_def
proof
  fix i
  have "started_inv os' calls st lo" by (rule started_keeps [OF assms(1,3)])
  then have c: "count_list st i \<le> count_list lo i + (if os' i \<noteq> None \<or> callers handling calls i \<noteq> {} then 1 else 0)"
    by (simp add: started_inv_def)
  show "count_list st i \<le> count_list (am_message_id m # lo) i +
    (if os' i \<noteq> None \<or> callers handling (calls(n \<mapsto> (m, Finished r))) i \<noteq> {} then 1 else 0)"
  proof (cases "i = am_message_id m")
    case True
    with c show ?thesis by (auto split: if_splits)
  next
    case False
    with assms(2) have "n \<notin> callers handling calls i" by (simp add: callers_mem)
    with c False show ?thesis by (simp add: callers_update)
  qed
qed

section \<open>The stages over a command log\<close>

lemma message_outcome_id: "message_outcome m st pl = Inr r \<Longrightarrow> oc_command_id r = am_message_id m"
  by (auto simp: message_outcome_def command_outcome_new_def err_simps split: if_splits)

lemma message_command_Inr:
  assumes "agent_message_wf m"
  shows "\<exists>c. message_command m = Inr c \<and> command_wf c \<and> cmd_command_id c = am_message_id m"
proof -
  obtain d where d: "agent_message_to_dict m = JObj d" by (simp add: agent_message_to_dict_def)
  with assms agent_message_dict_wf [OF assms d] show ?thesis
    by (simp add: message_command_def command_new_def agent_message_wf_def d command_wf_def)
qed

lemma in_flight_outcome_Inr: "agent_message_wf m \<Longrightarrow> \<exists>r. in_flight_outcome m = Inr r \<and> oc_status r = ALREADY_IN_FLIGHT"
  by (simp add: in_flight_outcome_def message_outcome_def command_outcome_new_def agent_message_wf_def
      command_status_of_def enum_of_def payload_def)

definition comm_inv :: "('s \<Rightarrow> bool) \<Rightarrow> ('s \<Rightarrow> string \<Rightarrow> command_outcome option) \<Rightarrow> 's comm_state \<Rightarrow> bool" where
  "comm_inv valid outcome_at x \<longleftrightarrow> (case x of ((cm, s), calls, started, lost) \<Rightarrow>
     valid s \<and> locks_inv cm calls \<and> started_inv (outcome_at s) calls started lost \<and>
     results_inv (outcome_at s) calls \<and> messages_wf calls)"

context command_log
begin

lemma send_stage:
  assumes "inv s" and "agent_message_wf m" and "request_send P h m (cm, s) = (c, (cm', s'))"
  shows "inv s' \<and> outcome_at s' = outcome_at s \<and>
    ((c = Handling h \<and> cm' = cm \<and> outcome_at s (am_message_id m) = None) \<or>
     (\<exists>r. c = Finished r \<and> cm' = release (am_message_id m) cm \<and>
       (\<forall>x. r = Inr x \<longrightarrow> outcome_at s (am_message_id m) = Some x)))"
proof -
  from message_command_Inr [OF assms(2)] obtain k where k: "message_command m = Inr k" "command_wf k" by blast
  from send_state [OF assms(1) k(2)] assms k(1) show ?thesis
    by (auto simp: request_send_def get_outcome [OF assms(1)] split: option.splits prod.splits sum.splits)
qed

lemma answer_stage:
  assumes "inv s" and "request_answer P response m (cm, s) = (c, (cm', s'))"
  shows "\<exists>r. c = Finished r \<and> cm' = release (am_message_id m) cm \<and> inv s' \<and> keeps (outcome_at s) (outcome_at s') \<and>
    (\<forall>x. r = Inr x \<longrightarrow> (\<exists>r'. outcome_at s' (am_message_id m) = Some r' \<and>
       command_outcome_json r' = command_outcome_json x))"
proof (cases "message_outcome m (fst (response_payload response)) (snd (response_payload response))")
  case (Inl e)
  with assms show ?thesis by (auto simp: request_answer_def split: prod.splits)
next
  case (Inr r)
  have i: "oc_command_id r = am_message_id m" by (rule message_outcome_id [OF Inr])
  from assms(2) Inr obtain y where y: "cport_publish_outcome P r s = (y, s')" "cm' = release (am_message_id m) cm"
    "c = Finished (case y of Inl e \<Rightarrow> Inl e | Inr _ \<Rightarrow> Inr r)"
    by (auto simp: request_answer_def split: prod.splits sum.splits)
  from answer_state [OF assms(1), of r] answer_Inr [OF assms(1), of r] y i show ?thesis
    by (auto simp: keeps_def split: sum.splits)
qed

lemma comm_inv_step:
  assumes "comm_step P E x y" and "comm_inv inv outcome_at x"
    and E: "\<And>s s'. E s s' \<Longrightarrow> inv s \<Longrightarrow> inv s' \<and> keeps (outcome_at s) (outcome_at s')"
  shows "comm_inv inv outcome_at y"
  using assms(1,2)
proof (induction rule: comm_step.induct)
  case (other s s' cm calls started lost)
  then have "inv s'" "keeps (outcome_at s) (outcome_at s')" using E by (auto simp: comm_inv_def)
  with other(2) show ?case by (auto simp: comm_inv_def intro: started_keeps results_keeps)
next
  case (register cm s calls started lost v h)
  then show ?case by (simp add: comm_inv_def locks_register)
next
  case (arrive calls n m cs started lost)
  obtain cm s where cs: "cs = (cm, s)" by (cases cs)
  from arrive(3) have I: "inv s" "locks_inv cm calls" "started_inv (outcome_at s) calls started lost"
    "results_inv (outcome_at s) calls" "messages_wf calls" by (simp_all add: comm_inv_def cs)
  let ?c = "request_begin P m cs"
  have c: "\<not> holding ?c" "\<not> handling ?c"
    "\<And>r. ?c = Finished (Inr r) \<Longrightarrow> outcome_at s (am_message_id m) = Some r"
    by (auto simp: request_begin_def cs get_outcome [OF I(1)] split: option.splits)
  have "locks_inv cm (calls(n \<mapsto> (m, ?c)))" using locks_same [OF I(2)] arrive(1) c(1) by blast
  moreover have "started_inv (outcome_at s) (calls(n \<mapsto> (m, ?c))) started lost"
    using arrive(1) by (intro started_same [OF I(3) c(2)]) auto
  moreover have "results_inv (outcome_at s) (calls(n \<mapsto> (m, ?c)))"
    using c(3) by (intro results_update [OF I(4)]) blast
  moreover have "messages_wf (calls(n \<mapsto> (m, ?c)))" using I(5) arrive(2) by (auto simp: messages_wf_def)
  ultimately show ?case using I(1) by (simp add: comm_inv_def cs)
next
  case (lock calls n m h cs c cs' started lost)
  obtain cm s where cs: "cs = (cm, s)" by (cases cs)
  from lock(3) have I: "inv s" "locks_inv cm calls" "started_inv (outcome_at s) calls started lost"
    "results_inv (outcome_at s) calls" "messages_wf calls" by (simp_all add: comm_inv_def cs)
  from lock(2) have c: "\<not> handling c" "\<And>r. c = Finished (Inr r) \<Longrightarrow> in_flight_outcome m = Inr r"
    by (auto simp: request_lock_def cs split: if_splits)
  have "locks_inv (fst cs') (calls(n \<mapsto> (m, c)))"
  proof (cases "am_message_id m \<in> set (cm_locks cm)")
    case True
    with lock(2) cs have "fst cs' = cm" "\<not> holding c" by (auto simp: request_lock_def)
    with locks_same [OF I(2), of n m c] lock(1) show ?thesis by simp
  next
    case False
    with lock(2) cs have "fst cs' = cm\<lparr>cm_locks := am_message_id m # cm_locks cm\<rparr>" "holding c"
      by (auto simp: request_lock_def)
    with locks_take [OF I(2) lock(1) _ False] show ?thesis by simp
  qed
  moreover have "snd cs' = s" using lock(2) by (auto simp: request_lock_def cs split: if_splits)
  moreover have "started_inv (outcome_at s) (calls(n \<mapsto> (m, c))) started lost"
    using lock(1) by (intro started_same [OF I(3) c(1)]) auto
  moreover have "results_inv (outcome_at s) (calls(n \<mapsto> (m, c)))"
    using c(2) by (intro results_update [OF I(4)]) blast
  moreover have "messages_wf (calls(n \<mapsto> (m, c)))" using I(5) lock(1) by (auto simp: messages_wf_def)
  ultimately show ?case using I(1) by (cases cs') (simp add: comm_inv_def)
next
  case (send calls n m h cs c cs' started lost)
  obtain cm s where cs: "cs = (cm, s)" by (cases cs)
  obtain cm' s' where cs': "cs' = (cm', s')" by (cases cs')
  from send(3) have I: "inv s" "locks_inv cm calls" "started_inv (outcome_at s) calls started lost"
    "results_inv (outcome_at s) calls" "messages_wf calls" by (simp_all add: comm_inv_def cs)
  from I(5) send(1) have wf: "agent_message_wf m" by (auto simp: messages_wf_def)
  from send_stage [OF I(1) wf] send(2) have st: "inv s'" "outcome_at s' = outcome_at s" and cases:
    "(c = Handling h \<and> cm' = cm \<and> outcome_at s (am_message_id m) = None) \<or>
     (\<exists>r. c = Finished r \<and> cm' = release (am_message_id m) cm \<and>
       (\<forall>x. r = Inr x \<longrightarrow> outcome_at s (am_message_id m) = Some x))" unfolding cs cs' by blast+
  have wf': "messages_wf (calls(n \<mapsto> (m, c)))" using I(5) wf by (auto simp: messages_wf_def)
  from cases show ?case
  proof
    assume *: "c = Handling h \<and> cm' = cm \<and> outcome_at s (am_message_id m) = None"
    have n: "n \<in> callers holding calls (am_message_id m)" using send(1) by (simp add: callers_mem)
    have none: "callers handling calls (am_message_id m) = {}"
    proof (rule ccontr)
      assume "callers handling calls (am_message_id m) \<noteq> {}"
      then obtain n' where n': "n' \<in> callers handling calls (am_message_id m)" by blast
      with handling_holding have "n' \<in> callers holding calls (am_message_id m)" by blast
      with n I(2) have "n' = n" unfolding locks_inv_def by blast
      with n' send(1) show False by (auto simp: callers_mem)
    qed
    have "locks_inv cm (calls(n \<mapsto> (m, Handling h)))" using locks_same [OF I(2), of n m "Handling h"] send(1) by simp
    moreover have "started_inv (outcome_at s) (calls(n \<mapsto> (m, Handling h))) (am_message_id m # started) lost"
      using * by (intro started_handling [OF I(3) _ none send(1)]) simp
    moreover have "results_inv (outcome_at s) (calls(n \<mapsto> (m, Handling h)))"
      by (intro results_update [OF I(4)]) simp
    ultimately show ?case using st wf' * by (simp add: comm_inv_def cs')
  next
    assume "\<exists>r. c = Finished r \<and> cm' = release (am_message_id m) cm \<and>
       (\<forall>x. r = Inr x \<longrightarrow> outcome_at s (am_message_id m) = Some x)"
    then obtain r where r: "c = Finished r" "cm' = release (am_message_id m) cm"
      "\<And>x. r = Inr x \<Longrightarrow> outcome_at s (am_message_id m) = Some x" by blast
    have "locks_inv cm' (calls(n \<mapsto> (m, c)))" using locks_release [OF I(2) send(1)] r(1,2) by simp
    moreover have "started_inv (outcome_at s) (calls(n \<mapsto> (m, c))) started lost"
      using send(1) r(1) by (intro started_same [OF I(3)]) auto
    moreover have "results_inv (outcome_at s) (calls(n \<mapsto> (m, c)))"
      using r(1,3) by (intro results_update [OF I(4)]) blast
    ultimately show ?case using st wf' r(1) by (simp add: comm_inv_def cs')
  qed
next
  case (answer calls n m h response cs c cs' started lost)
  obtain cm s where cs: "cs = (cm, s)" by (cases cs)
  obtain cm' s' where cs': "cs' = (cm', s')" by (cases cs')
  from answer(3) have I: "inv s" "locks_inv cm calls" "started_inv (outcome_at s) calls started lost"
    "results_inv (outcome_at s) calls" "messages_wf calls" by (simp_all add: comm_inv_def cs)
  from answer_stage [OF I(1)] answer(2) obtain r where r: "c = Finished r" "cm' = release (am_message_id m) cm"
    "inv s'" "keeps (outcome_at s) (outcome_at s')"
    "\<And>x. r = Inr x \<Longrightarrow> \<exists>r'. outcome_at s' (am_message_id m) = Some r' \<and>
       command_outcome_json r' = command_outcome_json x" unfolding cs cs' by blast
  have "messages_wf (calls(n \<mapsto> (m, c)))" using I(5) answer(1) by (auto simp: messages_wf_def)
  moreover have "locks_inv cm' (calls(n \<mapsto> (m, c)))" using locks_release [OF I(2) answer(1)] r(1,2) by simp
  moreover have "results_inv (outcome_at s') (calls(n \<mapsto> (m, c)))"
    using r(1,5) by (intro results_update [OF results_keeps [OF I(4) r(4)]]) blast
  moreover have "started_inv (outcome_at s') (calls(n \<mapsto> (m, c))) started
      (case c of Finished (Inr r) \<Rightarrow> lost | _ \<Rightarrow> am_message_id m # lost)"
  proof (cases r)
    case (Inl e)
    with started_lost [OF I(3) answer(1) r(4)] r(1) show ?thesis by simp
  next
    case (Inr x)
    with r(5) have "outcome_at s' (am_message_id m) \<noteq> None" by blast
    from started_finished [OF I(3) answer(1) r(4) this] Inr r(1) show ?thesis by simp
  qed
  ultimately show ?case using r(3) by (simp add: comm_inv_def cs')
qed

lemma comm_run_inv:
  assumes "comm_run P E s0 x" and "inv s0"
    and "\<And>s s'. E s s' \<Longrightarrow> inv s \<Longrightarrow> inv s' \<and> keeps (outcome_at s) (outcome_at s')"
  shows "comm_inv inv outcome_at x"
  using assms(1)
proof (induction rule: comm_run.induct)
  case (start cm)
  with assms(2) show ?case
    by (simp add: comm_inv_def locks_inv_def started_inv_def results_inv_def messages_wf_def)
next
  case (step x y)
  from comm_inv_step [OF step(2,3) assms(3)] show ?case by blast
qed

end

section \<open>Requests over the in-process transport\<close>

lemma comm_run_inprocess:
  assumes "comm_run inprocess_commands transport_other s0 x" and "log_inv s0"
  shows "comm_inv log_inv outcome_in x"
  using transport_other_inv
  by (intro inproc_commands.comm_run_inv [OF assms]) (simp add: keeps_def)

text \<open>C12: a message is handled at most once. Whatever threads request whatever messages, and whatever
  others do to the transport, no two threads run a handler for the same message identity at a time, and
  a handler is started again for an identity only when an earlier answer to it could not be recorded.\<close>

theorem handler_runs_once:
  assumes "comm_run inprocess_commands transport_other s0 ((cm, s), calls, started, lost)" and "log_inv s0"
    and "calls a = Some (m, Handling h)" and "calls b = Some (m', Handling h')"
    and "am_message_id m = am_message_id m'"
  shows "a = b \<and> count_list started i \<le> count_list lost i + 1"
proof -
  from comm_run_inprocess [OF assms(1,2)] have I: "locks_inv cm calls" "started_inv (outcome_in s) calls started lost"
    by (simp_all add: comm_inv_def)
  have "a \<in> callers holding calls (am_message_id m)" "b \<in> callers holding calls (am_message_id m)"
    using assms(3-5) by (simp_all add: callers_mem)
  with I(1) have "a = b" unfolding locks_inv_def by blast
  moreover have "count_list started i \<le> count_list lost i + 1"
    using I(2) [unfolded started_inv_def, rule_format, of i] by (auto split: if_splits)
  ultimately show ?thesis by blast
qed

text \<open>Every caller of a message gets the same answer. A call that returns an outcome returns either
  \<open>already_in_flight\<close> or the outcome that the transport has recorded for the message, with the same
  canonical text.\<close>

theorem callers_agree:
  assumes "comm_run inprocess_commands transport_other s0 ((cm, s), calls, started, lost)" and "log_inv s0"
    and "calls a = Some (m, Finished (Inr r))" and "oc_status r \<noteq> ALREADY_IN_FLIGHT"
  shows "\<exists>r'. get_command_outcome (am_message_id m) s = Some r' \<and> command_outcome_json r' = command_outcome_json r"
proof -
  from comm_run_inprocess [OF assms(1,2)] have I: "results_inv (outcome_in s) calls" "messages_wf calls"
    by (simp_all add: comm_inv_def)
  from I(2) assms(3) have "agent_message_wf m" unfolding messages_wf_def by blast
  from in_flight_outcome_Inr [OF this] assms(4) have "in_flight_outcome m \<noteq> Inr r" by auto
  with I(1) assms(3) show ?thesis
    unfolding results_inv_def by (fastforce simp: outcome_in_def get_command_outcome_def)
qed

definition ex_message :: agent_message where
  "ex_message = \<lparr>am_message_id = ''a1'', am_correlation_id = ''k1'', am_mission_id = ''m1'', am_plan_revision = 0,
     am_sender = ''hyper'', am_recipient = ''maneuver-control'', am_kind = QUERY, am_payload = []\<rparr>"

definition ex_comm :: comm_port where
  "ex_comm = \<lparr>cm_handlers = [(''maneuver-control'', 7)], cm_locks = []\<rparr>"

definition ex_locked :: "call \<times> (comm_port \<times> transport_state)" where
  "ex_locked = request_lock 7 ex_message (ex_comm, initial_state)"

definition ex_handling :: "call \<times> (comm_port \<times> transport_state)" where
  "ex_handling = request_send inprocess_commands 7 ex_message (snd ex_locked)"

definition ex_answered :: "call \<times> (comm_port \<times> transport_state)" where
  "ex_answered = request_answer inprocess_commands (RValue (PDict [(KStr ''ok'', PBool True)])) ex_message (snd ex_handling)"

lemma ex_comm_run:
  "comm_run inprocess_commands transport_other initial_state
     (snd ex_handling, (\<lambda>_. None)(0 \<mapsto> (ex_message, Handling 7)), [''a1''], [])"
proof -
  let ?R = "comm_run inprocess_commands transport_other initial_state"
  have b: "request_begin inprocess_commands ex_message (ex_comm, initial_state) = Looked 7" by code_simp
  have l: "request_lock 7 ex_message (ex_comm, initial_state) = (Locked 7, snd ex_locked)"
    unfolding ex_locked_def by code_simp
  have s: "request_send inprocess_commands 7 ex_message (snd ex_locked) = (Handling 7, snd ex_handling)"
    unfolding ex_handling_def by code_simp
  have wf: "agent_message_wf ex_message" by code_simp
  have "?R ((ex_comm, initial_state), (\<lambda>_. None), [], [])" by (rule comm_run.start) (simp add: ex_comm_def)
  from comm_run.step [OF this comm_step.arrive [where n = 0, OF _ wf]] b
  have "?R ((ex_comm, initial_state), (\<lambda>_. None)(0 \<mapsto> (ex_message, Looked 7)), [], [])" by simp
  from comm_run.step [OF this comm_step.lock [where n = 0, OF _ l]]
  have "?R (snd ex_locked, (\<lambda>_. None)(0 \<mapsto> (ex_message, Locked 7)), [], [])" by simp
  from comm_run.step [OF this comm_step.send [where n = 0, OF _ s]] show ?thesis by (simp add: ex_message_def)
qed

theorem handler_runs_once_witness:
  "count_list [''a1''] ''a1'' \<le> count_list [] ''a1'' + 1"
proof -
  obtain cm s where cs: "snd ex_handling = (cm, s)" by (cases "snd ex_handling")
  from handler_runs_once [where a = 0 and b = 0 and i = "''a1''", OF ex_comm_run [unfolded cs] log_inv_initial]
  show ?thesis by simp
qed

theorem callers_agree_witness:
  "\<exists>r'. get_command_outcome ''a1'' (snd (snd ex_answered)) = Some r'"
proof -
  obtain cm s where cs: "snd ex_answered = (cm, s)" by (cases "snd ex_answered")
  obtain r where r: "fst ex_answered = Finished (Inr r)" "oc_status r \<noteq> ALREADY_IN_FLIGHT"
  proof -
    have "(case fst ex_answered of Finished (Inr r) \<Rightarrow> oc_status r = COMPLETED | _ \<Rightarrow> False)" by code_simp
    then show thesis by (auto split: call.splits sum.splits intro: that)
  qed
  have "request_answer inprocess_commands (RValue (PDict [(KStr ''ok'', PBool True)])) ex_message (snd ex_handling) =
      (Finished (Inr r), (cm, s))"
    using r(1) cs by (simp add: ex_answered_def [symmetric] prod_eq_iff)
  from comm_run.step [OF ex_comm_run comm_step.answer [where n = 0, OF _ this]]
  have run: "comm_run inprocess_commands transport_other initial_state
     ((cm, s), (\<lambda>_. None)(0 \<mapsto> (ex_message, Finished (Inr r))), [''a1''], [])" by simp
  have "((\<lambda>_. None)(0 \<mapsto> (ex_message, Finished (Inr r)))) (0 :: nat) = Some (ex_message, Finished (Inr r))" by simp
  from callers_agree [OF run log_inv_initial this r(2)] show ?thesis by (auto simp: cs ex_message_def)
qed

text \<open>Requesting again changes nothing. After a request has returned an outcome that is not
  \<open>already_in_flight\<close>, requesting the same message again returns the recorded outcome, with the same
  canonical text, without running a handler and without changing the port or the transport.\<close>

theorem request_again:
  assumes "log_inv (snd cs)" and "agent_message_wf m"
    and "request inprocess_commands H m cs = (Inr r, cs')" and "oc_status r \<noteq> ALREADY_IN_FLIGHT"
    and H: "\<And>h cs. log_inv (snd cs) \<Longrightarrow>
      log_inv (snd (snd (H h m cs))) \<and> cm_handlers (fst (snd (H h m cs))) = cm_handlers (fst cs)"
  shows "\<exists>r'. request inprocess_commands H' m cs' = (Inr r', cs') \<and>
    command_outcome_json r' = command_outcome_json r"
proof -
  obtain cm s where cs: "cs = (cm, s)" by (cases cs)
  have inv: "log_inv s" using assms(1) by (simp add: cs)
  have again: "request inprocess_commands H' m cs' = (Inr r', cs')"
    if "map_of (cm_handlers (fst cs')) (am_recipient m) = Some h" "outcome_in (snd cs') (am_message_id m) = Some r'"
    for h r'
    using that by (simp add: request_def request_begin_def inprocess_commands_def get_command_outcome_def outcome_in_def)
  note get = inproc_commands.get_outcome [OF inv]
  obtain h where h: "map_of (cm_handlers cm) (am_recipient m) = Some h"
    using assms(3) by (cases "map_of (cm_handlers cm) (am_recipient m)") (simp_all add: request_def request_begin_def cs)
  show ?thesis
  proof (cases "outcome_in s (am_message_id m)")
    case (Some r')
    with assms(3) h have "cs' = cs" "r = r'" by (simp_all add: request_def request_begin_def cs get)
    with again [of h r'] h Some show ?thesis by (simp add: cs)
  next
    case None
    from in_flight_outcome_Inr [OF assms(2)] assms(3,4) h None
    have free: "am_message_id m \<notin> set (cm_locks cm)"
      by (auto simp: request_def request_begin_def request_lock_def cs get)
    obtain c cm2 s2 where send: "request_send inprocess_commands h m
        (cm\<lparr>cm_locks := am_message_id m # cm_locks cm\<rparr>, s) = (c, (cm2, s2))" by (metis prod.collapse)
    note stage = inproc_commands.send_stage [OF inv assms(2) send]
    have no: "(\<forall>x. q \<noteq> Inr x) \<Longrightarrow> \<exists>e. q = Inl e" for q :: "command_outcome result" by (cases q) auto
    from stage have inv2: "log_inv s2" by blast
    from stage None no have c: "(c = Handling h \<and> cm2 = cm\<lparr>cm_locks := am_message_id m # cm_locks cm\<rparr>) \<or> (\<exists>e. c = Finished (Inl e))"
      by (metis option.distinct(1))
    from c assms(3) h None free send have hd: "c = Handling h" "cm_handlers cm2 = cm_handlers cm"
      by (auto simp: request_def request_begin_def request_lock_def cs get)
    obtain response cm3 s3 where r3: "H h m (cm2, s2) = (response, (cm3, s3))" by (metis prod.collapse)
    from H [of "(cm2, s2)" h] inv2 hd(2) r3 have inv3: "log_inv s3" "cm_handlers cm3 = cm_handlers cm" by simp_all
    obtain c4 cm4 s4 where r4: "request_answer inprocess_commands response m (cm3, s3) = (c4, (cm4, s4))"
      by (metis prod.collapse)
    from inproc_commands.answer_stage [OF inv3(1) r4] obtain q where q: "c4 = Finished q"
      "cm4 = release (am_message_id m) cm3"
      "\<forall>x. q = Inr x \<longrightarrow> (\<exists>r'. outcome_in s4 (am_message_id m) = Some r' \<and>
         command_outcome_json r' = command_outcome_json x)" by blast
    have "request inprocess_commands H m cs = (q, (cm4, s4))"
      using h None free send hd(1) r3 r4 q(1)
      by (simp add: request_def request_begin_def request_lock_def cs get)
    with assms(3) have "q = Inr r" "cs' = (cm4, s4)" by simp_all
    with q(2,3) inv3(2) h again show ?thesis by (auto simp: release_def)
  qed
qed

theorem request_again_witness:
  "\<exists>r' cs'. request inprocess_commands (\<lambda>h m cs. (RRaised ''boom'' ''KeyError'', cs)) ex_message cs' = (Inr r', cs') \<and>
     get_command_outcome ''a1'' (snd cs') = Some r'"
proof -
  let ?H = "\<lambda>(h :: nat) (m :: agent_message) (cs :: comm_port \<times> transport_state). (RValue (PDict [(KStr ''ok'', PBool True)]), cs)"
  let ?H' = "\<lambda>(h :: nat) (m :: agent_message) (cs :: comm_port \<times> transport_state). (RRaised ''boom'' ''KeyError'', cs)"
  have wf: "agent_message_wf ex_message" by code_simp
  have "(case request inprocess_commands ?H ex_message (ex_comm, initial_state) of
      (Inr r, cs') \<Rightarrow> oc_status r = COMPLETED \<and> get_command_outcome ''a1'' (snd cs') = Some r | _ \<Rightarrow> False)"
    by code_simp
  then obtain r cs' where r: "request inprocess_commands ?H ex_message (ex_comm, initial_state) = (Inr r, cs')"
    "oc_status r = COMPLETED" "get_command_outcome ''a1'' (snd cs') = Some r"
    by (auto split: prod.splits sum.splits)
  from request_again [where H = ?H and H' = ?H', OF _ wf r(1)] r(2) obtain r' where
    r': "request inprocess_commands ?H' ex_message cs' = (Inr r', cs')" by auto
  then have "get_command_outcome ''a1'' (snd cs') = Some r'"
    using r(3) by (auto simp: request_def request_begin_def inprocess_commands_def ex_message_def split: option.splits)
  with r' show ?thesis by blast
qed

text \<open>An answer that is not JSON is lost. The outcome is built after the handler has run and outside the
  \<open>try\<close> that turns failures into outcomes: a handler that returns a number that is not finite makes the
  request raise with nothing recorded, and requesting the same message again runs the handler again.\<close>

theorem unsafe_answer_runs_again:
  "let H = (\<lambda>h m cs. (RValue (PDict [(KStr ''score'', PFloat NaN)]), cs));
       (r1, cs1) = request inprocess_commands H ex_message (ex_comm, initial_state);
       (c, cs2) = request_lock 7 ex_message cs1
   in r1 = Inl (ValueError NotFinite) \<and> get_command_outcome ''a1'' (snd cs1) = None \<and>
      request_begin inprocess_commands ex_message cs1 = Looked 7 \<and> c = Locked 7 \<and>
      fst (request_send inprocess_commands 7 ex_message cs2) = Handling 7"
  by code_simp

text \<open>Agent messages survive the wire. A message built by its constructor is recovered exactly from its
  dictionary form, thawed or frozen, and up to the order of payload keys from its canonical JSON text.\<close>

theorem agent_message_round_trip:
  assumes "agent_message_new a b c d e f g h = Inr m" and "wf_py h"
  shows "agent_message_from_dict (view frozen (agent_message_to_dict m)) = Inr m \<and>
    (\<exists>m'. agent_message_from_json (Some (thaw (agent_message_json m))) = Inr m' \<and>
       m' = m\<lparr>am_payload := am_payload m'\<rparr> \<and> jobj_eq (am_payload m) (am_payload m'))"
proof -
  have wf: "agent_message_wf m" by (rule agent_message_new_wf [OF assms])
  then have "jobj_eq (am_payload m) (canonical_obj (am_payload m))" by (simp add: agent_message_wf_def)
  with agent_message_view [OF wf, of frozen] agent_message_json_view [OF wf, of False] show ?thesis by simp
qed

theorem agent_message_round_trip_witness:
  "agent_message_from_dict (thaw (agent_message_to_dict ex_message)) = Inr ex_message"
proof -
  have "agent_message_new (PStr ''a1'') (PStr ''k1'') (PStr ''m1'') (PInt 0) (PStr ''hyper'')
    (PStr ''maneuver-control'') (PStr ''query'') (PDict []) = Inr ex_message" by code_simp
  from agent_message_round_trip [OF this, of False] show ?thesis by simp
qed

end
