(* ===== verification/Normalized_Plans.thy ===== *)
theory Normalized_Plans
  imports Planning_Contracts "HOL-Library.Multiset"
begin

text \<open>
  The two plan envelopes of \<open>src/onr/contracts/planning.py\<close>: \<open>PlannerPlan\<close>, the reference to an accepted
  planner-native plan, and \<open>NormalizedPlan\<close>, the planner-independent plan in its canonical order.
\<close>

section \<open>Planner Plan\<close>

record planner_plan =
  pp_mission_id :: string
  pp_source_authority :: string
  pp_plan_revision :: int
  pp_mission_snapshot_id :: string
  pp_planner_choice :: planner_choice
  pp_outcome :: planning_outcome
  pp_artifact_reference :: string

text \<open>\<open>if not an integer: raise; if value < 0: raise\<close>.\<close>

definition plan_revision_of :: "pyval \<Rightarrow> int result" where
  "plan_revision_of v = bindE (integer v) (\<lambda>n. bindE (guardE (\<not> n < 0) (ValueError NotNonNegativeInt)) (\<lambda>_. Inr n))"

lemma plan_revision_of_Inr [err_simps]: "plan_revision_of v = Inr n \<longleftrightarrow> v = PInt n \<and> 0 \<le> n"
  by (auto simp: plan_revision_of_def err_simps)

definition planner_plan_new ::
  "pyval \<Rightarrow> pyval \<Rightarrow> pyval \<Rightarrow> pyval \<Rightarrow> planner_choice \<Rightarrow> pyval \<Rightarrow> pyval \<Rightarrow> planner_plan result" where
  "planner_plan_new mission_id source_authority plan_revision snapshot_id choice outcome reference =
     bindE (text_of mission_id) (\<lambda>mid.
     bindE (text_of source_authority) (\<lambda>auth.
     bindE (plan_revision_of plan_revision) (\<lambda>n.
     bindE (text_of snapshot_id) (\<lambda>sid.
     bindE (planning_outcome_of outcome) (\<lambda>x.
     bindE (text_of reference) (\<lambda>ref.
       Inr \<lparr>pp_mission_id = mid, pp_source_authority = auth, pp_plan_revision = n,
         pp_mission_snapshot_id = sid, pp_planner_choice = choice, pp_outcome = x,
         pp_artifact_reference = ref\<rparr>))))))"

definition planner_plan_to_dict :: "planner_plan \<Rightarrow> json" where
  "planner_plan_to_dict p = JObj [
     (''mission_id'', JStr (pp_mission_id p)),
     (''source_authority'', JStr (pp_source_authority p)),
     (''plan_revision'', JInt (pp_plan_revision p)),
     (''mission_snapshot_id'', JStr (pp_mission_snapshot_id p)),
     (''planner_choice'', planner_choice_to_dict (pp_planner_choice p)),
     (''outcome'', JStr (outcome_text (pp_outcome p))),
     (''planner_native_plan_artifact_reference'', JStr (pp_artifact_reference p))]"

definition planner_plan_json :: "planner_plan \<Rightarrow> json" where
  "planner_plan_json p = canonical (planner_plan_to_dict p)"

definition planner_plan_from_dict :: "pyval \<Rightarrow> planner_plan result" where
  "planner_plan_from_dict v =
     bindE (strict_fields [''mission_id'', ''source_authority'', ''plan_revision'', ''mission_snapshot_id'',
       ''planner_choice'', ''outcome'', ''planner_native_plan_artifact_reference''] v) (\<lambda>kvs.
     bindE (planner_choice_from_dict (item kvs ''planner_choice'')) (\<lambda>choice.
     planner_plan_new (item kvs ''mission_id'') (item kvs ''source_authority'') (item kvs ''plan_revision'')
       (item kvs ''mission_snapshot_id'') choice (item kvs ''outcome'')
       (item kvs ''planner_native_plan_artifact_reference'')))"

text \<open>\<open>from_json\<close> of both envelopes: the decoded value must be an object.\<close>

definition plan_from_json :: "(pyval \<Rightarrow> 'a result) \<Rightarrow> pyval option \<Rightarrow> 'a result" where
  "plan_from_json from_dict decoded = (case decoded of
     None \<Rightarrow> Inl (ValueError InvalidJson)
   | Some v \<Rightarrow> if as_mapping v = None then Inl (ValueError NotObject) else from_dict v)"

definition planner_plan_from_json :: "pyval option \<Rightarrow> planner_plan result" where
  "planner_plan_from_json decoded = plan_from_json planner_plan_from_dict decoded"

definition planner_plan_wf :: "planner_plan \<Rightarrow> bool" where
  "planner_plan_wf p \<longleftrightarrow> nonblank (pp_mission_id p) \<and> nonblank (pp_source_authority p) \<and>
     0 \<le> pp_plan_revision p \<and> nonblank (pp_mission_snapshot_id p) \<and> planner_choice_wf (pp_planner_choice p) \<and>
     nonblank (pp_artifact_reference p)"

lemma planner_plan_new_wf:
  "planner_plan_new a b c d choice e f = Inr p \<Longrightarrow> planner_choice_wf choice \<Longrightarrow> planner_plan_wf p"
  by (auto simp: planner_plan_new_def planner_plan_wf_def err_simps)

lemma planner_plan_view:
  "planner_plan_wf p \<Longrightarrow> planner_plan_from_dict (view b (planner_plan_to_dict p)) = Inr p"
  by (simp add: planner_plan_from_dict_def planner_plan_to_dict_def planner_plan_new_def planner_plan_wf_def
      plan_revision_of_def)

lemma planner_plan_json_view:
  "planner_plan_wf p \<Longrightarrow> planner_plan_from_json (Some (view b (planner_plan_json p))) = Inr p"
  by (simp add: planner_plan_from_json_def plan_from_json_def planner_plan_from_dict_def planner_plan_json_def
      planner_plan_to_dict_def planner_plan_new_def planner_plan_wf_def plan_revision_of_def
      map_of_canonical_obj insert_commute)

section \<open>Normalized Plan\<close>

text \<open>An element of \<open>maneuvers\<close> is a record of one of the two classes.\<close>

datatype plan_element = Scheduled scheduled_maneuver | Step symbolic_plan_step

record normalized_plan =
  np_mission_id :: string
  np_source_authority :: string
  np_plan_revision :: int
  np_mission_snapshot_id :: string
  np_planner_choice :: planner_choice
  np_outcome :: planning_outcome
  np_maneuvers :: "plan_element list"

fun is_scheduled :: "plan_element \<Rightarrow> bool" where
  "is_scheduled (Scheduled m) = True"
| "is_scheduled (Step s) = False"

fun step_index_of :: "plan_element \<Rightarrow> int" where
  "step_index_of (Step s) = sp_step_index s"
| "step_index_of (Scheduled m) = 0"

text \<open>The sort key \<open>(item.start, item.maneuver_id)\<close>.\<close>

fun schedule_key :: "plan_element \<Rightarrow> int \<times> string" where
  "schedule_key (Scheduled m) = (sd_start m, sd_maneuver_id m)"
| "schedule_key (Step s) = (0, sp_maneuver_id s)"

definition checked_maneuvers :: "planning_profile \<Rightarrow> planning_outcome \<Rightarrow> plan_element list \<Rightarrow> unit result" where
  "checked_maneuvers profile outcome ms =
     (if profile = TEMPORAL then guardE (list_all is_scheduled ms) (ValueError BadType)
      else bindE (guardE (\<not> list_ex is_scheduled ms) (ValueError BadType)) (\<lambda>_.
        guardE (\<not> (outcome = SOLVED \<and> map step_index_of ms \<noteq> map int [0..<length ms])) (ValueError Inconsistent)))"

definition normalized_plan_new ::
  "pyval \<Rightarrow> pyval \<Rightarrow> pyval \<Rightarrow> pyval \<Rightarrow> planner_choice \<Rightarrow> pyval \<Rightarrow> plan_element list \<Rightarrow> normalized_plan result" where
  "normalized_plan_new mission_id source_authority plan_revision snapshot_id choice outcome ms =
     bindE (text_of mission_id) (\<lambda>mid.
     bindE (text_of source_authority) (\<lambda>auth.
     bindE (plan_revision_of plan_revision) (\<lambda>n.
     bindE (text_of snapshot_id) (\<lambda>sid.
     bindE (planning_outcome_of outcome) (\<lambda>x.
     bindE (checked_maneuvers (pc_planning_profile choice) x ms) (\<lambda>_.
     bindE (guardE (\<not> (x \<noteq> SOLVED \<and> ms \<noteq> [])) (ValueError NotPermitted)) (\<lambda>_.
       Inr \<lparr>np_mission_id = mid, np_source_authority = auth, np_plan_revision = n,
         np_mission_snapshot_id = sid, np_planner_choice = choice, np_outcome = x,
         np_maneuvers = (if pc_planning_profile choice = TEMPORAL then sort_key schedule_key ms else ms)\<rparr>)))))))"

definition symbolic_steps :: "normalized_plan \<Rightarrow> plan_element list" where
  "symbolic_steps p = (if list_ex is_scheduled (np_maneuvers p) then [] else np_maneuvers p)"

fun plan_element_to_dict :: "plan_element \<Rightarrow> json" where
  "plan_element_to_dict (Scheduled m) = scheduled_maneuver_to_dict m"
| "plan_element_to_dict (Step s) = symbolic_plan_step_to_dict s"

definition normalized_plan_to_dict :: "normalized_plan \<Rightarrow> json" where
  "normalized_plan_to_dict p = JObj [
     (''mission_id'', JStr (np_mission_id p)),
     (''source_authority'', JStr (np_source_authority p)),
     (''plan_revision'', JInt (np_plan_revision p)),
     (''mission_snapshot_id'', JStr (np_mission_snapshot_id p)),
     (''planner_choice'', planner_choice_to_dict (np_planner_choice p)),
     (''outcome'', JStr (outcome_text (np_outcome p))),
     (''maneuvers'', JArr (map plan_element_to_dict (np_maneuvers p)))]"

definition normalized_plan_json :: "normalized_plan \<Rightarrow> json" where
  "normalized_plan_json p = canonical (normalized_plan_to_dict p)"

definition plan_element_from_dict :: "planning_profile \<Rightarrow> pyval \<Rightarrow> plan_element result" where
  "plan_element_from_dict profile raw =
     (if profile = TEMPORAL then bindE (scheduled_maneuver_from_dict raw) (\<lambda>m. Inr (Scheduled m))
      else bindE (symbolic_plan_step_from_dict raw) (\<lambda>s. Inr (Step s)))"

definition normalized_plan_from_dict :: "pyval \<Rightarrow> normalized_plan result" where
  "normalized_plan_from_dict v = (case as_mapping v of
     None \<Rightarrow> Inl (ValueError NotObject)
   | Some kvs \<Rightarrow>
       bindE (guardE (has_fields [''mission_id'', ''source_authority'', ''plan_revision'',
         ''mission_snapshot_id'', ''planner_choice'', ''outcome'', ''maneuvers''] kvs) (ValueError FieldMismatch)) (\<lambda>_.
       bindE (planner_choice_from_dict (item kvs ''planner_choice'')) (\<lambda>choice.
       (case as_array (item kvs ''maneuvers'') of
          None \<Rightarrow> Inl (ValueError NotArray)
        | Some raws \<Rightarrow>
            bindE (mapE (plan_element_from_dict (pc_planning_profile choice)) raws) (\<lambda>ms.
            normalized_plan_new (item kvs ''mission_id'') (item kvs ''source_authority'') (item kvs ''plan_revision'')
              (item kvs ''mission_snapshot_id'') choice (item kvs ''outcome'') ms)))))"

definition normalized_plan_from_json :: "pyval option \<Rightarrow> normalized_plan result" where
  "normalized_plan_from_json decoded = plan_from_json normalized_plan_from_dict decoded"

section \<open>Well-formed plans\<close>

fun plan_element_wf :: "plan_element \<Rightarrow> bool" where
  "plan_element_wf (Scheduled m) = scheduled_maneuver_wf m"
| "plan_element_wf (Step s) = symbolic_plan_step_wf s"

text \<open>The order of a plan: a schedule by start time and identifier, or steps numbered from 0.\<close>

definition plan_ordered :: "planning_profile \<Rightarrow> plan_element list \<Rightarrow> bool" where
  "plan_ordered profile ms \<longleftrightarrow>
     (if profile = TEMPORAL then list_all is_scheduled ms \<and> sorted (map schedule_key ms)
      else \<not> list_ex is_scheduled ms \<and> map step_index_of ms = map int [0..<length ms])"

definition normalized_plan_wf :: "normalized_plan \<Rightarrow> bool" where
  "normalized_plan_wf p \<longleftrightarrow> nonblank (np_mission_id p) \<and> nonblank (np_source_authority p) \<and>
     0 \<le> np_plan_revision p \<and> nonblank (np_mission_snapshot_id p) \<and> planner_choice_wf (np_planner_choice p) \<and>
     (\<forall>m \<in> set (np_maneuvers p). plan_element_wf m) \<and>
     plan_ordered (pc_planning_profile (np_planner_choice p)) (np_maneuvers p) \<and>
     (np_outcome p \<noteq> SOLVED \<longrightarrow> np_maneuvers p = [])"

lemma checked_maneuvers_Inr: "checked_maneuvers profile x ms = Inr u \<longleftrightarrow>
    (if profile = TEMPORAL then list_all is_scheduled ms
     else \<not> list_ex is_scheduled ms \<and> (x = SOLVED \<longrightarrow> map step_index_of ms = map int [0..<length ms]))"
  by (auto simp: checked_maneuvers_def)

lemma checked_ordered:
  assumes "checked_maneuvers profile x ms = Inr u" and "x \<noteq> SOLVED \<longrightarrow> ms = []"
  shows "plan_ordered profile (if profile = TEMPORAL then sort_key schedule_key ms else ms)"
  using assms by (auto simp: checked_maneuvers_Inr plan_ordered_def list_all_iff split: if_splits)

lemma normalized_plan_new_Inr: "normalized_plan_new (PStr mid) (PStr auth) (PInt n) (PStr sid) choice
      (PStr (outcome_text x)) ms = Inr p \<longleftrightarrow>
    nonblank mid \<and> nonblank auth \<and> 0 \<le> n \<and> nonblank sid \<and>
    checked_maneuvers (pc_planning_profile choice) x ms = Inr () \<and> (x \<noteq> SOLVED \<longrightarrow> ms = []) \<and>
    p = \<lparr>np_mission_id = mid, np_source_authority = auth, np_plan_revision = n, np_mission_snapshot_id = sid,
      np_planner_choice = choice, np_outcome = x,
      np_maneuvers = (if pc_planning_profile choice = TEMPORAL then sort_key schedule_key ms else ms)\<rparr>"
  by (auto simp: normalized_plan_new_def err_simps)

lemma normalized_plan_new_wf:
  assumes "normalized_plan_new a b c d choice e ms = Inr p" and "planner_choice_wf choice"
    and "\<forall>m \<in> set ms. plan_element_wf m"
  shows "normalized_plan_wf p"
proof -
  from assms(1) obtain x where x: "checked_maneuvers (pc_planning_profile choice) x ms = Inr ()"
    "x \<noteq> SOLVED \<longrightarrow> ms = []" "np_outcome p = x" "np_planner_choice p = choice"
    "np_maneuvers p = (if pc_planning_profile choice = TEMPORAL then sort_key schedule_key ms else ms)"
    and f: "nonblank (np_mission_id p)" "nonblank (np_source_authority p)" "0 \<le> np_plan_revision p"
      "nonblank (np_mission_snapshot_id p)"
    by (auto simp: normalized_plan_new_def err_simps)
  from checked_ordered [OF x(1,2)] x f assms(2,3) show ?thesis by (auto simp: normalized_plan_wf_def)
qed

lemma plan_element_from_dict_wf: "plan_element_from_dict profile v = Inr m \<Longrightarrow> wf_py v \<Longrightarrow> plan_element_wf m"
  by (auto simp: plan_element_from_dict_def err_simps split: if_splits
      intro: scheduled_maneuver_from_dict_wf symbolic_plan_step_from_dict_wf)

lemma wf_array: "as_array v = Some vs \<Longrightarrow> wf_py v \<Longrightarrow> x \<in> set vs \<Longrightarrow> wf_py x"
  by (cases v) auto

lemma normalized_plan_from_dict_wf:
  assumes "normalized_plan_from_dict v = Inr p" and "wf_py v"
  shows "normalized_plan_wf p"
proof -
  from assms(1) obtain kvs choice raws ms where k: "as_mapping v = Some kvs"
    "planner_choice_from_dict (item kvs ''planner_choice'') = Inr choice"
    "as_array (item kvs ''maneuvers'') = Some raws"
    "mapE (plan_element_from_dict (pc_planning_profile choice)) raws = Inr ms"
    "normalized_plan_new (item kvs ''mission_id'') (item kvs ''source_authority'') (item kvs ''plan_revision'')
      (item kvs ''mission_snapshot_id'') choice (item kvs ''outcome'') ms = Inr p"
    by (auto simp: normalized_plan_from_dict_def err_simps split: option.splits)
  have "plan_element_wf m" if "m \<in> set ms" for m
    using mapE_Inr_set [OF k(4) that] wf_array [OF k(3) wf_item [OF k(1) assms(2)]]
    by (auto intro: plan_element_from_dict_wf)
  with normalized_plan_new_wf [OF k(5) planner_choice_from_dict_wf [OF k(2)]] show ?thesis by blast
qed

section \<open>Reading plans back\<close>

lemma scheduled_maneuver_json_view: "scheduled_maneuver_wf m \<Longrightarrow>
    scheduled_maneuver_from_dict (view b (canonical (scheduled_maneuver_to_dict m))) =
      Inr (m\<lparr>sd_intent := canonical_intent (sd_intent m)\<rparr>)"
  by (simp add: scheduled_maneuver_from_dict_def scheduled_maneuver_to_dict_def scheduled_maneuver_new_def
      scheduled_maneuver_wf_def mapE_map_Inr [where h = id] sort_key_id_if_sorted insert_commute
      map_of_canonical_obj canonical_maneuver_intent comp_def)

lemma symbolic_plan_step_json_view:
  assumes "symbolic_plan_step_wf m"
  shows "symbolic_plan_step_from_dict (view b (canonical (symbolic_plan_step_to_dict m))) =
    Inr (m\<lparr>sp_intent := canonical_intent (sp_intent m)\<rparr>)"
proof -
  have "checked_dependencies (sp_maneuver_id m) (map PStr (sp_dependencies m)) = Inr (sp_dependencies m)"
    using assms by (auto simp: checked_dependencies_Inr symbolic_plan_step_wf_def sort_key_id_if_sorted)
  with assms show ?thesis
    by (simp add: symbolic_plan_step_from_dict_def symbolic_plan_step_to_dict_def symbolic_plan_step_new_def
        symbolic_plan_step_wf_def insert_commute map_of_canonical_obj canonical_maneuver_intent comp_def)
qed

fun canonical_element :: "plan_element \<Rightarrow> plan_element" where
  "canonical_element (Scheduled m) = Scheduled (m\<lparr>sd_intent := canonical_intent (sd_intent m)\<rparr>)"
| "canonical_element (Step s) = Step (s\<lparr>sp_intent := canonical_intent (sp_intent s)\<rparr>)"

definition canonical_plan :: "normalized_plan \<Rightarrow> normalized_plan" where
  "canonical_plan p = p\<lparr>np_maneuvers := map canonical_element (np_maneuvers p)\<rparr>"

fun element_eq :: "plan_element \<Rightarrow> plan_element \<Rightarrow> bool" where
  "element_eq (Scheduled m) (Scheduled n) \<longleftrightarrow> sd_maneuver_id m = sd_maneuver_id n \<and>
     maneuver_intent_eq (sd_intent m) (sd_intent n) \<and> sd_dependencies m = sd_dependencies n \<and>
     sd_start m = sd_start n \<and> sd_duration m = sd_duration n"
| "element_eq (Step m) (Step n) \<longleftrightarrow> sp_step_index m = sp_step_index n \<and> sp_maneuver_id m = sp_maneuver_id n \<and>
     maneuver_intent_eq (sp_intent m) (sp_intent n) \<and> sp_dependencies m = sp_dependencies n \<and> sp_cost m = sp_cost n"
| "element_eq _ _ \<longleftrightarrow> False"

text \<open>The dataclass \<open>==\<close> of plans.\<close>

definition normalized_plan_eq :: "normalized_plan \<Rightarrow> normalized_plan \<Rightarrow> bool" where
  "normalized_plan_eq p q \<longleftrightarrow> np_mission_id p = np_mission_id q \<and>
     np_source_authority p = np_source_authority q \<and> np_plan_revision p = np_plan_revision q \<and>
     np_mission_snapshot_id p = np_mission_snapshot_id q \<and> np_planner_choice p = np_planner_choice q \<and>
     np_outcome p = np_outcome q \<and> list_all2 element_eq (np_maneuvers p) (np_maneuvers q)"

lemma element_eq_canonical: "plan_element_wf m \<Longrightarrow> element_eq m (canonical_element m)"
  by (cases m) (auto simp: scheduled_maneuver_wf_def symbolic_plan_step_wf_def)

lemma normalized_plan_eq_canonical: "normalized_plan_wf p \<Longrightarrow> normalized_plan_eq p (canonical_plan p)"
  by (auto simp: normalized_plan_eq_def canonical_plan_def normalized_plan_wf_def list_all2_conv_all_nth
      intro!: element_eq_canonical)

lemma canonical_element_simps [simp]:
  "is_scheduled (canonical_element m) = is_scheduled m"
  "schedule_key (canonical_element m) = schedule_key m"
  "step_index_of (canonical_element m) = step_index_of m"
  by (cases m; simp)+

lemma canonical_element_wf: "plan_element_wf m \<Longrightarrow> plan_element_wf (canonical_element m)"
  by (cases m) (auto simp: scheduled_maneuver_wf_def symbolic_plan_step_wf_def)

lemma canonical_plan_wf: "normalized_plan_wf p \<Longrightarrow> normalized_plan_wf (canonical_plan p)"
  by (auto simp: normalized_plan_wf_def canonical_plan_def plan_ordered_def comp_def list_all_iff list_ex_iff
      canonical_element_wf)

lemma plan_element_read:
  assumes "plan_element_wf m" and "is_scheduled m = (profile = TEMPORAL)"
  shows "plan_element_from_dict profile (view b (plan_element_to_dict m)) = Inr m"
    "plan_element_from_dict profile (view b (canonical (plan_element_to_dict m))) = Inr (canonical_element m)"
  using assms by (cases m; simp add: plan_element_from_dict_def scheduled_maneuver_view symbolic_plan_step_view
      scheduled_maneuver_json_view symbolic_plan_step_json_view)+

text \<open>The constructor accepts an ordered plan and leaves it as it is.\<close>

lemma normalized_plan_new_ordered:
  assumes "normalized_plan_wf p"
  shows "normalized_plan_new (PStr (np_mission_id p)) (PStr (np_source_authority p)) (PInt (np_plan_revision p))
    (PStr (np_mission_snapshot_id p)) (np_planner_choice p) (PStr (outcome_text (np_outcome p))) (np_maneuvers p) = Inr p"
  using assms by (cases p) (auto simp: normalized_plan_new_Inr normalized_plan_wf_def plan_ordered_def
      checked_maneuvers_Inr sort_key_id_if_sorted)

lemma plan_elements_kind:
  assumes "normalized_plan_wf p" and "m \<in> set (np_maneuvers p)"
  shows "is_scheduled m = (pc_planning_profile (np_planner_choice p) = TEMPORAL)"
  using assms by (auto simp: normalized_plan_wf_def plan_ordered_def list_all_iff list_ex_iff split: if_splits)

lemma plan_elements_read:
  assumes "normalized_plan_wf p"
  shows "mapE (plan_element_from_dict (pc_planning_profile (np_planner_choice p)))
      (map (view b) (map plan_element_to_dict (np_maneuvers p))) = Inr (np_maneuvers p)"
    "mapE (plan_element_from_dict (pc_planning_profile (np_planner_choice p)))
      (map (view b) (map canonical (map plan_element_to_dict (np_maneuvers p)))) = Inr (np_maneuvers (canonical_plan p))"
proof -
  have wf: "plan_element_wf m" if "m \<in> set (np_maneuvers p)" for m
    using assms that by (simp add: normalized_plan_wf_def)
  have "mapE (plan_element_from_dict (pc_planning_profile (np_planner_choice p)))
      (map (\<lambda>m. view b (plan_element_to_dict m)) (np_maneuvers p)) = Inr (map (\<lambda>m. m) (np_maneuvers p))"
    by (intro mapE_map_Inr plan_element_read(1) wf plan_elements_kind [OF assms])
  then show "mapE (plan_element_from_dict (pc_planning_profile (np_planner_choice p)))
      (map (view b) (map plan_element_to_dict (np_maneuvers p))) = Inr (np_maneuvers p)" by (simp add: comp_def)
  have "mapE (plan_element_from_dict (pc_planning_profile (np_planner_choice p)))
      (map (\<lambda>m. view b (canonical (plan_element_to_dict m))) (np_maneuvers p)) =
      Inr (map canonical_element (np_maneuvers p))"
    by (intro mapE_map_Inr plan_element_read(2) wf plan_elements_kind [OF assms])
  then show "mapE (plan_element_from_dict (pc_planning_profile (np_planner_choice p)))
      (map (view b) (map canonical (map plan_element_to_dict (np_maneuvers p)))) = Inr (np_maneuvers (canonical_plan p))"
    by (simp add: comp_def canonical_plan_def)
qed

lemma normalized_plan_view:
  assumes "normalized_plan_wf p"
  shows "normalized_plan_from_dict (view b (normalized_plan_to_dict p)) = Inr p"
  using assms plan_elements_read(1) [OF assms, of b] normalized_plan_new_ordered [OF assms]
  by (simp add: normalized_plan_from_dict_def normalized_plan_to_dict_def has_fields_def
      normalized_plan_wf_def insert_commute)

lemma normalized_plan_json_view:
  assumes "normalized_plan_wf p"
  shows "normalized_plan_from_json (Some (view b (normalized_plan_json p))) = Inr (canonical_plan p)"
proof -
  have f: "np_mission_id (canonical_plan p) = np_mission_id p" "np_source_authority (canonical_plan p) = np_source_authority p"
    "np_plan_revision (canonical_plan p) = np_plan_revision p" "np_mission_snapshot_id (canonical_plan p) = np_mission_snapshot_id p"
    "np_planner_choice (canonical_plan p) = np_planner_choice p" "np_outcome (canonical_plan p) = np_outcome p"
    by (simp_all add: canonical_plan_def)
  note new = normalized_plan_new_ordered [OF canonical_plan_wf [OF assms], unfolded f]
  have "planner_choice_wf (np_planner_choice p)" using assms by (simp add: normalized_plan_wf_def)
  with plan_elements_read(2) [OF assms, of b] new show ?thesis
    by (simp add: normalized_plan_from_json_def plan_from_json_def normalized_plan_json_def
        normalized_plan_from_dict_def normalized_plan_to_dict_def map_of_canonical_obj insert_commute)
qed

lemma canonical_element_json: "plan_element_wf m \<Longrightarrow>
    canonical (plan_element_to_dict (canonical_element m)) = canonical (plan_element_to_dict m)"
  by (cases m) (auto simp: scheduled_maneuver_to_dict_def symbolic_plan_step_to_dict_def scheduled_maneuver_wf_def
      symbolic_plan_step_wf_def canonical_maneuver_intent [symmetric] intro!: canonical_obj_cong)

lemma normalized_plan_json_canonical:
  assumes "normalized_plan_wf p"
  shows "normalized_plan_json (canonical_plan p) = normalized_plan_json p"
proof -
  have "map (canonical \<circ> (plan_element_to_dict \<circ> canonical_element)) (np_maneuvers p) =
      map (canonical \<circ> plan_element_to_dict) (np_maneuvers p)"
    using assms by (auto simp: normalized_plan_wf_def intro: canonical_element_json)
  then show ?thesis
    by (auto simp: normalized_plan_json_def normalized_plan_to_dict_def canonical_plan_def intro!: canonical_obj_cong)
qed

section \<open>Correctness\<close>


definition ex_intent :: maneuver_intent where
  "ex_intent = \<lparr>mi_action = ''search'', mi_parameters = [\<lparr>mp_name = ''area'', mp_value =
     JObj [(''z'', JInt 1), (''a'', JFloat 2)]\<rparr>, \<lparr>mp_name = ''speed'', mp_value = JInt 3\<rparr>]\<rparr>"

definition ex_plan :: normalized_plan where
  "ex_plan = \<lparr>np_mission_id = ''m1'', np_source_authority = ''hyper'', np_plan_revision = 1,
     np_mission_snapshot_id = ''s1'',
     np_planner_choice = \<lparr>pc_planning_profile = TEMPORAL, pc_planner_id = Some ''minizinc''\<rparr>, np_outcome = SOLVED,
     np_maneuvers = [
       Scheduled \<lparr>sd_maneuver_id = ''b'', sd_intent = ex_intent, sd_dependencies = [], sd_start = 0, sd_duration = 2\<rparr>,
       Scheduled \<lparr>sd_maneuver_id = ''a'', sd_intent = ex_intent, sd_dependencies = [''b''], sd_start = 2, sd_duration = 1\<rparr>]\<rparr>"


text \<open>C33: the order in which a planner lists a schedule does not matter. When no two maneuvers of a
  temporal plan agree in both start and identifier, every permutation of them gives the same Normalized
  Plan, or the same error.\<close>

theorem schedule_order_irrelevant:
  assumes "mset ms = mset ms'" and "distinct (map schedule_key ms)" and "pc_planning_profile choice = TEMPORAL"
  shows "normalized_plan_new a b c d choice e ms = normalized_plan_new a b c d choice e ms'"
proof -
  from assms(1) have s: "set ms = set ms'" by (rule mset_eq_setD)
  then have "inj_on schedule_key (set ms)" "distinct ms" using assms(2) by (auto simp: distinct_map)
  then have "sort_key schedule_key ms = sort_key schedule_key ms'"
    using assms(1) by (intro sort_key_inj_key_eq) simp_all
  moreover have "list_all is_scheduled ms = list_all is_scheduled ms'" "(ms = []) = (ms' = [])"
    using s by (auto simp: list_all_iff)
  ultimately show ?thesis using assms(3) by (simp add: normalized_plan_new_def checked_maneuvers_def)
qed

theorem schedule_order_irrelevant_witness:
  "normalized_plan_new (PStr ''m1'') (PStr ''hyper'') (PInt 1) (PStr ''s1'') (np_planner_choice ex_plan)
     (PStr ''solved'') (rev (np_maneuvers ex_plan)) = Inr ex_plan"
proof -
  have "mset (rev (np_maneuvers ex_plan)) = mset (np_maneuvers ex_plan)"
    "distinct (map schedule_key (rev (np_maneuvers ex_plan)))"
    "pc_planning_profile (np_planner_choice ex_plan) = TEMPORAL" by (simp_all add: ex_plan_def)
  from schedule_order_irrelevant [OF this] show ?thesis
    using normalized_plan_new_ordered [of ex_plan] by (simp add: ex_plan_def) code_simp
qed

text \<open>C34: plans survive storage. A Normalized Plan built by its constructor from well-formed parts is
  recovered exactly from its dictionary form; from its canonical JSON text an equal plan is recovered,
  with the same canonical text. A Planner Plan and its planner choice are recovered exactly from both.\<close>

theorem plan_round_trip:
  assumes "planner_choice_wf choice"
  shows "(normalized_plan_new a b c d choice e ms = Inr p \<and> (\<forall>m \<in> set ms. plan_element_wf m) \<longrightarrow>
      normalized_plan_from_dict (view frozen (normalized_plan_to_dict p)) = Inr p \<and>
      (\<exists>p'. normalized_plan_from_json (Some (thaw (normalized_plan_json p))) = Inr p' \<and>
         normalized_plan_eq p p' \<and> normalized_plan_json p' = normalized_plan_json p)) \<and>
    (planner_plan_new a b c d choice e f = Inr q \<longrightarrow>
      planner_plan_from_dict (view frozen (planner_plan_to_dict q)) = Inr q \<and>
      planner_plan_from_json (Some (thaw (planner_plan_json q))) = Inr q)"
proof (intro conjI impI)
  assume p: "normalized_plan_new a b c d choice e ms = Inr p \<and> (\<forall>m \<in> set ms. plan_element_wf m)"
  then have wf: "normalized_plan_wf p" using normalized_plan_new_wf assms by blast
  then show "normalized_plan_from_dict (view frozen (normalized_plan_to_dict p)) = Inr p"
    by (rule normalized_plan_view)
  from normalized_plan_json_view [OF wf] normalized_plan_eq_canonical [OF wf] normalized_plan_json_canonical [OF wf]
  show "\<exists>p'. normalized_plan_from_json (Some (thaw (normalized_plan_json p))) = Inr p' \<and>
      normalized_plan_eq p p' \<and> normalized_plan_json p' = normalized_plan_json p" by blast
next
  assume q: "planner_plan_new a b c d choice e f = Inr q"
  then have "planner_plan_wf q" using planner_plan_new_wf assms by blast
  then show "planner_plan_from_dict (view frozen (planner_plan_to_dict q)) = Inr q"
    "planner_plan_from_json (Some (thaw (planner_plan_json q))) = Inr q"
    by (rule planner_plan_view, rule planner_plan_json_view)
qed

theorem plan_round_trip_witness:
  "normalized_plan_from_dict (proxied (normalized_plan_to_dict ex_plan)) = Inr ex_plan"
proof -
  have "planner_choice_wf (np_planner_choice ex_plan)" "normalized_plan_wf ex_plan" by code_simp+
  moreover from this(2) have "normalized_plan_new (PStr (np_mission_id ex_plan)) (PStr (np_source_authority ex_plan))
      (PInt (np_plan_revision ex_plan)) (PStr (np_mission_snapshot_id ex_plan)) (np_planner_choice ex_plan)
      (PStr (outcome_text (np_outcome ex_plan))) (np_maneuvers ex_plan) = Inr ex_plan"
    by (rule normalized_plan_new_ordered)
  moreover have "\<forall>m \<in> set (np_maneuvers ex_plan). plan_element_wf m" by code_simp
  ultimately show ?thesis using plan_round_trip [of "np_planner_choice ex_plan"] by blast
qed

end
