(* ===== verification/Plan_Events.thy ===== *)
theory Plan_Events
  imports Normalized_Plans InProcess_Commands
begin

text \<open>
  Normalized Plans on the wire: \<open>NormalizedPlanTransportEvent\<close> and its conversion to a
  \<open>TransportEvent\<close>, the last part of \<open>src/onr/contracts/transport.py\<close>.
\<close>

section \<open>The typed event\<close>

record plan_payload =
  pl_mission_id :: string
  pl_plan_revision :: int
  pl_mission_snapshot_id :: string
  pl_planner_choice :: planner_choice
  pl_source_authority :: string
  pl_outcome :: planning_outcome
  pl_normalized_plan :: normalized_plan

text \<open>\<open>event_kind\<close> and \<open>contract_revision\<close> are fields that no constructor argument sets.\<close>

record plan_event =
  pe_event_id :: string
  pe_sequence :: int
  pe_payload :: plan_payload

definition plan_event_kind :: string where
  "plan_event_kind = ''normalized-plan''"

definition plan_contract_revision :: int where
  "plan_contract_revision = 2"

definition create_plan_event :: "normalized_plan \<Rightarrow> pyval \<Rightarrow> pyval \<Rightarrow> plan_event result" where
  "create_plan_event p event_id sequence =
     bindE (text_of event_id) (\<lambda>i.
     bindE (nonneg_int sequence) (\<lambda>n.
       Inr \<lparr>pe_event_id = i, pe_sequence = n, pe_payload =
         \<lparr>pl_mission_id = np_mission_id p, pl_plan_revision = np_plan_revision p,
          pl_mission_snapshot_id = np_mission_snapshot_id p, pl_planner_choice = np_planner_choice p,
          pl_source_authority = np_source_authority p, pl_outcome = np_outcome p,
          pl_normalized_plan = p\<rparr>\<rparr>))"

definition wire_payload :: "plan_payload \<Rightarrow> jobj" where
  "wire_payload p = [
     (''mission_id'', JStr (pl_mission_id p)),
     (''mission_snapshot_id'', JStr (pl_mission_snapshot_id p)),
     (''plan_revision'', JInt (pl_plan_revision p)),
     (''planner_choice'', planner_choice_to_dict (pl_planner_choice p)),
     (''source_authority'', JStr (pl_source_authority p)),
     (''outcome'', JStr (outcome_text (pl_outcome p))),
     (''normalized_plan'', normalized_plan_to_dict (pl_normalized_plan p))]"

definition plan_event_to_wire :: "plan_event \<Rightarrow> pyval \<Rightarrow> transport_event result" where
  "plan_event_to_wire e correlation_id =
     bindE (optional text_of correlation_id) (\<lambda>cor.
     transport_event_new (PInt plan_contract_revision) (PStr (pe_event_id e))
       (PStr (pl_mission_id (pe_payload e))) (PInt (pe_sequence e)) (PStr plan_event_kind)
       (thaw (JObj (wire_payload (pe_payload e) @
         (case cor of None \<Rightarrow> [] | Some s \<Rightarrow> [(''correlation_id'', JStr s)])))))"

text \<open>The plan a wire event carries, read as a consumer reads it.\<close>

definition carried_plan :: "jobj \<Rightarrow> normalized_plan result" where
  "carried_plan p = (case map_of p ''normalized_plan'' of
     None \<Rightarrow> Inl KeyError | Some j \<Rightarrow> normalized_plan_from_dict (proxied j))"

section \<open>Well-formed wire events\<close>

lemma wf_map_JStr [simp]: "wf_json (JArr (map JStr xs))"
  by auto

lemma wf_planner_choice_json [simp]: "wf_json (planner_choice_to_dict c)"
  by (auto simp: planner_choice_to_dict_def split: option.split)

lemma wf_intent_dict [simp]: "maneuver_intent_wf m \<Longrightarrow> wf_json (maneuver_intent_to_dict m)"
  by (auto simp: maneuver_intent_to_dict_def maneuver_intent_wf_def parameters_wf_def comp_def)

lemma wf_element_dict: "plan_element_wf m \<Longrightarrow> wf_json (plan_element_to_dict m)"
  by (cases m) (auto simp: scheduled_maneuver_to_dict_def symbolic_plan_step_to_dict_def
      scheduled_maneuver_wf_def symbolic_plan_step_wf_def)

lemma wf_plan_dict: "normalized_plan_wf p \<Longrightarrow> wf_json (normalized_plan_to_dict p)"
  by (auto simp: normalized_plan_to_dict_def normalized_plan_wf_def wf_element_dict)

definition correlation_valid :: "string option \<Rightarrow> bool" where
  "correlation_valid cor \<longleftrightarrow> opt_all nonblank cor"

definition optional_text :: "string option \<Rightarrow> pyval" where
  "optional_text cor = (case cor of None \<Rightarrow> PNone | Some s \<Rightarrow> PStr s)"

text \<open>The wire event of a well-formed plan.\<close>

definition plan_wire :: "normalized_plan \<Rightarrow> string \<Rightarrow> int \<Rightarrow> string option \<Rightarrow> transport_event" where
  "plan_wire p i n cor = \<lparr>te_schema_version = 2, te_event_id = i, te_mission_id = np_mission_id p,
     te_sequence = n, te_event_kind = plan_event_kind,
     te_payload = [
       (''mission_id'', JStr (np_mission_id p)),
       (''mission_snapshot_id'', JStr (np_mission_snapshot_id p)),
       (''plan_revision'', JInt (np_plan_revision p)),
       (''planner_choice'', planner_choice_to_dict (np_planner_choice p)),
       (''source_authority'', JStr (np_source_authority p)),
       (''outcome'', JStr (outcome_text (np_outcome p))),
       (''normalized_plan'', normalized_plan_to_dict p)] @
       (case cor of None \<Rightarrow> [] | Some s \<Rightarrow> [(''correlation_id'', JStr s)])\<rparr>"

definition wire_of :: "normalized_plan \<Rightarrow> pyval \<Rightarrow> pyval \<Rightarrow> pyval \<Rightarrow> transport_event result" where
  "wire_of p event_id sequence correlation_id =
     bindE (create_plan_event p event_id sequence) (\<lambda>e. plan_event_to_wire e correlation_id)"

lemma wire_of_plan:
  assumes "normalized_plan_wf p" and "nonblank i" and "0 \<le> n" and "correlation_valid cor"
  shows "wire_of p (PStr i) (PInt n) (optional_text cor) = Inr (plan_wire p i n cor)"
    "transport_event_wf (plan_wire p i n cor)"
proof -
  have "optional text_of (optional_text cor) = Inr cor"
    using assms(4) by (auto simp: correlation_valid_def optional_text_def optional_def split: option.split)
  then show "wire_of p (PStr i) (PInt n) (optional_text cor) = Inr (plan_wire p i n cor)"
    using assms by (simp add: wire_of_def create_plan_event_def plan_event_to_wire_def transport_event_new_def
        plan_contract_revision_def plan_event_kind_def wire_payload_def plan_wire_def normalized_plan_wf_def
        del: view.simps)
  show "transport_event_wf (plan_wire p i n cor)"
    using assms wf_plan_dict [OF assms(1)]
    by (auto simp: transport_event_wf_def plan_wire_def wf_obj_def normalized_plan_wf_def plan_event_kind_def
        split: option.split)
qed

lemma carried_plan_wire: "normalized_plan_wf p \<Longrightarrow> carried_plan (te_payload (plan_wire p i n cor)) = Inr p"
  by (simp add: carried_plan_def plan_wire_def normalized_plan_view)

lemma wire_json_plan:
  assumes "normalized_plan_wf p" "normalized_plan_wf q" "nonblank i" "0 \<le> n" "correlation_valid cor"
    "nonblank i'" "0 \<le> n'" "correlation_valid cor'"
    and "transport_event_json (plan_wire p i n cor) = transport_event_json (plan_wire q i' n' cor')"
  shows "normalized_plan_json p = normalized_plan_json q"
proof -
  let ?p = "te_payload (plan_wire p i n cor)" and ?q = "te_payload (plan_wire q i' n' cor')"
  have wf: "transport_event_wf (plan_wire p i n cor)" "transport_event_wf (plan_wire q i' n' cor')"
    using wire_of_plan(2) assms(1-8) by blast+
  have "canonical_obj ?p = canonical_obj ?q"
    using transport_event_json_inject [OF wf assms(9)] by blast
  moreover have "distinct (map fst ?p)" "distinct (map fst ?q)"
    using wf by (simp_all add: transport_event_wf_def wf_obj_def)
  ultimately have "map_option canonical (map_of ?p ''normalized_plan'') = map_option canonical (map_of ?q ''normalized_plan'')"
    using map_of_canonical_obj by metis
  then show ?thesis by (simp add: plan_wire_def normalized_plan_json_def)
qed

section \<open>Publishing plans\<close>

text \<open>A plan reaches its consumers unchanged. Publishing a well-formed Normalized Plan under a fresh
  event identity and sequence succeeds; the event is then in the mission's stream and the plan a
  consumer reads from it is the plan that was published. Publishing the same plan again changes nothing,
  and publishing a plan with another canonical text under the same identity is refused.\<close>

theorem plan_published:
  assumes "events_inv s" and "nonblank topic" and "normalized_plan_wf p" and "nonblank i" and "0 \<le> n"
    and "correlation_valid cor" and "\<not> event_used s i"
    and "n \<notin> te_sequence ` set (stream_of s topic (np_mission_id p))"
  shows "\<exists>e s'. wire_of p (PStr i) (PInt n) (optional_text cor) = Inr e \<and>
    publish_event topic e s = (Inr e, s') \<and> e \<in> set (stream_of s' topic (np_mission_id p)) \<and>
    carried_plan (te_payload e) = Inr p \<and> publish_event topic e s' = (Inr e, s') \<and>
    (\<forall>q e'. normalized_plan_wf q \<and> normalized_plan_json q \<noteq> normalized_plan_json p \<and>
       wire_of q (PStr i) (PInt n) (optional_text cor) = Inr e' \<longrightarrow>
       publish_event topic e' s' = (Inl (ValueError Conflict), s'))"
proof -
  let ?e = "plan_wire p i n cor" and ?s = "appended topic (plan_wire p i n cor) s"
  note w = wire_of_plan [OF assms(3-6)]
  have f: "te_event_id ?e = i" "te_sequence ?e = n" "te_mission_id ?e = np_mission_id p"
    by (simp_all add: plan_wire_def)
  have pub: "publish_event topic ?e s = (Inr ?e, ?s)"
    using publish_event_fresh [of topic s ?e] assms(2,7,8) by (simp add: f)
  have used: "map_of (ts_identities ?s) (event_identity i) = Some (transport_event_json ?e)"
    by (simp add: appended_def f)
  have mem: "?e \<in> set (stream_of ?s topic (np_mission_id p))" by (simp add: stream_of_appended f)
  have again: "publish_event topic ?e ?s = (Inr ?e, ?s)"
    using publish_event_Some [of topic ?s ?e] assms(2) used by (simp add: f)
  have "publish_event topic e' ?s = (Inl (ValueError Conflict), ?s)"
    if q: "normalized_plan_wf q \<and> normalized_plan_json q \<noteq> normalized_plan_json p \<and>
      wire_of q (PStr i) (PInt n) (optional_text cor) = Inr e'" for q e'
  proof -
    from q wire_of_plan(1) [of q i n cor] assms(4-6) have e': "e' = plan_wire q i n cor" by auto
    with q have "transport_event_json ?e \<noteq> transport_event_json e'"
      using wire_json_plan [OF assms(3) _ assms(4-6) assms(4-6)] by metis
    moreover have "te_event_id e' = i" by (simp add: e' plan_wire_def)
    ultimately show ?thesis
      using publish_event_Some [of topic ?s e'] assms(2) used by simp
  qed
  with w(1) pub mem carried_plan_wire [OF assms(3)] again show ?thesis by blast
qed

theorem plan_published_witness:
  "\<exists>e s'. publish_event ''plans'' e initial_state = (Inr e, s') \<and> carried_plan (te_payload e) = Inr ex_plan"
proof -
  have "normalized_plan_wf ex_plan" "nonblank ''plans''" "nonblank ''e1''" "correlation_valid None"
    "\<not> event_used initial_state ''e1''" "stream_of initial_state ''plans'' (np_mission_id ex_plan) = []" by code_simp+
  from plan_published [OF events_inv_initial this(2,1,3) _ this(4,5), of 0] this(6) show ?thesis by auto
qed

text \<open>An event of a plan is only built from valid arguments. A blank or absent event identity, a negative
  or non-integer sequence and a blank correlation identifier are refused; everything else is accepted.\<close>

theorem plan_event_accepts:
  assumes "normalized_plan_wf p"
  shows "isOk (wire_of p event_id sequence correlation_id) \<longleftrightarrow>
    (\<exists>i n. event_id = PStr i \<and> nonblank i \<and> sequence = PInt n \<and> 0 \<le> n) \<and>
    (correlation_id = PNone \<or> (\<exists>c. correlation_id = PStr c \<and> nonblank c))"
proof
  assume "isOk (wire_of p event_id sequence correlation_id)"
  then show "(\<exists>i n. event_id = PStr i \<and> nonblank i \<and> sequence = PInt n \<and> 0 \<le> n) \<and>
      (correlation_id = PNone \<or> (\<exists>c. correlation_id = PStr c \<and> nonblank c))"
    by (auto simp: isOk_iff wire_of_def create_plan_event_def plan_event_to_wire_def err_simps split: if_splits)
next
  assume "(\<exists>i n. event_id = PStr i \<and> nonblank i \<and> sequence = PInt n \<and> 0 \<le> n) \<and>
      (correlation_id = PNone \<or> (\<exists>c. correlation_id = PStr c \<and> nonblank c))"
  then obtain i n cor where "event_id = PStr i" "nonblank i" "sequence = PInt n" "0 \<le> n"
    "correlation_id = optional_text cor" "correlation_valid cor"
    by (auto simp: optional_text_def correlation_valid_def intro: that [of _ _ None] that [of _ _ "Some _"])
  with wire_of_plan(1) [OF assms] show "isOk (wire_of p event_id sequence correlation_id)" by simp
qed

theorem plan_event_accepts_witness:
  "\<not> isOk (wire_of ex_plan (PStr ''e1'') (PInt (-1)) PNone)"
proof -
  have "normalized_plan_wf ex_plan" by code_simp
  from plan_event_accepts [OF this] show ?thesis by simp
qed

end
