(* ===== verification/Maneuver_Contracts.thy ===== *)
theory Maneuver_Contracts
  imports Planning_Contracts Transport_Contracts
begin

text \<open>
  The contracts of Maneuver Control, \<open>src/onr/contracts/maneuver_control.py\<close>: the decision, the physical
  command with its conversion to and from generic commands, the invocation overlay and the completion of
  a heartbeat. \<open>ManeuverInvocation\<close>, which carries perceptions and answers of language models, is not
  modelled.
\<close>

section \<open>Choices\<close>

datatype physical_action = NAVIGATE | TAKEOFF | LAND | SEARCH_AREA | PURSUE | INVESTIGATE

fun physical_text :: "physical_action \<Rightarrow> string" where
  "physical_text NAVIGATE = ''navigate''"
| "physical_text TAKEOFF = ''takeoff''"
| "physical_text LAND = ''land''"
| "physical_text SEARCH_AREA = ''search_area''"
| "physical_text PURSUE = ''pursue''"
| "physical_text INVESTIGATE = ''investigate''"

definition physical_actions :: "physical_action list" where
  "physical_actions = [NAVIGATE, TAKEOFF, LAND, SEARCH_AREA, PURSUE, INVESTIGATE]"

definition physical_action_of :: "pyval \<Rightarrow> physical_action result" where
  "physical_action_of v = enum_of physical_text physical_actions v"

datatype nonphysical_choice = TRANSITION | REPLAN | REPORT | QUERY | NO_CHANGE | CANCEL_MANEUVER

fun choice_text :: "nonphysical_choice \<Rightarrow> string" where
  "choice_text TRANSITION = ''transition''"
| "choice_text REPLAN = ''replan''"
| "choice_text REPORT = ''report''"
| "choice_text QUERY = ''query''"
| "choice_text NO_CHANGE = ''no_change''"
| "choice_text CANCEL_MANEUVER = ''cancel_maneuver''"

definition choice_of :: "pyval \<Rightarrow> nonphysical_choice result" where
  "choice_of v = enum_of choice_text [TRANSITION, REPLAN, REPORT, QUERY, NO_CHANGE, CANCEL_MANEUVER] v"

lemma physical_action_of_text [simp]: "physical_action_of (PStr (physical_text a)) = Inr a"
  by (cases a) (simp_all add: physical_action_of_def enum_of_def physical_actions_def)

lemma choice_of_text [simp]: "choice_of (PStr (choice_text c)) = Inr c"
  by (cases c) (simp_all add: choice_of_def enum_of_def)

lemma choice_text_nonblank [simp]: "nonblank (choice_text c)"
  by (cases c) simp_all

section \<open>Helpers of the module\<close>

text \<open>\<open>_string_mapping\<close>: a mapping all of whose keys are strings.\<close>

definition string_mapping :: "pyval \<Rightarrow> (string \<times> pyval) list result" where
  "string_mapping v = (case as_mapping v of
     None \<Rightarrow> Inl (ValueError NotObject)
   | Some kvs \<Rightarrow> bindE (guardE (length (string_keyed kvs) = length kvs) (ValueError KeyNotString)) (\<lambda>_.
       Inr (string_keyed kvs)))"

text \<open>\<open>_contains_lifecycle_claim\<close>, on the frozen payload: a lifecycle key at any depth.\<close>

definition lifecycle_keys :: "string list" where
  "lifecycle_keys = [''lifecycle'', ''status'', ''completed'', ''cancelled'']"

fun lifecycle_claim :: "json \<Rightarrow> bool" where
  "lifecycle_claim (JObj o') = list_ex (\<lambda>(k, j). k \<in> set lifecycle_keys \<or> lifecycle_claim j) o'"
| "lifecycle_claim (JArr js) = list_ex lifecycle_claim js"
| "lifecycle_claim _ = False"

text \<open>\<open>ManeuverIntent(action, tuple(ManeuverParameter(name, item) ...))\<close> from an action and a mapping.\<close>

definition parsed_intent :: "pyval \<Rightarrow> pyval \<Rightarrow> maneuver_intent result" where
  "parsed_intent action parameters =
     bindE (string_mapping parameters) (\<lambda>items.
     bindE (mapE (\<lambda>(s, v). maneuver_parameter_new (PStr s) v) items) (\<lambda>ps.
     maneuver_intent_new action ps))"

text \<open>\<open>value.get("parameters", {})\<close>.\<close>

definition item_or :: "pyitems \<Rightarrow> string \<Rightarrow> pyval \<Rightarrow> pyval" where
  "item_or kvs f d = (case map_of kvs (KStr f) of None \<Rightarrow> d | Some v \<Rightarrow> v)"

definition intent_fields :: "pyitems \<Rightarrow> maneuver_intent result" where
  "intent_fields kvs =
     bindE (guardE (is_PStr (item kvs ''action'') \<and> as_mapping (item_or kvs ''parameters'' (PDict [])) \<noteq> None)
       (ValueError BadType)) (\<lambda>_.
     parsed_intent (item kvs ''action'') (item_or kvs ''parameters'' (PDict [])))"

section \<open>The decision\<close>

record control_decision =
  cd_decision_id :: string
  cd_mission_id :: string
  cd_plan_revision :: int
  cd_transition_event :: "string option"
  cd_maneuver_id :: "string option"
  cd_physical_intent :: "maneuver_intent option"
  cd_choice :: "nonphysical_choice option"
  cd_payload :: jobj
  cd_schema_version :: int

text \<open>The checks of \<open>__post_init__\<close>; the intent is a record already.\<close>

definition control_decision_check ::
  "pyval \<Rightarrow> pyval \<Rightarrow> pyval \<Rightarrow> pyval \<Rightarrow> pyval \<Rightarrow> maneuver_intent option \<Rightarrow> pyval \<Rightarrow> pyval \<Rightarrow> pyval \<Rightarrow>
   control_decision result" where
  "control_decision_check decision_id mission_id plan_revision transition maneuver_id intent choice pl version =
     bindE (text_of decision_id) (\<lambda>did.
     bindE (text_of mission_id) (\<lambda>mid.
     bindE (nonneg_int plan_revision) (\<lambda>rev.
     bindE (optional text_of transition) (\<lambda>tr.
     bindE (optional text_of maneuver_id) (\<lambda>man.
     bindE (optional choice_of choice) (\<lambda>given.
     let ch = (if tr \<noteq> None \<and> given = None then Some TRANSITION else given) in
     bindE (guardE (\<not> (ch = Some TRANSITION \<and> tr = None)) (ValueError Missing)) (\<lambda>_.
     bindE (guardE (\<not> (intent \<noteq> None \<and> (tr \<noteq> None \<or> ch = Some TRANSITION \<or> ch = Some CANCEL_MANEUVER)))
       (ValueError Inconsistent)) (\<lambda>_.
     bindE (guardE (\<not> (tr \<noteq> None \<and> ch \<noteq> None \<and> ch \<noteq> Some TRANSITION)) (ValueError Inconsistent)) (\<lambda>_.
     bindE (guardE (\<not> (intent = None \<and> tr = None \<and> ch = None)) (ValueError Missing)) (\<lambda>_.
     bindE (case intent of
         None \<Rightarrow> Inr ()
       | Some m \<Rightarrow> bindE (physical_action_of (PStr (mi_action m))) (\<lambda>_.
           guardE (man \<noteq> None) (ValueError Missing))) (\<lambda>_.
     bindE (guardE (\<not> (ch = Some CANCEL_MANEUVER \<and> man = None)) (ValueError Missing)) (\<lambda>_.
     bindE (payload (ValueError KeyNotString) (ValueError NotObject) pl) (\<lambda>p.
     bindE (guardE (\<not> lifecycle_claim (JObj p)) (ValueError ForbiddenClaim)) (\<lambda>_.
     bindE (positive_int version) (\<lambda>sv.
       Inr \<lparr>cd_decision_id = did, cd_mission_id = mid, cd_plan_revision = rev, cd_transition_event = tr,
         cd_maneuver_id = man, cd_physical_intent = intent, cd_choice = ch, cd_payload = p,
         cd_schema_version = sv\<rparr>)))))))))))))))"

text \<open>
  The constructor. An intent is absent, a record, or some other value; a mapping is read with its
  \<open>parameters\<close> or, failing that, its items other than \<open>action\<close>.
\<close>

datatype intent_arg = NoIntent | Intent maneuver_intent | Raw pyval

definition raw_intent :: "pyitems \<Rightarrow> maneuver_intent result" where
  "raw_intent kvs =
     bindE (guardE (is_PStr (item kvs ''action'')) (ValueError BadType)) (\<lambda>_.
     let rest = filter (\<lambda>kv. fst kv \<noteq> KStr ''action'') kvs;
         parameters = item_or rest ''parameters'' (PDict rest)
     in bindE (guardE (as_mapping parameters \<noteq> None) (ValueError NotObject)) (\<lambda>_.
       parsed_intent (item kvs ''action'') parameters))"

fun intent_of_arg :: "intent_arg \<Rightarrow> maneuver_intent option result" where
  "intent_of_arg NoIntent = Inr None"
| "intent_of_arg (Intent m) = Inr (Some m)"
| "intent_of_arg (Raw v) = (case as_mapping v of
     None \<Rightarrow> Inl (ValueError BadType)
   | Some kvs \<Rightarrow> bindE (raw_intent kvs) (\<lambda>m. Inr (Some m)))"

definition intent_argument :: "intent_arg \<Rightarrow> intent_arg \<Rightarrow> pyval \<Rightarrow> intent_arg result" where
  "intent_argument intent maneuver action =
     (if intent \<noteq> NoIntent then Inr intent
      else if maneuver \<noteq> NoIntent then Inr maneuver
      else if action \<noteq> PNone then bindE (maneuver_intent_new action []) (\<lambda>m. Inr (Intent m))
      else Inr NoIntent)"

definition control_decision_new ::
  "pyval \<Rightarrow> pyval \<Rightarrow> pyval \<Rightarrow> pyval \<Rightarrow> pyval \<Rightarrow> intent_arg \<Rightarrow> pyval \<Rightarrow> pyval \<Rightarrow> pyval \<Rightarrow>
   intent_arg \<Rightarrow> pyval \<Rightarrow> pyval \<Rightarrow> control_decision result" where
  "control_decision_new decision_id mission_id plan_revision transition_event maneuver_id intent choice pl version
     maneuver transition action =
     bindE (intent_argument intent maneuver action) (\<lambda>arg.
     bindE (intent_of_arg arg) (\<lambda>m.
     control_decision_check decision_id mission_id plan_revision
       (if transition_event = PNone then transition else transition_event) maneuver_id m choice
       (if pl = PNone then PDict [] else pl) version))"

definition optional_text_json :: "string option \<Rightarrow> json" where
  "optional_text_json x = (case x of None \<Rightarrow> JNull | Some s \<Rightarrow> JStr s)"

definition control_decision_to_dict :: "control_decision \<Rightarrow> json" where
  "control_decision_to_dict d = JObj [
     (''schema_version'', JInt (cd_schema_version d)),
     (''decision_id'', JStr (cd_decision_id d)),
     (''mission_id'', JStr (cd_mission_id d)),
     (''plan_revision'', JInt (cd_plan_revision d)),
     (''transition_event'', optional_text_json (cd_transition_event d)),
     (''maneuver_id'', optional_text_json (cd_maneuver_id d)),
     (''physical_intent'', case cd_physical_intent d of None \<Rightarrow> JNull | Some m \<Rightarrow> maneuver_intent_to_dict m),
     (''choice'', case cd_choice d of None \<Rightarrow> JNull | Some c \<Rightarrow> JStr (choice_text c)),
     (''payload'', JObj (cd_payload d))]"

definition control_decision_json :: "control_decision \<Rightarrow> json" where
  "control_decision_json d = canonical (control_decision_to_dict d)"

text \<open>\<open>from_dict\<close> of a mapping's items.\<close>

definition control_decision_from_dict :: "pyitems \<Rightarrow> control_decision result" where
  "control_decision_from_dict kvs =
     bindE (guardE (has_fields [''schema_version'', ''decision_id'', ''mission_id'', ''plan_revision'',
       ''transition_event'', ''maneuver_id'', ''physical_intent'', ''choice'', ''payload''] kvs)
       (ValueError FieldMismatch)) (\<lambda>_.
     bindE (case as_mapping (item kvs ''physical_intent'') of
         Some kvs2 \<Rightarrow> bindE (intent_fields kvs2) (\<lambda>m. Inr (Some m))
       | None \<Rightarrow> if item kvs ''physical_intent'' = PNone then Inr None else Inl (ValueError BadType)) (\<lambda>intent.
     bindE (text_of (item kvs ''decision_id'')) (\<lambda>did.
     bindE (text_of (item kvs ''mission_id'')) (\<lambda>mid.
     bindE (optional text_of (item kvs ''transition_event'')) (\<lambda>_.
     bindE (optional text_of (item kvs ''maneuver_id'')) (\<lambda>_.
     bindE (optional text_of (item kvs ''choice'')) (\<lambda>_.
     bindE (nonneg_int (item kvs ''plan_revision'')) (\<lambda>_.
     bindE (string_mapping (item kvs ''payload'')) (\<lambda>items.
     bindE (positive_int (item kvs ''schema_version'')) (\<lambda>_.
     control_decision_new (PStr did) (PStr mid) (item kvs ''plan_revision'') (item kvs ''transition_event'')
       (item kvs ''maneuver_id'') (case intent of None \<Rightarrow> NoIntent | Some m \<Rightarrow> Intent m) (item kvs ''choice'')
       (PDict (map (\<lambda>(k, v). (KStr k, v)) items)) (item kvs ''schema_version'') NoIntent PNone PNone))))))))))"

definition control_decision_from_json :: "pyval option \<Rightarrow> control_decision result" where
  "control_decision_from_json decoded = (case decoded of
     None \<Rightarrow> Inl (ValueError InvalidJson)
   | Some v \<Rightarrow> bindE (string_mapping v) (\<lambda>items. control_decision_from_dict (map (\<lambda>(k, v). (KStr k, v)) items)))"

section \<open>The physical command\<close>

record maneuver_command =
  mc_command_id :: string
  mc_correlation_id :: string
  mc_mission_id :: string
  mc_plan_revision :: int
  mc_maneuver_id :: string
  mc_intent :: maneuver_intent
  mc_schema_version :: int
  mc_mission_snapshot_id :: "string option"

definition maneuver_command_new ::
  "pyval \<Rightarrow> pyval \<Rightarrow> pyval \<Rightarrow> pyval \<Rightarrow> pyval \<Rightarrow> maneuver_intent \<Rightarrow> pyval \<Rightarrow> pyval \<Rightarrow> maneuver_command result" where
  "maneuver_command_new command_id correlation_id mission_id plan_revision maneuver_id intent version snapshot_id =
     bindE (text_of command_id) (\<lambda>cid.
     bindE (text_of correlation_id) (\<lambda>cor.
     bindE (text_of mission_id) (\<lambda>mid.
     bindE (text_of maneuver_id) (\<lambda>man.
     bindE (nonneg_int plan_revision) (\<lambda>rev.
     bindE (positive_int version) (\<lambda>sv.
     bindE (optional text_of snapshot_id) (\<lambda>sid.
     bindE (physical_action_of (PStr (mi_action intent))) (\<lambda>_.
       Inr \<lparr>mc_command_id = cid, mc_correlation_id = cor, mc_mission_id = mid, mc_plan_revision = rev,
         mc_maneuver_id = man, mc_intent = intent, mc_schema_version = sv, mc_mission_snapshot_id = sid\<rparr>))))))))"

definition maneuver_command_to_dict :: "maneuver_command \<Rightarrow> json" where
  "maneuver_command_to_dict c = JObj [
     (''schema_version'', JInt (mc_schema_version c)),
     (''command_id'', JStr (mc_command_id c)),
     (''correlation_id'', JStr (mc_correlation_id c)),
     (''mission_id'', JStr (mc_mission_id c)),
     (''plan_revision'', JInt (mc_plan_revision c)),
     (''maneuver_id'', JStr (mc_maneuver_id c)),
     (''intent'', maneuver_intent_to_dict (mc_intent c)),
     (''mission_snapshot_id'', optional_text_json (mc_mission_snapshot_id c))]"

definition maneuver_command_json :: "maneuver_command \<Rightarrow> json" where
  "maneuver_command_json c = canonical (maneuver_command_to_dict c)"

definition maneuver_to_command :: "string \<Rightarrow> string \<Rightarrow> maneuver_command \<Rightarrow> command result" where
  "maneuver_to_command target_service command_topic c =
     command_new (PInt (mc_schema_version c)) (PStr (mc_command_id c)) (PStr (mc_correlation_id c))
       (PStr (mc_mission_id c)) (PStr target_service) (PStr command_topic) (thaw (maneuver_command_to_dict c))"

definition maneuver_command_from_dict :: "pyitems \<Rightarrow> maneuver_command result" where
  "maneuver_command_from_dict kvs =
     bindE (guardE (has_fields [''schema_version'', ''command_id'', ''correlation_id'', ''mission_id'',
         ''plan_revision'', ''maneuver_id'', ''intent''] kvs \<or>
       has_fields [''schema_version'', ''command_id'', ''correlation_id'', ''mission_id'',
         ''plan_revision'', ''maneuver_id'', ''intent'', ''mission_snapshot_id''] kvs) (ValueError FieldMismatch)) (\<lambda>_.
     (case as_mapping (item kvs ''intent'') of
        None \<Rightarrow> Inl (ValueError BadType)
      | Some kvs2 \<Rightarrow>
          bindE (guardE (is_PStr (item kvs2 ''action'') \<and>
            as_mapping (item_or kvs2 ''parameters'' (PDict [])) \<noteq> None) (ValueError BadType)) (\<lambda>_.
          bindE (text_of (item kvs ''command_id'')) (\<lambda>_.
          bindE (text_of (item kvs ''correlation_id'')) (\<lambda>_.
          bindE (text_of (item kvs ''mission_id'')) (\<lambda>_.
          bindE (nonneg_int (item kvs ''plan_revision'')) (\<lambda>_.
          bindE (text_of (item kvs ''maneuver_id'')) (\<lambda>_.
          bindE (intent_fields kvs2) (\<lambda>intent.
          bindE (positive_int (item kvs ''schema_version'')) (\<lambda>_.
          bindE (optional text_of (item kvs ''mission_snapshot_id'')) (\<lambda>_.
          maneuver_command_new (item kvs ''command_id'') (item kvs ''correlation_id'') (item kvs ''mission_id'')
            (item kvs ''plan_revision'') (item kvs ''maneuver_id'') intent (item kvs ''schema_version'')
            (item kvs ''mission_snapshot_id''))))))))))))"

definition maneuver_command_from_json :: "pyval option \<Rightarrow> maneuver_command result" where
  "maneuver_command_from_json decoded = (case decoded of
     None \<Rightarrow> Inl (ValueError InvalidJson)
   | Some v \<Rightarrow> bindE (string_mapping v) (\<lambda>items. maneuver_command_from_dict (map (\<lambda>(k, v). (KStr k, v)) items)))"

definition maneuver_from_command :: "string \<Rightarrow> command \<Rightarrow> maneuver_command result" where
  "maneuver_from_command command_topic c =
     bindE (guardE (cmd_command_kind c = command_topic) (ValueError WrongMessage)) (\<lambda>_.
     let kvs = map (\<lambda>(k, j). (KStr k, proxied j)) (cmd_payload c) in
     (case as_mapping (item kvs ''intent'') of
        None \<Rightarrow> Inl (ValueError Missing)
      | Some kvs2 \<Rightarrow>
          bindE (guardE (is_PStr (item kvs2 ''action'') \<and>
            as_mapping (item_or kvs2 ''parameters'' (PDict [])) \<noteq> None) (ValueError BadType)) (\<lambda>_.
          bindE (integer (item kvs ''plan_revision'')) (\<lambda>_.
          bindE (guardE (is_PStr (item kvs ''maneuver_id'')) (ValueError BadType)) (\<lambda>_.
          bindE (intent_fields kvs2) (\<lambda>intent.
          bindE (optional text_of (item kvs ''mission_snapshot_id'')) (\<lambda>_.
          maneuver_command_new (PStr (cmd_command_id c)) (PStr (cmd_correlation_id c)) (PStr (cmd_mission_id c))
            (item kvs ''plan_revision'') (item kvs ''maneuver_id'') intent (PInt (cmd_schema_version c))
            (item kvs ''mission_snapshot_id''))))))))"

section \<open>Well-formed records\<close>

definition consistent_choice ::
  "string option \<Rightarrow> string option \<Rightarrow> maneuver_intent option \<Rightarrow> nonphysical_choice option \<Rightarrow> bool" where
  "consistent_choice tr man intent ch \<longleftrightarrow>
     (tr \<noteq> None \<longleftrightarrow> ch = Some TRANSITION) \<and>
     (intent \<noteq> None \<longrightarrow> tr = None \<and> ch \<noteq> Some CANCEL_MANEUVER \<and> man \<noteq> None) \<and>
     (ch = Some CANCEL_MANEUVER \<longrightarrow> man \<noteq> None) \<and> (intent \<noteq> None \<or> ch \<noteq> None)"

definition physical_intent_wf :: "maneuver_intent \<Rightarrow> bool" where
  "physical_intent_wf m \<longleftrightarrow> maneuver_intent_wf m \<and> isOk (physical_action_of (PStr (mi_action m)))"

definition control_decision_wf :: "control_decision \<Rightarrow> bool" where
  "control_decision_wf d \<longleftrightarrow> nonblank (cd_decision_id d) \<and> nonblank (cd_mission_id d) \<and> 0 \<le> cd_plan_revision d \<and>
     opt_all nonblank (cd_transition_event d) \<and> opt_all nonblank (cd_maneuver_id d) \<and>
     opt_all physical_intent_wf (cd_physical_intent d) \<and>
     consistent_choice (cd_transition_event d) (cd_maneuver_id d) (cd_physical_intent d) (cd_choice d) \<and>
     wf_obj (cd_payload d) \<and> \<not> lifecycle_claim (JObj (cd_payload d)) \<and> 0 < cd_schema_version d"

definition maneuver_command_wf :: "maneuver_command \<Rightarrow> bool" where
  "maneuver_command_wf c \<longleftrightarrow> nonblank (mc_command_id c) \<and> nonblank (mc_correlation_id c) \<and>
     nonblank (mc_mission_id c) \<and> nonblank (mc_maneuver_id c) \<and> 0 \<le> mc_plan_revision c \<and>
     physical_intent_wf (mc_intent c) \<and> 0 < mc_schema_version c \<and> opt_all nonblank (mc_mission_snapshot_id c)"

lemma optional_text_Inr: "optional text_of v = Inr r \<longleftrightarrow> opt_all nonblank r \<and>
    v = (case r of None \<Rightarrow> PNone | Some s \<Rightarrow> PStr s)"
  by (auto simp: optional_Inr text_of_Inr split: option.splits if_splits)

lemma optional_choice_Inr: "optional choice_of v = Inr None \<longleftrightarrow> v = PNone"
  by (auto simp: optional_Inr)

lemma control_decision_check_wf:
  assumes "control_decision_check a b c d e m f pl g = Inr x" and "opt_all maneuver_intent_wf m" and "wf_py pl"
  shows "control_decision_wf x"
proof -
  from assms(1) obtain did mid rev tr man given u p sv where
    t: "text_of a = Inr did" "text_of b = Inr mid" "nonneg_int c = Inr rev" "optional text_of d = Inr tr"
      "optional text_of e = Inr man"
    and g: "\<not> ((if tr \<noteq> None \<and> given = None then Some TRANSITION else given) = Some TRANSITION \<and> tr = None)"
      "\<not> (m \<noteq> None \<and> (tr \<noteq> None \<or> (if tr \<noteq> None \<and> given = None then Some TRANSITION else given) = Some TRANSITION \<or>
        (if tr \<noteq> None \<and> given = None then Some TRANSITION else given) = Some CANCEL_MANEUVER))"
      "\<not> (tr \<noteq> None \<and> (if tr \<noteq> None \<and> given = None then Some TRANSITION else given) \<noteq> None \<and>
        (if tr \<noteq> None \<and> given = None then Some TRANSITION else given) \<noteq> Some TRANSITION)"
      "\<not> (m = None \<and> tr = None \<and> (if tr \<noteq> None \<and> given = None then Some TRANSITION else given) = None)"
      "\<not> ((if tr \<noteq> None \<and> given = None then Some TRANSITION else given) = Some CANCEL_MANEUVER \<and> man = None)"
    and i: "(case m of None \<Rightarrow> Inr () | Some m \<Rightarrow> bindE (physical_action_of (PStr (mi_action m))) (\<lambda>_.
           guardE (man \<noteq> None) (ValueError Missing))) = Inr u"
    and p: "payload (ValueError KeyNotString) (ValueError NotObject) pl = Inr p" "\<not> lifecycle_claim (JObj p)"
      "positive_int g = Inr sv"
    and x: "x = \<lparr>cd_decision_id = did, cd_mission_id = mid, cd_plan_revision = rev, cd_transition_event = tr,
         cd_maneuver_id = man, cd_physical_intent = m,
         cd_choice = (if tr \<noteq> None \<and> given = None then Some TRANSITION else given), cd_payload = p,
         cd_schema_version = sv\<rparr>"
    unfolding control_decision_check_def Let_def bindE_eq_Inr guardE_eq_Inr sum.inject by blast
  have "nonblank did" "nonblank mid" "0 \<le> rev" "opt_all nonblank tr" "opt_all nonblank man" "0 < sv"
    using t p(3) by (simp_all add: text_of_Inr nonneg_int_Inr positive_int_Inr optional_text_Inr)
  moreover have "consistent_choice tr man m (if tr \<noteq> None \<and> given = None then Some TRANSITION else given)"
    using g i unfolding consistent_choice_def by (auto simp: bindE_eq_Inr split: if_splits option.splits)
  moreover have "opt_all physical_intent_wf m"
    using i assms(2) by (auto simp: physical_intent_wf_def isOk_iff bindE_eq_Inr split: option.splits)
  moreover have "wf_obj p" using p(1) assms(3) by (rule payload_wf)
  ultimately show ?thesis using p(2) by (simp add: control_decision_wf_def x)
qed

lemma maneuver_command_new_wf:
  "maneuver_command_new a b c d e m f g = Inr x \<Longrightarrow> maneuver_intent_wf m \<Longrightarrow> maneuver_command_wf x"
  unfolding maneuver_command_new_def bindE_eq_Inr
  by (auto simp: maneuver_command_wf_def physical_intent_wf_def optional_text_Inr text_of_Inr positive_int_Inr
      nonneg_int_Inr isOk_iff)

lemma string_keyed_length: "length (string_keyed kvs) = length kvs \<longleftrightarrow> (\<forall>kv \<in> set kvs. \<exists>s. fst kv = KStr s)"
proof (induction kvs rule: string_keyed.induct)
  case (3 n v kvs)
  have "length (string_keyed kvs) \<le> length kvs" for kvs :: pyitems
    by (induction kvs rule: string_keyed.induct) auto
  then show ?case by (simp add: Suc_n_not_le_n le_imp_less_Suc less_imp_neq)
qed auto

lemma parsed_intent_wf:
  assumes "parsed_intent action parameters = Inr m" and "wf_py parameters"
  shows "maneuver_intent_wf m"
proof -
  from assms(1) obtain kvs ps where k: "as_mapping parameters = Some kvs"
    "mapE (\<lambda>(s, v). maneuver_parameter_new (PStr s) v) (string_keyed kvs) = Inr ps" "maneuver_intent_new action ps = Inr m"
    by (auto simp: parsed_intent_def string_mapping_def err_simps split: option.splits)
  from k(1) assms(2) have w: "\<forall>kv \<in> set kvs. wf_py (snd kv)" by (cases parameters) auto
  have "parameter_wf p" if "p \<in> set ps" for p
  proof -
    from mapE_Inr_set [OF k(2) that] obtain sv where "sv \<in> set (string_keyed kvs)"
      "maneuver_parameter_new (PStr (fst sv)) (snd sv) = Inr p" by auto
    then show ?thesis using string_keyed_wf [OF w] maneuver_parameter_new_wf by blast
  qed
  with maneuver_intent_new_wf [OF k(3)] show ?thesis by blast
qed

lemma wf_item_or: "as_mapping v = Some kvs \<Longrightarrow> wf_py v \<Longrightarrow> wf_py d \<Longrightarrow> wf_py (item_or kvs f d)"
  by (cases v) (force simp: item_or_def split: option.splits dest: map_of_SomeD)+

lemma intent_fields_wf:
  "intent_fields kvs = Inr m \<Longrightarrow> as_mapping v = Some kvs \<Longrightarrow> wf_py v \<Longrightarrow> maneuver_intent_wf m"
  by (auto simp: intent_fields_def err_simps intro!: parsed_intent_wf wf_item_or)

lemma intent_of_arg_wf:
  assumes "intent_of_arg (Raw v) = Inr m" and "wf_py v"
  shows "opt_all maneuver_intent_wf m"
proof -
  from assms(1) obtain kvs where k: "as_mapping v = Some kvs"
    and m: "intent_of_arg (Raw v) = bindE (raw_intent kvs) (\<lambda>m. Inr (Some m))"
    by (auto split: option.splits)
  let ?rest = "filter (\<lambda>kv. fst kv \<noteq> KStr ''action'') kvs"
  have "wf_py (PDict kvs)" using k assms(2) by (cases v) auto
  then have r: "wf_py (PDict ?rest)" by (auto simp: distinct_map_filter)
  have "wf_py (item_or ?rest ''parameters'' (PDict ?rest))" by (rule wf_item_or [OF _ r r]) simp
  with assms(1) show ?thesis
    unfolding m by (auto simp: raw_intent_def Let_def err_simps intro: parsed_intent_wf)
qed

section \<open>Reading records back\<close>

lemma string_mapping_view [simp]:
  "string_mapping (view b (JObj o')) = Inr (map (\<lambda>(k, j). (k, view b j)) o')"
proof -
  have "string_keyed (map (\<lambda>(k, j). (KStr k, view b j)) o') = map (\<lambda>(k, j). (k, view b j)) o'"
    by (induction o') auto
  then show ?thesis by (simp add: string_mapping_def)
qed

lemma parsed_intent_view:
  "maneuver_intent_wf m \<Longrightarrow> parsed_intent (PStr (mi_action m))
     (view b (JObj (map (\<lambda>p. (mp_name p, mp_value p)) (mi_parameters m)))) = Inr m"
  by (simp add: parsed_intent_def maneuver_intent_wf_def parameters_read comp_def maneuver_intent_new_def)

lemma intent_fields_view:
  "maneuver_intent_wf m \<Longrightarrow> as_mapping (view b (maneuver_intent_to_dict m)) = Some kvs \<Longrightarrow> intent_fields kvs = Inr m"
  by (auto simp: intent_fields_def maneuver_intent_to_dict_def item_or_def parsed_intent_view)

lemma intent_mapping: "\<exists>kvs. as_mapping (view b (maneuver_intent_to_dict m)) = Some kvs"
  by (simp add: maneuver_intent_to_dict_def)

lemma optional_text_view [simp]:
  "view b (optional_text_json x) = (case x of None \<Rightarrow> PNone | Some s \<Rightarrow> PStr s)"
  by (simp add: optional_text_json_def split: option.split)

lemma control_decision_new_read:
  assumes "control_decision_wf d"
  shows "control_decision_new (PStr (cd_decision_id d)) (PStr (cd_mission_id d)) (PInt (cd_plan_revision d))
    (view b (optional_text_json (cd_transition_event d))) (view b (optional_text_json (cd_maneuver_id d)))
    (case cd_physical_intent d of None \<Rightarrow> NoIntent | Some m \<Rightarrow> Intent m)
    (case cd_choice d of None \<Rightarrow> PNone | Some c \<Rightarrow> PStr (choice_text c)) (view b' (JObj (cd_payload d)))
    (PInt (cd_schema_version d)) NoIntent PNone PNone = Inr d"
proof -
  have t: "optional text_of (case x of None \<Rightarrow> PNone | Some s \<Rightarrow> PStr s) = Inr x" if "opt_all nonblank x" for x
    using that by (simp add: optional_text_Inr)
  have c: "optional choice_of (case x of None \<Rightarrow> PNone | Some c \<Rightarrow> PStr (choice_text c)) = Inr x" for x
    by (simp add: optional_def split: option.split)
  have a: "intent_argument (case x of None \<Rightarrow> NoIntent | Some m \<Rightarrow> Intent m) NoIntent PNone =
      Inr (case x of None \<Rightarrow> NoIntent | Some m \<Rightarrow> Intent m)"
    "intent_of_arg (case x of None \<Rightarrow> NoIntent | Some m \<Rightarrow> Intent m) = Inr x" for x
    by (simp_all add: intent_argument_def split: option.split)
  have i: "(case cd_physical_intent d of None \<Rightarrow> Inr ()
      | Some m \<Rightarrow> bindE (physical_action_of (PStr (mi_action m))) (\<lambda>_. guardE (cd_maneuver_id d \<noteq> None) (ValueError Missing))) = Inr ()"
    using assms by (auto simp: control_decision_wf_def consistent_choice_def physical_intent_wf_def isOk_iff split: option.split)
  have ch: "(if cd_transition_event d \<noteq> None \<and> cd_choice d = None then Some TRANSITION else cd_choice d) = cd_choice d"
    using assms by (auto simp: control_decision_wf_def consistent_choice_def)
  have p: "payload (ValueError KeyNotString) (ValueError NotObject) (view b' (JObj (cd_payload d))) = Inr (cd_payload d)"
    by simp
  have n: "view b' (JObj (cd_payload d)) \<noteq> PNone" by simp
  have tt: "(if view b (optional_text_json x) = PNone then PNone else view b (optional_text_json x)) =
      (case x of None \<Rightarrow> PNone | Some s \<Rightarrow> PStr s)" for x by (simp split: option.split)
  show ?thesis
    using assms unfolding control_decision_new_def a bindE_Inr control_decision_check_def tt if_not_P [OF n] p
    by (simp add: t c ch i Let_def control_decision_wf_def consistent_choice_def) (auto split: option.split)
qed

lemma intent_item_read:
  assumes "opt_all maneuver_intent_wf x" and "v = (case x of None \<Rightarrow> PNone | Some m \<Rightarrow> view b (maneuver_intent_to_dict m))"
  shows "(case as_mapping v of Some kvs \<Rightarrow> bindE (intent_fields kvs) (\<lambda>m. Inr (Some m))
    | None \<Rightarrow> if v = PNone then Inr None else Inl (ValueError BadType)) = Inr x"
proof (cases x)
  case (Some m)
  obtain kvs where "as_mapping (view b (maneuver_intent_to_dict m)) = Some kvs" using intent_mapping by blast
  with Some assms intent_fields_view [OF _ this] show ?thesis by simp
qed (use assms in simp)

text \<open>Any mapping with the items of a decision is read as the decision.\<close>

lemma control_decision_read:
  assumes "control_decision_wf d"
    and "has_fields [''schema_version'', ''decision_id'', ''mission_id'', ''plan_revision'',
       ''transition_event'', ''maneuver_id'', ''physical_intent'', ''choice'', ''payload''] kvs"
    and i: "item kvs ''schema_version'' = PInt (cd_schema_version d)" "item kvs ''decision_id'' = PStr (cd_decision_id d)"
      "item kvs ''mission_id'' = PStr (cd_mission_id d)" "item kvs ''plan_revision'' = PInt (cd_plan_revision d)"
      "item kvs ''transition_event'' = (case cd_transition_event d of None \<Rightarrow> PNone | Some s \<Rightarrow> PStr s)"
      "item kvs ''maneuver_id'' = (case cd_maneuver_id d of None \<Rightarrow> PNone | Some s \<Rightarrow> PStr s)"
      "item kvs ''choice'' = (case cd_choice d of None \<Rightarrow> PNone | Some c \<Rightarrow> PStr (choice_text c))"
      "item kvs ''physical_intent'' = (case cd_physical_intent d of None \<Rightarrow> PNone | Some m \<Rightarrow> view b (maneuver_intent_to_dict m))"
      "item kvs ''payload'' = view b' (JObj (cd_payload d))"
  shows "control_decision_from_dict kvs = Inr d"
proof -
  note wf = assms(1) [unfolded control_decision_wf_def]
  have ok: "optional text_of (case x of None \<Rightarrow> PNone | Some s \<Rightarrow> PStr s) = Inr x" if "opt_all nonblank x" for x
    using that by (simp add: optional_text_Inr)
  have ch: "optional text_of (case cd_choice d of None \<Rightarrow> PNone | Some c \<Rightarrow> PStr (choice_text c)) =
      Inr (map_option choice_text (cd_choice d))"
    by (simp add: optional_def split: option.split)
  have "opt_all maneuver_intent_wf (cd_physical_intent d)"
    using wf by (auto simp: opt_all_iff physical_intent_wf_def)
  note intent = intent_item_read [OF this i(8)]
  have pay: "PDict (map (\<lambda>(k, v). (KStr k, v)) (map (\<lambda>(k, j). (k, view b' j)) (cd_payload d))) =
      PDict (map (\<lambda>(k, j). (KStr k, view b' j)) (cd_payload d))" by (simp add: comp_def case_prod_unfold)
  have "control_decision_new (PStr (cd_decision_id d)) (PStr (cd_mission_id d)) (PInt (cd_plan_revision d))
    (case cd_transition_event d of None \<Rightarrow> PNone | Some s \<Rightarrow> PStr s) (case cd_maneuver_id d of None \<Rightarrow> PNone | Some s \<Rightarrow> PStr s)
    (case cd_physical_intent d of None \<Rightarrow> NoIntent | Some m \<Rightarrow> Intent m)
    (case cd_choice d of None \<Rightarrow> PNone | Some c \<Rightarrow> PStr (choice_text c))
    (PDict (map (\<lambda>(k, j). (KStr k, view b' j)) (cd_payload d))) (PInt (cd_schema_version d)) NoIntent PNone PNone = Inr d"
  proof -
    have "payload ek eo (PDict (map (\<lambda>(k, j). (KStr k, view b' j)) o')) = Inr o'" for ek eo o'
      by (simp add: payload_def freeze_items_map)
    then have "payload ek eo (PDict (map (\<lambda>(k, j). (KStr k, view b' j)) o')) = payload ek eo (view b' (JObj o'))" for ek eo o'
      by simp
    moreover have "view b' (JObj (cd_payload d)) \<noteq> PNone" by simp
    ultimately show ?thesis
      using control_decision_new_read [OF assms(1), of b b', unfolded optional_text_view]
      unfolding control_decision_new_def control_decision_check_def by simp
  qed
  then show ?thesis
    using wf assms(2) unfolding control_decision_from_dict_def i(1-7) intent i(9) string_mapping_view bindE_Inr pay
    by (simp add: ok ch)
qed

lemma control_decision_view:
  assumes "control_decision_wf d" and "control_decision_to_dict d = JObj o'"
  shows "control_decision_from_dict (map (\<lambda>(k, j). (KStr k, view b j)) o') = Inr d"
  using assms(2) by (intro control_decision_read [OF assms(1)])
    (auto simp: control_decision_to_dict_def has_fields_def optional_text_json_def split: option.split)

definition canonical_decision :: "control_decision \<Rightarrow> control_decision" where
  "canonical_decision d = d\<lparr>cd_physical_intent := map_option canonical_intent (cd_physical_intent d),
     cd_payload := canonical_obj (cd_payload d)\<rparr>"

lemma lifecycle_canonical: "lifecycle_claim (canonical j) = lifecycle_claim j"
proof (induction j)
  case (Obj o')
  then show ?case by (force simp: list_ex_iff set_canonical_obj)
qed (auto simp: list_ex_iff)

lemma physical_intent_canonical: "physical_intent_wf m \<Longrightarrow> physical_intent_wf (canonical_intent m)"
  by (simp add: physical_intent_wf_def) (simp add: canonical_intent_def)

lemma canonical_decision_wf: "control_decision_wf d \<Longrightarrow> control_decision_wf (canonical_decision d)"
  using lifecycle_canonical [of "JObj (cd_payload d)"]
  by (cases "cd_physical_intent d") (auto simp: control_decision_wf_def canonical_decision_def consistent_choice_def
      physical_intent_canonical)

lemma control_decision_json_view:
  assumes "control_decision_wf d" and "control_decision_json d = JObj o'"
  shows "control_decision_from_dict (map (\<lambda>(k, j). (KStr k, view b j)) o') = Inr (canonical_decision d)"
proof (rule control_decision_read [OF canonical_decision_wf [OF assms(1)]])
  have o': "o' = canonical_obj [(''schema_version'', JInt (cd_schema_version d)), (''decision_id'', JStr (cd_decision_id d)),
     (''mission_id'', JStr (cd_mission_id d)), (''plan_revision'', JInt (cd_plan_revision d)),
     (''transition_event'', optional_text_json (cd_transition_event d)),
     (''maneuver_id'', optional_text_json (cd_maneuver_id d)),
     (''physical_intent'', case cd_physical_intent d of None \<Rightarrow> JNull | Some m \<Rightarrow> maneuver_intent_to_dict m),
     (''choice'', case cd_choice d of None \<Rightarrow> JNull | Some c \<Rightarrow> JStr (choice_text c)),
     (''payload'', JObj (cd_payload d))]"
    using assms(2) by (simp add: control_decision_json_def control_decision_to_dict_def)
  have "has_fields fs (map (\<lambda>(k, j). (KStr k, view b j)) o') \<longleftrightarrow> fst ` set o' = set fs" for fs
    by (rule has_fields_view)
  then show "has_fields [''schema_version'', ''decision_id'', ''mission_id'', ''plan_revision'',
       ''transition_event'', ''maneuver_id'', ''physical_intent'', ''choice'', ''payload''] (map (\<lambda>(k, j). (KStr k, view b j)) o')"
    by (simp add: o')
  have c: "canonical (optional_text_json x) = optional_text_json x" for x
    by (simp add: optional_text_json_def split: option.split)
  have m: "canonical (case cd_physical_intent d of None \<Rightarrow> JNull | Some m \<Rightarrow> maneuver_intent_to_dict m) =
      (case cd_physical_intent (canonical_decision d) of None \<Rightarrow> JNull | Some m \<Rightarrow> maneuver_intent_to_dict m)"
    using assms(1) by (auto simp: control_decision_wf_def canonical_decision_def physical_intent_wf_def opt_all_iff
        canonical_maneuver_intent split: option.split)
  show "item (map (\<lambda>(k, j). (KStr k, view b j)) o') ''physical_intent'' =
      (case cd_physical_intent (canonical_decision d) of None \<Rightarrow> PNone | Some m \<Rightarrow> view b (maneuver_intent_to_dict m))"
    by (simp add: o' map_of_canonical_obj m) (simp split: option.split)
qed (use assms(2) in \<open>auto simp: control_decision_json_def control_decision_to_dict_def map_of_canonical_obj
    canonical_decision_def optional_text_json_def split: option.split\<close>)

text \<open>The same for commands.\<close>

lemma maneuver_command_new_read:
  assumes "maneuver_command_wf c"
  shows "maneuver_command_new (PStr (mc_command_id c)) (PStr (mc_correlation_id c)) (PStr (mc_mission_id c))
    (PInt (mc_plan_revision c)) (PStr (mc_maneuver_id c)) (mc_intent c) (PInt (mc_schema_version c))
    (case mc_mission_snapshot_id c of None \<Rightarrow> PNone | Some s \<Rightarrow> PStr s) = Inr c"
proof -
  have "optional text_of (case mc_mission_snapshot_id c of None \<Rightarrow> PNone | Some s \<Rightarrow> PStr s) = Inr (mc_mission_snapshot_id c)"
    using assms by (simp add: maneuver_command_wf_def optional_text_Inr)
  with assms show ?thesis
    by (auto simp: maneuver_command_new_def maneuver_command_wf_def physical_intent_wf_def isOk_iff)
qed

lemma intent_guard:
  assumes "maneuver_intent_wf m" and "as_mapping (view b (maneuver_intent_to_dict m)) = Some kvs"
  shows "is_PStr (item kvs ''action'') \<and> as_mapping (item_or kvs ''parameters'' (PDict [])) \<noteq> None"
  using intent_fields_view [OF assms] by (auto simp: intent_fields_def err_simps)

lemma maneuver_command_read:
  assumes "maneuver_command_wf c"
    and "has_fields [''schema_version'', ''command_id'', ''correlation_id'', ''mission_id'',
         ''plan_revision'', ''maneuver_id'', ''intent'', ''mission_snapshot_id''] kvs"
    and i: "item kvs ''schema_version'' = PInt (mc_schema_version c)" "item kvs ''command_id'' = PStr (mc_command_id c)"
      "item kvs ''correlation_id'' = PStr (mc_correlation_id c)" "item kvs ''mission_id'' = PStr (mc_mission_id c)"
      "item kvs ''plan_revision'' = PInt (mc_plan_revision c)" "item kvs ''maneuver_id'' = PStr (mc_maneuver_id c)"
      "item kvs ''mission_snapshot_id'' = (case mc_mission_snapshot_id c of None \<Rightarrow> PNone | Some s \<Rightarrow> PStr s)"
      "item kvs ''intent'' = view b (maneuver_intent_to_dict (mc_intent c))"
  shows "maneuver_command_from_dict kvs = Inr c"
proof -
  note wf = assms(1) [unfolded maneuver_command_wf_def]
  obtain fs where fs: "as_mapping (view b (maneuver_intent_to_dict (mc_intent c))) = Some fs" using intent_mapping by blast
  have m: "maneuver_intent_wf (mc_intent c)" using wf by (simp add: physical_intent_wf_def)
  have ok: "optional text_of (case x of None \<Rightarrow> PNone | Some s \<Rightarrow> PStr s) = Inr x" if "opt_all nonblank x" for x
    using that by (simp add: optional_text_Inr)
  show ?thesis
    using wf assms(2) intent_guard [OF m fs] intent_fields_view [OF m fs] maneuver_command_new_read [OF assms(1)]
    unfolding maneuver_command_from_dict_def i fs option.case by (simp add: ok)
qed

lemma maneuver_command_view:
  assumes "maneuver_command_wf c" and "maneuver_command_to_dict c = JObj o'"
  shows "maneuver_command_from_dict (map (\<lambda>(k, j). (KStr k, view b j)) o') = Inr c"
  using assms(2) by (intro maneuver_command_read [OF assms(1)])
    (auto simp: maneuver_command_to_dict_def has_fields_def)

definition canonical_command :: "maneuver_command \<Rightarrow> maneuver_command" where
  "canonical_command c = c\<lparr>mc_intent := canonical_intent (mc_intent c)\<rparr>"

lemma canonical_command_wf: "maneuver_command_wf c \<Longrightarrow> maneuver_command_wf (canonical_command c)"
  by (auto simp: maneuver_command_wf_def canonical_command_def physical_intent_canonical)

lemma canonical_optional_text [simp]: "canonical (optional_text_json x) = optional_text_json x"
  by (simp add: optional_text_json_def split: option.split)

lemma maneuver_command_json_view:
  assumes "maneuver_command_wf c" and "maneuver_command_json c = JObj o'"
  shows "maneuver_command_from_dict (map (\<lambda>(k, j). (KStr k, view b j)) o') = Inr (canonical_command c)"
proof (rule maneuver_command_read [OF canonical_command_wf [OF assms(1)]])
  have m: "maneuver_intent_wf (mc_intent c)" using assms(1) by (simp add: maneuver_command_wf_def physical_intent_wf_def)
  show "item (map (\<lambda>(k, j). (KStr k, view b j)) o') ''intent'' = view b (maneuver_intent_to_dict (mc_intent (canonical_command c)))"
    using assms(2) by (auto simp: maneuver_command_json_def maneuver_command_to_dict_def map_of_canonical_obj
        canonical_command_def canonical_maneuver_intent [OF m])
  show "has_fields [''schema_version'', ''command_id'', ''correlation_id'', ''mission_id'',
         ''plan_revision'', ''maneuver_id'', ''intent'', ''mission_snapshot_id''] (map (\<lambda>(k, j). (KStr k, view b j)) o')"
    using assms(2) by (auto simp: maneuver_command_json_def maneuver_command_to_dict_def simp del: has_fields_view
        simp: has_fields_view [of _ b "canonical_obj _"])
qed (use assms(2) in \<open>auto simp: maneuver_command_json_def maneuver_command_to_dict_def map_of_canonical_obj
    canonical_command_def\<close>)

lemma intent_dict_wf: "maneuver_intent_wf m \<Longrightarrow> wf_json (maneuver_intent_to_dict m)"
  by (auto simp: maneuver_intent_to_dict_def maneuver_intent_wf_def parameters_wf_def comp_def)

lemma optional_text_json_wf [simp]: "wf_json (optional_text_json x)"
  by (simp add: optional_text_json_def split: option.split)

lemma control_decision_dict_wf: "control_decision_wf d \<Longrightarrow> wf_json (control_decision_to_dict d)"
  by (auto simp: control_decision_to_dict_def control_decision_wf_def wf_obj_def opt_all_iff physical_intent_wf_def
      intent_dict_wf split: option.split)

lemma maneuver_command_dict_wf: "maneuver_command_wf c \<Longrightarrow> wf_json (maneuver_command_to_dict c)"
  by (auto simp: maneuver_command_to_dict_def maneuver_command_wf_def physical_intent_wf_def intent_dict_wf)

text \<open>A command sent through the transport and read back.\<close>

lemma maneuver_to_command_ok:
  assumes "maneuver_command_wf c" and "nonblank target" and "nonblank topic" and "maneuver_command_to_dict c = JObj o'"
  shows "maneuver_to_command target topic c = Inr \<lparr>cmd_schema_version = mc_schema_version c,
      cmd_command_id = mc_command_id c, cmd_correlation_id = mc_correlation_id c, cmd_mission_id = mc_mission_id c,
      cmd_target_service = target, cmd_command_kind = topic, cmd_payload = o'\<rparr>"
  using assms by (simp add: maneuver_to_command_def command_new_def maneuver_command_wf_def)

lemma maneuver_to_command_wf:
  "maneuver_to_command target topic c = Inr k \<Longrightarrow> maneuver_command_wf c \<Longrightarrow> command_wf k"
  unfolding maneuver_to_command_def by (erule command_new_wf) (simp add: maneuver_command_dict_wf)

lemma maneuver_from_command_read:
  assumes "maneuver_command_wf c" and "cmd_command_kind k = topic"
    and f: "cmd_command_id k = mc_command_id c" "cmd_correlation_id k = mc_correlation_id c"
      "cmd_mission_id k = mc_mission_id c" "cmd_schema_version k = mc_schema_version c"
    and i: "map_of (cmd_payload k) ''plan_revision'' = Some (JInt (mc_plan_revision c))"
      "map_of (cmd_payload k) ''maneuver_id'' = Some (JStr (mc_maneuver_id c))"
      "map_of (cmd_payload k) ''mission_snapshot_id'' = Some (optional_text_json (mc_mission_snapshot_id c))"
      "map_of (cmd_payload k) ''intent'' = Some (maneuver_intent_to_dict (mc_intent c))"
  shows "maneuver_from_command topic k = Inr c"
proof -
  note wf = assms(1) [unfolded maneuver_command_wf_def]
  obtain fs where fs: "as_mapping (proxied (maneuver_intent_to_dict (mc_intent c))) = Some fs" using intent_mapping by blast
  have m: "maneuver_intent_wf (mc_intent c)" using wf by (simp add: physical_intent_wf_def)
  have ok: "optional text_of (case mc_mission_snapshot_id c of None \<Rightarrow> PNone | Some s \<Rightarrow> PStr s) = Inr (mc_mission_snapshot_id c)"
    using wf by (simp add: optional_text_Inr)
  show ?thesis
    using intent_guard [OF m fs] intent_fields_view [OF m fs] maneuver_command_new_read [OF assms(1)]
    unfolding maneuver_from_command_def item_view i Let_def option.case fs
    by (simp add: assms(2) f fs ok)
qed

lemma maneuver_from_command_sent:
  assumes "maneuver_command_wf c" and "maneuver_to_command target topic c = Inr k"
  shows "maneuver_from_command topic k = Inr c"
proof -
  obtain o' where o': "maneuver_command_to_dict c = JObj o'" by (simp add: maneuver_command_to_dict_def)
  from assms(2) have "nonblank target" "nonblank topic" by (auto simp: maneuver_to_command_def command_new_def err_simps split: if_splits)
  from maneuver_to_command_ok [OF assms(1) this o'] assms(2) o'
  show ?thesis by (intro maneuver_from_command_read [OF assms(1)]) (auto simp: maneuver_command_to_dict_def)
qed

section \<open>Overlay and completion\<close>

record invocation_overlay =
  io_mission_id :: string
  io_request_id :: string
  io_values :: jobj

definition invocation_overlay_new :: "pyval \<Rightarrow> pyval \<Rightarrow> pyval \<Rightarrow> invocation_overlay result" where
  "invocation_overlay_new mission_id request_id values =
     bindE (text_of mission_id) (\<lambda>mid.
     bindE (text_of request_id) (\<lambda>rid.
     bindE (payload (ValueError KeyNotString) (ValueError NotObject) values) (\<lambda>vs.
       Inr \<lparr>io_mission_id = mid, io_request_id = rid, io_values = vs\<rparr>)))"

definition overlay_snapshot :: "invocation_overlay \<Rightarrow> json" where
  "overlay_snapshot o' = getd (io_values o') ''snapshot'' JNull"

definition overlay_fsm_status :: "invocation_overlay \<Rightarrow> json" where
  "overlay_fsm_status o' = getd (io_values o') ''fsm_status'' (getd (io_values o') ''status'' JNull)"

definition invocation_overlay_to_dict :: "invocation_overlay \<Rightarrow> json" where
  "invocation_overlay_to_dict o' = JObj [(''mission_id'', JStr (io_mission_id o')),
     (''request_id'', JStr (io_request_id o')), (''values'', JObj (io_values o'))]"

record heartbeat_completion =
  hc_mission_id :: string
  hc_request_id :: string
  hc_summary :: string

definition heartbeat_completion_new :: "pyval \<Rightarrow> pyval \<Rightarrow> pyval \<Rightarrow> heartbeat_completion result" where
  "heartbeat_completion_new mission_id request_id summary =
     bindE (text_of mission_id) (\<lambda>mid.
     bindE (text_of request_id) (\<lambda>rid.
     bindE (text_of summary) (\<lambda>s.
       Inr \<lparr>hc_mission_id = mid, hc_request_id = rid, hc_summary = s\<rparr>)))"

definition heartbeat_completion_to_dict :: "heartbeat_completion \<Rightarrow> json" where
  "heartbeat_completion_to_dict c = JObj [(''mission_id'', JStr (hc_mission_id c)),
     (''request_id'', JStr (hc_request_id c)), (''summary'', JStr (hc_summary c))]"

definition heartbeat_completion_json :: "heartbeat_completion \<Rightarrow> json" where
  "heartbeat_completion_json c = canonical (heartbeat_completion_to_dict c)"

definition heartbeat_completion_from_dict :: "pyval \<Rightarrow> heartbeat_completion result" where
  "heartbeat_completion_from_dict v =
     bindE (strict_fields [''mission_id'', ''request_id'', ''summary''] v) (\<lambda>kvs.
     heartbeat_completion_new (item kvs ''mission_id'') (item kvs ''request_id'') (item kvs ''summary''))"

definition heartbeat_completion_from_json :: "pyval option \<Rightarrow> heartbeat_completion result" where
  "heartbeat_completion_from_json decoded = (case decoded of
     None \<Rightarrow> Inl (ValueError InvalidJson)
   | Some v \<Rightarrow> if as_mapping v = None then Inl (TypeError NotObject) else heartbeat_completion_from_dict v)"

lemma heartbeat_completion_json_view:
  "heartbeat_completion_new a b c = Inr x \<Longrightarrow>
    heartbeat_completion_from_json (Some (thaw (heartbeat_completion_json x))) = Inr x"
  by (auto simp: heartbeat_completion_new_def heartbeat_completion_from_json_def heartbeat_completion_json_def
      heartbeat_completion_to_dict_def heartbeat_completion_from_dict_def err_simps map_of_canonical_obj insert_commute)

section \<open>Correctness\<close>

lemma control_decision_from_dict_wf:
  assumes "control_decision_from_dict kvs = Inr d" and "wf_py (PDict kvs)"
  shows "control_decision_wf d"
proof -
  from assms(1) obtain intent items where
    i: "(case as_mapping (item kvs ''physical_intent'') of
         Some fs \<Rightarrow> bindE (intent_fields fs) (\<lambda>m. Inr (Some m))
       | None \<Rightarrow> if item kvs ''physical_intent'' = PNone then Inr None else Inl (ValueError BadType)) = Inr intent"
    and p: "string_mapping (item kvs ''payload'') = Inr items"
    and n: "isOk (control_decision_new (item kvs ''decision_id'') (item kvs ''mission_id'') (item kvs ''plan_revision'')
       (item kvs ''transition_event'') (item kvs ''maneuver_id'') (case intent of None \<Rightarrow> NoIntent | Some m \<Rightarrow> Intent m)
       (item kvs ''choice'') (PDict (map (\<lambda>(k, v). (KStr k, v)) items)) (item kvs ''schema_version'') NoIntent PNone PNone)"
      "control_decision_new (item kvs ''decision_id'') (item kvs ''mission_id'') (item kvs ''plan_revision'')
       (item kvs ''transition_event'') (item kvs ''maneuver_id'') (case intent of None \<Rightarrow> NoIntent | Some m \<Rightarrow> Intent m)
       (item kvs ''choice'') (PDict (map (\<lambda>(k, v). (KStr k, v)) items)) (item kvs ''schema_version'') NoIntent PNone PNone = Inr d"
    unfolding control_decision_from_dict_def bindE_eq_Inr guardE_eq_Inr text_of_Inr by (metis isOk_simps(1))
  have w: "wf_py (item kvs f)" for f using wf_item [of "PDict kvs"] assms(2) by simp
  have m: "opt_all maneuver_intent_wf intent"
    using i by (auto simp: err_simps split: option.splits if_splits intro: intent_fields_wf [OF _ _ w])
  have "wf_py (PDict (map (\<lambda>(k, v). (KStr k, v)) items))"
  proof -
    from p obtain fs where fs: "as_mapping (item kvs ''payload'') = Some fs" "items = string_keyed fs"
      "length (string_keyed fs) = length fs"
      by (auto simp: string_mapping_def err_simps split: option.splits)
    have "map (\<lambda>(k, v). (KStr k, v)) (string_keyed fs) = fs" if "length (string_keyed fs) = length fs" for fs :: pyitems
      using that unfolding string_keyed_length by (induction fs rule: string_keyed.induct) auto
    with fs(3) have "map (\<lambda>(k, v). (KStr k, v)) items = fs" unfolding fs(2) by blast
    moreover have "wf_py (PDict fs)" using w [of "''payload''"] fs(1) by (cases "item kvs ''payload''") auto
    ultimately show ?thesis by simp
  qed
  moreover have "intent_argument (case intent of None \<Rightarrow> NoIntent | Some m \<Rightarrow> Intent m) NoIntent PNone =
      Inr (case intent of None \<Rightarrow> NoIntent | Some m \<Rightarrow> Intent m)"
    "intent_of_arg (case intent of None \<Rightarrow> NoIntent | Some m \<Rightarrow> Intent m) = Inr intent"
    by (simp_all add: intent_argument_def split: option.split)
  ultimately show ?thesis
    using n(2) m unfolding control_decision_new_def by (auto intro: control_decision_check_wf)
qed

text \<open>A maneuver decision is consistent. Whatever mapping is decoded, an accepted decision selects an
  outcome; it has a transition event exactly when its choice is \<open>transition\<close>; a physical intent names one
  of the six physical actions and a maneuver, and excludes a transition and a cancellation; a
  cancellation names a maneuver; and no key of the payload, at any depth, claims a lifecycle.\<close>

theorem control_decision_sound:
  assumes "control_decision_from_dict kvs = Inr d" and "wf_py (PDict kvs)"
  shows "(cd_physical_intent d \<noteq> None \<or> cd_choice d \<noteq> None) \<and>
    (cd_transition_event d \<noteq> None \<longleftrightarrow> cd_choice d = Some TRANSITION) \<and>
    (\<forall>m. cd_physical_intent d = Some m \<longrightarrow> (\<exists>a. mi_action m = physical_text a) \<and> cd_maneuver_id d \<noteq> None \<and>
       cd_transition_event d = None \<and> cd_choice d \<noteq> Some CANCEL_MANEUVER) \<and>
    (cd_choice d = Some CANCEL_MANEUVER \<longrightarrow> cd_maneuver_id d \<noteq> None) \<and>
    \<not> lifecycle_claim (JObj (cd_payload d))"
proof -
  note wf = control_decision_from_dict_wf [OF assms, unfolded control_decision_wf_def consistent_choice_def]
  have "\<exists>a. mi_action m = physical_text a" if "cd_physical_intent d = Some m" for m
  proof -
    from wf that have "isOk (physical_action_of (PStr (mi_action m)))" by (simp add: physical_intent_wf_def)
    then show ?thesis unfolding isOk_iff physical_action_of_def by (auto dest: enum_of_Inr)
  qed
  with wf show ?thesis by (simp only:) blast
qed

definition ex_navigate :: maneuver_intent where
  "ex_navigate = \<lparr>mi_action = ''navigate'', mi_parameters = [\<lparr>mp_name = ''to'', mp_value =
     JObj [(''y'', JInt 2), (''x'', JInt 1)]\<rparr>]\<rparr>"

definition ex_control_decision :: control_decision where
  "ex_control_decision = \<lparr>cd_decision_id = ''d1'', cd_mission_id = ''m1'', cd_plan_revision = 1,
     cd_transition_event = None, cd_maneuver_id = Some ''mv1'', cd_physical_intent = Some ex_navigate,
     cd_choice = None, cd_payload = [], cd_schema_version = 1\<rparr>"

definition ex_command :: maneuver_command where
  "ex_command = \<lparr>mc_command_id = ''c1'', mc_correlation_id = ''k1'', mc_mission_id = ''m1'', mc_plan_revision = 1,
     mc_maneuver_id = ''mv1'', mc_intent = ex_navigate, mc_schema_version = 1, mc_mission_snapshot_id = None\<rparr>"

lemma ex_maneuver_wf: "control_decision_wf ex_control_decision" "maneuver_command_wf ex_command"
  by code_simp+

theorem control_decision_sound_witness:
  "\<exists>kvs. control_decision_from_dict kvs = Inr ex_control_decision \<and> cd_transition_event ex_control_decision = None"
proof -
  obtain o' where o': "control_decision_to_dict ex_control_decision = JObj o'" by (simp add: control_decision_to_dict_def)
  note read = control_decision_view [OF ex_maneuver_wf(1) o', of False]
  have "wf_json (JObj o')" using control_decision_dict_wf [OF ex_maneuver_wf(1)] by (simp only: o')
  then have "wf_py (view False (JObj o'))" by (simp only: wf_view)
  then have "wf_py (PDict (map (\<lambda>(k, j). (KStr k, view False j)) o'))" by (simp only: view.simps if_False simp_thms)
  from control_decision_sound [OF read this] read show ?thesis by (auto simp: ex_control_decision_def)
qed

text \<open>A physical intent can be combined with another choice. The documentation of the decision says that
  exactly one of transition event, physical intent and choice is selected. A decision with a physical
  intent and the choice \<open>no_change\<close> is accepted, by the constructor and from its dictionary.\<close>

theorem physical_with_choice:
  "\<exists>d. control_decision_new (PStr ''d1'') (PStr ''m1'') (PInt 0) PNone (PStr ''mv1'') (Intent ex_navigate)
      (PStr ''no_change'') PNone (PInt 1) NoIntent PNone PNone = Inr d \<and>
    cd_physical_intent d \<noteq> None \<and> cd_choice d = Some NO_CHANGE \<and>
    (case control_decision_to_dict d of JObj o' \<Rightarrow>
       control_decision_from_dict (map (\<lambda>(k, j). (KStr k, thaw j)) o') = Inr d | _ \<Rightarrow> False)"
proof -
  let ?d = "ex_control_decision\<lparr>cd_plan_revision := 0, cd_choice := Some NO_CHANGE\<rparr>"
  have "control_decision_new (PStr ''d1'') (PStr ''m1'') (PInt 0) PNone (PStr ''mv1'') (Intent ex_navigate)
      (PStr ''no_change'') PNone (PInt 1) NoIntent PNone PNone = Inr ?d" by code_simp
  moreover obtain o' where o': "control_decision_to_dict ?d = JObj o'" by (simp add: control_decision_to_dict_def)
  moreover have "control_decision_wf ?d" by code_simp
  from control_decision_view [OF this o', of False]
  have "control_decision_from_dict (map (\<lambda>(k, j). (KStr k, thaw j)) o') = Inr ?d" .
  ultimately show ?thesis by (intro exI [of _ ?d]) (simp add: ex_control_decision_def)
qed

text \<open>Maneuver records survive storage and transport. A decision and a command are recovered exactly from
  their dictionaries, frozen or thawed; from their canonical JSON text they are recovered with the keys of
  nested values in canonical order; and a command that was turned into a generic command of the transport
  is recovered from it exactly.\<close>

theorem maneuver_records_round_trip:
  assumes "control_decision_wf d" and "control_decision_to_dict d = JObj o'" and "maneuver_command_wf c"
    and "maneuver_command_to_dict c = JObj p'" and "nonblank target" and "nonblank topic"
  shows "control_decision_from_dict (map (\<lambda>(k, j). (KStr k, view frozen j)) o') = Inr d \<and>
    control_decision_from_json (Some (thaw (control_decision_json d))) = Inr (canonical_decision d) \<and>
    maneuver_command_from_dict (map (\<lambda>(k, j). (KStr k, view frozen j)) p') = Inr c \<and>
    maneuver_command_from_json (Some (thaw (maneuver_command_json c))) = Inr (canonical_command c) \<and>
    (\<exists>k. maneuver_to_command target topic c = Inr k \<and> command_wf k \<and> maneuver_from_command topic k = Inr c)"
proof -
  have f: "map (\<lambda>(k, v). (KStr k, v)) (map (\<lambda>(k, j). (k, thaw j)) x) = map (\<lambda>(k, j). (KStr k, thaw j)) x" for x
    by (simp add: comp_def case_prod_unfold)
  obtain dj cj where j: "control_decision_json d = JObj dj" "maneuver_command_json c = JObj cj"
    by (simp add: control_decision_json_def control_decision_to_dict_def maneuver_command_json_def
        maneuver_command_to_dict_def)
  have "control_decision_from_json (Some (thaw (control_decision_json d))) = Inr (canonical_decision d)"
    using control_decision_json_view [OF assms(1) j(1), of False]
    by (simp add: control_decision_from_json_def j(1) f del: map_map)
  moreover have "maneuver_command_from_json (Some (thaw (maneuver_command_json c))) = Inr (canonical_command c)"
    using maneuver_command_json_view [OF assms(3) j(2), of False]
    by (simp add: maneuver_command_from_json_def j(2) f del: map_map)
  moreover from maneuver_to_command_ok [OF assms(3,5,6,4)] obtain k where k: "maneuver_to_command target topic c = Inr k"
    by blast
  ultimately show ?thesis
    using control_decision_view [OF assms(1,2)] maneuver_command_view [OF assms(3,4)]
      maneuver_to_command_wf [OF k assms(3)] maneuver_from_command_sent [OF assms(3) k] by blast
qed

theorem maneuver_records_round_trip_witness:
  "\<exists>k. maneuver_to_command ''adapter'' ''maneuver'' ex_command = Inr k \<and> maneuver_from_command ''maneuver'' k = Inr ex_command"
proof -
  obtain o' p' where "control_decision_to_dict ex_control_decision = JObj o'" "maneuver_command_to_dict ex_command = JObj p'"
    by (simp add: control_decision_to_dict_def maneuver_command_to_dict_def)
  from maneuver_records_round_trip [OF ex_maneuver_wf(1) this(1) ex_maneuver_wf(2) this(2), of "''adapter''" "''maneuver''" False]
  show ?thesis by auto
qed

end
