(* ===== verification/Mission_Snapshots.thy ===== *)
theory Mission_Snapshots
  imports Transport_Contracts
begin

text \<open>
  Mission Snapshots, the manifests of references to authoritative facts, and the source-fact events
  they are built from: \<open>src/onr/contracts/context_coordination.py\<close>.
\<close>

section \<open>Sources\<close>

definition snapshot_sources :: "string list" where
  "snapshot_sources = [''plan'', ''environment_data'', ''bayesian_belief_snapshot'', ''fsm_status'', ''active_maneuver'']"

definition source_aliases :: "(string \<times> string) list" where
  "source_aliases = [(''belief'', ''bayesian_belief_snapshot''),
     (''bayesian-belief-snapshot'', ''bayesian_belief_snapshot''),
     (''fsm'', ''fsm_status''), (''fsm-status'', ''fsm_status''),
     (''maneuver'', ''active_maneuver''), (''active-maneuver'', ''active_maneuver'')]"

definition normalize_source_name :: "pyval \<Rightarrow> string result" where
  "normalize_source_name v =
     bindE (text_of v) (\<lambda>s.
     let source = getd source_aliases s s
     in bindE (guardE (source \<in> set snapshot_sources) (ValueError Undeclared)) (\<lambda>_. Inr source))"

text \<open>\<open>_reference\<close>: a string that is not blank, or null.\<close>

definition reference :: "pyval \<Rightarrow> string option result" where
  "reference v = optional text_of v"

text \<open>The other values a source has in a snapshot: its revision, its health and whether it is fresh.\<close>

definition source_revision :: "pyval \<Rightarrow> int option result" where
  "source_revision v = optional nonneg_int v"

fun source_fresh :: "pyval \<Rightarrow> bool result" where
  "source_fresh (PBool b) = Inr b"
| "source_fresh _ = Inl (ValueError BadType)"

section \<open>The snapshot\<close>

record mission_snapshot =
  ms_mission_id :: string
  ms_version :: int
  ms_created_at :: string
  ms_plan_revision :: "int option"
  ms_plan_reference :: "string option"
  ms_environment_data :: "string option"
  ms_belief_snapshot :: "string option"
  ms_fsm_status :: "string option"
  ms_active_maneuver :: "string option"
  ms_source_revisions :: "(string \<times> int option) list"
  ms_source_references :: "(string \<times> string option) list"
  ms_source_health :: "(string \<times> string) list"
  ms_source_freshness :: "(string \<times> bool) list"
  ms_missing_sources :: "string list"

text \<open>
  The four loops over \<open>mapping.items()\<close>: each starts from a default for every source and overwrites it,
  refusing sources it does not know.
\<close>

fun set_sources :: "(pyval \<Rightarrow> 'a result) \<Rightarrow> pyitems \<Rightarrow> (string \<times> 'a) list \<Rightarrow> (string \<times> 'a) list result" where
  "set_sources f [] d = Inr d"
| "set_sources f ((KStr k, v) # kvs) d =
     (if map_of d k = None then Inl (ValueError Undeclared)
      else bindE (f v) (\<lambda>x. set_sources f kvs (put k x d)))"
| "set_sources f ((KOther n, v) # kvs) d = Inl (ValueError Undeclared)"

definition each_source :: "'a \<Rightarrow> (string \<times> 'a) list" where
  "each_source x = map (\<lambda>s. (s, x)) snapshot_sources"

definition items_of :: "pyval \<Rightarrow> pyitems result" where
  "items_of v = (case as_mapping v of None \<Rightarrow> Inl AttributeError | Some kvs \<Rightarrow> Inr kvs)"

text \<open>A reference given as a field of its own takes precedence over the one in the mapping.\<close>

definition direct_reference ::
  "string \<Rightarrow> pyval \<Rightarrow> (string \<times> string option) list \<Rightarrow> (string \<times> string option) list result" where
  "direct_reference source direct refs =
     (if direct = PNone then Inr refs else bindE (reference direct) (\<lambda>r. Inr (put source r refs)))"

definition missing_of :: "(string \<times> string option) list \<Rightarrow> (string \<times> int option) list \<Rightarrow> (string \<times> string) list \<Rightarrow>
  string list" where
  "missing_of refs revs health = filter (\<lambda>s. getd refs s None = None \<or> getd revs s None = None \<or>
     getd health s ''missing'' = ''missing'') snapshot_sources"

definition mission_snapshot_new ::
  "pyval \<Rightarrow> pyval \<Rightarrow> pyval \<Rightarrow> pyval \<Rightarrow> pyval \<Rightarrow> pyval \<Rightarrow> pyval \<Rightarrow> pyval \<Rightarrow> pyval \<Rightarrow>
   pyval \<Rightarrow> pyval \<Rightarrow> pyval \<Rightarrow> pyval \<Rightarrow> mission_snapshot result" where
  "mission_snapshot_new mission_id version created_at plan_revision plan_reference environment belief fsm maneuver
     revisions references health freshness =
     bindE (text_of mission_id) (\<lambda>mid.
     bindE (positive_int version) (\<lambda>ver.
     bindE (text_of created_at) (\<lambda>created.
     bindE (optional nonneg_int plan_revision) (\<lambda>plan_rev.
     bindE (items_of references) (\<lambda>ref_items.
     bindE (set_sources reference ref_items (each_source None)) (\<lambda>refs0.
     bindE (direct_reference ''plan'' plan_reference refs0) (\<lambda>refs1.
     bindE (direct_reference ''environment_data'' environment refs1) (\<lambda>refs2.
     bindE (direct_reference ''bayesian_belief_snapshot'' belief refs2) (\<lambda>refs3.
     bindE (direct_reference ''fsm_status'' fsm refs3) (\<lambda>refs4.
     bindE (direct_reference ''active_maneuver'' maneuver refs4) (\<lambda>refs.
     bindE (items_of revisions) (\<lambda>rev_items.
     bindE (set_sources source_revision rev_items (each_source None)) (\<lambda>revs0.
     bindE (guardE (\<not> (plan_rev \<noteq> None \<and> getd revs0 ''plan'' None \<notin> {None, plan_rev})) (ValueError Inconsistent)) (\<lambda>_.
     let revs = (if getd revs0 ''plan'' None = None then put ''plan'' plan_rev revs0 else revs0);
         rev = (if getd revs0 ''plan'' None \<noteq> None \<and> plan_rev = None then getd revs0 ''plan'' None else plan_rev)
     in
     bindE (items_of health) (\<lambda>health_items.
     bindE (set_sources text_of health_items (each_source ''missing'')) (\<lambda>hs.
     bindE (items_of freshness) (\<lambda>fresh_items.
     bindE (set_sources source_fresh fresh_items (each_source False)) (\<lambda>fr.
       Inr \<lparr>ms_mission_id = mid, ms_version = ver, ms_created_at = created, ms_plan_revision = rev,
         ms_plan_reference = getd refs ''plan'' None, ms_environment_data = getd refs ''environment_data'' None,
         ms_belief_snapshot = getd refs ''bayesian_belief_snapshot'' None,
         ms_fsm_status = getd refs ''fsm_status'' None, ms_active_maneuver = getd refs ''active_maneuver'' None,
         ms_source_revisions = revs, ms_source_references = refs, ms_source_health = hs,
         ms_source_freshness = fr, ms_missing_sources = missing_of refs revs hs\<rparr>))))))))))))))))))"

definition optional_str :: "string option \<Rightarrow> json" where
  "optional_str x = (case x of None \<Rightarrow> JNull | Some s \<Rightarrow> JStr s)"

definition optional_int :: "int option \<Rightarrow> json" where
  "optional_int x = (case x of None \<Rightarrow> JNull | Some i \<Rightarrow> JInt i)"

definition mission_snapshot_to_dict :: "mission_snapshot \<Rightarrow> json" where
  "mission_snapshot_to_dict s = JObj [
     (''schema_version'', JInt 1),
     (''mission_id'', JStr (ms_mission_id s)),
     (''version'', JInt (ms_version s)),
     (''created_at'', JStr (ms_created_at s)),
     (''plan_revision'', optional_int (ms_plan_revision s)),
     (''plan_reference'', optional_str (ms_plan_reference s)),
     (''environment_data'', optional_str (ms_environment_data s)),
     (''bayesian_belief_snapshot'', optional_str (ms_belief_snapshot s)),
     (''fsm_status'', optional_str (ms_fsm_status s)),
     (''active_maneuver'', optional_str (ms_active_maneuver s)),
     (''source_revisions'', JObj (map (\<lambda>(k, x). (k, optional_int x)) (ms_source_revisions s))),
     (''source_references'', JObj (map (\<lambda>(k, x). (k, optional_str x)) (ms_source_references s))),
     (''source_health'', JObj (map (\<lambda>(k, x). (k, JStr x)) (ms_source_health s))),
     (''source_freshness'', JObj (map (\<lambda>(k, x). (k, JBool x)) (ms_source_freshness s))),
     (''missing_sources'', JArr (map JStr (ms_missing_sources s)))]"

definition mission_snapshot_json :: "mission_snapshot \<Rightarrow> json" where
  "mission_snapshot_json s = canonical (mission_snapshot_to_dict s)"

definition mission_snapshot_from_dict :: "pyval \<Rightarrow> mission_snapshot result" where
  "mission_snapshot_from_dict v =
     bindE (strict_fields [''schema_version'', ''mission_id'', ''version'', ''created_at'', ''plan_revision'',
       ''plan_reference'', ''environment_data'', ''bayesian_belief_snapshot'', ''fsm_status'', ''active_maneuver'',
       ''source_revisions'', ''source_references'', ''source_health'', ''source_freshness'', ''missing_sources''] v) (\<lambda>kvs.
     bindE (guardE (equals_int (item kvs ''schema_version'') 1) (ValueError BadSchemaVersion)) (\<lambda>_.
     mission_snapshot_new (item kvs ''mission_id'') (item kvs ''version'') (item kvs ''created_at'')
       (item kvs ''plan_revision'') (item kvs ''plan_reference'') (item kvs ''environment_data'')
       (item kvs ''bayesian_belief_snapshot'') (item kvs ''fsm_status'') (item kvs ''active_maneuver'')
       (item kvs ''source_revisions'') (item kvs ''source_references'') (item kvs ''source_health'')
       (item kvs ''source_freshness'')))"

definition mission_snapshot_from_json :: "pyval option \<Rightarrow> mission_snapshot result" where
  "mission_snapshot_from_json decoded = (case decoded of
     None \<Rightarrow> Inl (ValueError InvalidJson) | Some v \<Rightarrow> mission_snapshot_from_dict v)"

section \<open>Events\<close>

definition snapshot_to_event :: "mission_snapshot \<Rightarrow> pyval \<Rightarrow> pyval \<Rightarrow> transport_event result" where
  "snapshot_to_event s event_id sequence = transport_event_new (PInt 1) event_id (PStr (ms_mission_id s)) sequence
     (PStr ''mission-snapshot'') (thaw (mission_snapshot_to_dict s))"

definition snapshot_from_event :: "transport_event \<Rightarrow> mission_snapshot result" where
  "snapshot_from_event e =
     bindE (guardE (te_event_kind e = ''mission-snapshot'') (ValueError WrongMessage)) (\<lambda>_.
     bindE (mission_snapshot_from_dict (proxied (JObj (te_payload e)))) (\<lambda>s.
     bindE (guardE (ms_mission_id s = te_mission_id e) (ValueError MissionMismatch)) (\<lambda>_. Inr s)))"

text \<open>\<open>health\<close> may be a boolean; \<open>fresh\<close> must be one.\<close>

definition source_fact_event ::
  "pyval \<Rightarrow> pyval \<Rightarrow> pyval \<Rightarrow> pyval \<Rightarrow> pyval \<Rightarrow> pyval \<Rightarrow> pyval \<Rightarrow> pyval \<Rightarrow> transport_event result" where
  "source_fact_event mission_id source revision event_id sequence ref health fresh =
     bindE (normalize_source_name source) (\<lambda>src.
     bindE (guardE (src \<noteq> ''plan'') (ValueError NotPermitted)) (\<lambda>_.
     bindE (nonneg_int revision) (\<lambda>rev.
     bindE (text_of (case health of PBool b \<Rightarrow> PStr (if b then ''healthy'' else ''unhealthy'') | _ \<Rightarrow> health)) (\<lambda>hs.
     bindE (source_fresh fresh) (\<lambda>fr.
     bindE (text_of mission_id) (\<lambda>mid.
     bindE (reference ref) (\<lambda>r.
     transport_event_new (PInt 1) event_id (PStr mid) sequence (PStr ''source-fact'')
       (thaw (JObj [(''source'', JStr src), (''revision'', JInt rev), (''reference'', optional_str r),
         (''health'', JStr hs), (''fresh'', JBool fr)])))))))))"

section \<open>Loops over sources\<close>

lemma map_fst_put: "k \<in> fst ` set d \<Longrightarrow> map fst (put k x d) = map fst d"
  by (induction d) auto

lemma put_map: "distinct (map fst d) \<Longrightarrow> k \<in> fst ` set d \<Longrightarrow>
    put k x d = map (\<lambda>(j, y). (j, if j = k then x else y)) d"
proof (induction d)
  case (Cons p d)
  have "map (\<lambda>(j, y). (j, if j = k then x else y)) d = d" if "k \<notin> fst ` set d"
    using that by (force intro!: map_idI)
  with Cons show ?case by (cases p) auto
qed simp

lemma set_sources_Inr:
  assumes "set_sources f kvs d = Inr d'"
  shows "map fst d' = map fst d \<and> (\<forall>kx \<in> set d'. kx \<in> set d \<or> (\<exists>v. f v = Inr (snd kx)))"
  using assms
proof (induction f kvs d rule: set_sources.induct)
  case (2 f k v kvs d)
  then obtain x where x: "map_of d k \<noteq> None" "f v = Inr x" "set_sources f kvs (put k x d) = Inr d'"
    by (auto simp: err_simps split: if_splits)
  from x(1) have "k \<in> fst ` set d" by (simp add: map_of_eq_None_iff)
  moreover have "map fst d' = map fst (put k x d) \<and> (\<forall>kx \<in> set d'. kx \<in> set (put k x d) \<or> (\<exists>v. f v = Inr (snd kx)))"
    using "2.IH" [OF _ x(2,3)] x(1) by blast
  ultimately show ?case using map_fst_put [of k d x] set_put_subset [of k x d] x(2) by auto
qed auto

lemma set_sources_total:
  assumes "distinct (map fst d)"
    and "\<forall>kv \<in> set kvs. \<exists>k. fst kv = KStr k \<and> k \<in> fst ` set d \<and> f (snd kv) = Inr (g k)"
  shows "set_sources f kvs d = Inr (map (\<lambda>(k, x). (k, if KStr k \<in> fst ` set kvs then g k else x)) d)"
  using assms
proof (induction f kvs d rule: set_sources.induct)
  case (1 f d)
  then show ?case by (simp add: case_prod_unfold)
next
  case (2 f k v kvs d)
  from "2.prems" have k: "k \<in> fst ` set d" "f v = Inr (g k)" by auto
  then have "map_of d k \<noteq> None" by (simp add: map_of_eq_None_iff)
  moreover have "set_sources f kvs (put k (g k) d) =
      Inr (map (\<lambda>(k, x). (k, if KStr k \<in> fst ` set kvs then g k else x)) (put k (g k) d))"
  proof (rule "2.IH" [OF _ k(2)])
    show "\<not> map_of d k = None" by (rule calculation)
    show "distinct (map fst (put k (g k) d))" using "2.prems"(1) by (rule distinct_put)
    have "insert k (fst ` set d) = fst ` set d" using k(1) by blast
    with "2.prems"(2) show "\<forall>kv \<in> set kvs. \<exists>j. fst kv = KStr j \<and> j \<in> fst ` set (put k (g k) d) \<and> f (snd kv) = Inr (g j)"
      unfolding keys_put by simp
  qed
  ultimately show ?case
    using k "2.prems"(1) by (auto simp: put_map intro!: map_cong)
next
  case (3 f n v kvs d)
  then show ?case by auto
qed

lemma read_sources:
  assumes "map fst d = snapshot_sources" and "\<And>k x. (k, x) \<in> set d \<Longrightarrow> f (view b (enc x)) = Inr x"
    and "set o' = (\<lambda>(k, x). (k, enc x)) ` set d"
  shows "set_sources f (map (\<lambda>(k, j). (KStr k, view b j)) o') (each_source y) = Inr d"
proof -
  have d: "distinct (map fst d)" "each_source y = map (\<lambda>(k, x). (k, y)) d"
  proof -
    show "distinct (map fst d)" unfolding assms(1) by (simp add: snapshot_sources_def)
    show "each_source y = map (\<lambda>(k, x). (k, y)) d"
      unfolding each_source_def assms(1) [symmetric] by (simp add: case_prod_unfold comp_def)
  qed
  have kvs: "fst ` set (map (\<lambda>(k, j). (KStr k, view b j)) o') = KStr ` fst ` set d"
    by (force simp: assms(3))
  have g: "map_of d k = Some x" if "(k, x) \<in> set d" for k x using d(1) that by simp
  have "set_sources f (map (\<lambda>(k, j). (KStr k, view b j)) o') (each_source y) =
      Inr (map (\<lambda>(k, x). (k, if KStr k \<in> KStr ` fst ` set d then the (map_of d k) else x)) (each_source y))"
    unfolding kvs [symmetric]
  proof (rule set_sources_total)
    show "distinct (map fst (each_source y))" by (simp add: each_source_def comp_def snapshot_sources_def)
    show "\<forall>kv \<in> set (map (\<lambda>(k, j). (KStr k, view b j)) o').
        \<exists>k. fst kv = KStr k \<and> k \<in> fst ` set (each_source y) \<and> f (snd kv) = Inr (the (map_of d k))"
      using assms(2) g by (force simp: assms(3) d(2))
  qed
  also have "map (\<lambda>(k, x). (k, if KStr k \<in> KStr ` fst ` set d then the (map_of d k) else x)) (each_source y) = d"
    unfolding d(2) using g by (force intro!: map_idI)
  finally show ?thesis .
qed

section \<open>Well-formed snapshots\<close>

definition mission_snapshot_wf :: "mission_snapshot \<Rightarrow> bool" where
  "mission_snapshot_wf s \<longleftrightarrow> nonblank (ms_mission_id s) \<and> 0 < ms_version s \<and> nonblank (ms_created_at s) \<and>
     map fst (ms_source_revisions s) = snapshot_sources \<and> map fst (ms_source_references s) = snapshot_sources \<and>
     map fst (ms_source_health s) = snapshot_sources \<and> map fst (ms_source_freshness s) = snapshot_sources \<and>
     (\<forall>kx \<in> set (ms_source_revisions s). opt_all (\<lambda>n. 0 \<le> n) (snd kx)) \<and>
     (\<forall>kx \<in> set (ms_source_references s). opt_all nonblank (snd kx)) \<and>
     (\<forall>kx \<in> set (ms_source_health s). nonblank (snd kx)) \<and>
     ms_plan_revision s = getd (ms_source_revisions s) ''plan'' None \<and>
     ms_plan_reference s = getd (ms_source_references s) ''plan'' None \<and>
     ms_environment_data s = getd (ms_source_references s) ''environment_data'' None \<and>
     ms_belief_snapshot s = getd (ms_source_references s) ''bayesian_belief_snapshot'' None \<and>
     ms_fsm_status s = getd (ms_source_references s) ''fsm_status'' None \<and>
     ms_active_maneuver s = getd (ms_source_references s) ''active_maneuver'' None \<and>
     ms_missing_sources s = missing_of (ms_source_references s) (ms_source_revisions s) (ms_source_health s)"

lemma optional_check_Inr: "optional f v = Inr r \<Longrightarrow> (\<And>v x. f v = Inr x \<Longrightarrow> P x) \<Longrightarrow> opt_all P r"
  by (auto simp: err_simps split: if_splits)

lemma each_source_facts:
  "map fst (each_source x) = snapshot_sources" "kx \<in> set (each_source x) \<Longrightarrow> snd kx = x"
  by (auto simp: each_source_def comp_def)

lemma direct_reference_Inr:
  assumes "direct_reference s v refs = Inr refs'" and "s \<in> set snapshot_sources"
    and "map fst refs = snapshot_sources \<and> (\<forall>kx \<in> set refs. opt_all nonblank (snd kx))"
  shows "map fst refs' = snapshot_sources \<and> (\<forall>kx \<in> set refs'. opt_all nonblank (snd kx))"
proof (cases "v = PNone")
  case True
  with assms show ?thesis by (simp add: direct_reference_def)
next
  case False
  with assms(1) obtain r where r: "reference v = Inr r" "refs' = put s r refs"
    by (auto simp: direct_reference_def err_simps)
  from r(1) have "opt_all nonblank r" unfolding reference_def by (rule optional_check_Inr) (simp add: err_simps)
  moreover have "s \<in> fst ` set refs" using assms(2,3) by (metis set_map)
  ultimately show ?thesis using r(2) assms(3) map_fst_put [of s refs r] set_put_subset [of s r refs] by auto
qed

lemma set_sources_checked:
  assumes "set_sources f kvs (each_source x) = Inr d" and "P x" and "\<And>v y. f v = Inr y \<Longrightarrow> P y"
  shows "map fst d = snapshot_sources \<and> (\<forall>kx \<in> set d. P (snd kx))"
  using set_sources_Inr [OF assms(1)] assms(2,3) each_source_facts by metis

lemma reference_Inr: "reference v = Inr r \<Longrightarrow> opt_all nonblank r"
  by (auto simp: reference_def optional_def err_simps split: if_splits)

lemma source_revision_Inr: "source_revision v = Inr r \<Longrightarrow> opt_all (\<lambda>n. 0 \<le> n) r"
  by (auto simp: source_revision_def optional_def err_simps split: if_splits)

lemma mission_snapshot_new_wf:
  assumes "mission_snapshot_new a b c d e f g h i revisions references health freshness = Inr s"
  shows "mission_snapshot_wf s"
proof -
  from assms obtain mid ver created plan_rev ref_items refs0 refs1 refs2 refs3 refs4 refs rev_items revs0
      health_items hs fresh_items fr where
    t: "text_of a = Inr mid" "positive_int b = Inr ver" "text_of c = Inr created" "optional nonneg_int d = Inr plan_rev"
    and r: "set_sources reference ref_items (each_source None) = Inr refs0"
      "direct_reference ''plan'' e refs0 = Inr refs1" "direct_reference ''environment_data'' f refs1 = Inr refs2"
      "direct_reference ''bayesian_belief_snapshot'' g refs2 = Inr refs3"
      "direct_reference ''fsm_status'' h refs3 = Inr refs4" "direct_reference ''active_maneuver'' i refs4 = Inr refs"
    and v: "set_sources source_revision rev_items (each_source None) = Inr revs0"
      "\<not> (plan_rev \<noteq> None \<and> getd revs0 ''plan'' None \<notin> {None, plan_rev})"
    and hh: "set_sources text_of health_items (each_source ''missing'') = Inr hs"
    and fr: "set_sources source_fresh fresh_items (each_source False) = Inr fr"
    and s: "s = \<lparr>ms_mission_id = mid, ms_version = ver, ms_created_at = created,
      ms_plan_revision = (if getd revs0 ''plan'' None \<noteq> None \<and> plan_rev = None then getd revs0 ''plan'' None else plan_rev),
      ms_plan_reference = getd refs ''plan'' None, ms_environment_data = getd refs ''environment_data'' None,
      ms_belief_snapshot = getd refs ''bayesian_belief_snapshot'' None,
      ms_fsm_status = getd refs ''fsm_status'' None, ms_active_maneuver = getd refs ''active_maneuver'' None,
      ms_source_revisions = (if getd revs0 ''plan'' None = None then put ''plan'' plan_rev revs0 else revs0),
      ms_source_references = refs, ms_source_health = hs, ms_source_freshness = fr,
      ms_missing_sources = missing_of refs
        (if getd revs0 ''plan'' None = None then put ''plan'' plan_rev revs0 else revs0) hs\<rparr>"
    unfolding mission_snapshot_new_def Let_def bindE_eq_Inr guardE_eq_Inr sum.inject by blast
  have mem: "''plan'' \<in> set snapshot_sources" "''environment_data'' \<in> set snapshot_sources"
    "''bayesian_belief_snapshot'' \<in> set snapshot_sources" "''fsm_status'' \<in> set snapshot_sources"
    "''active_maneuver'' \<in> set snapshot_sources" by (simp_all add: snapshot_sources_def)
  have "map fst refs0 = snapshot_sources \<and> (\<forall>kx \<in> set refs0. opt_all nonblank (snd kx))"
    by (rule set_sources_checked [OF r(1)]) (simp, erule reference_Inr)
  note refs0 = direct_reference_Inr [OF r(2) mem(1) this]
  note refs1 = direct_reference_Inr [OF r(3) mem(2) refs0]
  note refs2 = direct_reference_Inr [OF r(4) mem(3) refs1]
  note refs3 = direct_reference_Inr [OF r(5) mem(4) refs2]
  note refs4 = direct_reference_Inr [OF r(6) mem(5) refs3]

  have revs0: "map fst revs0 = snapshot_sources \<and> (\<forall>kx \<in> set revs0. opt_all (\<lambda>n. 0 \<le> n) (snd kx))"
    by (rule set_sources_checked [OF v(1)]) (simp, erule source_revision_Inr)
  have "map fst (put ''plan'' plan_rev revs0) = snapshot_sources \<and>
      (\<forall>kx \<in> set (put ''plan'' plan_rev revs0). opt_all (\<lambda>n. 0 \<le> n) (snd kx))"
  proof -
    have "''plan'' \<in> fst ` set revs0" using revs0 mem(1) by (metis set_map)
    moreover have "opt_all (\<lambda>n. 0 \<le> n) plan_rev" using t(4) by (auto simp: err_simps split: if_splits)
    ultimately show ?thesis
      using revs0 map_fst_put [of "''plan''" revs0 plan_rev] set_put_subset [of "''plan''" plan_rev revs0] by auto
  qed
  moreover have "map fst hs = snapshot_sources \<and> (\<forall>kx \<in> set hs. nonblank (snd kx))"
    by (rule set_sources_checked [OF hh]) (simp_all add: text_of_Inr)
  moreover have "map fst fr = snapshot_sources \<and> (\<forall>kx \<in> set fr. True)"
    by (rule set_sources_checked [OF fr]) simp_all
  moreover have "nonblank mid" "0 < ver" "nonblank created" using t(1-3) by (auto simp: err_simps)
  ultimately show ?thesis using v(2) refs4 revs0 unfolding mission_snapshot_wf_def s by auto
qed

lemma mission_snapshot_from_dict_wf: "mission_snapshot_from_dict v = Inr s \<Longrightarrow> mission_snapshot_wf s"
  by (auto simp: mission_snapshot_from_dict_def err_simps intro: mission_snapshot_new_wf)

section \<open>Reading snapshots back\<close>

lemma items_of_view [simp]: "items_of (view b (JObj o')) = Inr (map (\<lambda>(k, j). (KStr k, view b j)) o')"
  by (simp add: items_of_def)

lemma optional_str_view: "reference (view b (optional_str x)) = Inr x \<longleftrightarrow> opt_all nonblank x"
  by (auto simp: reference_def optional_def optional_str_def split: option.split)

lemma optional_int_view: "optional nonneg_int (view b (optional_int x)) = Inr x \<longleftrightarrow> opt_all (\<lambda>n. 0 \<le> n) x"
  by (auto simp: optional_def optional_int_def split: option.split)

lemma getd_mem: "map fst d = snapshot_sources \<Longrightarrow> k \<in> set snapshot_sources \<Longrightarrow> (k, getd d k x) \<in> set d"
  by (metis getd_def map_of_SomeD map_of_eq_None_iff option.exhaust option.simps(5) set_map)

lemma put_getd: "map fst d = snapshot_sources \<Longrightarrow> k \<in> set snapshot_sources \<Longrightarrow> put k (getd d k x) d = d"
proof (rule put_same)
  assume d: "map fst d = snapshot_sources" and k: "k \<in> set snapshot_sources"
  show "distinct (map fst d)" unfolding d by (simp add: snapshot_sources_def)
  then show "map_of d k = Some (getd d k x)" using getd_mem [OF d k] by simp
qed

text \<open>A field that repeats the entry of the mapping changes nothing.\<close>

lemma direct_reference_same:
  assumes "map fst refs = snapshot_sources" and "\<forall>kx \<in> set refs. opt_all nonblank (snd kx)"
    and "s \<in> set snapshot_sources" and "x = getd refs s None"
  shows "direct_reference s (view b (optional_str x)) refs = Inr refs"
proof (cases x)
  case None
  then show ?thesis by (simp add: direct_reference_def optional_str_def)
next
  case (Some t)
  have "opt_all nonblank x" using getd_mem [OF assms(1,3), of None] assms(2,4) by fastforce
  then have "reference (view b (optional_str x)) = Inr x" by (simp add: optional_str_view)
  moreover have "view b (optional_str x) \<noteq> PNone" by (simp add: Some optional_str_def)
  ultimately show ?thesis using put_getd [OF assms(1,3)] assms(4) by (simp add: direct_reference_def)
qed

text \<open>The parts of a snapshot as they are read, from mappings with the same items in any order.\<close>

lemma mission_snapshot_new_read:
  assumes "mission_snapshot_wf s"
    and "set rv = (\<lambda>(k, x). (k, optional_int x)) ` set (ms_source_revisions s)"
    and "set rf = (\<lambda>(k, x). (k, optional_str x)) ` set (ms_source_references s)"
    and "set hl = (\<lambda>(k, x). (k, JStr x)) ` set (ms_source_health s)"
    and "set fr = (\<lambda>(k, x). (k, JBool x)) ` set (ms_source_freshness s)"
  shows "mission_snapshot_new (PStr (ms_mission_id s)) (PInt (ms_version s)) (PStr (ms_created_at s))
    (view b (optional_int (ms_plan_revision s))) (view b (optional_str (ms_plan_reference s)))
    (view b (optional_str (ms_environment_data s))) (view b (optional_str (ms_belief_snapshot s)))
    (view b (optional_str (ms_fsm_status s))) (view b (optional_str (ms_active_maneuver s)))
    (view b (JObj rv)) (view b (JObj rf)) (view b (JObj hl)) (view b (JObj fr)) = Inr s"
proof -
  note wf = assms(1) [unfolded mission_snapshot_wf_def]
  have rv: "set_sources source_revision (map (\<lambda>(k, j). (KStr k, view b j)) rv) (each_source None) =
      Inr (ms_source_revisions s)"
    using wf by (intro read_sources [OF _ _ assms(2)]) (auto simp: source_revision_def optional_int_view)
  have rf: "set_sources reference (map (\<lambda>(k, j). (KStr k, view b j)) rf) (each_source None) =
      Inr (ms_source_references s)"
    using wf by (intro read_sources [OF _ _ assms(3)]) (auto simp: optional_str_view)
  have hl: "set_sources text_of (map (\<lambda>(k, j). (KStr k, view b j)) hl) (each_source ''missing'') =
      Inr (ms_source_health s)"
    using wf by (intro read_sources [OF _ _ assms(4)]) auto
  have fr: "set_sources source_fresh (map (\<lambda>(k, j). (KStr k, view b j)) fr) (each_source False) =
      Inr (ms_source_freshness s)"
    using wf by (intro read_sources [OF _ _ assms(5)]) auto
  have pr: "optional nonneg_int (view b (optional_int (ms_plan_revision s))) = Inr (ms_plan_revision s)"
    using wf getd_mem [of "ms_source_revisions s" "''plan''" None] by (fastforce simp: optional_int_view snapshot_sources_def)
  have direct: "direct_reference k (view b (optional_str (getd (ms_source_references s) k None))) (ms_source_references s) =
      Inr (ms_source_references s)" if "k \<in> set snapshot_sources" for k
    using wf by (intro direct_reference_same that) auto
  have mem: "''plan'' \<in> set snapshot_sources" "''environment_data'' \<in> set snapshot_sources"
    "''bayesian_belief_snapshot'' \<in> set snapshot_sources" "''fsm_status'' \<in> set snapshot_sources"
    "''active_maneuver'' \<in> set snapshot_sources" by (simp_all add: snapshot_sources_def)
  have f: "ms_plan_revision s = getd (ms_source_revisions s) ''plan'' None"
    "ms_plan_reference s = getd (ms_source_references s) ''plan'' None"
    "ms_environment_data s = getd (ms_source_references s) ''environment_data'' None"
    "ms_belief_snapshot s = getd (ms_source_references s) ''bayesian_belief_snapshot'' None"
    "ms_fsm_status s = getd (ms_source_references s) ''fsm_status'' None"
    "ms_active_maneuver s = getd (ms_source_references s) ''active_maneuver'' None"
    "ms_missing_sources s = missing_of (ms_source_references s) (ms_source_revisions s) (ms_source_health s)"
    using wf by blast+
  have p: "(if getd (ms_source_revisions s) ''plan'' None = None
      then put ''plan'' (getd (ms_source_revisions s) ''plan'' None) (ms_source_revisions s)
      else ms_source_revisions s) = ms_source_revisions s"
  proof -
    have "put ''plan'' (getd (ms_source_revisions s) ''plan'' None) (ms_source_revisions s) = ms_source_revisions s"
      by (rule put_getd [OF _ mem(1)]) (use wf in blast)
    then show ?thesis by (simp only: if_cancel)
  qed
  have "nonblank (ms_mission_id s)" "0 < ms_version s" "nonblank (ms_created_at s)" using wf by blast+
  then show ?thesis
    unfolding mission_snapshot_new_def items_of_view f(2-6)
    by (simp add: rv rf hl fr direct [OF mem(1)] direct [OF mem(2)] direct [OF mem(3)] direct [OF mem(4)]
        direct [OF mem(5)] pr [unfolded f(1)] f(1) p Let_def)
      (simp add: f [symmetric])
qed

lemma mission_snapshot_view:
  assumes "mission_snapshot_wf s"
  shows "mission_snapshot_from_dict (view b (mission_snapshot_to_dict s)) = Inr s"
  using mission_snapshot_new_read [OF assms, of "map (\<lambda>(k, x). (k, optional_int x)) (ms_source_revisions s)"
      "map (\<lambda>(k, x). (k, optional_str x)) (ms_source_references s)" "map (\<lambda>(k, x). (k, JStr x)) (ms_source_health s)"
      "map (\<lambda>(k, x). (k, JBool x)) (ms_source_freshness s)" b]
  by (simp add: mission_snapshot_from_dict_def mission_snapshot_to_dict_def)

lemma canonical_optional_values [simp]:
  "canonical (optional_int x) = optional_int x" "canonical (optional_str y) = optional_str y"
  by (simp_all add: optional_int_def optional_str_def split: option.split)

lemma set_canonical_entries:
  "(\<And>x. canonical (g x) = g x) \<Longrightarrow>
    set (canonical_obj (map (\<lambda>(k, x). (k, g x)) d)) = (\<lambda>(k, x). (k, g x)) ` set d"
  by (simp add: set_canonical_obj image_image case_prod_unfold)

lemma mission_snapshot_json_view:
  assumes "mission_snapshot_wf s"
  shows "mission_snapshot_from_json (Some (view b (mission_snapshot_json s))) = Inr s"
proof -
  have "mission_snapshot_new (PStr (ms_mission_id s)) (PInt (ms_version s)) (PStr (ms_created_at s))
    (view b (optional_int (ms_plan_revision s))) (view b (optional_str (ms_plan_reference s)))
    (view b (optional_str (ms_environment_data s))) (view b (optional_str (ms_belief_snapshot s)))
    (view b (optional_str (ms_fsm_status s))) (view b (optional_str (ms_active_maneuver s)))
    (view b (JObj (canonical_obj (map (\<lambda>(k, x). (k, optional_int x)) (ms_source_revisions s)))))
    (view b (JObj (canonical_obj (map (\<lambda>(k, x). (k, optional_str x)) (ms_source_references s)))))
    (view b (JObj (canonical_obj (map (\<lambda>(k, x). (k, JStr x)) (ms_source_health s)))))
    (view b (JObj (canonical_obj (map (\<lambda>(k, x). (k, JBool x)) (ms_source_freshness s))))) = Inr s"
    by (rule mission_snapshot_new_read [OF assms]) (simp_all add: set_canonical_entries)
  then show ?thesis
    by (simp add: mission_snapshot_from_json_def mission_snapshot_json_def mission_snapshot_from_dict_def
        mission_snapshot_to_dict_def map_of_canonical_obj insert_commute)
qed

lemma mission_snapshot_dict_wf:
  assumes "mission_snapshot_wf s"
  shows "wf_json (mission_snapshot_to_dict s)"
proof -
  have "wf_json (optional_int x)" "wf_json (optional_str y)" for x y
    by (simp_all add: optional_int_def optional_str_def split: option.split)
  moreover have "distinct snapshot_sources" by (simp add: snapshot_sources_def)
  ultimately show ?thesis
    using assms by (simp add: mission_snapshot_to_dict_def mission_snapshot_wf_def comp_def case_prod_unfold)
qed

section \<open>Correctness\<close>

text \<open>A Mission Snapshot is a consistent manifest. Whatever value is decoded, an accepted snapshot has a
  revision, a reference, a health and a freshness for each source and for nothing else; its plan revision
  and its references repeat the entries of the maps; and \<open>missing_sources\<close> are exactly the sources with
  no reference, no revision or missing health, whatever the decoded value claimed.\<close>

theorem snapshot_consistent:
  assumes "mission_snapshot_from_dict v = Inr s"
  shows "map fst (ms_source_revisions s) = snapshot_sources \<and> map fst (ms_source_references s) = snapshot_sources \<and>
    map fst (ms_source_health s) = snapshot_sources \<and> map fst (ms_source_freshness s) = snapshot_sources \<and>
    map_of (ms_source_revisions s) ''plan'' = Some (ms_plan_revision s) \<and>
    map_of (ms_source_references s) ''plan'' = Some (ms_plan_reference s) \<and>
    map_of (ms_source_references s) ''fsm_status'' = Some (ms_fsm_status s) \<and>
    (\<forall>k. k \<in> set (ms_missing_sources s) \<longleftrightarrow> k \<in> set snapshot_sources \<and>
      (map_of (ms_source_references s) k = Some None \<or> map_of (ms_source_revisions s) k = Some None \<or>
       map_of (ms_source_health s) k = Some ''missing''))"
proof -
  note wf = mission_snapshot_from_dict_wf [OF assms, unfolded mission_snapshot_wf_def]
  have get: "map_of d k = Some (getd d k x)" if "map fst d = snapshot_sources" "k \<in> set snapshot_sources"
    for d :: "(string \<times> 'a) list" and k x
    using getd_mem [OF that] that(1) by (simp add: snapshot_sources_def)
  have "k \<in> set (ms_missing_sources s) \<longleftrightarrow> k \<in> set snapshot_sources \<and>
      (map_of (ms_source_references s) k = Some None \<or> map_of (ms_source_revisions s) k = Some None \<or>
       map_of (ms_source_health s) k = Some ''missing'')" for k
    using wf get [of "ms_source_references s" k None] get [of "ms_source_revisions s" k None]
      get [of "ms_source_health s" k "''missing''"] by (auto simp: missing_of_def)
  moreover have "''plan'' \<in> set snapshot_sources" "''fsm_status'' \<in> set snapshot_sources"
    by (simp_all add: snapshot_sources_def)
  ultimately show ?thesis using wf get by metis
qed

definition ex_snapshot :: mission_snapshot where
  "ex_snapshot = \<lparr>ms_mission_id = ''m1'', ms_version = 3, ms_created_at = ''t'', ms_plan_revision = Some 1,
     ms_plan_reference = Some ''plan:1'', ms_environment_data = None, ms_belief_snapshot = None,
     ms_fsm_status = Some ''fsm:7'', ms_active_maneuver = None,
     ms_source_revisions = [(''plan'', Some 1), (''environment_data'', None), (''bayesian_belief_snapshot'', None),
       (''fsm_status'', Some 7), (''active_maneuver'', None)],
     ms_source_references = [(''plan'', Some ''plan:1''), (''environment_data'', None),
       (''bayesian_belief_snapshot'', None), (''fsm_status'', Some ''fsm:7''), (''active_maneuver'', None)],
     ms_source_health = [(''plan'', ''healthy''), (''environment_data'', ''missing''),
       (''bayesian_belief_snapshot'', ''missing''), (''fsm_status'', ''healthy''), (''active_maneuver'', ''missing'')],
     ms_source_freshness = [(''plan'', True), (''environment_data'', False), (''bayesian_belief_snapshot'', False),
       (''fsm_status'', True), (''active_maneuver'', False)],
     ms_missing_sources = [''environment_data'', ''bayesian_belief_snapshot'', ''active_maneuver'']\<rparr>"

lemma ex_snapshot_wf: "mission_snapshot_wf ex_snapshot"
  by code_simp

theorem snapshot_consistent_witness:
  "''environment_data'' \<in> set (ms_missing_sources ex_snapshot)"
  using snapshot_consistent [OF mission_snapshot_view [OF ex_snapshot_wf, of False]]
  by (simp add: ex_snapshot_def)

text \<open>Mission Snapshots survive storage and transport. A snapshot built by its constructor is recovered
  exactly from its dictionary, from its canonical JSON text, whose order of keys differs, and from the
  transport event that carries it, also after the event itself was stored as JSON.\<close>

theorem snapshot_round_trip:
  assumes "mission_snapshot_new a b c d e f g h i rv rf hl fr = Inr s" and "nonblank event_id" and "0 \<le> n"
  shows "mission_snapshot_from_dict (view frozen (mission_snapshot_to_dict s)) = Inr s \<and>
    mission_snapshot_from_json (Some (thaw (mission_snapshot_json s))) = Inr s \<and>
    (\<exists>e e'. snapshot_to_event s (PStr event_id) (PInt n) = Inr e \<and> snapshot_from_event e = Inr s \<and>
       transport_event_from_dict (thaw (transport_event_json e)) = Inr e' \<and> snapshot_from_event e' = Inr s)"
proof -
  have wf: "mission_snapshot_wf s" by (rule mission_snapshot_new_wf [OF assms(1)])
  obtain o' where o': "mission_snapshot_to_dict s = JObj o'" by (simp add: mission_snapshot_to_dict_def)
  let ?e = "\<lparr>te_schema_version = 1, te_event_id = event_id, te_mission_id = ms_mission_id s, te_sequence = n,
    te_event_kind = ''mission-snapshot'', te_payload = o'\<rparr>"
  have m: "nonblank (ms_mission_id s)" using wf by (simp add: mission_snapshot_wf_def)
  have wo: "wf_obj o'" using mission_snapshot_dict_wf [OF wf] by (simp add: o' wf_obj_def)
  have "snapshot_to_event s (PStr event_id) (PInt n) = Inr ?e"
    using assms(2,3) m by (simp add: snapshot_to_event_def transport_event_new_def o')
  moreover have "snapshot_from_event ?e = Inr s"
    using mission_snapshot_view [OF wf, of True] by (simp add: snapshot_from_event_def o')
  moreover have "transport_event_wf ?e" using assms(2,3) m wo by (simp add: transport_event_wf_def)
  then have "transport_event_from_dict (thaw (transport_event_json ?e)) =
      Inr (?e\<lparr>te_payload := canonical_obj o'\<rparr>)"
    by (simp add: transport_event_json_view)
  moreover have "mission_snapshot_from_dict (proxied (JObj (canonical_obj o'))) = Inr s"
    using mission_snapshot_json_view [OF wf, of True]
    by (simp add: mission_snapshot_from_json_def mission_snapshot_json_def o')
  then have "snapshot_from_event (?e\<lparr>te_payload := canonical_obj o'\<rparr>) = Inr s"
    by (simp add: snapshot_from_event_def)
  ultimately show ?thesis using mission_snapshot_view [OF wf] mission_snapshot_json_view [OF wf] by blast
qed

theorem snapshot_round_trip_witness:
  "mission_snapshot_from_json (Some (thaw (mission_snapshot_json ex_snapshot))) = Inr ex_snapshot"
proof -
  have "mission_snapshot_new (PStr ''m1'') (PInt 3) (PStr ''t'') (PInt 1) (PStr ''plan:1'') PNone PNone PNone PNone
    (PDict [(KStr ''plan'', PInt 1), (KStr ''fsm_status'', PInt 7)]) (PDict [(KStr ''fsm_status'', PStr ''fsm:7'')])
    (PDict [(KStr ''plan'', PStr ''healthy''), (KStr ''fsm_status'', PStr ''healthy'')])
    (PDict [(KStr ''plan'', PBool True), (KStr ''fsm_status'', PBool True)]) = Inr ex_snapshot"
    by code_simp
  from snapshot_round_trip [OF this, of "''e1''" 0] show ?thesis by simp
qed

text \<open>Source facts carry a known source. A source-fact event is created only for one of the four sources
  other than the plan, under its own name or an alias, and carries the source's own name, a revision
  that is not negative and a health that is not blank, a boolean health being spelt out.\<close>

theorem source_fact_event_sound:
  assumes "source_fact_event mission_id source revision event_id sequence ref health fresh = Inr e"
  shows "\<exists>name src rev. source = PStr name \<and> src = getd source_aliases name name \<and>
    src \<in> set snapshot_sources - {''plan''} \<and> revision = PInt rev \<and> 0 \<le> rev \<and>
    te_event_kind e = ''source-fact'' \<and> PStr (te_mission_id e) = mission_id \<and>
    map_of (te_payload e) ''source'' = Some (JStr src) \<and> map_of (te_payload e) ''revision'' = Some (JInt rev) \<and>
    (\<forall>b. health = PBool b \<longrightarrow>
      map_of (te_payload e) ''health'' = Some (JStr (if b then ''healthy'' else ''unhealthy'')))"
  using assms by (auto simp: source_fact_event_def normalize_source_name_def Let_def err_simps transport_event_new_def)

theorem source_fact_event_sound_witness:
  "getd source_aliases ''fsm'' ''fsm'' \<in> set snapshot_sources"
proof -
  have "isOk (source_fact_event (PStr ''m1'') (PStr ''fsm'') (PInt 2) (PStr ''e1'') (PInt 0) PNone (PBool True) (PBool True))"
    by code_simp
  then obtain e where "source_fact_event (PStr ''m1'') (PStr ''fsm'') (PInt 2) (PStr ''e1'') (PInt 0) PNone
    (PBool True) (PBool True) = Inr e" unfolding isOk_iff by blast
  from source_fact_event_sound [OF this] show ?thesis by auto
qed

end
