(* ===== verification/Maneuver_Control.thy ===== *)
theory Maneuver_Control
  imports Maneuver_Contracts Mission_Snapshots FSM_Contracts Operational_Log InProcess_Commands
begin

text \<open>
  The Maneuver Control service, \<open>src/onr/application/maneuver_control.py\<close>: the decision gate, the heartbeat
  with its invocation marker, the dispatch of physical choices and the handling of commands and messages.
  The decision provider is a parameter. The heartbeat in which a language model drives tools
  (\<open>_tool_heartbeat\<close>) is not modelled.
\<close>

section \<open>State\<close>

text \<open>The service's fields that its operations use: its profile, the commands queued by the current
  heartbeat, and the calls of the operational log, if there is one.\<close>

record control =
  ctl_target_service :: string
  ctl_command_topic :: string
  ctl_protocol_version :: int
  ctl_supported :: "physical_action list"
  ctl_heartbeat_physical :: "((string \<times> string \<times> string) \<times> maneuver_command) list"
  ctl_log :: "log_call list option"

definition control_new :: "string \<Rightarrow> pyval \<Rightarrow> pyval \<Rightarrow> pyval list \<Rightarrow> log_call list option \<Rightarrow> control result" where
  "control_new target topic version supported lg =
     bindE (text_of topic) (\<lambda>t.
     bindE (positive_int version) (\<lambda>v.
     bindE (mapE physical_action_of supported) (\<lambda>actions.
     bindE (guardE (actions \<noteq> []) (ValueError Missing)) (\<lambda>_.
       Inr \<lparr>ctl_target_service = target, ctl_command_topic = t, ctl_protocol_version = v,
         ctl_supported = remdups actions, ctl_heartbeat_physical = [], ctl_log = lg\<rparr>))))"

type_synonym 's control_state = "control \<times> 's"

definition control_emit :: "string \<Rightarrow> string \<Rightarrow> string \<Rightarrow> jobj \<Rightarrow> (unit, 's control_state) eff" where
  "control_emit mission kind outcome details = onFst (\<lambda>r. r\<lparr>ctl_log := map_option
     (\<lambda>ls. ls @ [\<lparr>lc_mission_id = mission, lc_source = ''maneuver-control'', lc_event_kind = kind,
       lc_outcome = outcome, lc_details = details\<rparr>]) (ctl_log r)\<rparr>)"

section \<open>Deciding\<close>

definition validate_context :: "mission_snapshot \<Rightarrow> fsm_status \<Rightarrow> invocation_overlay option \<Rightarrow> unit result" where
  "validate_context snapshot status overlay =
     bindE (guardE (ms_mission_id snapshot = fs_mission_id status) (ValueError MissionMismatch)) (\<lambda>_.
     bindE (guardE (ms_plan_revision snapshot = Some (fs_plan_revision status)) (ValueError RevisionMismatch)) (\<lambda>_.
     guardE (case overlay of None \<Rightarrow> True | Some o' \<Rightarrow> io_mission_id o' = ms_mission_id snapshot)
       (ValueError MissionMismatch)))"

definition enabled_events :: "fsm_status \<Rightarrow> string list" where
  "enabled_events status = map tc_event (fs_transition_candidates status)"

definition validate_decision :: "control_decision \<Rightarrow> mission_snapshot \<Rightarrow> fsm_status \<Rightarrow> unit result" where
  "validate_decision d snapshot status =
     bindE (guardE (cd_mission_id d = ms_mission_id snapshot \<and> cd_mission_id d = fs_mission_id status)
       (ValueError MissionMismatch)) (\<lambda>_.
     bindE (guardE (cd_plan_revision d = fs_plan_revision status) (ValueError RevisionMismatch)) (\<lambda>_.
     guardE (case cd_transition_event d of None \<Rightarrow> True | Some e \<Rightarrow> e \<in> set (enabled_events status))
       (ValueError Undeclared)))"

text \<open>What the provider returns: a decision, a decision of the FSM contracts, a mapping, some other
  object; or it raises.\<close>

datatype provider_answer =
  Decided control_decision | Legacy maneuver_decision | Mapped pyitems | Unusable | Raised exn

type_synonym provider =
  "mission_snapshot \<Rightarrow> fsm_status \<Rightarrow> invocation_overlay option \<Rightarrow> provider_answer"

fun coerce_decision :: "provider_answer \<Rightarrow> int \<Rightarrow> control_decision result" where
  "coerce_decision (Decided d) n = Inr d"
| "coerce_decision (Legacy raw) n = (case md_physical_maneuver raw of
     Some physical \<Rightarrow> control_decision_new (PStr (md_decision_id raw)) (PStr (md_mission_id raw)) (PInt n) PNone
       (thaw (optional_text_json (md_maneuver_id raw))) NoIntent PNone (proxied (JObj (md_payload raw))) (PInt 1)
       (Raw (proxied (JObj physical))) PNone PNone
   | None \<Rightarrow> (case md_transition_event raw of
       Some event \<Rightarrow> control_decision_new (PStr (md_decision_id raw)) (PStr (md_mission_id raw)) (PInt n) (PStr event)
         PNone NoIntent PNone PNone (PInt 1) NoIntent PNone PNone
     | None \<Rightarrow> Inl (TypeError BadType)))"
| "coerce_decision (Mapped kvs) n = control_decision_from_dict kvs"
| "coerce_decision Unusable n = Inl (TypeError BadType)"
| "coerce_decision (Raised e) n = Inl e"

definition decide ::
  "provider \<Rightarrow> mission_snapshot \<Rightarrow> fsm_status \<Rightarrow> invocation_overlay option \<Rightarrow> (control_decision, 's control_state) eff" where
  "decide D snapshot status overlay =
     bindS (liftE (validate_context snapshot status overlay)) (\<lambda>_.
     case bindE (coerce_decision (D snapshot status overlay) (fs_plan_revision status)) (\<lambda>d.
         bindE (validate_decision d snapshot status) (\<lambda>_. Inr d)) of
       Inl e \<Rightarrow> bindS (control_emit (ms_mission_id snapshot) ''error'' ''failed''
         [(''operation'', JStr ''decide''), (''error_type'', JStr (exn_name e))]) (\<lambda>_. raiseS e)
     | Inr d \<Rightarrow> bindS (control_emit (ms_mission_id snapshot) ''control'' ''completed''
         [(''operation'', JStr ''decide''), (''plan_revision'', JInt (fs_plan_revision status))]) (\<lambda>_. returnS d))"

section \<open>Commands\<close>

text \<open>\<open>H\<close> is the digest \<open>sha256(canonical).hexdigest()\<close> of the canonical JSON text of an intent.\<close>

definition physical_command_id :: "(json \<Rightarrow> string) \<Rightarrow> string \<Rightarrow> int \<Rightarrow> string \<Rightarrow> maneuver_intent \<Rightarrow> string" where
  "physical_command_id H mission n maneuver intent =
     ''maneuver:'' @ mission @ '':'' @ show_int n @ '':'' @ maneuver @ '':'' @ H (canonical (maneuver_intent_to_dict intent))"

definition snapshot_reference :: "string \<Rightarrow> int \<Rightarrow> string" where
  "snapshot_reference mission version = mission @ '':snapshot:'' @ show_int version"

text \<open>A decision with a physical intent has a maneuver identifier; the code relies on it.\<close>

definition command_for_decision ::
  "(json \<Rightarrow> string) \<Rightarrow> control \<Rightarrow> control_decision \<Rightarrow> mission_snapshot \<Rightarrow> maneuver_command option result" where
  "command_for_decision H ctl d snapshot = (case cd_physical_intent d of
     None \<Rightarrow> Inr None
   | Some m \<Rightarrow>
       let maneuver = (case cd_maneuver_id d of None \<Rightarrow> [] | Some s \<Rightarrow> s);
           i = physical_command_id H (cd_mission_id d) (cd_plan_revision d) maneuver m
       in bindE (maneuver_command_new (PStr i) (PStr i) (PStr (cd_mission_id d)) (PInt (cd_plan_revision d))
           (PStr maneuver) m (PInt (ctl_protocol_version ctl))
           (PStr (snapshot_reference (ms_mission_id snapshot) (ms_version snapshot)))) (\<lambda>c. Inr (Some c)))"

datatype command_arg = Generic command | Typed maneuver_command

fun typed_command :: "control \<Rightarrow> command_arg \<Rightarrow> maneuver_command result" where
  "typed_command ctl (Generic c) =
     bindE (guardE (cmd_target_service c = ctl_target_service ctl) (ValueError Foreign)) (\<lambda>_.
     maneuver_from_command (ctl_command_topic ctl) c)"
| "typed_command ctl (Typed m) = Inr m"

definition checked_command :: "control \<Rightarrow> command_arg \<Rightarrow> maneuver_command result" where
  "checked_command ctl arg =
     bindE (typed_command ctl arg) (\<lambda>m.
     bindE (guardE (mc_schema_version m = ctl_protocol_version ctl) (ValueError BadSchemaVersion)) (\<lambda>_.
     bindE (physical_action_of (PStr (mi_action (mc_intent m)))) (\<lambda>a.
     bindE (guardE (a \<in> set (ctl_supported ctl)) (ValueError NotPermitted)) (\<lambda>_. Inr m))))"

definition handle_command :: "'s command_port \<Rightarrow> command_arg \<Rightarrow> (command_receipt, 's control_state) eff" where
  "handle_command C arg cs =
     bindS (liftE (checked_command (fst cs) arg)) (\<lambda>m.
     bindS (liftE (maneuver_to_command (ctl_target_service (fst cs)) (ctl_command_topic (fst cs)) m)) (\<lambda>k.
     bindS (onSnd (cport_send_command C k)) (\<lambda>receipt.
     bindS (control_emit (mc_mission_id m) ''control'' ''queued''
       [(''operation'', JStr ''queue_command''), (''command_id'', JStr (mc_command_id m))]) (\<lambda>_.
     returnS receipt)))) cs"

section \<open>The invocation marker\<close>

definition invocation_topic :: "string \<Rightarrow> string" where
  "invocation_topic event_id = ''maneuver-invocations/'' @ event_id"

definition marker_id :: "string \<Rightarrow> string" where
  "marker_id event_id = ''maneuver-invocation:'' @ event_id"

definition marker_kind :: string where
  "marker_kind = ''maneuver-invocation''"

text \<open>The decision and command of a marker, both mappings.\<close>

definition read_marker :: "jobj \<Rightarrow> (control_decision \<times> maneuver_command option) result" where
  "read_marker p =
     (case as_mapping (proxied (getd p ''decision'' JNull)) of
        None \<Rightarrow> Inl (TypeError BadType)
      | Some raw_decision \<Rightarrow>
          let raw_command = proxied (getd p ''command'' JNull) in
          bindE (guardE (raw_command = PNone \<or> as_mapping raw_command \<noteq> None) (ValueError BadType)) (\<lambda>_.
          bindE (control_decision_from_dict raw_decision) (\<lambda>d.
          case as_mapping raw_command of
            None \<Rightarrow> Inr (d, None)
          | Some kvs \<Rightarrow> bindE (maneuver_command_from_dict kvs) (\<lambda>c. Inr (d, Some c)))))"

definition stored_invocation :: "'s event_port \<Rightarrow> string \<Rightarrow> string \<Rightarrow>
  ((control_decision \<times> maneuver_command option) option, 's) eff" where
  "stored_invocation E event_id mission =
     bindS (port_latest_event E (invocation_topic event_id) mission (Some marker_kind)) (\<lambda>marker.
     case marker of
       None \<Rightarrow> returnS None
     | Some m \<Rightarrow>
         if \<not> json_eq (getd (te_payload m) ''input_event_id'' JNull) (JStr event_id) then returnS None
         else liftE (bindE (read_marker (te_payload m)) (\<lambda>x. Inr (Some x))))"

definition marker_payload :: "string \<Rightarrow> control_decision \<Rightarrow> maneuver_command option \<Rightarrow> jobj" where
  "marker_payload event_id d c = [
     (''input_event_id'', JStr event_id),
     (''decision'', control_decision_to_dict d),
     (''command'', case c of None \<Rightarrow> JNull | Some m \<Rightarrow> maneuver_command_to_dict m)]"

definition publish_invocation_marker :: "'s event_port \<Rightarrow> string \<Rightarrow> string \<Rightarrow> control_decision \<Rightarrow>
  maneuver_command option \<Rightarrow> (unit, 's) eff" where
  "publish_invocation_marker E event_id mission d c =
     bindS (port_next_event_sequence E (invocation_topic event_id) mission) (\<lambda>n.
     bindS (liftE (transport_event_new (PInt 1) (PStr (marker_id event_id)) (PStr mission) (PInt n) (PStr marker_kind)
       (thaw (JObj (marker_payload event_id d c))))) (\<lambda>marker.
     bindS (port_publish_event E (invocation_topic event_id) marker) (\<lambda>_. returnS ())))"

section \<open>The heartbeat\<close>

type_synonym heartbeat_result = "control_decision \<times> maneuver_command option"

text \<open>The decision and command of this heartbeat: those of the marker, or new ones, which are stored in a
  marker when the heartbeat was caused by an event.\<close>

definition invocation_for :: "'s event_port \<Rightarrow> (json \<Rightarrow> string) \<Rightarrow> provider \<Rightarrow> mission_snapshot \<Rightarrow> fsm_status \<Rightarrow>
  invocation_overlay option \<Rightarrow> string option \<Rightarrow> (heartbeat_result, 's control_state) eff" where
  "invocation_for E H D snapshot status overlay event_id =
     bindS (case event_id of None \<Rightarrow> returnS None
       | Some i \<Rightarrow> onSnd (stored_invocation E i (ms_mission_id snapshot))) (\<lambda>stored.
     case stored of
       None \<Rightarrow>
         bindS (decide D snapshot status overlay) (\<lambda>d cs.
         bindS (liftE (command_for_decision H (fst cs) d snapshot)) (\<lambda>c.
         bindS (case event_id of None \<Rightarrow> returnS ()
           | Some i \<Rightarrow> onSnd (publish_invocation_marker E i (ms_mission_id snapshot) d c)) (\<lambda>_.
         returnS (d, c))) cs)
     | Some (d, c) \<Rightarrow>
         bindS (liftE (validate_decision d snapshot status)) (\<lambda>_. returnS (d, c)))"

definition heartbeat :: "'s event_port \<Rightarrow> 's command_port \<Rightarrow> (json \<Rightarrow> string) \<Rightarrow> provider \<Rightarrow> mission_snapshot \<Rightarrow>
  fsm_status \<Rightarrow> invocation_overlay option \<Rightarrow> string option \<Rightarrow> (heartbeat_result, 's control_state) eff" where
  "heartbeat E C H D snapshot status overlay event_id =
     bindS (liftE (validate_context snapshot status overlay)) (\<lambda>_.
     bindS (invocation_for E H D snapshot status overlay event_id) (\<lambda>(d, c).
     case c of
       None \<Rightarrow> bindS (control_emit (ms_mission_id snapshot) ''heartbeat'' ''completed''
         [(''operation'', JStr ''maneuver_heartbeat''), (''plan_revision'', JInt (fs_plan_revision status))]) (\<lambda>_.
         returnS (d, None))
     | Some m \<Rightarrow>
         bindS (handle_command C (Typed m)) (\<lambda>_.
         bindS (control_emit (ms_mission_id snapshot) ''heartbeat'' ''completed''
           [(''operation'', JStr ''maneuver_heartbeat''), (''command_id'', JStr (mc_command_id m)),
            (''plan_revision'', JInt (fs_plan_revision status))]) (\<lambda>_.
         returnS (d, Some m)))))"

section \<open>Dispatching physical choices\<close>

text \<open>The fields of a \<open>ManeuverInvocation\<close> that the dispatch reads.\<close>

record invocation =
  iv_request_id :: string
  iv_correlation_id :: string
  iv_mission_id :: string
  iv_plan_revision :: int
  iv_snapshot_version :: "int option"

definition dispatch_identity :: "invocation \<Rightarrow> string \<Rightarrow> maneuver_intent \<Rightarrow> string \<times> string \<times> string" where
  "dispatch_identity iv maneuver m = (iv_request_id iv, maneuver, mi_action m)"

definition dispatch_command :: "control \<Rightarrow> invocation \<Rightarrow> string \<Rightarrow> maneuver_intent \<Rightarrow> int \<Rightarrow> maneuver_command result" where
  "dispatch_command ctl iv maneuver m sequence =
     maneuver_command_new (PStr (''maneuver:'' @ iv_request_id iv @ '':'' @ show_int sequence))
       (PStr (iv_correlation_id iv)) (PStr (iv_mission_id iv)) (PInt (iv_plan_revision iv)) (PStr maneuver) m
       (PInt (ctl_protocol_version ctl))
       (case iv_snapshot_version iv of None \<Rightarrow> PNone | Some v \<Rightarrow> PStr (snapshot_reference (iv_mission_id iv) v))"

definition dispatch_physical :: "'s command_port \<Rightarrow> invocation \<Rightarrow> control_decision \<Rightarrow> int \<Rightarrow>
  (maneuver_command \<times> bool, 's control_state) eff" where
  "dispatch_physical C iv d sequence cs = (case (cd_physical_intent d, cd_maneuver_id d) of
     (Some m, Some maneuver) \<Rightarrow>
       bindS (guardS (cd_mission_id d = iv_mission_id iv \<and> cd_plan_revision d = iv_plan_revision iv)
         (ValueError Inconsistent)) (\<lambda>_ cs.
       case map_of (ctl_heartbeat_physical (fst cs)) (dispatch_identity iv maneuver m) of
         Some existing \<Rightarrow> (Inr (existing, False), cs)
       | None \<Rightarrow>
           bindS (liftE (physical_action_of (PStr (mi_action m)))) (\<lambda>a.
           bindS (guardS (a \<in> set (ctl_supported (fst cs))) (ValueError NotPermitted)) (\<lambda>_.
           bindS (liftE (dispatch_command (fst cs) iv maneuver m sequence)) (\<lambda>c cs1.
           let already_queued = (cport_get_receipt C (mc_command_id c) (snd cs1) \<noteq> None) in
           bindS (handle_command C (Typed c)) (\<lambda>_.
           bindS (onFst (\<lambda>r. r\<lparr>ctl_heartbeat_physical :=
             put (dispatch_identity iv maneuver m) c (ctl_heartbeat_physical r)\<rparr>)) (\<lambda>_.
           returnS (c, \<not> already_queued))) cs1))) cs) cs
   | _ \<Rightarrow> (Inl (ValueError Missing), cs))"

section \<open>Messages\<close>

datatype control_message =
  EventMessage transport_event | CommandMessage command | OutcomeMessage command_outcome
  | ContextPair mission_snapshot fsm_status | OtherMessage

datatype control_reply = HeartbeatReply heartbeat_result | ReceiptReply command_receipt | OutcomeReply command_outcome

definition payload_mapping :: "jobj \<Rightarrow> string \<Rightarrow> json result" where
  "payload_mapping p key = (case getd p key JNull of JObj o' \<Rightarrow> Inr (JObj o') | _ \<Rightarrow> Inl (TypeError NotObject))"

fun handle_control_message :: "'s event_port \<Rightarrow> 's command_port \<Rightarrow> (json \<Rightarrow> string) \<Rightarrow> provider \<Rightarrow> control_message \<Rightarrow>
  (control_reply, 's control_state) eff" where
  "handle_control_message E C H D (CommandMessage c) = bindS (handle_command C (Generic c)) (\<lambda>r. returnS (ReceiptReply r))"
| "handle_control_message E C H D (OutcomeMessage r) = returnS (OutcomeReply r)"
| "handle_control_message E C H D (EventMessage e) =
     bindS (liftE (bindE (payload_mapping (te_payload e) ''snapshot'') (\<lambda>j. mission_snapshot_from_dict (proxied j)))) (\<lambda>snapshot.
     bindS (liftE (bindE (payload_mapping (te_payload e) ''fsm_status'') (\<lambda>j. fsm_status_from_dict (proxied j)))) (\<lambda>status.
     bindS (heartbeat E C H D snapshot status None (Some (te_event_id e))) (\<lambda>r. returnS (HeartbeatReply r))))"
| "handle_control_message E C H D (ContextPair snapshot status) =
     bindS (heartbeat E C H D snapshot status None None) (\<lambda>r. returnS (HeartbeatReply r))"
| "handle_control_message E C H D OtherMessage = raiseS (TypeError WrongMessage)"

section \<open>Lemmas\<close>

definition control_logged :: "string \<Rightarrow> string \<Rightarrow> string \<Rightarrow> jobj \<Rightarrow> control \<Rightarrow> control" where
  "control_logged mission kind outcome details ctl = ctl\<lparr>ctl_log := map_option
     (\<lambda>ls. ls @ [\<lparr>lc_mission_id = mission, lc_source = ''maneuver-control'', lc_event_kind = kind,
       lc_outcome = outcome, lc_details = details\<rparr>]) (ctl_log ctl)\<rparr>"

lemma control_emit_apply [simp]:
  "control_emit mission kind outcome details (ctl, s) = (Inr (), (control_logged mission kind outcome details ctl, s))"
  by (simp add: control_emit_def control_logged_def)

lemma bindS_control_emit [simp]:
  "bindS (control_emit mission kind outcome details) f (ctl, s) = f () (control_logged mission kind outcome details ctl, s)"
  by (simp add: bindS_cases)

text \<open>The profile of the service never changes.\<close>

definition same_profile :: "control \<Rightarrow> control \<Rightarrow> bool" where
  "same_profile a b \<longleftrightarrow> ctl_target_service a = ctl_target_service b \<and> ctl_command_topic a = ctl_command_topic b \<and>
     ctl_protocol_version a = ctl_protocol_version b \<and> ctl_supported a = ctl_supported b"

lemma same_profile_logged [simp]:
  "same_profile ctl ctl" "same_profile ctl (control_logged mission kind outcome details ctl)"
  by (simp_all add: same_profile_def control_logged_def)

lemma same_profile_trans: "same_profile a b \<Longrightarrow> same_profile b c \<Longrightarrow> same_profile a c"
  by (simp add: same_profile_def)

lemma same_profile_typed: "same_profile a b \<Longrightarrow> checked_command a (Typed m) = checked_command b (Typed m)"
  by (simp add: checked_command_def same_profile_def)

lemma decide_cases:
  assumes "decide D sn st ov (ctl, s) = (r, cs')"
  shows "\<exists>ctl'. cs' = (ctl', s) \<and> same_profile ctl ctl' \<and>
    (\<forall>d. r = Inr d \<longrightarrow> validate_decision d sn st = Inr () \<and> coerce_decision (D sn st ov) (fs_plan_revision st) = Inr d)"
proof (cases "validate_context sn st ov")
  case (Inl e)
  with assms show ?thesis by (auto simp: decide_def)
next
  case (Inr u)
  show ?thesis
  proof (cases "bindE (coerce_decision (D sn st ov) (fs_plan_revision st)) (\<lambda>d. bindE (validate_decision d sn st) (\<lambda>_. Inr d))")
    case (Inl e)
    with assms \<open>validate_context sn st ov = Inr u\<close> show ?thesis by (auto simp: decide_def)
  next
    case (Inr d)
    with assms \<open>validate_context sn st ov = Inr u\<close> show ?thesis by (auto simp: decide_def bindE_eq_Inr)
  qed
qed

lemma command_for_decision_wf:
  "command_for_decision H ctl d sn = Inr c \<Longrightarrow> control_decision_wf d \<Longrightarrow> opt_all maneuver_command_wf c"
  by (auto simp: command_for_decision_def Let_def bindE_eq_Inr control_decision_wf_def physical_intent_wf_def
      intro: maneuver_command_new_wf split: option.splits)

lemma checked_typed: "checked_command ctl (Typed m) = Inr x \<Longrightarrow> x = m \<and> mc_schema_version m = ctl_protocol_version ctl \<and>
    (\<exists>a \<in> set (ctl_supported ctl). mi_action (mc_intent m) = physical_text a)"
  by (auto simp: checked_command_def bindE_eq_Inr physical_action_of_def dest: enum_of_Inr)

lemma checked_command_Inr:
  "checked_command ctl arg = Inr m \<Longrightarrow> typed_command ctl arg = Inr m \<and> checked_command ctl (Typed m) = Inr m"
  by (auto simp: checked_command_def bindE_eq_Inr)

fun command_arg_wf :: "command_arg \<Rightarrow> bool" where
  "command_arg_wf (Generic c) = command_wf c"
| "command_arg_wf (Typed m) = maneuver_command_wf m"

lemma maneuver_from_command_wf:
  assumes "maneuver_from_command topic c = Inr m" and "command_wf c"
  shows "maneuver_command_wf m"
proof -
  let ?kvs = "map (\<lambda>(k, j). (KStr k, proxied j)) (cmd_payload c)"
  from assms(1) obtain kvs intent where k: "as_mapping (item ?kvs ''intent'') = Some kvs" "intent_fields kvs = Inr intent"
    "maneuver_command_new (PStr (cmd_command_id c)) (PStr (cmd_correlation_id c)) (PStr (cmd_mission_id c))
       (item ?kvs ''plan_revision'') (item ?kvs ''maneuver_id'') intent (PInt (cmd_schema_version c))
       (item ?kvs ''mission_snapshot_id'') = Inr m"
    by (auto simp: maneuver_from_command_def Let_def bindE_eq_Inr simp del: item_view split: option.splits)
  have "wf_py (proxied (JObj (cmd_payload c)))" using assms(2) by (simp add: command_wf_def wf_obj_def del: wf_json.simps)
  then have "wf_py (item ?kvs ''intent'')" by (rule wf_item [rotated]) (rule as_mapping_view_Obj)
  with k show ?thesis by (auto intro: maneuver_command_new_wf intent_fields_wf)
qed

lemma maneuver_command_from_dict_wf:
  assumes "maneuver_command_from_dict kvs = Inr m" and "as_mapping v = Some kvs" and "wf_py v"
  shows "maneuver_command_wf m"
proof -
  have "wf_py (item kvs ''intent'')" by (rule wf_item [OF assms(2,3)])
  with assms(1) show ?thesis
    unfolding maneuver_command_from_dict_def
    by (auto simp: bindE_eq_Inr err_simps split: option.splits
        intro: maneuver_command_new_wf intent_fields_wf)
qed

lemma typed_command_wf: "typed_command ctl arg = Inr m \<Longrightarrow> command_arg_wf arg \<Longrightarrow> maneuver_command_wf m"
  by (cases arg) (auto simp: bindE_eq_Inr intro: maneuver_from_command_wf)

lemma maneuver_to_command_id: "maneuver_to_command target topic m = Inr k \<Longrightarrow> cmd_command_id k = mc_command_id m"
  by (auto simp: maneuver_to_command_def command_new_def err_simps split: if_splits)

context transport_port
begin

text \<open>Handling a command: refused commands and conflicting ones leave the transport as it is.\<close>

lemma handle_command_cases:
  assumes "inv s" and "command_arg_wf arg" and "handle_command C arg (ctl, s) = (r, (ctl', s'))"
  shows "inv s' \<and> same_profile ctl ctl' \<and> stream s' = stream s \<and> used s' = used s \<and> ctl_heartbeat_physical ctl' = ctl_heartbeat_physical ctl \<and>
    (case r of
       Inl e \<Rightarrow> s' = s
     | Inr x \<Rightarrow> \<exists>m k. checked_command ctl arg = Inr m \<and> maneuver_command_wf m \<and>
         maneuver_to_command (ctl_target_service ctl) (ctl_command_topic ctl) m = Inr k \<and> command_wf k \<and>
         x = receipt_for k \<and> sent s' = (sent s)(mc_command_id m \<mapsto> command_json k) \<and>
         (sent s (mc_command_id m) = None \<or> s' = s) \<and> outcome_at s' = outcome_at s)"
proof (cases "checked_command ctl arg")
  case (Inl e)
  with assms(1,3) show ?thesis by (auto simp: handle_command_def)
next
  case m: (Inr m)
  then have wf: "maneuver_command_wf m" using checked_command_Inr typed_command_wf assms(2) by blast
  show ?thesis
  proof (cases "maneuver_to_command (ctl_target_service ctl) (ctl_command_topic ctl) m")
    case (Inl e)
    with m assms(1,3) show ?thesis by (auto simp: handle_command_def)
  next
    case k: (Inr k)
    have kw: "command_wf k" by (rule maneuver_to_command_wf [OF k wf])
    note kid = maneuver_to_command_id [OF k]
    have frame: "stream (snd (cport_send_command C k s)) = stream s" "used (snd (cport_send_command C k s)) = used s"
      using send_streams [OF assms(1) kw] by blast+
    have run: "handle_command C arg (ctl, s) = (case cport_send_command C k s of
        (Inl e, s1) \<Rightarrow> (Inl e, (ctl, s1))
      | (Inr x, s1) \<Rightarrow> (Inr x, (control_logged (mc_mission_id m) ''control'' ''queued''
          [(''operation'', JStr ''queue_command''), (''command_id'', JStr (mc_command_id m))] ctl, s1)))"
      by (simp add: handle_command_def m k bindS_cases split: prod.split sum.split)
    show ?thesis
    proof (cases "sent s (mc_command_id m)")
      case None
      with send_new [OF assms(1) kw] kid obtain s1 where s1: "cport_send_command C k s = (Inr (receipt_for k), s1)" "inv s1"
        "sent s1 = (sent s)(mc_command_id m \<mapsto> command_json k)" "outcome_at s1 = outcome_at s" by auto
      with run assms(3) have "s' = s1" "r = Inr (receipt_for k)" "same_profile ctl ctl'" 
        "ctl_heartbeat_physical ctl' = ctl_heartbeat_physical ctl" by (auto simp: control_logged_def same_profile_def)
      with s1 frame m wf k kw None show ?thesis by simp
    next
      case (Some j)
      with send_again [OF assms(1) kw] kid
      have again: "cport_send_command C k s = (if j = command_json k then Inr (receipt_for k) else Inl (ValueError Conflict), s)" by simp
      show ?thesis
      proof (cases "j = command_json k")
        case True
        with run assms(3) again have "s' = s" "r = Inr (receipt_for k)" "same_profile ctl ctl'"
          "ctl_heartbeat_physical ctl' = ctl_heartbeat_physical ctl" by (auto simp: control_logged_def same_profile_def)
        with assms(1) m wf k kw Some True show ?thesis by (simp add: fun_upd_idem)
      next
        case False
        with run assms(3) again have "s' = s" "r = Inl (ValueError Conflict)" "ctl' = ctl" by auto
        with assms(1) show ?thesis by simp
      qed
    qed
  qed
qed

end

section \<open>The marker\<close>

text \<open>What the provider returns is well formed: the constructors and the JSON values it carries are valid.\<close>

fun answer_wf :: "provider_answer \<Rightarrow> bool" where
  "answer_wf (Decided d) = control_decision_wf d"
| "answer_wf (Legacy raw) = maneuver_decision_wf raw"
| "answer_wf (Mapped kvs) = wf_py (PDict kvs)"
| "answer_wf _ = True"

lemma control_decision_new_wf:
  assumes "control_decision_new a b c d e NoIntent ch pl v mv t PNone = Inr x" and "wf_py pl"
    and "mv = NoIntent \<or> (\<exists>w. mv = Raw w \<and> wf_py w)"
  shows "control_decision_wf x"
proof -
  from assms(1,3) obtain m where m: "intent_of_arg mv = Inr m"
    and x: "control_decision_check a b c (if d = PNone then t else d) e m ch (if pl = PNone then PDict [] else pl) v = Inr x"
    by (auto simp: control_decision_new_def intent_argument_def bindE_eq_Inr split: if_splits)
  from m assms(3) have "opt_all maneuver_intent_wf m" using intent_of_arg_wf by fastforce
  with x show ?thesis by (rule control_decision_check_wf) (simp add: assms(2))
qed

lemma coerce_decision_wf:
  assumes "coerce_decision a n = Inr d" and "answer_wf a"
  shows "control_decision_wf d"
proof (cases a)
  case (Legacy raw)
  have w: "wf_obj (md_payload raw)" "opt_all wf_obj (md_physical_maneuver raw)"
    using assms(2) Legacy by (simp_all add: maneuver_decision_wf_def)
  then have wp: "wf_py (proxied (JObj (md_payload raw)))" by (simp add: wf_obj_def del: wf_json.simps)
  show ?thesis
  proof (cases "md_physical_maneuver raw")
    case (Some physical)
    with w have "wf_py (proxied (JObj physical))" by (simp add: wf_obj_def del: wf_json.simps)
    with assms(1) Legacy Some wp show ?thesis
      by (auto simp del: view.simps intro: control_decision_new_wf)
  next
    case None
    with assms(1) Legacy show ?thesis by (auto split: option.splits intro: control_decision_new_wf)
  qed
qed (use assms in \<open>auto intro: control_decision_from_dict_wf\<close>)

definition marker_event :: "string \<Rightarrow> string \<Rightarrow> control_decision \<Rightarrow> maneuver_command option \<Rightarrow> int \<Rightarrow> transport_event" where
  "marker_event i mission d c n = \<lparr>te_schema_version = 1, te_event_id = marker_id i, te_mission_id = mission,
     te_sequence = n, te_event_kind = marker_kind, te_payload = marker_payload i d c\<rparr>"

lemma marker_names [simp]: "nonblank (marker_id i)" "nonblank (invocation_topic i)" "nonblank marker_kind"
  by (simp_all add: marker_id_def invocation_topic_def marker_kind_def)

lemma marker_event_new:
  assumes "control_decision_wf d" and "opt_all maneuver_command_wf c" and "nonblank mission" and "0 \<le> n"
  shows "transport_event_new (PInt 1) (PStr (marker_id i)) (PStr mission) (PInt n) (PStr marker_kind)
      (thaw (JObj (marker_payload i d c))) = Inr (marker_event i mission d c n)"
    and "transport_event_wf (marker_event i mission d c n)"
proof -
  have "wf_json (JObj (marker_payload i d c))"
    using control_decision_dict_wf [OF assms(1)] assms(2)
    by (auto simp: marker_payload_def opt_all_iff maneuver_command_dict_wf split: option.split)
  then show "transport_event_wf (marker_event i mission d c n)"
    using assms by (simp add: transport_event_wf_def marker_event_def wf_obj_def del: wf_json.simps)
  show "transport_event_new (PInt 1) (PStr (marker_id i)) (PStr mission) (PInt n) (PStr marker_kind)
      (thaw (JObj (marker_payload i d c))) = Inr (marker_event i mission d c n)"
    using assms by (simp add: transport_event_new_def marker_event_def del: view.simps)
qed

lemma read_marker_payload:
  assumes "control_decision_wf d" and "opt_all maneuver_command_wf c"
  shows "read_marker (marker_payload i d c) = Inr (d, c)"
proof -
  obtain o' where o': "control_decision_to_dict d = JObj o'" by (simp add: control_decision_to_dict_def)
  note d = control_decision_view [OF assms(1) o', of True]
  show ?thesis
  proof (cases c)
    case None
    with d o' show ?thesis by (simp add: read_marker_def marker_payload_def getd_def)
  next
    case (Some m)
    obtain p' where p': "maneuver_command_to_dict m = JObj p'" by (simp add: maneuver_command_to_dict_def)
    have "maneuver_command_wf m" using assms(2) Some by simp
    from maneuver_command_view [OF this p', of True] d o' p' Some show ?thesis
      by (simp add: read_marker_def marker_payload_def getd_def)
  qed
qed

lemma read_marker_wf:
  assumes "read_marker p = Inr (d, c)" and "wf_obj p"
  shows "opt_all maneuver_command_wf c"
proof -
  have w: "wf_py (proxied (getd p ''command'' JNull))"
    using assms(2) by (auto simp: getd_def wf_obj_def split: option.split dest: map_of_SomeD)
  from assms(1) consider "c = None"
    | kvs m where "as_mapping (proxied (getd p ''command'' JNull)) = Some kvs" "maneuver_command_from_dict kvs = Inr m" "c = Some m"
    by (auto simp: read_marker_def Let_def bindE_eq_Inr split: option.splits)
  then show ?thesis by cases (use w maneuver_command_from_dict_wf in auto)
qed

context transport_port
begin

text \<open>A marker, once published, is what every later heartbeat for its event reads.\<close>

lemma publish_marker:
  assumes "inv s" and "nonblank mission" and "control_decision_wf d" and "opt_all maneuver_command_wf c"
    and "\<not> used s (marker_id i)"
  shows "\<exists>s'. publish_invocation_marker E i mission d c s = (Inr (), s') \<and> inv s' \<and> sent s' = sent s \<and>
    outcome_at s' = outcome_at s \<and> stored_invocation E i mission s' = (Inr (Some (d, c)), s')"
proof -
  let ?n = "next_of s (invocation_topic i) mission" and ?e = "\<lambda>n. marker_event i mission d c n"
  have n: "0 \<le> ?n" by (rule next_nonneg [OF assms(1)])
  note e = marker_event_new [OF assms(3,4,2) n, of i]
  have f: "te_mission_id (?e ?n) = mission" "te_sequence (?e ?n) = ?n" "te_event_id (?e ?n) = marker_id i"
    "te_event_kind (?e ?n) = marker_kind" "te_payload (?e ?n) = marker_payload i d c"
    by (simp_all add: marker_event_def)
  from publish_next [OF assms(1) marker_names(2) [of i] e(2)] assms(5) obtain s' where s':
    "port_publish_event E (invocation_topic i) (?e ?n) s = (Inr (?e ?n), s')" "inv s'"
    "port_latest_event E (invocation_topic i) mission (Some marker_kind) s' = (Inr (Some (?e ?n)), s')"
    unfolding f by blast
  have "port_next_event_sequence E (invocation_topic i) mission s = (Inr ?n, s)"
    unfolding next_of_def by (rule next_sequence [OF assms(1) marker_names(2) assms(2)])
  then have "publish_invocation_marker E i mission d c s = (Inr (), s')"
    by (simp add: publish_invocation_marker_def bindS_cases e(1) s'(1) del: view.simps)
  moreover have "getd (marker_payload i d c) ''input_event_id'' JNull = JStr i" by (simp add: marker_payload_def getd_def)
  then have "stored_invocation E i mission s' = (Inr (Some (d, c)), s')"
    by (simp add: stored_invocation_def bindS_cases s'(3) f read_marker_payload [OF assms(3,4)])
  ultimately show ?thesis using s'(2) publish_commands [OF assms(1) e(2), of "invocation_topic i"] s'(1) by simp
qed

lemma stored_invocation_state:
  assumes "inv s"
  shows "snd (stored_invocation E i mission s) = s"
  using assms by (auto simp: stored_invocation_def bindS_cases latest split: option.split)

lemma stored_invocation_cong:
  assumes "inv s" and "inv s'" and "stream s' (invocation_topic i) mission = stream s (invocation_topic i) mission"
  shows "fst (stored_invocation E i mission s') = fst (stored_invocation E i mission s)"
  using assms by (auto simp: stored_invocation_def bindS_cases latest split: option.split)

lemma stored_command_wf:
  assumes "inv s" and "fst (stored_invocation E i mission s) = Inr (Some (d, c))"
  shows "opt_all maneuver_command_wf c"
proof -
  let ?e = "max_by event_key (filter (kind_matches (Some marker_kind)) (stream s (invocation_topic i) mission))"
  from assms obtain e where e: "?e = Some e" "read_marker (te_payload e) = Inr (d, c)"
    by (auto simp: stored_invocation_def bindS_cases latest bindE_eq_Inr split: option.splits if_splits)
  from e(1) have "e \<in> set (stream s (invocation_topic i) mission)" by (auto dest: max_by_Some)
  with stream_events [OF assms(1)] have "wf_obj (te_payload e)" by (auto simp: transport_event_wf_def)
  with e(2) show ?thesis by (rule read_marker_wf)
qed

lemma invocation_cases:
  assumes "inv s" and "nonblank (ms_mission_id sn)" and "answer_wf (D sn st ov)"
    and fresh: "fst (stored_invocation E i (ms_mission_id sn) s) = Inr None \<Longrightarrow> \<not> used s (marker_id i)"
    and run: "invocation_for E H D sn st ov (Some i) (ctl, s) = (r, (ctl', s'))"
  shows "inv s' \<and> same_profile ctl ctl' \<and> sent s' = sent s \<and> outcome_at s' = outcome_at s \<and>
    (case r of Inl e \<Rightarrow> s' = s
     | Inr (d, c) \<Rightarrow> fst (stored_invocation E i (ms_mission_id sn) s') = Inr (Some (d, c)) \<and>
         validate_decision d sn st = Inr () \<and> opt_all maneuver_command_wf c \<and>
         (fst (stored_invocation E i (ms_mission_id sn) s) = Inr None \<or> s' = s))"
proof -
  let ?m = "ms_mission_id sn"
  obtain x where x: "stored_invocation E i ?m s = (x, s)"
    using stored_invocation_state [OF assms(1)] by (metis prod.collapse)
  consider e where "x = Inl e" | d c where "x = Inr (Some (d, c))" | "x = Inr None"
    by (metis option.exhaust prod.exhaust sum.exhaust)
  then show ?thesis
  proof cases
    case 1
    with run x assms(1) show ?thesis by (auto simp: invocation_for_def bindS_cases)
  next
    case (2 d c)
    with run x have "(r, (ctl', s')) = (bindE (validate_decision d sn st) (\<lambda>_. Inr (d, c)), (ctl, s))"
      by (auto simp: invocation_for_def bindS_cases split: sum.splits)
    moreover have "opt_all maneuver_command_wf c" by (rule stored_command_wf [OF assms(1), of i ?m d]) (simp add: x 2)
    ultimately show ?thesis using x 2 assms(1)
      by (cases "validate_decision d sn st") auto
  next
    case 3
    obtain y ctl1 where y: "decide D sn st ov (ctl, s) = (y, (ctl1, s))" "same_profile ctl ctl1"
      "\<And>d. y = Inr d \<Longrightarrow> validate_decision d sn st = Inr () \<and> coerce_decision (D sn st ov) (fs_plan_revision st) = Inr d"
      using decide_cases [of D sn st ov ctl s] by (metis prod.collapse)
    have go: "(r, (ctl', s')) = bindS (decide D sn st ov) (\<lambda>d cs.
         bindS (liftE (command_for_decision H (fst cs) d sn)) (\<lambda>c.
         bindS (onSnd (publish_invocation_marker E i ?m d c)) (\<lambda>_. returnS (d, c))) cs) (ctl, s)"
      using run x 3 by (simp add: invocation_for_def bindS_cases)
    show ?thesis
    proof (cases y)
      case (Inl e)
      with go y assms(1) show ?thesis by (simp add: bindS_cases)
    next
      case d: (Inr d)
      show ?thesis
      proof (cases "command_for_decision H ctl1 d sn")
        case (Inl e)
        with go y d assms(1) show ?thesis by (simp add: bindS_cases)
      next
        case c: (Inr c)
        have w: "control_decision_wf d" using coerce_decision_wf y(3) d assms(3) by blast
        have cw: "opt_all maneuver_command_wf c" by (rule command_for_decision_wf [OF c w])
        from publish_marker [OF assms(1,2) w cw fresh] x 3 obtain s1 where s1:
          "publish_invocation_marker E i ?m d c s = (Inr (), s1)" "inv s1" "sent s1 = sent s"
          "outcome_at s1 = outcome_at s" "stored_invocation E i ?m s1 = (Inr (Some (d, c)), s1)" by auto
        with go y(1) d c have "r = Inr (d, c)" "ctl' = ctl1" "s' = s1" by (simp_all add: bindS_cases)
        with s1 y(2,3) d cw x 3 show ?thesis by simp
      qed
    qed
  qed
qed

text \<open>The state after a heartbeat that was caused by the event \<open>i\<close>.\<close>

lemma heartbeat_cases:
  assumes "inv s" and "nonblank (ms_mission_id sn)" and "answer_wf (D sn st ov)"
    and fresh: "fst (stored_invocation E i (ms_mission_id sn) s) = Inr None \<Longrightarrow> \<not> used s (marker_id i)"
    and run: "heartbeat E C H D sn st ov (Some i) (ctl, s) = (r, (ctl', s'))"
  shows "inv s' \<and> same_profile ctl ctl' \<and>
    (case r of
       Inl e \<Rightarrow> s' = s \<or> (\<exists>d c. fst (stored_invocation E i (ms_mission_id sn) s') = Inr (Some (d, c)) \<and> sent s' = sent s)
     | Inr (d, c) \<Rightarrow> fst (stored_invocation E i (ms_mission_id sn) s') = Inr (Some (d, c)) \<and>
         validate_context sn st ov = Inr () \<and> validate_decision d sn st = Inr () \<and>
         (\<forall>m. c = Some m \<longrightarrow> maneuver_command_wf m \<and> checked_command ctl (Typed m) = Inr m \<and>
            (\<exists>k. maneuver_to_command (ctl_target_service ctl) (ctl_command_topic ctl) m = Inr k \<and>
               sent s' (mc_command_id m) = Some (command_json k))))"
proof (cases "validate_context sn st ov")
  case (Inl e)
  with run assms(1) show ?thesis by (auto simp: heartbeat_def)
next
  case ok: (Inr u)
  obtain y ctl1 s1 where y: "invocation_for E H D sn st ov (Some i) (ctl, s) = (y, (ctl1, s1))" by (metis prod.collapse)
  note ic = invocation_cases [where D = D, OF assms(1-4) y]
  show ?thesis
  proof (cases y)
    case (Inl e)
    with run ok y ic show ?thesis by (auto simp: heartbeat_def bindS_cases)
  next
    case (Inr dc)
    then obtain d c where dc: "y = Inr (d, c)" by (cases dc) auto
    with ic have i: "inv s1" "same_profile ctl ctl1" "sent s1 = sent s" "validate_decision d sn st = Inr ()"
      "opt_all maneuver_command_wf c" "fst (stored_invocation E i (ms_mission_id sn) s1) = Inr (Some (d, c))" by simp_all
    show ?thesis
    proof (cases c)
      case None
      with run ok y dc i show ?thesis by (auto simp: heartbeat_def bindS_cases same_profile_trans)
    next
      case m: (Some m)
      obtain x ctl2 s2 where x: "handle_command C (Typed m) (ctl1, s1) = (x, (ctl2, s2))" by (metis prod.collapse)
      note hc = handle_command_cases [OF i(1) _ x, unfolded command_arg_wf.simps]
      have keep: "fst (stored_invocation E i (ms_mission_id sn) s2) = Inr (Some (d, c))" "inv s2" "same_profile ctl ctl2"
        using hc i m stored_invocation_cong [OF i(1), of s2 i "ms_mission_id sn"] by (auto intro: same_profile_trans)
      show ?thesis
      proof (cases x)
        case (Inl e)
        with run ok y dc m x hc i(3,5) keep show ?thesis by (auto simp: heartbeat_def bindS_cases)
      next
        case (Inr rc)
        with run ok y dc m x have r: "r = Inr (d, Some m)" "s' = s2" "same_profile ctl2 ctl'"
          by (auto simp: heartbeat_def bindS_cases)
        from hc Inr i(5) m obtain k where k: "checked_command ctl1 (Typed m) = Inr m" "maneuver_command_wf m"
          "maneuver_to_command (ctl_target_service ctl1) (ctl_command_topic ctl1) m = Inr k"
          "sent s2 = (sent s1)(mc_command_id m \<mapsto> command_json k)" 
          using checked_command_Inr by (fastforce dest: checked_typed)
        have "checked_command ctl (Typed m) = Inr m" "ctl_target_service ctl1 = ctl_target_service ctl"
          "ctl_command_topic ctl1 = ctl_command_topic ctl"
          using k(1) same_profile_typed [OF i(2)] i(2) by (simp_all add: same_profile_def)
        with k r keep i(4) ok m show ?thesis by (auto intro: same_profile_trans)
      qed
    qed
  qed
qed

lemma heartbeat_stored:
  assumes "inv s" and "fst (stored_invocation E i (ms_mission_id sn) s) = Inr (Some (d, c))"
    and run: "heartbeat E C H D sn st ov (Some i) (ctl, s) = (Inr x, cs')"
  shows "x = (d, c)"
proof -
  have "stored_invocation E i (ms_mission_id sn) s = (Inr (Some (d, c)), s)"
    using stored_invocation_state [OF assms(1), of i "ms_mission_id sn"] assms(2) by (metis prod.collapse)
  with run show ?thesis
    by (cases c) (auto simp: heartbeat_def invocation_for_def bindS_cases split: sum.splits prod.splits)
qed

text \<open>Repeating a completed heartbeat sends nothing.\<close>

lemma heartbeat_again:
  assumes "inv s" and st: "fst (stored_invocation E i (ms_mission_id sn) s) = Inr (Some (d, c))"
    and ok: "validate_context sn st ov = Inr ()" "validate_decision d sn st = Inr ()"
    and cmd: "\<And>m. c = Some m \<Longrightarrow> maneuver_command_wf m \<and> checked_command ctl (Typed m) = Inr m \<and>
        (\<exists>k. maneuver_to_command (ctl_target_service ctl) (ctl_command_topic ctl) m = Inr k \<and>
           sent s (mc_command_id m) = Some (command_json k))"
  shows "\<exists>ctl'. heartbeat E C H D sn st ov (Some i) (ctl, s) = (Inr (d, c), (ctl', s))"
proof -
  have "stored_invocation E i (ms_mission_id sn) s = (Inr (Some (d, c)), s)"
    using stored_invocation_state [OF assms(1), of i "ms_mission_id sn"] st by (metis prod.collapse)
  then have inv: "invocation_for E H D sn st ov (Some i) (ctl, s) = (Inr (d, c), (ctl, s))"
    by (simp add: invocation_for_def bindS_cases ok)
  show ?thesis
  proof (cases c)
    case None
    with inv ok(1) show ?thesis by (simp add: heartbeat_def bindS_cases)
  next
    case (Some m)
    with cmd obtain k where k: "checked_command ctl (Typed m) = Inr m" "maneuver_command_wf m"
      "maneuver_to_command (ctl_target_service ctl) (ctl_command_topic ctl) m = Inr k"
      "sent s (mc_command_id m) = Some (command_json k)" by blast
    have "cport_send_command C k s = (Inr (receipt_for k), s)"
      using send_again [OF assms(1) maneuver_to_command_wf [OF k(3,2)], of "command_json k"] k(4)
      by (simp add: maneuver_to_command_id [OF k(3)])
    with k have "handle_command C (Typed m) (ctl, s) = (Inr (receipt_for k), (control_logged (mc_mission_id m) ''control''
        ''queued'' [(''operation'', JStr ''queue_command''), (''command_id'', JStr (mc_command_id m))] ctl, s))"
      by (simp add: handle_command_def bindS_cases)
    with inv ok(1) Some show ?thesis by (simp add: heartbeat_def bindS_cases)
  qed
qed

end

section \<open>Example\<close>

definition ex_control :: control where
  "ex_control = \<lparr>ctl_target_service = ''adapter'', ctl_command_topic = ''maneuver'', ctl_protocol_version = 1,
     ctl_supported = [NAVIGATE], ctl_heartbeat_physical = [], ctl_log = Some []\<rparr>"

definition ex_control_status :: fsm_status where
  "ex_control_status = \<lparr>fs_mission_id = ''m1'', fs_plan_revision = 1, fs_statechart_revision = 1,
     fs_active_state = ''search'', fs_transition_candidates = [], fs_status = ''initialized'',
     fs_superseded_plan_revision = None, fs_last_applied_event = None, fs_schema_version = 1,
     fs_active_state_context = [], fs_state_entry_revision = 1\<rparr>"

definition ex_beat :: "mission_snapshot \<Rightarrow> string option \<Rightarrow> (heartbeat_result, transport_state control_state) eff" where
  "ex_beat sn i = heartbeat inprocess_events inprocess_commands (\<lambda>_. ''h'') (\<lambda>_ _ _. Decided ex_control_decision)
     sn ex_control_status None i"

section \<open>Correctness\<close>

text \<open>C19: only commands that the profile permits reach the transport. If a command is accepted, it was addressed
  to the configured service, has the configured protocol version and one of the supported actions, and it is
  recorded under its identifier; nothing sent before is changed. If it is refused, the transport is unchanged.\<close>

theorem queued_command_permitted:
  assumes "log_inv s" and "command_arg_wf arg" and "handle_command inprocess_commands arg (ctl, s) = (r, (ctl', s'))"
  shows "case r of
      Inl e \<Rightarrow> s' = s
    | Inr x \<Rightarrow> \<exists>m k. typed_command ctl arg = Inr m \<and> mc_schema_version m = ctl_protocol_version ctl \<and>
        (\<exists>a \<in> set (ctl_supported ctl). mi_action (mc_intent m) = physical_text a) \<and>
        (\<forall>c. arg = Generic c \<longrightarrow> cmd_target_service c = ctl_target_service ctl) \<and>
        maneuver_to_command (ctl_target_service ctl) (ctl_command_topic ctl) m = Inr k \<and> x = receipt_for k \<and>
        sent_in s' = (sent_in s)(mc_command_id m \<mapsto> command_json k) \<and> (sent_in s (mc_command_id m) = None \<or> s' = s)"
proof (cases r)
  case (Inl e)
  with inproc_port.handle_command_cases [OF assms] show ?thesis by simp
next
  case (Inr x)
  with inproc_port.handle_command_cases [OF assms] obtain m k where m: "checked_command ctl arg = Inr m"
    "maneuver_to_command (ctl_target_service ctl) (ctl_command_topic ctl) m = Inr k" "x = receipt_for k"
    "sent_in s' = (sent_in s)(mc_command_id m \<mapsto> command_json k)" "sent_in s (mc_command_id m) = None \<or> s' = s" by auto
  moreover have "arg = Generic c \<Longrightarrow> cmd_target_service c = ctl_target_service ctl" for c
    using checked_command_Inr [OF m(1)] by (auto simp: bindE_eq_Inr)
  ultimately show ?thesis
    using checked_command_Inr [OF m(1)] checked_typed Inr by (simp add: checked_typed)
qed

theorem queued_command_permitted_witness:
  "\<exists>x ctl' s'. handle_command inprocess_commands (Typed ex_command) (ex_control, initial_state) = (Inr x, (ctl', s')) \<and>
     sent_in s' ''c1'' \<noteq> None"
proof -
  obtain r ctl' s' where r: "handle_command inprocess_commands (Typed ex_command) (ex_control, initial_state) = (r, (ctl', s'))"
    by (metis prod.collapse)
  have "isOk (fst (handle_command inprocess_commands (Typed ex_command) (ex_control, initial_state)))" by code_simp
  with r obtain x where "r = Inr x" by (auto simp: isOk_iff)
  with queued_command_permitted [OF log_inv_initial _ r] ex_maneuver_wf(2)
  obtain k where "sent_in s' = (sent_in initial_state)(mc_command_id ex_command \<mapsto> command_json k)" by auto
  then have "sent_in s' ''c1'' \<noteq> None" by (simp add: ex_command_def)
  with r \<open>r = Inr x\<close> show ?thesis by blast
qed

text \<open>C20: an event is decided at most once. After a heartbeat for an event that stored its decision, every later
  heartbeat for the event and mission, by any instance of the service with any provider, snapshot and
  status, either fails or has the same decision and the same command, as long as the markers of the
  event are not touched by others.\<close>

theorem event_decided_once:
  assumes "log_inv s" and "nonblank (ms_mission_id sn)" and "answer_wf (D sn st ov)"
    and "fst (stored_invocation inprocess_events i (ms_mission_id sn) s) = Inr None \<Longrightarrow> \<not> event_used s (marker_id i)"
    and "heartbeat inprocess_events inprocess_commands H D sn st ov (Some i) (ctl, s) = (Inr x, (ctl', s'))"
    and "log_inv s2" and "stream_of s2 (invocation_topic i) (ms_mission_id sn) = stream_of s' (invocation_topic i) (ms_mission_id sn)"
    and "ms_mission_id sn2 = ms_mission_id sn"
    and "heartbeat inprocess_events inprocess_commands H2 D2 sn2 st2 ov2 (Some i) (ctl2, s2) = (Inr x2, cs2)"
  shows "x2 = x"
proof -
  obtain d c where x: "x = (d, c)" by (cases x)
  have st: "log_inv s'" "fst (stored_invocation inprocess_events i (ms_mission_id sn) s') = Inr (Some (d, c))"
    using inproc_port.heartbeat_cases [where D = D, OF assms(1-5)] x by auto
  with inproc_port.stored_invocation_cong [OF st(1) assms(6,7)] assms(8)
  have "fst (stored_invocation inprocess_events i (ms_mission_id sn2) s2) = Inr (Some (d, c))" by simp
  from inproc_port.heartbeat_stored [OF assms(6) this assms(9)] x show ?thesis by simp
qed

lemma ex_beat_first:
  "isOk (fst (ex_beat ex_snapshot (Some ''e1'') (ex_control, initial_state)))"
  "fst (stored_invocation inprocess_events ''e1'' ''m1'' initial_state) = Inr None"
  "\<not> event_used initial_state (marker_id ''e1'')" "nonblank (ms_mission_id ex_snapshot)"
  "ms_mission_id ex_snapshot = ''m1''" "answer_wf (Decided ex_control_decision)"
  by code_simp+

text \<open>The next event carries another snapshot, and the provider raises: the stored decision is used.\<close>

theorem event_decided_once_witness:
  "\<exists>x cs x2 cs2. ex_beat ex_snapshot (Some ''e1'') (ex_control, initial_state) = (Inr x, cs) \<and>
     heartbeat inprocess_events inprocess_commands (\<lambda>_. ''h'') (\<lambda>_ _ _. Raised (ValueError Missing))
       (ex_snapshot\<lparr>ms_version := 4\<rparr>) ex_control_status None (Some ''e1'') cs = (Inr x2, cs2) \<and> x2 = x"
proof -
  obtain x ctl' s' where x: "ex_beat ex_snapshot (Some ''e1'') (ex_control, initial_state) = (Inr x, (ctl', s'))"
    using ex_beat_first(1) unfolding isOk_iff by (metis prod.collapse)
  have "isOk (fst (heartbeat inprocess_events inprocess_commands (\<lambda>_. ''h'') (\<lambda>_ _ _. Raised (ValueError Missing))
    (ex_snapshot\<lparr>ms_version := 4\<rparr>) ex_control_status None (Some ''e1'')
    (snd (ex_beat ex_snapshot (Some ''e1'') (ex_control, initial_state)))))" by code_simp
  then obtain x2 cs2 where x2: "heartbeat inprocess_events inprocess_commands (\<lambda>_. ''h'') (\<lambda>_ _ _. Raised (ValueError Missing))
    (ex_snapshot\<lparr>ms_version := 4\<rparr>) ex_control_status None (Some ''e1'') (ctl', s') = (Inr x2, cs2)"
    unfolding x isOk_iff by (metis prod.collapse snd_conv)
  have "log_inv s'"
    using inproc_port.heartbeat_cases [where D = "\<lambda>_ _ _. Decided ex_control_decision", OF log_inv_initial ex_beat_first(4) _ _ x [unfolded ex_beat_def]]
      ex_beat_first by simp
  from event_decided_once [where D = "\<lambda>_ _ _. Decided ex_control_decision", OF log_inv_initial ex_beat_first(4) _ _
      x [unfolded ex_beat_def] this _ _ x2] ex_beat_first have "x2 = x" by simp
  with x x2 show ?thesis by blast
qed

text \<open>A redelivered event is harmless. When a heartbeat for an event completed, repeating it on the resulting
  state with the same snapshot and status, also by a new instance of the service with the same profile and with any
  provider, gives the same result and leaves the transport unchanged; nothing is sent or decided again.\<close>

theorem heartbeat_replay:
  assumes "log_inv s" and "nonblank (ms_mission_id sn)" and "answer_wf (D sn st ov)"
    and "fst (stored_invocation inprocess_events i (ms_mission_id sn) s) = Inr None \<Longrightarrow> \<not> event_used s (marker_id i)"
    and "heartbeat inprocess_events inprocess_commands H D sn st ov (Some i) (ctl, s) = (Inr x, (ctl', s'))"
    and "same_profile ctl ctl2"
  shows "\<exists>ctl3. heartbeat inprocess_events inprocess_commands H2 D2 sn st ov (Some i) (ctl2, s') = (Inr x, (ctl3, s'))"
proof -
  obtain d c where x: "x = (d, c)" by (cases x)
  have p: "ctl_target_service ctl2 = ctl_target_service ctl" "ctl_command_topic ctl2 = ctl_command_topic ctl"
    "checked_command ctl2 (Typed m) = checked_command ctl (Typed m)" for m
    using assms(6) same_profile_typed [OF assms(6)] by (simp_all add: same_profile_def)
  have "log_inv s'" "fst (stored_invocation inprocess_events i (ms_mission_id sn) s') = Inr (Some (d, c))"
    "validate_context sn st ov = Inr ()" "validate_decision d sn st = Inr ()"
    "\<And>m. c = Some m \<Longrightarrow> maneuver_command_wf m \<and> checked_command ctl2 (Typed m) = Inr m \<and>
       (\<exists>k. maneuver_to_command (ctl_target_service ctl2) (ctl_command_topic ctl2) m = Inr k \<and>
         sent_in s' (mc_command_id m) = Some (command_json k))"
    using inproc_port.heartbeat_cases [where D = D, OF assms(1-5)] x by (auto simp: p)
  from inproc_port.heartbeat_again [where ov = ov, OF this(1-4)] this(5) x show ?thesis by blast
qed

theorem heartbeat_replay_witness:
  "\<exists>x cs cs2. ex_beat ex_snapshot (Some ''e1'') (ex_control, initial_state) = (Inr x, cs) \<and>
     ex_beat ex_snapshot (Some ''e1'') (ex_control, snd cs) = (Inr x, cs2) \<and> snd cs2 = snd cs"
proof -
  obtain x ctl' s' where x: "ex_beat ex_snapshot (Some ''e1'') (ex_control, initial_state) = (Inr x, (ctl', s'))"
    using ex_beat_first(1) unfolding isOk_iff by (metis prod.collapse)
  from heartbeat_replay [where D = "\<lambda>_ _ _. Decided ex_control_decision", OF log_inv_initial ex_beat_first(4) _ _
      x [unfolded ex_beat_def] same_profile_logged(1)] ex_beat_first x show ?thesis by (fastforce simp: ex_beat_def)
qed

text \<open>A physical choice that is repeated after the world changed is refused. The identifier of a physical command
  is computed from the mission, the plan revision, the maneuver and the intent, but its content also names the
  snapshot the decision was made on. When a provider makes the same choice on the next snapshot, the second heartbeat
  ends with a conflict in the transport instead of the idempotent acceptance that the identifier aims at.\<close>

theorem repeated_maneuver_conflicts:
  "(let (r1, cs1) = ex_beat ex_snapshot None (ex_control, initial_state);
        (r2, cs2) = ex_beat ex_snapshot None cs1;
        (r3, cs3) = ex_beat (ex_snapshot\<lparr>ms_version := 4\<rparr>) None cs1
    in isOk r1 \<and> r2 = r1 \<and> r3 = Inl (ValueError Conflict))"
  by code_simp

lemma dispatch_command_wf:
  "dispatch_command ctl iv maneuver m n = Inr c \<Longrightarrow> maneuver_intent_wf m \<Longrightarrow> maneuver_command_wf c"
  unfolding dispatch_command_def by (rule maneuver_command_new_wf)

definition choices_sent :: "control \<Rightarrow> transport_state \<Rightarrow> bool" where
  "choices_sent ctl s \<longleftrightarrow> (\<forall>k x. map_of (ctl_heartbeat_physical ctl) k = Some x \<longrightarrow> sent_in s (mc_command_id x) \<noteq> None)"

text \<open>A physical choice is queued once per heartbeat. A dispatch that succeeds returns a command that the
  transport has recorded, and keeps it recorded for every choice of the heartbeat; dispatching the same choice of the same invocation again, with whatever sequence
  number, returns that command, reports that it is not new, and changes neither the service nor the
  transport.\<close>

theorem dispatch_once:
  assumes "log_inv s" and "control_decision_wf d"
    and "dispatch_physical inprocess_commands iv d n (ctl, s) = (Inr (c, new), (ctl', s'))"
    and "choices_sent ctl s"
  shows "sent_in s' (mc_command_id c) \<noteq> None \<and> choices_sent ctl' s' \<and>
    dispatch_physical inprocess_commands iv d n' (ctl', s') = (Inr (c, False), (ctl', s'))"
proof -
  from assms(3) obtain m maneuver where mm: "cd_physical_intent d = Some m" "cd_maneuver_id d = Some maneuver"
    by (cases "cd_physical_intent d"; cases "cd_maneuver_id d") (auto simp: dispatch_physical_def)
  have "cd_mission_id d = iv_mission_id iv \<and> cd_plan_revision d = iv_plan_revision iv"
    using assms(3) mm by (cases "cd_mission_id d = iv_mission_id iv \<and> cd_plan_revision d = iv_plan_revision iv")
      (simp_all add: dispatch_physical_def bindS_cases)
  with mm have d: "cd_physical_intent d = Some m" "cd_maneuver_id d = Some maneuver"
    "cd_mission_id d = iv_mission_id iv" "cd_plan_revision d = iv_plan_revision iv" by simp_all
  let ?i = "dispatch_identity iv maneuver m"
  have again: "dispatch_physical inprocess_commands iv d n' (ctl', s') = (Inr (c, False), (ctl', s'))"
    if "map_of (ctl_heartbeat_physical ctl') ?i = Some c" for ctl' s'
    using that d by (simp add: dispatch_physical_def bindS_cases)
  show ?thesis
  proof (cases "map_of (ctl_heartbeat_physical ctl) ?i")
    case (Some x)
    with assms(3) d have "c = x" "ctl' = ctl" "s' = s" by (simp_all add: dispatch_physical_def bindS_cases)
    moreover have "sent_in s (mc_command_id x) \<noteq> None" using assms(4) Some unfolding choices_sent_def by blast
    ultimately show ?thesis using Some assms(4) again by simp
  next
    case None
    from assms(3) d None obtain x ctl1 where x: "dispatch_command ctl iv maneuver m n = Inr c"
      "handle_command inprocess_commands (Typed c) (ctl, s) = (Inr x, (ctl1, s'))"
      "ctl' = ctl1\<lparr>ctl_heartbeat_physical := put ?i c (ctl_heartbeat_physical ctl1)\<rparr>"
    proof -
      obtain a where a: "physical_action_of (PStr (mi_action m)) = Inr a" "a \<in> set (ctl_supported ctl)"
        using assms(3) d None by (auto simp: dispatch_physical_def split: sum.splits if_splits)
      obtain c1 where c1: "dispatch_command ctl iv maneuver m n = Inr c1"
        using assms(3) d None a by (auto simp: dispatch_physical_def split: sum.splits)
      obtain r1 ctl1 s1 where h: "handle_command inprocess_commands (Typed c1) (ctl, s) = (r1, (ctl1, s1))"
        by (metis prod.collapse)
      with assms(3) d None a c1 have "isOk r1" "c1 = c" "s1 = s'"
        "ctl' = ctl1\<lparr>ctl_heartbeat_physical := put ?i c (ctl_heartbeat_physical ctl1)\<rparr>"
        by (cases r1; simp add: dispatch_physical_def bindS_cases Let_def onFst_def)+
      with h c1 that show thesis by (auto simp: isOk_iff)
    qed
    have "maneuver_intent_wf m" using assms(2) d(1) by (simp add: control_decision_wf_def physical_intent_wf_def)
    then have "command_arg_wf (Typed c)" using dispatch_command_wf [OF x(1)] by simp
    from inproc_port.handle_command_cases [OF assms(1) this x(2)] obtain m' k
      where m': "checked_command ctl (Typed c) = Inr m'" "sent_in s' = (sent_in s)(mc_command_id m' \<mapsto> command_json k)"
        "ctl_heartbeat_physical ctl1 = ctl_heartbeat_physical ctl" by (simp only: sum.case) blast
    with checked_typed [OF m'(1)] have "sent_in s' = (sent_in s)(mc_command_id c \<mapsto> command_json k)"
        "ctl_heartbeat_physical ctl1 = ctl_heartbeat_physical ctl" by simp_all
    then have "sent_in s' (mc_command_id c) \<noteq> None" "ctl_heartbeat_physical ctl1 = ctl_heartbeat_physical ctl"
      "sent_in s i \<noteq> None \<Longrightarrow> sent_in s' i \<noteq> None" for i by simp_all
    with x(3) again assms(4) show ?thesis by (simp add: choices_sent_def)
  qed
qed

definition ex_invocation :: invocation where
  "ex_invocation = \<lparr>iv_request_id = ''r1'', iv_correlation_id = ''k1'', iv_mission_id = ''m1'', iv_plan_revision = 1,
     iv_snapshot_version = Some 3\<rparr>"

theorem dispatch_once_witness:
  "\<exists>c cs. dispatch_physical inprocess_commands ex_invocation ex_control_decision 0 (ex_control, initial_state) = (Inr (c, True), cs) \<and>
     dispatch_physical inprocess_commands ex_invocation ex_control_decision 1 cs = (Inr (c, False), cs)"
proof -
  have "case fst (dispatch_physical inprocess_commands ex_invocation ex_control_decision 0 (ex_control, initial_state)) of
    Inl e \<Rightarrow> False | Inr (c, new) \<Rightarrow> new" by code_simp
  then obtain c ctl' s' where c: "dispatch_physical inprocess_commands ex_invocation ex_control_decision 0 (ex_control, initial_state) =
    (Inr (c, True), (ctl', s'))" by (auto split: sum.splits prod.splits simp: prod_eq_iff)
  from dispatch_once [OF log_inv_initial ex_maneuver_wf(1) c] c show ?thesis by (auto simp: ex_control_def choices_sent_def)
qed

end
