(* ===== verification/File_Transport.thy ===== *)
theory File_Transport
  imports File_Names InProcess_Commands
begin

text \<open>
  The durable transport over files, \<open>src/onr/adapters/file_transport.py\<close>. A file is its path below the root
  with the JSON value that its text stands for. An operation computes its answer and the list of the files
  it writes, in order; each write replaces a file atomically. The lock of the publisher makes an operation
  atomic for other publishers, so that an interrupted operation is the only way to see a part of its
  writes. Directories are listed in the order of the list. Input and output errors of the operating system,
  and files that are not JSON, are not modelled.
\<close>

section \<open>Files\<close>

type_synonym path = "string list"
type_synonym files = "(path \<times> json) list"

definition write_all :: "(path \<times> json) list \<Rightarrow> files \<Rightarrow> files" where
  "write_all ws fs = fold (\<lambda>(p, j) fs. put p j fs) ws fs"

text \<open>\<open>_read_json(path, None)\<close>.\<close>

definition read_json :: "path \<Rightarrow> files \<Rightarrow> json option" where
  "read_json p fs = (case map_of fs p of Some JNull \<Rightarrow> None | x \<Rightarrow> x)"

text \<open>\<open>directory.glob("*.json")\<close>: the names and contents.\<close>

definition json_name :: "string \<Rightarrow> bool" where
  "json_name s \<longleftrightarrow> drop (length s - 5) s = ''.json''"

definition listing :: "path \<Rightarrow> files \<Rightarrow> (string \<times> json) list" where
  "listing dir fs = map (\<lambda>(p, j). (last p, j))
     (filter (\<lambda>(p, j). p \<noteq> [] \<and> butlast p = dir \<and> json_name (last p)) fs)"

definition event_path :: "string \<Rightarrow> path" where
  "event_path i = path_of [''identity'', ''event-'' @ quote i @ ''.json'']"

definition command_path :: "string \<Rightarrow> path" where
  "command_path i = path_of [''identity'', ''command-'' @ quote i @ ''.json'']"

definition outcome_path :: "string \<Rightarrow> path" where
  "outcome_path i = path_of [''identity'', ''outcome-'' @ quote i @ ''.json'']"

definition receipt_path :: "string \<Rightarrow> path" where
  "receipt_path i = path_of [''receipts'', quote i @ ''.json'']"

definition stream_dir :: "string \<Rightarrow> string \<Rightarrow> path" where
  "stream_dir topic mission = path_of [''topics'', quote topic, ''missions'', quote mission]"

definition queue_dir :: "string \<Rightarrow> string \<Rightarrow> path" where
  "queue_dir service mission = path_of [''commands'', quote service, quote mission]"

definition event_file :: "transport_event \<Rightarrow> string" where
  "event_file e = padded (te_sequence e) @ ''-'' @ quote (te_event_id e) @ ''.json''"

definition command_file :: "int \<Rightarrow> command \<Rightarrow> string" where
  "command_file n c = padded n @ ''-'' @ quote (cmd_command_id c) @ ''.json''"

definition outcome_file :: "int \<Rightarrow> command_outcome \<Rightarrow> string" where
  "outcome_file n r = padded n @ ''-'' @ quote (oc_command_id r) @ ''-outcome.json''"

text \<open>The number after the largest one in a directory; names without a number are skipped.\<close>

definition next_number :: "path \<Rightarrow> files \<Rightarrow> int" where
  "next_number dir fs = max_default (-1) (List.map_filter (\<lambda>(s, j). file_number s) (listing dir fs)) + 1"

section \<open>Publishing\<close>

type_synonym 'a writing = "files \<Rightarrow> 'a result \<times> (path \<times> json) list"

text \<open>\<open>stream.glob(f"{sequence:020d}-*.json")\<close> with the test of the loop: a stored event with this sequence.\<close>

definition sequence_taken :: "int \<Rightarrow> string \<times> json \<Rightarrow> bool" where
  "sequence_taken n f \<longleftrightarrow> take (length (padded n) + 1) (fst f) = padded n @ ''-'' \<and>
     (case snd f of JObj o' \<Rightarrow> json_eq (getd o' ''sequence'' JNull) (JInt n) | _ \<Rightarrow> False)"

definition file_publish :: "string \<Rightarrow> transport_event \<Rightarrow> transport_event writing" where
  "file_publish topic wire fs =
     (if \<not> nonblank topic then (Inl (ValueError BlankText), [])
      else case read_json (event_path (te_event_id wire)) fs of
        Some existing \<Rightarrow>
          (if \<not> json_eq existing (transport_event_to_dict wire) then (Inl (ValueError Conflict), []) else (Inr wire, []))
      | None \<Rightarrow>
          let dir = stream_dir topic (te_mission_id wire)
          in case find (sequence_taken (te_sequence wire)) (listing dir fs) of
            Some f \<Rightarrow>
              (if \<not> json_eq (snd f) (transport_event_to_dict wire) then (Inl (ValueError SequenceConflict), [])
               else (Inr wire, []))
          | None \<Rightarrow> (Inr wire, [(dir @ [event_file wire], transport_event_json wire),
              (event_path (te_event_id wire), transport_event_json wire)]))"

definition queued_command :: "int \<Rightarrow> command \<Rightarrow> json" where
  "queued_command n c = canonical (JObj [(''kind'', JStr ''command''), (''sequence'', JInt n),
     (''command_kind'', JStr (cmd_command_kind c)), (''command'', command_to_dict c)])"

definition queued_outcome :: "int \<Rightarrow> json \<Rightarrow> command_outcome \<Rightarrow> json" where
  "queued_outcome n kind r = canonical (JObj [(''kind'', JStr ''outcome''), (''sequence'', JInt n),
     (''command_kind'', kind), (''outcome'', command_outcome_to_dict r)])"

definition file_send :: "command \<Rightarrow> command_receipt writing" where
  "file_send c fs =
     (let receipt = receipt_for c;
          receipt_file = (receipt_path (cmd_command_id c), command_receipt_json receipt)
      in case read_json (command_path (cmd_command_id c)) fs of
        Some existing \<Rightarrow>
          (if \<not> json_eq existing (command_to_dict c) then (Inl (ValueError Conflict), [])
           else (Inr receipt, if map_of fs (fst receipt_file) = None then [receipt_file] else []))
      | None \<Rightarrow>
          let dir = queue_dir (cmd_target_service c) (cmd_mission_id c); n = next_number dir fs
          in (Inr receipt, [(dir @ [command_file n c], queued_command n c),
            (command_path (cmd_command_id c), command_json c), receipt_file]))"

text \<open>A stored command is an object with the two names of its queue.\<close>

definition file_answer :: "command_outcome \<Rightarrow> command_outcome writing" where
  "file_answer r fs = (case read_json (command_path (oc_command_id r)) fs of
     None \<Rightarrow> (Inl (ValueError UnknownCommand), [])
   | Some stored \<Rightarrow> (case read_json (outcome_path (oc_command_id r)) fs of
       Some existing \<Rightarrow>
         (if \<not> json_eq existing (command_outcome_to_dict r) then (Inl (ValueError Conflict), []) else (Inr r, []))
     | None \<Rightarrow> (case stored of
         JObj o' \<Rightarrow> (case (map_of o' ''target_service'', map_of o' ''mission_id'') of
           (Some (JStr service), Some (JStr mission)) \<Rightarrow>
             let dir = queue_dir service mission; n = next_number dir fs
             in (Inr r, [(dir @ [outcome_file n r], queued_outcome n (getd o' ''command_kind'' (JStr ''outcomes'')) r),
               (outcome_path (oc_command_id r), command_outcome_json r)])
         | _ \<Rightarrow> (Inl KeyError, []))
       | _ \<Rightarrow> (Inl (RuntimeError InvalidJson), []))))"

section \<open>Queries\<close>

definition stored_record :: "(pyval \<Rightarrow> 'a result) \<Rightarrow> json option \<Rightarrow> 'a option result" where
  "stored_record f value = (case value of
     None \<Rightarrow> Inr None
   | Some (JObj o') \<Rightarrow> bindE (f (thaw (JObj o'))) (\<lambda>x. Inr (Some x))
   | Some _ \<Rightarrow> Inl (RuntimeError InvalidJson))"

definition file_receipt :: "string \<Rightarrow> files \<Rightarrow> command_receipt option result" where
  "file_receipt i fs = stored_record command_receipt_from_dict (read_json (receipt_path i) fs)"

definition file_outcome :: "string \<Rightarrow> files \<Rightarrow> command_outcome option result" where
  "file_outcome i fs = stored_record command_outcome_from_dict (read_json (outcome_path i) fs)"

definition file_event :: "string \<Rightarrow> files \<Rightarrow> transport_event option result" where
  "file_event i fs = bindE (guardE (nonblank i) (ValueError BlankText)) (\<lambda>_.
     stored_record transport_event_from_dict (read_json (event_path i) fs))"

definition file_next_sequence :: "string \<Rightarrow> string \<Rightarrow> files \<Rightarrow> int result" where
  "file_next_sequence topic mission fs = bindE (guardE (nonblank topic \<and> nonblank mission) (ValueError BlankText)) (\<lambda>_.
     Inr (next_number (stream_dir topic mission) fs))"

fun scan_latest :: "string option \<Rightarrow> json list \<Rightarrow> transport_event option result" where
  "scan_latest kind [] = Inr None"
| "scan_latest kind (JObj o' # js) = (case transport_event_from_dict (thaw (JObj o')) of
     Inl (ValueError _) \<Rightarrow> scan_latest kind js
   | Inl e \<Rightarrow> Inl e
   | Inr e \<Rightarrow> if kind_matches kind e then Inr (Some e) else scan_latest kind js)"
| "scan_latest kind (_ # js) = scan_latest kind js"

definition file_latest :: "string \<Rightarrow> string \<Rightarrow> string option \<Rightarrow> files \<Rightarrow> transport_event option result" where
  "file_latest topic mission kind fs =
     scan_latest kind (map snd (rev (sort_key fst (listing (stream_dir topic mission) fs))))"

end
