(* ===== verification/File_Consumer.thy ===== *)
theory File_Consumer
  imports File_Transport InProcess_Consumer
begin

text \<open>
  The consumer of the file transport, \<open>src/onr/adapters/file_transport.py\<close>. It reads the messages of the
  transport and keeps its own files in the state directory of the subscription, which it holds an
  exclusive lock on: the cursors, the processed identities, the attempts and the dead letters. Paths of its
  own files are relative to that directory. Cursors, eligibility and deliveries are those of the in-process
  consumer. A subscription has a retry limit of at least 1, so the transport's default limit is never used.
\<close>

section \<open>The consumer's own files\<close>

text \<open>\<open>dict(value)\<close> of a stored object of integers.\<close>

definition int_items :: "jobj \<Rightarrow> (string \<times> int) list" where
  "int_items o' = List.map_filter (\<lambda>(k, j). case j of JInt n \<Rightarrow> Some (k, n) | _ \<Rightarrow> None) o'"

definition file_cursor :: "files \<Rightarrow> cursor" where
  "file_cursor own = (case map_of own [''cursor.json''] of
     Some (JObj o') \<Rightarrow> int_items o' | _ \<Rightarrow> [(''sequence'', -1)])"

definition file_processed :: "files \<Rightarrow> string list" where
  "file_processed own = (case map_of own [''processed.json''] of
     Some (JArr js) \<Rightarrow> remdups (List.map_filter (\<lambda>j. case j of JStr s \<Rightarrow> Some s | _ \<Rightarrow> None) js)
   | _ \<Rightarrow> [])"

definition file_attempts :: "files \<Rightarrow> (string \<times> int) list" where
  "file_attempts own = (case map_of own [''attempts.json''] of
     Some (JObj o') \<Rightarrow> int_items o' | _ \<Rightarrow> [])"

definition int_object :: "(string \<times> int) list \<Rightarrow> json" where
  "int_object d = JObj (map (\<lambda>(k, n). (k, JInt n)) d)"

definition write_attempts :: "(string \<times> int) list \<Rightarrow> path \<times> json" where
  "write_attempts attempts = ([''attempts.json''], canonical (int_object attempts))"

definition advanced_cursor :: "int \<Rightarrow> string \<Rightarrow> cursor \<Rightarrow> cursor" where
  "advanced_cursor n source cursor =
     (let default = (if source = ''event'' then getd cursor ''sequence'' (-1) else -1);
          cursor1 = put source (max (getd cursor source default) n) cursor
      in put ''sequence'' (max (getd cursor1 ''sequence'' (-1)) n) cursor1)"

text \<open>\<open>_save_ack\<close>: the cursor is written before the processed identities.\<close>

definition save_ack :: "int \<Rightarrow> string \<Rightarrow> string list \<Rightarrow> files \<Rightarrow> (path \<times> json) list" where
  "save_ack n source processed own =
     [([''cursor.json''], int_object (advanced_cursor n source (file_cursor own))),
      ([''processed.json''], JArr (map JStr (sort processed)))]"

definition dead_letter_file :: "string \<Rightarrow> int \<Rightarrow> message \<Rightarrow> files \<Rightarrow> path \<times> json" where
  "dead_letter_file identity attempt message own =
     ([''dead-letter'', padded (int (length (listing [''dead-letter''] own))) @ ''-'' @ quote identity @ ''.json''],
      canonical (JObj [(''identity'', JStr identity), (''attempt'', JInt attempt), (''message'', message_to_dict message)]))"

section \<open>Selection\<close>

text \<open>A number is expected at the start of the name of every message file.\<close>

definition numbered_name :: "string \<times> json \<Rightarrow> int result" where
  "numbered_name f = (case file_number (fst f) of None \<Rightarrow> Inl (ValueError BadNumber) | Some n \<Rightarrow> Inr n)"

fun event_entry :: "json \<Rightarrow> candidate option result" where
  "event_entry (JObj o') = (case transport_event_from_dict (thaw (JObj o')) of
     Inl (ValueError _) \<Rightarrow> Inr None
   | Inl e \<Rightarrow> Inl e
   | Inr e \<Rightarrow> Inr (Some (event_candidate e)))"
| "event_entry _ = Inr None"

text \<open>\<open>CommandOutcome(**value)\<close>.\<close>

fun outcome_keywords :: "json \<Rightarrow> command_outcome result" where
  "outcome_keywords (JObj o') =
     (if set (map fst o') \<subseteq> set [''schema_version'', ''command_id'', ''correlation_id'', ''mission_id'', ''status'', ''payload''] \<and>
        set [''schema_version'', ''command_id'', ''correlation_id'', ''mission_id''] \<subseteq> set (map fst o')
      then command_outcome_new (thaw (getd o' ''schema_version'' JNull)) (thaw (getd o' ''command_id'' JNull))
        (thaw (getd o' ''correlation_id'' JNull)) (thaw (getd o' ''mission_id'' JNull))
        (thaw (getd o' ''status'' (JStr ''completed''))) (thaw (getd o' ''payload'' (JObj [])))
      else Inl (TypeError BadType))"
| "outcome_keywords _ = Inl (TypeError BadType)"

definition field_of :: "jobj \<Rightarrow> string \<Rightarrow> json result" where
  "field_of o' k = (case map_of o' k of None \<Rightarrow> Inl KeyError | Some j \<Rightarrow> Inr j)"

definition queued_message :: "jobj \<Rightarrow> (string \<times> message) result" where
  "queued_message o' =
     (if getd o' ''kind'' JNull = JStr ''command''
      then bindE (field_of o' ''command'') (\<lambda>j. bindE (command_from_dict (thaw j)) (\<lambda>c. Inr (cmd_command_id c, MCommand c)))
      else bindE (field_of o' ''outcome'') (\<lambda>j. bindE (outcome_keywords j) (\<lambda>r.
        Inr (outcome_identity (oc_command_id r), MOutcome r))))"

fun command_entry :: "subscription \<Rightarrow> json \<Rightarrow> candidate option result" where
  "command_entry sub (JObj o') =
     (if getd o' ''kind'' JNull \<notin> {JStr ''command'', JStr ''outcome''} \<or>
        getd o' ''command_kind'' JNull \<notin>
          {JNull, JStr (sub_topic sub), JStr (''commands/'' @ sub_topic sub), JStr ''outcomes''}
      then Inr None
      else bindE (queued_message o') (\<lambda>(identity, m).
        bindE (field_of o' ''sequence'') (\<lambda>j. case j of
          JInt n \<Rightarrow> Inr (Some (n, identity, m, ''command''))
        | _ \<Rightarrow> Inl (TypeError BadType))))"
| "command_entry sub _ = Inr None"

text \<open>The entries of a directory above a limit.\<close>

definition entries_above :: "int \<Rightarrow> (json \<Rightarrow> candidate option result) \<Rightarrow> (string \<times> json) list \<Rightarrow> candidate list result" where
  "entries_above limit entry fs =
     bindE (mapE (\<lambda>f. bindE (numbered_name f) (\<lambda>n. if n \<le> limit then Inr None else entry (snd f))) fs) (\<lambda>xs.
       Inr (List.map_filter id xs))"

definition event_limit :: "cursor \<Rightarrow> int" where
  "event_limit cursor = getd cursor ''event'' (getd cursor ''sequence'' (-1))"

definition file_candidates :: "subscription \<Rightarrow> cursor \<Rightarrow> files \<Rightarrow> candidate list result" where
  "file_candidates sub cursor fs =
     bindE (entries_above (event_limit cursor) event_entry (listing (stream_dir (sub_topic sub) (sub_mission_id sub)) fs)) (\<lambda>es.
     bindE (entries_above (getd cursor ''command'' (-1)) (command_entry sub)
       (listing (queue_dir (sub_service_id sub) (sub_mission_id sub)) fs)) (\<lambda>cs. Inr (es @ cs)))"

definition file_next :: "subscription \<Rightarrow> cursor \<Rightarrow> string list \<Rightarrow> files \<Rightarrow> candidate option result" where
  "file_next sub cursor processed fs =
     bindE (file_candidates sub cursor fs) (\<lambda>xs. Inr (find (eligible cursor processed) (sort_key candidate_key xs)))"

section \<open>Receiving\<close>

text \<open>
  The variables of the loop of \<open>receive\<close>, with the consumer, its files and what was written to them so
  far, in order: an interruption leaves a prefix of it.
\<close>

record loop_state =
  ls_cursor :: cursor
  ls_processed :: "string list"
  ls_attempts :: "(string \<times> int) list"
  ls_consumer :: consumer
  ls_own :: files
  ls_written :: "(path \<times> json) list"

datatype file_turn =
    FileIdle
  | FileFailed exn
  | FileDeliver delivery loop_state
  | FileGiveUp loop_state

definition file_chosen :: "files \<Rightarrow> loop_state \<Rightarrow> candidate option result" where
  "file_chosen fs l = (case co_active (ls_consumer l) of
     Some x \<Rightarrow> Inr (Some x)
   | None \<Rightarrow> file_next (co_subscription (ls_consumer l)) (ls_cursor l) (ls_processed l) fs)"

definition receive_file_turn :: "files \<Rightarrow> loop_state \<Rightarrow> file_turn" where
  "receive_file_turn fs l = (case file_chosen fs l of
     Inl e \<Rightarrow> FileFailed e
   | Inr None \<Rightarrow> FileIdle
   | Inr (Some (sequence, identity, message, source)) \<Rightarrow>
       let c = ls_consumer l;
           attempt = getd (ls_attempts l) identity 0 + 1;
           attempts = put identity attempt (ls_attempts l);
           first = [write_attempts attempts];
           own = write_all first (ls_own l)
       in if attempt > sub_max_retries (co_subscription c)
          then
            let dead = [dead_letter_file identity attempt message own];
                own1 = write_all dead own;
                processed = List.insert identity (ls_processed l);
                saved = save_ack sequence source processed own1;
                own2 = write_all saved own1
            in FileGiveUp \<lparr>ls_cursor = file_cursor own2, ls_processed = processed, ls_attempts = attempts,
                 ls_consumer = c\<lparr>co_active := None\<rparr>, ls_own = own2,
                 ls_written = ls_written l @ first @ dead @ saved\<rparr>
          else FileDeliver
            \<lparr>dl_consumer = co_id c, dl_message = message, dl_identity = identity, dl_sequence = sequence,
              dl_attempt = attempt, dl_done = False\<rparr>
            (l\<lparr>ls_attempts := attempts, ls_consumer := c\<lparr>co_active := Some (sequence, identity, message, source)\<rparr>,
               ls_own := own, ls_written := ls_written l @ first\<rparr>))"

text \<open>The identities of the messages in the files bound the number of messages given up.\<close>

definition all_entries :: "subscription \<Rightarrow> files \<Rightarrow> candidate list" where
  "all_entries sub fs =
     List.map_filter (\<lambda>(s, j). case event_entry j of Inr x \<Rightarrow> x | Inl e \<Rightarrow> None)
       (listing (stream_dir (sub_topic sub) (sub_mission_id sub)) fs) @
     List.map_filter (\<lambda>(s, j). case command_entry sub j of Inr x \<Rightarrow> x | Inl e \<Rightarrow> None)
       (listing (queue_dir (sub_service_id sub) (sub_mission_id sub)) fs)"

definition file_backlog :: "files \<Rightarrow> loop_state \<Rightarrow> nat" where
  "file_backlog fs l =
     length (filter (\<lambda>x. fst (snd x) \<notin> set (ls_processed l)) (all_entries (co_subscription (ls_consumer l)) fs)) +
     (if co_active (ls_consumer l) = None then 0 else 1)"

lemma mem_map_filter: "y \<in> set (List.map_filter f xs) \<longleftrightarrow> (\<exists>x \<in> set xs. f x = Some y)"
  by (force simp: List.map_filter_def)

lemma mem_entries_above:
  assumes "entries_above limit entry fs = Inr xs" and "x \<in> set xs"
  shows "\<exists>f \<in> set fs. entry (snd f) = Inr (Some x)"
proof -
  from assms(1) obtain ys where ys: "mapE (\<lambda>f. bindE (numbered_name f) (\<lambda>n. if n \<le> limit then Inr None else entry (snd f))) fs = Inr ys"
    "xs = List.map_filter id ys" by (auto simp: entries_above_def bindE_eq_Inr)
  from assms(2) ys(2) have "Some x \<in> set ys" by (auto simp: List.map_filter_def)
  from mapE_Inr_set [OF ys(1) this] show ?thesis by (auto simp: bindE_eq_Inr split: if_splits)
qed

lemma file_next_mem:
  assumes "file_next sub cursor processed fs = Inr (Some x)"
  shows "x \<in> set (all_entries sub fs)" and "eligible cursor processed x"
proof -
  from assms obtain xs where xs: "file_candidates sub cursor fs = Inr xs" "find (eligible cursor processed) (sort_key candidate_key xs) = Some x"
    by (auto simp: file_next_def bindE_eq_Inr)
  from find_mem [OF xs(2)] show "eligible cursor processed x" by simp
  from find_mem [OF xs(2)] have "x \<in> set xs" by simp
  with xs(1) consider f where "f \<in> set (listing (stream_dir (sub_topic sub) (sub_mission_id sub)) fs)" "event_entry (snd f) = Inr (Some x)"
    | f where "f \<in> set (listing (queue_dir (sub_service_id sub) (sub_mission_id sub)) fs)" "command_entry sub (snd f) = Inr (Some x)"
    by (auto simp: file_candidates_def bindE_eq_Inr dest!: mem_entries_above)
  then show "x \<in> set (all_entries sub fs)"
  proof cases
    case 1
    then show ?thesis unfolding all_entries_def set_append Un_iff mem_map_filter by (auto simp: case_prod_unfold intro!: disjI1 bexI [of _ f])
  next
    case 2
    then show ?thesis unfolding all_entries_def set_append Un_iff mem_map_filter by (auto simp: case_prod_unfold intro!: disjI2 bexI [of _ f])
  qed
qed

lemma filter_insert_less:
  assumes "x \<in> set xs" and "p x \<notin> set ps"
  shows "length (filter (\<lambda>y. p y \<notin> set (List.insert (p x) ps)) xs) < length (filter (\<lambda>y. p y \<notin> set ps) xs)"
proof -
  have "filter (\<lambda>y. p y \<notin> set (List.insert (p x) ps)) xs = filter (\<lambda>y. p y \<noteq> p x) (filter (\<lambda>y. p y \<notin> set ps) xs)"
    by (auto intro: filter_cong)
  moreover have "x \<in> set (filter (\<lambda>y. p y \<notin> set ps) xs)" using assms by simp
  ultimately show ?thesis by (metis (mono_tags, lifting) length_filter_less)
qed

lemma filter_insert_le:
  "length (filter (\<lambda>y. p y \<notin> set (List.insert i ps)) xs) \<le> length (filter (\<lambda>y. p y \<notin> set ps) xs)"
  by (induction xs) auto

lemma FileGiveUp_backlog:
  assumes "receive_file_turn fs l = FileGiveUp l'"
  shows "file_backlog fs l' < file_backlog fs l"
proof -
  from assms obtain x where x: "file_chosen fs l = Inr (Some x)"
    by (auto simp: receive_file_turn_def split: sum.splits option.splits)
  obtain n i m src where x4: "x = (n, i, m, src)" by (cases x)
  from assms x x4 have l': "ls_processed l' = List.insert i (ls_processed l)"
    "co_subscription (ls_consumer l') = co_subscription (ls_consumer l)" "co_active (ls_consumer l') = None"
    by (auto simp: receive_file_turn_def Let_def split: if_splits)
  show ?thesis
  proof (cases "co_active (ls_consumer l)")
    case None
    with x have nx: "file_next (co_subscription (ls_consumer l)) (ls_cursor l) (ls_processed l) fs = Inr (Some x)"
      by (simp add: file_chosen_def)
    have "x \<in> set (all_entries (co_subscription (ls_consumer l)) fs)" by (rule file_next_mem(1) [OF nx])
    moreover have "fst (snd x) \<notin> set (ls_processed l)" using file_next_mem(2) [OF nx] x4 by (simp add: eligible_def)
    ultimately show ?thesis
      using filter_insert_less [of x _ "\<lambda>y. fst (snd y)" "ls_processed l"] x4 None by (simp add: file_backlog_def l')
  next
    case (Some y)
    then show ?thesis
      unfolding file_backlog_def l' using filter_insert_le [of "\<lambda>y. fst (snd y)" i "ls_processed l"]
      by (auto intro: le_imp_less_Suc simp del: set_insert)
  qed
qed

function receive_file_loop :: "files \<Rightarrow> loop_state \<Rightarrow> delivery option result \<times> loop_state" where
  "receive_file_loop fs l = (case receive_file_turn fs l of
     FileIdle \<Rightarrow> (Inr None, l)
   | FileFailed e \<Rightarrow> (Inl e, l)
   | FileDeliver d l' \<Rightarrow> (Inr (Some d), l')
   | FileGiveUp l' \<Rightarrow> receive_file_loop fs l')"
  by auto
termination
  by (relation "measure (\<lambda>(fs, l). file_backlog fs l)") (simp_all add: FileGiveUp_backlog)

declare receive_file_loop.simps [simp del]

type_synonym file_session = "consumer \<times> files"

definition loop_start :: "file_session \<Rightarrow> loop_state" where
  "loop_start cs = \<lparr>ls_cursor = file_cursor (snd cs), ls_processed = file_processed (snd cs),
     ls_attempts = file_attempts (snd cs), ls_consumer = fst cs, ls_own = snd cs, ls_written = []\<rparr>"

definition file_receive :: "files \<Rightarrow> (delivery option, file_session) eff" where
  "file_receive fs cs =
     (if co_closed (fst cs) then (Inl (RuntimeError Closed), cs)
      else case receive_file_loop fs (loop_start cs) of (r, l) \<Rightarrow> (r, (ls_consumer l, ls_own l)))"

definition receive_writes :: "files \<Rightarrow> file_session \<Rightarrow> (path \<times> json) list" where
  "receive_writes fs cs = (if co_closed (fst cs) then [] else ls_written (snd (receive_file_loop fs (loop_start cs))))"

text \<open>\<open>ack\<close>: the writes, so that an interrupted acknowledgement can be described.\<close>

definition ack_source :: "delivery \<Rightarrow> consumer \<Rightarrow> string" where
  "ack_source d c = (case co_active c of
     Some (_, identity, _, source) \<Rightarrow> if identity = dl_identity d then source else ''event''
   | None \<Rightarrow> ''event'')"

definition ack_writes :: "delivery \<Rightarrow> file_session \<Rightarrow> (path \<times> json) list" where
  "ack_writes d cs = save_ack (dl_sequence d) (ack_source d (fst cs))
     (List.insert (dl_identity d) (file_processed (snd cs))) (snd cs)"

definition file_ack :: "delivery \<Rightarrow> (delivery, file_session) eff" where
  "file_ack d cs =
     (if dl_consumer d \<noteq> co_id (fst cs) then (Inl (ValueError Foreign), cs)
      else if dl_done d then (Inr d, cs)
      else (Inr (d\<lparr>dl_done := True\<rparr>),
        ((case co_active (fst cs) of
            Some (_, identity, _, _) \<Rightarrow> if identity = dl_identity d then (fst cs)\<lparr>co_active := None\<rparr> else fst cs
          | None \<Rightarrow> fst cs),
         write_all (ack_writes d cs) (snd cs))))"

definition file_nack :: "delivery \<Rightarrow> (unit, file_session) eff" where
  "file_nack d cs = (if dl_consumer d \<noteq> co_id (fst cs) then (Inl (ValueError Foreign), cs) else (Inr (), cs))"

section \<open>Opening and closing\<close>

text \<open>The transport knows its subscriptions and the state directories whose lock is held.\<close>

record file_adapter =
  fa_subscriptions :: "subscription list"
  fa_max_retries :: int
  fa_locked :: "path list"

definition file_transport_new :: "subscription list \<Rightarrow> pyval \<Rightarrow> file_adapter result" where
  "file_transport_new subscriptions max_retries = (case max_retries of
     PInt n \<Rightarrow> if n < 1 then Inl (ValueError NotPositiveInt)
       else Inr \<lparr>fa_subscriptions = subscriptions, fa_max_retries = n, fa_locked = []\<rparr>
   | _ \<Rightarrow> Inl (ValueError NotPositiveInt))"

definition state_dir :: "subscription \<Rightarrow> path" where
  "state_dir sub = path_of [''subscriptions'', quote (sub_service_id sub), quote (sub_mission_id sub), quote (sub_topic sub)]"

definition file_open :: "nat \<Rightarrow> subscription \<Rightarrow> (consumer, file_adapter) eff" where
  "file_open new_id sub fa =
     (if sub \<notin> set (fa_subscriptions fa) then (Inl (ValueError Undeclared), fa)
      else if state_dir sub \<in> set (fa_locked fa) then (Inl (RuntimeError AlreadyActive), fa)
      else (Inr \<lparr>co_id = new_id, co_subscription = sub, co_closed = False, co_active = None\<rparr>,
            fa\<lparr>fa_locked := state_dir sub # fa_locked fa\<rparr>))"

definition file_close :: "(unit, consumer \<times> file_adapter) eff" where
  "file_close cf = (if co_closed (fst cf) then (Inr (), cf)
     else (Inr (), ((fst cf)\<lparr>co_closed := True\<rparr>,
       (snd cf)\<lparr>fa_locked := removeAll (state_dir (co_subscription (fst cf))) (fa_locked (snd cf))\<rparr>)))"

definition file_dead_letters :: "files \<Rightarrow> json list" where
  "file_dead_letters own = filter (\<lambda>j. case j of JObj o' \<Rightarrow> True | _ \<Rightarrow> False)
     (map snd (sort_key fst (listing [''dead-letter''] own)))"

end
