(* ===== verification/File_Refinement.thy ===== *)
theory File_Refinement
  imports File_Transport
begin

text \<open>
  The file transport refines the in-process transport: on names that are plain directory names, sequences
  of at most twenty digits and contents that Python does not confuse, every call has the same
  answer on both.
\<close>

section \<open>Paths\<close>

lemma path_simps:
  "event_path i = [''identity'', ''event-'' @ quote i @ ''.json'']"
  "command_path i = [''identity'', ''command-'' @ quote i @ ''.json'']"
  "outcome_path i = [''identity'', ''outcome-'' @ quote i @ ''.json'']"
  "receipt_path i = [''receipts'', quote i @ ''.json'']"
  by (auto simp: event_path_def command_path_def outcome_path_def receipt_path_def path_of_def
      append_eq_Cons_conv)

lemma dir_simps:
  "plain t \<Longrightarrow> plain m \<Longrightarrow> stream_dir t m = [''topics'', quote t, ''missions'', quote m]"
  "plain t \<Longrightarrow> plain m \<Longrightarrow> queue_dir t m = [''commands'', quote t, quote m]"
  by (simp_all add: stream_dir_def queue_dir_def path_of_def plain_def quote_dots)

lemma file_path_inject [simp]:
  "event_path i = event_path j \<longleftrightarrow> i = j" "command_path i = command_path j \<longleftrightarrow> i = j"
  "outcome_path i = outcome_path j \<longleftrightarrow> i = j" "receipt_path i = receipt_path j \<longleftrightarrow> i = j"
  by (simp_all add: path_simps quote_inject)

lemma path_distinct [simp]:
  "event_path i \<noteq> command_path j" "event_path i \<noteq> outcome_path j" "event_path i \<noteq> receipt_path j"
  "command_path i \<noteq> event_path j" "command_path i \<noteq> outcome_path j" "command_path i \<noteq> receipt_path j"
  "outcome_path i \<noteq> event_path j" "outcome_path i \<noteq> command_path j" "outcome_path i \<noteq> receipt_path j"
  "receipt_path i \<noteq> event_path j" "receipt_path i \<noteq> command_path j" "receipt_path i \<noteq> outcome_path j"
  by (simp_all add: path_simps)

section \<open>What the files of a state are\<close>

fun entry_file :: "int \<Rightarrow> message \<Rightarrow> string" where
  "entry_file n (MCommand c) = command_file n c"
| "entry_file n (MOutcome r) = outcome_file n r"
| "entry_file n (MEvent e) = event_file e"

text \<open>The command kind that a stored outcome repeats.\<close>

definition stored_kind :: "transport_state \<Rightarrow> string \<Rightarrow> json" where
  "stored_kind s i = (case map_of (ts_identities s) (command_identity i) of
     Some (JObj o') \<Rightarrow> getd o' ''command_kind'' (JStr ''outcomes'') | _ \<Rightarrow> JStr ''outcomes'')"

fun entry_content :: "transport_state \<Rightarrow> int \<Rightarrow> message \<Rightarrow> json" where
  "entry_content s n (MCommand c) = queued_command n c"
| "entry_content s n (MOutcome r) = queued_outcome n (stored_kind s (oc_command_id r)) r"
| "entry_content s n (MEvent e) = JNull"

definition identity_files :: "transport_state \<Rightarrow> (path \<times> json) set" where
  "identity_files s =
     {(event_path i, j) | i j. map_of (ts_identities s) (event_identity i) = Some j} \<union>
     {(command_path i, j) | i j. map_of (ts_identities s) (command_identity i) = Some j} \<union>
     {(outcome_path i, j) | i j. map_of (ts_identities s) (outcome_identity i) = Some j} \<union>
     {(receipt_path i, command_receipt_json r) | i r. map_of (ts_receipts s) i = Some r}"

definition stream_files :: "transport_state \<Rightarrow> (path \<times> json) set" where
  "stream_files s = {(stream_dir t m @ [event_file e], transport_event_json e) | t m e. e \<in> set (stream_of s t m)}"

definition queue_files :: "transport_state \<Rightarrow> (path \<times> json) set" where
  "queue_files s = {(queue_dir t m @ [entry_file n x], entry_content s n x) | t m n x. (n, x) \<in> set (queue_of s t m)}"

definition file_set :: "transport_state \<Rightarrow> (path \<times> json) set" where
  "file_set s = identity_files s \<union> stream_files s \<union> queue_files s"

definition plain_state :: "transport_state \<Rightarrow> bool" where
  "plain_state s \<longleftrightarrow>
     (\<forall>t m. stream_of s t m \<noteq> [] \<longrightarrow> plain t \<and> plain m) \<and>
     (\<forall>t m. queue_of s t m \<noteq> [] \<longrightarrow> plain t \<and> plain m) \<and>
     (\<forall>t m. \<forall>e \<in> set (stream_of s t m). te_sequence e < 10 ^ 20) \<and>
     (\<forall>t m n r. (n, MOutcome r) \<in> set (queue_of s t m) \<longrightarrow>
        map_of (ts_identities s) (command_identity (oc_command_id r)) \<noteq> None) \<and>
     (\<forall>i r. map_of (ts_outcomes s) i = Some r \<longrightarrow> command_outcome_wf r)"

text \<open>The files \<open>fs\<close> hold the state \<open>s\<close>.\<close>

definition stores :: "files \<Rightarrow> transport_state \<Rightarrow> bool" where
  "stores fs s \<longleftrightarrow> distinct (map fst fs) \<and> set fs = file_set s \<and> log_inv s \<and> plain_state s"

lemma stores_initial: "stores [] initial_state"
  by (auto simp: stores_def file_set_def identity_files_def stream_files_def queue_files_def plain_state_def
      stream_of_def queue_of_def initial_state_def log_inv_initial [unfolded initial_state_def])

lemma plain_event: "plain_state s \<Longrightarrow> e \<in> set (stream_of s t m) \<Longrightarrow> plain t \<and> plain m \<and> te_sequence e < 10 ^ 20"
  unfolding plain_state_def by (metis empty_iff empty_set)

lemma plain_entry: "plain_state s \<Longrightarrow> x \<in> set (queue_of s t m) \<Longrightarrow> plain t \<and> plain m"
  unfolding plain_state_def by (metis empty_iff empty_set)

text \<open>The directories tell the files apart.\<close>

lemma file_hd:
  assumes "plain_state s"
  shows "(p, j) \<in> stream_files s \<Longrightarrow> hd p = ''topics''"
    and "(p, j) \<in> queue_files s \<Longrightarrow> hd p = ''commands''"
  using plain_event [OF assms] plain_entry [OF assms]
  by (auto simp: stream_files_def queue_files_def dir_simps)

lemma path_hd [simp]:
  "hd (event_path i) = ''identity''" "hd (command_path i) = ''identity''" "hd (outcome_path i) = ''identity''"
  "hd (receipt_path i) = ''receipts''"
  by (simp_all add: path_simps)

lemma identity_hd: "(p, j) \<in> identity_files s \<Longrightarrow> hd p = ''identity'' \<or> hd p = ''receipts''"
  by (auto simp: identity_files_def)

lemma dir_hd [simp]:
  "plain t \<Longrightarrow> plain m \<Longrightarrow> hd (stream_dir t m @ [x]) = ''topics''"
  "plain t \<Longrightarrow> plain m \<Longrightarrow> hd (queue_dir t m @ [x]) = ''commands''"
  by (simp_all add: dir_simps)

lemma dir_inject:
  "plain t \<Longrightarrow> plain m \<Longrightarrow> plain t' \<Longrightarrow> plain m' \<Longrightarrow>
     stream_dir t m = stream_dir t' m' \<longleftrightarrow> t = t' \<and> m = m'"
  "plain t \<Longrightarrow> plain m \<Longrightarrow> plain t' \<Longrightarrow> plain m' \<Longrightarrow>
     queue_dir t m = queue_dir t' m' \<longleftrightarrow> t = t' \<and> m = m'"
  "plain t \<Longrightarrow> plain m \<Longrightarrow> plain t' \<Longrightarrow> plain m' \<Longrightarrow> stream_dir t m \<noteq> queue_dir t' m'"
  by (auto simp: dir_simps quote_inject)

section \<open>Reading the files of a state\<close>

lemma stored_file: "stores fs s \<Longrightarrow> map_of fs p = Some j \<longleftrightarrow> (p, j) \<in> file_set s"
  by (simp add: stores_def)

lemma stored_identities:
  assumes "stores fs s"
  shows "map_of fs (event_path i) = map_of (ts_identities s) (event_identity i)"
    and "map_of fs (command_path i) = map_of (ts_identities s) (command_identity i)"
    and "map_of fs (outcome_path i) = map_of (ts_identities s) (outcome_identity i)"
    and "map_of fs (receipt_path i) = map_option command_receipt_json (map_of (ts_receipts s) i)"
proof -
  have pl: "plain_state s" using assms by (simp add: stores_def)
  have out: "(p, j) \<notin> stream_files s" "(p, j) \<notin> queue_files s"
    if "hd p = ''identity'' \<or> hd p = ''receipts''" for p j
    using that file_hd [OF pl] by fastforce+
  have eq: "map_of fs p = x" if "\<And>j. (p, j) \<in> file_set s \<longleftrightarrow> x = Some j" for p x
    using that stored_file [OF assms] by (metis option.exhaust)
  show "map_of fs (event_path i) = map_of (ts_identities s) (event_identity i)"
    "map_of fs (command_path i) = map_of (ts_identities s) (command_identity i)"
    "map_of fs (outcome_path i) = map_of (ts_identities s) (outcome_identity i)"
    "map_of fs (receipt_path i) = map_option command_receipt_json (map_of (ts_receipts s) i)"
    using out by (intro eq; auto simp: file_set_def identity_files_def)+
qed

text \<open>Directory listings.\<close>

lemma listing_iff: "(n, j) \<in> set (listing dir fs) \<longleftrightarrow> (dir @ [n], j) \<in> set fs \<and> json_name n"
proof -
  have "p \<noteq> [] \<and> butlast p = dir \<and> n = last p \<longleftrightarrow> p = dir @ [n]" for p :: path
    by (metis append_butlast_last_id butlast_snoc last_snoc snoc_eq_iff_butlast)
  moreover have "(n, j) \<in> set (listing dir fs) \<longleftrightarrow>
      (\<exists>p. (p, j) \<in> set fs \<and> (p \<noteq> [] \<and> butlast p = dir \<and> n = last p) \<and> json_name n)"
    unfolding listing_def by auto
  ultimately show ?thesis by simp
qed

lemma distinct_listing:
  assumes "distinct (map fst fs)"
  shows "distinct (map fst (listing dir fs))"
proof -
  let ?P = "\<lambda>(p, j). p \<noteq> [] \<and> butlast p = dir \<and> json_name (last p)"
  have inj: "inj_on last {p. p \<noteq> [] \<and> butlast p = dir}"
  proof (rule inj_onI)
    fix p q :: path assume "p \<in> {p. p \<noteq> [] \<and> butlast p = dir}" "q \<in> {p. p \<noteq> [] \<and> butlast p = dir}" "last p = last q"
    then show "p = q" by (metis (mono_tags, lifting) append_butlast_last_id mem_Collect_eq)
  qed
  have "map fst (listing dir fs) = map last (map fst (filter ?P fs))"
    by (simp add: listing_def case_prod_unfold comp_def)
  moreover have "distinct (map fst (filter ?P fs))" using assms by (rule distinct_map_filter)
  moreover have sub: "set (map fst (filter ?P fs)) \<subseteq> {p. p \<noteq> [] \<and> butlast p = dir}" by auto
  moreover have "inj_on last (set (map fst (filter ?P fs)))" by (rule inj_on_subset [OF inj sub])
  ultimately show ?thesis by (simp only: distinct_map)
qed

lemma json_name_append: "json_name (s @ ''.json'')"
  by (simp add: json_name_def)

lemma json_names [simp]: "json_name (event_file e)" "json_name (command_file n c)" "json_name (outcome_file n r)"
  using json_name_append [of "padded (te_sequence e) @ ''-'' @ quote (te_event_id e)"]
    json_name_append [of "padded n @ ''-'' @ quote (cmd_command_id c)"]
    json_name_append [of "padded n @ ''-'' @ quote (oc_command_id r) @ ''-outcome''"]
  by (simp_all add: event_file_def command_file_def outcome_file_def)

lemma stream_listing:
  assumes "stores fs s" and "plain t" and "plain m"
  shows "(n, j) \<in> set (listing (stream_dir t m) fs) \<longleftrightarrow>
    (\<exists>e \<in> set (stream_of s t m). n = event_file e \<and> j = transport_event_json e)"
proof -
  have pl: "plain_state s" and set: "set fs = file_set s" using assms(1) by (simp_all add: stores_def)
  have "(stream_dir t m @ [n], j) \<in> file_set s \<longleftrightarrow> (stream_dir t m @ [n], j) \<in> stream_files s"
    using file_hd(2) [OF pl, of "stream_dir t m @ [n]" j] identity_hd [of "stream_dir t m @ [n]" j s] assms(2,3)
    by (auto simp: file_set_def)
  also have "\<dots> \<longleftrightarrow> (\<exists>e \<in> set (stream_of s t m). n = event_file e \<and> j = transport_event_json e)"
    using plain_event [OF pl] dir_inject(1) [OF assms(2,3)] unfolding stream_files_def mem_Collect_eq by (simp; metis)
  finally show ?thesis using set by (auto simp: listing_iff)
qed

lemma queue_entry_kind:
  assumes "log_inv s" and "(n, x) \<in> set (queue_of s t m)"
  shows "entry_inv s t m x" and "0 \<le> n"
proof -
  have inv: "commands_inv s" using assms(1) by (rule log_inv_commands)
  have "x \<in> set (entries s t m)" using assms(2) by (force simp: entries_def)
  with inv show "entry_inv s t m x" by (simp add: commands_inv_def)
  have "n \<in> set (map fst (queue_of s t m))" using assms(2) by force
  with inv show "0 \<le> n" by (auto simp: commands_inv_def numbered_def simp del: list.set_map)
qed

lemma queue_listing:
  assumes "stores fs s" and "plain t" and "plain m"
  shows "(n, j) \<in> set (listing (queue_dir t m) fs) \<longleftrightarrow>
    (\<exists>(k, x) \<in> set (queue_of s t m). n = entry_file k x \<and> j = entry_content s k x)"
proof -
  have pl: "plain_state s" and set: "set fs = file_set s" and inv: "log_inv s"
    using assms(1) by (simp_all add: stores_def)
  have name: "json_name (entry_file k x)" if "(k, x) \<in> set (queue_of s t m)" for k x
    using queue_entry_kind [OF inv that] by (cases x) simp_all
  have "(queue_dir t m @ [n], j) \<in> file_set s \<longleftrightarrow> (queue_dir t m @ [n], j) \<in> queue_files s"
    using file_hd(1) [OF pl, of "queue_dir t m @ [n]" j] identity_hd [of "queue_dir t m @ [n]" j s] assms(2,3)
    by (auto simp: file_set_def)
  also have "\<dots> \<longleftrightarrow> (\<exists>(k, x) \<in> set (queue_of s t m). n = entry_file k x \<and> j = entry_content s k x)"
    using plain_entry [OF pl] dir_inject(2) [OF assms(2,3)] unfolding queue_files_def mem_Collect_eq
    by (simp add: case_prod_unfold Bex_def; metis)
  finally show ?thesis using set name by (auto simp: listing_iff)
qed

text \<open>The numbers of a stream and of a queue.\<close>

lemma event_file_number: "0 \<le> te_sequence e \<Longrightarrow> file_number (event_file e) = Some (te_sequence e)"
  using file_number_padded [of "te_sequence e"] by (simp add: event_file_def)

lemma entry_file_number: "0 \<le> n \<Longrightarrow> entry_inv s t m x \<Longrightarrow> file_number (entry_file n x) = Some n"
  using file_number_padded [of n] by (cases x) (simp_all add: command_file_def outcome_file_def)

lemma max_default_cong: "set xs = set ys \<Longrightarrow> max_default d xs = max_default d ys"
  by (cases xs; cases ys) (auto simp: max_default_def)

lemma stream_event_wf: "stores fs s \<Longrightarrow> e \<in> set (stream_of s t m) \<Longrightarrow> transport_event_wf e"
  by (rule stream_of_event(1)) (simp_all add: stores_def log_inv_def transport_inv_def)

lemma set_map_filter_eq: "set (List.map_filter (\<lambda>(n, j). f n) xs) = {y. \<exists>n j. (n, j) \<in> set xs \<and> f n = Some y}"
  by (force simp: List.map_filter_def)

lemma next_number_stream:
  assumes "stores fs s" and "plain t" and "plain m"
  shows "next_number (stream_dir t m) fs = max_default (-1) (map te_sequence (stream_of s t m)) + 1"
proof -
  have "file_number (event_file e) = Some (te_sequence e)" if "e \<in> set (stream_of s t m)" for e
    using stream_event_wf [OF assms(1) that] by (simp add: event_file_number transport_event_wf_def)
  then have "set (List.map_filter (\<lambda>(n, j). file_number n) (listing (stream_dir t m) fs)) =
      set (map te_sequence (stream_of s t m))"
    unfolding set_map_filter_eq stream_listing [OF assms] by auto
  from max_default_cong [OF this, of "-1"] show ?thesis unfolding next_number_def by simp
qed

lemma next_number_queue:
  assumes "stores fs s" and "plain t" and "plain m"
  shows "next_number (queue_dir t m) fs = int (length (queue_of s t m))"
proof -
  have inv: "log_inv s" using assms(1) by (simp add: stores_def)
  let ?q = "queue_of s t m"
  have "file_number (entry_file k x) = Some k" if "(k, x) \<in> set ?q" for k x
    using queue_entry_kind [OF inv that] by (simp add: entry_file_number)
  then have "set (List.map_filter (\<lambda>(n, j). file_number n) (listing (queue_dir t m) fs)) = set (map fst ?q)"
    unfolding set_map_filter_eq queue_listing [OF assms] by force
  from max_default_cong [OF this, of "-1"]
  have "next_number (queue_dir t m) fs = max_default (-1) (map fst ?q) + 1" unfolding next_number_def by simp
  moreover have "map fst ?q = map int [0..<length ?q]"
    using log_inv_commands [OF inv] by (simp add: commands_inv_def numbered_def)
  moreover have "max_default (-1) (map int [0..<n]) = int n - 1" for n
    by (cases n) (auto simp: max_default_def intro!: Max_eqI)
  ultimately show ?thesis by simp
qed

end
