(* ===== verification/File_Calls.thy ===== *)
theory File_Calls
  imports File_Refinement
begin

text \<open>
  The calls of a transport, on files and in process, and the refinement: corresponding calls give
  corresponding answers and lead to corresponding states. Contents that differ but that Python's \<open>==\<close>
  cannot tell apart (\<open>1\<close>, \<open>1.0\<close> and \<open>True\<close>) are excluded; the last theorem shows the difference.
\<close>

section \<open>Writing\<close>

lemma write_all_simps [simp]:
  "write_all [] fs = fs" "write_all ((p, j) # ws) fs = write_all ws (put p j fs)"
  by (simp_all add: write_all_def)

lemma write_new:
  "distinct (map fst ws) \<Longrightarrow> fst ` set ws \<inter> fst ` set fs = {} \<Longrightarrow> write_all ws fs = fs @ ws"
proof (induction ws arbitrary: fs)
  case (Cons w ws)
  obtain p j where w: "w = (p, j)" by (cases w)
  from Cons.prems w have "p \<notin> fst ` set fs" by auto
  moreover from Cons.prems w have "write_all ws (fs @ [(p, j)]) = (fs @ [(p, j)]) @ ws"
    by (intro Cons.IH) auto
  ultimately show ?case by (simp add: w put_new)
qed simp

lemma stores_write:
  assumes "stores fs s" and "distinct (map fst ws)" and "\<And>p. p \<in> fst ` set ws \<Longrightarrow> map_of fs p = None"
    and "file_set s' = file_set s \<union> set ws" and "log_inv s'" and "plain_state s'"
  shows "stores (write_all ws fs) s'"
proof -
  have "fst ` set ws \<inter> fst ` set fs = {}" using assms(3) by (auto simp: map_of_eq_None_iff)
  with assms show ?thesis by (auto simp: stores_def write_new)
qed

lemma read_json_object: "(\<And>j. map_of fs p = Some j \<Longrightarrow> j \<noteq> JNull) \<Longrightarrow> read_json p fs = map_of fs p"
  by (cases "map_of fs p") (auto simp: read_json_def split: json.split)

lemma dir_distinct:
  "plain t \<Longrightarrow> plain m \<Longrightarrow> stream_dir t m @ [x] \<noteq> event_path i"
  "plain t \<Longrightarrow> plain m \<Longrightarrow> queue_dir t m @ [x] \<noteq> command_path i"
  "plain t \<Longrightarrow> plain m \<Longrightarrow> queue_dir t m @ [x] \<noteq> outcome_path i"
  "plain t \<Longrightarrow> plain m \<Longrightarrow> queue_dir t m @ [x] \<noteq> receipt_path i"
  by (simp_all add: dir_simps path_simps)

section \<open>Events\<close>

lemma event_json_object: "transport_event_json e = JObj (canonical_obj [
     (''schema_version'', JInt (te_schema_version e)), (''event_id'', JStr (te_event_id e)),
     (''mission_id'', JStr (te_mission_id e)), (''sequence'', JInt (te_sequence e)),
     (''event_kind'', JStr (te_event_kind e)), (''payload'', JObj (te_payload e))])"
  by (simp add: transport_event_json_def transport_event_to_dict_def)

lemma wf_event_dict: "transport_event_wf e \<Longrightarrow> wf_json (transport_event_to_dict e)"
  by (simp add: transport_event_to_dict_def transport_event_wf_def wf_obj_def)

lemma json_eq_field:
  assumes "json_eq (JObj xs) (JObj ys)" and "map_of xs k = Some (JStr v)"
  shows "map_of ys k = Some (JStr v)"
proof -
  from assms(2) have "(k, JStr v) \<in> set xs" by (rule map_of_SomeD)
  with assms(1) have "\<exists>y. map_of ys k = Some y \<and> json_eq (JStr v) y" by (force simp: json_eq_items_iff)
  then show ?thesis by auto
qed

lemma event_lookalike_id:
  assumes "json_eq (transport_event_json x) (transport_event_to_dict e)"
  shows "te_event_id x = te_event_id e"
proof -
  have "map_of (canonical_obj [(''schema_version'', JInt (te_schema_version x)), (''event_id'', JStr (te_event_id x)),
     (''mission_id'', JStr (te_mission_id x)), (''sequence'', JInt (te_sequence x)),
     (''event_kind'', JStr (te_event_kind x)), (''payload'', JObj (te_payload x))]) ''event_id'' = Some (JStr (te_event_id x))"
    by (simp add: map_of_canonical_obj)
  from json_eq_field [OF _ this] assms show ?thesis
    unfolding event_json_object transport_event_to_dict_def by fastforce
qed

lemma same_content: "wf_json d \<Longrightarrow> json_eq (canonical d) d"
  by (rule json_eq_sym) (simp_all add: json_eq_canonical)

lemma sequence_taken_event:
  assumes "0 \<le> n" and "transport_event_wf x"
  shows "sequence_taken n (event_file x, transport_event_json x) \<longleftrightarrow> te_sequence x = n"
proof -
  have "0 \<le> te_sequence x" using assms(2) by (simp add: transport_event_wf_def)
  then have "take (length (padded n) + 1) (event_file x) = padded n @ ''-'' \<longleftrightarrow> n = te_sequence x"
    using padded_prefix [OF assms(1), of "te_sequence x"] by (simp add: event_file_def)
  moreover have "getd (canonical_obj [(''schema_version'', JInt (te_schema_version x)), (''event_id'', JStr (te_event_id x)),
     (''mission_id'', JStr (te_mission_id x)), (''sequence'', JInt (te_sequence x)),
     (''event_kind'', JStr (te_event_kind x)), (''payload'', JObj (te_payload x))]) ''sequence'' JNull = JInt (te_sequence x)"
    by (simp add: getd_def map_of_canonical_obj)
  ultimately show ?thesis unfolding sequence_taken_def event_json_object by auto
qed

text \<open>Contents that Python's equality identifies are the same canonical text.\<close>

definition no_lookalike :: "path \<Rightarrow> json \<Rightarrow> files \<Rightarrow> bool" where
  "no_lookalike p d fs \<longleftrightarrow>
     (case map_of fs p of None \<Rightarrow> True | Some j \<Rightarrow> json_eq j d \<longrightarrow> j = canonical d)"

lemma stored_event_json:
  assumes "stores fs s" and "map_of (ts_identities s) (event_identity i) = Some j"
  shows "\<exists>t m x. x \<in> set (stream_of s t m) \<and> te_event_id x = i \<and> j = transport_event_json x"
proof -
  have inv: "events_inv s" using assms(1) by (simp add: stores_def log_inv_def transport_inv_def)
  from assms(2) have "event_used s i" by (simp add: event_used_def)
  from event_used_stream [OF inv this] obtain t m x where "x \<in> set (stream_of s t m)" "te_event_id x = i" by blast
  with stream_of_event(4) [OF inv this(1)] assms(2) show ?thesis by auto
qed

lemma queues_appended [simp]: "queue_of (appended t e s) = queue_of s"
    "map_of (ts_identities (appended t e s)) (command_identity i) = map_of (ts_identities s) (command_identity i)"
    "stored_kind (appended t e s) = stored_kind s"
  by (simp_all add: queue_of_def appended_def stored_kind_def fun_eq_iff)

lemma mem_stream_appended: "x \<in> set (stream_of (appended t e s) t' m') \<longleftrightarrow>
    t' = t \<and> m' = te_mission_id e \<and> x = e \<or> x \<in> set (stream_of s t' m')"
  by (auto simp: stream_of_appended)

lemma file_set_appended:
  assumes "\<not> event_used s (te_event_id e)"
  shows "file_set (appended t e s) = file_set s \<union>
    {(stream_dir t (te_mission_id e) @ [event_file e], transport_event_json e), (event_path (te_event_id e), transport_event_json e)}"
proof -
  have "map_of (ts_identities s) (event_identity (te_event_id e)) = None" using assms by (simp add: event_used_def)
  then have "identity_files (appended t e s) = insert (event_path (te_event_id e), transport_event_json e) (identity_files s)"
    by (auto simp: identity_files_def appended_def split: if_splits)
  moreover have "stream_files (appended t e s) =
      insert (stream_dir t (te_mission_id e) @ [event_file e], transport_event_json e) (stream_files s)"
    unfolding stream_files_def mem_stream_appended by auto
  moreover have "queue_files (appended t e s) = queue_files s"
  proof -
    have "entry_content (appended t e s) n x = entry_content s n x" for n x by (cases x) simp_all
    then show ?thesis by (simp add: queue_files_def)
  qed
  ultimately show ?thesis unfolding file_set_def by auto
qed

lemma plain_state_appended:
  assumes "plain_state s" and "plain t" and "plain (te_mission_id e)" and "te_sequence e < 10 ^ 20"
  shows "plain_state (appended t e s)"
proof -
  have "ts_outcomes (appended t e s) = ts_outcomes s" by (simp add: appended_def)
  with assms show ?thesis unfolding plain_state_def queues_appended stream_of_appended by (auto split: if_splits)
qed

lemma publish_refines:
  assumes st: "stores fs s" and t: "plain t" "plain (te_mission_id e)" and wf: "transport_event_wf e"
    and seq: "te_sequence e < 10 ^ 20" and nl: "no_lookalike (event_path (te_event_id e)) (transport_event_to_dict e) fs"
  shows "fst (publish_event t e s) = fst (file_publish t e fs) \<and>
    stores (write_all (snd (file_publish t e fs)) fs) (snd (publish_event t e s))"
proof (cases "nonblank t")
  case False
  with st show ?thesis by (simp add: publish_event_def file_publish_def)
next
  case nb: True
  let ?p = "event_path (te_event_id e)"
  have inv: "events_inv s" "log_inv s" "plain_state s" using st by (simp_all add: stores_def log_inv_def transport_inv_def)
  note cases = publish_event_cases [OF inv(1) nb wf]
  note id = stored_identities(1) [OF st, of "te_event_id e"]
  have rd: "read_json ?p fs = map_of (ts_identities s) (event_identity (te_event_id e))"
    using stored_event_json [OF st] by (subst read_json_object) (auto simp: id event_json_object)
  show ?thesis
  proof (cases "map_of (ts_identities s) (event_identity (te_event_id e))")
    case (Some j)
    have "json_eq j (transport_event_to_dict e) \<longleftrightarrow> j = transport_event_json e"
      using nl Some same_content [OF wf_event_dict [OF wf]] by (auto simp: no_lookalike_def id transport_event_json_def)
    with Some rd nb st cases show ?thesis by (simp add: file_publish_def event_used_def)
  next
    case None
    then have new: "\<not> event_used s (te_event_id e)" by (simp add: event_used_def)
    let ?l = "listing (stream_dir t (te_mission_id e)) fs" and ?n = "te_sequence e"
    have n: "0 \<le> ?n" using wf by (simp add: transport_event_wf_def)
    have taken: "sequence_taken ?n f \<longleftrightarrow> (\<exists>x \<in> set (stream_of s t (te_mission_id e)).
        f = (event_file x, transport_event_json x) \<and> te_sequence x = ?n)" if fl: "f \<in> set ?l" for f
    proof -
      obtain y where y: "y \<in> set (stream_of s t (te_mission_id e))" "f = (event_file y, transport_event_json y)"
        using fl stream_listing [OF st t, of "fst f" "snd f"] by (metis prod.collapse)
      with sequence_taken_event [OF n stream_event_wf [OF st y(1)]] have "sequence_taken ?n f \<longleftrightarrow> te_sequence y = ?n" by simp
      with y sequence_taken_event [OF n stream_event_wf [OF st]] show ?thesis by blast
    qed
    show ?thesis
    proof (cases "find (sequence_taken ?n) ?l")
      case None
      then have free: "?n \<notin> te_sequence ` set (stream_of s t (te_mission_id e))"
      proof (intro notI, elim imageE)
        fix x assume x: "?n = te_sequence x" "x \<in> set (stream_of s t (te_mission_id e))"
        then have "(event_file x, transport_event_json x) \<in> set ?l" using stream_listing [OF st t] by blast
        with taken [OF this] x None show False unfolding find_None_iff by metis
      qed
      let ?ws = "[(stream_dir t (te_mission_id e) @ [event_file e], transport_event_json e), (?p, transport_event_json e)]"
      have run: "publish_event t e s = (Inr e, appended t e s)" "file_publish t e fs = (Inr e, ?ws)"
        using cases new free \<open>map_of (ts_identities s) _ = None\<close> rd nb None
        by (simp_all add: file_publish_def)
      have "map_of fs (stream_dir t (te_mission_id e) @ [event_file e]) = None"
      proof (rule ccontr)
        assume "map_of fs (stream_dir t (te_mission_id e) @ [event_file e]) \<noteq> None"
        then obtain j where "(stream_dir t (te_mission_id e) @ [event_file e], j) \<in> set fs" by (auto dest: map_of_SomeD)
        then have "(event_file e, j) \<in> set ?l" by (simp add: listing_iff)
        with stream_listing [OF st t] obtain x where "x \<in> set (stream_of s t (te_mission_id e))" "event_file e = event_file x" by blast
        moreover have "te_sequence e = te_sequence x"
          using calculation stream_event_wf [OF st] n event_file_number [of e] event_file_number [of x]
          by (simp add: transport_event_wf_def)
        ultimately show False using free by auto
      qed
      moreover have "stream_dir t (te_mission_id e) @ [event_file e] \<noteq> ?p"
        by (rule dir_distinct(1) [OF t])
      moreover have "plain_state (appended t e s)" using inv(3) t seq by (rule plain_state_appended)
      moreover have "log_inv (appended t e s)"
        using log_inv_publish_event [OF inv(2) wf, of t] run by simp
      ultimately show ?thesis
        unfolding run fst_conv snd_conv using id None st
        by (intro conjI refl stores_write [OF st])
          (auto simp: \<open>map_of (ts_identities s) _ = None\<close> file_set_appended [OF new])
    next
      case (Some f)
      then have f: "f \<in> set ?l" "sequence_taken ?n f" by (auto dest: find_mem)
      with taken obtain x where x: "x \<in> set (stream_of s t (te_mission_id e))" "f = (event_file x, transport_event_json x)"
        "te_sequence x = ?n" by blast
      have "te_event_id x \<noteq> te_event_id e" using stream_of_event(3) [OF inv(1) x(1)] new by auto
      then have "\<not> json_eq (snd f) (transport_event_to_dict e)" using event_lookalike_id x(2) by auto
      moreover have "?n \<in> te_sequence ` set (stream_of s t (te_mission_id e))" using x(1,3) by (metis imageI)
      ultimately show ?thesis
        using cases new \<open>map_of (ts_identities s) _ = None\<close> rd nb Some st by (simp add: file_publish_def)
    qed
  qed
qed

section \<open>Commands\<close>

lemma wf_command_dict: "command_wf c \<Longrightarrow> wf_json (command_to_dict c)"
  by (simp add: command_to_dict_def command_wf_def wf_obj_def)

lemma command_json_object: "command_json c = JObj (canonical_obj [(''schema_version'', JInt (cmd_schema_version c)),
     (''command_id'', JStr (cmd_command_id c)), (''correlation_id'', JStr (cmd_correlation_id c)),
     (''mission_id'', JStr (cmd_mission_id c)), (''target_service'', JStr (cmd_target_service c)),
     (''command_kind'', JStr (cmd_command_kind c)), (''payload'', JObj (cmd_payload c))])"
  by (simp add: command_json_def command_to_dict_def)

lemma mem_queue_enqueued: "(n, x) \<in> set (queue_of (enqueued t m y s) t' m') \<longleftrightarrow>
    t' = t \<and> m' = m \<and> n = int (length (queue_of s t m)) \<and> x = y \<or> (n, x) \<in> set (queue_of s t' m')"
  by auto

lemma entry_content_cong:
  assumes "\<And>r. x = MOutcome r \<Longrightarrow> map_of (ts_identities s') (command_identity (oc_command_id r)) =
      map_of (ts_identities s) (command_identity (oc_command_id r))"
  shows "entry_content s' n x = entry_content s n x"
  using assms by (cases x) (simp_all add: stored_kind_def)

lemma mem_queue_added:
  "(n, x) \<in> set (queue_of (command_added c s) t' m') \<longleftrightarrow> t' = cmd_target_service c \<and> m' = cmd_mission_id c \<and>
     n = int (length (queue_of s (cmd_target_service c) (cmd_mission_id c))) \<and> x = MCommand c \<or> (n, x) \<in> set (queue_of s t' m')"
  "(n, x) \<in> set (queue_of (outcome_added c r s) t' m') \<longleftrightarrow> t' = cmd_target_service c \<and> m' = cmd_mission_id c \<and>
     n = int (length (queue_of s (cmd_target_service c) (cmd_mission_id c))) \<and> x = MOutcome r \<or> (n, x) \<in> set (queue_of s t' m')"
  by (simp_all add: command_added_def outcome_added_def mem_queue_enqueued del: queue_of_enqueued)

lemma queue_files_added:
  assumes "\<And>t m n r. (n, MOutcome r) \<in> set (queue_of s' t m) \<Longrightarrow> (n, MOutcome r) \<in> set (queue_of s t m) \<Longrightarrow>
      map_of (ts_identities s') (command_identity (oc_command_id r)) =
      map_of (ts_identities s) (command_identity (oc_command_id r))"
    and "\<And>t' m' n x. (n, x) \<in> set (queue_of s' t' m') \<longleftrightarrow> t' = t \<and> m' = m \<and> n = k \<and> x = y \<or> (n, x) \<in> set (queue_of s t' m')"
  shows "queue_files s' = insert (queue_dir t m @ [entry_file k y], entry_content s' k y) (queue_files s)"
proof -
  have same: "entry_content s' n x = entry_content s n x" if "(n, x) \<in> set (queue_of s t' m')" for n x t' m'
    using that assms by (intro entry_content_cong) blast
  have "queue_files s' = insert (queue_dir t m @ [entry_file k y], entry_content s' k y)
      {(queue_dir t m @ [entry_file n x], entry_content s' n x) | t m n x. (n, x) \<in> set (queue_of s t m)}"
    unfolding queue_files_def assms(2) by blast
  also have "{(queue_dir t m @ [entry_file n x], entry_content s' n x) | t m n x. (n, x) \<in> set (queue_of s t m)} = queue_files s"
    unfolding queue_files_def by (intro Collect_cong) (metis same)
  finally show ?thesis .
qed

lemma file_set_command_added:
  assumes "stores fs s" and new: "map_of (ts_identities s) (command_identity (cmd_command_id c)) = None"
    and n: "n = int (length (queue_of s (cmd_target_service c) (cmd_mission_id c)))"
  shows "file_set (command_added c s) = file_set s \<union>
    {(queue_dir (cmd_target_service c) (cmd_mission_id c) @ [command_file n c], queued_command n c),
     (command_path (cmd_command_id c), command_json c),
     (receipt_path (cmd_command_id c), command_receipt_json (receipt_for c))}"
proof -
  have "map_of (ts_receipts s) (cmd_command_id c) = None"
    using assms(1) new unfolding stores_def log_inv_def by metis
  then have "identity_files (command_added c s) = identity_files s \<union>
      {(command_path (cmd_command_id c), command_json c), (receipt_path (cmd_command_id c), command_receipt_json (receipt_for c))}"
    using new by (auto simp: identity_files_def command_added_def split: if_splits)
  moreover have "stream_files (command_added c s) = stream_files s" by (simp add: stream_files_def)
  moreover have "queue_files (command_added c s) = insert (queue_dir (cmd_target_service c) (cmd_mission_id c) @
      [entry_file n (MCommand c)], entry_content (command_added c s) n (MCommand c)) (queue_files s)"
  proof (rule queue_files_added)
    show "(k, x) \<in> set (queue_of (command_added c s) t' m') \<longleftrightarrow> t' = cmd_target_service c \<and> m' = cmd_mission_id c \<and>
        k = n \<and> x = MCommand c \<or> (k, x) \<in> set (queue_of s t' m')" for t' m' k x
      unfolding n by (rule mem_queue_added)
    fix t m k r assume "(k, MOutcome r) \<in> set (queue_of s t m)"
    then have "map_of (ts_identities s) (command_identity (oc_command_id r)) \<noteq> None"
      using assms(1) unfolding stores_def plain_state_def by blast
    with new have "oc_command_id r \<noteq> cmd_command_id c" by auto
    then show "map_of (ts_identities (command_added c s)) (command_identity (oc_command_id r)) =
        map_of (ts_identities s) (command_identity (oc_command_id r))"
      by (simp add: command_added_def)
  qed
  ultimately show ?thesis unfolding file_set_def by auto
qed

lemma plain_state_queue:
  assumes "plain_state s" and "plain t" and "plain m" and "stream_of s' = stream_of s"
    and "\<And>t' m' n x. (n, x) \<in> set (queue_of s' t' m') \<longleftrightarrow> t' = t \<and> m' = m \<and> n = k \<and> x = y \<or> (n, x) \<in> set (queue_of s t' m')"
    and "\<And>i. map_of (ts_identities s) (command_identity i) \<noteq> None \<Longrightarrow> map_of (ts_identities s') (command_identity i) \<noteq> None"
    and "\<And>r. y = MOutcome r \<Longrightarrow> map_of (ts_identities s') (command_identity (oc_command_id r)) \<noteq> None"
    and "\<And>i r. map_of (ts_outcomes s') i = Some r \<Longrightarrow> map_of (ts_outcomes s) i = Some r \<or> command_outcome_wf r"
  shows "plain_state s'"
proof -
  have "plain t' \<and> plain m'" if "queue_of s' t' m' \<noteq> []" for t' m'
  proof -
    from that obtain n x where "(n, x) \<in> set (queue_of s' t' m')" by (metis list.set_intros(1) neq_Nil_conv surj_pair)
    with assms(2,3,5) plain_entry [OF assms(1)] show ?thesis by metis
  qed
  moreover have "map_of (ts_identities s') (command_identity (oc_command_id r)) \<noteq> None"
    if "(n, MOutcome r) \<in> set (queue_of s' t' m')" for t' m' n r
    using that assms(1,5,6,7) unfolding plain_state_def by metis
  moreover have "command_outcome_wf r" if "map_of (ts_outcomes s') i = Some r" for i r
    using assms(8) [OF that] assms(1) unfolding plain_state_def by blast
  ultimately show ?thesis using assms(1) unfolding plain_state_def assms(4) by blast
qed

text \<open>The name of a new entry is not in use.\<close>

lemma new_entry_name:
  assumes st: "stores fs s" and t: "plain t" "plain m"
    and name: "file_number f = Some (int (length (queue_of s t m)))" "json_name f"
  shows "map_of fs (queue_dir t m @ [f]) = None"
proof (rule ccontr)
  assume "map_of fs (queue_dir t m @ [f]) \<noteq> None"
  then obtain j where "(f, j) \<in> set (listing (queue_dir t m) fs)" using name(2) by (auto simp: listing_iff dest: map_of_SomeD)
  with queue_listing [OF st t] obtain k x where kx: "(k, x) \<in> set (queue_of s t m)" "f = entry_file k x" by blast
  have inv: "log_inv s" using st by (simp add: stores_def)
  from queue_entry_kind [OF inv kx(1)] kx(2) name(1) have k: "k = int (length (queue_of s t m))"
    by (simp add: entry_file_number)
  have "k \<in> set (map fst (queue_of s t m))" using kx(1) by force
  with log_inv_commands [OF inv] have "k \<in> set (map int [0..<length (queue_of s t m)])"
    by (simp add: commands_inv_def numbered_def)
  with k show False by auto
qed

lemma stored_command_json:
  assumes "stores fs s" and "map_of (ts_identities s) (command_identity i) = Some j"
  shows "\<exists>c. command_wf c \<and> command_json c = j \<and> cmd_command_id c = i \<and> map_of (ts_receipts s) i = Some (receipt_for c)"
  using sent_receipt [of s i j] assms log_inv_commands by (auto simp: stores_def sent_in_def)

lemma send_refines:
  assumes st: "stores fs s" and t: "plain (cmd_target_service c)" "plain (cmd_mission_id c)" and wf: "command_wf c"
    and nl: "no_lookalike (command_path (cmd_command_id c)) (command_to_dict c) fs"
  shows "fst (send_command c s) = fst (file_send c fs) \<and>
    stores (write_all (snd (file_send c fs)) fs) (snd (send_command c s))"
proof -
  let ?i = "cmd_command_id c" and ?dir = "queue_dir (cmd_target_service c) (cmd_mission_id c)"
  let ?n = "int (length (queue_of s (cmd_target_service c) (cmd_mission_id c)))"
  have inv: "log_inv s" "commands_inv s" "plain_state s" using st log_inv_commands by (simp_all add: stores_def)
  note id = stored_identities [OF st, of ?i]
  have rd: "read_json (command_path ?i) fs = map_of (ts_identities s) (command_identity ?i)"
    using stored_command_json [OF st] by (subst read_json_object) (auto simp: id command_json_object)
  show ?thesis
  proof (cases "map_of (ts_identities s) (command_identity ?i)")
    case (Some j)
    have "json_eq j (command_to_dict c) \<longleftrightarrow> j = command_json c"
      using nl Some same_content [OF wf_command_dict [OF wf]] by (auto simp: no_lookalike_def id command_json_def)
    moreover obtain x where "map_of fs (receipt_path ?i) = Some x" using stored_command_json [OF st Some] by (auto simp: id)
    ultimately show ?thesis using Some rd st by (simp add: file_send_def send_command_cases [OF inv(2) wf] Let_def)
  next
    case None
    let ?ws = "[(?dir @ [command_file ?n c], queued_command ?n c), (command_path ?i, command_json c),
      (receipt_path ?i, command_receipt_json (receipt_for c))]"
    have run: "send_command c s = (Inr (receipt_for c), command_added c s)" "file_send c fs = (Inr (receipt_for c), ?ws)"
      using None rd by (simp_all add: file_send_def send_command_cases [OF inv(2) wf] Let_def next_number_queue [OF st t])
    have num: "file_number (command_file ?n c) = Some ?n"
      using file_number_padded [of ?n] by (simp add: command_file_def)
    have free: "map_of fs (?dir @ [command_file ?n c]) = None" by (rule new_entry_name [OF st t num]) simp
    have "map_of (ts_receipts s) ?i = None" using inv(1) None unfolding log_inv_def by metis
    then have "map_of fs (receipt_path ?i) = None" "map_of fs (command_path ?i) = None" using None by (simp_all add: id)
    moreover have "?dir @ [command_file ?n c] \<noteq> command_path ?i" "?dir @ [command_file ?n c] \<noteq> receipt_path ?i"
      by (rule dir_distinct [OF t])+
    moreover have "log_inv (command_added c s)"
      using log_inv_command_added [OF inv(1) wf] None by (simp add: sent_in_def)
    moreover have "plain_state (command_added c s)"
      by (rule plain_state_queue [OF inv(3) t _ mem_queue_added(1)])
        (use stream_of_command_added in \<open>auto simp: command_added_def\<close>)
    ultimately show ?thesis
      unfolding run fst_conv snd_conv using free
      by (intro conjI refl stores_write [OF st]) (auto simp: file_set_command_added [OF st None refl])
  qed
qed

section \<open>Outcomes\<close>

lemma wf_outcome_dict: "wf_obj (oc_payload r) \<Longrightarrow> wf_json (command_outcome_to_dict r)"
  by (simp add: command_outcome_to_dict_def wf_obj_def)

lemma outcome_json_object: "command_outcome_json r \<noteq> JNull"
  by (simp add: command_outcome_json_def command_outcome_to_dict_def)

lemma file_set_outcome_added:
  assumes st: "stores fs s" and new: "map_of (ts_identities s) (outcome_identity (oc_command_id r)) = None"
    and n: "n = int (length (queue_of s (cmd_target_service c) (cmd_mission_id c)))"
  shows "file_set (outcome_added c r s) = file_set s \<union>
    {(queue_dir (cmd_target_service c) (cmd_mission_id c) @ [outcome_file n r],
        queued_outcome n (stored_kind s (oc_command_id r)) r),
     (outcome_path (oc_command_id r), command_outcome_json r)}"
proof -
  have "identity_files (outcome_added c r s) = insert (outcome_path (oc_command_id r), command_outcome_json r) (identity_files s)"
    using new by (auto simp: identity_files_def outcome_added_def split: if_splits)
  moreover have "stream_files (outcome_added c r s) = stream_files s"
    by (simp add: stream_files_def stream_of_def outcome_added_def)
  moreover have "queue_files (outcome_added c r s) = insert (queue_dir (cmd_target_service c) (cmd_mission_id c) @
      [entry_file n (MOutcome r)], entry_content (outcome_added c r s) n (MOutcome r)) (queue_files s)"
  proof (rule queue_files_added)
    show "(k, x) \<in> set (queue_of (outcome_added c r s) t' m') \<longleftrightarrow> t' = cmd_target_service c \<and> m' = cmd_mission_id c \<and>
        k = n \<and> x = MOutcome r \<or> (k, x) \<in> set (queue_of s t' m')" for t' m' k x
      unfolding n by (rule mem_queue_added)
  qed (simp add: outcome_added_def)
  moreover have "stored_kind (outcome_added c r s) = stored_kind s" by (simp add: stored_kind_def outcome_added_def fun_eq_iff)
  ultimately show ?thesis unfolding file_set_def by auto
qed

lemma answer_refines:
  assumes st: "stores fs s" and wf: "command_outcome_wf r"
    and nl: "no_lookalike (outcome_path (oc_command_id r)) (command_outcome_to_dict r) fs"
  shows "fst (publish_outcome r s) = fst (file_answer r fs) \<and>
    stores (write_all (snd (file_answer r fs)) fs) (snd (publish_outcome r s))"
proof -
  let ?i = "oc_command_id r"
  have inv: "log_inv s" "commands_inv s" "plain_state s" using st log_inv_commands by (simp_all add: stores_def)
  note id = stored_identities [OF st, of ?i]
  have rdc: "read_json (command_path ?i) fs = map_of (ts_identities s) (command_identity ?i)"
    using stored_command_json [OF st] by (subst read_json_object) (auto simp: id command_json_object)
  have rdo: "read_json (outcome_path ?i) fs = map_of (ts_identities s) (outcome_identity ?i)"
    using outcome_registered [OF inv(1), of ?i] outcome_json_object by (subst read_json_object) (auto simp: id)
  show ?thesis
  proof (cases "find_command s ?i")
    case None
    with known_command [OF inv(2), of ?i] have "map_of (ts_identities s) (command_identity ?i) = None" by (simp add: sent_in_def)
    with None rdc st show ?thesis by (simp add: file_answer_def publish_outcome_cases [OF inv(2)])
  next
    case c: (Some c)
    with find_command_Some [OF inv(2)] have q: "queued s (MCommand c)" "cmd_command_id c = ?i" by blast+
    with queued_entry [OF inv(2) q(1)] have cw: "command_wf c"
      "map_of (ts_identities s) (command_identity ?i) = Some (command_json c)"
      "\<exists>k. (k, MCommand c) \<in> set (queue_of s (cmd_target_service c) (cmd_mission_id c))"
      by (auto simp: entries_def)
    from cw(3) plain_entry [OF inv(3)] have t: "plain (cmd_target_service c)" "plain (cmd_mission_id c)" by blast+
    show ?thesis
    proof (cases "map_of (ts_identities s) (outcome_identity ?i)")
      case (Some j)
      have "wf_json (command_outcome_to_dict r)" using wf by (simp add: wf_outcome_dict command_outcome_wf_def)
      then have "json_eq j (command_outcome_to_dict r) \<longleftrightarrow> j = command_outcome_json r"
        using nl Some same_content by (auto simp: no_lookalike_def id command_outcome_json_def)
      with Some c cw(2) rdc rdo st show ?thesis by (simp add: file_answer_def publish_outcome_cases [OF inv(2)])
    next
      case None
      let ?dir = "queue_dir (cmd_target_service c) (cmd_mission_id c)"
      let ?n = "int (length (queue_of s (cmd_target_service c) (cmd_mission_id c)))"
      let ?ws = "[(?dir @ [outcome_file ?n r], queued_outcome ?n (stored_kind s ?i) r), (outcome_path ?i, command_outcome_json r)]"
      have "publish_outcome r s = (Inr r, outcome_added c r s)" using None c by (simp add: publish_outcome_cases [OF inv(2)])
      moreover have "file_answer r fs = (Inr r, ?ws)"
        using None cw(2) rdc rdo by (simp add: file_answer_def command_json_object map_of_canonical_obj
            next_number_queue [OF st t] stored_kind_def Let_def)
      ultimately have run: "publish_outcome r s = (Inr r, outcome_added c r s)" "file_answer r fs = (Inr r, ?ws)" .
      have num: "file_number (outcome_file ?n r) = Some ?n"
        using file_number_padded [of ?n] by (simp add: outcome_file_def)
      have free: "map_of fs (?dir @ [outcome_file ?n r]) = None" by (rule new_entry_name [OF st t num]) simp
      have "map_of fs (outcome_path ?i) = None" using None by (simp add: id)
      moreover have "?dir @ [outcome_file ?n r] \<noteq> outcome_path ?i" by (rule dir_distinct [OF t])
      moreover have "log_inv (outcome_added c r s)" by (rule log_inv_outcome_added [OF inv(1) None])
      moreover have "plain_state (outcome_added c r s)"
        by (rule plain_state_queue [OF inv(3) t _ mem_queue_added(2)])
          (use cw(2) wf in \<open>auto simp: outcome_added_def stream_of_def fun_eq_iff split: if_splits\<close>)
      ultimately show ?thesis
        unfolding run fst_conv snd_conv using free
        by (intro conjI refl stores_write [OF st]) (auto simp: file_set_outcome_added [OF st None refl])
    qed
  qed
qed

section \<open>Queries\<close>

abbreviation stored_event :: "transport_event \<Rightarrow> transport_event" where
  "stored_event e \<equiv> e\<lparr>te_payload := canonical_obj (te_payload e)\<rparr>"

lemma scan_latest_event: "transport_event_wf e \<Longrightarrow> scan_latest kind (transport_event_json e # js) =
    (if kind_matches kind e then Inr (Some (stored_event e)) else scan_latest kind js)"
  using transport_event_json_view [of e False]
  by (cases kind) (simp_all add: event_json_object del: view.simps)

text \<open>Scanning names in descending order finds the matching event with the largest name.\<close>

lemma scan_descending:
  assumes "\<And>n j. (n, j) \<in> set fs \<Longrightarrow> \<exists>e \<in> S. n = event_file e \<and> j = transport_event_json e"
    and "sorted_wrt (>) (map fst fs)" and "\<And>e. e \<in> S \<Longrightarrow> transport_event_wf e" and "inj_on event_file S"
  shows "\<exists>r. scan_latest kind (map snd fs) = Inr r \<and> (case r of
      None \<Rightarrow> \<forall>e \<in> S. event_file e \<in> fst ` set fs \<longrightarrow> \<not> kind_matches kind e
    | Some y \<Rightarrow> \<exists>e \<in> S. y = stored_event e \<and> kind_matches kind e \<and>
        (\<forall>x \<in> S. kind_matches kind x \<longrightarrow> event_file x \<in> fst ` set fs \<longrightarrow> event_file x \<le> event_file e))"
  using assms(1,2)
proof (induction fs)
  case (Cons f fs)
  obtain e where e: "e \<in> S" "f = (event_file e, transport_event_json e)" using Cons.prems(1) [of "fst f" "snd f"]
    by (metis list.set_intros(1) prod.collapse)
  have less: "n < event_file e" if "n \<in> fst ` set fs" for n using Cons.prems(2) that e(2) by auto
  have scan: "scan_latest kind (map snd (f # fs)) =
      (if kind_matches kind e then Inr (Some (stored_event e)) else scan_latest kind (map snd fs))"
    by (simp add: e(2) scan_latest_event assms(3) [OF e(1)])
  show ?case
  proof (cases "kind_matches kind e")
    case True
    with e less show ?thesis unfolding scan by (auto intro!: bexI [of _ e] dest: less_imp_le)
  next
    case False
    have "x = e" if "x \<in> S" "event_file x = event_file e" for x using assms(4) that e(1) by (auto dest: inj_onD)
    with False have other: "event_file x \<in> fst ` set (f # fs) \<longleftrightarrow> event_file x \<in> fst ` set fs"
      if "x \<in> S" "kind_matches kind x" for x using that e(2) by auto
    have IH: "\<exists>r. scan_latest kind (map snd fs) = Inr r \<and> (case r of
      None \<Rightarrow> \<forall>e \<in> S. event_file e \<in> fst ` set fs \<longrightarrow> \<not> kind_matches kind e
    | Some y \<Rightarrow> \<exists>e \<in> S. y = stored_event e \<and> kind_matches kind e \<and>
        (\<forall>x \<in> S. kind_matches kind x \<longrightarrow> event_file x \<in> fst ` set fs \<longrightarrow> event_file x \<le> event_file e))"
      using Cons.prems by (intro Cons.IH) auto
    then obtain r where r: "scan_latest kind (map snd fs) = Inr r" "case r of
      None \<Rightarrow> \<forall>e \<in> S. event_file e \<in> fst ` set fs \<longrightarrow> \<not> kind_matches kind e
    | Some y \<Rightarrow> \<exists>e \<in> S. y = stored_event e \<and> kind_matches kind e \<and>
        (\<forall>x \<in> S. kind_matches kind x \<longrightarrow> event_file x \<in> fst ` set fs \<longrightarrow> event_file x \<le> event_file e)" by blast
    show ?thesis
    proof (cases r)
      case None
      with r False other show ?thesis unfolding scan by (intro exI [of _ None]) (simp; metis)
    next
      case (Some y)
      with r False other show ?thesis unfolding scan by (intro exI [of _ r]) (simp; metis)
    qed
  qed
qed simp

lemma latest_refines:
  assumes st: "stores fs s" and t: "plain t" "plain m"
  shows "file_latest t m kind fs = Inr (map_option stored_event (latest_event t m kind s))"
proof -
  let ?S = "set (stream_of s t m)" and ?l = "listing (stream_dir t m) fs"
  let ?fs = "rev (sort_key fst ?l)"
  have inv: "events_inv s" "plain_state s" using st by (simp_all add: stores_def log_inv_def transport_inv_def)
  have wf: "transport_event_wf e" "0 \<le> te_sequence e" "te_sequence e < 10 ^ 20" if "e \<in> ?S" for e
    using stream_event_wf [OF st that] plain_event [OF inv(2) that] by (simp_all add: transport_event_wf_def)
  have "distinct (map te_sequence (stream_of s t m))" using stream_of_inv [OF inv(1)] by (simp add: stream_inv_def)
  then have seq: "x = e" if "x \<in> ?S" "e \<in> ?S" "te_sequence x = te_sequence e" for x e
    using that by (auto simp: distinct_map dest: inj_onD)
  have inj: "inj_on event_file ?S"
    using seq wf event_file_number by (intro inj_onI) (metis option.inject)
  have "distinct (map fst ?l)" using st by (intro distinct_listing) (simp add: stores_def)
  then have "sorted_wrt (<) (map fst (sort_key fst ?l))"
    by (simp add: strict_sorted_iff distinct_map)
  then have desc: "sorted_wrt (>) (map fst ?fs)" by (simp add: rev_map [symmetric] sorted_wrt_rev)
  have mem: "\<exists>e \<in> ?S. n = event_file e \<and> j = transport_event_json e" if "(n, j) \<in> set ?fs" for n j
    using that stream_listing [OF st t] by simp
  have names: "event_file e \<in> fst ` set ?fs" if "e \<in> ?S" for e
    using that stream_listing [OF st t, of "event_file e" "transport_event_json e"] by force
  from scan_descending [OF mem desc wf(1) inj] obtain r where r: "file_latest t m kind fs = Inr r" "case r of
      None \<Rightarrow> \<forall>e \<in> ?S. event_file e \<in> fst ` set ?fs \<longrightarrow> \<not> kind_matches kind e
    | Some y \<Rightarrow> \<exists>e \<in> ?S. y = stored_event e \<and> kind_matches kind e \<and>
        (\<forall>x \<in> ?S. kind_matches kind x \<longrightarrow> event_file x \<in> fst ` set ?fs \<longrightarrow> event_file x \<le> event_file e)"
    unfolding file_latest_def by blast
  show ?thesis
  proof (cases r)
    case None
    with r(2) names have "filter (kind_matches kind) (stream_of s t m) = []" by (auto simp: filter_empty_conv)
    with r(1) None show ?thesis by (simp add: latest_event_def)
  next
    case (Some y)
    with r(2) names obtain e where e: "e \<in> ?S" "y = stored_event e" "kind_matches kind e"
      "\<And>x. x \<in> ?S \<Longrightarrow> kind_matches kind x \<Longrightarrow> event_file x \<le> event_file e" by auto
    have "event_key x < event_key e" if "x \<in> ?S" "kind_matches kind x" "x \<noteq> e" for x
    proof -
      have "\<not> te_sequence e < te_sequence x"
      proof
        assume "te_sequence e < te_sequence x"
        from padded_less [OF wf(2) [OF e(1)] this wf(3) [OF that(1)]] have "event_file e < event_file x"
          by (simp add: event_file_def)
        with e(4) [OF that(1,2)] show False by simp
      qed
      with seq that e(1) have "te_sequence x < te_sequence e" by force
      then show ?thesis by (simp add: less_prod_def)
    qed
    then have "latest_event t m kind s = Some e"
      unfolding latest_event_def using e by (intro max_by_unique) auto
    with r(1) Some e(2) show ?thesis by simp
  qed
qed

lemma receipt_refines:
  assumes st: "stores fs s"
  shows "file_receipt i fs = Inr (get_command_receipt i s)"
proof (cases "map_of (ts_receipts s) i")
  case None
  with stored_identities(4) [OF st, of i] show ?thesis
    by (simp add: file_receipt_def read_json_def stored_record_def get_command_receipt_def)
next
  case (Some r)
  obtain j where "map_of (ts_identities s) (command_identity i) = Some j"
    using st Some unfolding stores_def log_inv_def by (metis not_None_eq)
  from stored_command_json [OF st this] Some obtain c where "command_wf c" "r = receipt_for c" by auto
  then have "command_receipt_wf r" by (simp add: command_receipt_wf_def receipt_for_def command_wf_def)
  moreover obtain o' where "command_receipt_json r = JObj o'" by (simp add: command_receipt_json_def command_receipt_to_dict_def)
  ultimately show ?thesis
    using command_receipt_json_view [of r False] stored_identities(4) [OF st, of i] Some
    by (simp add: file_receipt_def read_json_def stored_record_def get_command_receipt_def del: view.simps)
qed

lemma next_sequence_refines:
  assumes "stores fs s" and "plain t" and "plain m"
  shows "file_next_sequence t m fs = fst (next_event_sequence t m s)"
  using next_number_stream [OF assms] by (simp add: file_next_sequence_def next_event_sequence_def guardE_def)

abbreviation stored_outcome :: "command_outcome \<Rightarrow> command_outcome" where
  "stored_outcome r \<equiv> r\<lparr>oc_payload := canonical_obj (oc_payload r)\<rparr>"

lemma outcome_refines:
  assumes st: "stores fs s"
  shows "file_outcome i fs = Inr (map_option stored_outcome (get_command_outcome i s))"
proof -
  have reg: "map_of fs (outcome_path i) = map_option command_outcome_json (map_of (ts_outcomes s) i)"
    using outcome_registered [of s i] stored_identities(3) [OF st, of i] st by (simp add: stores_def outcome_in_def)
  show ?thesis
  proof (cases "map_of (ts_outcomes s) i")
    case None
    with reg show ?thesis by (simp add: file_outcome_def read_json_def stored_record_def get_command_outcome_def)
  next
    case (Some r)
    then have "command_outcome_wf r" using st unfolding stores_def plain_state_def by blast
    moreover obtain o' where "command_outcome_json r = JObj o'" by (simp add: command_outcome_json_def command_outcome_to_dict_def)
    ultimately show ?thesis
      using command_outcome_json_view [of r False] reg Some
      by (simp add: file_outcome_def read_json_def stored_record_def get_command_outcome_def del: view.simps)
  qed
qed

section \<open>Calls\<close>

datatype transport_call =
    PublishEvent string transport_event
  | SendCommand command
  | PublishOutcome command_outcome
  | GetReceipt string
  | GetOutcome string
  | NextSequence string string
  | LatestEvent string string "string option"

text \<open>An answer, as the canonical JSON of the records in it: the payloads of records that were read from files
  have their keys in canonical order.\<close>

definition opt_json :: "('a \<Rightarrow> json) \<Rightarrow> 'a option \<Rightarrow> json" where
  "opt_json f x = (case x of None \<Rightarrow> JNull | Some y \<Rightarrow> f y)"

definition answer :: "('a \<Rightarrow> json) \<Rightarrow> 'a result \<Rightarrow> json result" where
  "answer f r = bindE r (\<lambda>x. Inr (f x))"

fun inprocess_call :: "transport_call \<Rightarrow> (json, transport_state) eff" where
  "inprocess_call (PublishEvent t e) s = (answer transport_event_json (fst (publish_event t e s)), snd (publish_event t e s))"
| "inprocess_call (SendCommand c) s = (answer command_receipt_json (fst (send_command c s)), snd (send_command c s))"
| "inprocess_call (PublishOutcome r) s = (answer command_outcome_json (fst (publish_outcome r s)), snd (publish_outcome r s))"
| "inprocess_call (GetReceipt i) s = (Inr (opt_json command_receipt_json (get_command_receipt i s)), s)"
| "inprocess_call (GetOutcome i) s = (Inr (opt_json command_outcome_json (get_command_outcome i s)), s)"
| "inprocess_call (NextSequence t m) s = (answer JInt (fst (next_event_sequence t m s)), s)"
| "inprocess_call (LatestEvent t m k) s = (Inr (opt_json transport_event_json (latest_event t m k s)), s)"

definition call_written :: "('a \<Rightarrow> json) \<Rightarrow> 'a writing \<Rightarrow> (json, files) eff" where
  "call_written f w fs = (answer f (fst (w fs)), write_all (snd (w fs)) fs)"

fun file_call :: "transport_call \<Rightarrow> (json, files) eff" where
  "file_call (PublishEvent t e) fs = call_written transport_event_json (file_publish t e) fs"
| "file_call (SendCommand c) fs = call_written command_receipt_json (file_send c) fs"
| "file_call (PublishOutcome r) fs = call_written command_outcome_json (file_answer r) fs"
| "file_call (GetReceipt i) fs = (answer (opt_json command_receipt_json) (file_receipt i fs), fs)"
| "file_call (GetOutcome i) fs = (answer (opt_json command_outcome_json) (file_outcome i fs), fs)"
| "file_call (NextSequence t m) fs = (answer JInt (file_next_sequence t m fs), fs)"
| "file_call (LatestEvent t m k) fs = (answer (opt_json transport_event_json) (file_latest t m k fs), fs)"

text \<open>Calls within the limits of the file transport.\<close>

fun file_safe :: "transport_call \<Rightarrow> files \<Rightarrow> bool" where
  "file_safe (PublishEvent t e) fs \<longleftrightarrow> plain t \<and> plain (te_mission_id e) \<and> transport_event_wf e \<and> te_sequence e < 10 ^ 20 \<and>
     no_lookalike (event_path (te_event_id e)) (transport_event_to_dict e) fs"
| "file_safe (SendCommand c) fs \<longleftrightarrow> plain (cmd_target_service c) \<and> plain (cmd_mission_id c) \<and> command_wf c \<and>
     no_lookalike (command_path (cmd_command_id c)) (command_to_dict c) fs"
| "file_safe (PublishOutcome r) fs \<longleftrightarrow> command_outcome_wf r \<and>
     no_lookalike (outcome_path (oc_command_id r)) (command_outcome_to_dict r) fs"
| "file_safe (NextSequence t m) fs \<longleftrightarrow> plain t \<and> plain m"
| "file_safe (LatestEvent t m k) fs \<longleftrightarrow> plain t \<and> plain m"
| "file_safe _ fs \<longleftrightarrow> True"

fun run_calls :: "(transport_call \<Rightarrow> (json, 's) eff) \<Rightarrow> transport_call list \<Rightarrow> 's \<Rightarrow> json result list" where
  "run_calls f [] s = []"
| "run_calls f (c # cs) s = fst (f c s) # run_calls f cs (snd (f c s))"

fun all_safe :: "transport_call list \<Rightarrow> files \<Rightarrow> bool" where
  "all_safe [] fs \<longleftrightarrow> True"
| "all_safe (c # cs) fs \<longleftrightarrow> file_safe c fs \<and> all_safe cs (snd (file_call c fs))"

lemma canonical_records [simp]:
  "opt_json transport_event_json (map_option stored_event x) = opt_json transport_event_json x"
  "opt_json command_outcome_json (map_option stored_outcome y) = opt_json command_outcome_json y"
  by (auto simp: opt_json_def transport_event_json_def transport_event_to_dict_def command_outcome_json_def
      command_outcome_to_dict_def split: option.split intro!: canonical_obj_cong)

text \<open>One call on the file transport and in process. On corresponding states every call within the limits has the same
  answer, error or value, and leads to corresponding states.\<close>

lemma call_refines:
  assumes "stores fs s" and "file_safe c fs"
  shows "fst (file_call c fs) = fst (inprocess_call c s) \<and> stores (snd (file_call c fs)) (snd (inprocess_call c s))"
proof (cases c)
  case (PublishEvent t e)
  with publish_refines [OF assms(1)] assms(2) show ?thesis by (simp add: call_written_def)
next
  case (SendCommand c)
  with send_refines [OF assms(1)] assms(2) show ?thesis by (simp add: call_written_def)
next
  case (PublishOutcome r)
  with answer_refines [OF assms(1)] assms(2) show ?thesis by (simp add: call_written_def)
next
  case (GetReceipt i)
  with receipt_refines [OF assms(1)] assms(1) show ?thesis by (simp add: answer_def)
next
  case (GetOutcome i)
  with outcome_refines [OF assms(1)] assms(1) show ?thesis by (simp add: answer_def)
next
  case (NextSequence t m)
  with next_sequence_refines [OF assms(1)] assms show ?thesis by simp
next
  case (LatestEvent t m k)
  with latest_refines [OF assms(1)] assms show ?thesis by (simp add: answer_def)
qed


definition ex_note :: "int \<Rightarrow> json \<Rightarrow> transport_event" where
  "ex_note n j = \<lparr>te_schema_version = 1, te_event_id = ''e'' @ show_int n, te_mission_id = ''m/1'', te_sequence = n,
     te_event_kind = ''k'', te_payload = [(''x'', j)]\<rparr>"

definition ex_request :: command where
  "ex_request = \<lparr>cmd_schema_version = 1, cmd_command_id = ''c1'', cmd_correlation_id = ''c1'', cmd_mission_id = ''m/1'',
     cmd_target_service = ''s'', cmd_command_kind = ''k'', cmd_payload = []\<rparr>"

definition ex_reply :: command_outcome where
  "ex_reply = \<lparr>oc_schema_version = 1, oc_command_id = ''c1'', oc_correlation_id = ''c1'', oc_mission_id = ''m/1'',
     oc_status = COMPLETED, oc_payload = [(''b'', JInt 1), (''a'', JInt 2)]\<rparr>"

definition ex_calls :: "transport_call list" where
  "ex_calls = [PublishEvent ''t'' (ex_note 0 (JInt 1)), PublishEvent ''t'' (ex_note 0 (JInt 2)),
     LatestEvent ''t'' ''m/1'' None, SendCommand ex_request, PublishOutcome ex_reply, GetOutcome ''c1'']"


text \<open>Two events with the last sequence number of twenty digits and the first one of twenty-one.\<close>

definition ex_last :: transport_event where
  "ex_last = (ex_note 0 JNull)\<lparr>te_event_id := ''a'', te_sequence := 10 ^ 20 - 1\<rparr>"

definition ex_beyond :: transport_event where
  "ex_beyond = (ex_note 0 JNull)\<lparr>te_event_id := ''b'', te_sequence := 10 ^ 20\<rparr>"

lemma ex_names:
  "event_file ex_last = ''99999999999999999999-a.json''" "event_file ex_beyond = ''100000000000000000000-b.json''"
proof -
  have q: "quote ''a'' = ''a''" "quote ''b'' = ''b''" by code_simp+
  have "padded (10 ^ 20 - 1) = ''99999999999999999999''" "padded (10 ^ 20) = ''100000000000000000000''"
    by (simp_all add: padded_def show_int_def show_nat.simps digit_def decimals_def)
  with q show "event_file ex_last = ''99999999999999999999-a.json''" "event_file ex_beyond = ''100000000000000000000-b.json''"
    by (simp_all add: event_file_def ex_last_def ex_beyond_def)
qed

text \<open>Where the two transports differ. The file transport compares stored contents by Python's equality: an event
  published again with \<open>True\<close> in place of \<open>1\<close> is accepted as the same event, which the in-process transport
  refuses as a conflict. And it finds the latest event by the order of file names: in a stream that holds an event with twenty
  digits and the next one, of twenty-one digits, it reports the first one as the latest.\<close>

theorem file_transport_differs:
  "run_calls file_call [PublishEvent ''t'' (ex_note 0 (JInt 1)), PublishEvent ''t'' (ex_note 0 (JBool True))] [] ! 1 =
     Inr (transport_event_json (ex_note 0 (JBool True))) \<and>
   run_calls inprocess_call [PublishEvent ''t'' (ex_note 0 (JInt 1)), PublishEvent ''t'' (ex_note 0 (JBool True))] initial_state ! 1 =
     Inl (ValueError Conflict) \<and>
   file_latest ''t'' ''m/1'' None [(stream_dir ''t'' ''m/1'' @ [event_file ex_last], transport_event_json ex_last),
     (stream_dir ''t'' ''m/1'' @ [event_file ex_beyond], transport_event_json ex_beyond)] = Inr (Some ex_last)"
  unfolding ex_names by (intro conjI; code_simp)

end
