(* ===== verification/File_Recovery.thy ===== *)
theory File_Recovery
  imports File_Calls
begin

text \<open>
  Interrupted operations of the file transport: a process that dies inside an operation leaves a prefix of
  its writes, and the client repeats the call after a restart.
\<close>

definition interrupted :: "nat \<Rightarrow> 'a writing \<Rightarrow> files \<Rightarrow> files" where
  "interrupted k w fs = write_all (take k (snd (w fs))) fs"

lemma next_number_nonneg: "0 \<le> next_number dir fs"
  using max_default_lower [of "List.map_filter (\<lambda>(s, j). file_number s) (listing dir fs)" "-1"]
  by (force simp: next_number_def set_map_filter_eq file_number_def Let_def split: if_splits)

text \<open>A name with the next number is new.\<close>

lemma next_number_new:
  assumes "file_number f = Some (next_number dir fs)" and "json_name f"
  shows "map_of fs (dir @ [f]) = None"
proof (rule ccontr)
  assume "map_of fs (dir @ [f]) \<noteq> None"
  then obtain j where "(f, j) \<in> set (listing dir fs)" using assms(2) by (auto simp: listing_iff dest: map_of_SomeD)
  then have "next_number dir fs \<in> set (List.map_filter (\<lambda>(s, j). file_number s) (listing dir fs))"
    using assms(1) by (auto simp: set_map_filter_eq)
  from max_default_ge [OF this, of "-1"] show False by (simp add: next_number_def)
qed

lemma command_file_number: "0 \<le> n \<Longrightarrow> file_number (command_file n c) = Some n"
  using file_number_padded [of n] by (simp add: command_file_def)

lemma listing_append1: "listing dir (fs @ [(p, j)]) = listing dir fs @
    (if p \<noteq> [] \<and> butlast p = dir \<and> json_name (last p) then [(last p, j)] else [])"
  by (simp add: listing_def)

lemma read_json_snoc: "p \<notin> fst ` set fs \<Longrightarrow> j \<noteq> JNull \<Longrightarrow> read_json q (fs @ [(p, j)]) = (if q = p then Some j else read_json q fs)"
  by (cases j) (auto simp: read_json_def map_add_def map_of_eq_None_iff [symmetric] split: option.split json.split)

text \<open>The files after a command with copies of its queue entry under the numbers \<open>ns\<close>.\<close>

definition command_dir :: "command \<Rightarrow> path" where
  "command_dir c = queue_dir (cmd_target_service c) (cmd_mission_id c)"

definition queue_entry :: "command \<Rightarrow> int \<Rightarrow> path \<times> json" where
  "queue_entry c n = (command_dir c @ [command_file n c], queued_command n c)"

definition registered :: "command \<Rightarrow> (path \<times> json) list" where
  "registered c = [(command_path (cmd_command_id c), command_json c),
     (receipt_path (cmd_command_id c), command_receipt_json (receipt_for c))]"

definition new_command :: "command \<Rightarrow> files \<Rightarrow> bool" where
  "new_command c fs \<longleftrightarrow> command_wf c \<and> plain (cmd_target_service c) \<and> plain (cmd_mission_id c) \<and>
     map_of fs (command_path (cmd_command_id c)) = None \<and> map_of fs (receipt_path (cmd_command_id c)) = None"

lemma entry_path: "new_command c fs \<Longrightarrow> command_dir c @ [x] \<noteq> command_path i" 
    "new_command c fs \<Longrightarrow> command_dir c @ [x] \<noteq> receipt_path i"
  unfolding new_command_def command_dir_def by (rule dir_distinct; simp)+

lemma send_new_command:
  assumes "new_command c fs"
  shows "file_send c fs = (Inr (receipt_for c), queue_entry c (next_number (command_dir c) fs) # registered c)"
  using assms by (simp add: file_send_def read_json_def new_command_def Let_def queue_entry_def registered_def command_dir_def)

lemma new_command_entry: "new_command c fs \<Longrightarrow> new_command c (fs @ [queue_entry c n])"
  using entry_path [of c fs, THEN not_sym] by (simp add: new_command_def queue_entry_def map_add_def)

lemma next_entry_new: "map_of fs (fst (queue_entry c (next_number (command_dir c) fs))) = None"
  unfolding queue_entry_def fst_conv
  by (rule next_number_new) (simp_all add: command_file_number next_number_nonneg)

lemma write_entry: "map_of fs (fst w) = None \<Longrightarrow> write_all [w] fs = fs @ [w]"
  by (cases w) (simp add: put_new map_of_eq_None_iff)

lemma write_all_append: "write_all (us @ vs) fs = write_all vs (write_all us fs)"
  by (simp add: write_all_def)

lemma write_registered: "new_command c fs \<Longrightarrow> write_all (registered c) fs = fs @ registered c"
  by (rule write_new) (auto simp: registered_def new_command_def map_of_eq_None_iff)

lemma send_again_registered:
  assumes "new_command c fs" and "k \<le> 2"
  shows "\<exists>ws. file_send c (fs @ take k (registered c)) = (Inr (receipt_for c), ws) \<and>
    (k \<noteq> 0 \<longrightarrow> write_all ws (fs @ take k (registered c)) = fs @ registered c)"
proof -
  have same: "json_eq (command_json c) (command_to_dict c)"
    using assms(1) same_content [of "command_to_dict c"] by (simp add: new_command_def command_json_def wf_command_dict)
  have object: "command_json c \<noteq> JNull" by (simp add: command_json_object)
  have fresh: "command_path (cmd_command_id c) \<notin> fst ` set fs" "receipt_path (cmd_command_id c) \<notin> fst ` set fs"
    using assms(1) by (simp_all add: new_command_def map_of_eq_None_iff)
  from assms(2) consider "k = 0" | "k = 1" | "k = 2" by linarith
  then show ?thesis
  proof cases
    case 1
    with send_new_command [OF assms(1)] show ?thesis by simp
  next
    case 2
    let ?fs = "fs @ [(command_path (cmd_command_id c), command_json c)]"
    have "read_json (command_path (cmd_command_id c)) ?fs = Some (command_json c)"
      using fresh object by (simp add: read_json_snoc)
    moreover have none: "map_of ?fs (receipt_path (cmd_command_id c)) = None"
      using fresh by (auto simp: map_of_eq_None_iff)
    ultimately have "file_send c ?fs = (Inr (receipt_for c), [(receipt_path (cmd_command_id c), command_receipt_json (receipt_for c))])"
      using same by (simp add: file_send_def Let_def)
    with 2 write_entry [of ?fs, OF _] none show ?thesis by (simp add: registered_def put_new map_of_eq_None_iff)
  next
    case 3
    let ?fs = "fs @ registered c"
    have "read_json (command_path (cmd_command_id c)) ?fs = Some (command_json c)"
      using fresh object by (auto simp: registered_def read_json_def map_add_def map_of_eq_None_iff [symmetric] split: json.split)
    moreover have "map_of ?fs (receipt_path (cmd_command_id c)) \<noteq> None"
      by (simp add: registered_def map_of_eq_None_iff)
    ultimately have "file_send c ?fs = (Inr (receipt_for c), [])" using same by (auto simp: file_send_def Let_def)
    with 3 show ?thesis by (simp add: registered_def)
  qed
qed

text \<open>Whatever prefix of the writes was made, repeating the call ends with one or two queue entries.\<close>

lemma send_after_interruption:
  assumes "new_command c fs"
  shows "\<exists>ws ns. file_send c (interrupted k (file_send c) fs) = (Inr (receipt_for c), ws) \<and> ns \<noteq> [] \<and>
    write_all ws (interrupted k (file_send c) fs) = fs @ map (queue_entry c) ns @ registered c"
proof -
  let ?n = "next_number (command_dir c) fs"
  let ?q = "queue_entry c ?n"
  have one: "write_all [?q] fs = fs @ [?q]" using next_entry_new by (rule write_entry)
  have new1: "new_command c (fs @ [?q])" by (rule new_command_entry [OF assms])
  show ?thesis
  proof (cases k)
    case 0
    have "write_all (?q # registered c) fs = fs @ map (queue_entry c) [?n] @ registered c"
      using write_all_append [of "[?q]" "registered c" fs] one write_registered [OF new1] by simp
    moreover have "interrupted k (file_send c) fs = fs" using 0 by (simp add: interrupted_def)
    ultimately show ?thesis using send_new_command [OF assms] by (intro exI [of _ "?q # registered c"] exI [of _ "[?n]"]) simp
  next
    case (Suc j)
    then have i: "interrupted k (file_send c) fs = write_all (take j (registered c)) (fs @ [?q])"
      using write_all_append [of "[?q]" "take j (registered c)" fs] one by (simp add: interrupted_def send_new_command [OF assms])
    have "write_all (take j (registered c)) (fs @ [?q]) = (fs @ [?q]) @ take j (registered c)"
      using new1 by (intro write_new) (auto simp: registered_def new_command_def map_of_eq_None_iff take_Cons' split: if_splits)
    with i have i: "interrupted k (file_send c) fs = (fs @ [?q]) @ take (min j 2) (registered c)"
      by (simp add: registered_def take_Cons')
    show ?thesis
    proof (cases "j = 0")
      case True
      let ?m = "next_number (command_dir c) (fs @ [?q])"
      have two: "write_all [queue_entry c ?m] (fs @ [?q]) = (fs @ [?q]) @ [queue_entry c ?m]"
        using next_entry_new by (rule write_entry)
      have "write_all (queue_entry c ?m # registered c) (fs @ [?q]) = fs @ map (queue_entry c) [?n, ?m] @ registered c"
        using write_all_append [of "[queue_entry c ?m]" "registered c" "fs @ [?q]"] two
          write_registered [OF new_command_entry [OF new1]] by simp
      with True i send_new_command [OF new1] show ?thesis
        by (intro exI [of _ "queue_entry c ?m # registered c"] exI [of _ "[?n, ?m]"]) simp
    next
      case False
      with send_again_registered [OF new1, of "min j 2"] obtain ws
        where "file_send c ((fs @ [?q]) @ take (min j 2) (registered c)) = (Inr (receipt_for c), ws)"
          "write_all ws ((fs @ [?q]) @ take (min j 2) (registered c)) = (fs @ [?q]) @ registered c" by auto
      with i show ?thesis by (intro exI [of _ ws] exI [of _ "[?n]"]) simp
    qed
  qed
qed

lemma listing_append: "listing dir (xs @ ys) = listing dir xs @ listing dir ys"
  by (simp add: listing_def)

lemma listing_entries: "listing (command_dir c) (map (queue_entry c) ns) = map (\<lambda>n. (command_file n c, queued_command n c)) ns"
  by (induction ns) (simp_all add: listing_def queue_entry_def)

lemma map_of_entries: "(\<And>x. command_dir c @ [x] \<noteq> p) \<Longrightarrow> map_of (map (queue_entry c) ns) p = None"
  by (induction ns) (auto simp: queue_entry_def)

lemma listing_registered: "new_command c fs \<Longrightarrow> listing (command_dir c) (registered c) = []"
  by (simp add: listing_def registered_def path_simps new_command_def command_dir_def dir_simps)




end
