(* ===== verification/File_Deliveries.thy ===== *)
theory File_Deliveries
  imports File_Consumer File_Recovery
begin

text \<open>
  What the consumer of the file transport guarantees: \<open>receive\<close> ends, a delivered message comes back after a
  restart until the limit of attempts, and an acknowledged one never comes back, wherever
  the consumer was interrupted.
\<close>

section \<open>Reading back the consumer's files\<close>

lemma map_of_filter_key: "map_of (filter (\<lambda>p. fst p = k) xs) k = map_of xs k"
  by (induction xs) auto

lemma map_of_sort_key: "map_of (sort_key fst xs) k = map_of xs k"
proof -
  have "filter (\<lambda>p. fst p = k) (sort_key fst xs) = filter (\<lambda>p. fst p = k) xs" by (rule sort_key_stable)
  then show ?thesis by (metis map_of_filter_key)
qed

lemma int_items_Cons: "int_items ((k, j) # o') = (case j of JInt n \<Rightarrow> (k, n) # int_items o' | _ \<Rightarrow> int_items o')"
  by (cases j) (simp_all add: int_items_def)

lemma map_of_int_items:
  assumes "\<And>p. p \<in> set o' \<Longrightarrow> \<exists>n. snd p = JInt n"
  shows "map_of o' k = map_option JInt (map_of (int_items o') k)"
  using assms
proof (induction o')
  case Nil
  then show ?case by (simp add: int_items_def)
next
  case (Cons p o')
  obtain i j where p: "p = (i, j)" by (cases p)
  from Cons.prems [of p] p obtain n where "j = JInt n" by auto
  with Cons p show ?case by (simp add: int_items_Cons)
qed

lemma map_option_JInt: "map_option JInt a = map_option JInt b \<longleftrightarrow> a = b"
  by (cases a; cases b) simp_all

lemma canonical_int_object: "canonical (int_object d) = JObj (sort_key fst (map (\<lambda>(k, n). (k, JInt n)) d))"
  by (simp add: int_object_def canonical_obj_def comp_def case_prod_unfold)

lemma int_items_int_object: "map_of (int_items (sort_key fst (map (\<lambda>(k, n). (k, JInt n)) d))) = map_of d"
proof
  fix k
  let ?o = "sort_key fst (map (\<lambda>(k, n). (k, JInt n)) d)"
  have "map_of ?o k = map_option JInt (map_of (int_items ?o) k)" by (rule map_of_int_items) auto
  moreover have "map_of ?o k = map_option JInt (map_of d k)" by (simp add: map_of_sort_key map_of_map)
  ultimately show "map_of (int_items ?o) k = map_of d k" by (simp add: map_option_JInt)
qed

lemma map_filter_JStr: "List.map_filter (\<lambda>j. case j of JStr s \<Rightarrow> Some s | _ \<Rightarrow> None) (map JStr xs) = xs"
  by (induction xs) simp_all

lemma getd_map_of: "map_of d = map_of d' \<Longrightarrow> getd d = getd d'"
  by (simp add: getd_def fun_eq_iff)

text \<open>Which file each write leaves alone, and what it leaves in its own.\<close>

lemma write_attempts_frame [simp]:
  "file_cursor (write_all [write_attempts a] own) = file_cursor own"
  "file_processed (write_all [write_attempts a] own) = file_processed own"
  "getd (file_attempts (write_all [write_attempts a] own)) = getd a"
  by (simp_all add: write_attempts_def file_cursor_def file_processed_def file_attempts_def canonical_int_object
      getd_map_of [OF int_items_int_object])

lemma dead_letter_frame [simp]:
  "file_cursor (write_all [dead_letter_file i n m own'] own) = file_cursor own"
  "file_processed (write_all [dead_letter_file i n m own'] own) = file_processed own"
  "file_attempts (write_all [dead_letter_file i n m own'] own) = file_attempts own"
  by (simp_all add: dead_letter_file_def file_cursor_def file_processed_def file_attempts_def)

lemma save_ack_frame [simp]:
  "set (file_processed (write_all (save_ack n src ps own') own)) = set ps"
  "file_attempts (write_all (save_ack n src ps own') own) = file_attempts own"
  by (simp_all add: save_ack_def file_processed_def file_attempts_def map_filter_JStr)

section \<open>One turn of the loop\<close>

definition file_attempt :: "loop_state \<Rightarrow> candidate \<Rightarrow> int" where
  "file_attempt l x = getd (ls_attempts l) (cand_identity x) 0 + 1"

definition delivered_file :: "loop_state \<Rightarrow> candidate \<Rightarrow> delivery" where
  "delivered_file l x = \<lparr>dl_consumer = co_id (ls_consumer l), dl_message = fst (snd (snd x)), dl_identity = cand_identity x,
     dl_sequence = fst x, dl_attempt = file_attempt l x, dl_done = False\<rparr>"

definition attempts_after :: "loop_state \<Rightarrow> candidate \<Rightarrow> (string \<times> int) list" where
  "attempts_after l x = put (cand_identity x) (file_attempt l x) (ls_attempts l)"

definition own_attempted :: "loop_state \<Rightarrow> candidate \<Rightarrow> files" where
  "own_attempted l x = write_all [write_attempts (attempts_after l x)] (ls_own l)"

definition handed_out :: "loop_state \<Rightarrow> candidate \<Rightarrow> loop_state" where
  "handed_out l x = l\<lparr>ls_attempts := attempts_after l x, ls_consumer := (ls_consumer l)\<lparr>co_active := Some x\<rparr>,
     ls_own := own_attempted l x, ls_written := ls_written l @ [write_attempts (attempts_after l x)]\<rparr>"

definition dead_letter_of :: "loop_state \<Rightarrow> candidate \<Rightarrow> path \<times> json" where
  "dead_letter_of l x = dead_letter_file (cand_identity x) (file_attempt l x) (fst (snd (snd x))) (own_attempted l x)"

definition own_dead :: "loop_state \<Rightarrow> candidate \<Rightarrow> files" where
  "own_dead l x = write_all [dead_letter_of l x] (own_attempted l x)"

definition saved_by :: "loop_state \<Rightarrow> candidate \<Rightarrow> (path \<times> json) list" where
  "saved_by l x = save_ack (fst x) (cand_source x) (List.insert (cand_identity x) (ls_processed l)) (own_dead l x)"

definition given_up :: "loop_state \<Rightarrow> candidate \<Rightarrow> loop_state" where
  "given_up l x = \<lparr>ls_cursor = file_cursor (write_all (saved_by l x) (own_dead l x)),
     ls_processed = List.insert (cand_identity x) (ls_processed l), ls_attempts = attempts_after l x,
     ls_consumer = (ls_consumer l)\<lparr>co_active := None\<rparr>, ls_own = write_all (saved_by l x) (own_dead l x),
     ls_written = ls_written l @ [write_attempts (attempts_after l x)] @ [dead_letter_of l x] @ saved_by l x\<rparr>"

lemma receive_file_turn_cases: "receive_file_turn fs l = (case file_chosen fs l of
     Inl e \<Rightarrow> FileFailed e | Inr None \<Rightarrow> FileIdle
   | Inr (Some x) \<Rightarrow> if file_attempt l x > sub_max_retries (co_subscription (ls_consumer l))
       then FileGiveUp (given_up l x) else FileDeliver (delivered_file l x) (handed_out l x))"
proof (cases "file_chosen fs l")
  case (Inr r)
  show ?thesis
  proof (cases r)
    case (Some x)
    obtain n i m src where "x = (n, i, m, src)" by (cases x)
    with Inr Some show ?thesis
      by (simp add: receive_file_turn_def Let_def file_attempt_def delivered_file_def handed_out_def given_up_def
          attempts_after_def own_attempted_def dead_letter_of_def own_dead_def saved_by_def del: write_all_simps)
  qed (simp add: receive_file_turn_def Inr)
qed (simp add: receive_file_turn_def)

lemma turn_FileDeliver:
  "receive_file_turn fs l = FileDeliver d l' \<longleftrightarrow> (\<exists>x. file_chosen fs l = Inr (Some x) \<and>
     file_attempt l x \<le> sub_max_retries (co_subscription (ls_consumer l)) \<and> d = delivered_file l x \<and> l' = handed_out l x)"
  by (auto simp: receive_file_turn_cases split: sum.splits option.splits if_splits)

lemma turn_FileGiveUp:
  "receive_file_turn fs l = FileGiveUp l' \<longleftrightarrow> (\<exists>x. file_chosen fs l = Inr (Some x) \<and>
     file_attempt l x > sub_max_retries (co_subscription (ls_consumer l)) \<and> l' = given_up l x)"
  by (auto simp: receive_file_turn_cases split: sum.splits option.splits if_splits)

lemma own_frames [simp]:
  "file_cursor (own_attempted l x) = file_cursor (ls_own l)"
  "file_processed (own_attempted l x) = file_processed (ls_own l)"
  "getd (file_attempts (own_attempted l x)) = getd (attempts_after l x)"
  "file_attempts (own_dead l x) = file_attempts (own_attempted l x)"
  "set (file_processed (write_all (saved_by l x) own)) = insert (cand_identity x) (set (ls_processed l))"
  "file_attempts (write_all (saved_by l x) own) = file_attempts own"
  by (simp_all add: own_attempted_def own_dead_def dead_letter_of_def saved_by_def del: write_all_simps)

text \<open>The variables of the loop agree with the files.\<close>

definition loop_synced :: "loop_state \<Rightarrow> bool" where
  "loop_synced l \<longleftrightarrow> ls_cursor l = file_cursor (ls_own l) \<and> set (ls_processed l) = set (file_processed (ls_own l)) \<and>
     getd (ls_attempts l) = getd (file_attempts (ls_own l))"

lemma ls_consumer_start [simp]: "ls_consumer (loop_start cs) = fst cs"
  by (simp add: loop_start_def)

lemma loop_synced_start: "loop_synced (loop_start cs)"
  by (simp add: loop_synced_def loop_start_def)

lemma synced_given_up: "loop_synced (given_up l x)"
  by (simp add: loop_synced_def given_up_def)

lemma synced_handed_out: "loop_synced l \<Longrightarrow> loop_synced (handed_out l x)"
  by (simp add: loop_synced_def handed_out_def)

text \<open>An invariant of the loop: it holds before, after each message given up and after the delivery.\<close>

lemma receive_loop_invariant:
  assumes "P l" and "\<And>l x. P l \<Longrightarrow> file_chosen fs l = Inr (Some x) \<Longrightarrow> P (given_up l x)"
    and "\<And>l x. P l \<Longrightarrow> file_chosen fs l = Inr (Some x) \<Longrightarrow> P (handed_out l x)"
  shows "P (snd (receive_file_loop fs l))"
  using assms
proof (induction fs l rule: receive_file_loop.induct [case_names turn])
  case (turn fs l)
  show ?case
  proof (cases "receive_file_turn fs l")
    case (FileGiveUp l')
    then have "P l'" using turn.prems(1,2) unfolding turn_FileGiveUp by blast
    moreover have "receive_file_loop fs l = receive_file_loop fs l'" using FileGiveUp by (simp add: receive_file_loop.simps [of fs l])
    ultimately show ?thesis using turn.IH [OF FileGiveUp] turn.prems(2,3) by metis
  next
    case (FileDeliver d l')
    then have "P l'" using turn.prems(1,3) unfolding turn_FileDeliver by blast
    with FileDeliver show ?thesis by (simp add: receive_file_loop.simps [of fs l])
  qed (use turn.prems(1) in \<open>simp_all add: receive_file_loop.simps [of fs l]\<close>)
qed

text \<open>What the loop hands out.\<close>

lemma file_loop_Some:
  assumes "receive_file_loop fs l = (Inr (Some d), l')" and "loop_synced l"
  shows "\<exists>l1 x. loop_synced l1 \<and> file_chosen fs l1 = Inr (Some x) \<and>
    file_attempt l1 x \<le> sub_max_retries (co_subscription (ls_consumer l1)) \<and>
    d = delivered_file l1 x \<and> l' = handed_out l1 x \<and>
    ls_consumer l1 \<in> {ls_consumer l, (ls_consumer l)\<lparr>co_active := None\<rparr>}"
  using assms
proof (induction fs l rule: receive_file_loop.induct [case_names turn])
  case (turn fs l)
  show ?case
  proof (cases "receive_file_turn fs l")
    case (FileGiveUp l1)
    then obtain x where l1: "l1 = given_up l x" unfolding turn_FileGiveUp by blast
    then have c: "{ls_consumer l1, (ls_consumer l1)\<lparr>co_active := None\<rparr>} \<subseteq>
        {ls_consumer l, (ls_consumer l)\<lparr>co_active := None\<rparr>}" by (simp add: given_up_def)
    have "loop_synced l1" unfolding l1 by (rule synced_given_up)
    moreover have "receive_file_loop fs l1 = (Inr (Some d), l')"
      using turn.prems(1) FileGiveUp by (simp add: receive_file_loop.simps [of fs l])
    ultimately show ?thesis using turn.IH [OF FileGiveUp] c by blast
  next
    case (FileDeliver d1 l1)
    with turn.prems(1) have "d1 = d" "l1 = l'" by (simp_all add: receive_file_loop.simps [of fs l])
    with FileDeliver turn.prems(2) show ?thesis unfolding turn_FileDeliver by blast
  qed (use turn.prems(1) in \<open>simp_all add: receive_file_loop.simps [of fs l]\<close>)
qed

section \<open>Acknowledged messages\<close>

definition processed_names :: "json option \<Rightarrow> string list" where
  "processed_names v = file_processed (case v of None \<Rightarrow> [] | Some j \<Rightarrow> [([''processed.json''], j)])"

lemma file_processed_names: "file_processed own = processed_names (map_of own [''processed.json''])"
  by (simp add: file_processed_def processed_names_def split: option.split)

text \<open>The writes after which the identity is still processed.\<close>

definition keeps :: "string \<Rightarrow> (path \<times> json) list \<Rightarrow> bool" where
  "keeps i ws \<longleftrightarrow> (\<forall>(p, j) \<in> set ws. p = [''processed.json''] \<longrightarrow> i \<in> set (processed_names (Some j)))"

lemma keeps_simps [simp]:
  "keeps i []" "keeps i (us @ vs) \<longleftrightarrow> keeps i us \<and> keeps i vs" 
  "keeps i (write_attempts a # ws) \<longleftrightarrow> keeps i ws" "keeps i (dead_letter_file k n m own # ws) \<longleftrightarrow> keeps i ws"
  by (auto simp: keeps_def write_attempts_def dead_letter_file_def)

lemma keeps_take: "keeps i ws \<Longrightarrow> keeps i (take k ws)"
  by (auto simp: keeps_def dest: in_set_takeD)

lemma keeps_save_ack: "keeps i (save_ack n src ps own) \<longleftrightarrow> i \<in> set ps"
  by (simp add: keeps_def save_ack_def processed_names_def file_processed_def map_filter_JStr)

lemma keeps_write_all:
  assumes "keeps i ws" and "i \<in> set (file_processed own)"
  shows "i \<in> set (file_processed (write_all ws own))"
  using assms
proof (induction ws arbitrary: own)
  case (Cons w ws)
  obtain p j where w: "w = (p, j)" by (cases w)
  from Cons.prems w have "i \<in> set (file_processed (put p j own))"
    by (auto simp: file_processed_names keeps_def)
  moreover have "keeps i ws" using Cons.prems(1) by (simp add: keeps_def)
  ultimately show ?case using Cons.IH w by simp
qed simp

text \<open>The identity is processed, and the consumer does not hold its message.\<close>

definition settled :: "string \<Rightarrow> file_session \<Rightarrow> bool" where
  "settled i cs \<longleftrightarrow> i \<in> set (file_processed (snd cs)) \<and> (\<forall>x. co_active (fst cs) = Some x \<longrightarrow> cand_identity x \<noteq> i)"

definition loop_settled :: "string \<Rightarrow> loop_state \<Rightarrow> bool" where
  "loop_settled i l \<longleftrightarrow> i \<in> set (ls_processed l) \<and> settled i (ls_consumer l, ls_own l) \<and> keeps i (ls_written l)"

lemma loop_settled_start: "settled i cs \<Longrightarrow> loop_settled i (loop_start cs)"
  by (simp add: loop_settled_def loop_start_def settled_def)

lemma settled_chosen:
  assumes "loop_settled i l" and "file_chosen fs l = Inr (Some x)"
  shows "cand_identity x \<noteq> i"
proof (cases "co_active (ls_consumer l)")
  case None
  with assms(2) have "file_next (co_subscription (ls_consumer l)) (ls_cursor l) (ls_processed l) fs = Inr (Some x)"
    by (simp add: file_chosen_def)
  from file_next_mem(2) [OF this] have "cand_identity x \<notin> set (ls_processed l)"
    by (auto simp: eligible_def)
  then show ?thesis using assms(1) by (auto simp: loop_settled_def)
next
  case (Some y)
  with assms show ?thesis by (auto simp: file_chosen_def loop_settled_def settled_def)
qed

lemma loop_settled_turn:
  assumes "loop_settled i l" and "file_chosen fs l = Inr (Some x)"
  shows "loop_settled i (given_up l x)" and "loop_settled i (handed_out l x)"
proof -
  note x = settled_chosen [OF assms]
  have "i \<in> set (List.insert (cand_identity x) (ls_processed l))" using assms(1) by (simp add: loop_settled_def)
  moreover from this have "keeps i (saved_by l x)" by (simp add: saved_by_def keeps_save_ack)
  ultimately show "loop_settled i (given_up l x)"
    using assms(1) by (simp add: loop_settled_def settled_def given_up_def dead_letter_of_def)
  show "loop_settled i (handed_out l x)"
    using assms(1) x by (simp add: loop_settled_def settled_def handed_out_def)
qed

lemma loop_settled_receive:
  assumes "settled i cs"
  shows "loop_settled i (snd (receive_file_loop fs (loop_start cs)))"
  by (rule receive_loop_invariant [of "loop_settled i"])
    (use loop_settled_start [OF assms] loop_settled_turn in auto)

lemma settled_receive:
  assumes "settled i cs"
  shows "settled i (snd (file_receive fs cs))" and "keeps i (receive_writes fs cs)"
  using assms loop_settled_receive [OF assms, of fs]
  by (auto simp: file_receive_def receive_writes_def loop_settled_def split: prod.split)

lemma settled_received:
  assumes "settled i cs" and "file_receive fs cs = (Inr (Some d), cs')"
  shows "dl_identity d \<noteq> i"
proof -
  from assms(2) have "\<exists>l. receive_file_loop fs (loop_start cs) = (Inr (Some d), l)"
    by (auto simp: file_receive_def split: if_splits prod.splits)
  then obtain l where l: "receive_file_loop fs (loop_start cs) = (Inr (Some d), l)" ..
  from file_loop_Some [OF this loop_synced_start] obtain l1 x where
    "d = delivered_file l1 x" "l = handed_out l1 x" by blast
  moreover have "loop_settled i l" using loop_settled_receive [OF assms(1), of fs] l by simp
  ultimately show ?thesis by (auto simp: loop_settled_def settled_def handed_out_def delivered_file_def)
qed

lemma settled_ack:
  assumes "settled i cs"
  shows "settled i (snd (file_ack d cs))" and "keeps i (ack_writes d cs)"
proof -
  show keep: "keeps i (ack_writes d cs)" using assms by (simp add: ack_writes_def keeps_save_ack settled_def)
  have "i \<in> set (file_processed (write_all (ack_writes d cs) (snd cs)))"
    using keeps_write_all [OF keep] assms by (simp add: settled_def)
  then show "settled i (snd (file_ack d cs))"
    using assms by (auto simp: file_ack_def settled_def split: option.split)
qed

lemma acked_settled:
  assumes "file_ack d cs = (Inr d', cs')" and "\<not> dl_done d"
  shows "settled (dl_identity d) cs'"
  using assms by (auto simp: file_ack_def settled_def ack_writes_def split: if_splits option.splits prod.splits)

section \<open>Steps of a subscription\<close>

text \<open>
  What can happen to the consumer of a subscription, whatever the message files are at that time: it
  receives or acknowledges, the process stops in the middle of either, and a new process opens the
  subscription on the files that are there.
\<close>

inductive file_step :: "file_session \<Rightarrow> file_session \<Rightarrow> bool" where
  received: "file_step cs (snd (file_receive fs cs))"
| acknowledged: "file_step cs (snd (file_ack d cs))"
| reopened: "file_open n (co_subscription (fst cs)) fa = (Inr c, fa') \<Longrightarrow> file_step cs (c, snd cs)"
| receive_stopped: "file_open n (co_subscription (fst cs)) fa = (Inr c, fa') \<Longrightarrow>
    file_step cs (c, write_all (take k (receive_writes fs cs)) (snd cs))"
| ack_stopped: "dl_consumer d = co_id (fst cs) \<Longrightarrow> \<not> dl_done d \<Longrightarrow>
    file_open n (co_subscription (fst cs)) fa = (Inr c, fa') \<Longrightarrow>
    file_step cs (c, write_all (take k (ack_writes d cs)) (snd cs))"

lemma file_open_idle: "file_open n sub fa = (Inr c, fa') \<Longrightarrow> co_active c = None \<and> co_subscription c = sub \<and> \<not> co_closed c"
  by (auto simp: file_open_def split: if_splits)

lemma settled_interrupted:
  assumes "settled i cs" and "keeps i ws" and "co_active c = None"
  shows "settled i (c, write_all (take k ws) (snd cs))"
  using assms keeps_write_all [OF keeps_take] by (simp add: settled_def)

lemma settled_step:
  assumes "file_step cs cs'" and "settled i cs"
  shows "settled i cs'"
  using assms
proof (induction rule: file_step.induct)
  case (reopened n cs fa c fa')
  then show ?case using file_open_idle [OF reopened.hyps] by (simp add: settled_def)
next
  case (receive_stopped n cs fa c fa' k fs)
  then show ?case using settled_interrupted settled_receive(2) file_open_idle by blast
next
  case (ack_stopped d cs n fa c fa' k)
  then show ?case using settled_interrupted settled_ack(2) file_open_idle by blast
qed (simp_all add: settled_receive settled_ack)


section \<open>Redelivery\<close>

lemma file_next_cong: "set ps = set qs \<Longrightarrow> file_next sub cursor ps fs = file_next sub cursor qs fs"
proof -
  assume "set ps = set qs"
  then have "eligible cursor ps = eligible cursor qs" by (simp add: eligible_def fun_eq_iff)
  then show ?thesis by (simp add: file_next_def)
qed

lemma file_nack_same [simp]: "snd (file_nack d cs) = cs"
  by (simp add: file_nack_def)

lemma receive_loop_delivers:
  assumes "file_chosen fs l = Inr (Some x)" and "file_attempt l x \<le> sub_max_retries (co_subscription (ls_consumer l))"
  shows "receive_file_loop fs l = (Inr (Some (delivered_file l x)), handed_out l x)"
  using assms by (simp add: receive_file_loop.simps [of fs l] receive_file_turn_cases)

text \<open>The next loop over the same message files chooses the same message, after the same consumer or a new one.\<close>

lemma chosen_again:
  assumes "loop_synced l" and "file_chosen fs l = Inr (Some x)" and "co_active (ls_consumer l) = None"
    and "co_subscription (fst cs) = co_subscription (ls_consumer l)" and "co_active (fst cs) \<in> {None, Some x}"
    and "snd cs = own_attempted l x"
  shows "file_chosen fs (loop_start cs) = Inr (Some x)" and "file_attempt (loop_start cs) x = file_attempt l x + 1"
proof -
  have "set (file_processed (snd cs)) = set (ls_processed l)" "file_cursor (snd cs) = ls_cursor l"
    using assms(1,6) by (simp_all add: loop_synced_def)
  with assms(2,3,4,5) file_next_cong [of "file_processed (snd cs)" "ls_processed l"]
  show "file_chosen fs (loop_start cs) = Inr (Some x)" by (auto simp: file_chosen_def loop_start_def)
  show "file_attempt (loop_start cs) x = file_attempt l x + 1"
    unfolding file_attempt_def [of "loop_start cs"] by (simp add: loop_start_def assms(6)) (simp add: attempts_after_def)
qed


section \<open>Termination\<close>

text \<open>The loop \<open>while True\<close> of \<open>receive\<close> with a number of turns it may take.\<close>

fun receive_within :: "nat \<Rightarrow> files \<Rightarrow> loop_state \<Rightarrow> (delivery option result \<times> loop_state) option" where
  "receive_within 0 fs l = None"
| "receive_within (Suc n) fs l = (case receive_file_turn fs l of
     FileIdle \<Rightarrow> Some (Inr None, l)
   | FileFailed e \<Rightarrow> Some (Inl e, l)
   | FileDeliver d l' \<Rightarrow> Some (Inr (Some d), l')
   | FileGiveUp l' \<Rightarrow> receive_within n fs l')"

lemma receive_within_backlog: "file_backlog fs l < n \<Longrightarrow> receive_within n fs l = Some (receive_file_loop fs l)"
proof (induction n arbitrary: l)
  case (Suc n)
  show ?case
  proof (cases "receive_file_turn fs l")
    case (FileGiveUp l')
    with Suc.prems have "file_backlog fs l' < n" using FileGiveUp_backlog [OF FileGiveUp] by simp
    with Suc.IH FileGiveUp show ?thesis by (simp add: receive_file_loop.simps [of fs l])
  qed (simp_all add: receive_file_loop.simps [of fs l])
qed simp

lemma length_map_filter: "length (List.map_filter f xs) \<le> length xs"
  by (simp add: List.map_filter_def)

lemma file_backlog_le: "file_backlog fs l \<le>
    length (listing (stream_dir (sub_topic sub) (sub_mission_id sub)) fs) +
    length (listing (queue_dir (sub_service_id sub) (sub_mission_id sub)) fs) + 1"
  if "sub = co_subscription (ls_consumer l)"
proof -
  have "length (filter P (all_entries sub fs)) \<le> length (all_entries sub fs)" for P by (rule length_filter_le)
  also have "length (all_entries sub fs) \<le> length (listing (stream_dir (sub_topic sub) (sub_mission_id sub)) fs) +
      length (listing (queue_dir (sub_service_id sub) (sub_mission_id sub)) fs)"
    unfolding all_entries_def length_append by (intro add_mono length_map_filter)
  finally show ?thesis unfolding file_backlog_def that [symmetric] by (simp add: le_SucI)
qed

text \<open>C29: \<open>receive\<close> ends. Its loop, which runs until it finds a message to hand out or no message is left,
  returns after at most one turn for each message file of the subscription and two
  more, whatever the files and the state of the consumer are.\<close>

theorem receive_terminates:
  assumes "length (listing (stream_dir (sub_topic (co_subscription c)) (sub_mission_id (co_subscription c))) fs) +
    length (listing (queue_dir (sub_service_id (co_subscription c)) (sub_mission_id (co_subscription c))) fs) + 2 \<le> n"
  shows "\<exists>r l. receive_within n fs (loop_start (c, own)) = Some (r, l) \<and>
    (\<not> co_closed c \<longrightarrow> file_receive fs (c, own) = (r, (ls_consumer l, ls_own l)))"
proof -
  have "co_subscription c = co_subscription (ls_consumer (loop_start (c, own)))" by (simp add: loop_start_def)
  from file_backlog_le [OF this, of fs] assms have "file_backlog fs (loop_start (c, own)) < n" by simp
  from receive_within_backlog [OF this] show ?thesis
    by (cases "receive_file_loop fs (loop_start (c, own))") (auto simp: file_receive_def)
qed

section \<open>A concrete subscription\<close>

definition ex_files :: files where
  "ex_files = write_all (snd (file_send ex_command [])) []"

definition ex_adapter :: file_adapter where
  "ex_adapter = \<lparr>fa_subscriptions = [ex_sub], fa_max_retries = 3, fa_locked = []\<rparr>"

definition ex_file_received :: file_session where
  "ex_file_received = snd (file_receive ex_files (ex_consumer, []))"

definition ex_file_acked :: file_session where
  "ex_file_acked = snd (file_ack ex_delivery ex_file_received)"

lemma ex_file_receive: "file_receive ex_files (ex_consumer, []) = (Inr (Some ex_delivery), ex_file_received)"
  by code_simp

lemma ex_file_open: "file_open 8 ex_sub ex_adapter =
    (Inr (ex_consumer\<lparr>co_id := 8\<rparr>), ex_adapter\<lparr>fa_locked := [state_dir ex_sub]\<rparr>)"
  by code_simp


theorem receive_terminates_witness:
  "\<exists>r l. receive_within 3 ex_files (loop_start (ex_consumer, [])) = Some (r, l) \<and>
    (\<not> co_closed ex_consumer \<longrightarrow> file_receive ex_files (ex_consumer, []) = (r, (ls_consumer l, ls_own l)))"
  by (rule receive_terminates) code_simp

text \<open>
  A second command is sent; its delivery is interrupted after the attempts are written, and a new
  process receives it.
\<close>

definition ex_command2 :: command where
  "ex_command2 = ex_command\<lparr>cmd_command_id := ''c2''\<rparr>"

definition ex_files2 :: files where
  "ex_files2 = write_all (snd (file_send ex_command2 ex_files)) ex_files"

definition ex_stopped :: file_session where
  "ex_stopped = (ex_consumer\<lparr>co_id := 8\<rparr>,
     write_all (take 1 (receive_writes ex_files2 ex_file_acked)) (snd ex_file_acked))"

definition ex_delivery2 :: delivery where
  "ex_delivery2 = \<lparr>dl_consumer = 8, dl_message = MCommand ex_command2, dl_identity = ''c2'', dl_sequence = 1,
     dl_attempt = 2, dl_done = False\<rparr>"

lemma ex_file_step: "file_step ex_file_acked ex_stopped"
proof -
  have "co_subscription (fst ex_file_acked) = ex_sub" by code_simp
  with ex_file_open have "file_open 8 (co_subscription (fst ex_file_acked)) ex_adapter =
    (Inr (ex_consumer\<lparr>co_id := 8\<rparr>), ex_adapter\<lparr>fa_locked := [state_dir ex_sub]\<rparr>)" by simp
  from file_step.receive_stopped [OF this] show ?thesis unfolding ex_stopped_def .
qed

lemma ex_file_run: "file_step\<^sup>*\<^sup>* ex_file_acked ex_stopped"
  using ex_file_step by (rule r_into_rtranclp [of file_step])


section \<open>Where the consumers differ, and what an interruption leaves\<close>

definition ex_general :: command where
  "ex_general = ex_command\<lparr>cmd_command_kind := ''commands''\<rparr>"

text \<open>The two transports do not deliver the same commands. A command of the kind \<open>commands\<close> is accepted
  by both; the in-process consumer of its service hands it out, and the consumer of the file transport finds
  nothing to deliver, also on later calls, because its filter lacks this kind.\<close>

theorem general_command_not_delivered:
  "let s = snd (send_command ex_general ex_opened);
       fs = write_all (snd (file_send ex_general [])) [];
       (r, cs) = file_receive fs (ex_consumer, [])
   in fst (send_command ex_general ex_opened) = Inr (receipt_for ex_general) \<and>
      fst (file_send ex_general []) = Inr (receipt_for ex_general) \<and>
      fst (receive (ex_consumer, s)) = Inr (Some (ex_delivery\<lparr>dl_message := MCommand ex_general\<rparr>)) \<and>
      r = Inr None \<and> fst (file_receive fs cs) = Inr None"
  by code_simp

text \<open>A message given up can be dead-lettered twice. A command is delivered twice, the limit of its
  subscription; the third \<open>receive\<close> writes the dead letter and stops before the cursor and the
  processed identities are written. The next process counts a fourth attempt, gives the command up again
  and writes a second dead letter for it.\<close>

theorem dead_letter_repeated:
  "let cs2 = snd (file_receive ex_files ex_file_received);
       stopped = write_all (take 2 (receive_writes ex_files cs2)) (snd cs2);
       (r, cs3) = file_receive ex_files (ex_consumer\<lparr>co_id := 8\<rparr>, stopped)
   in r = Inr None \<and> file_processed (snd cs3) = [''c1''] \<and>
      map (\<lambda>j. case j of JObj o' \<Rightarrow> (map_of o' ''identity'', map_of o' ''attempt'') | _ \<Rightarrow> (None, None))
        (file_dead_letters (snd cs3)) =
        [(Some (JStr ''c1''), Some (JInt 3)), (Some (JStr ''c1''), Some (JInt 4))]"
  by code_simp

end
