(* ===== verification/FSM_Delivery.thy ===== *)
theory FSM_Delivery
  imports FSM_Runner
begin

text \<open>
  \<open>FSMRunner.run_once\<close> of \<open>src/onr/application/fsm.py\<close> on a consumer of the in-process transport: the runner,
  its consumer and the transport together. Events that are not Statecharts are acknowledged and skipped, a
  Statechart is acknowledged after it was activated, and a failure leaves the message for redelivery.
\<close>

section \<open>One run\<close>

type_synonym 'm fsm_session = "'m runner \<times> session"

fun fsm_message_of :: "message \<Rightarrow> fsm_message" where
  "fsm_message_of (MEvent e) = EventMessage e"
| "fsm_message_of (MCommand c) = OtherMessage"
| "fsm_message_of (MOutcome r) = OtherMessage"

fun skipped_message :: "message \<Rightarrow> bool" where
  "skipped_message (MEvent e) \<longleftrightarrow> te_event_kind e \<noteq> ''statechart''"
| "skipped_message (MCommand c) \<longleftrightarrow> False"
| "skipped_message (MOutcome r) \<longleftrightarrow> False"

definition failure_log :: "'m runner \<Rightarrow> log_call" where
  "failure_log ru = \<lparr>lc_mission_id = (case ru_subscription ru of Some sub \<Rightarrow> sub_mission_id sub | None \<Rightarrow> ''unknown''),
     lc_source = ''fsm-runner'', lc_event_kind = ''error'', lc_outcome = ''failed'',
     lc_details = [(''operation'', JStr ''run_once''), (''error_type'', JStr ''fsm_error'')]\<rparr>"

text \<open>The message is handled: a failure is not acknowledged, logged and raised again.\<close>

definition run_delivery :: "'m machine_port option \<Rightarrow> delivery \<Rightarrow> (fsm_status option, 'm fsm_session) eff" where
  "run_delivery F d rs = (case rs of (ru, (c, s)) \<Rightarrow>
     (case handle inprocess_events F (fsm_message_of (dl_message d)) (ru, s) of
        (Inl e, (ru1, s1)) \<Rightarrow> bindS (onSnd (nack d)) (\<lambda>_ rs1.
          bindS (emit (failure_log (fst rs1))) (\<lambda>_. raiseS e) rs1) (ru1, (c, s1))
      | (Inr status, (ru1, s1)) \<Rightarrow> bindS (onSnd (ack d)) (\<lambda>_. returnS (Some status)) (ru1, (c, s1))))"

text \<open>Each acknowledged event leaves the backlog, so the loop over skipped events ends.\<close>

lemma receive_loop_backlog:
  assumes "receive_loop cs = (Some d, cs')"
  shows "\<exists>c s x. receive_turn (c, s) = Deliver d cs' \<and> chosen (c, s) = Some x \<and> backlog (c, s) \<le> backlog cs"
  using assms
proof (induction cs rule: receive_loop.induct [case_names turn])
  case (turn cs)
  show ?case
  proof (cases "receive_turn cs")
    case Idle
    with turn.prems show ?thesis by (simp add: receive_loop.simps [of cs])
  next
    case (Deliver e cs1)
    with turn.prems have "receive_turn cs = Deliver d cs'" by (simp add: receive_loop.simps [of cs])
    moreover from this obtain x where "chosen cs = Some x"
      by (cases cs; cases "chosen cs") (auto simp: receive_turn_chosen)
    ultimately show ?thesis by (metis order_refl prod.collapse)
  next
    case (GiveUp cs1)
    with turn.prems have "receive_loop cs1 = (Some d, cs')" by (simp add: receive_loop.simps [of cs])
    from turn.IH [OF GiveUp this] GiveUp_backlog [OF GiveUp] show ?thesis
      by (meson le_less_trans less_imp_le)
  qed
qed

lemma backlog_with_defaults [simp]: "backlog (c, with_defaults (co_subscription c) s) = backlog (c, s)"
  by (simp add: backlog_def unprocessed_def)

lemma backlog_acked:
  assumes "chosen (c, s) = Some x" and "receive_turn (c, s) = Deliver d cs1" and "ack d cs1 = (Inr d', cs')"
  shows "backlog cs' < backlog (c, s)"
proof -
  obtain n i m src where x: "x = (n, i, m, src)" by (cases x)
  let ?sub = "co_subscription c" and ?s1 = "attempted (co_subscription c) x s"
  from assms(1,2) have d: "d = delivery_of c x s" "cs1 = (c\<lparr>co_active := Some x\<rparr>, ?s1)"
    by (auto simp: receive_turn_chosen split: if_splits)
  with assms(3) have cs': "cs' = (c\<lparr>co_active := None\<rparr>, save_cursor ?sub n src (add_processed ?sub i ?s1))"
    by (auto simp: ack_def delivery_of_def x Let_def)
  have frame: "delivery_candidates ?sub (snd cs') = delivery_candidates ?sub s"
    "set (processed_of ?sub (snd cs')) = insert i (set (processed_of ?sub s))"
    unfolding cs' by (simp_all add: attempted_def)
  show ?thesis
  proof (cases "co_active c")
    case None
    with assms(1) have "next_candidate ?sub s = Some x" by (simp add: chosen_pair)
    note next_candidate_Some [OF this]
    then have "length (unprocessed ?sub (snd cs')) < length (unprocessed ?sub s)"
      using frame x by (intro unprocessed_less [of x]) (auto simp: eligible_def)
    with None cs' show ?thesis by (simp add: backlog_def)
  next
    case (Some y)
    have "length (unprocessed ?sub (snd cs')) \<le> length (unprocessed ?sub s)"
      using frame by (intro unprocessed_le) auto
    with Some cs' show ?thesis by (simp add: backlog_def)
  qed
qed

lemma receive_ack_backlog:
  assumes "receive cs = (Inr (Some d), cs1)" and "ack d cs1 = (Inr d', cs')"
  shows "backlog cs' < backlog cs"
proof -
  obtain c s where cs: "cs = (c, s)" by (cases cs)
  from assms(1) have "receive_loop (c, with_defaults (co_subscription c) s) = (Some d, cs1)"
    by (auto simp: receive_def cs split: if_splits prod.splits)
  from receive_loop_backlog [OF this] obtain c1 s1 x where
    "receive_turn (c1, s1) = Deliver d cs1" "chosen (c1, s1) = Some x" "backlog (c1, s1) \<le> backlog cs"
    by (auto simp: cs)
  with backlog_acked [OF this(2,1) assms(2)] show ?thesis by simp
qed

function run_once :: "'m machine_port option \<Rightarrow> (fsm_status option, 'm fsm_session) eff" where
  "run_once F rs = (case receive (snd rs) of
     (Inl e, cs) \<Rightarrow> (Inl e, (fst rs, cs))
   | (Inr None, cs) \<Rightarrow> (Inr None, (fst rs, cs))
   | (Inr (Some d), cs) \<Rightarrow>
       (if skipped_message (dl_message d)
        then (case ack d cs of (Inl e, cs1) \<Rightarrow> (Inl e, (fst rs, cs1)) | (Inr _, cs1) \<Rightarrow> run_once F (fst rs, cs1))
        else run_delivery F d (fst rs, cs)))"
  by auto
termination
  by (relation "measure (\<lambda>(F, rs). backlog (snd rs))") (auto intro!: receive_ack_backlog dest: sym)

declare run_once.simps [simp del]

text \<open>\<open>run_once\<close> with a message instead of a consumer.\<close>

definition run_message :: "'s event_port \<Rightarrow> 'm machine_port option \<Rightarrow> fsm_message \<Rightarrow>
  (fsm_status option, 'm runner \<times> 's) eff" where
  "run_message P F m = bindS (handle P F m) (\<lambda>status. returnS (Some status))"

section \<open>What handling does to the deliveries\<close>

text \<open>The parts of the transport that belong to the consumers and the command queues.\<close>

definition same_deliveries :: "transport_state \<Rightarrow> transport_state \<Rightarrow> bool" where
  "same_deliveries s s' \<longleftrightarrow> ts_processed s' = ts_processed s \<and> ts_attempts s' = ts_attempts s \<and>
     ts_dead_letters s' = ts_dead_letters s \<and> ts_cursors s' = ts_cursors s \<and> ts_active s' = ts_active s"

lemma same_deliveries_refl [simp]: "same_deliveries s s"
  by (simp add: same_deliveries_def)

lemma same_deliveries_trans: "same_deliveries s s' \<Longrightarrow> same_deliveries s' s'' \<Longrightarrow> same_deliveries s s''"
  by (simp add: same_deliveries_def)

lemma same_deliveries_publish: "same_deliveries s (snd (publish_event t e s))"
  by (auto simp: publish_event_def same_deliveries_def Let_def split: option.split)

lemma same_deliveriesD:
  assumes "same_deliveries s s'"
  shows "processed_of sub s' = processed_of sub s" "attempts_of sub s' = attempts_of sub s"
    "get_dead_letters sub s' = get_dead_letters sub s" "get_cursor sub s' = get_cursor sub s"
  using assms by (simp_all add: same_deliveries_def processed_of_def attempts_of_def get_dead_letters_def get_cursor_def)

lemma publish_status_deliveries:
  "same_deliveries s (snd (snd (publish_status inprocess_events reason pub (ru, s))))"
  by (auto simp: publish_status_def bindS_cases inprocess_events_def next_event_sequence_def emit_def
      same_deliveries_publish split: option.split sum.split)

lemma install_deliveries: "same_deliveries s (snd (snd (install inprocess_events F chart (ru, s))))"
proof (cases F)
  case None
  then show ?thesis by (auto simp: install_def bindS_cases publish_status_deliveries split: sum.split option.split)
next
  case (Some f)
  then show ?thesis by (auto simp: install_def bindS_cases publish_status_deliveries split: sum.split option.split)
qed

lemma handle_deliveries: "same_deliveries s (snd (snd (handle inprocess_events F m (ru, s))))"
  by (auto simp: handle_def bindS_cases check_subscription_def install_deliveries publish_status_deliveries
      split: sum.split option.split)

text \<open>A handled message leaves its Statechart active.\<close>

lemma handle_activates:
  assumes inv: "runner_inv ru" and m: "message_wf m" and h: "handle P F m (ru, s) = (Inr status, (ru', s'))"
  shows "\<exists>chart current. chart_from_message m = Inr chart \<and> ru_chart ru' = Some current \<and>
    (current = chart \<or> statechart_eq chart current)"
proof -
  obtain c where c: "chart_from_message m = Inr c" using h by (cases "chart_from_message m") (simp_all add: handle_def)
  obtain r ru1 s1 where r: "check_subscription c (ru, s) = (r, (ru1, s1))" by (metis prod.collapse)
  with h c have sub: "check_subscription c (ru, s) = (Inr (), (ru1, s1))"
    by (cases r) (simp_all add: handle_def bindS_Inl)
  with h c have k: "(case ru_chart ru1 of None \<Rightarrow> install P F c (ru1, s1)
      | Some current \<Rightarrow>
         if sc_plan_revision c < sc_plan_revision current then (Inl (ValueError Regression), (ru1, s1))
         else if sc_plan_revision c = sc_plan_revision current
         then if \<not> statechart_eq c current then (Inl (ValueError Conflict), (ru1, s1))
           else publish_status P ''updated'' False (ru1, s1)
         else install P F c (ru1, s1)) = (Inr status, (ru', s'))"
    by (simp add: handle_def bindS_Inr)
  have ru1: "ru1 = ru \<or> (\<exists>sub. ru1 = ru\<lparr>ru_subscription := Some sub\<rparr> \<and> ru_chart ru = None)"
    using sub inv by (auto simp: check_subscription_def bindS_cases runner_inv_def split: option.splits sum.splits if_splits)
  then have inv1: "runner_inv ru1" using inv by (auto simp: runner_inv_def split: option.splits)
  have wf: "statechart_wf c" by (rule chart_from_message_wf [OF c m])
  have installs: "ru_chart ru' = Some c" if "install P F c (ru1, s1) = (Inr status, (ru', s'))"
    using install_control [OF inv1 wf, of P F s1] that by (simp add: same_control_def installed_def Let_def)
  show ?thesis
  proof (cases "ru_chart ru1")
    case None
    with k installs c show ?thesis by simp
  next
    case (Some current)
    have keeps: "ru_chart ru' = Some current" if "publish_status P ''updated'' False (ru1, s1) = (Inr status, (ru', s'))"
      using publish_status_frame [of ru1 P "''updated''" False s1] that Some by (simp add: same_control_def)
    from k Some c installs keeps show ?thesis by (auto split: if_splits)
  qed
qed

section \<open>What receiving and acknowledging do\<close>

text \<open>Only the messages dead-lettered meanwhile and those of a given set have become processed.\<close>

definition settles :: "string set \<Rightarrow> session \<Rightarrow> session \<Rightarrow> bool" where
  "settles I cs cs' \<longleftrightarrow> (let sub = co_subscription (fst cs) in
     co_subscription (fst cs') = sub \<and> co_closed (fst cs') = co_closed (fst cs) \<and>
     delivery_candidates sub (snd cs') = delivery_candidates sub (snd cs) \<and>
     (transport_inv (snd cs) \<longrightarrow> transport_inv (snd cs')) \<and>
     (\<exists>ls. get_dead_letters sub (snd cs') = get_dead_letters sub (snd cs) @ ls \<and>
       set (processed_of sub (snd cs')) = set (processed_of sub (snd cs)) \<union> dead_identity ` set ls \<union> I))"

lemma settles_refl: "settles {} cs cs"
  by (simp add: settles_def Let_def)

lemma settles_trans:
  assumes "settles I cs cs1" and "settles J cs1 cs2"
  shows "settles (I \<union> J) cs cs2"
proof -
  let ?sub = "co_subscription (fst cs)"
  from assms(1) obtain ls where ls: "get_dead_letters ?sub (snd cs1) = get_dead_letters ?sub (snd cs) @ ls"
    "set (processed_of ?sub (snd cs1)) = set (processed_of ?sub (snd cs)) \<union> dead_identity ` set ls \<union> I"
    by (auto simp: settles_def Let_def)
  from assms obtain ls' where ls': "get_dead_letters ?sub (snd cs2) = get_dead_letters ?sub (snd cs1) @ ls'"
    "set (processed_of ?sub (snd cs2)) = set (processed_of ?sub (snd cs1)) \<union> dead_identity ` set ls' \<union> J"
    by (auto simp: settles_def Let_def)
  have "\<exists>ks. get_dead_letters ?sub (snd cs2) = get_dead_letters ?sub (snd cs) @ ks \<and>
      set (processed_of ?sub (snd cs2)) = set (processed_of ?sub (snd cs)) \<union> dead_identity ` set ks \<union> (I \<union> J)"
    by (rule exI [of _ "ls @ ls'"]) (use ls ls' in auto)
  with assms show ?thesis by (simp add: settles_def Let_def)
qed

lemma settles_empty: "settles {} cs cs1 \<Longrightarrow> settles J cs1 cs2 \<Longrightarrow> settles J cs cs2"
  using settles_trans [of "{}" cs cs1 J cs2] by simp

lemma settles_GiveUp:
  assumes "receive_turn cs = GiveUp cs'"
  shows "settles {} cs cs'" and "co_active (fst cs') = None"
proof -
  obtain c s where cs: "cs = (c, s)" by (cases cs)
  from assms cs obtain x where x: "cs' = (c\<lparr>co_active := None\<rparr>,
      save_cursor (co_subscription c) (fst x) (cand_source x)
        (add_processed (co_subscription c) (cand_identity x) (dead_lettered (co_subscription c) x s)))"
    by (auto simp: receive_turn_chosen split: option.splits if_splits)
  then show "settles {} cs cs'"
    by (auto simp: settles_def cs Let_def dead_lettered_def attempted_def transport_inv_updates)
  from x show "co_active (fst cs') = None" by simp
qed

lemma settles_Deliver:
  assumes "receive_turn cs = Deliver d cs'"
  shows "settles {} cs cs'"
  using assms by (cases cs; cases "chosen cs")
    (auto simp: receive_turn_chosen settles_def Let_def attempted_def transport_inv_updates split: if_splits)

text \<open>The delivery \<open>d\<close> is the one that the consumer is waiting for.\<close>

definition waiting :: "delivery \<Rightarrow> session \<Rightarrow> bool" where
  "waiting d cs \<longleftrightarrow> (\<exists>src. co_active (fst cs) = Some (dl_sequence d, dl_identity d, dl_message d, src)) \<and>
     dl_identity d \<notin> set (processed_of (co_subscription (fst cs)) (snd cs)) \<and>
     getd (attempts_of (co_subscription (fst cs)) (snd cs)) (dl_identity d) 0 = dl_attempt d \<and>
     dl_attempt d \<le> sub_max_retries (co_subscription (fst cs)) \<and> dl_consumer d = co_id (fst cs) \<and> \<not> dl_done d"

definition holds :: "delivery \<Rightarrow> session \<Rightarrow> bool" where
  "holds d cs \<longleftrightarrow> waiting d cs \<and> (\<exists>src. (dl_sequence d, dl_identity d, dl_message d, src)
     \<in> set (delivery_candidates (co_subscription (fst cs)) (snd cs)))"

lemma holds_Deliver:
  assumes "receive_turn cs = Deliver d cs'" and "co_active (fst cs) = None"
  shows "holds d cs'"
proof -
  obtain c s where cs: "cs = (c, s)" by (cases cs)
  with assms(1) obtain x where x: "chosen (c, s) = Some x" by (cases "chosen (c, s)") (auto simp: receive_turn_chosen)
  with assms cs have next1: "next_candidate (co_subscription c) s = Some x" by (simp add: chosen_pair)
  obtain n i m src where x4: "x = (n, i, m, src)" by (cases x)
  from assms(1) x cs have d: "d = delivery_of c x s" "cs' = (c\<lparr>co_active := Some x\<rparr>, attempted (co_subscription c) x s)"
    "next_attempt (co_subscription c) x s \<le> sub_max_retries (co_subscription c)"
    by (auto simp: receive_turn_chosen split: if_splits)
  with next_candidate_Some [OF next1] x4 show ?thesis
    by (auto simp: holds_def waiting_def delivery_of_def attempted_def eligible_def)
qed

lemma receive_loop_settles:
  assumes "receive_loop cs = (r, cs')"
  shows "settles {} cs cs' \<and> (co_active (fst cs) = None \<longrightarrow> (case r of
    None \<Rightarrow> co_active (fst cs') = None | Some d \<Rightarrow> holds d cs'))"
  using assms
proof (induction cs rule: receive_loop.induct [case_names turn])
  case (turn cs)
  show ?case
  proof (cases "receive_turn cs")
    case Idle
    with turn.prems have "r = None" "cs' = cs" by (simp_all add: receive_loop.simps [of cs])
    then show ?thesis by (simp add: settles_refl)
  next
    case (Deliver d cs1)
    with turn.prems have "r = Some d" "cs' = cs1" by (simp_all add: receive_loop.simps [of cs])
    with settles_Deliver [OF Deliver] holds_Deliver [OF Deliver] show ?thesis by simp
  next
    case (GiveUp cs1)
    with turn.prems have "receive_loop cs1 = (r, cs')" by (simp add: receive_loop.simps [of cs])
    from turn.IH [OF GiveUp this] settles_GiveUp [OF GiveUp] show ?thesis by (auto intro: settles_empty)
  qed
qed

lemma settles_with_defaults: "settles {} (c, s) (c, with_defaults (co_subscription c) s)"
  by (simp add: settles_def Let_def transport_inv_updates)

lemma receive_settles:
  assumes "receive (c, s) = (r, cs')" and "co_active c = None"
  shows "settles {} (c, s) cs' \<and> (case r of
    Inl e \<Rightarrow> co_closed c \<and> cs' = (c, s) | Inr None \<Rightarrow> \<not> co_closed c \<and> co_active (fst cs') = None
    | Inr (Some d) \<Rightarrow> \<not> co_closed c \<and> holds d cs')"
proof (cases "co_closed c")
  case True
  with assms show ?thesis by (auto simp: receive_def settles_refl)
next
  case False
  obtain r1 cs1 where l: "receive_loop (c, with_defaults (co_subscription c) s) = (r1, cs1)" by (metis prod.collapse)
  with assms False have "r = Inr r1" "cs' = cs1" by (auto simp: receive_def)
  with receive_loop_settles [OF l] settles_empty [OF settles_with_defaults] assms(2) False show ?thesis
    by (cases r1) auto
qed

lemma ack_settles:
  assumes "waiting d cs"
  shows "\<exists>cs'. ack d cs = (Inr (d\<lparr>dl_done := True\<rparr>), cs') \<and> settles {dl_identity d} cs cs' \<and> co_active (fst cs') = None"
proof -
  obtain c s where cs: "cs = (c, s)" by (cases cs)
  let ?sub = "co_subscription c"
  from assms cs obtain src where "co_active c = Some (dl_sequence d, dl_identity d, dl_message d, src)"
    "dl_consumer d = co_id c" "\<not> dl_done d" by (auto simp: waiting_def)
  then have "ack d cs = (Inr (d\<lparr>dl_done := True\<rparr>), (c\<lparr>co_active := None\<rparr>,
      save_cursor ?sub (dl_sequence d) src (add_processed ?sub (dl_identity d) s)))"
    by (simp add: ack_def cs Let_def)
  then show ?thesis by (auto simp: settles_def cs Let_def transport_inv_updates)
qed

section \<open>What a run does\<close>

lemma candidate_event:
  assumes "(n, i, MEvent e, src) \<in> set (delivery_candidates sub s)"
  shows "e \<in> set (stream_of s (sub_topic sub) (sub_mission_id sub)) \<and> te_event_id e = i"
proof -
  have "(n, i, MEvent e, src) \<notin> set (command_candidates sub q)" for q
    by (induction sub q rule: command_candidates.induct) simp_all
  with assms show ?thesis by (auto simp: delivery_candidates_def event_candidate_def)
qed

lemma chart_message_event:
  assumes "chart_from_message (fsm_message_of m) = Inr chart"
  obtains e where "m = MEvent e"
  using assms by (cases m) simp_all

lemma delivered_message_wf:
  assumes "holds d (c, s)" and "transport_inv s"
  shows "message_wf (fsm_message_of (dl_message d))"
proof (cases "dl_message d")
  case (MEvent e)
  with assms(1) obtain src where "(dl_sequence d, dl_identity d, MEvent e, src) \<in> set (delivery_candidates (co_subscription c) s)"
    by (auto simp: holds_def)
  from candidate_event [OF this] assms(2) show ?thesis
    unfolding MEvent by (auto simp: transport_inv_def dest: stream_of_event(1))
qed simp_all

lemma waiting_same_deliveries:
  assumes "waiting d (c, s)" and "same_deliveries s s'"
  shows "waiting d (c, s')"
  using assms(1) by (simp add: waiting_def same_deliveriesD [OF assms(2)])

text \<open>A message that is not skipped: it is activated and acknowledged, or it is still waited for.\<close>

lemma run_delivery_cases:
  assumes "runner_inv ru" and "transport_inv s" and d: "holds d (c, s)"
    and run: "run_delivery F d (ru, (c, s)) = (r, (ru', (c', s')))"
  shows "co_subscription c' = co_subscription c \<and> co_closed c' = co_closed c \<and> runner_inv ru' \<and>
    get_dead_letters (co_subscription c) s' = get_dead_letters (co_subscription c) s \<and>
    (case r of Inl e \<Rightarrow> waiting d (c', s') \<and> set (processed_of (co_subscription c) s') = set (processed_of (co_subscription c) s)
     | Inr status \<Rightarrow> co_active c' = None \<and> set (processed_of (co_subscription c) s') =
         insert (dl_identity d) (set (processed_of (co_subscription c) s)) \<and>
        (\<exists>chart current. status \<noteq> None \<and> chart_from_message (fsm_message_of (dl_message d)) = Inr chart \<and>
           ru_chart ru' = Some current \<and> (current = chart \<or> statechart_eq chart current)))"
proof -
  let ?sub = "co_subscription c"
  note m = delivered_message_wf [OF d assms(2)]
  obtain h ru1 s1 where h: "handle inprocess_events F (fsm_message_of (dl_message d)) (ru, s) = (h, (ru1, s1))"
    by (metis prod.collapse)
  have same: "same_deliveries s s1" using handle_deliveries [of s F _ ru] h by (metis snd_conv)
  have inv1: "runner_inv ru1" using handle_inv [OF assms(1) m, of inprocess_events F s] h by simp
  have w: "waiting d (c, s1)" using waiting_same_deliveries [OF _ same] d by (simp add: holds_def)
  note sameD = same_deliveriesD [OF same]
  show ?thesis
  proof (cases h)
    case (Inl e)
    have "nack d (c, s1) = (Inr (), (c, s1))" using w by (simp add: nack_def waiting_def)
    with run h Inl have "r = Inl e" "ru' = ru1\<lparr>ru_log := map_option (\<lambda>ls. ls @ [failure_log ru1]) (ru_log ru1)\<rparr>"
      "c' = c" "s' = s1" by (auto simp: run_delivery_def emit_def bindS_cases)
    moreover from this inv1 have "runner_inv ru'" using same_control_inv same_control_updates(1) by blast
    ultimately show ?thesis using w sameD by simp
  next
    case (Inr status)
    from ack_settles [OF w] obtain cs' where a: "ack d (c, s1) = (Inr (d\<lparr>dl_done := True\<rparr>), cs')"
      "settles {dl_identity d} (c, s1) cs'" "co_active (fst cs') = None" by blast
    with run h Inr have r: "r = Inr (Some status)" "ru' = ru1" "cs' = (c', s')"
      by (auto simp: run_delivery_def bindS_cases)
    obtain ls where "get_dead_letters ?sub s' = get_dead_letters ?sub s1 @ ls"
      "set (processed_of ?sub s') = set (processed_of ?sub s1) \<union> dead_identity ` set ls \<union> {dl_identity d}"
      "co_subscription c' = ?sub" "co_closed c' = co_closed c"
      using a(2) r(3) by (auto simp: settles_def Let_def)
    moreover have "get_dead_letters ?sub s' = get_dead_letters ?sub s1"
      using a(1) r(3) w by (auto simp: ack_def waiting_def Let_def)
    ultimately show ?thesis
      using r a(3) inv1 sameD handle_activates [OF assms(1) m h [unfolded Inr]] by simp
  qed
qed

definition skipped_event :: "subscription \<Rightarrow> transport_state \<Rightarrow> string \<Rightarrow> bool" where
  "skipped_event sub s i \<longleftrightarrow> (\<exists>e \<in> set (stream_of s (sub_topic sub) (sub_mission_id sub)).
     te_event_id e = i \<and> te_event_kind e \<noteq> ''statechart'')"

definition activated_event :: "subscription \<Rightarrow> transport_state \<Rightarrow> 'm runner \<Rightarrow> string \<Rightarrow> bool" where
  "activated_event sub s ru i \<longleftrightarrow> (\<exists>e \<in> set (stream_of s (sub_topic sub) (sub_mission_id sub)). te_event_id e = i \<and>
     (\<exists>chart current. chart_from_message (EventMessage e) = Inr chart \<and> ru_chart ru = Some current \<and>
       (current = chart \<or> statechart_eq chart current)))"

text \<open>What a run makes processed: messages given up, events skipped, and at most one Statechart.\<close>

definition run_outcome :: "'m fsm_session \<Rightarrow> fsm_status option result \<Rightarrow> 'm fsm_session \<Rightarrow> bool" where
  "run_outcome rs r rs' \<longleftrightarrow> (case (rs, rs') of ((ru, (c, s)), (ru', (c', s'))) \<Rightarrow>
     let sub = co_subscription c in
     co_subscription c' = sub \<and> runner_inv ru' \<and>
     (\<exists>I ls. get_dead_letters sub s' = get_dead_letters sub s @ ls \<and> (\<forall>i \<in> I. skipped_event sub s i) \<and>
       (case r of
          Inl e \<Rightarrow> set (processed_of sub s') = set (processed_of sub s) \<union> dead_identity ` set ls \<union> I \<and>
            (co_closed c \<or> \<not> co_closed c' \<and> (\<exists>d. waiting d (c', s')))
        | Inr None \<Rightarrow> set (processed_of sub s') = set (processed_of sub s) \<union> dead_identity ` set ls \<union> I \<and>
            co_active c' = None
        | Inr (Some status) \<Rightarrow> co_active c' = None \<and> (\<exists>j. activated_event sub s ru' j \<and>
            set (processed_of sub s') = insert j (set (processed_of sub s) \<union> dead_identity ` set ls \<union> I)))))"

lemma stream_settled:
  assumes "settles I (c, s) (c1, s1)"
  shows "skipped_event (co_subscription c) s1 i = skipped_event (co_subscription c) s i"
    and "activated_event (co_subscription c) s1 ru i = activated_event (co_subscription c) s ru i"
proof -
  let ?sub = "co_subscription c"
  have candidates: "delivery_candidates ?sub s1 = delivery_candidates ?sub s" using assms by (simp add: settles_def Let_def)
  have mem: "e \<in> set (stream_of t (sub_topic ?sub) (sub_mission_id ?sub)) \<longleftrightarrow>
      event_candidate e \<in> set (delivery_candidates ?sub t)" for e t
    using candidate_event [of "te_sequence e" "te_event_id e" e "''event''" ?sub t]
    by (auto simp: delivery_candidates_def event_candidate_def)
  from mem candidates have "set (stream_of s1 (sub_topic ?sub) (sub_mission_id ?sub)) =
      set (stream_of s (sub_topic ?sub) (sub_mission_id ?sub))" by auto
  then show "skipped_event ?sub s1 i = skipped_event ?sub s i" "activated_event ?sub s1 ru i = activated_event ?sub s ru i"
    by (simp_all add: skipped_event_def activated_event_def)
qed

text \<open>A run from a state that the consumer reached by giving up and skipping messages.\<close>

lemma run_outcome_settles:
  assumes st: "settles I (c, s) (c1, s1)" and I: "\<forall>i \<in> I. skipped_event (co_subscription c) s i"
    and o1: "run_outcome (ru, (c1, s1)) r rs'"
  shows "run_outcome (ru, (c, s)) r rs'"
proof -
  obtain ru' c' s' where rs': "rs' = (ru', (c', s'))" by (metis prod.collapse)
  let ?sub = "co_subscription c"
  from st obtain ks where sub1: "co_subscription c1 = ?sub" "co_closed c1 = co_closed c"
    and ks: "get_dead_letters ?sub s1 = get_dead_letters ?sub s @ ks"
    "set (processed_of ?sub s1) = set (processed_of ?sub s) \<union> dead_identity ` set ks \<union> I"
    by (auto simp: settles_def Let_def)
  obtain J ls where J: "co_subscription c' = ?sub" "runner_inv ru'"
    "get_dead_letters ?sub s' = get_dead_letters ?sub s1 @ ls" "\<forall>i \<in> J. skipped_event ?sub s1 i"
    and r: "case r of
          Inl e \<Rightarrow> set (processed_of ?sub s') = set (processed_of ?sub s1) \<union> dead_identity ` set ls \<union> J \<and>
            (co_closed c \<or> \<not> co_closed c' \<and> (\<exists>d. waiting d (c', s')))
        | Inr None \<Rightarrow> set (processed_of ?sub s') = set (processed_of ?sub s1) \<union> dead_identity ` set ls \<union> J \<and>
            co_active c' = None
        | Inr (Some status) \<Rightarrow> co_active c' = None \<and> (\<exists>j. activated_event ?sub s1 ru' j \<and>
            set (processed_of ?sub s') = insert j (set (processed_of ?sub s1) \<union> dead_identity ` set ls \<union> J))"
    using o1 unfolding rs' run_outcome_def prod.case Let_def sub1 by blast
  have sk: "\<forall>i \<in> I \<union> J. skipped_event ?sub s i" using I J(4) stream_settled(1) [OF st] by blast
  have dl: "get_dead_letters ?sub s' = get_dead_letters ?sub s @ (ks @ ls)" using J(3) ks(1) by simp
  have un: "set (processed_of ?sub s1) \<union> dead_identity ` set ls \<union> J =
      set (processed_of ?sub s) \<union> dead_identity ` set (ks @ ls) \<union> (I \<union> J)" using ks(2) by auto
  show ?thesis
    unfolding run_outcome_def rs' prod.case Let_def
    using J(1,2) dl sk r [unfolded un stream_settled(2) [OF st]] by blast
qed

lemma run_delivery_outcome:
  assumes "runner_inv ru" and "transport_inv s" and d: "holds d (c, s)" and new: "\<not> skipped_message (dl_message d)"
    and "\<not> co_closed c" and run: "run_delivery F d (ru, (c, s)) = (r, rs')"
  shows "run_outcome (ru, (c, s)) r rs'"
proof -
  obtain ru' c' s' where rs': "rs' = (ru', (c', s'))" by (metis prod.collapse)
  note k = run_delivery_cases [OF assms(1-3) run [unfolded rs']]
  have act: "activated_event (co_subscription c) s ru' (dl_identity d)"
    if "chart_from_message (fsm_message_of (dl_message d)) = Inr chart" "ru_chart ru' = Some current"
      "current = chart \<or> statechart_eq chart current" for chart current
  proof -
    from that(1) obtain e where e: "dl_message d = MEvent e" by (rule chart_message_event)
    with d obtain src where "(dl_sequence d, dl_identity d, MEvent e, src) \<in> set (delivery_candidates (co_subscription c) s)"
      by (auto simp: holds_def)
    moreover from that(1) e have "chart_from_message (EventMessage e) = Inr chart" by (simp only: fsm_message_of.simps)
    ultimately show ?thesis unfolding activated_event_def using candidate_event that(2,3) by blast
  qed
  show ?thesis
  proof (cases r)
    case (Inl e)
    with k assms(5) show ?thesis
      unfolding run_outcome_def rs' prod.case Let_def by (intro conjI exI [of _ "{}"] exI [of _ "[]"]) auto
  next
    case (Inr status)
    with k obtain st chart current where st: "status = Some st"
      "chart_from_message (fsm_message_of (dl_message d)) = Inr chart" "ru_chart ru' = Some current"
      "current = chart \<or> statechart_eq chart current" by auto
    with k Inr act [OF st(2-4)] show ?thesis
      unfolding run_outcome_def rs' prod.case Let_def by (intro conjI exI [of _ "{}"] exI [of _ "[]"]) auto
  qed
qed

lemma run_once_outcome:
  assumes "runner_inv ru" and "transport_inv s" and "co_active c = None" and "run_once F (ru, (c, s)) = (r, rs')"
  shows "run_outcome (ru, (c, s)) r rs'"
  using assms
proof (induction "backlog (c, s)" arbitrary: c s rule: less_induct [case_names run])
  case (run c s)
  obtain x c1 s1 where rec: "receive (c, s) = (x, (c1, s1))" by (metis prod.collapse)
  note got = receive_settles [OF rec run.prems(3)]
  show ?case
  proof (cases x)
    case (Inl e)
    with run.prems rec got show ?thesis
      by (auto simp: run_once.simps [of F "(ru, (c, s))"] run_outcome_def Let_def intro!: exI [of _ "{}"])
  next
    case (Inr md)
    show ?thesis
    proof (cases md)
      case None
      with Inr run.prems rec have r: "r = Inr None" "rs' = (ru, (c1, s1))"
        by (auto simp: run_once.simps [of F "(ru, (c, s))"])
      have "run_outcome (ru, (c1, s1)) r rs'"
        using run.prems(1) got Inr None by (auto simp: r run_outcome_def Let_def intro!: exI [of _ "{}"])
      from run_outcome_settles [OF _ _ this] got show ?thesis by auto
    next
      case (Some d)
      with got Inr have d: "holds d (c1, s1)" and cl: "\<not> co_closed c" and st: "settles {} (c, s) (c1, s1)" by simp_all
      from st run.prems(2) cl have s1: "transport_inv s1" "\<not> co_closed c1" by (simp_all add: settles_def Let_def)
      show ?thesis
      proof (cases "skipped_message (dl_message d)")
        case False
        with Some Inr run.prems(4) rec have "run_delivery F d (ru, (c1, s1)) = (r, rs')"
          by (simp add: run_once.simps [of F "(ru, (c, s))"])
        from run_delivery_outcome [OF run.prems(1) s1(1) d False s1(2) this]
        show ?thesis by (rule run_outcome_settles [OF st, rotated]) simp
      next
        case True
        from d have "waiting d (c1, s1)" by (simp add: holds_def)
        from ack_settles [OF this] obtain c2 s2 where a: "ack d (c1, s1) = (Inr (d\<lparr>dl_done := True\<rparr>), (c2, s2))"
          "settles {dl_identity d} (c1, s1) (c2, s2)" "co_active c2 = None" by auto
        with True Some Inr run.prems(4) rec have again: "run_once F (ru, (c2, s2)) = (r, rs')"
          by (simp add: run_once.simps [of F "(ru, (c, s))"])
        have s2: "transport_inv s2" using a(2) s1(1) by (simp add: settles_def Let_def)
        have o2: "run_outcome (ru, (c2, s2)) r rs'"
          using receive_ack_backlog [OF rec [unfolded Inr Some] a(1)] run.prems(1) s2 a(3) again by (rule run.hyps)
        have "skipped_event (co_subscription c1) s1 (dl_identity d)"
        proof -
          from True obtain e where e: "dl_message d = MEvent e" "te_event_kind e \<noteq> ''statechart''"
            by (cases "dl_message d") auto
          with d obtain src where "(dl_sequence d, dl_identity d, MEvent e, src) \<in> set (delivery_candidates (co_subscription c1) s1)"
            by (auto simp: holds_def)
          from candidate_event [OF this] e show ?thesis by (auto simp: skipped_event_def)
        qed
        then have "run_outcome (ru, (c1, s1)) r rs'" by (intro run_outcome_settles [OF a(2) _ o2]) simp
        then show ?thesis by (rule run_outcome_settles [OF st, rotated]) simp
      qed
    qed
  qed
qed

lemma waiting_receive:
  assumes "waiting d (c, s)" and "\<not> co_closed c"
  shows "dl_attempt d < sub_max_retries (co_subscription c) \<Longrightarrow>
      fst (receive (c, s)) = Inr (Some (d\<lparr>dl_attempt := dl_attempt d + 1\<rparr>))"
    and "dl_attempt d = sub_max_retries (co_subscription c) \<Longrightarrow>
      \<exists>l \<in> set (get_dead_letters (co_subscription c) (snd (snd (receive (c, s))))). dead_identity l = dl_identity d"
proof -
  let ?sub = "co_subscription c" and ?s = "with_defaults (co_subscription c) s"
  from assms(1) obtain src where x: "chosen (c, ?s) = Some (dl_sequence d, dl_identity d, dl_message d, src)" (is "_ = Some ?x")
    by (auto simp: waiting_def chosen_pair)
  have n: "next_attempt ?sub ?x ?s = dl_attempt d + 1" using assms(1) by (simp add: waiting_def next_attempt_def)
  have r: "receive (c, s) = (case receive_loop (c, ?s) of (e, cs') \<Rightarrow> (Inr e, cs'))" using assms(2) by (simp add: receive_def)
  {
    assume "dl_attempt d < sub_max_retries ?sub"
    with x n have "receive_turn (c, ?s) = Deliver (delivery_of c ?x ?s) (c\<lparr>co_active := Some ?x\<rparr>, attempted ?sub ?x ?s)"
      by (simp add: receive_turn_chosen)
    moreover have "delivery_of c ?x ?s = d\<lparr>dl_attempt := dl_attempt d + 1\<rparr>"
      using assms(1) n by (simp add: delivery_of_def waiting_def)
    ultimately show "fst (receive (c, s)) = Inr (Some (d\<lparr>dl_attempt := dl_attempt d + 1\<rparr>))"
      by (simp add: r receive_loop.simps [of "(c, ?s)"])
  next
    assume "dl_attempt d = sub_max_retries ?sub"
    with x n obtain cs1 where g: "receive_turn (c, ?s) = GiveUp cs1"
      and cs1: "cs1 = (c\<lparr>co_active := None\<rparr>, save_cursor ?sub (fst ?x) (cand_source ?x)
        (add_processed ?sub (cand_identity ?x) (dead_lettered ?sub ?x ?s)))"
      by (simp add: receive_turn_chosen)
    obtain e cs2 where e: "receive_loop cs1 = (e, cs2)" by (metis prod.collapse)
    have "settles {} cs1 cs2" using receive_loop_settles [OF e] by blast
    then obtain ls where "get_dead_letters ?sub (snd cs2) = get_dead_letters ?sub (snd cs1) @ ls"
      unfolding settles_def by (auto simp: cs1 Let_def)
    moreover have "\<exists>l \<in> set (get_dead_letters ?sub (snd cs1)). dead_identity l = dl_identity d"
      by (simp add: cs1 dead_lettered_def)
    ultimately show "\<exists>l \<in> set (get_dead_letters ?sub (snd (snd (receive (c, s))))). dead_identity l = dl_identity d"
      using e g by (auto simp: r receive_loop.simps [of "(c, ?s)"])
  }
qed

section \<open>Properties\<close>


text \<open>A failed run loses nothing. When a run of the FSM Runner raises, its invariant still holds and the message that it
  could not handle is not processed; the next \<open>receive\<close> hands the same message out with the next attempt number,
  or, when the limit of attempts was reached, dead-letters it.\<close>

theorem failed_run_redelivers:
  assumes "runner_inv ru" and "transport_inv s" and "co_active c = None" and "\<not> co_closed c"
    and "run_once F (ru, (c, s)) = (Inl e, (ru', (c', s')))"
  shows "runner_inv ru' \<and> (\<exists>d. dl_identity d \<notin> set (processed_of (co_subscription c) s') \<and>
    (if dl_attempt d < sub_max_retries (co_subscription c)
     then fst (receive (c', s')) = Inr (Some (d\<lparr>dl_attempt := dl_attempt d + 1\<rparr>))
     else \<exists>l \<in> set (get_dead_letters (co_subscription c) (snd (snd (receive (c', s'))))). dead_identity l = dl_identity d))"
proof -
  from run_once_outcome [OF assms(1-3,5)] assms(4) obtain d where d: "waiting d (c', s')" "\<not> co_closed c'"
    and sub: "co_subscription c' = co_subscription c" and inv: "runner_inv ru'"
    unfolding run_outcome_def prod.case Let_def by auto
  have "dl_identity d \<notin> set (processed_of (co_subscription c) s')" "dl_attempt d \<le> sub_max_retries (co_subscription c)"
    using d(1) sub by (simp_all add: waiting_def)
  with waiting_receive [OF d] sub inv show ?thesis by (intro conjI exI [of _ d]) auto
qed

section \<open>A concrete run\<close>

text \<open>A note and a Statechart are published, or a note and an event that only claims to be a Statechart.\<close>

definition ex_chart_event :: "jobj \<Rightarrow> transport_event" where
  "ex_chart_event pl = \<lparr>te_schema_version = 1, te_event_id = ''chart1'', te_mission_id = ''m1'', te_sequence = 1,
     te_event_kind = ''statechart'', te_payload = pl\<rparr>"

definition ex_published :: "transport_event \<Rightarrow> transport_state" where
  "ex_published e = snd (publish_event ''plans'' e (snd (publish_event ''plans'' InProcess_Consumer.ex_event ex_opened)))"

definition ex_good :: transport_event where
  "ex_good = ex_chart_event (case statechart_to_dict ex_chart of JObj d \<Rightarrow> d | _ \<Rightarrow> [])"

definition ex_bad :: transport_event where
  "ex_bad = ex_chart_event []"

definition ex_once :: "transport_event \<Rightarrow> fsm_status option result \<times> unit fsm_session" where
  "ex_once e = run_once None (ex_runner, (ex_consumer, ex_published e))"

lemma ex_published_inv: "transport_event_wf e \<Longrightarrow> transport_inv (ex_published e)"
proof -
  assume e: "transport_event_wf e"
  have "ex_opened = initial_state\<lparr>ts_active := ts_active ex_opened\<rparr>" by code_simp
  with transport_inv_updates(6) [OF transport_inv_initial] have "transport_inv ex_opened" by metis
  moreover have "transport_event_wf InProcess_Consumer.ex_event" by code_simp
  ultimately show ?thesis using e by (simp add: ex_published_def transport_inv_publish_event)
qed

lemma ex_runner_inv: "runner_inv ex_runner"
  by (simp add: runner_inv_def ex_runner_def empty_store_def)


theorem failed_run_redelivers_witness:
  "\<not> isOk (fst (ex_once ex_bad)) \<and> runner_inv (fst (snd (ex_once ex_bad))) \<and>
   (case fst (receive (snd (snd (ex_once ex_bad)))) of Inr (Some d) \<Rightarrow> dl_attempt d = 2 | _ \<Rightarrow> False)"
proof -
  let ?r = "ex_once ex_bad"
  have f: "\<not> isOk (fst ?r)" by code_simp
  then obtain e where e: "fst ?r = Inl e" by (cases "fst ?r") (auto simp: isOk_def)
  have "transport_event_wf ex_bad" "co_active ex_consumer = None" "\<not> co_closed ex_consumer" by code_simp+
  moreover have "run_once None (ex_runner, (ex_consumer, ex_published ex_bad)) =
      (Inl e, (fst (snd ?r), (fst (snd (snd ?r)), snd (snd (snd ?r)))))" using e by (simp add: ex_once_def prod_eq_iff)
  ultimately have "runner_inv (fst (snd ?r))"
    using failed_run_redelivers [OF ex_runner_inv ex_published_inv, of ex_bad ex_consumer None e
        "fst (snd ?r)" "fst (snd (snd ?r))" "snd (snd (snd ?r))"] by blast
  moreover have "case fst (receive (snd (snd ?r))) of Inr (Some d) \<Rightarrow> dl_attempt d = 2 | _ \<Rightarrow> False" by code_simp
  ultimately show ?thesis using f by blast
qed

end
