(* ===== verification/Planning_Commands.thy ===== *)
theory Planning_Commands
  imports Plan_Events InProcess_Consumer Operational_Log
begin

text \<open>
  The handler of planning commands, \<open>src/onr/application/planning_commands.py\<close>: a command is given to a planner,
  the plan is published as an event, and the outcome of the command is recorded. The planner is a
  parameter that acts on a world of its own; the texts of exceptions are a parameter too.
\<close>

section \<open>The handler\<close>

record 'w plan_handler =
  pc_topic :: string
  pc_completed :: "(string \<times> command_outcome) list"
  pc_world :: 'w
  pc_log :: "log_call list option"

text \<open>What a planner gives back: something that carries a Normalized Plan, something else, or an exception with
  its text and type. No planner stands for an object that cannot plan.\<close>

datatype planner_answer = PlanReturned normalized_plan | OtherReturned | PlanRaised string string

type_synonym 'w planner = "command \<Rightarrow> 'w \<Rightarrow> planner_answer \<times> 'w"

datatype failure = Internal exn | External string string

fun failure_text :: "(exn \<Rightarrow> string) \<Rightarrow> failure \<Rightarrow> string" where
  "failure_text explain (Internal e) = explain e"
| "failure_text explain (External text kind) = text"

fun failure_kind :: "failure \<Rightarrow> string" where
  "failure_kind (Internal e) = exn_name e"
| "failure_kind (External text kind) = kind"

definition handler_emit :: "command \<Rightarrow> string \<Rightarrow> string \<Rightarrow> jobj \<Rightarrow> (unit, 'w plan_handler \<times> 's) eff" where
  "handler_emit c kind outcome details = onFst (\<lambda>h. h\<lparr>pc_log := map_option
     (\<lambda>ls. ls @ [\<lparr>lc_mission_id = cmd_mission_id c, lc_source = ''planning-command-handler'', lc_event_kind = kind,
       lc_outcome = outcome, lc_details = details\<rparr>]) (pc_log h)\<rparr>)"

definition command_details :: "command \<Rightarrow> jobj" where
  "command_details c = [(''operation'', JStr ''planning_command''), (''command_id'', JStr (cmd_command_id c))]"

definition plan_event_id :: "command \<Rightarrow> string" where
  "plan_event_id c = ''normalized-plan:'' @ cmd_command_id c"

definition command_outcome_for :: "command \<Rightarrow> string \<Rightarrow> pyval \<Rightarrow> command_outcome result" where
  "command_outcome_for c status pl = command_outcome_new (PInt (cmd_schema_version c)) (PStr (cmd_command_id c))
     (PStr (cmd_correlation_id c)) (PStr (cmd_mission_id c)) (PStr status) pl"

text \<open>The sequence number that the command asks for, or the next one of the stream.\<close>

definition plan_sequence :: "'s event_port \<Rightarrow> command \<Rightarrow> (int, 'w plan_handler \<times> 's) eff" where
  "plan_sequence E c hs = (case map_of (cmd_payload c) ''sequence'' of
     None \<Rightarrow> onSnd (port_next_event_sequence E (pc_topic (fst hs)) (cmd_mission_id c)) hs
   | Some JNull \<Rightarrow> onSnd (port_next_event_sequence E (pc_topic (fst hs)) (cmd_mission_id c)) hs
   | Some j \<Rightarrow> liftE (nonneg_int (proxied j)) hs)"

text \<open>The body of \<open>try\<close> after the planner returned a plan.\<close>

definition publish_plan :: "'s event_port \<Rightarrow> command \<Rightarrow> normalized_plan \<Rightarrow> (command_outcome, 'w plan_handler \<times> 's) eff" where
  "publish_plan E c p =
     bindS (guardS (np_mission_id p = cmd_mission_id c) (ValueError MissionMismatch)) (\<lambda>_.
     bindS (plan_sequence E c) (\<lambda>n.
     bindS (liftE (wire_of p (PStr (plan_event_id c)) (PInt n) (PStr (cmd_correlation_id c)))) (\<lambda>event.
     bindS (\<lambda>hs. onSnd (port_publish_event E (pc_topic (fst hs)) event) hs) (\<lambda>_.
     bindS (liftE (command_outcome_for c ''completed'' (PDict [(KStr ''event_id'', PStr (plan_event_id c))]))) (\<lambda>outcome.
     bindS (handler_emit c ''solver'' ''completed'' (command_details c)) (\<lambda>_.
     bindS (handler_emit c ''planning'' ''completed'' (command_details c)) (\<lambda>_.
     returnS outcome)))))))"

definition plan_body :: "'s event_port \<Rightarrow> 'w planner option \<Rightarrow> command \<Rightarrow> 'w plan_handler \<times> 's \<Rightarrow>
  (failure + command_outcome) \<times> ('w plan_handler \<times> 's)" where
  "plan_body E planner c hs = (case planner of
     None \<Rightarrow> (Inl (Internal (TypeError BadType)), hs)
   | Some f \<Rightarrow> (case f c (pc_world (fst hs)) of (answer, w) \<Rightarrow>
       let hs1 = ((fst hs)\<lparr>pc_world := w\<rparr>, snd hs)
       in case answer of
         PlanRaised text kind \<Rightarrow> (Inl (External text kind), hs1)
       | OtherReturned \<Rightarrow> (Inl (Internal (TypeError BadType)), hs1)
       | PlanReturned p \<Rightarrow> (case publish_plan E c p hs1 of
           (Inl e, hs2) \<Rightarrow> (Inl (Internal e), hs2) | (Inr r, hs2) \<Rightarrow> (Inr r, hs2))))"

definition failed_outcome :: "(exn \<Rightarrow> string) \<Rightarrow> command \<Rightarrow> failure \<Rightarrow> (command_outcome, 'w plan_handler \<times> 's) eff" where
  "failed_outcome explain c f =
     bindS (liftE (command_outcome_for c ''failed'' (PDict [(KStr ''error'', PStr (failure_text explain f))]))) (\<lambda>outcome.
     bindS (handler_emit c ''planning'' ''failed'' (command_details c)) (\<lambda>_.
     bindS (handler_emit c ''error'' ''failed'' [(''operation'', JStr ''planning_command''),
       (''error_type'', JStr (failure_kind f))]) (\<lambda>_.
     returnS outcome)))"

definition remember :: "command \<Rightarrow> command_outcome \<Rightarrow> (command_outcome, 'w plan_handler \<times> 's) eff" where
  "remember c r = bindS (onFst (\<lambda>h. h\<lparr>pc_completed := put (cmd_command_id c) r (pc_completed h)\<rparr>)) (\<lambda>_. returnS r)"

definition known_outcome :: "'s command_port \<Rightarrow> command \<Rightarrow> 'w plan_handler \<times> 's \<Rightarrow> command_outcome option" where
  "known_outcome C c hs = (case map_of (pc_completed (fst hs)) (cmd_command_id c) of
     Some r \<Rightarrow> Some r | None \<Rightarrow> cport_get_outcome C (cmd_command_id c) (snd hs))"

definition handle_planning :: "'s event_port \<Rightarrow> 's command_port \<Rightarrow> (exn \<Rightarrow> string) \<Rightarrow> 'w planner option \<Rightarrow> command \<Rightarrow>
  (command_outcome, 'w plan_handler \<times> 's) eff" where
  "handle_planning E C explain planner c hs = (case known_outcome C c hs of
     Some r \<Rightarrow> remember c r hs
   | None \<Rightarrow> bindS (case plan_body E planner c hs of
         (Inl f, hs1) \<Rightarrow> (\<lambda>_. failed_outcome explain c f hs1) | (Inr r, hs1) \<Rightarrow> (\<lambda>_. (Inr r, hs1))) (\<lambda>outcome.
       bindS (onSnd (cport_publish_outcome C outcome)) (\<lambda>_. remember c outcome)) hs)"

text \<open>\<open>run_once\<close> on a consumer of the in-process transport.\<close>

definition planning_run_once :: "(exn \<Rightarrow> string) \<Rightarrow> 'w planner option \<Rightarrow>
  (command_outcome option, 'w plan_handler \<times> session) eff" where
  "planning_run_once explain planner hcs = (case receive (snd hcs) of
     (Inl e, cs) \<Rightarrow> (Inl e, (fst hcs, cs))
   | (Inr None, cs) \<Rightarrow> (Inr None, (fst hcs, cs))
   | (Inr (Some d), cs) \<Rightarrow> (case dl_message d of
       MCommand c \<Rightarrow> (case handle_planning inprocess_events inprocess_commands explain planner c (fst hcs, snd cs) of
           (Inl e, (h, s)) \<Rightarrow> (Inl e, (h, (fst cs, s)))
         | (Inr outcome, (h, s)) \<Rightarrow> bindS (if oc_status outcome = FAILED then onSnd (nack d)
             else bindS (onSnd (ack d)) (\<lambda>_. returnS ())) (\<lambda>_. returnS (Some outcome)) (h, (fst cs, s)))
     | _ \<Rightarrow> bindS (onSnd (ack d)) (\<lambda>_. returnS None) (fst hcs, cs)))"

section \<open>What the handler changes\<close>

text \<open>The handler apart from its log.\<close>

definition same_handler :: "'w plan_handler \<Rightarrow> 'w plan_handler \<Rightarrow> bool" where
  "same_handler h h' \<longleftrightarrow> pc_topic h' = pc_topic h \<and> pc_completed h' = pc_completed h \<and> pc_world h' = pc_world h"

lemma same_handler_refl [simp]: "same_handler h h"
  by (simp add: same_handler_def)

lemma handler_emit_simps [simp]:
  "fst (handler_emit c kind outcome details (h, s)) = Inr ()"
  "same_handler h (fst (snd (handler_emit c kind outcome details (h, s)))) \<longleftrightarrow> True"
  "snd (snd (handler_emit c kind outcome details (h, s))) = s"
  by (simp_all add: handler_emit_def same_handler_def)

lemma bindS_handler_emit: "\<exists>h'. same_handler h h' \<and> (\<forall>g. bindS (handler_emit c kind outcome details) g (h, s) = g () (h', s))"
  by (rule exI [of _ "h\<lparr>pc_log := map_option (\<lambda>ls. ls @ [\<lparr>lc_mission_id = cmd_mission_id c,
      lc_source = ''planning-command-handler'', lc_event_kind = kind, lc_outcome = outcome, lc_details = details\<rparr>]) (pc_log h)\<rparr>"])
    (simp add: handler_emit_def same_handler_def)

lemma command_outcome_for_id:
  "command_outcome_for c st pl = Inr r \<Longrightarrow> oc_command_id r = cmd_command_id c"
  by (auto simp: command_outcome_for_def command_outcome_new_def err_simps split: if_splits)

lemma command_outcome_for_Inr:
  assumes "command_wf c" and "status = ''completed'' \<or> status = ''failed''"
  shows "\<exists>r. command_outcome_for c status (PDict [(KStr k, PStr v)]) = Inr r \<and> oc_command_id r = cmd_command_id c \<and>
    oc_payload r = [(k, JStr v)] \<and> oc_status r = (if status = ''completed'' then COMPLETED else FAILED)"
  using assms command_status_of_text [of COMPLETED] command_status_of_text [of FAILED]
  by (auto simp: command_outcome_for_def command_outcome_new_def command_wf_def payload_def)

lemma wire_of_Inr:
  assumes "normalized_plan_wf p" and "wire_of p (PStr i) (PInt n) (PStr cor) = Inr e"
  shows "e = plan_wire p i n (Some cor)" and "transport_event_wf e" and "0 \<le> n"
proof -
  have "nonblank i \<and> 0 \<le> n \<and> nonblank cor"
    using plan_event_accepts [OF assms(1), of "PStr i" "PInt n" "PStr cor"] assms(2) by (simp add: isOk_def)
  with wire_of_plan [OF assms(1), of i n "Some cor"] assms(2)
  show "e = plan_wire p i n (Some cor)" "transport_event_wf e" "0 \<le> n"
    by (simp_all add: optional_text_def correlation_valid_def)
qed

lemma plan_sequence_state: "snd (plan_sequence inprocess_events c (h, s)) = (h, s)"
  by (auto simp: plan_sequence_def inprocess_events_def next_event_sequence_def split: option.split json.split)

text \<open>The event that carries the plan of a command.\<close>

definition plan_event_for :: "command \<Rightarrow> normalized_plan \<Rightarrow> int \<Rightarrow> transport_event" where
  "plan_event_for c p n = plan_wire p (plan_event_id c) n (Some (cmd_correlation_id c))"

lemma plan_event_for_fields [simp]:
  "te_event_id (plan_event_for c p n) = plan_event_id c" "te_sequence (plan_event_for c p n) = n"
  "te_mission_id (plan_event_for c p n) = np_mission_id p"
  by (simp_all add: plan_event_for_def plan_wire_def)

lemma plan_event_for_wf:
  assumes "command_wf c" and "normalized_plan_wf p" and "0 \<le> n"
  shows "wire_of p (PStr (plan_event_id c)) (PInt n) (PStr (cmd_correlation_id c)) = Inr (plan_event_for c p n)"
    and "transport_event_wf (plan_event_for c p n)"
  using wire_of_plan [OF assms(2), of "plan_event_id c" n "Some (cmd_correlation_id c)"] assms
  by (simp_all add: plan_event_id_def plan_event_for_def optional_text_def correlation_valid_def command_wf_def)

text \<open>What publishing a plan comes to: the first error, or the event and the outcome.\<close>

lemma publish_plan_cases:
  fixes h :: "'w plan_handler"
  assumes "command_wf c" and "normalized_plan_wf p"
  shows "\<exists>h'. same_handler h h' \<and> publish_plan inprocess_events c p (h, s) =
    (if np_mission_id p \<noteq> cmd_mission_id c then (Inl (ValueError MissionMismatch), (h', s))
     else case fst (plan_sequence inprocess_events c (h, s)) of
       Inl e \<Rightarrow> (Inl e, (h', s))
     | Inr n \<Rightarrow> if n < 0 then (Inl (ValueError NotNonNegativeInt), (h', s))
       else case publish_event (pc_topic h) (plan_event_for c p n) s of
         (Inl e, s') \<Rightarrow> (Inl e, (h', s'))
       | (Inr _, s') \<Rightarrow> (command_outcome_for c ''completed'' (PDict [(KStr ''event_id'', PStr (plan_event_id c))]), (h', s')))"
proof (cases "np_mission_id p = cmd_mission_id c")
  case False
  then show ?thesis by (intro exI [of _ h]) (simp add: publish_plan_def)
next
  case mission: True
  obtain q where q: "plan_sequence inprocess_events c (h, s) = (q, (h, s))"
    using plan_sequence_state [of c h s] by (metis prod.collapse)
  show ?thesis
  proof (cases q)
    case (Inl e)
    with mission q show ?thesis by (intro exI [of _ h]) (simp add: publish_plan_def bindS_Inl)
  next
    case (Inr n)
    show ?thesis
    proof (cases "n < 0")
      case True
      have "wire_of p (PStr (plan_event_id c)) (PInt n) (PStr (cmd_correlation_id c)) = Inl (ValueError NotNonNegativeInt)"
        using True by (simp add: wire_of_def create_plan_event_def plan_event_id_def)
      with mission q Inr True show ?thesis
        by (intro exI [of _ h]) (simp add: publish_plan_def bindS_Inr)
    next
      case False
      then have n: "0 \<le> n" by simp
      note w = plan_event_for_wf(1) [OF assms n]
      obtain x s' where pub: "publish_event (pc_topic h) (plan_event_for c p n) s = (x, s')" by (metis prod.collapse)
      show ?thesis
      proof (cases x)
        case (Inl e)
        with mission q Inr n w pub show ?thesis
          by (intro exI [of _ h]) (simp add: publish_plan_def bindS_Inr bindS_Inl inprocess_events_def)
      next
        case (Inr y)
        from command_outcome_for_Inr [OF assms(1), of "''completed''"] obtain r where
          r: "command_outcome_for c ''completed'' (PDict [(KStr ''event_id'', PStr (plan_event_id c))]) = Inr r" by blast
        obtain h1 where h1: "same_handler h h1" "\<forall>g :: unit \<Rightarrow> (command_outcome, 'w plan_handler \<times> transport_state) eff. bindS (handler_emit c ''solver'' ''completed'' (command_details c)) g (h, s') = g () (h1, s')"
          using bindS_handler_emit [where h = h and c = c and s = s' and kind = "''solver''"] by blast
        obtain h2 where h2: "same_handler h1 h2" "\<forall>g :: unit \<Rightarrow> (command_outcome, 'w plan_handler \<times> transport_state) eff. bindS (handler_emit c ''planning'' ''completed'' (command_details c)) g (h1, s') = g () (h2, s')"
          using bindS_handler_emit [where h = h1 and c = c and s = s' and kind = "''planning''"] by blast
        have "same_handler h h2" using h1(1) h2(1) by (simp add: same_handler_def)
        with mission q \<open>q = Inr n\<close> n w pub Inr r h1(2) h2(2) show ?thesis
          by (intro exI [of _ h2]) (simp add: publish_plan_def bindS_Inr inprocess_events_def)
      qed
    qed
  qed
qed

text \<open>A planner whose plans are Normalized Plans, as the constructor of their class checks.\<close>

definition plans_wf :: "'w planner \<Rightarrow> bool" where
  "plans_wf f \<longleftrightarrow> (\<forall>c w. case fst (f c w) of PlanReturned p \<Rightarrow> normalized_plan_wf p | _ \<Rightarrow> True)"

text \<open>The body of the handler keeps the transport's invariant and no outcome of a command.\<close>

lemma plan_body_state:
  assumes "log_inv s" and "command_wf c" and "opt_all plans_wf planner"
    and "plan_body inprocess_events planner c (h, s) = (r, (h', s'))"
  shows "log_inv s' \<and> outcome_in s' = outcome_in s \<and> pc_completed h' = pc_completed h \<and>
    (\<forall>x. r = Inr x \<longrightarrow> oc_command_id x = cmd_command_id c)"
proof (cases planner)
  case None
  with assms show ?thesis by (auto simp: plan_body_def)
next
  case (Some f)
  obtain a w where a: "f c (pc_world h) = (a, w)" by (metis prod.collapse)
  show ?thesis
  proof (cases a)
    case (PlanReturned p)
    have "case fst (f c (pc_world h)) of PlanReturned p \<Rightarrow> normalized_plan_wf p | _ \<Rightarrow> True"
      using assms(3) Some unfolding plans_wf_def by simp
    with a PlanReturned have p: "normalized_plan_wf p" by simp
    from publish_plan_cases [OF assms(2) p, of "h\<lparr>pc_world := w\<rparr>" s] obtain h1 where
      h1: "same_handler (h\<lparr>pc_world := w\<rparr>) h1" and eq: "publish_plan inprocess_events c p (h\<lparr>pc_world := w\<rparr>, s) =
      (if np_mission_id p \<noteq> cmd_mission_id c then (Inl (ValueError MissionMismatch), (h1, s))
       else case fst (plan_sequence inprocess_events c (h\<lparr>pc_world := w\<rparr>, s)) of
         Inl e \<Rightarrow> (Inl e, (h1, s))
       | Inr n \<Rightarrow> if n < 0 then (Inl (ValueError NotNonNegativeInt), (h1, s))
         else case publish_event (pc_topic (h\<lparr>pc_world := w\<rparr>)) (plan_event_for c p n) s of
           (Inl e, s') \<Rightarrow> (Inl e, (h1, s'))
         | (Inr _, s') \<Rightarrow> (command_outcome_for c ''completed'' (PDict [(KStr ''event_id'', PStr (plan_event_id c))]), (h1, s')))"
      by blast
    have body: "plan_body inprocess_events planner c (h, s) = (case publish_plan inprocess_events c p (h\<lparr>pc_world := w\<rparr>, s) of
        (Inl e, hs2) \<Rightarrow> (Inl (Internal e), hs2) | (Inr r, hs2) \<Rightarrow> (Inr r, hs2))"
      using Some a PlanReturned by (simp add: plan_body_def)
    have pub: "log_inv (snd (publish_event t (plan_event_for c p n) s)) \<and>
        outcome_in (snd (publish_event t (plan_event_for c p n) s)) = outcome_in s" if "\<not> n < 0" for t n
      using log_inv_publish_event [OF assms(1) plan_event_for_wf(2) [OF assms(2) p]] that by simp
    have done1: "pc_completed h1 = pc_completed h" using h1 by (simp add: same_handler_def)
    show ?thesis
    proof (cases "np_mission_id p \<noteq> cmd_mission_id c")
      case True
      with assms(1,4) done1 show ?thesis unfolding body eq by auto
    next
      case mission: False
      show ?thesis
      proof (cases "fst (plan_sequence inprocess_events c (h\<lparr>pc_world := w\<rparr>, s))")
        case (Inl e)
        with mission assms(1,4) done1 show ?thesis unfolding body eq by auto
      next
        case (Inr n)
        obtain x s1 where x: "publish_event (pc_topic (h\<lparr>pc_world := w\<rparr>)) (plan_event_for c p n) s = (x, s1)"
          by (metis prod.collapse)
        show ?thesis
        proof (cases "n < 0")
          case True
          with mission Inr assms(1,4) done1 show ?thesis unfolding body eq by auto
        next
          case False
          from pub [OF this] x have s1: "log_inv s1" "outcome_in s1 = outcome_in s" by (metis snd_conv)+
          have "s' = s1 \<and> h' = h1 \<and> (\<forall>y. r = Inr y \<longrightarrow>
              command_outcome_for c ''completed'' (PDict [(KStr ''event_id'', PStr (plan_event_id c))]) = Inr y)"
            using mission Inr False assms(4) x unfolding body eq by (auto split: sum.splits)
          with s1 done1 command_outcome_for_id show ?thesis by blast
        qed
      qed
    qed
  qed (use assms Some a in \<open>auto simp: plan_body_def Let_def\<close>)
qed

section \<open>Handling a command\<close>

lemma failed_outcome_Inr:
  fixes h :: "'w plan_handler" and s :: transport_state
  assumes "command_wf c"
  shows "\<exists>r h'. same_handler h h' \<and> failed_outcome explain c f (h, s) = (Inr r, (h', s)) \<and>
    oc_status r = FAILED \<and> oc_command_id r = cmd_command_id c"
proof -
  from command_outcome_for_Inr [OF assms, of "''failed''"] obtain r where
    r: "command_outcome_for c ''failed'' (PDict [(KStr ''error'', PStr (failure_text explain f))]) = Inr r"
      "oc_status r = FAILED" "oc_command_id r = cmd_command_id c" by auto
  obtain h1 where h1: "same_handler h h1" "\<forall>g :: unit \<Rightarrow> (command_outcome, 'w plan_handler \<times> transport_state) eff.
      bindS (handler_emit c ''planning'' ''failed'' (command_details c)) g (h, s) = g () (h1, s)"
    using bindS_handler_emit [where h = h and c = c and s = s and kind = "''planning''"] by blast
  let ?d = "[(''operation'', JStr ''planning_command''), (''error_type'', JStr (failure_kind f))]"
  obtain h2 where h2: "same_handler h1 h2" "\<forall>g :: unit \<Rightarrow> (command_outcome, 'w plan_handler \<times> transport_state) eff.
      bindS (handler_emit c ''error'' ''failed'' ?d) g (h1, s) = g () (h2, s)"
    using bindS_handler_emit [where h = h1 and c = c and s = s and kind = "''error''"] by blast
  have "same_handler h h2" using h1(1) h2(1) by (simp add: same_handler_def)
  moreover have "failed_outcome explain c f (h, s) = (Inr r, (h2, s))"
    using r(1) h1(2) h2(2) by (simp add: failed_outcome_def)
  ultimately show ?thesis using r(2,3) by blast
qed

text \<open>The handler's own memory agrees with the outcomes in the transport.\<close>

definition cache_ok :: "'w plan_handler \<Rightarrow> transport_state \<Rightarrow> bool" where
  "cache_ok h s \<longleftrightarrow> (\<forall>i r. map_of (pc_completed h) i = Some r \<longrightarrow>
     (\<exists>r'. outcome_in s i = Some r' \<and> command_outcome_json r' = command_outcome_json r))"

lemma known_outcome_inprocess: "known_outcome inprocess_commands c (h, s) =
    (case map_of (pc_completed h) (cmd_command_id c) of Some r \<Rightarrow> Some r | None \<Rightarrow> outcome_in s (cmd_command_id c))"
  by (simp add: known_outcome_def inprocess_commands_def get_command_outcome_def outcome_in_def split: option.split)

lemma remember_apply [simp]:
  "remember c r (h, s) = (Inr r, (h\<lparr>pc_completed := put (cmd_command_id c) r (pc_completed h)\<rparr>, s))"
  by (simp add: remember_def)

lemma handle_known:
  "known_outcome C c (h, s) = Some r \<Longrightarrow> handle_planning E C explain planner c (h, s) =
     (Inr r, (h\<lparr>pc_completed := put (cmd_command_id c) r (pc_completed h)\<rparr>, s))"
  by (simp add: handle_planning_def)

text \<open>A new command: the body, then the outcome is published and remembered.\<close>

lemma handle_new:
  fixes h :: "'w plan_handler"
  assumes "known_outcome inprocess_commands c (h, s) = None" and "command_wf c"
    and "plan_body inprocess_events planner c (h, s) = (x, (h1, s1))"
  shows "\<exists>r h2. same_handler h1 h2 \<and> oc_command_id r = (case x of Inl f \<Rightarrow> cmd_command_id c | Inr y \<Rightarrow> oc_command_id y) \<and>
    (case x of Inl f \<Rightarrow> oc_status r = FAILED | Inr y \<Rightarrow> r = y) \<and>
    handle_planning inprocess_events inprocess_commands explain planner c (h, s) = (case publish_outcome r s1 of
      (Inl e, s2) \<Rightarrow> (Inl e, (h2, s2))
    | (Inr _, s2) \<Rightarrow> (Inr r, (h2\<lparr>pc_completed := put (cmd_command_id c) r (pc_completed h2)\<rparr>, s2)))"
proof (cases x)
  case (Inl f)
  from failed_outcome_Inr [OF assms(2), of h1 explain f s1] obtain r h2 where
    "same_handler h1 h2" "failed_outcome explain c f (h1, s1) = (Inr r, (h2, s1))" "oc_status r = FAILED"
    "oc_command_id r = cmd_command_id c" by blast
  with assms Inl show ?thesis
    by (intro exI [of _ r] exI [of _ h2]) (auto simp: handle_planning_def bindS_cases inprocess_commands_def split: sum.split prod.split)
next
  case (Inr y)
  with assms show ?thesis
    by (intro exI [of _ y] exI [of _ h1]) (auto simp: handle_planning_def bindS_cases inprocess_commands_def split: sum.split prod.split)
qed

lemma handle_records:
  assumes "log_inv s" and "command_wf c" and "opt_all plans_wf planner" and "cache_ok h s"
    and "handle_planning inprocess_events inprocess_commands explain planner c (h, s) = (Inr r, (h', s'))"
  shows "map_of (pc_completed h') (cmd_command_id c) = Some r \<and>
    (\<exists>r'. outcome_in s' (cmd_command_id c) = Some r' \<and> command_outcome_json r' = command_outcome_json r)"
proof (cases "known_outcome inprocess_commands c (h, s)")
  case (Some y)
  with handle_known [OF Some] assms(5) have "y = r" "s' = s" "map_of (pc_completed h') (cmd_command_id c) = Some r" by auto
  with Some assms(4) show ?thesis by (auto simp: known_outcome_inprocess cache_ok_def split: option.splits)
next
  case None
  obtain x h1 s1 where body: "plan_body inprocess_events planner c (h, s) = (x, (h1, s1))" by (metis prod.collapse)
  note st = plan_body_state [OF assms(1-3) body]
  from handle_new [OF None assms(2) body, of explain] obtain y h2 where
    y: "oc_command_id y = (case x of Inl f \<Rightarrow> cmd_command_id c | Inr z \<Rightarrow> oc_command_id z)"
    and eq: "handle_planning inprocess_events inprocess_commands explain planner c (h, s) = (case publish_outcome y s1 of
      (Inl e, s2) \<Rightarrow> (Inl e, (h2, s2))
    | (Inr _, s2) \<Rightarrow> (Inr y, (h2\<lparr>pc_completed := put (cmd_command_id c) y (pc_completed h2)\<rparr>, s2)))" by blast
  have id: "oc_command_id y = cmd_command_id c" using y st by (auto split: sum.splits)
  obtain p s2 where p: "publish_outcome y s1 = (p, s2)" by (metis prod.collapse)
  with assms(5) eq obtain z where z: "p = Inr z" "y = r" "s' = s2"
    "h' = h2\<lparr>pc_completed := put (cmd_command_id c) y (pc_completed h2)\<rparr>" by (cases p) auto
  have "fst (cport_publish_outcome inprocess_commands y s1) = Inr z" using p z by (simp add: inprocess_commands_def)
  from inproc_commands.answer_Inr [OF _ this] st p z id show ?thesis by (auto simp: inprocess_commands_def)
qed

text \<open>A command without a sequence of its own whose planner returns a plan of the command's mission.\<close>

definition next_plan_event :: "string \<Rightarrow> command \<Rightarrow> normalized_plan \<Rightarrow> transport_state \<Rightarrow> transport_event" where
  "next_plan_event topic c p s =
     plan_event_for c p (max_default (-1) (map te_sequence (stream_of s topic (cmd_mission_id c))) + 1)"

lemma next_plan_sequence:
  assumes "log_inv s" and "command_wf c" and "nonblank (pc_topic h)" and "map_of (cmd_payload c) ''sequence'' = None"
  defines "n \<equiv> max_default (-1) (map te_sequence (stream_of s (pc_topic h) (cmd_mission_id c))) + 1"
  shows "fst (plan_sequence inprocess_events c (h, s)) = Inr n" and "0 \<le> n"
    and "e \<in> set (stream_of s (pc_topic h) (cmd_mission_id c)) \<Longrightarrow> te_sequence e < n"
proof -
  show "fst (plan_sequence inprocess_events c (h, s)) = Inr n"
    using assms(2-4) by (simp add: plan_sequence_def inprocess_events_def next_event_sequence_def command_wf_def n_def)
  have "events_inv s" using assms(1) by (simp add: log_inv_def transport_inv_def)
  from inproc.next_nonneg [OF this, of "pc_topic h" "cmd_mission_id c"] show "0 \<le> n"
    by (simp add: inproc.next_of_def n_def)
  show "e \<in> set (stream_of s (pc_topic h) (cmd_mission_id c)) \<Longrightarrow> te_sequence e < n"
    using inproc.next_above [of e s "pc_topic h" "cmd_mission_id c"] by (simp add: inproc.next_of_def n_def)
qed

lemma plan_body_publishes:
  fixes h :: "'w plan_handler"
  assumes "log_inv s" and "command_wf c" and "f c (pc_world h) = (PlanReturned p, w)" and "normalized_plan_wf p"
    and "np_mission_id p = cmd_mission_id c" and "map_of (cmd_payload c) ''sequence'' = None"
    and "nonblank (pc_topic h)" and "\<not> event_used s (plan_event_id c)"
  shows "\<exists>r h1. plan_body inprocess_events (Some f) c (h, s) =
      (Inr r, (h1, appended (pc_topic h) (next_plan_event (pc_topic h) c p s) s)) \<and> pc_world h1 = w \<and>
    oc_command_id r = cmd_command_id c \<and> oc_status r = COMPLETED \<and>
    oc_payload r = [(''event_id'', JStr (plan_event_id c))] \<and> pc_completed h1 = pc_completed h"
    and "transport_event_wf (next_plan_event (pc_topic h) c p s)"
    and "publish_event (pc_topic h) (next_plan_event (pc_topic h) c p s) s =
      (Inr (next_plan_event (pc_topic h) c p s), appended (pc_topic h) (next_plan_event (pc_topic h) c p s) s)"
proof -
  let ?h = "h\<lparr>pc_world := w\<rparr>"
  have "nonblank (pc_topic ?h)" using assms(7) by simp
  note n = next_plan_sequence [OF assms(1,2) this assms(6)]
  from plan_event_for_wf(2) [OF assms(2,4)] n(2) show wf: "transport_event_wf (next_plan_event (pc_topic h) c p s)"
    by (simp add: next_plan_event_def)
  have "te_sequence (next_plan_event (pc_topic h) c p s) \<notin> te_sequence ` set (stream_of s (pc_topic h) (cmd_mission_id c))"
    using n(3) by (fastforce simp: next_plan_event_def)
  then show pub: "publish_event (pc_topic h) (next_plan_event (pc_topic h) c p s) s =
      (Inr (next_plan_event (pc_topic h) c p s), appended (pc_topic h) (next_plan_event (pc_topic h) c p s) s)"
    using assms(5,7,8) by (intro publish_event_fresh) (simp_all add: next_plan_event_def)
  from command_outcome_for_Inr [OF assms(2), of "''completed''" "''event_id''" "plan_event_id c"] obtain r where r:
    "command_outcome_for c ''completed'' (PDict [(KStr ''event_id'', PStr (plan_event_id c))]) = Inr r"
    "oc_command_id r = cmd_command_id c" "oc_payload r = [(''event_id'', JStr (plan_event_id c))]" "oc_status r = COMPLETED"
    by auto
  from publish_plan_cases [OF assms(2,4), of ?h s] obtain h1 where h1: "same_handler ?h h1"
    and "publish_plan inprocess_events c p (?h, s) =
      (Inr r, (h1, appended (pc_topic h) (next_plan_event (pc_topic h) c p s) s))"
    using assms(5) n(1,2) pub r(1) by (auto simp: next_plan_event_def)
  then have "plan_body inprocess_events (Some f) c (h, s) =
      (Inr r, (h1, appended (pc_topic h) (next_plan_event (pc_topic h) c p s) s))"
    using assms(3) by (simp add: plan_body_def)
  with h1 r(2-4) show "\<exists>r h1. plan_body inprocess_events (Some f) c (h, s) =
      (Inr r, (h1, appended (pc_topic h) (next_plan_event (pc_topic h) c p s) s)) \<and> pc_world h1 = w \<and>
    oc_command_id r = cmd_command_id c \<and> oc_status r = COMPLETED \<and>
    oc_payload r = [(''event_id'', JStr (plan_event_id c))] \<and> pc_completed h1 = pc_completed h"
    by (intro exI [of _ r] exI [of _ h1]) (simp add: same_handler_def)
qed

text \<open>After the event is published, the command cannot be planned again.\<close>

lemma plan_body_after_event:
  fixes h :: "'w plan_handler"
  assumes "log_inv s" and "command_wf c" and "opt_all plans_wf planner" and "nonblank (pc_topic h)"
    and "map_of (cmd_payload c) ''sequence'' = None" and e: "e \<in> set (stream_of s (pc_topic h) (cmd_mission_id c))"
    and "te_event_id e = plan_event_id c"
  shows "\<exists>x h1. plan_body inprocess_events planner c (h, s) = (Inl x, (h1, s)) \<and> pc_completed h1 = pc_completed h"
proof (cases planner)
  case None
  then show ?thesis by (simp add: plan_body_def)
next
  case (Some f)
  obtain a w where a: "f c (pc_world h) = (a, w)" by (metis prod.collapse)
  show ?thesis
  proof (cases a)
    case (PlanReturned p)
    let ?h = "h\<lparr>pc_world := w\<rparr>"
    have "case fst (f c (pc_world h)) of PlanReturned p \<Rightarrow> normalized_plan_wf p | _ \<Rightarrow> True"
      using assms(3) Some unfolding plans_wf_def by simp
    with a PlanReturned have p: "normalized_plan_wf p" by simp
    have "nonblank (pc_topic ?h)" using assms(4) by simp
    note n = next_plan_sequence [OF assms(1,2) this assms(5)]
    define n where "n = max_default (-1) (map te_sequence (stream_of s (pc_topic ?h) (cmd_mission_id c))) + 1"
    have inv: "events_inv s" using assms(1) by (simp add: log_inv_def transport_inv_def)
    note ev = stream_of_event [OF inv e]
    have n0: "0 \<le> n" "fst (plan_sequence inprocess_events c (?h, s)) = Inr n" "te_sequence e < n"
      using n(1,2) n(3) [of e] e unfolding n_def by simp_all
    have "transport_event_json e \<noteq> transport_event_json (plan_event_for c p n)"
      using transport_event_json_inject [OF ev(1) plan_event_for_wf(2) [OF assms(2) p n0(1)]] n0(3) by auto
    moreover have "map_of (ts_identities s) (event_identity (te_event_id (plan_event_for c p n))) = Some (transport_event_json e)"
      using ev(4) assms(7) by simp
    ultimately have pub: "publish_event (pc_topic h) (plan_event_for c p n) s = (Inl (ValueError Conflict), s)"
      using publish_event_Some [OF assms(4), of s "plan_event_for c p n"] by simp
    from publish_plan_cases [OF assms(2) p, of ?h s] n0 pub obtain h1 x where
      h1: "same_handler ?h h1" "publish_plan inprocess_events c p (?h, s) = (Inl x, (h1, s))"
      by (auto split: if_splits)
    then have "plan_body inprocess_events planner c (h, s) = (Inl (Internal x), (h1, s))"
      using Some a PlanReturned by (simp add: plan_body_def)
    then show ?thesis using h1(1) by (auto simp: same_handler_def)
  qed (use Some a in \<open>auto simp: plan_body_def Let_def\<close>)
qed

text \<open>The transport after the event of the command was published.\<close>

lemma appended_state:
  fixes h :: "'w plan_handler" and f :: "'w planner"
  assumes "log_inv s" and "command_wf c" and "f c (pc_world h) = (PlanReturned p, w)" and "normalized_plan_wf p"
    and "np_mission_id p = cmd_mission_id c" and "map_of (cmd_payload c) ''sequence'' = None"
    and "nonblank (pc_topic h)" and "\<not> event_used s (plan_event_id c)"
  defines "e \<equiv> next_plan_event (pc_topic h) c p s"
  shows "log_inv (appended (pc_topic h) e s)" and "sent_in (appended (pc_topic h) e s) = sent_in s"
    and "outcome_in (appended (pc_topic h) e s) = outcome_in s"
    and "e \<in> set (stream_of (appended (pc_topic h) e s) (pc_topic h) (cmd_mission_id c))"
    and "te_event_id e = plan_event_id c" and "carried_plan (te_payload e) = Inr p"
proof -
  note pub = plan_body_publishes(3) [where f = f, OF assms(1-8), folded e_def] and wf = plan_body_publishes(2) [where f = f, OF assms(1-8), folded e_def]
  from log_inv_publish_event [OF assms(1) wf, of "pc_topic h"] pub
  show "log_inv (appended (pc_topic h) e s)" "outcome_in (appended (pc_topic h) e s) = outcome_in s" by simp_all
  from inproc_port.publish_commands [OF assms(1) wf, of "pc_topic h"] pub
  show "sent_in (appended (pc_topic h) e s) = sent_in s" by (simp add: inprocess_events_def)
  show "e \<in> set (stream_of (appended (pc_topic h) e s) (pc_topic h) (cmd_mission_id c))"
    using assms(5) by (simp add: stream_of_appended e_def next_plan_event_def)
  show "te_event_id e = plan_event_id c" "carried_plan (te_payload e) = Inr p"
    using carried_plan_wire [OF assms(4)] by (simp_all add: e_def next_plan_event_def) (simp add: plan_event_for_def)
qed

lemma outcome_streams:
  assumes "log_inv s"
  shows "stream_of (snd (publish_outcome r s)) = stream_of s"
proof (rule publish_outcome_state [OF log_inv_commands [OF assms], of r])
  fix c
  assume "snd (publish_outcome r s) = outcome_added c r s"
  then show ?thesis by (simp add: stream_of_def outcome_added_def fun_eq_iff)
qed simp

section \<open>Properties\<close>

text \<open>C14: a planning command is planned once. After the handler answered a command, handling a command of the same
  identifier again, by the same handler or by one that was restarted, gives the same outcome, does not call the
  planner and does not touch the transport, whatever happened to the transport meanwhile, as long as it
  kept the outcome.\<close>

theorem command_planned_once:
  assumes "log_inv s" and "command_wf c" and "opt_all plans_wf planner" and "cache_ok h s"
    and "handle_planning inprocess_events inprocess_commands explain planner c (h, s) = (Inr r, (h', s'))"
    and "outcome_in s2 (cmd_command_id c) = outcome_in s' (cmd_command_id c)"
    and "cmd_command_id c2 = cmd_command_id c" and "h2 = h' \<or> pc_completed h2 = []"
  shows "\<exists>r2 h3. handle_planning inprocess_events inprocess_commands explain2 planner2 c2 (h2, s2) = (Inr r2, (h3, s2)) \<and>
    pc_world h3 = pc_world h2 \<and> command_outcome_json r2 = command_outcome_json r"
proof -
  from handle_records [OF assms(1-5)] obtain r' where r': "map_of (pc_completed h') (cmd_command_id c) = Some r"
    "outcome_in s' (cmd_command_id c) = Some r'" "command_outcome_json r' = command_outcome_json r" by blast
  then obtain r2 where r2: "known_outcome inprocess_commands c2 (h2, s2) = Some r2"
    "command_outcome_json r2 = command_outcome_json r"
    using assms(6,7,8) by (auto simp: known_outcome_inprocess)
  from handle_known [OF r2(1)] r2(2) show ?thesis by simp
qed

text \<open>A plan reaches the stream and its command is answered. When the planner returns a plan of the command's
  mission, no plan of this command was published before and the command was sent and not answered, handling
  it publishes the event that carries exactly this plan, and records the outcome that names this event.\<close>

theorem command_planned:
  assumes "log_inv s" and "command_wf c" and "f c (pc_world h) = (PlanReturned p, w)" and "normalized_plan_wf p"
    and "np_mission_id p = cmd_mission_id c" and "map_of (cmd_payload c) ''sequence'' = None"
    and "nonblank (pc_topic h)" and "\<not> event_used s (plan_event_id c)"
    and "sent_in s (cmd_command_id c) \<noteq> None" and "outcome_in s (cmd_command_id c) = None"
    and "map_of (pc_completed h) (cmd_command_id c) = None"
  shows "\<exists>r h' s' e. handle_planning inprocess_events inprocess_commands explain (Some f) c (h, s) = (Inr r, (h', s')) \<and>
    oc_status r = COMPLETED \<and> oc_payload r = [(''event_id'', JStr (plan_event_id c))] \<and>
    outcome_in s' (cmd_command_id c) = Some r \<and> pc_world h' = w \<and>
    e \<in> set (stream_of s' (pc_topic h) (cmd_mission_id c)) \<and> te_event_id e = plan_event_id c \<and>
    carried_plan (te_payload e) = Inr p"
proof -
  let ?e = "next_plan_event (pc_topic h) c p s" and ?s = "appended (pc_topic h) (next_plan_event (pc_topic h) c p s) s"
  note st = appended_state [where f = f, OF assms(1-8)]
  from plan_body_publishes(1) [where f = f, OF assms(1-8)] obtain r h1 where
    body: "plan_body inprocess_events (Some f) c (h, s) = (Inr r, (h1, ?s))" and r: "pc_world h1 = w"
    "oc_command_id r = cmd_command_id c" "oc_status r = COMPLETED" "oc_payload r = [(''event_id'', JStr (plan_event_id c))]"
    by blast
  have "known_outcome inprocess_commands c (h, s) = None" using assms(10,11) by (simp add: known_outcome_inprocess)
  from handle_new [OF this assms(2) body, of explain] obtain h2 where h2: "same_handler h1 h2" and
    eq: "handle_planning inprocess_events inprocess_commands explain (Some f) c (h, s) = (case publish_outcome r ?s of
      (Inl e, s2) \<Rightarrow> (Inl e, (h2, s2))
    | (Inr _, s2) \<Rightarrow> (Inr r, (h2\<lparr>pc_completed := put (cmd_command_id c) r (pc_completed h2)\<rparr>, s2)))" by auto
  from inproc_commands.answer_new [OF st(1), of r] st(2,3) assms(9,10) r(2) obtain s2 where
    s2: "publish_outcome r ?s = (Inr r, s2)" "outcome_in s2 (cmd_command_id c) = Some r"
    by (auto simp: inprocess_commands_def)
  have "stream_of s2 = stream_of ?s" using outcome_streams [OF st(1), of r] s2(1) by simp
  with st(4-6) eq s2 r h2 show ?thesis
    by (intro exI [of _ r] exI [of _ "h2\<lparr>pc_completed := put (cmd_command_id c) r (pc_completed h2)\<rparr>"] exI [of _ s2] exI [of _ ?e])
      (simp add: same_handler_def)
qed


section \<open>A concrete command\<close>

text \<open>The planner counts its calls.\<close>

definition ex_planner :: "nat planner" where
  "ex_planner c n = (PlanReturned ex_plan, Suc n)"

definition ex_handler :: "nat plan_handler" where
  "ex_handler = \<lparr>pc_topic = ''normalized-plans'', pc_completed = [], pc_world = 0, pc_log = None\<rparr>"

definition ex_explain :: "exn \<Rightarrow> string" where
  "ex_explain e = exn_name e"

definition ex_handle :: "nat plan_handler \<times> transport_state \<Rightarrow> command_outcome result \<times> (nat plan_handler \<times> transport_state)" where
  "ex_handle = handle_planning inprocess_events inprocess_commands ex_explain (Some ex_planner) ex_command"

definition ex_state :: transport_state where
  "ex_state = snd (send_command ex_command initial_state)"

lemma ex_state_facts:
  "log_inv ex_state" "command_wf ex_command" "opt_all plans_wf (Some ex_planner)" "normalized_plan_wf ex_plan"
  "ex_planner ex_command (pc_world ex_handler) = (PlanReturned ex_plan, 1)" "np_mission_id ex_plan = cmd_mission_id ex_command"
  "map_of (cmd_payload ex_command) ''sequence'' = None" "nonblank (pc_topic ex_handler)"
  "\<not> event_used ex_state (plan_event_id ex_command)" "sent_in ex_state (cmd_command_id ex_command) \<noteq> None"
  "outcome_in ex_state (cmd_command_id ex_command) = None" "map_of (pc_completed ex_handler) (cmd_command_id ex_command) = None"
proof -
  have wf: "command_wf ex_command" "normalized_plan_wf ex_plan" by code_simp+
  then show "command_wf ex_command" "normalized_plan_wf ex_plan" .
  show "log_inv ex_state"
    using inproc_commands.send_state [OF log_inv_initial wf(1)] by (simp add: ex_state_def inprocess_commands_def)
  show "opt_all plans_wf (Some ex_planner)" using wf(2) by (simp add: plans_wf_def ex_planner_def)
  show "ex_planner ex_command (pc_world ex_handler) = (PlanReturned ex_plan, 1)" by (simp add: ex_planner_def ex_handler_def)
  show "np_mission_id ex_plan = cmd_mission_id ex_command" "map_of (cmd_payload ex_command) ''sequence'' = None"
    "nonblank (pc_topic ex_handler)" "\<not> event_used ex_state (plan_event_id ex_command)"
    "sent_in ex_state (cmd_command_id ex_command) \<noteq> None" "outcome_in ex_state (cmd_command_id ex_command) = None"
    "map_of (pc_completed ex_handler) (cmd_command_id ex_command) = None" by code_simp+
qed

theorem command_planned_witness:
  "\<exists>r h' s'. ex_handle (ex_handler, ex_state) = (Inr r, (h', s')) \<and> oc_status r = COMPLETED \<and> pc_world h' = 1 \<and>
     outcome_in s' ''c1'' = Some r"
proof -
  have "cmd_command_id ex_command = ''c1''" by code_simp
  with command_planned [where f = ex_planner, OF ex_state_facts(1,2,5,4,6-12), of ex_explain] show ?thesis by (auto simp: ex_handle_def)
qed

theorem command_planned_once_witness:
  "\<exists>r r2 h s h3. ex_handle (ex_handler, ex_state) = (Inr r, (h, s)) \<and> ex_handle (ex_handler, s) = (Inr r2, (h3, s)) \<and>
     pc_world h3 = 0 \<and> command_outcome_json r2 = command_outcome_json r"
proof -
  have "isOk (fst (ex_handle (ex_handler, ex_state)))" by code_simp
  then obtain r h s where r: "ex_handle (ex_handler, ex_state) = (Inr r, (h, s))"
    unfolding isOk_iff by (metis prod.collapse)
  have "cache_ok ex_handler ex_state" "pc_completed ex_handler = []" "pc_world ex_handler = 0"
    by (simp_all add: cache_ok_def ex_handler_def)
  with command_planned_once [OF ex_state_facts(1-3) this(1) r [unfolded ex_handle_def], where ?h2.0 = ex_handler
      and ?s2.0 = s and ?c2.0 = ex_command and ?explain2.0 = ex_explain and ?planner2.0 = "Some ex_planner"] r
  show ?thesis by (auto simp: ex_handle_def)
qed


text \<open>A planner that always raises.\<close>

definition ex_failing :: "nat planner" where
  "ex_failing c n = (PlanRaised ''no solution'' ''RuntimeError'', Suc n)"

definition ex_run :: "nat plan_handler \<times> session \<Rightarrow> command_outcome option result \<times> (nat plan_handler \<times> session)" where
  "ex_run = planning_run_once ex_explain (Some ex_failing)"

text \<open>A command that cannot be planned is answered and then given up. Its planner is called once; the outcome is
  \<open>failed\<close> with the text of the exception; the message is not acknowledged, so it is delivered and
  answered again from memory up to the limit of attempts, and the next run dead-letters it and acknowledges the outcome that
  came back on the same queue.\<close>

theorem failed_command_given_up:
  "let (r1, x1) = ex_run (ex_handler, (ex_consumer, ex_sent));
       (r2, x2) = ex_run x1;
       (r3, (h, (c, s))) = ex_run x2;
       outcome = \<lparr>oc_schema_version = 1, oc_command_id = ''c1'', oc_correlation_id = ''r1'', oc_mission_id = ''m1'',
         oc_status = FAILED, oc_payload = [(''error'', JStr ''no solution'')]\<rparr>
   in r1 = Inr (Some outcome) \<and> r2 = r1 \<and> r3 = Inr None \<and> pc_world h = 1 \<and>
      outcome_in s ''c1'' = Some outcome \<and> map dead_identity (get_dead_letters ex_sub s) = [''c1''] \<and>
      processed_of ex_sub s = [''outcome:c1'', ''c1'']"
  by code_simp

end
