(* ===== verification/Runtime_Lease.thy ===== *)
theory Runtime_Lease
  imports PyValue
begin

text \<open>
  The lease of a runtime session, \<open>src/onr/runtime/lease.py\<close>: one file says which session is active, and a
  session that stops refreshing it loses it after a timeout. The file lock makes each operation atomic. Times
  are microseconds since the epoch; how a time is written as ISO text and read back
  (\<open>datetime.isoformat\<close>, \<open>datetime.fromisoformat\<close>) is a parameter. Ages are compared exactly.
\<close>

section \<open>The lease\<close>

record iso_time =
  iso_text :: "int \<Rightarrow> string"
  iso_instant :: "string \<Rightarrow> int option"

record runtime_lease =
  rl_session_id :: string
  rl_pid :: int
  rl_started_at :: string
  rl_last_seen :: string
  rl_status :: string

definition lease_status :: "pyval \<Rightarrow> string result" where
  "lease_status v = (case v of
     PStr s \<Rightarrow> if s \<in> {''active'', ''stopped'', ''stale''} then Inr s else Inl (ValueError BadEnum)
   | PList vs \<Rightarrow> Inl (TypeError BadType)
   | PDict kvs \<Rightarrow> Inl (TypeError BadType)
   | _ \<Rightarrow> Inl (ValueError BadEnum))"

definition runtime_lease_new :: "pyval \<Rightarrow> pyval \<Rightarrow> pyval \<Rightarrow> pyval \<Rightarrow> pyval \<Rightarrow> runtime_lease result" where
  "runtime_lease_new session_id pid started_at last_seen status =
     bindE (text_of session_id) (\<lambda>s.
     bindE (positive_int pid) (\<lambda>p.
     bindE (lease_status status) (\<lambda>st.
     bindE (text_of started_at) (\<lambda>a.
     bindE (text_of last_seen) (\<lambda>b.
       Inr \<lparr>rl_session_id = s, rl_pid = p, rl_started_at = a, rl_last_seen = b, rl_status = st\<rparr>)))))"

definition runtime_lease_to_dict :: "runtime_lease \<Rightarrow> json" where
  "runtime_lease_to_dict l = JObj [
     (''session_id'', JStr (rl_session_id l)), (''pid'', JInt (rl_pid l)),
     (''started_at'', JStr (rl_started_at l)), (''last_seen'', JStr (rl_last_seen l)),
     (''status'', JStr (rl_status l))]"

fun string_field :: "pyval \<Rightarrow> string result" where
  "string_field (PStr s) = Inr s"
| "string_field _ = Inl (ValueError BadType)"

definition iso_field :: "iso_time \<Rightarrow> string \<Rightarrow> unit result" where
  "iso_field K s = guardE (iso_instant K s \<noteq> None) (ValueError InvalidJson)"

definition runtime_lease_from_dict :: "iso_time \<Rightarrow> pyval \<Rightarrow> runtime_lease result" where
  "runtime_lease_from_dict K v =
     bindE (strict_fields [''session_id'', ''pid'', ''started_at'', ''last_seen'', ''status''] v) (\<lambda>kvs.
     bindE (integer (item kvs ''pid'')) (\<lambda>p.
     bindE (string_field (item kvs ''session_id'')) (\<lambda>s.
     bindE (string_field (item kvs ''started_at'')) (\<lambda>a.
     bindE (string_field (item kvs ''last_seen'')) (\<lambda>b.
     bindE (string_field (item kvs ''status'')) (\<lambda>st.
     bindE (iso_field K a) (\<lambda>_.
     bindE (iso_field K b) (\<lambda>_.
       runtime_lease_new (PStr s) (PInt p) (PStr a) (PStr b) (PStr st)))))))))"

section \<open>The store\<close>

text \<open>The store of one process; the file is its JSON value, or nothing when it does not exist or cannot be read.\<close>

record lease_store =
  lst_timeout :: rat
  lst_heartbeat :: rat
  lst_owner :: "string option"

type_synonym lease_file = "json option"

definition lease_store_new :: "rat \<Rightarrow> rat option \<Rightarrow> lease_store result" where
  "lease_store_new timeout heartbeat =
     bindE (guardE (0 < timeout) (ValueError BadNumber)) (\<lambda>_.
     let interval = (case heartbeat of None \<Rightarrow> min (timeout / 3) 5 | Some h \<Rightarrow> h)
     in bindE (guardE (0 < interval \<and> interval < timeout) (ValueError BadNumber)) (\<lambda>_.
       Inr \<lparr>lst_timeout = timeout, lst_heartbeat = interval, lst_owner = None\<rparr>))"

text \<open>The age of a time in seconds is beyond the timeout.\<close>

definition expired :: "rat \<Rightarrow> int \<Rightarrow> int \<Rightarrow> bool" where
  "expired timeout now seen \<longleftrightarrow> of_int (now - seen) / 1000000 > timeout"

definition with_staleness :: "iso_time \<Rightarrow> rat \<Rightarrow> int \<Rightarrow> runtime_lease option \<Rightarrow> runtime_lease option" where
  "with_staleness K timeout now lease = (case lease of
     None \<Rightarrow> None
   | Some l \<Rightarrow> if rl_status l \<noteq> ''active'' then Some l
       else case iso_instant K (rl_last_seen l) of
         None \<Rightarrow> Some (l\<lparr>rl_status := ''stale''\<rparr>)
       | Some seen \<Rightarrow> if expired timeout now seen then Some (l\<lparr>rl_status := ''stale''\<rparr>) else Some l)"

definition read_serialized :: "iso_time \<Rightarrow> lease_file \<Rightarrow> runtime_lease option" where
  "read_serialized K f = (case f of
     Some (JObj o') \<Rightarrow> (case runtime_lease_from_dict K (thaw (JObj o')) of Inr l \<Rightarrow> Some l | Inl e \<Rightarrow> None)
   | _ \<Rightarrow> None)"

definition write_lease :: "runtime_lease \<Rightarrow> lease_file" where
  "write_lease l = Some (canonical (runtime_lease_to_dict l))"

text \<open>What an operation reads: at time \<open>t1\<close> it looks at the file, at \<open>t2\<close> it writes a new time.\<close>

definition current_lease :: "iso_time \<Rightarrow> int \<Rightarrow> lease_store \<times> lease_file \<Rightarrow> runtime_lease option" where
  "current_lease K t1 sf = with_staleness K (lst_timeout (fst sf)) t1 (read_serialized K (snd sf))"

definition lease_start :: "iso_time \<Rightarrow> int \<Rightarrow> string \<Rightarrow> string option \<Rightarrow> int \<Rightarrow> int \<Rightarrow>
  (runtime_lease, lease_store \<times> lease_file) eff" where
  "lease_start K pid uuid session_id t1 t2 sf =
     (let selected = (case session_id of None \<Rightarrow> uuid | Some s \<Rightarrow> if s = [] then uuid else s)
      in if \<not> nonblank selected then (Inl (ValueError BlankText), sf)
      else if (case current_lease K t1 sf of None \<Rightarrow> False | Some l \<Rightarrow> rl_status l = ''active'' \<and> rl_session_id l \<noteq> selected)
      then (Inl (RuntimeError AlreadyActive), sf)
      else case runtime_lease_new (PStr selected) (PInt pid) (PStr (iso_text K t2)) (PStr (iso_text K t2)) (PStr ''active'') of
        Inl e \<Rightarrow> (Inl e, sf)
      | Inr l \<Rightarrow> (Inr l, ((fst sf)\<lparr>lst_owner := Some selected\<rparr>, write_lease l)))"

definition refreshed :: "iso_time \<Rightarrow> runtime_lease \<Rightarrow> int \<Rightarrow> string \<Rightarrow> runtime_lease result" where
  "refreshed K l t2 status = runtime_lease_new (PStr (rl_session_id l)) (PInt (rl_pid l)) (PStr (rl_started_at l))
     (PStr (iso_text K t2)) (PStr status)"

definition lease_touch :: "iso_time \<Rightarrow> int \<Rightarrow> int \<Rightarrow> (runtime_lease option, lease_store \<times> lease_file) eff" where
  "lease_touch K t1 t2 sf = (case lst_owner (fst sf) of
     None \<Rightarrow> (Inr None, sf)
   | Some owner \<Rightarrow> (case current_lease K t1 sf of
       None \<Rightarrow> (Inr None, sf)
     | Some l \<Rightarrow> if rl_status l \<noteq> ''active'' \<or> rl_session_id l \<noteq> owner then (Inr None, sf)
         else case refreshed K l t2 ''active'' of
           Inl e \<Rightarrow> (Inl e, sf) | Inr l' \<Rightarrow> (Inr (Some l'), (fst sf, write_lease l'))))"

definition lease_stop :: "iso_time \<Rightarrow> int \<Rightarrow> int \<Rightarrow> (runtime_lease option, lease_store \<times> lease_file) eff" where
  "lease_stop K t1 t2 sf = (case lst_owner (fst sf) of
     None \<Rightarrow> (Inr None, sf)
   | Some owner \<Rightarrow> (case current_lease K t1 sf of
       None \<Rightarrow> (Inr None, ((fst sf)\<lparr>lst_owner := None\<rparr>, snd sf))
     | Some l \<Rightarrow> if rl_session_id l \<noteq> owner \<or> rl_status l \<noteq> ''active''
         then (Inr None, ((fst sf)\<lparr>lst_owner := None\<rparr>, snd sf))
         else case refreshed K l t2 ''stopped'' of
           Inl e \<Rightarrow> (Inl e, sf) | Inr l' \<Rightarrow> (Inr (Some l'), ((fst sf)\<lparr>lst_owner := None\<rparr>, write_lease l'))))"

text \<open>\<open>read\<close>, \<open>inspect\<close> and \<open>is_active\<close>.\<close>

definition lease_read :: "iso_time \<Rightarrow> int \<Rightarrow> lease_store \<times> lease_file \<Rightarrow> runtime_lease option" where
  "lease_read K t1 sf = current_lease K t1 sf"

definition lease_active :: "iso_time \<Rightarrow> int \<Rightarrow> lease_store \<times> lease_file \<Rightarrow> bool" where
  "lease_active K t1 sf = (case lease_read K t1 sf of None \<Rightarrow> False | Some l \<Rightarrow> rl_status l = ''active'')"

section \<open>Reading back what was written\<close>

definition clock_ok :: "iso_time \<Rightarrow> bool" where
  "clock_ok K \<longleftrightarrow> (\<forall>t. iso_instant K (iso_text K t) = Some t \<and> nonblank (iso_text K t))"

definition lease_wf :: "iso_time \<Rightarrow> runtime_lease \<Rightarrow> bool" where
  "lease_wf K l \<longleftrightarrow> nonblank (rl_session_id l) \<and> 0 < rl_pid l \<and> rl_status l \<in> {''active'', ''stopped'', ''stale''} \<and>
     nonblank (rl_started_at l) \<and> nonblank (rl_last_seen l) \<and>
     iso_instant K (rl_started_at l) \<noteq> None \<and> iso_instant K (rl_last_seen l) \<noteq> None"

lemma read_write: "lease_wf K l \<Longrightarrow> read_serialized K (write_lease l) = Some l"
  by (auto simp: lease_wf_def read_serialized_def write_lease_def runtime_lease_to_dict_def runtime_lease_from_dict_def
      runtime_lease_new_def lease_status_def iso_field_def map_of_canonical_obj)

lemma from_dict_wf:
  assumes "runtime_lease_from_dict K v = Inr l"
  shows "lease_wf K l"
proof -
  from assms obtain p s a b st where "iso_field K a = Inr ()" "iso_field K b = Inr ()"
    "runtime_lease_new (PStr s) (PInt p) (PStr a) (PStr b) (PStr st) = Inr l"
    by (auto simp: runtime_lease_from_dict_def bindE_eq_Inr)
  then show ?thesis
    by (auto simp: runtime_lease_new_def lease_wf_def lease_status_def iso_field_def bindE_eq_Inr split: if_splits)
qed

lemma read_wf: "read_serialized K f = Some l \<Longrightarrow> lease_wf K l"
proof (cases f)
  case (Some j)
  assume r: "read_serialized K f = Some l"
  show ?thesis
  proof (cases j)
    case (JObj o')
    with Some r show ?thesis by (cases "runtime_lease_from_dict K (thaw (JObj o'))") (simp_all add: read_serialized_def from_dict_wf)
  qed (use Some r in \<open>simp_all add: read_serialized_def\<close>)
qed (simp add: read_serialized_def)

section \<open>Sessions\<close>

text \<open>
  Any number of processes, each with its store; \<open>granted\<close> records for each session when it last got or
  refreshed its lease and did not give it back since. A process may be replaced by a new one at any time. All stores have
  the same timeout.
\<close>

type_synonym lease_state = "(nat \<Rightarrow> lease_store) \<times> lease_file \<times> int \<times> (string \<Rightarrow> int option)"

inductive lease_step :: "iso_time \<Rightarrow> rat \<Rightarrow> lease_state \<Rightarrow> lease_state \<Rightarrow> bool"
  for K :: iso_time and T :: rat where
  started: "t \<le> t1 \<Longrightarrow> t1 \<le> t2 \<Longrightarrow> lease_start K pid uuid sid t1 t2 (ss n, f) = (Inr l, (st, f')) \<Longrightarrow>
    lease_step K T (ss, f, t, g) (ss(n := st), f', t2, g(rl_session_id l \<mapsto> t2))"
| refused: "t \<le> t1 \<Longrightarrow> t1 \<le> t2 \<Longrightarrow> lease_start K pid uuid sid t1 t2 (ss n, f) = (Inl e, (st, f')) \<Longrightarrow>
    lease_step K T (ss, f, t, g) (ss(n := st), f', t2, g)"
| touched: "t \<le> t1 \<Longrightarrow> t1 \<le> t2 \<Longrightarrow> lease_touch K t1 t2 (ss n, f) = (Inr r, (st, f')) \<Longrightarrow>
    lease_step K T (ss, f, t, g) (ss(n := st), f', t2, case r of None \<Rightarrow> g | Some l \<Rightarrow> g(rl_session_id l \<mapsto> t2))"
| stopped: "t \<le> t1 \<Longrightarrow> t1 \<le> t2 \<Longrightarrow> lease_stop K t1 t2 (ss n, f) = (Inr r, (st, f')) \<Longrightarrow>
    lease_step K T (ss, f, t, g) (ss(n := st), f', t2, case r of None \<Rightarrow> g | Some l \<Rightarrow> g(rl_session_id l := None))"
| replaced: "t \<le> t2 \<Longrightarrow> lease_store_new T heartbeat = Inr st \<Longrightarrow> lease_step K T (ss, f, t, g) (ss(n := st), f, t2, g)"

inductive lease_run :: "iso_time \<Rightarrow> rat \<Rightarrow> lease_state \<Rightarrow> bool"
  for K :: iso_time and T :: rat where
  init: "(\<And>n. lst_timeout (ss n) = T \<and> lst_owner (ss n) = None) \<Longrightarrow> lease_run K T (ss, None, t, \<lambda>_. None)"
| step: "lease_run K T x \<Longrightarrow> lease_step K T x y \<Longrightarrow> lease_run K T y"

text \<open>The session that the file calls active, with the time it was last seen.\<close>

definition file_holder :: "iso_time \<Rightarrow> lease_file \<Rightarrow> (string \<times> int) option" where
  "file_holder K f = (case read_serialized K f of
     Some l \<Rightarrow> if rl_status l = ''active''
       then (case iso_instant K (rl_last_seen l) of Some t \<Rightarrow> Some (rl_session_id l, t) | None \<Rightarrow> None) else None
   | None \<Rightarrow> None)"

definition lease_inv :: "iso_time \<Rightarrow> rat \<Rightarrow> lease_state \<Rightarrow> bool" where
  "lease_inv K T x \<longleftrightarrow> (case x of (ss, f, t, g) \<Rightarrow>
     (\<forall>n. lst_timeout (ss n) = T) \<and>
     (\<forall>a ta. g a = Some ta \<longrightarrow> expired T t ta \<or> file_holder K f = Some (a, ta)) \<and>
     (\<forall>a ta. file_holder K f = Some (a, ta) \<longrightarrow> g a = Some ta))"

lemma expired_mono: "expired T t s \<Longrightarrow> t \<le> t' \<Longrightarrow> expired T t' s"
proof -
  assume "expired T t s" "t \<le> t'"
  moreover from this have "(of_int (t - s) :: rat) \<le> of_int (t' - s)" by simp
  ultimately show ?thesis unfolding expired_def by (meson divide_right_mono less_le_trans zero_le_numeral)
qed

text \<open>What an operation sees as the active lease is the holder of the file that is not expired.\<close>

lemma current_active:
  "(\<exists>l. current_lease K t1 (st, f) = Some l \<and> rl_status l = ''active'' \<and> rl_session_id l = a) \<longleftrightarrow>
    (\<exists>ta. file_holder K f = Some (a, ta) \<and> \<not> expired (lst_timeout st) t1 ta)"
proof (cases "read_serialized K f")
  case None
  then show ?thesis by (simp add: current_lease_def with_staleness_def file_holder_def)
next
  case (Some l)
  with read_wf [OF Some] show ?thesis
    by (auto simp: current_lease_def with_staleness_def file_holder_def lease_wf_def split: option.splits)
qed

lemma current_active_lease:
  assumes "current_lease K t1 (st, f) = Some l" and "rl_status l = ''active''"
  shows "read_serialized K f = Some l"
  using assms by (auto simp: current_lease_def with_staleness_def split: option.splits if_splits)

lemma file_holder_write:
  assumes "clock_ok K" and "lease_wf K l" and "rl_last_seen l = iso_text K t"
  shows "file_holder K (write_lease l) = (if rl_status l = ''active'' then Some (rl_session_id l, t) else None)"
  using assms by (simp add: file_holder_def read_write clock_ok_def)

lemma start_Inr:
  assumes "clock_ok K" and "lease_start K pid uuid sid t1 t2 (st, f) = (Inr l, (st', f'))"
  shows "lst_timeout st' = lst_timeout st \<and> file_holder K f' = Some (rl_session_id l, t2) \<and>
    (\<forall>a ta. file_holder K f = Some (a, ta) \<longrightarrow> a = rl_session_id l \<or> expired (lst_timeout st) t1 ta)"
proof -
  define selected where "selected = (case sid of None \<Rightarrow> uuid | Some s \<Rightarrow> if s = [] then uuid else s)"
  have free: "\<not> (case current_lease K t1 (st, f) of None \<Rightarrow> False | Some l \<Rightarrow> rl_status l = ''active'' \<and> rl_session_id l \<noteq> selected)"
    and new: "runtime_lease_new (PStr selected) (PInt pid) (PStr (iso_text K t2)) (PStr (iso_text K t2)) (PStr ''active'') = Inr l"
    and st': "st' = st\<lparr>lst_owner := Some selected\<rparr>" "f' = write_lease l"
    using assms(2) unfolding lease_start_def selected_def [symmetric] Let_def by (auto split: if_splits sum.splits)
  from new assms(1) have l: "lease_wf K l" "rl_session_id l = selected" "rl_last_seen l = iso_text K t2" "rl_status l = ''active''"
    by (auto simp: runtime_lease_new_def lease_wf_def lease_status_def clock_ok_def bindE_eq_Inr split: if_splits)
  have "a = selected \<or> expired (lst_timeout st) t1 ta" if "file_holder K f = Some (a, ta)" for a ta
  proof (rule ccontr)
    assume "\<not> (a = selected \<or> expired (lst_timeout st) t1 ta)"
    with that current_active [of K t1 st f a] have
      "\<exists>l. current_lease K t1 (st, f) = Some l \<and> rl_status l = ''active'' \<and> rl_session_id l = a" "a \<noteq> selected" by blast+
    with free show False by auto
  qed
  with st' l file_holder_write [OF assms(1) l(1,3)] show ?thesis by simp
qed

lemma start_Inl: "lease_start K pid uuid sid t1 t2 sf = (Inl e, sf') \<Longrightarrow> sf' = sf"
  by (auto simp: lease_start_def Let_def split: if_splits sum.splits)

lemma refreshed_Inr:
  assumes "clock_ok K" and "lease_wf K l" and "status \<in> {''active'', ''stopped''}"
  shows "refreshed K l t2 status = Inr (l\<lparr>rl_last_seen := iso_text K t2, rl_status := status\<rparr>)"
    and "lease_wf K (l\<lparr>rl_last_seen := iso_text K t2, rl_status := status\<rparr>)"
  using assms by (auto simp: refreshed_def runtime_lease_new_def lease_wf_def lease_status_def clock_ok_def)

lemma touch_Some:
  assumes "clock_ok K" and "lease_touch K t1 t2 (st, f) = (Inr (Some l), (st', f'))"
  shows "st' = st \<and> file_holder K f' = Some (rl_session_id l, t2) \<and> lst_owner st = Some (rl_session_id l) \<and>
    (\<exists>ta. file_holder K f = Some (rl_session_id l, ta) \<and> \<not> expired (lst_timeout st) t1 ta)"
proof -
  from assms(2) obtain x where x: "current_lease K t1 (st, f) = Some x" "rl_status x = ''active''"
    "lst_owner st = Some (rl_session_id x)" "refreshed K x t2 ''active'' = Inr l" "st' = st" "f' = write_lease l"
    by (auto simp: lease_touch_def split: option.splits if_splits sum.splits)
  have wf: "lease_wf K x" using read_wf [OF current_active_lease [OF x(1,2)]] .
  from refreshed_Inr [OF assms(1) wf, of "''active''" t2] x(4)
  have l: "l = x\<lparr>rl_last_seen := iso_text K t2, rl_status := ''active''\<rparr>" "lease_wf K l" by auto
  have "file_holder K f' = Some (rl_session_id l, t2)"
    using file_holder_write [OF assms(1) l(2), of t2] l(1) x(6) by simp
  moreover have "\<exists>ta. file_holder K f = Some (rl_session_id l, ta) \<and> \<not> expired (lst_timeout st) t1 ta"
    using current_active [of K t1 st f "rl_session_id x"] x(1,2) l(1) by auto
  ultimately show ?thesis using x l(1) by simp
qed

lemma touch_None: "lease_touch K t1 t2 sf = (Inr None, sf') \<Longrightarrow> sf' = sf"
  by (auto simp: lease_touch_def split: option.splits if_splits sum.splits)

lemma stop_Some:
  assumes "clock_ok K" and "lease_stop K t1 t2 (st, f) = (Inr (Some l), (st', f'))"
  shows "lst_timeout st' = lst_timeout st \<and> file_holder K f' = None \<and>
    (\<exists>ta. file_holder K f = Some (rl_session_id l, ta) \<and> \<not> expired (lst_timeout st) t1 ta)"
proof -
  from assms(2) obtain x where x: "current_lease K t1 (st, f) = Some x" "rl_status x = ''active''"
    "refreshed K x t2 ''stopped'' = Inr l" "st' = st\<lparr>lst_owner := None\<rparr>" "f' = write_lease l"
    by (auto simp: lease_stop_def split: option.splits if_splits sum.splits)
  have wf: "lease_wf K x" using read_wf [OF current_active_lease [OF x(1,2)]] .
  from refreshed_Inr [OF assms(1) wf, of "''stopped''" t2] x(3)
  have l: "l = x\<lparr>rl_last_seen := iso_text K t2, rl_status := ''stopped''\<rparr>" "lease_wf K l" by auto
  have "file_holder K f' = None" using file_holder_write [OF assms(1) l(2), of t2] l(1) x(5) by simp
  moreover have "\<exists>ta. file_holder K f = Some (rl_session_id l, ta) \<and> \<not> expired (lst_timeout st) t1 ta"
    using current_active [of K t1 st f "rl_session_id x"] x(1,2) l(1) by auto
  ultimately show ?thesis using x by simp
qed

lemma stop_None: "lease_stop K t1 t2 (st, f) = (Inr None, (st', f')) \<Longrightarrow> f' = f \<and> lst_timeout st' = lst_timeout st"
  by (auto simp: lease_stop_def split: option.splits if_splits sum.splits)

text \<open>Once a session holds the file, the grants of all others have expired.\<close>

lemma others_expired:
  assumes "lease_inv K T (ss, f, t, g)" and "t \<le> t1" and "t1 \<le> t2"
    and "\<forall>a ta. file_holder K f = Some (a, ta) \<longrightarrow> a = b \<or> expired T t1 ta" and "g a = Some ta" and "a \<noteq> b"
  shows "expired T t2 ta"
proof -
  have "expired T t ta \<or> file_holder K f = Some (a, ta)" using assms(1,5) by (auto simp: lease_inv_def)
  then have "expired T t1 ta" using assms(4,6) expired_mono [OF _ assms(2)] by blast
  then show ?thesis by (rule expired_mono [OF _ assms(3)])
qed

lemma lease_inv_step:
  assumes "lease_step K T x y" and "lease_inv K T x" and K: "clock_ok K"
  shows "lease_inv K T y"
  using assms(1,2)
proof (induction rule: lease_step.induct)
  case (started t t1 t2 pid uuid sid ss n f l st f' g)
  note inv = started.prems
  have T: "lst_timeout (ss n) = T" using inv by (simp add: lease_inv_def)
  note s = start_Inr [OF K started.hyps(3)]
  have "expired T t2 ta" if "g a = Some ta" "a \<noteq> rl_session_id l" for a ta
    using others_expired [OF inv started.hyps(1,2) _ that] s T by blast
  with s T inv show ?case by (auto simp: lease_inv_def)
next
  case (refused t t1 t2 pid uuid sid ss n f e st f' g)
  from start_Inl [OF refused.hyps(3)] have "ss(n := st) = ss" "f' = f" by auto
  with refused expired_mono [of T t _ t2] show ?case by (auto simp: lease_inv_def)
next
  case (touched t t1 t2 ss n f r st f' g)
  note inv = touched.prems
  have T: "lst_timeout (ss n) = T" using inv by (simp add: lease_inv_def)
  show ?case
  proof (cases r)
    case None
    with touch_None touched.hyps(3) have "ss(n := st) = ss" "f' = f" by auto
    with None inv touched.hyps(1,2) expired_mono [of T t _ t2] show ?thesis by (auto simp: lease_inv_def)
  next
    case (Some l)
    note s = touch_Some [OF K touched.hyps(3) [unfolded Some]]
    have "expired T t2 ta" if "g a = Some ta" "a \<noteq> rl_session_id l" for a ta
      using others_expired [OF inv touched.hyps(1,2) _ that] s by force
    with s T inv Some show ?thesis by (auto simp: lease_inv_def)
  qed
next
  case (stopped t t1 t2 ss n f r st f' g)
  note inv = stopped.prems
  have T: "lst_timeout (ss n) = T" using inv by (simp add: lease_inv_def)
  show ?case
  proof (cases r)
    case None
    with stop_None stopped.hyps(3) have "lst_timeout st = T" "f' = f" using T by auto
    with None inv stopped.hyps(1,2) expired_mono [of T t _ t2] show ?thesis by (auto simp: lease_inv_def)
  next
    case (Some l)
    note s = stop_Some [OF K stopped.hyps(3) [unfolded Some]]
    have "expired T t2 ta" if "g a = Some ta" "a \<noteq> rl_session_id l" for a ta
      using others_expired [OF inv stopped.hyps(1,2) _ that] s by force
    with s T inv Some show ?thesis by (auto simp: lease_inv_def)
  qed
next
  case (replaced t t2 heartbeat st ss f g n)
  have "lst_timeout st = T" using replaced.hyps(2) by (auto simp: lease_store_new_def Let_def bindE_eq_Inr)
  moreover have "expired T t2 ta \<or> file_holder K f = Some (a, ta)" if "g a = Some ta" for a ta
    using replaced.prems that expired_mono [of T t ta t2] replaced.hyps(1) by (auto simp: lease_inv_def)
  ultimately show ?case using replaced.prems by (auto simp: lease_inv_def)
qed

lemma lease_run_inv: "lease_run K T x \<Longrightarrow> clock_ok K \<Longrightarrow> lease_inv K T x"
proof (induction rule: lease_run.induct)
  case (init ss t)
  then show ?case by (simp add: lease_inv_def file_holder_def read_serialized_def)
qed (simp add: lease_inv_step)

section \<open>Properties\<close>

text \<open>C16: at most one session holds the lease. In every run of any number of processes that start, refresh, give
  back and lose leases, are replaced by new processes and read the clock at any pace, two sessions
  whose last grants are both younger than the timeout are the same session.\<close>

theorem one_live_session:
  assumes "clock_ok K" and "lease_run K T (ss, f, t, g)"
    and "g a = Some ta" and "\<not> expired T t ta" and "g b = Some tb" and "\<not> expired T t tb"
  shows "a = b"
proof -
  from lease_run_inv [OF assms(2,1)] assms(3-6)
  have "file_holder K f = Some (a, ta)" "file_holder K f = Some (b, tb)" by (auto simp: lease_inv_def)
  then show ?thesis by simp
qed

text \<open>When a session gets the lease. In every run, a session can start at a time exactly when no other session
  has a grant that is younger than the timeout: a live lease is never taken over, and the lease of a session that
  stopped, crashed or was suspended is available after the timeout.\<close>

theorem start_succeeds_iff:
  assumes "clock_ok K" and "lease_run K T (ss, f, t, g)" and "t \<le> t1" and "0 < pid" and "nonblank a"
  shows "isOk (fst (lease_start K pid uuid (Some a) t1 t2 (ss n, f))) \<longleftrightarrow>
    (\<forall>b tb. g b = Some tb \<longrightarrow> b = a \<or> expired T t1 tb)"
proof -
  note inv = lease_run_inv [OF assms(2,1)]
  have T: "lst_timeout (ss n) = T" using inv by (simp add: lease_inv_def)
  have a: "a \<noteq> []" using assms(5) by auto
  have new: "runtime_lease_new (PStr a) (PInt pid) (PStr (iso_text K t2)) (PStr (iso_text K t2)) (PStr ''active'') =
      Inr \<lparr>rl_session_id = a, rl_pid = pid, rl_started_at = iso_text K t2, rl_last_seen = iso_text K t2, rl_status = ''active''\<rparr>"
    using assms(1,4,5) by (simp add: runtime_lease_new_def lease_status_def clock_ok_def)
  have "isOk (fst (lease_start K pid uuid (Some a) t1 t2 (ss n, f))) \<longleftrightarrow>
      \<not> (\<exists>l. current_lease K t1 (ss n, f) = Some l \<and> rl_status l = ''active'' \<and> rl_session_id l \<noteq> a)"
  proof (cases "\<exists>l. current_lease K t1 (ss n, f) = Some l \<and> rl_status l = ''active'' \<and> rl_session_id l \<noteq> a")
    case True
    then obtain l where "current_lease K t1 (ss n, f) = Some l" "rl_status l = ''active''" "rl_session_id l \<noteq> a" by blast
    with a assms(5) show ?thesis by (simp add: lease_start_def isOk_iff)
  next
    case False
    then have "\<not> (case current_lease K t1 (ss n, f) of None \<Rightarrow> False | Some l \<Rightarrow> rl_status l = ''active'' \<and> rl_session_id l \<noteq> a)"
      by (simp split: option.split)
    with False a assms(5) new show ?thesis by (simp add: lease_start_def isOk_iff)
  qed
  also have "\<dots> \<longleftrightarrow> (\<forall>b tb. file_holder K f = Some (b, tb) \<longrightarrow> b = a \<or> expired T t1 tb)"
  proof -
    have "(\<exists>l. current_lease K t1 (ss n, f) = Some l \<and> rl_status l = ''active'' \<and> rl_session_id l \<noteq> a) \<longleftrightarrow>
        (\<exists>b. b \<noteq> a \<and> (\<exists>l. current_lease K t1 (ss n, f) = Some l \<and> rl_status l = ''active'' \<and> rl_session_id l = b))"
      by metis
    also have "\<dots> \<longleftrightarrow> (\<exists>b. b \<noteq> a \<and> (\<exists>tb. file_holder K f = Some (b, tb) \<and> \<not> expired T t1 tb))"
      unfolding current_active T ..
    finally show ?thesis by metis
  qed
  also have "\<dots> \<longleftrightarrow> (\<forall>b tb. g b = Some tb \<longrightarrow> b = a \<or> expired T t1 tb)"
  proof -
    have "g b = Some tb \<Longrightarrow> expired T t tb \<or> file_holder K f = Some (b, tb)"
      "file_holder K f = Some (b, tb) \<Longrightarrow> g b = Some tb" for b tb
      using inv by (auto simp: lease_inv_def)
    then show ?thesis using expired_mono [OF _ assms(3)] by blast
  qed
  finally show ?thesis .
qed

text \<open>A heartbeat in time keeps the lease. In every run, the owner of a grant that is younger than the timeout
  refreshes it successfully, and the file then names its session with the new time.\<close>

theorem touch_in_time:
  assumes "clock_ok K" and "lease_run K T (ss, f, t, g)" and "t \<le> t1"
    and "lst_owner (ss n) = Some a" and "g a = Some ta" and "\<not> expired T t1 ta"
  shows "\<exists>l f'. lease_touch K t1 t2 (ss n, f) = (Inr (Some l), (ss n, f')) \<and> rl_session_id l = a \<and>
    file_holder K f' = Some (a, t2)"
proof -
  note inv = lease_run_inv [OF assms(2,1)]
  have T: "lst_timeout (ss n) = T" using inv by (simp add: lease_inv_def)
  have "\<not> expired T t ta" using assms(6) expired_mono [OF _ assms(3)] by blast
  with inv assms(5) have "file_holder K f = Some (a, ta)" by (auto simp: lease_inv_def)
  with current_active [of K t1 "ss n" f a] T assms(6) obtain l where
    l: "current_lease K t1 (ss n, f) = Some l" "rl_status l = ''active''" "rl_session_id l = a" by auto
  note r = refreshed_Inr [OF assms(1) read_wf [OF current_active_lease [OF l(1,2)]], of "''active''" t2]
  let ?l = "l\<lparr>rl_last_seen := iso_text K t2, rl_status := ''active''\<rparr>"
  have "lease_touch K t1 t2 (ss n, f) = (Inr (Some ?l), (ss n, write_lease ?l))"
    using l assms(4) r(1) by (simp add: lease_touch_def)
  moreover have "file_holder K (write_lease ?l) = Some (a, t2)"
    using file_holder_write [OF assms(1) r(2), of t2] l(3) by simp
  ultimately show ?thesis using l(3) by auto
qed

section \<open>A concrete run\<close>

text \<open>Times in unary. One process starts a session and refreshes it; another one waits for the timeout of one
  second.\<close>

definition ex_clock :: iso_time where
  "ex_clock = \<lparr>iso_text = (\<lambda>t. (if t < 0 then CHR ''-'' else CHR ''+'') # replicate (nat \<bar>t\<bar>) CHR ''i''),
     iso_instant = (\<lambda>s. case s of [] \<Rightarrow> None
       | c # cs \<Rightarrow> Some (if c = CHR ''-'' then - int (length cs) else int (length cs)))\<rparr>"

definition ex_store :: lease_store where
  "ex_store = \<lparr>lst_timeout = 1 / 1000000, lst_heartbeat = 1 / 3000000, lst_owner = None\<rparr>"

definition ex_first :: "runtime_lease result \<times> (lease_store \<times> lease_file)" where
  "ex_first = lease_start ex_clock 1 ''u'' (Some ''a'') 0 0 (ex_store, None)"

definition ex_stores :: "nat \<Rightarrow> lease_store" where
  "ex_stores = (\<lambda>_. ex_store)(0 := fst (snd ex_first))"

definition ex_granted :: "string \<Rightarrow> int option" where
  "ex_granted = (\<lambda>_. None)(''a'' \<mapsto> 0)"

lemma ex_clock_ok: "clock_ok ex_clock"
proof -
  have "\<not> py_space CHR ''-''" "\<not> py_space CHR ''+''" by code_simp+
  then have "nonblank (CHR ''-'' # xs)" "nonblank (CHR ''+'' # xs)" for xs by simp_all
  then show ?thesis by (simp add: clock_ok_def ex_clock_def)
qed

lemma ex_lease_run: "lease_run ex_clock (1 / 1000000) (ex_stores, snd (snd ex_first), 0, ex_granted)"
proof -
  have i: "lease_run ex_clock (1 / 1000000) (\<lambda>_. ex_store, None, 0, \<lambda>_. None)"
    by (rule lease_run.init) (simp add: ex_store_def)
  have "isOk (fst ex_first)" by code_simp
  then obtain l where l: "fst ex_first = Inr l" by (auto simp: isOk_iff)
  have "(case fst ex_first of Inr l \<Rightarrow> rl_session_id l = ''a'' | Inl e \<Rightarrow> False)" by code_simp
  with l have a: "rl_session_id l = ''a''" by simp
  have "lease_start ex_clock 1 ''u'' (Some ''a'') 0 0 ((\<lambda>_. ex_store) 0, None) = (Inr l, (fst (snd ex_first), snd (snd ex_first)))"
    using l by (simp add: ex_first_def prod_eq_iff)
  from lease_step.started [OF _ _ this, of 0 "1 / 1000000" "\<lambda>_. None"] a
  have "lease_step ex_clock (1 / 1000000) (\<lambda>_. ex_store, None, 0, \<lambda>_. None) (ex_stores, snd (snd ex_first), 0, ex_granted)"
    by (simp add: ex_stores_def ex_granted_def)
  with i show ?thesis by (rule lease_run.step)
qed

theorem one_live_session_witness: "\<exists>!b. ex_granted b = Some 0 \<and> \<not> expired (1 / 1000000) 0 0"
proof
  show "ex_granted ''a'' = Some 0 \<and> \<not> expired (1 / 1000000) 0 0" by (simp add: expired_def ex_granted_def)
next
  fix b
  assume "ex_granted b = Some 0 \<and> \<not> expired (1 / 1000000) 0 0"
  moreover have "ex_granted ''a'' = Some 0" by (simp add: ex_granted_def)
  ultimately show "b = ''a''" using one_live_session [OF ex_clock_ok ex_lease_run, of b 0 "''a''" 0] by simp
qed

theorem start_succeeds_iff_witness:
  "\<not> isOk (fst (lease_start ex_clock 2 ''u'' (Some ''b'') 1 1 (ex_stores 1, snd (snd ex_first)))) \<and>
   isOk (fst (lease_start ex_clock 2 ''u'' (Some ''b'') 2 2 (ex_stores 1, snd (snd ex_first))))"
proof -
  have b: "(0::int) < 2" "nonblank ''b''" by code_simp+
  have "\<not> expired (1 / 1000000) 1 0" "expired (1 / 1000000) 2 0" by (simp_all add: expired_def)
  then have "\<not> (\<forall>b tb. ex_granted b = Some tb \<longrightarrow> b = ''b'' \<or> expired (1 / 1000000) 1 tb)"
    "\<forall>b tb. ex_granted b = Some tb \<longrightarrow> b = ''b'' \<or> expired (1 / 1000000) 2 tb" by (auto simp: ex_granted_def)
  with start_succeeds_iff [OF ex_clock_ok ex_lease_run _ b, of 1 "''u''" 1 1]
    start_succeeds_iff [OF ex_clock_ok ex_lease_run _ b, of 2 "''u''" 2 1] show ?thesis by simp
qed

theorem touch_in_time_witness:
  "\<exists>l f'. lease_touch ex_clock 1 1 (ex_stores 0, snd (snd ex_first)) = (Inr (Some l), (ex_stores 0, f')) \<and>
     file_holder ex_clock f' = Some (''a'', 1)"
proof -
  have "lst_owner (ex_stores 0) = Some ''a''" by code_simp
  moreover have "ex_granted ''a'' = Some 0" "\<not> expired (1 / 1000000) 1 0" by (simp_all add: ex_granted_def expired_def)
  ultimately show ?thesis using touch_in_time [OF ex_clock_ok ex_lease_run, of 1 0 "''a''" 0 1] by auto
qed

end
