(* ===== verification/FSM_Store.thy ===== *)
theory FSM_Store
  imports FSM_Runner
begin

text \<open>
  The file store of the FSM Runner, \<open>src/onr/adapters/fsm_store.py\<close>: the Statechart and the execution record
  are two files, and each save replaces one of them as a whole. A runner over this store is the runner of
  \<open>FSM_Runner\<close>, and a process may stop between two saves.
\<close>

section \<open>The store\<close>

text \<open>A file does not exist, cannot be read or decoded (\<open>Some None\<close>), or holds a JSON value.\<close>

record json_store =
  js_statechart :: "json option option"
  js_record :: "json option option"

fun storage_error :: "'a result \<Rightarrow> 'a result" where
  "storage_error (Inl (ValueError e)) = Inl (RuntimeError InvalidJson)"
| "storage_error r = r"

definition json_load_statechart :: "json_store \<Rightarrow> statechart option result" where
  "json_load_statechart js = (case js_statechart js of
     None \<Rightarrow> Inr None
   | Some t \<Rightarrow> storage_error (bindE (statechart_from_json (map_option thaw t)) (\<lambda>c. Inr (Some c))))"

definition json_load_record :: "json_store \<Rightarrow> execution_record option result" where
  "json_load_record js = (case js_record js of
     None \<Rightarrow> Inr None
   | Some t \<Rightarrow> storage_error (bindE (execution_record_from_json (map_option thaw t)) (\<lambda>r. Inr (Some r))))"

text \<open>\<open>save_statechart\<close> and \<open>save_execution_record\<close>, each of which replaces one file.\<close>

datatype store_save = SaveStatechart statechart | SaveRecord execution_record

fun json_save :: "store_save \<Rightarrow> json_store \<Rightarrow> json_store" where
  "json_save (SaveStatechart c) js = js\<lparr>js_statechart := Some (Some (statechart_json c))\<rparr>"
| "json_save (SaveRecord r) js = js\<lparr>js_record := Some (Some (execution_record_json r))\<rparr>"

fun memory_save :: "store_save \<Rightarrow> fsm_store \<Rightarrow> fsm_store" where
  "memory_save (SaveStatechart c) st = save_statechart c st"
| "memory_save (SaveRecord r) st = save_execution_record r st"

definition json_saves :: "store_save list \<Rightarrow> json_store \<Rightarrow> json_store" where
  "json_saves = fold json_save"

definition no_files :: json_store where
  "no_files = \<lparr>js_statechart = None, js_record = None\<rparr>"

section \<open>The runner over the store\<close>

definition memory_of :: "json_store \<Rightarrow> fsm_store" where
  "memory_of js = \<lparr>st_statechart = Option.bind (js_statechart js) id, st_record = Option.bind (js_record js) id\<rparr>"

definition json_runner_new ::
  "'m machine_port option \<Rightarrow> json_store \<Rightarrow> string \<Rightarrow> subscription option \<Rightarrow> log_call list option \<Rightarrow>
   'm runner result" where
  "json_runner_new F js topic sub lg =
     bindE (json_load_statechart js) (\<lambda>chart.
     bindE (json_load_record js) (\<lambda>record.
     runner_init F chart record (memory_of js) topic sub lg))"

text \<open>The saves that an operation makes when it takes a runner to another, in order.\<close>

definition saves_of :: "'m runner \<Rightarrow> 'm runner \<Rightarrow> store_save list" where
  "saves_of ru ru' = (case (ru_chart ru', ru_record ru') of
     (Some c, Some r) \<Rightarrow>
       if ru_store ru' = ru_store ru then []
       else if st_statechart (ru_store ru') = st_statechart (ru_store ru) then [SaveRecord r]
       else [SaveStatechart c, SaveRecord r]
   | _ \<Rightarrow> [])"

section \<open>The files mirror the memory\<close>

definition mirrors :: "json_store \<Rightarrow> fsm_store \<Rightarrow> bool" where
  "mirrors js st \<longleftrightarrow> js_statechart js = map_option Some (st_statechart st) \<and> js_record js = map_option Some (st_record st)"

lemma mirrors_save: "mirrors js st \<Longrightarrow> mirrors (json_save x js) (memory_save x st)"
  by (cases x) (auto simp: mirrors_def save_statechart_def save_execution_record_def)

lemma mirrors_saves: "mirrors js st \<Longrightarrow> mirrors (json_saves xs js) (fold memory_save xs st)"
  unfolding json_saves_def by (induction xs arbitrary: js st) (auto intro: mirrors_save)

lemma memory_of_mirror: "mirrors js st \<Longrightarrow> memory_of js = st"
  by (cases st; cases "st_statechart st"; cases "st_record st") (auto simp: mirrors_def memory_of_def)

lemma json_load_mirror:
  assumes "mirrors js st"
  shows "json_load_statechart js = storage_error (load_statechart st)"
    and "json_load_record js = storage_error (load_execution_record st)"
  using assms by (auto simp: mirrors_def json_load_statechart_def json_load_record_def load_statechart_def
      load_execution_record_def split: option.split)

text \<open>What an operation saves brings the store of one runner to the store of the next.\<close>

lemma saves_memory:
  assumes "runner_inv ru'" and "ru_chart ru' = None \<Longrightarrow> ru_store ru' = ru_store ru"
  shows "fold memory_save (saves_of ru ru') (ru_store ru) = ru_store ru'"
proof (cases "ru_chart ru'")
  case None
  with assms(2) show ?thesis by (simp add: saves_of_def)
next
  case (Some c)
  with assms(1) obtain r where "ru_record ru' = Some r" "st_statechart (ru_store ru') = Some (statechart_json c)"
    "st_record (ru_store ru') = Some (execution_record_json r)" by (auto simp: runner_inv_def split: option.splits)
  with Some show ?thesis
    by (cases "ru_store ru"; cases "ru_store ru'") (auto simp: saves_of_def save_statechart_def save_execution_record_def)
qed

lemma loads_ok:
  assumes "runner_inv ru"
  shows "\<exists>c r. load_statechart (ru_store ru) = Inr c \<and> load_execution_record (ru_store ru) = Inr r"
proof (cases "ru_chart ru")
  case None
  with assms show ?thesis by (auto simp: runner_inv_def load_statechart_def load_execution_record_def split: option.splits)
next
  case (Some c)
  with assms obtain r where "record_inv c r" "st_statechart (ru_store ru) = Some (statechart_json c)"
    "st_record (ru_store ru) = Some (execution_record_json r)" by (auto simp: runner_inv_def split: option.splits)
  then show ?thesis using load_statechart_saved [of c] load_execution_record_saved [of r]
    by (auto simp: record_inv_def)
qed

text \<open>A runner that starts from the files of another is the one that starts from its memory.\<close>

lemma json_runner_new_mirror:
  assumes "runner_inv ru" and "mirrors js (ru_store ru)"
  shows "json_runner_new F js topic sub lg = runner_new F (ru_store ru) topic sub lg"
  using loads_ok [OF assms(1)] json_load_mirror [OF assms(2)] memory_of_mirror [OF assms(2)]
  by (auto simp: json_runner_new_def runner_new_def)

section \<open>What each operation saves\<close>

lemma saves_same [simp]: "ru_store ru' = ru_store ru \<Longrightarrow> saves_of ru ru' = []"
  by (simp add: saves_of_def split: option.split)

lemma same_control_store: "same_control a b \<Longrightarrow> ru_store b = ru_store a"
  by (simp add: same_control_def)

lemma statechart_json_revision:
  assumes "statechart_wf c" and "statechart_wf c'" and "statechart_json c = statechart_json c'"
  shows "sc_plan_revision c = sc_plan_revision c'"
proof -
  let ?st = "\<lparr>st_statechart = Some (statechart_json c), st_record = None\<rparr>"
  have "load_statechart ?st = Inr (Some (statechart_canonical c))" using load_statechart_saved [OF assms(1)] by simp
  moreover have "load_statechart ?st = Inr (Some (statechart_canonical c'))"
    using load_statechart_saved [OF assms(2)] assms(3) by simp
  ultimately have "statechart_canonical c = statechart_canonical c'" by simp
  then have "sc_plan_revision (statechart_canonical c) = sc_plan_revision (statechart_canonical c')" by simp
  then show ?thesis by (simp add: statechart_canonical_def)
qed

text \<open>An activation that installs a chart saves the chart first and the record second.\<close>

definition installs :: "'m runner \<Rightarrow> 'm runner \<Rightarrow> statechart \<Rightarrow> execution_record \<Rightarrow> bool" where
  "installs ru ru' c r \<longleftrightarrow> statechart_wf c \<and> saves_of ru ru' = [SaveStatechart c, SaveRecord r] \<and>
     (\<forall>old. ru_chart ru = Some old \<longrightarrow> sc_plan_revision old < sc_plan_revision c)"

lemma installed_saves:
  assumes inv: "runner_inv ru" and c: "statechart_wf c" and sub: "sub_mission_id sub = sc_mission_id c"
    and newer: "\<forall>old. ru_chart ru = Some old \<longrightarrow> sc_plan_revision old < sc_plan_revision c"
    and same: "same_control (installed c (ru\<lparr>ru_subscription := Some sub\<rparr>)) ru'"
  shows "\<exists>r. installs ru ru' c r"
proof -
  let ?i = "installed c (ru\<lparr>ru_subscription := Some sub\<rparr>)"
  have "ru_chart ?i = Some c" "ru_store ?i = ru_store (installed c ru)" "\<exists>r. ru_record ?i = Some r"
    by (simp_all add: installed_def Let_def split: option.split)
  with same have ru': "ru_chart ru' = Some c" "ru_store ru' = ru_store (installed c ru)" "\<exists>r. ru_record ru' = Some r"
    by (simp_all add: same_control_def)
  have new: "st_statechart (ru_store ru') = Some (statechart_json c)"
    using ru'(2) by (simp add: installed_def Let_def save_statechart_def save_execution_record_def)
  have "st_statechart (ru_store ru) \<noteq> Some (statechart_json c)"
  proof
    assume eq: "st_statechart (ru_store ru) = Some (statechart_json c)"
    with inv obtain old where old: "ru_chart ru = Some old" "statechart_wf old" "statechart_json old = statechart_json c"
      by (auto simp: runner_inv_def record_inv_def split: option.splits)
    with newer statechart_json_revision [OF old(2) c old(3)] show False by simp
  qed
  with new ru' c newer show ?thesis by (auto simp: saves_of_def installs_def)
qed

lemma handle_saves:
  assumes inv: "runner_inv ru" and m: "message_wf m"
  shows "saves_of ru (fst (snd (handle P F m (ru, s)))) = [] \<or>
    (\<exists>c r. installs ru (fst (snd (handle P F m (ru, s)))) c r)"
  using handle_control [OF inv m, of P F s]
proof (elim disjE exE conjE)
  fix c sub
  assume "statechart_wf c" "sub_mission_id sub = sc_mission_id c"
    "\<forall>old. ru_chart ru = Some old \<longrightarrow> sc_plan_revision old < sc_plan_revision c"
    "same_control (installed c (ru\<lparr>ru_subscription := Some sub\<rparr>)) (fst (snd (handle P F m (ru, s))))"
  from installed_saves [OF inv this] show ?thesis by blast
qed (auto dest: same_control_store)

lemma apply_saves:
  assumes "runner_inv ru" and "maneuver_decision_wf d"
  shows "saves_of ru (fst (snd (apply_candidate P F x d (ru, s)))) = [] \<or>
    (\<exists>r. ru_record (fst (snd (apply_candidate P F x d (ru, s)))) = Some r \<and>
      saves_of ru (fst (snd (apply_candidate P F x d (ru, s)))) = [SaveRecord r])"
  using apply_control [OF assms, of P F x s]
proof (elim disjE exE conjE)
  fix c r t
  assume "ru_chart ru = Some c"
    and *: "same_control (ru\<lparr>ru_record := Some (moved r t (md_decision_id d)),
        ru_store := save_execution_record (moved r t (md_decision_id d)) (ru_store ru)\<rparr>)
        (fst (snd (apply_candidate P F x d (ru, s))))"
  let ?ru' = "fst (snd (apply_candidate P F x d (ru, s)))"
  have "ru_record ?ru' = Some (moved r t (md_decision_id d))"
    using * by (simp add: same_control_def)
  moreover have "ru_store ?ru' = save_execution_record (moved r t (md_decision_id d)) (ru_store ru)"
    using * by (simp add: same_control_def)
  ultimately show ?thesis by (auto simp: saves_of_def save_execution_record_def split: option.split)
qed (auto dest: same_control_store)

lemma status_saves: "saves_of ru (fst (snd (runner_status P (ru, s)))) = []"
  using same_control_store [OF publish_status_frame [of ru P "''updated''" True s]]
  by (auto simp: runner_status_def bindS_cases split: sum.split)

section \<open>Runs with interruptions\<close>

text \<open>
  An operation of the runner completes, or the process stops after some of its saves and a new process
  starts from the files. The transport is any event port, and changes in any way in between.
\<close>

inductive runner_operation :: "'s event_port \<Rightarrow> 'm machine_port option \<Rightarrow> 'm runner \<times> 's \<Rightarrow> 'm runner \<times> 's \<Rightarrow> bool"
  for P F where
  op_handle: "message_wf m \<Longrightarrow> runner_operation P F (ru, s) (snd (handle P F m (ru, s)))"
| op_apply: "maneuver_decision_wf d \<Longrightarrow> runner_operation P F (ru, s) (snd (apply_candidate P F x d (ru, s)))"
| op_status: "runner_operation P F (ru, s) (snd (runner_status P (ru, s)))"

inductive stored_run :: "'s event_port \<Rightarrow> 'm machine_port option \<Rightarrow> 'm runner \<times> 's \<times> json_store \<Rightarrow> bool" for P F where
  fresh: "json_runner_new F no_files topic sub lg = Inr ru \<Longrightarrow> stored_run P F (ru, s, no_files)"
| completed: "stored_run P F (ru, s, js) \<Longrightarrow> runner_operation P F (ru, s) (ru', s') \<Longrightarrow>
    stored_run P F (ru', s'', json_saves (saves_of ru ru') js)"
| interrupted: "stored_run P F (ru, s, js) \<Longrightarrow> runner_operation P F (ru, s) (ru1, s1) \<Longrightarrow>
    json_runner_new F (json_saves (take k (saves_of ru ru1)) js) topic sub lg = Inr ru' \<Longrightarrow>
    stored_run P F (ru', s', json_saves (take k (saves_of ru ru1)) js)"

inductive_simps runner_operation_iff: "runner_operation P F (ru, s) (ru', s')"

text \<open>A property of the runner that the three operations have is one of every operation.\<close>

lemma operation_cases:
  assumes "runner_operation P F (ru, s) (ru', s')"
    and "\<And>m. message_wf m \<Longrightarrow> Q (fst (snd (handle P F m (ru, s))))"
    and "\<And>d x. maneuver_decision_wf d \<Longrightarrow> Q (fst (snd (apply_candidate P F x d (ru, s))))"
    and "Q (fst (snd (runner_status P (ru, s))))"
  shows "Q ru'"
  using assms(1) unfolding runner_operation_iff
proof (elim disjE exE conjE)
  fix m
  assume m: "message_wf m" and "(ru', s') = snd (handle P F m (ru, s))"
  then have "fst (snd (handle P F m (ru, s))) = ru'" by (metis fst_conv)
  with assms(2) [OF m] show ?thesis by simp
next
  fix d x
  assume d: "maneuver_decision_wf d" and "(ru', s') = snd (apply_candidate P F x d (ru, s))"
  then have "fst (snd (apply_candidate P F x d (ru, s))) = ru'" by (metis fst_conv)
  with assms(3) [OF d, of x] show ?thesis by simp
next
  assume "(ru', s') = snd (runner_status P (ru, s))"
  then have "fst (snd (runner_status P (ru, s))) = ru'" by (metis fst_conv)
  with assms(4) show ?thesis by simp
qed

lemma operation_inv:
  assumes "runner_operation P F (ru, s) (ru', s')" and "runner_inv ru"
  shows "runner_inv ru'"
  by (rule operation_cases [OF assms(1)]) (simp_all add: handle_inv apply_inv status_inv assms(2))

lemma operation_saves:
  assumes "runner_operation P F (ru, s) (ru', s')" and "runner_inv ru"
  shows "saves_of ru ru' = [] \<or> (\<exists>r. saves_of ru ru' = [SaveRecord r]) \<or> (\<exists>c r. installs ru ru' c r)"
proof (rule operation_cases [OF assms(1)])
  show "saves_of ru (fst (snd (handle P F m (ru, s)))) = [] \<or> (\<exists>r. saves_of ru (fst (snd (handle P F m (ru, s)))) = [SaveRecord r]) \<or>
      (\<exists>c r. installs ru (fst (snd (handle P F m (ru, s)))) c r)" if "message_wf m" for m
    using handle_saves [OF assms(2) that, of P F s] by blast
  show "saves_of ru (fst (snd (apply_candidate P F x d (ru, s)))) = [] \<or>
      (\<exists>r. saves_of ru (fst (snd (apply_candidate P F x d (ru, s)))) = [SaveRecord r]) \<or>
      (\<exists>c r. installs ru (fst (snd (apply_candidate P F x d (ru, s)))) c r)" if "maneuver_decision_wf d" for d x
    using apply_saves [OF assms(2) that, of P F x s] by blast
qed (simp add: status_saves)

lemma operation_chart:
  fixes ru :: "'a runner"
  assumes "runner_operation P F (ru, s) (ru', s')" and "runner_inv ru" and "ru_chart ru' = None"
  shows "ru_store ru' = ru_store ru"
proof -
  have "ru_chart ru = None"
  proof (rule ccontr)
    assume "ru_chart ru \<noteq> None"
    then obtain c where c: "ru_chart ru = Some c" by blast
    have "ru_chart ru' \<noteq> None"
      by (rule operation_cases [OF assms(1)])
        (use handle_chart [OF assms(2) _ c] apply_chart [OF assms(2)] in \<open>fastforce simp: status_chart c\<close>)+
    with assms(3) show False by simp
  qed
  have empty: "ru_store rx = empty_store" if "runner_inv rx" "ru_chart rx = None" for rx :: "'a runner"
    using that by (cases "ru_record rx"; cases "ru_store rx") (simp_all add: runner_inv_def empty_store_def)
  show ?thesis using empty [OF assms(2) \<open>ru_chart ru = None\<close>] empty [OF operation_inv [OF assms(1,2)] assms(3)] by simp
qed

lemma operation_mirrors:
  assumes "runner_operation P F (ru, s) (ru', s')" and "runner_inv ru" and "mirrors js (ru_store ru)"
  shows "mirrors (json_saves (saves_of ru ru') js) (ru_store ru')"
  using mirrors_saves [OF assms(3), of "saves_of ru ru'"]
    saves_memory [OF operation_inv [OF assms(1,2)] operation_chart [OF assms(1,2)]] by simp

text \<open>A process that stops between the two saves of an activation leaves files from which no runner starts.\<close>

lemma half_installed_refused:
  assumes inv: "runner_inv ru" and js: "mirrors js (ru_store ru)" and ins: "installs ru ru1 c r"
  shows "\<exists>e. json_runner_new F (json_save (SaveStatechart c) js) topic sub lg = Inl (RuntimeError e)"
proof -
  let ?js = "json_save (SaveStatechart c) js"
  have c: "statechart_wf c" using ins by (simp add: installs_def)
  have mir: "mirrors ?js (save_statechart c (ru_store ru))" using mirrors_save [OF js, of "SaveStatechart c"] by simp
  have chart: "json_load_statechart ?js = Inr (Some (statechart_canonical c))"
    using json_load_mirror(1) [OF mir] load_statechart_saved [OF c] by (simp add: save_statechart_def)
  show ?thesis
  proof (cases "ru_chart ru")
    case None
    with inv have "st_record (ru_store ru) = None" by (auto simp: runner_inv_def split: option.splits)
    then have "json_load_record ?js = Inr None"
      using json_load_mirror(2) [OF mir] by (simp add: save_statechart_def load_execution_record_def)
    with chart show ?thesis by (simp add: json_runner_new_def runner_init_def)
  next
    case (Some old)
    with inv obtain q where q: "record_inv old q" "st_record (ru_store ru) = Some (execution_record_json q)"
      by (auto simp: runner_inv_def split: option.splits)
    then have "json_load_record ?js = Inr (Some q)"
      using json_load_mirror(2) [OF mir] load_execution_record_saved [of q "save_statechart c (ru_store ru)"]
      by (simp add: save_statechart_def record_inv_def)
    moreover have "sc_plan_revision (statechart_canonical c) \<noteq> er_plan_revision q"
      using ins Some q(1) by (auto simp: installs_def record_inv_def statechart_canonical_def)
    ultimately show ?thesis
      using chart by (cases "sc_mission_id (statechart_canonical c) = er_mission_id q")
        (simp_all add: json_runner_new_def runner_init_def persisted_consistent_def)
  qed
qed

lemma stored_run_inv:
  fixes F :: "'m machine_port option"
  assumes "stored_run P F x"
  shows "runner_inv (fst x) \<and> mirrors (snd (snd x)) (ru_store (fst x))"
  using assms
proof (induction rule: stored_run.induct)
  case (fresh topic sub lg ru s)
  have "memory_of no_files = empty_store" by (simp add: memory_of_def no_files_def empty_store_def)
  then have "json_runner_new F no_files topic sub lg = runner_new F empty_store topic sub lg"
    by (simp add: json_runner_new_def runner_new_def json_load_statechart_def json_load_record_def no_files_def
        load_statechart_def load_execution_record_def empty_store_def)
  with fresh have new: "runner_new F empty_store topic sub lg = Inr ru" by simp
  then have "ru_store ru = empty_store" by (auto simp: runner_new_def runner_init_def bindE_eq_Inr)
  with runner_new_empty [OF new] show ?case by (simp add: mirrors_def no_files_def empty_store_def)
next
  case (completed ru s js ru' s' s'')
  then show ?case using operation_inv operation_mirrors by (metis fst_conv snd_conv)
next
  case (interrupted ru s js ru1 s1 k topic sub lg ru' s')
  then have inv: "runner_inv ru" "mirrors js (ru_store ru)" by simp_all
  note inv1 = operation_inv [OF interrupted.hyps(2) inv(1)] and mir1 = operation_mirrors [OF interrupted.hyps(2) inv]
  let ?js = "json_saves (take k (saves_of ru ru1)) js"
  have start: "runner_inv ru' \<and> mirrors ?js (ru_store ru')" if "runner_inv rx" "mirrors ?js (ru_store rx)" for rx :: "'m runner"
  proof -
    have new: "runner_new F (ru_store rx) topic sub lg = Inr ru'"
      using interrupted.hyps(3) json_runner_new_mirror [OF that, of F topic sub lg] by simp
    then have "ru_store ru' = ru_store rx" by (auto simp: runner_new_def runner_init_def bindE_eq_Inr)
    with runner_new_inv [OF that(1) new] that(2) show ?thesis by simp
  qed
  consider "take k (saves_of ru ru1) = []" | "take k (saves_of ru ru1) = saves_of ru ru1"
    | c r where "installs ru ru1 c r" "take k (saves_of ru ru1) = [SaveStatechart c]"
  proof (cases "k = 0 \<or> length (saves_of ru ru1) \<le> k")
    case True
    then show ?thesis using that(1,2) by auto
  next
    case False
    then have "2 \<le> length (saves_of ru ru1)" "k = 1 \<or> 3 \<le> length (saves_of ru ru1)" by auto
    with operation_saves [OF interrupted.hyps(2) inv(1)] obtain c r where
      "installs ru ru1 c r" "saves_of ru ru1 = [SaveStatechart c, SaveRecord r]" "k = 1" by (auto simp: installs_def)
    then show ?thesis using that(3) by simp
  qed
  then show ?case
  proof cases
    case 1
    then have "?js = js" by (simp only: json_saves_def fold_simps id_apply fold_Nil)
    with start [OF inv(1)] inv(2) show ?thesis by simp
  next
    case 2
    with mir1 have "mirrors ?js (ru_store ru1)" by simp
    with start [OF inv1] show ?thesis by simp
  next
    case 3
    with half_installed_refused [OF inv 3(1), of F topic sub lg] interrupted.hyps(3) show ?thesis
      by (auto simp: json_saves_def)
  qed
qed

section \<open>Properties\<close>


text \<open>C38: an interrupted activation blocks the runner. When the process stops between the two saves of the activation
  of a new Statechart, every later construction of a runner from these files raises: the files are an inconsistent
  pair, whether the Statechart is the first one or a newer revision, and nothing repairs them.\<close>

theorem interrupted_activation_blocks:
  fixes F :: "'m machine_port option"
  assumes "stored_run P F (ru, s, js)" and "message_wf m" and "handle P F m (ru, s) = (res, (ru1, s1))"
    and "ru_store ru1 \<noteq> ru_store ru"
  shows "\<exists>c r. saves_of ru ru1 = [SaveStatechart c, SaveRecord r] \<and>
    (\<forall>(G :: 'm machine_port option) topic sub lg. \<exists>e. json_runner_new G (json_saves [SaveStatechart c] js) topic sub lg = Inl (RuntimeError e))"
proof -
  have inv: "runner_inv ru" "mirrors js (ru_store ru)" using stored_run_inv [OF assms(1)] by simp_all
  have op: "runner_operation P F (ru, s) (ru1, s1)" using op_handle [OF assms(2), of P F ru s] assms(3) by simp
  from operation_mirrors [OF op inv] have "saves_of ru ru1 \<noteq> []"
    using assms(4) saves_memory [OF operation_inv [OF op inv(1)] operation_chart [OF op inv(1)]] by auto
  with handle_saves [OF inv(1) assms(2), of P F s] assms(3) obtain c r where i: "installs ru ru1 c r" by auto
  with half_installed_refused [OF inv i] show ?thesis by (auto simp: installs_def json_saves_def)
qed

section \<open>A concrete run\<close>

lemma ex_stored_fresh: "stored_run inprocess_events None (ex_runner, initial_state, no_files)"
proof -
  have "json_runner_new None no_files ''fsm-status'' None (Some []) = Inr ex_runner" by code_simp
  then show ?thesis by (rule stored_run.fresh)
qed

definition ex_files :: json_store where
  "ex_files = json_saves (saves_of ex_runner (fst ex_handled)) no_files"

lemma ex_stored_handled: "stored_run inprocess_events None (fst ex_handled, snd ex_handled, ex_files)"
proof -
  have "message_wf (ChartMessage ex_chart)" by code_simp
  from op_handle [OF this, of inprocess_events None ex_runner initial_state]
  have "runner_operation inprocess_events None (ex_runner, initial_state) (fst ex_handled, snd ex_handled)"
    by (simp add: ex_handled_def)
  from completed [OF ex_stored_fresh this] show ?thesis by (simp add: ex_files_def)
qed


theorem interrupted_activation_blocks_witness:
  "\<exists>c r. saves_of ex_runner (fst ex_handled) = [SaveStatechart c, SaveRecord r] \<and>
    (\<exists>e. json_runner_new (None :: unit machine_port option) (json_saves [SaveStatechart c] no_files) ''fsm-status'' None None =
      Inl (RuntimeError e))"
proof -
  have m: "message_wf (ChartMessage ex_chart)" by code_simp
  have h: "handle inprocess_events None (ChartMessage ex_chart) (ex_runner, initial_state) =
      (fst (handle inprocess_events None (ChartMessage ex_chart) (ex_runner, initial_state)), (fst ex_handled, snd ex_handled))"
    by (simp add: ex_handled_def)
  have "ru_store (fst ex_handled) \<noteq> ru_store ex_runner" by code_simp
  from interrupted_activation_blocks [OF ex_stored_fresh m h this] show ?thesis by blast
qed

end
