(* ===== verification/State_Machine.thy ===== *)
theory State_Machine
  imports FSM_Store
begin

text \<open>
  The adapter of the state machine library, \<open>src/onr/adapters/python_statemachine.py\<close>: the class that is built
  from a Statechart, and the running machine that the FSM Runner drives. The library itself
  (\<open>python-statemachine\<close>) is a parameter; \<open>library_ok\<close> states what its documentation says of a class with such
  states and events.
\<close>

section \<open>The class of a Statechart\<close>

text \<open>The attributes of the class: states with their value, and events with the states they connect.\<close>

datatype machine_attribute =
    StateAttribute (attr_value: string) (attr_initial: bool) (attr_final: bool)
  | EventAttribute string string

type_synonym machine_class = "(string \<times> machine_attribute) list"

record 'm machine_library =
  lib_create :: "string \<Rightarrow> machine_class \<Rightarrow> string \<Rightarrow> 'm result"
  lib_class :: "'m \<Rightarrow> machine_class"
  lib_current :: "'m \<Rightarrow> string"
  lib_allowed :: "'m \<Rightarrow> string list"
  lib_send :: "'m \<Rightarrow> string \<Rightarrow> unit result \<times> 'm"

definition name_char :: "char \<Rightarrow> bool" where
  "name_char c \<longleftrightarrow> c \<in> set ''abcdefghijklmnopqrstuvwxyzABCDEFGHIJKLMNOPQRSTUVWXYZ0123456789_''"

definition strip_underscores :: "string \<Rightarrow> string" where
  "strip_underscores s = rev (dropWhile (\<lambda>c. c = CHR ''_'') (rev (dropWhile (\<lambda>c. c = CHR ''_'') s)))"

definition attribute_name :: "string \<Rightarrow> nat \<Rightarrow> string \<Rightarrow> string" where
  "attribute_name prefix index value =
     (let suffix = strip_underscores (map (\<lambda>c. if name_char c then c else CHR ''_'') value)
      in prefix @ ''_'' @ show_nat index @ ''_'' @ (if suffix = [] then ''value'' else suffix))"

text \<open>The two loops of \<open>build\<close>.\<close>

fun add_states :: "statechart \<Rightarrow> nat \<Rightarrow> string list \<Rightarrow> machine_class \<Rightarrow> machine_class" where
  "add_states c i [] A = A"
| "add_states c i (s # ss) A = add_states c (Suc i) ss
     (put (attribute_name ''state'' i s) (StateAttribute s (s = sc_entry_state c) (s \<in> set (sc_terminal_states c))) A)"

fun add_events :: "string list \<Rightarrow> nat \<Rightarrow> statechart_transition list \<Rightarrow> machine_class \<times> (string \<times> string) list \<Rightarrow>
  (machine_class \<times> (string \<times> string) list) result" where
  "add_events states i [] AE = Inr AE"
| "add_events states i (t # ts) (A, E) =
     bindE (guardE (tr_source t \<in> set states \<and> tr_target t \<in> set states) KeyError) (\<lambda>_.
     add_events states (Suc i) ts
       (put (attribute_name ''event'' i (tr_event t)) (EventAttribute (tr_source t) (tr_target t)) A,
        put (tr_event t) (attribute_name ''event'' i (tr_event t)) E))"

section \<open>The running machine\<close>

record 'm running_machine =
  rm_machine :: 'm
  rm_events :: "(string \<times> string) list"

definition running_current :: "'m machine_library \<Rightarrow> 'm running_machine \<Rightarrow> string" where
  "running_current lib m = lib_current lib (rm_machine m)"

definition running_allowed :: "'m machine_library \<Rightarrow> 'm running_machine \<Rightarrow> string list" where
  "running_allowed lib m = map fst (filter (\<lambda>(e, a). a \<in> set (lib_allowed lib (rm_machine m))) (rm_events m))"

definition running_send :: "'m machine_library \<Rightarrow> 'm running_machine \<Rightarrow> string \<Rightarrow> unit result \<times> 'm running_machine" where
  "running_send lib m event = (case map_of (rm_events m) event of
     None \<Rightarrow> (Inl (ValueError Undeclared), m)
   | Some a \<Rightarrow> (case lib_send lib (rm_machine m) a of (outcome, x) \<Rightarrow> (outcome, m\<lparr>rm_machine := x\<rparr>)))"

definition python_build :: "'m machine_library \<Rightarrow> statechart \<Rightarrow> string option \<Rightarrow> 'm running_machine result" where
  "python_build lib c start_state =
     (let start = (case start_state of None \<Rightarrow> sc_entry_state c | Some s \<Rightarrow> s) in
      bindE (guardE (start \<in> set (sc_states c)) (ValueError Undeclared)) (\<lambda>_.
      bindE (add_events (sc_states c) 0 (sc_transitions c) (add_states c 0 (sc_states c) [], [])) (\<lambda>AE.
      bindE (lib_create lib (''Statechart_'' @ show_int (sc_plan_revision c)) (fst AE) start) (\<lambda>m.
      let running = \<lparr>rm_machine = m, rm_events = snd AE\<rparr> in
      bindE (guardE (running_current lib running = start) (RuntimeError StateMismatch)) (\<lambda>_.
      Inr running)))))"

definition python_factory :: "'m machine_library \<Rightarrow> 'm running_machine machine_port" where
  "python_factory lib = \<lparr>mk_build = python_build lib, mk_send = running_send lib, mk_current = running_current lib\<rparr>"

section \<open>What the library promises\<close>

definition class_states :: "machine_class \<Rightarrow> string list" where
  "class_states A = [v. StateAttribute v i f \<leftarrow> map snd A]"

definition class_edges :: "machine_class \<Rightarrow> (string \<times> string) list" where
  "class_edges A = [(a, b). EventAttribute a b \<leftarrow> map snd A]"

definition class_initial :: "machine_class \<Rightarrow> string list" where
  "class_initial A = [v. StateAttribute v i f \<leftarrow> map snd A, i]"

definition class_final :: "machine_class \<Rightarrow> string list" where
  "class_final A = [v. StateAttribute v i f \<leftarrow> map snd A, f]"

text \<open>A class is accepted when it has one initial state and an event, its events connect its states, all states are
  reachable, and no event leaves a final state. It is rejected when it has no event or an event leaves a
  final state.\<close>

definition class_ok :: "machine_class \<Rightarrow> bool" where
  "class_ok A \<longleftrightarrow> distinct (map fst A) \<and> length (class_initial A) = 1 \<and> distinct (class_states A) \<and> class_edges A \<noteq> [] \<and>
     (\<forall>e \<in> set (class_edges A). fst e \<in> set (class_states A) \<and> snd e \<in> set (class_states A) \<and> fst e \<notin> set (class_final A)) \<and>
     closure (class_edges A) (set (class_initial A)) = set (class_states A)"

definition class_rejected :: "machine_class \<Rightarrow> bool" where
  "class_rejected A \<longleftrightarrow> class_edges A = [] \<or> (\<exists>e \<in> set (class_edges A). fst e \<in> set (class_final A))"

definition library_ok :: "'m machine_library \<Rightarrow> bool" where
  "library_ok lib \<longleftrightarrow>
     (\<forall>name A s. class_ok A \<and> s \<in> set (class_states A) \<longrightarrow> (\<exists>m. lib_create lib name A s = Inr m)) \<and>
     (\<forall>name A s. class_rejected A \<longrightarrow> (\<exists>e. lib_create lib name A s = Inl e)) \<and>
     (\<forall>name A s m. lib_create lib name A s = Inr m \<longrightarrow> lib_class lib m = A \<and> lib_current lib m = s) \<and>
     (\<forall>m a src tgt. map_of (lib_class lib m) a = Some (EventAttribute src tgt) \<and> lib_current lib m = src \<longrightarrow>
        (\<exists>m'. lib_send lib m a = (Inr (), m') \<and> lib_class lib m' = lib_class lib m \<and> lib_current lib m' = tgt))"

section \<open>The attributes of a Statechart\<close>

definition state_entries :: "statechart \<Rightarrow> nat \<Rightarrow> string list \<Rightarrow> machine_class" where
  "state_entries c i ss = map (\<lambda>(j, s). (attribute_name ''state'' j s,
     StateAttribute s (s = sc_entry_state c) (s \<in> set (sc_terminal_states c)))) (enumerate i ss)"

definition event_entries :: "nat \<Rightarrow> statechart_transition list \<Rightarrow> machine_class" where
  "event_entries i ts = map (\<lambda>(j, t). (attribute_name ''event'' j (tr_event t), EventAttribute (tr_source t) (tr_target t)))
     (enumerate i ts)"

definition event_names :: "nat \<Rightarrow> statechart_transition list \<Rightarrow> (string \<times> string) list" where
  "event_names i ts = map (\<lambda>(j, t). (tr_event t, attribute_name ''event'' j (tr_event t))) (enumerate i ts)"

definition chart_class :: "statechart \<Rightarrow> machine_class" where
  "chart_class c = state_entries c 0 (sc_states c) @ event_entries 0 (sc_transitions c)"

lemma underscore_not_digit: "CHR ''_'' \<notin> set (show_nat n)"
proof -
  have "CHR ''_'' \<notin> set decimals" by code_simp
  then show ?thesis using show_nat_digits [of n] by blast
qed

lemma append_sep:
  assumes "x \<notin> set xs" and "x \<notin> set ys"
  shows "xs @ x # us = ys @ x # vs \<longleftrightarrow> xs = ys \<and> us = vs"
proof
  assume eq: "xs @ x # us = ys @ x # vs"
  have "takeWhile (\<lambda>z. z \<noteq> x) (zs @ x # ws) = zs" if "x \<notin> set zs" for zs ws
    using that by (induction zs) auto
  with eq assms have "xs = ys" by metis
  with eq show "xs = ys \<and> us = vs" by simp
qed simp

text \<open>Two attributes of the same kind differ in their index, so no attribute replaces another.\<close>

lemma attribute_name_index: "attribute_name p i v = attribute_name p j w \<Longrightarrow> i = j"
  by (auto simp: attribute_name_def Let_def append_sep underscore_not_digit dest: show_nat_inject)

lemma attribute_name_kind: "attribute_name ''state'' i v \<noteq> attribute_name ''event'' j w"
  by (simp add: attribute_name_def Let_def)

lemma add_states_entries:
  "(\<And>j s. i \<le> j \<Longrightarrow> attribute_name ''state'' j s \<notin> fst ` set A) \<Longrightarrow> add_states c i ss A = A @ state_entries c i ss"
proof (induction ss arbitrary: i A)
  case (Cons s ss)
  let ?e = "(attribute_name ''state'' i s, StateAttribute s (s = sc_entry_state c) (s \<in> set (sc_terminal_states c)))"
  have "attribute_name ''state'' i s \<notin> fst ` set A" by (rule Cons.prems) simp
  then have p: "put (fst ?e) (snd ?e) A = A @ [?e]" by (simp add: put_new)
  have "attribute_name ''state'' j s' \<notin> fst ` set (A @ [?e])" if "Suc i \<le> j" for j s'
    using Cons.prems [of j s'] that attribute_name_index [of "''state''" j s' i s] by auto
  from Cons.IH [OF this] p show ?case by (simp add: state_entries_def)
qed (simp add: state_entries_def)

lemma add_events_entries:
  assumes "\<And>t. t \<in> set ts \<Longrightarrow> tr_source t \<in> set states \<and> tr_target t \<in> set states"
    and "\<And>j e. i \<le> j \<Longrightarrow> attribute_name ''event'' j e \<notin> fst ` set A"
    and "distinct (map tr_event ts)" and "\<And>t. t \<in> set ts \<Longrightarrow> tr_event t \<notin> fst ` set E"
  shows "add_events states i ts (A, E) = Inr (A @ event_entries i ts, E @ event_names i ts)"
  using assms
proof (induction ts arbitrary: i A E)
  case (Cons t ts)
  let ?n = "attribute_name ''event'' i (tr_event t)"
  have "?n \<notin> fst ` set A" using Cons.prems(2) [of i] by simp
  then have p: "put ?n (EventAttribute (tr_source t) (tr_target t)) A = A @ [(?n, EventAttribute (tr_source t) (tr_target t))]"
    by (simp add: put_new)
  have q: "put (tr_event t) ?n E = E @ [(tr_event t, ?n)]" using Cons.prems(4) [of t] by (simp add: put_new)
  have "add_events states (Suc i) ts (A @ [(?n, EventAttribute (tr_source t) (tr_target t))], E @ [(tr_event t, ?n)]) =
      Inr ((A @ [(?n, EventAttribute (tr_source t) (tr_target t))]) @ event_entries (Suc i) ts,
        (E @ [(tr_event t, ?n)]) @ event_names (Suc i) ts)"
  proof (rule Cons.IH)
    show "attribute_name ''event'' j e \<notin> fst ` set (A @ [(?n, EventAttribute (tr_source t) (tr_target t))])"
      if "Suc i \<le> j" for j e
      using Cons.prems(2) [of j e] that attribute_name_index [of "''event''" j e i "tr_event t"] by auto
    show "tr_event u \<notin> fst ` set (E @ [(tr_event t, ?n)])" if "u \<in> set ts" for u
      using Cons.prems(3) Cons.prems(4) [of u] that by (auto simp: image_iff)
  qed (use Cons.prems in auto)
  with p q Cons.prems(1) [of t] show ?case by (simp add: event_entries_def event_names_def)
qed (simp_all add: event_entries_def event_names_def)

lemma keys_state_entries: "k \<in> fst ` set (state_entries c i ss) \<Longrightarrow> \<exists>j s. k = attribute_name ''state'' j s"
  by (fastforce simp: state_entries_def)

text \<open>The class of a valid Statechart has one attribute for each state and each transition.\<close>

lemma build_attributes:
  assumes "statechart_wf c"
  shows "add_events (sc_states c) 0 (sc_transitions c) (add_states c 0 (sc_states c) [], []) =
    Inr (chart_class c, event_names 0 (sc_transitions c))"
proof -
  have "add_states c 0 (sc_states c) [] = state_entries c 0 (sc_states c)" by (simp add: add_states_entries)
  moreover have "attribute_name ''event'' j e \<notin> fst ` set (state_entries c 0 (sc_states c))" for j e
    using keys_state_entries attribute_name_kind by metis
  ultimately show ?thesis
    using statechart_wfD(5,6) [OF assms] by (simp add: add_events_entries chart_class_def)
qed

section \<open>Which Statecharts the library runs\<close>

definition runnable :: "statechart \<Rightarrow> bool" where
  "runnable c \<longleftrightarrow> sc_transitions c \<noteq> [] \<and> (\<forall>t \<in> set (sc_transitions c). tr_source t \<notin> set (sc_terminal_states c))"

lemma attr_entries:
  "map snd (state_entries c i ss) = map (\<lambda>s. StateAttribute s (s = sc_entry_state c) (s \<in> set (sc_terminal_states c))) ss"
  "map snd (event_entries i ts) = map (\<lambda>t. EventAttribute (tr_source t) (tr_target t)) ts"
  unfolding state_entries_def event_entries_def by (induction ss arbitrary: i, simp_all) (induction ts arbitrary: i, simp_all)

lemma concat_states:
  "concat (map (\<lambda>x. case x of StateAttribute v i f \<Rightarrow> g v i f | EventAttribute a b \<Rightarrow> []) (map (\<lambda>s. StateAttribute s (p s) (q s)) ss)) =
     concat (map (\<lambda>s. g s (p s) (q s)) ss)"
  "concat (map (\<lambda>x. case x of StateAttribute v i f \<Rightarrow> g v i f | EventAttribute a b \<Rightarrow> []) (map (\<lambda>t. EventAttribute (h t) (k t)) ts)) = []"
  "concat (map (\<lambda>x. case x of StateAttribute v i f \<Rightarrow> [] | EventAttribute a b \<Rightarrow> e a b) (map (\<lambda>s. StateAttribute s (p s) (q s)) ss)) = []"
  "concat (map (\<lambda>x. case x of StateAttribute v i f \<Rightarrow> [] | EventAttribute a b \<Rightarrow> e a b) (map (\<lambda>t. EventAttribute (h t) (k t)) ts)) =
     concat (map (\<lambda>t. e (h t) (k t)) ts)"
  by (induction ss, simp_all) (induction ts, simp_all)+

lemma concat_singletons: "concat (map (\<lambda>s. [f s]) ss) = map f ss"
  "concat (map (\<lambda>s. if p s then [f s] else []) ss) = map f (filter p ss)"
  by (induction ss) simp_all

lemma chart_class_parts [simp]:
  "class_states (chart_class c) = sc_states c"
  "class_edges (chart_class c) = forward_edges (sc_transitions c)"
  "class_initial (chart_class c) = filter (\<lambda>s. s = sc_entry_state c) (sc_states c)"
  "class_final (chart_class c) = filter (\<lambda>s. s \<in> set (sc_terminal_states c)) (sc_states c)"
  by (simp_all add: class_states_def class_edges_def class_initial_def class_final_def chart_class_def attr_entries
      concat_states concat_singletons forward_edges_def del: map_map)

lemma distinct_indexed:
  assumes "\<And>j x k y. f (j, x) = f (k, y) \<Longrightarrow> j = k"
  shows "distinct (map f (enumerate i xs))"
  using assms by (force simp: distinct_map inj_on_def in_set_enumerate_eq)

lemma distinct_class: "distinct (map fst (chart_class c))"
proof -
  have "distinct (map fst (state_entries c i ss))" "distinct (map fst (event_entries i ts))" for i ss ts
    unfolding state_entries_def event_entries_def map_map
    by (auto intro!: distinct_indexed dest: attribute_name_index)
  moreover have "fst ` set (state_entries c 0 (sc_states c)) \<inter> fst ` set (event_entries 0 (sc_transitions c)) = {}"
    by (auto simp: state_entries_def event_entries_def attribute_name_kind)
  ultimately show ?thesis by (simp add: chart_class_def)
qed

lemma class_ok_chart:
  assumes "statechart_wf c" and "runnable c"
  shows "class_ok (chart_class c)"
proof -
  have w: "distinct (sc_states c)" "sc_entry_state c \<in> set (sc_states c)"
    "closure (forward_edges (sc_transitions c)) {sc_entry_state c} = set (sc_states c)"
    using assms(1) by (auto simp: statechart_wf_def check_topology_def bindE_eq_Inr)
  have "\<forall>e \<in> set (forward_edges (sc_transitions c)). fst e \<in> set (sc_states c) \<and> snd e \<in> set (sc_states c) \<and>
      fst e \<notin> set (sc_terminal_states c)"
    using statechart_wfD(5) [OF assms(1)] assms(2) by (auto simp: forward_edges_def runnable_def)
  with w assms(2) distinct_class filter_one [OF w(1,2)] show ?thesis
    by (auto simp: class_ok_def runnable_def forward_edges_def)
qed

lemma class_rejected_chart:
  assumes "statechart_wf c" and "\<not> runnable c"
  shows "class_rejected (chart_class c)"
proof (cases "sc_transitions c = []")
  case False
  with assms(2) obtain t where "t \<in> set (sc_transitions c)" "tr_source t \<in> set (sc_terminal_states c)"
    by (auto simp: runnable_def)
  with statechart_wfD(5) [OF assms(1), of t] show ?thesis by (force simp: class_rejected_def forward_edges_def)
qed (simp add: class_rejected_def forward_edges_def)

section \<open>The machine of a Statechart\<close>

text \<open>The running machine is one of the Statechart, in the given state.\<close>

definition follows :: "'m machine_library \<Rightarrow> statechart \<Rightarrow> string \<Rightarrow> 'm running_machine \<Rightarrow> bool" where
  "follows lib c s m \<longleftrightarrow> lib_class lib (rm_machine m) = chart_class c \<and> rm_events m = event_names 0 (sc_transitions c) \<and>
     running_current lib m = s"

lemma python_build_runnable:
  assumes lib: "library_ok lib" and "statechart_wf c" and "runnable c"
    and "(case start of None \<Rightarrow> sc_entry_state c | Some s \<Rightarrow> s) = s" and "s \<in> set (sc_states c)"
  shows "\<exists>m. python_build lib c start = Inr m \<and> follows lib c s m"
proof -
  have "class_ok (chart_class c)" "s \<in> set (class_states (chart_class c))" using class_ok_chart [OF assms(2,3)] assms(5) by simp_all
  with lib obtain x where
    x: "lib_create lib (''Statechart_'' @ show_int (sc_plan_revision c)) (chart_class c) s = Inr x"
    unfolding library_ok_def by blast
  with lib have "lib_class lib x = chart_class c" "lib_current lib x = s" unfolding library_ok_def by blast+
  with x assms(4,5) build_attributes [OF assms(2)] show ?thesis
    by (simp add: python_build_def follows_def running_current_def)
qed

lemma python_build_Inr:
  assumes lib: "library_ok lib" and "statechart_wf c" and "python_build lib c start = Inr m"
  shows "follows lib c (case start of None \<Rightarrow> sc_entry_state c | Some s \<Rightarrow> s) m"
proof -
  let ?s = "case start of None \<Rightarrow> sc_entry_state c | Some s \<Rightarrow> s"
  from assms(3) build_attributes [OF assms(2)] obtain x where
    x: "lib_create lib (''Statechart_'' @ show_int (sc_plan_revision c)) (chart_class c) ?s = Inr x"
    and m: "m = \<lparr>rm_machine = x, rm_events = event_names 0 (sc_transitions c)\<rparr>"
    by (auto simp: python_build_def bindE_eq_Inr Let_def)
  from lib x have "lib_class lib x = chart_class c" "lib_current lib x = ?s" unfolding library_ok_def by blast+
  with m show ?thesis by (simp add: follows_def running_current_def)
qed

lemma python_build_rejected:
  assumes lib: "library_ok lib" and "statechart_wf c" and "\<not> runnable c"
  shows "\<exists>e. python_build lib c start = Inl e"
proof (cases "python_build lib c start")
  case (Inr m)
  with build_attributes [OF assms(2)] obtain name s x where "lib_create lib name (chart_class c) s = Inr x"
    by (auto simp: python_build_def bindE_eq_Inr Let_def)
  moreover from lib class_rejected_chart [OF assms(2,3)] have "\<exists>e. lib_create lib name (chart_class c) s = Inl e"
    unfolding library_ok_def by blast
  ultimately show ?thesis by auto
qed simp

text \<open>Sending an event of the Statechart in its source state moves the machine to its target state.\<close>

lemma event_attribute:
  assumes "distinct (map tr_event (sc_transitions c))" and t: "t \<in> set (sc_transitions c)"
  shows "\<exists>a. map_of (event_names 0 (sc_transitions c)) (tr_event t) = Some a \<and>
    map_of (chart_class c) a = Some (EventAttribute (tr_source t) (tr_target t))"
proof -
  from t obtain i where "i < length (sc_transitions c)" "sc_transitions c ! i = t" by (auto simp: in_set_conv_nth)
  then have i: "(i, t) \<in> set (enumerate 0 (sc_transitions c))" by (simp add: in_set_enumerate_eq)
  let ?a = "attribute_name ''event'' i (tr_event t)"
  have "map fst (event_names i ts) = map tr_event ts" for i ts
    by (induction ts arbitrary: i) (simp_all add: event_names_def)
  then have "map_of (event_names 0 (sc_transitions c)) (tr_event t) = Some ?a"
    using i assms(1) by (intro map_of_is_SomeI) (simp, force simp: event_names_def)
  moreover have "map_of (chart_class c) ?a = Some (EventAttribute (tr_source t) (tr_target t))"
    using i distinct_class [of c] by (intro map_of_is_SomeI) (simp, force simp: chart_class_def event_entries_def)
  ultimately show ?thesis by blast
qed

lemma running_send_follows:
  assumes lib: "library_ok lib" and c: "statechart_wf c" and m: "follows lib c (tr_source t) m" and t: "t \<in> set (sc_transitions c)"
  shows "\<exists>m'. running_send lib m (tr_event t) = (Inr (), m') \<and> follows lib c (tr_target t) m'"
proof -
  from event_attribute [OF statechart_wfD(6) [OF c] t] obtain a where
    a: "map_of (rm_events m) (tr_event t) = Some a" "map_of (lib_class lib (rm_machine m)) a = Some (EventAttribute (tr_source t) (tr_target t))"
    using m by (auto simp: follows_def)
  from m have "lib_current lib (rm_machine m) = tr_source t" by (simp add: follows_def running_current_def)
  with lib a(2) obtain x where "lib_send lib (rm_machine m) a = (Inr (), x)" "lib_class lib x = lib_class lib (rm_machine m)"
    "lib_current lib x = tr_target t" unfolding library_ok_def by blast
  with a(1) m show ?thesis by (simp add: running_send_def follows_def running_current_def)
qed

section \<open>The runner and its machine\<close>

text \<open>When the library runs the current Statechart, the machine is in the active state of the execution record.\<close>

definition in_sync :: "'m machine_library \<Rightarrow> 'm running_machine runner \<Rightarrow> bool" where
  "in_sync lib ru \<longleftrightarrow> (\<forall>c r. ru_chart ru = Some c \<longrightarrow> ru_record ru = Some r \<longrightarrow> runnable c \<longrightarrow>
     (\<exists>m. ru_machine ru = Some m \<and> follows lib c (er_active_state r) m))"

lemma in_syncI:
  "ru_machine ru = Some m \<Longrightarrow> (\<And>c r. ru_chart ru = Some c \<Longrightarrow> ru_record ru = Some r \<Longrightarrow> follows lib c (er_active_state r) m) \<Longrightarrow>
    in_sync lib ru"
  by (auto simp: in_sync_def)

lemma in_sync_cong: "ru_chart b = ru_chart a \<Longrightarrow> ru_record b = ru_record a \<Longrightarrow> ru_machine b = ru_machine a \<Longrightarrow>
    in_sync lib b = in_sync lib a"
  by (simp add: in_sync_def)

lemma publish_status_machine: "ru_machine (fst (snd (publish_status P reason pub (ru, s)))) = ru_machine ru"
  by (auto simp: publish_status_def bindS_cases emit_def split: option.split sum.split)

lemma publish_status_sync: "in_sync lib (fst (snd (publish_status P reason pub (ru, s)))) = in_sync lib ru"
  using publish_status_frame [of ru P reason pub s] publish_status_machine [of P reason pub ru s]
  by (intro in_sync_cong) (simp_all add: same_control_def)

lemma runner_init_sync:
  assumes lib: "library_ok lib" and inv: "runner_inv ru"
    and new: "runner_init (Some (python_factory lib)) ch er st topic sub lg = Inr ru"
  shows "in_sync lib ru"
  unfolding in_sync_def
proof (intro allI impI)
  fix c r
  assume ru: "ru_chart ru = Some c" "ru_record ru = Some r"
  with new obtain m where m: "python_build lib c (Some (er_active_state r)) = Inr m" "ru_machine ru = Some m"
    by (auto simp: runner_init_def bindE_eq_Inr python_factory_def)
  have "statechart_wf c" using inv ru by (auto simp: runner_inv_def record_inv_def)
  from python_build_Inr [OF lib this m(1)] m(2) show "\<exists>m. ru_machine ru = Some m \<and> follows lib c (er_active_state r) m" by simp
qed

lemma json_runner_new_sync:
  assumes "library_ok lib" and "runner_inv ru" and "json_runner_new (Some (python_factory lib)) js topic sub lg = Inr ru"
  shows "in_sync lib ru"
proof -
  from assms(3) obtain ch er where "runner_init (Some (python_factory lib)) ch er (memory_of js) topic sub lg = Inr ru"
    by (auto simp: json_runner_new_def bindE_eq_Inr)
  then show ?thesis by (rule runner_init_sync [OF assms(1,2)])
qed

lemma installed_parts: "ru_chart (installed c ru) = Some c" "\<exists>n sp. ru_record (installed c ru) = Some (entry_record c sp n)"
  by (auto simp: installed_def Let_def)

lemma install_sync:
  assumes lib: "library_ok lib" and inv: "runner_inv ru" and c: "statechart_wf c"
  shows "in_sync lib (fst (snd (install P (Some (python_factory lib)) c (ru, s))))"
proof (cases "runnable c")
  case True
  from python_build_runnable [OF lib c True, of None "sc_entry_state c"] statechart_wfD(3) [OF c] obtain m where
    m: "python_build lib c None = Inr m" "follows lib c (sc_entry_state c) m" by auto
  let ?ru = "(installed c ru)\<lparr>ru_machine := Some m\<rparr>"
  have "in_sync lib ?ru"
    using m(2) installed_parts [of c ru] by (auto simp: in_sync_def entry_record_def)
  moreover have "install P (Some (python_factory lib)) c (ru, s) =
      publish_status P (if ru_superseded ?ru \<noteq> None then ''superseded'' else ''initialized'') True (?ru, s)"
    using m(1) by (simp add: install_eq [OF inv c] python_factory_def bindS_cases)
  ultimately show ?thesis by (simp add: publish_status_sync)
next
  case False
  have "ru_chart (fst (snd (install P (Some (python_factory lib)) c (ru, s)))) = Some c"
    using install_control [OF inv c, of P "Some (python_factory lib)" s] installed_parts(1) [of c ru]
    by (simp add: same_control_def)
  with False show ?thesis by (simp add: in_sync_def)
qed

lemma check_subscription_cases:
  "(\<exists>e. check_subscription c (ru, s) = (Inl e, (ru, s))) \<or>
   (\<exists>sub. check_subscription c (ru, s) = (Inr (), (ru\<lparr>ru_subscription := Some sub\<rparr>, s)) \<and>
      (ru_subscription ru = None \<or> ru_subscription ru = Some sub))"
proof (cases "ru_subscription ru")
  case None
  show ?thesis
  proof (cases "subscription_for (sc_mission_id c)")
    case (Inl e)
    with None show ?thesis by (simp add: check_subscription_def)
  next
    case (Inr sub)
    with None have "check_subscription c (ru, s) = (Inr (), (ru\<lparr>ru_subscription := Some sub\<rparr>, s))"
      by (simp add: check_subscription_def)
    with None show ?thesis by blast
  qed
next
  case (Some sub)
  then have "ru\<lparr>ru_subscription := Some sub\<rparr> = ru" by simp
  with Some show ?thesis by (cases "sub_mission_id sub = sc_mission_id c") (simp_all add: check_subscription_def)
qed

lemma handle_cases:
  assumes inv: "runner_inv ru" and "chart_from_message m = Inr c"
  shows "(\<exists>e sub. handle P F m (ru, s) = (Inl e, (ru, s)) \<or> handle P F m (ru, s) = (Inl e, (ru\<lparr>ru_subscription := Some sub\<rparr>, s))) \<or>
    (\<exists>sub. runner_inv (ru\<lparr>ru_subscription := Some sub\<rparr>) \<and>
      (handle P F m (ru, s) = publish_status P ''updated'' False (ru\<lparr>ru_subscription := Some sub\<rparr>, s) \<or>
       handle P F m (ru, s) = install P F c (ru\<lparr>ru_subscription := Some sub\<rparr>, s)))"
  using check_subscription_cases [of c ru s]
proof (elim disjE exE)
  fix e
  assume "check_subscription c (ru, s) = (Inl e, (ru, s))"
  with assms(2) have "handle P F m (ru, s) = (Inl e, (ru, s))" by (simp add: handle_def bindS_cases)
  then show ?thesis by blast
next
  fix sub
  let ?ru = "ru\<lparr>ru_subscription := Some sub\<rparr>"
  assume "check_subscription c (ru, s) = (Inr (), (?ru, s)) \<and> (ru_subscription ru = None \<or> ru_subscription ru = Some sub)"
  then have ok: "check_subscription c (ru, s) = (Inr (), (?ru, s))" and "ru_subscription ru = None \<or> ru_subscription ru = Some sub" by simp_all
  then have inv1: "runner_inv ?ru" using inv by (auto simp: runner_inv_def split: option.splits)
  have h: "handle P F m (ru, s) = (case ru_chart ?ru of
      None \<Rightarrow> install P F c (?ru, s)
    | Some current \<Rightarrow>
        if sc_plan_revision c < sc_plan_revision current then (Inl (ValueError Regression), (?ru, s))
        else if sc_plan_revision c = sc_plan_revision current
        then if \<not> statechart_eq c current then (Inl (ValueError Conflict), (?ru, s))
          else publish_status P ''updated'' False (?ru, s)
        else install P F c (?ru, s))"
    using assms(2) ok by (simp add: handle_def bindS_Inr)
  show ?thesis
  proof (cases "ru_chart ru")
    case None
    with h inv1 show ?thesis by auto
  next
    case (Some current)
    with h have "handle P F m (ru, s) = (Inl (ValueError Regression), (?ru, s)) \<or> handle P F m (ru, s) = (Inl (ValueError Conflict), (?ru, s)) \<or>
        handle P F m (ru, s) = publish_status P ''updated'' False (?ru, s) \<or> handle P F m (ru, s) = install P F c (?ru, s)" by auto
    with inv1 show ?thesis by blast
  qed
qed

lemma handle_installs:
  assumes inv: "runner_inv ru" and "message_wf m" and "chart_from_message m = Inr c" and "handle P F m (ru, s) = (res, (ru1, s1))"
    and "ru_store ru1 \<noteq> ru_store ru"
  shows "\<exists>sub. runner_inv (ru\<lparr>ru_subscription := Some sub\<rparr>) \<and> install P F c (ru\<lparr>ru_subscription := Some sub\<rparr>, s) = (res, (ru1, s1))"
  using handle_cases [OF inv assms(3), of P F s]
proof (elim disjE exE conjE)
  fix sub
  assume "handle P F m (ru, s) = publish_status P ''updated'' False (ru\<lparr>ru_subscription := Some sub\<rparr>, s)"
  with publish_status_frame [of "ru\<lparr>ru_subscription := Some sub\<rparr>" P "''updated''" False s] assms(4,5)
  show ?thesis by (simp add: same_control_def)
qed (use assms(4,5) in auto)

lemma handle_sync:
  assumes lib: "library_ok lib" and inv: "runner_inv ru" and m: "message_wf m" and sync: "in_sync lib ru"
  shows "in_sync lib (fst (snd (handle P (Some (python_factory lib)) m (ru, s))))"
proof (cases "chart_from_message m")
  case (Inl e)
  with sync show ?thesis by (simp add: handle_def)
next
  case (Inr c)
  have c: "statechart_wf c" by (rule chart_from_message_wf [OF Inr m])
  have sync1: "in_sync lib (ru\<lparr>ru_subscription := Some sub\<rparr>)" for sub using sync by (simp add: in_sync_def)
  show ?thesis
    using handle_cases [OF inv Inr, of P "Some (python_factory lib)" s]
  proof (elim disjE exE conjE)
    fix sub
    assume "handle P (Some (python_factory lib)) m (ru, s) = publish_status P ''updated'' False (ru\<lparr>ru_subscription := Some sub\<rparr>, s)"
    then show ?thesis by (simp add: publish_status_sync sync1)
  next
    fix sub
    assume i: "runner_inv (ru\<lparr>ru_subscription := Some sub\<rparr>)"
      and "handle P (Some (python_factory lib)) m (ru, s) = install P (Some (python_factory lib)) c (ru\<lparr>ru_subscription := Some sub\<rparr>, s)"
    with install_sync [OF lib i c] show ?thesis by simp
  qed (use sync sync1 in simp_all)
qed

text \<open>The machine makes every authorised transition.\<close>

lemma drive_machine_follows:
  assumes lib: "library_ok lib" and inv: "runner_inv ru" and auth: "authorized ru x d c r t"
    and run: "runnable c" and sync: "in_sync lib ru"
  shows "\<exists>m'. drive_machine (Some (python_factory lib)) t (ru, s) = (Inr (), (ru\<lparr>ru_machine := Some m'\<rparr>, s)) \<and>
    follows lib c (tr_target t) m'"
proof -
  from auth have a: "ru_chart ru = Some c" "ru_record ru = Some r" "current_transition c r (tc_event x) = Some t"
    by (simp_all add: authorized_def)
  then have t: "t \<in> set (sc_transitions c)" "tr_source t = er_active_state r"
    by (auto simp: current_transition_def dest: find_mem)
  have c: "statechart_wf c" using inv a by (auto simp: runner_inv_def record_inv_def)
  from sync a run obtain m where m: "ru_machine ru = Some m" "follows lib c (er_active_state r) m" by (auto simp: in_sync_def)
  with running_send_follows [OF lib c _ t(1)] t(2) obtain m' where
    m': "running_send lib m (tr_event t) = (Inr (), m')" "follows lib c (tr_target t) m'" by auto
  with m(1) have "drive_machine (Some (python_factory lib)) t (ru, s) = (Inr (), (ru\<lparr>ru_machine := Some m'\<rparr>, s))"
    by (simp add: drive_machine_def python_factory_def follows_def)
  with m'(2) show ?thesis by blast
qed

lemma apply_moved:
  assumes "library_ok lib" and inv: "runner_inv ru" and d: "maneuver_decision_wf d" and auth: "authorized ru x d c r t"
    and "runnable c" and "in_sync lib ru"
  shows "\<exists>m. apply_candidate P (Some (python_factory lib)) x d (ru, s) =
      publish_status P ''transitioned'' True (moved_to r t d (ru\<lparr>ru_machine := Some m\<rparr>), s) \<and> follows lib c (tr_target t) m"
  using drive_machine_follows [OF assms(1,2,4,5,6), of s] apply_authorized [OF inv d auth, of P "Some (python_factory lib)" s]
  by auto

lemma apply_sync:
  assumes lib: "library_ok lib" and inv: "runner_inv ru" and d: "maneuver_decision_wf d" and sync: "in_sync lib ru"
  shows "in_sync lib (fst (snd (apply_candidate P (Some (python_factory lib)) x d (ru, s))))"
proof (cases "\<exists>c r t. authorized ru x d c r t")
  case False
  with apply_refused [OF inv, of x d P "Some (python_factory lib)" s] sync show ?thesis by (auto simp: publish_status_sync)
next
  case True
  then obtain c r t where auth: "authorized ru x d c r t" by blast
  then have chart: "ru_chart ru = Some c" by (simp add: authorized_def)
  show ?thesis
  proof (cases "runnable c")
    case True
    from apply_moved [OF lib inv d auth True sync, of P s] obtain m where
      "apply_candidate P (Some (python_factory lib)) x d (ru, s) =
        publish_status P ''transitioned'' True (moved_to r t d (ru\<lparr>ru_machine := Some m\<rparr>), s)" "follows lib c (tr_target t) m"
      by blast
    moreover from this(2) chart have "in_sync lib (moved_to r t d (ru\<lparr>ru_machine := Some m\<rparr>))"
      by (intro in_syncI [of _ m]) (auto simp: moved_to_def, simp add: moved_def)
    ultimately show ?thesis by (simp add: publish_status_sync)
  next
    case False
    with apply_chart [OF inv d, of P "Some (python_factory lib)" x s] chart show ?thesis by (simp add: in_sync_def)
  qed
qed

lemma stored_run_sync:
  fixes lib :: "'m machine_library"
  assumes run: "stored_run P (Some (python_factory lib)) x" and lib: "library_ok lib"
  shows "in_sync lib (fst x)"
  using run
proof (induction rule: stored_run.induct)
  case (fresh topic sub lg ru s)
  have "runner_inv ru" using stored_run_inv [OF stored_run.fresh [OF fresh]] by simp
  from json_runner_new_sync [OF lib this fresh] show ?case by simp
next
  case (completed ru s js ru' s' s'')
  have inv: "runner_inv ru" using stored_run_inv [OF completed.hyps(1)] by simp
  have sync: "in_sync lib ru" using completed.IH by simp
  have "in_sync lib ru'"
    by (rule operation_cases [OF completed.hyps(2)])
      (use sync publish_status_sync [of lib P "''updated''" True ru s] in
        \<open>auto simp: handle_sync [OF lib inv] apply_sync [OF lib inv] runner_status_def bindS_cases split: sum.split\<close>)
  then show ?case by simp
next
  case (interrupted ru s js ru1 s1 k topic sub lg ru' s')
  have "runner_inv ru'" using stored_run_inv [OF stored_run.interrupted [OF interrupted.hyps]] by simp
  from json_runner_new_sync [OF lib this interrupted.hyps(3)] show ?case by simp
qed

section \<open>Properties\<close>

text \<open>C9: the machine never diverges from the durable record. In every run of activations, transitions, status requests,
  interruptions and restarts, over any transport and any library that behaves as documented, the running machine
  of a runner whose Statechart the library accepts is in the active state of the execution record.\<close>

theorem machine_follows_record:
  assumes "library_ok lib" and "stored_run P (Some (python_factory lib)) (ru, s, js)"
    and "ru_chart ru = Some c" and "ru_record ru = Some r" and "runnable c"
  shows "\<exists>m. ru_machine ru = Some m \<and> running_current lib m = er_active_state r"
  using stored_run_sync [OF assms(2,1)] assms(3-5) by (auto simp: in_sync_def follows_def)

text \<open>C10: an authorised transition happens. In every such run, applying an exact current candidate with a decision that
  authorises it and was not applied before moves the record and the machine to the target state and appends
  the event to the history, whatever the transport answers to the publication of the status.\<close>

theorem authorized_transition_happens:
  assumes "library_ok lib" and "stored_run P (Some (python_factory lib)) (ru, s, js)" and "maneuver_decision_wf d"
    and "ru_chart ru = Some c" and "ru_record ru = Some r" and "runnable c"
    and "current_transition c r (tc_event x) = Some t" and "candidate_for c t = Inr y" and "transition_candidate_eq x y"
    and "decision_authorizes r (tr_event t) d" and "md_decision_id d \<notin> set (er_applied_event_identities r)"
    and "apply_candidate P (Some (python_factory lib)) x d (ru, s) = (res, (ru1, s1))"
  shows "\<exists>r1 m1. ru_record ru1 = Some r1 \<and> er_active_state r1 = tr_target t \<and>
    er_transition_history r1 = er_transition_history r @ [tr_event t] \<and>
    ru_machine ru1 = Some m1 \<and> running_current lib m1 = tr_target t"
proof -
  have inv: "runner_inv ru" using stored_run_inv [OF assms(2)] by simp
  have sync: "in_sync lib ru" using stored_run_sync [OF assms(2,1)] by simp
  from assms(4-11) have auth: "authorized ru x d c r t" by (auto simp: authorized_def)
  from apply_moved [OF assms(1) inv assms(3) auth assms(6) sync, of P s] obtain m where
    p: "publish_status P ''transitioned'' True (moved_to r t d (ru\<lparr>ru_machine := Some m\<rparr>), s) = (res, (ru1, s1))"
    and m: "follows lib c (tr_target t) m" using assms(12) by auto
  from publish_status_frame [of "moved_to r t d (ru\<lparr>ru_machine := Some m\<rparr>)" P "''transitioned''" True s] p
    publish_status_machine [of P "''transitioned''" True "moved_to r t d (ru\<lparr>ru_machine := Some m\<rparr>)" s]
  have "ru_record ru1 = Some (moved r t (md_decision_id d))" "ru_machine ru1 = Some m"
    by (simp_all add: same_control_def moved_to_def)
  with m show ?thesis by (simp add: moved_def follows_def)
qed

lemma refused_runner_new:
  assumes lib: "library_ok lib" and inv: "runner_inv ru1" and chart: "ru_chart ru1 = Some c" and no: "\<not> runnable c"
  shows "\<not> isOk (runner_new (Some (python_factory lib)) (ru_store ru1) topic sub lg)"
proof
  assume "isOk (runner_new (Some (python_factory lib)) (ru_store ru1) topic sub lg)"
  then obtain ru' where new: "runner_new (Some (python_factory lib)) (ru_store ru1) topic sub lg = Inr ru'" by (auto simp: isOk_iff)
  from inv chart obtain r where r: "statechart_wf c" "record_inv c r" "st_statechart (ru_store ru1) = Some (statechart_json c)"
    "st_record (ru_store ru1) = Some (execution_record_json r)" by (auto simp: runner_inv_def record_inv_def split: option.splits)
  then have "load_statechart (ru_store ru1) = Inr (Some (statechart_canonical c))" "load_execution_record (ru_store ru1) = Inr (Some r)"
    using load_statechart_saved [OF r(1)] load_execution_record_saved [of r] by (auto simp: record_inv_def)
  with new obtain m where "python_build lib (statechart_canonical c) (Some (er_active_state r)) = Inr m"
    by (auto simp: runner_new_def runner_init_def bindE_eq_Inr python_factory_def)
  moreover have "statechart_wf (statechart_canonical c)" using statechart_wf_canonical [OF r(1)] .
  moreover have "\<not> runnable (statechart_canonical c)" using no by (auto simp: runnable_def statechart_canonical_def)
  ultimately show False using python_build_rejected [OF lib, of "statechart_canonical c" "Some (er_active_state r)"] by auto
qed

text \<open>C39: a Statechart that the library refuses stops the runner for good. The contract accepts Statecharts in which a
  transition leaves a terminal state, or with no transition. \<open>handle\<close> stores such a Statechart, building the
  machine fails, and afterwards every construction of a runner from the files fails too.\<close>

theorem refused_statechart_blocks:
  assumes "library_ok lib" and "stored_run P (Some (python_factory lib)) (ru, s, js)" and "statechart_wf c" and "\<not> runnable c"
    and "handle P (Some (python_factory lib)) (ChartMessage c) (ru, s) = (res, (ru1, s1))"
    and "ru_store ru1 \<noteq> ru_store ru"
  shows "\<not> isOk res \<and> (\<forall>topic sub lg. \<not> isOk (json_runner_new (Some (python_factory lib)) (json_saves (saves_of ru ru1) js) topic sub lg))"
proof -
  have inv: "runner_inv ru" "mirrors js (ru_store ru)" using stored_run_inv [OF assms(2)] by simp_all
  have m: "message_wf (ChartMessage c)" using assms(3) by simp
  have op: "runner_operation P (Some (python_factory lib)) (ru, s) (ru1, s1)"
    using op_handle [OF m, of P "Some (python_factory lib)" ru s] assms(5) by simp
  note inv1 = operation_inv [OF op inv(1)] and mir1 = operation_mirrors [OF op inv]
  from handle_installs [OF inv(1) m _ assms(5,6), of c] obtain sub where
    i: "runner_inv (ru\<lparr>ru_subscription := Some sub\<rparr>)"
      "install P (Some (python_factory lib)) c (ru\<lparr>ru_subscription := Some sub\<rparr>, s) = (res, (ru1, s1))" by auto
  from python_build_rejected [OF assms(1,3,4)] obtain e where "python_build lib c None = Inl e" by blast
  then have "\<not> isOk res" using i(2) unfolding install_eq [OF i(1) assms(3)] by (auto simp: python_factory_def bindS_cases)
  moreover have "ru_chart ru1 = Some c"
    using install_control [OF i(1) assms(3), of P "Some (python_factory lib)" s] i(2)
      installed_parts(1) [of c "ru\<lparr>ru_subscription := Some sub\<rparr>"]
    by (auto simp: same_control_def)
  ultimately show ?thesis
    unfolding json_runner_new_mirror [OF inv1 mir1] by (simp add: refused_runner_new [OF assms(1) inv1 _ assms(4)])
qed

section \<open>A concrete library and run\<close>

definition ex_library :: "(machine_class \<times> string) machine_library" where
  "ex_library = \<lparr>
     lib_create = (\<lambda>name A s. if class_ok A \<and> s \<in> set (class_states A) then Inr (A, s) else Inl (ValueError Undeclared)),
     lib_class = fst, lib_current = snd,
     lib_allowed = (\<lambda>(A, s). [a. (a, EventAttribute x y) \<leftarrow> A, x = s]),
     lib_send = (\<lambda>(A, s) a. case map_of A a of
         Some (EventAttribute x y) \<Rightarrow> if x = s then (Inr (), (A, y)) else (Inl (RuntimeError NotPermitted), (A, s))
       | _ \<Rightarrow> (Inl (RuntimeError NotPermitted), (A, s)))\<rparr>"

lemma ex_library_ok: "library_ok ex_library"
proof -
  have "class_rejected A \<Longrightarrow> \<not> class_ok A" for A by (auto simp: class_rejected_def class_ok_def)
  then show ?thesis by (auto simp: library_ok_def ex_library_def split: if_splits)
qed

abbreviation ex_factory :: "(machine_class \<times> string) running_machine machine_port option" where
  "ex_factory \<equiv> Some (python_factory ex_library)"

definition ex_engine :: "(machine_class \<times> string) running_machine runner" where
  "ex_engine = \<lparr>ru_topic = ''fsm-status'', ru_subscription = None, ru_chart = None, ru_record = None,
     ru_superseded = None, ru_machine = None, ru_store = empty_store, ru_log = None\<rparr>"

definition ex_driven :: "(machine_class \<times> string) running_machine runner \<times> transport_state" where
  "ex_driven = snd (handle inprocess_events ex_factory (ChartMessage ex_chart) (ex_engine, initial_state))"

definition ex_moved where
  "ex_moved = apply_candidate inprocess_events ex_factory ex_candidate ex_decision ex_driven"

text \<open>A Statechart whose terminal state has a transition.\<close>

definition ex_returning :: statechart where
  "ex_returning = ex_chart\<lparr>sc_transitions := sc_transitions ex_chart @
     [\<lparr>tr_event = ''back'', tr_source = ''home'', tr_target = ''search'', tr_context = []\<rparr>]\<rparr>"

definition ex_refused where
  "ex_refused = handle inprocess_events ex_factory (ChartMessage ex_returning) (ex_engine, initial_state)"

lemma ex_engine_run: "stored_run inprocess_events ex_factory (ex_engine, initial_state, no_files)"
proof -
  have "json_runner_new ex_factory no_files ''fsm-status'' None None = Inr ex_engine" by code_simp
  then show ?thesis by (rule stored_run.fresh)
qed

lemma ex_driven_run: "\<exists>js. stored_run inprocess_events ex_factory (fst ex_driven, snd ex_driven, js)"
proof -
  have "message_wf (ChartMessage ex_chart)" by code_simp
  from op_handle [OF this, of inprocess_events ex_factory ex_engine initial_state]
  have "runner_operation inprocess_events ex_factory (ex_engine, initial_state) (fst ex_driven, snd ex_driven)"
    by (simp add: ex_driven_def)
  from completed [OF ex_engine_run this] show ?thesis by blast
qed

lemma ex_driven_parts:
  "ru_chart (fst ex_driven) = Some ex_chart" "runnable ex_chart"
  "\<exists>r. ru_record (fst ex_driven) = Some r \<and> er_active_state r = ''search'' \<and> er_applied_event_identities r = [] \<and>
     er_transition_history r = [] \<and> decision_authorizes r ''go'' ex_decision"
proof -
  show "ru_chart (fst ex_driven) = Some ex_chart" "runnable ex_chart" by code_simp+
  have "(case ru_record (fst ex_driven) of None \<Rightarrow> False | Some r \<Rightarrow> er_active_state r = ''search'' \<and>
      er_applied_event_identities r = [] \<and> er_transition_history r = [] \<and> decision_authorizes r ''go'' ex_decision)" by code_simp
  then show "\<exists>r. ru_record (fst ex_driven) = Some r \<and> er_active_state r = ''search'' \<and> er_applied_event_identities r = [] \<and>
     er_transition_history r = [] \<and> decision_authorizes r ''go'' ex_decision" by (simp split: option.splits)
qed

theorem machine_follows_record_witness:
  "\<exists>m. ru_machine (fst ex_driven) = Some m \<and> running_current ex_library m = ''search''"
proof -
  obtain js where run: "stored_run inprocess_events ex_factory (fst ex_driven, snd ex_driven, js)" using ex_driven_run by blast
  obtain r where r: "ru_record (fst ex_driven) = Some r" "er_active_state r = ''search''" using ex_driven_parts(3) by blast
  from machine_follows_record [OF ex_library_ok run ex_driven_parts(1) r(1) ex_driven_parts(2)] r(2) show ?thesis by simp
qed

theorem authorized_transition_happens_witness:
  "\<exists>r m. ru_record (fst (snd ex_moved)) = Some r \<and> er_active_state r = ''home'' \<and> er_transition_history r = [''go''] \<and>
    ru_machine (fst (snd ex_moved)) = Some m \<and> running_current ex_library m = ''home''"
proof -
  obtain js where run: "stored_run inprocess_events ex_factory (fst ex_driven, snd ex_driven, js)" using ex_driven_run by blast
  obtain r where r: "ru_record (fst ex_driven) = Some r" "er_active_state r = ''search''" "er_applied_event_identities r = []"
    "er_transition_history r = []" "decision_authorizes r ''go'' ex_decision" using ex_driven_parts(3) by blast
  let ?t = "\<lparr>tr_event = ''go'', tr_source = ''search'', tr_target = ''home'', tr_context = []\<rparr>"
  have d: "maneuver_decision_wf ex_decision" by code_simp
  have t: "current_transition ex_chart r (tc_event ex_candidate) = Some ?t"
    using r(2) by (simp add: current_transition_def ex_chart_def ex_candidate_def)
  have "(case candidate_for ex_chart ?t of Inl e \<Rightarrow> False | Inr y \<Rightarrow> transition_candidate_eq ex_candidate y)" by code_simp
  then obtain y where y: "candidate_for ex_chart ?t = Inr y" "transition_candidate_eq ex_candidate y" by (auto split: sum.splits)
  have m: "apply_candidate inprocess_events ex_factory ex_candidate ex_decision (fst ex_driven, snd ex_driven) =
      (fst ex_moved, (fst (snd ex_moved), snd (snd ex_moved)))" by (simp add: ex_moved_def)
  from authorized_transition_happens [OF ex_library_ok run d ex_driven_parts(1) r(1) ex_driven_parts(2) t y _ _ m] r(3-5)
  show ?thesis by simp
qed

theorem refused_statechart_blocks_witness:
  "\<not> isOk (fst ex_refused) \<and> \<not> isOk (json_runner_new ex_factory
     (json_saves (saves_of ex_engine (fst (snd ex_refused))) no_files) ''fsm-status'' None None)"
proof -
  have c: "statechart_wf ex_returning" "\<not> runnable ex_returning" by code_simp+
  have h: "handle inprocess_events ex_factory (ChartMessage ex_returning) (ex_engine, initial_state) =
      (fst ex_refused, (fst (snd ex_refused), snd (snd ex_refused)))" by (simp add: ex_refused_def)
  have "ru_store (fst (snd ex_refused)) \<noteq> ru_store ex_engine" by code_simp
  from refused_statechart_blocks [OF ex_library_ok ex_engine_run c h this] show ?thesis by blast
qed

end
