(* ===== verification/Operational_Records.thy ===== *)
theory Operational_Records
  imports PyValue
begin

text \<open>
  The records of the operational log, \<open>src/onr/ports/operational_log.py\<close>: details are restricted to known
  keys and scalar values, secrets in texts are replaced, and texts are cut. Details are JSON values; any other
  object is dropped like an array. What \<open>str\<close> prints for floats and containers is a parameter.
\<close>

section \<open>The pattern of secrets\<close>

text \<open>
  The regular expressions that the module uses, with the matches of Python's backtracking matcher in its order. A
  position is the character before it and the rest of the text; \<open>Many n p\<close> is a greedy repetition.
\<close>

datatype rx = One "char \<Rightarrow> bool" | Many nat "char \<Rightarrow> bool" | Then rx rx | Or rx rx | Boundary

type_synonym rpos = "char option \<times> string"

definition code_in :: "(nat \<times> nat) list \<Rightarrow> char \<Rightarrow> bool" where
  "code_in rs c \<longleftrightarrow> (\<exists>(a, b) \<in> set rs. a \<le> of_char c \<and> of_char c \<le> b)"

text \<open>\<open>\w\<close> on code points below 256, and letters up to their case.\<close>

definition rx_word :: "char \<Rightarrow> bool" where
  "rx_word = code_in [(48, 57), (65, 90), (95, 95), (97, 122), (170, 170), (178, 179), (181, 181), (185, 186),
     (188, 190), (192, 214), (216, 246), (248, 255)]"

definition lower_char :: "char \<Rightarrow> char" where
  "lower_char c = (if code_in [(65, 90)] c then char_of (of_char c + 32 :: nat) else c)"

definition at_word :: "char option \<Rightarrow> bool" where
  "at_word b = (case b of None \<Rightarrow> False | Some c \<Rightarrow> rx_word c)"

fun run_many :: "(char \<Rightarrow> bool) \<Rightarrow> rpos \<Rightarrow> rpos list" where
  "run_many p (b, []) = [(b, [])]"
| "run_many p (b, c # cs) = (if p c then run_many p (Some c, cs) @ [(b, c # cs)] else [(b, c # cs)])"

fun rx_matches :: "rx \<Rightarrow> rpos \<Rightarrow> rpos list" where
  "rx_matches (One p) (b, []) = []"
| "rx_matches (One p) (b, c # cs) = (if p c then [(Some c, cs)] else [])"
| "rx_matches (Many n p) x = filter (\<lambda>y. length (snd y) + n \<le> length (snd x)) (run_many p x)"
| "rx_matches (Then r s) x = concat (map (rx_matches s) (rx_matches r x))"
| "rx_matches (Or r s) x = rx_matches r x @ rx_matches s x"
| "rx_matches Boundary x =
     (if at_word (fst x) \<noteq> at_word (case snd x of [] \<Rightarrow> None | c # cs \<Rightarrow> Some c) then [x] else [])"

fun rx_text :: "string \<Rightarrow> rx" where
  "rx_text [] = Many 0 (\<lambda>c. False)"
| "rx_text (c # cs) = Then (One (\<lambda>d. lower_char d = c)) (rx_text cs)"

fun rx_any :: "rx list \<Rightarrow> rx" where
  "rx_any [] = One (\<lambda>c. False)"
| "rx_any (r # rs) = Or r (rx_any rs)"

definition key_pattern :: rx where
  "key_pattern = Then
     (rx_any [Then (rx_text ''api'') (Then (Or (One (\<lambda>c. c \<in> {CHR ''_'', CHR '' '', CHR ''-''})) (rx_text [])) (rx_text ''key'')),
        rx_text ''secret'', rx_text ''token'', rx_text ''password'', rx_text ''authorization''])
     (Then (Many 0 py_space) (Then (One (\<lambda>c. c \<in> {CHR '':'', CHR ''=''}))
       (Then (Many 0 py_space) (Many 1 (\<lambda>c. \<not> py_space c \<and> c \<noteq> CHR '','' \<and> c \<noteq> CHR '';'')))))"

definition provider_pattern :: rx where
  "provider_pattern = Then Boundary (Then (rx_any [rx_text ''sk'', rx_text ''pk'']) (Then (One (\<lambda>c. c = CHR ''-''))
     (Then (Many 12 (code_in [(48, 57), (65, 90), (95, 95), (97, 122), (45, 45)])) Boundary)))"

definition bearer_pattern :: rx where
  "bearer_pattern = Then (rx_text ''bearer'') (Then (Many 1 py_space)
     (Many 1 (code_in [(48, 57), (65, 90), (95, 95), (97, 122), (45, 46)])))"

definition secret_pattern :: rx where
  "secret_pattern = Or key_pattern (Or provider_pattern bearer_pattern)"

text \<open>Every match of the pattern takes a character, so \<open>sub\<close> makes progress.\<close>

fun rx_least :: "rx \<Rightarrow> nat" where
  "rx_least (One p) = 1"
| "rx_least (Many n p) = n"
| "rx_least (Then r s) = rx_least r + rx_least s"
| "rx_least (Or r s) = min (rx_least r) (rx_least s)"
| "rx_least Boundary = 0"

lemma rx_matches_least: "y \<in> set (rx_matches r x) \<Longrightarrow> length (snd y) + rx_least r \<le> length (snd x)"
proof (induction r x arbitrary: y rule: rx_matches.induct)
  case (4 r s x)
  then obtain z where "z \<in> set (rx_matches r x)" "y \<in> set (rx_matches s z)" by auto
  with 4 have "length (snd z) + rx_least r \<le> length (snd x)" "length (snd y) + rx_least s \<le> length (snd z)" by auto
  then show ?case by simp
next
  case (5 r s x)
  then consider "y \<in> set (rx_matches r x)" | "y \<in> set (rx_matches s x)" by auto
  then show ?case
  proof cases
    case 1
    with "5.IH"(1) [of y] show ?thesis by (simp add: min_def)
  next
    case 2
    with "5.IH"(2) [of y] show ?thesis by (simp add: min_def)
  qed
qed (auto split: if_splits)

lemma secret_least: "0 < rx_least secret_pattern"
  by (simp add: secret_pattern_def key_pattern_def provider_pattern_def bearer_pattern_def)

text \<open>\<open>_SECRET_RE.sub\<close>: the first match at each position from the left is replaced.\<close>

function redact_from :: "char option \<Rightarrow> string \<Rightarrow> string" where
  "redact_from b [] = []"
| "redact_from b (c # cs) = (case rx_matches secret_pattern (b, c # cs) of
     [] \<Rightarrow> c # redact_from (Some c) cs
   | y # ys \<Rightarrow> ''[REDACTED]'' @ redact_from (fst y) (snd y))"
  by pat_completeness auto
termination
proof (relation "measure (\<lambda>(b, s). length s)")
  fix b c cs y ys
  assume "rx_matches secret_pattern (b, c # cs) = y # ys"
  then have "length (snd y) + rx_least secret_pattern \<le> length (c # cs)"
    using rx_matches_least [of y secret_pattern "(b, c # cs)"] by simp
  with secret_least show "((fst y, snd y), (b, c # cs)) \<in> measure (\<lambda>(b, s). length s)" by (cases y) simp
qed auto

declare redact_from.simps(2) [simp del]

definition redact :: "string \<Rightarrow> string" where
  "redact = redact_from None"

section \<open>Safe details\<close>

definition safe_detail_keys :: "string list" where
  "safe_detail_keys = [
     ''attempt_id'', ''command_id'', ''correlation_id'', ''decision_id'', ''environment'', ''error_type'', ''event_id'',
     ''event_kind'', ''generated_assets'', ''lifecycle'', ''maneuver_id'', ''planning_decision_reference'',
     ''environment_data_reference'', ''solver_evidence'', ''minizinc_solver'', ''mission_snapshot_id'', ''operation'',
     ''plan_revision'', ''planner'', ''planner_id'', ''planning_profile'', ''rationale'', ''request_id'', ''revision'',
     ''sequence'', ''service'', ''snapshot_id'', ''source'', ''state'', ''status'', ''target_service'', ''timer_due'',
     ''topic'', ''transition'', ''translator_id'', ''translator_version'', ''transport_event_id'', ''transport_sequence'',
     ''initial_intent_id'', ''successful_tool_calls'', ''successful_transition_count'']"

fun safe_value :: "json \<Rightarrow> json option" where
  "safe_value JNull = None"
| "safe_value (JBool b) = Some (JBool b)"
| "safe_value (JInt i) = Some (JInt i)"
| "safe_value (JFloat q) = Some (JFloat q)"
| "safe_value (JStr s) = Some (JStr (take 512 (redact s)))"
| "safe_value (JArr js) = None"
| "safe_value (JObj d) = None"

definition safe_detail :: "string \<times> json \<Rightarrow> (string \<times> json) option" where
  "safe_detail kv = (if fst kv \<in> set safe_detail_keys then map_option (Pair (fst kv)) (safe_value (snd kv)) else None)"

definition safe_details :: "jobj \<Rightarrow> jobj" where
  "safe_details d = List.map_filter safe_detail (sort_key fst d)"

section \<open>Records\<close>

record log_record =
  ol_schema_version :: int
  ol_record_id :: string
  ol_mission_id :: string
  ol_sequence :: int
  ol_event_time :: string
  ol_source :: string
  ol_event_kind :: string
  ol_outcome :: string
  ol_details :: jobj

definition log_record_new :: "int \<Rightarrow> string \<Rightarrow> string \<Rightarrow> int \<Rightarrow> string \<Rightarrow> string \<Rightarrow> string \<Rightarrow> string \<Rightarrow> jobj \<Rightarrow>
  log_record result" where
  "log_record_new schema_version record_id mission_id sequence event_time source event_kind outcome details =
     bindE (guardE (schema_version = 1) (ValueError BadSchemaVersion)) (\<lambda>_.
     bindE (guardE (nonblank mission_id \<and> nonblank source \<and> nonblank event_kind) (ValueError BlankText)) (\<lambda>_.
     bindE (guardE (1 \<le> sequence) (ValueError NotPositiveInt)) (\<lambda>_.
     bindE (guardE (nonblank record_id \<and> nonblank outcome) (ValueError BlankText)) (\<lambda>_.
     Inr \<lparr>ol_schema_version = schema_version, ol_record_id = record_id, ol_mission_id = mission_id,
       ol_sequence = sequence, ol_event_time = event_time, ol_source = source, ol_event_kind = event_kind,
       ol_outcome = outcome, ol_details = safe_details details\<rparr>))))"

definition emitted_id :: "string \<Rightarrow> int \<Rightarrow> string \<Rightarrow> string" where
  "emitted_id mission_id sequence event_kind = mission_id @ '':'' @ show_int sequence @ '':'' @ event_kind"

text \<open>\<open>create\<close>; \<open>now\<close> is the time that \<open>_utc_now\<close> reads.\<close>

definition log_record_create :: "string \<Rightarrow> string \<Rightarrow> string \<Rightarrow> string \<Rightarrow> string \<Rightarrow> jobj \<Rightarrow> int \<Rightarrow> string option \<Rightarrow> string option \<Rightarrow>
  log_record result" where
  "log_record_create now mission_id source event_kind outcome details sequence event_time record_id =
     log_record_new 1 (case record_id of None \<Rightarrow> emitted_id mission_id sequence event_kind
         | Some i \<Rightarrow> if i = [] then emitted_id mission_id sequence event_kind else i)
       mission_id sequence (case event_time of None \<Rightarrow> now | Some t \<Rightarrow> if t = [] then now else t)
       source event_kind outcome (safe_details details)"

definition log_record_to_dict :: "log_record \<Rightarrow> jobj" where
  "log_record_to_dict r = [
     (''schema_version'', JInt (ol_schema_version r)), (''record_id'', JStr (ol_record_id r)),
     (''mission_id'', JStr (ol_mission_id r)), (''sequence'', JInt (ol_sequence r)),
     (''event_time'', JStr (ol_event_time r)), (''source'', JStr (ol_source r)),
     (''event_kind'', JStr (ol_event_kind r)), (''outcome'', JStr (ol_outcome r)),
     (''details'', JObj (ol_details r))]"

text \<open>\<open>int(text)\<close>: white space around, a sign, and digits that single underscores may separate.\<close>

fun int_digits :: "nat \<Rightarrow> bool \<Rightarrow> string \<Rightarrow> nat option" where
  "int_digits n need [] = (if need then None else Some n)"
| "int_digits n need (c # cs) =
     (if code_in [(48, 57)] c then int_digits (10 * n + (of_char c - 48)) False cs
      else if c = CHR ''_'' \<and> \<not> need then int_digits n True cs else None)"

definition int_text :: "string \<Rightarrow> int result" where
  "int_text s = (case (case py_strip s of
       CHR ''-'' # ds \<Rightarrow> map_option (\<lambda>n. - int n) (int_digits 0 True ds)
     | CHR ''+'' # ds \<Rightarrow> map_option int (int_digits 0 True ds)
     | ds \<Rightarrow> map_option int (int_digits 0 True ds)) of
     None \<Rightarrow> Inl (ValueError BadNumber) | Some i \<Rightarrow> Inr i)"

fun str_or_int :: "json option \<Rightarrow> bool" where
  "str_or_int (Some (JInt i)) \<longleftrightarrow> True"
| "str_or_int (Some (JStr s)) \<longleftrightarrow> True"
| "str_or_int _ \<longleftrightarrow> False"

fun int_of :: "json option \<Rightarrow> int result" where
  "int_of (Some (JInt i)) = Inr i"
| "int_of (Some (JStr s)) = int_text s"
| "int_of _ = Inl (TypeError BadType)"

fun str_of :: "(json \<Rightarrow> string) \<Rightarrow> json \<Rightarrow> string" where
  "str_of other JNull = ''None''"
| "str_of other (JBool b) = (if b then ''True'' else ''False'')"
| "str_of other (JInt i) = show_int i"
| "str_of other (JStr s) = s"
| "str_of other j = other j"

definition str_field :: "(json \<Rightarrow> string) \<Rightarrow> jobj \<Rightarrow> string \<Rightarrow> string result" where
  "str_field other d k = (case map_of d k of None \<Rightarrow> Inl KeyError | Some j \<Rightarrow> Inr (str_of other j))"

definition log_record_from_dict :: "(json \<Rightarrow> string) \<Rightarrow> jobj \<Rightarrow> log_record result" where
  "log_record_from_dict other d =
     bindE (case map_of d ''details'' of None \<Rightarrow> Inr [] | Some (JObj x) \<Rightarrow> Inr x | Some j \<Rightarrow> Inl (ValueError NotObject)) (\<lambda>details.
     bindE (guardE (str_or_int (map_of d ''schema_version'')) (ValueError NotInteger)) (\<lambda>_.
     bindE (guardE (str_or_int (map_of d ''sequence'')) (ValueError NotInteger)) (\<lambda>_.
     bindE (int_of (map_of d ''schema_version'')) (\<lambda>schema_version.
     bindE (str_field other d ''record_id'') (\<lambda>record_id.
     bindE (str_field other d ''mission_id'') (\<lambda>mission_id.
     bindE (int_of (map_of d ''sequence'')) (\<lambda>sequence.
     bindE (str_field other d ''event_time'') (\<lambda>event_time.
     bindE (str_field other d ''source'') (\<lambda>source.
     bindE (str_field other d ''event_kind'') (\<lambda>event_kind.
     bindE (str_field other d ''outcome'') (\<lambda>outcome.
     log_record_new schema_version record_id mission_id sequence event_time source event_kind outcome
       (safe_details details))))))))))))"

text \<open>The comparison of two records, \<open>==\<close> of the dataclass.\<close>

definition log_record_eq :: "log_record \<Rightarrow> log_record \<Rightarrow> bool" where
  "log_record_eq a b \<longleftrightarrow> ol_schema_version a = ol_schema_version b \<and> ol_record_id a = ol_record_id b \<and>
     ol_mission_id a = ol_mission_id b \<and> ol_sequence a = ol_sequence b \<and> ol_event_time a = ol_event_time b \<and>
     ol_source a = ol_source b \<and> ol_event_kind a = ol_event_kind b \<and> ol_outcome a = ol_outcome b \<and>
     jobj_eq (ol_details a) (ol_details b)"

section \<open>What details contain\<close>

fun scalar :: "json \<Rightarrow> bool" where
  "scalar (JBool b) \<longleftrightarrow> True"
| "scalar (JInt i) \<longleftrightarrow> True"
| "scalar (JFloat q) \<longleftrightarrow> True"
| "scalar (JStr s) \<longleftrightarrow> length s \<le> 512"
| "scalar _ \<longleftrightarrow> False"

lemma safe_value_scalar: "safe_value j = Some w \<Longrightarrow> scalar w"
  by (cases j) auto

lemma set_map_filter: "set (List.map_filter f xs) = {y. \<exists>x \<in> set xs. f x = Some y}"
  by (induction xs) (auto simp: List.map_filter_simps split: option.splits)

lemma safe_details_safe: "kv \<in> set (safe_details d) \<Longrightarrow> fst kv \<in> set safe_detail_keys \<and> scalar (snd kv)"
  by (auto simp: safe_details_def set_map_filter safe_detail_def safe_value_scalar split: if_splits)

lemma keys_map_filter:
  "map fst (List.map_filter safe_detail xs) = map fst (filter (\<lambda>kv. safe_detail kv \<noteq> None) xs)"
  by (induction xs) (auto simp: List.map_filter_simps safe_detail_def split: option.splits)

lemma distinct_safe_details: "distinct (map fst d) \<Longrightarrow> distinct (map fst (safe_details d))"
  unfolding safe_details_def keys_map_filter by (rule distinct_map_filter) simp

lemma sorted_safe_details: "sorted (map fst (safe_details d))"
  unfolding safe_details_def keys_map_filter by (rule sorted_filter) simp

lemma jobj_eq_scalars:
  assumes "distinct (map fst d)" and "\<And>k j. (k, j) \<in> set d \<Longrightarrow> scalar j"
  shows "jobj_eq d d"
proof -
  have "json_eq j j" if "scalar j" for j using that by (cases j) simp_all
  with assms have "\<forall>kx \<in> set d. map_of d (fst kx) = Some (snd kx) \<and> json_eq (snd kx) (snd kx)" by auto
  then show ?thesis unfolding jobj_eq_def json_eq.simps json_eq_items_iff by auto
qed

text \<open>Texts that are not changed when they are read back.\<close>

definition stable_details :: "jobj \<Rightarrow> bool" where
  "stable_details d \<longleftrightarrow> distinct (map fst d) \<and> sorted (map fst d) \<and>
     (\<forall>kv \<in> set d. fst kv \<in> set safe_detail_keys \<and> safe_value (snd kv) = Some (snd kv))"

lemma safe_details_stable: "stable_details d \<Longrightarrow> safe_details d = d"
proof -
  assume d: "stable_details d"
  then have "sort_key fst d = d" by (simp add: stable_details_def sort_key_id_if_sorted)
  moreover have "List.map_filter safe_detail xs = xs" if "set xs \<subseteq> set d" for xs
    using that d by (induction xs) (auto simp: List.map_filter_simps safe_detail_def stable_details_def)
  ultimately show ?thesis by (simp add: safe_details_def)
qed

definition log_record_wf :: "log_record \<Rightarrow> bool" where
  "log_record_wf r \<longleftrightarrow> ol_schema_version r = 1 \<and> nonblank (ol_mission_id r) \<and> nonblank (ol_source r) \<and>
     nonblank (ol_event_kind r) \<and> 1 \<le> ol_sequence r \<and> nonblank (ol_record_id r) \<and> nonblank (ol_outcome r) \<and>
     stable_details (ol_details r)"

lemma log_record_from_to: "log_record_wf r \<Longrightarrow> log_record_from_dict other (log_record_to_dict r) = Inr r"
  by (simp add: log_record_wf_def log_record_from_dict_def log_record_to_dict_def log_record_new_def str_field_def
      safe_details_stable)

lemma log_record_eq_refl:
  assumes "log_record_wf r"
  shows "log_record_eq r r"
proof -
  have d: "stable_details (ol_details r)" using assms by (simp add: log_record_wf_def)
  have "jobj_eq (ol_details r) (ol_details r)"
  proof (rule jobj_eq_scalars)
    show "distinct (map fst (ol_details r))" using d by (simp add: stable_details_def)
    show "scalar j" if "(k, j) \<in> set (ol_details r)" for k j
      using d that safe_value_scalar [of j j] by (force simp: stable_details_def)
  qed
  then show ?thesis by (simp add: log_record_eq_def)
qed

end
