(* ===== verification/Operational_Files.thy ===== *)
theory Operational_Files
  imports Operational_Records File_Names "HOL-Library.Multiset"
begin

text \<open>
  The two operational logs of \<open>src/onr/adapters/operational_log.py\<close>: one in memory, and one with a file for each
  record. A directory is a dictionary from names to JSON values, a file is written as a whole, and the lock of a log
  object makes its operations atomic. The locale \<open>operational_log\<close> is the contract that both keep.
\<close>

section \<open>The log in memory\<close>

type_synonym memory_log = "(string \<times> log_record list) list"

definition same_id :: "log_record \<Rightarrow> log_record list \<Rightarrow> log_record option" where
  "same_id r rs = find (\<lambda>x. ol_record_id x = ol_record_id r) rs"

definition memory_append :: "log_record \<Rightarrow> (log_record, memory_log) eff" where
  "memory_append r L =
     (let rs = getd L (ol_mission_id r) [];
          L1 = (if map_of L (ol_mission_id r) = None then put (ol_mission_id r) [] L else L)
      in case same_id r rs of
        Some x \<Rightarrow> (if log_record_eq x r then Inr x else Inl (ValueError Conflict), L1)
      | None \<Rightarrow> if ol_sequence r \<noteq> int (length rs) + 1 then (Inl (ValueError SequenceConflict), L1)
          else (Inr r, put (ol_mission_id r) (rs @ [r]) L1))"

definition memory_emit :: "string \<Rightarrow> string \<Rightarrow> string \<Rightarrow> string \<Rightarrow> string \<Rightarrow> jobj \<Rightarrow> (log_record, memory_log) eff" where
  "memory_emit now mission_id source event_kind outcome details L =
     bindS (liftE (log_record_create now mission_id source event_kind outcome details
       (int (length (getd L mission_id [])) + 1) None None)) memory_append L"

definition memory_replay :: "string \<Rightarrow> int \<Rightarrow> memory_log \<Rightarrow> log_record list" where
  "memory_replay mission_id after_sequence L = filter (\<lambda>r. after_sequence < ol_sequence r) (getd L mission_id [])"

section \<open>The log in files\<close>

text \<open>The directory of each mission that has one, with its files.\<close>

type_synonym log_files = "(string \<times> (string \<times> json) list) list"

definition one_component :: "string \<Rightarrow> bool" where
  "one_component m \<longleftrightarrow> m \<noteq> [] \<and> CHR ''/'' \<notin> set m \<and> m \<noteq> ''.'' \<and> m \<noteq> ''..''"

definition record_file :: "int \<Rightarrow> string" where
  "record_file n = padded n @ ''.json''"

text \<open>The pattern \<open>[0-9]*.json\<close>.\<close>

definition globbed :: "string \<Rightarrow> bool" where
  "globbed name \<longleftrightarrow> name \<noteq> [] \<and> hd name \<in> set decimals \<and> 6 \<le> length name \<and> drop (length name - 5) name = ''.json''"

definition parse_record :: "(json \<Rightarrow> string) \<Rightarrow> json \<Rightarrow> log_record result" where
  "parse_record other j = (case j of JObj d \<Rightarrow> log_record_from_dict other d | _ \<Rightarrow> Inl AttributeError)"

definition load_record :: "(json \<Rightarrow> string) \<Rightarrow> string \<Rightarrow> json \<Rightarrow> log_record result" where
  "load_record other m j = bindE (parse_record other j) (\<lambda>r.
     bindE (guardE (ol_mission_id r = m) (ValueError MissionMismatch)) (\<lambda>_. Inr r))"

definition file_replay :: "(json \<Rightarrow> string) \<Rightarrow> string \<Rightarrow> int \<Rightarrow> log_files \<Rightarrow> log_record list result" where
  "file_replay other m after_sequence D =
     bindE (guardE (one_component m) (ValueError BadIdentifier)) (\<lambda>_.
     case map_of D m of
       None \<Rightarrow> Inr []
     | Some fs \<Rightarrow>
         bindE (mapE (load_record other m) (map snd (sort_key fst (filter (\<lambda>f. globbed (fst f)) fs)))) (\<lambda>loaded.
         let rs = sort_key ol_sequence loaded in
         bindE (guardE (rs = [] \<or> map ol_sequence rs = [1..ol_sequence (last rs)]) (ValueError SequenceConflict)) (\<lambda>_.
         Inr (filter (\<lambda>r. after_sequence < ol_sequence r) rs))))"

definition next_sequence :: "log_record list \<Rightarrow> int" where
  "next_sequence rs = (if rs = [] then 1 else ol_sequence (last rs) + 1)"

text \<open>\<open>append\<close>: what it finds before it writes (the record that is there already), and the file it replaces.\<close>

definition append_check :: "(json \<Rightarrow> string) \<Rightarrow> log_record \<Rightarrow> log_files \<Rightarrow> log_record option result" where
  "append_check other r D =
     bindE (file_replay other (ol_mission_id r) 0 D) (\<lambda>rs.
     case same_id r rs of
       Some x \<Rightarrow> if log_record_eq x r then Inr (Some x) else Inl (ValueError Conflict)
     | None \<Rightarrow>
         bindE (guardE (ol_sequence r = next_sequence rs) (ValueError SequenceConflict)) (\<lambda>_.
         case map_of (getd D (ol_mission_id r) []) (record_file (ol_sequence r)) of
           None \<Rightarrow> Inr None
         | Some j \<Rightarrow> bindE (parse_record other j) (\<lambda>x.
             if log_record_eq x r then Inr (Some x) else Inl (ValueError Conflict))))"

definition append_write :: "log_record \<Rightarrow> log_files \<Rightarrow> log_files" where
  "append_write r D = put (ol_mission_id r)
     (put (record_file (ol_sequence r)) (canonical (JObj (log_record_to_dict r))) (getd D (ol_mission_id r) [])) D"

definition file_append :: "(json \<Rightarrow> string) \<Rightarrow> log_record \<Rightarrow> (log_record, log_files) eff" where
  "file_append other r D = (case append_check other r D of
     Inl e \<Rightarrow> (Inl e, D) | Inr (Some x) \<Rightarrow> (Inr x, D) | Inr None \<Rightarrow> (Inr r, append_write r D))"

definition file_emit :: "(json \<Rightarrow> string) \<Rightarrow> string \<Rightarrow> string \<Rightarrow> string \<Rightarrow> string \<Rightarrow> string \<Rightarrow> jobj \<Rightarrow>
  (log_record, log_files) eff" where
  "file_emit other now mission_id source event_kind outcome details D =
     bindS (liftE (file_replay other mission_id 0 D)) (\<lambda>rs.
     bindS (liftE (log_record_create now mission_id source event_kind outcome details (next_sequence rs) None None))
       (file_append other)) D"

section \<open>The contract\<close>

text \<open>
  The records of a mission, the laws of \<open>append\<close> and \<open>emit\<close> over them: an operation keeps the records or adds the
  one that it returns at the end, with the next sequence number.
\<close>

definition log_outcome :: "log_record list \<Rightarrow> log_record result \<Rightarrow> log_record list \<Rightarrow> bool" where
  "log_outcome rs res rs' \<longleftrightarrow> rs' = rs \<and> (\<forall>r. res = Inr r \<longrightarrow> r \<in> set rs) \<or>
     (\<exists>r. res = Inr r \<and> rs' = rs @ [r] \<and> ol_sequence r = int (length rs) + 1 \<and> ol_record_id r \<notin> ol_record_id ` set rs)"

locale operational_log =
  fixes inv :: "'s \<Rightarrow> bool"
    and records :: "'s \<Rightarrow> string \<Rightarrow> log_record list"
    and append_ok :: "log_record \<Rightarrow> bool"
    and append_record :: "log_record \<Rightarrow> (log_record, 's) eff"
  assumes append_inv: "inv s \<Longrightarrow> append_ok r \<Longrightarrow> append_record r s = (res, s') \<Longrightarrow> inv s'"
    and append_here: "inv s \<Longrightarrow> append_ok r \<Longrightarrow> append_record r s = (res, s') \<Longrightarrow>
      log_outcome (records s (ol_mission_id r)) res (records s' (ol_mission_id r))"
    and append_elsewhere: "inv s \<Longrightarrow> append_ok r \<Longrightarrow> append_record r s = (res, s') \<Longrightarrow> m \<noteq> ol_mission_id r \<Longrightarrow>
      records s' m = records s m"
    and inv_numbered: "inv s \<Longrightarrow> map ol_sequence (records s m) = [1..int (length (records s m))]"
    and inv_distinct: "inv s \<Longrightarrow> distinct (map ol_record_id (records s m))"
begin

text \<open>A sequence of appends, whatever each of them answers.\<close>

fun appends :: "log_record list \<Rightarrow> 's \<Rightarrow> 's" where
  "appends [] s = s"
| "appends (r # rs) s = appends rs (snd (append_record r s))"

lemma appends_inv: "inv s \<Longrightarrow> \<forall>r \<in> set rs. append_ok r \<Longrightarrow> inv (appends rs s)"
  by (induction rs arbitrary: s) (auto, metis append_inv prod.collapse)

lemma append_grows:
  assumes "inv s" and "append_ok r"
  shows "\<exists>xs. records (snd (append_record r s)) m = records s m @ xs"
proof (cases "m = ol_mission_id r")
  case True
  obtain res s' where a: "append_record r s = (res, s')" by (cases "append_record r s")
  with append_here [OF assms this] True show ?thesis by (auto simp: log_outcome_def)
next
  case False
  obtain res s' where a: "append_record r s = (res, s')" by (cases "append_record r s")
  with append_elsewhere [OF assms this False] show ?thesis by simp
qed

text \<open>Records are never lost, reordered or renumbered.\<close>

lemma appends_grow:
  assumes "inv s" and "\<forall>r \<in> set rs. append_ok r"
  shows "\<exists>xs. records (appends rs s) m = records s m @ xs"
  using assms
proof (induction rs arbitrary: s)
  case (Cons r rs)
  let ?s = "snd (append_record r s)"
  obtain xs where x: "records ?s m = records s m @ xs" using append_grows [of s r m] Cons.prems by auto
  have "inv ?s" using append_inv [of s r] Cons.prems by (cases "append_record r s") auto
  with Cons obtain ys where "records (appends rs ?s) m = records ?s m @ ys" by auto
  with x show ?case by simp
qed simp

end

section \<open>The memory keeps the contract\<close>

definition log_inv :: "memory_log \<Rightarrow> bool" where
  "log_inv L \<longleftrightarrow> (\<forall>m. map ol_sequence (getd L m []) = [1..int (length (getd L m []))] \<and>
     distinct (map ol_record_id (getd L m [])) \<and> (\<forall>r \<in> set (getd L m []). log_record_wf r \<and> ol_mission_id r = m))"

lemma log_inv_empty: "log_inv []"
  by (simp add: log_inv_def getd_def)

lemma log_invD:
  assumes "log_inv L"
  shows "map ol_sequence (getd L m []) = [1..int (length (getd L m []))]" and "distinct (map ol_record_id (getd L m []))"
    and "r \<in> set (getd L m []) \<Longrightarrow> log_record_wf r \<and> ol_mission_id r = m"
  using assms by (simp_all add: log_inv_def)

lemma same_id_Some: "same_id r rs = Some x \<Longrightarrow> x \<in> set rs \<and> ol_record_id x = ol_record_id r"
  by (auto simp: same_id_def dest: find_mem)

lemma same_id_None: "same_id r rs = None \<Longrightarrow> ol_record_id r \<notin> ol_record_id ` set rs"
  by (force simp: same_id_def find_None_iff)

lemma same_id_new: "ol_record_id r \<notin> ol_record_id ` set rs \<Longrightarrow> same_id r rs = None"
  unfolding same_id_def find_None_iff by (metis imageI)

text \<open>What \<open>append\<close> does to the records of all missions.\<close>

lemma memory_append_records:
  assumes "memory_append r L = (res, L')"
  shows "(\<forall>m. getd L' m [] = getd L m []) \<and> (\<forall>x. res = Inr x \<longrightarrow> x \<in> set (getd L (ol_mission_id r) [])) \<or>
    res = Inr r \<and> same_id r (getd L (ol_mission_id r) []) = None \<and> ol_sequence r = int (length (getd L (ol_mission_id r) [])) + 1 \<and>
      (\<forall>m. getd L' m [] = (if m = ol_mission_id r then getd L m [] @ [r] else getd L m []))"
proof -
  let ?m = "ol_mission_id r"
  let ?L1 = "if map_of L ?m = None then put ?m [] L else L"
  have L1: "getd ?L1 m [] = getd L m []" for m by (auto simp: getd_def)
  show ?thesis
  proof (cases "same_id r (getd L ?m [])")
    case (Some x)
    with assms have "L' = ?L1" "res = (if log_record_eq x r then Inr x else Inl (ValueError Conflict))"
      by (auto simp: memory_append_def Let_def)
    with L1 same_id_Some [OF Some] show ?thesis by auto
  next
    case None
    show ?thesis
    proof (cases "ol_sequence r = int (length (getd L ?m [])) + 1")
      case True
      with None assms have "res = Inr r" "L' = put ?m (getd L ?m [] @ [r]) ?L1" by (auto simp: memory_append_def Let_def)
      with True None L1 show ?thesis by simp
    next
      case False
      with None assms have "L' = ?L1" "res = Inl (ValueError SequenceConflict)" by (auto simp: memory_append_def Let_def)
      with L1 show ?thesis by simp
    qed
  qed
qed

lemma memory_append_inv:
  assumes "log_inv L" and "log_record_wf r" and "memory_append r L = (res, L')"
  shows "log_inv L'"
  using memory_append_records [OF assms(3)]
proof (elim disjE conjE)
  assume "\<forall>m. getd L' m [] = getd L m []"
  with assms(1) show ?thesis by (simp add: log_inv_def)
next
  assume a: "same_id r (getd L (ol_mission_id r) []) = None" "ol_sequence r = int (length (getd L (ol_mission_id r) [])) + 1"
    "\<forall>m. getd L' m [] = (if m = ol_mission_id r then getd L m [] @ [r] else getd L m [])"
  have "[1..int n + 1] = [1..int n] @ [int n + 1]" for n by (simp add: upto_rec2)
  with a assms(1,2) same_id_None [OF a(1)] show ?thesis by (auto simp: log_inv_def add.commute)
qed

interpretation memory_log: operational_log log_inv "\<lambda>L m. getd L m []" log_record_wf memory_append
proof
  fix s r res s'
  assume a: "log_inv s" "log_record_wf r" "memory_append r s = (res, s')"
  show "log_inv s'" by (rule memory_append_inv [OF a])
  show "log_outcome (getd s (ol_mission_id r) []) res (getd s' (ol_mission_id r) [])"
    using memory_append_records [OF a(3)]
    by (elim disjE conjE) (simp_all add: log_outcome_def same_id_None)
  show "getd s' m [] = getd s m []" if "m \<noteq> ol_mission_id r" for m
    using memory_append_records [OF a(3)] that by auto
qed (simp_all add: log_inv_def)

section \<open>The files mirror the memory\<close>

definition record_entry :: "log_record \<Rightarrow> string \<times> json" where
  "record_entry r = (record_file (ol_sequence r), canonical (JObj (log_record_to_dict r)))"

definition log_dirs :: "memory_log \<Rightarrow> log_files \<Rightarrow> bool" where
  "log_dirs L D \<longleftrightarrow> (\<forall>m. map_of D m = (if getd L m [] = [] then None else Some (map record_entry (getd L m []))))"

lemma record_file_inject: "0 \<le> m \<Longrightarrow> 0 \<le> n \<Longrightarrow> record_file m = record_file n \<longleftrightarrow> m = n"
  using padded_inject [of m n "[]" "[]"] by (auto simp: record_file_def)

lemma globbed_record: "0 \<le> n \<Longrightarrow> globbed (record_file n)"
proof -
  assume "0 \<le> n"
  then have "hd (padded n) \<in> set decimals" using padded_digits [of n] padded_not_Nil [of n] by (meson hd_in_set subsetD)
  moreover have "Suc 0 \<le> length (padded n)" using padded_not_Nil [of n] by (cases "padded n") auto
  ultimately show ?thesis by (simp add: globbed_def record_file_def)
qed

text \<open>A record is read back from its file.\<close>

lemma canonical_details: "stable_details d \<Longrightarrow> canonical_obj d = d"
proof -
  assume d: "stable_details d"
  have "(case kv of (k, j) \<Rightarrow> (k, canonical j)) = kv" if "kv \<in> set d" for kv
  proof -
    have "scalar (snd kv)" using d that safe_value_scalar by (auto simp: stable_details_def)
    then show ?thesis by (cases kv; cases "snd kv") auto
  qed
  then have "map (\<lambda>(k, j). (k, canonical j)) d = d" by (simp add: map_idI)
  with d show ?thesis by (simp add: canonical_obj_def stable_details_def sort_key_id_if_sorted)
qed

lemma parse_record_entry: "log_record_wf r \<Longrightarrow> parse_record other (snd (record_entry r)) = Inr r"
proof -
  assume r: "log_record_wf r"
  have "distinct (map fst (log_record_to_dict r))" by (simp add: log_record_to_dict_def)
  moreover have "log_record_from_dict other d = log_record_from_dict other d'" if "map_of d = map_of d'" for d d'
    using that by (simp add: log_record_from_dict_def str_field_def)
  moreover have "map_option canonical (map_of (log_record_to_dict r) k) = map_of (log_record_to_dict r) k" for k
    using r by (simp add: log_record_to_dict_def canonical_details log_record_wf_def)
  ultimately have "log_record_from_dict other (canonical_obj (log_record_to_dict r)) = log_record_from_dict other (log_record_to_dict r)"
    by (metis (no_types, lifting) ext map_of_canonical_obj)
  with log_record_from_to [OF r] show ?thesis by (simp add: parse_record_def record_entry_def)
qed

lemma load_record_entry: "log_record_wf r \<Longrightarrow> ol_mission_id r = m \<Longrightarrow> load_record other m (snd (record_entry r)) = Inr r"
  by (simp add: load_record_def parse_record_entry)

text \<open>Sorting by sequence restores the order of the records, whatever the order of the file names is.\<close>

lemma sort_numbered:
  assumes "map f rs = [1..int (length rs)]" and "mset ys = mset rs"
  shows "sort_key f ys = rs"
proof (rule properties_for_sort_key)
  show "mset rs = mset ys" using assms(2) by simp
  show "sorted (map f rs)" using assms(1) by simp
  have "distinct (map f rs)" using assms(1) by simp
  then have inj: "inj_on f (set rs)" by (simp add: distinct_map)
  have d: "distinct rs" using assms(1) by (metis distinct_map distinct_upto)
  then have d2: "distinct ys" using assms(2) by (metis mset_eq_imp_distinct_iff)
  have s: "set ys = set rs" using assms(2) by (metis mset_eq_setD)
  show "filter (\<lambda>x. f k = f x) rs = filter (\<lambda>x. f k = f x) ys" if "k \<in> set rs" for k
  proof -
    have one: "filter (\<lambda>x. f k = f x) zs = [k]" if "distinct zs" "set zs = set rs" for zs
    proof -
      have "filter (\<lambda>x. f k = f x) zs = filter (\<lambda>x. x = k) zs"
        using inj \<open>k \<in> set rs\<close> that(2) by (intro filter_cong) (auto dest: inj_onD)
      with filter_one [of zs k] that \<open>k \<in> set rs\<close> show ?thesis by simp
    qed
    from one [OF d] one [OF d2 s] show ?thesis by simp
  qed
qed

lemma entries_loaded:
  assumes "\<And>r. r \<in> set rs \<Longrightarrow> load_record other m (snd (record_entry r)) = Inr r" and "mset es = mset (map record_entry rs)"
  shows "\<exists>ys. mapE (load_record other m) (map snd es) = Inr ys \<and> mset ys = mset rs"
proof -
  define read where "read e = (case load_record other m (snd e) of Inr r \<Rightarrow> r | Inl x \<Rightarrow> undefined)" for e :: "string \<times> json"
  have rd: "read (record_entry r) = r" if "r \<in> set rs" for r using assms(1) [OF that] by (simp add: read_def)
  have "set es = set (map record_entry rs)" using assms(2) by (metis mset_eq_setD)
  then have "load_record other m (snd e) = Inr (read e)" if "e \<in> set es" for e
    using that assms(1) rd by auto
  then have "mapE (load_record other m) (map snd es) = Inr (map read es)" by (rule mapE_map_Inr)
  moreover have "mset (map read es) = mset (map read (map record_entry rs))" using assms(2) by (metis mset_map)
  moreover have "map read (map record_entry rs) = rs" using rd by (simp add: map_idI)
  ultimately show ?thesis by (metis (no_types, lifting))
qed

lemma last_upto: "xs \<noteq> [] \<Longrightarrow> last [1..int (length xs)] = int (length xs)"
proof -
  assume "xs \<noteq> []"
  then have "1 \<le> int (length xs)" by (cases xs) auto
  then show ?thesis by (simp add: upto_rec2)
qed

lemma replay_dirs:
  assumes inv: "log_inv L" and dirs: "log_dirs L D" and m: "one_component m"
  shows "file_replay other m a D = Inr (memory_replay m a L)"
proof (cases "getd L m [] = []")
  case True
  with dirs m show ?thesis by (simp add: file_replay_def log_dirs_def memory_replay_def)
next
  case False
  let ?rs = "getd L m []"
  have D: "map_of D m = Some (map record_entry ?rs)" using dirs False by (simp add: log_dirs_def)
  have pos: "0 \<le> ol_sequence r" if "r \<in> set ?rs" for r
    using log_invD(3) [OF inv that] by (auto simp: log_record_wf_def)
  have "filter (\<lambda>f. globbed (fst f)) (map record_entry ?rs) = map record_entry ?rs"
    using pos by (auto simp: record_entry_def globbed_record)
  moreover obtain ys where y: "mapE (load_record other m) (map snd (sort_key fst (map record_entry ?rs))) = Inr ys" "mset ys = mset ?rs"
    using entries_loaded [of ?rs other m "sort_key fst (map record_entry ?rs)"] log_invD(3) [OF inv] load_record_entry by auto
  moreover have "sort_key ol_sequence ys = ?rs" by (rule sort_numbered [OF log_invD(1) [OF inv] y(2)])
  moreover have "map ol_sequence ?rs = [1..ol_sequence (last ?rs)]"
  proof -
    have "ol_sequence (last ?rs) = last (map ol_sequence ?rs)" using False by (simp add: last_map)
    also have "\<dots> = int (length ?rs)" using False by (simp add: log_invD(1) [OF inv] last_upto)
    finally show ?thesis using log_invD(1) [OF inv] by simp
  qed
  ultimately show ?thesis using m D by (simp add: file_replay_def memory_replay_def Let_def)
qed

lemma next_sequence_numbered: "map ol_sequence rs = [1..int (length rs)] \<Longrightarrow> next_sequence rs = int (length rs) + 1"
proof (cases "rs = []")
  case False
  assume n: "map ol_sequence rs = [1..int (length rs)]"
  have "ol_sequence (last rs) = last (map ol_sequence rs)" using False by (simp add: last_map)
  also have "\<dots> = int (length rs)" using False by (simp add: n last_upto)
  finally show ?thesis using False by (simp add: next_sequence_def)
qed (simp add: next_sequence_def)

lemma replay_all: "log_inv L \<Longrightarrow> memory_replay m 0 L = getd L m []"
proof -
  assume inv: "log_inv L"
  have "0 < ol_sequence r" if "r \<in> set (getd L m [])" for r using log_invD(3) [OF inv that] by (simp add: log_record_wf_def)
  then show ?thesis by (simp add: memory_replay_def)
qed

lemma new_file:
  assumes inv: "log_inv L" and "log_dirs L D" and "ol_sequence r = int (length (getd L m [])) + 1"
  shows "map_of (getd D m []) (record_file (ol_sequence r)) = None"
proof -
  have "record_file (ol_sequence r) \<noteq> record_file (ol_sequence x)" if "x \<in> set (getd L m [])" for x
  proof -
    have "ol_sequence x \<in> set [1..int (length (getd L m []))]" using that by (metis image_eqI list.set_map log_invD(1) [OF inv])
    with assms(3) show ?thesis by (auto simp: record_file_inject)
  qed
  moreover have "getd D m [] = map record_entry (getd L m [])"
    using assms(2) by (simp add: log_dirs_def getd_def split: option.split)
  ultimately show ?thesis by (force simp: map_of_eq_None_iff record_entry_def)
qed

lemma append_write_dirs:
  assumes inv: "log_inv L" and dirs: "log_dirs L D" and "ol_sequence r = int (length (getd L (ol_mission_id r) [])) + 1"
    and L': "\<And>m. getd L' m [] = (if m = ol_mission_id r then getd L m [] @ [r] else getd L m [])"
  shows "log_dirs L' (append_write r D)"
proof -
  let ?m = "ol_mission_id r"
  have D: "getd D ?m [] = map record_entry (getd L ?m [])"
    using dirs by (simp add: log_dirs_def getd_def split: option.split)
  have "record_file (ol_sequence r) \<notin> fst ` set (getd D ?m [])"
    using new_file [OF inv dirs assms(3)] by (simp add: map_of_eq_None_iff)
  then have "put (record_file (ol_sequence r)) (canonical (JObj (log_record_to_dict r))) (getd D ?m []) =
      map record_entry (getd L ?m [] @ [r])"
    using D by (simp add: put_new record_entry_def)
  then show ?thesis using dirs L' by (simp add: log_dirs_def append_write_def)
qed

text \<open>The file log answers like the log in memory, and stays its mirror.\<close>

lemma append_simulation:
  assumes inv: "log_inv L" and dirs: "log_dirs L D" and r: "log_record_wf r" and m: "one_component (ol_mission_id r)"
    and app: "memory_append r L = (res, L')"
  shows "\<exists>D'. file_append other r D = (res, D') \<and> log_dirs L' D' \<and> log_inv L'"
proof -
  let ?m = "ol_mission_id r" let ?rs = "getd L ?m []"
  have inv': "log_inv L'" by (rule memory_append_inv [OF inv r app])
  have rep: "file_replay other ?m 0 D = Inr ?rs" using replay_dirs [OF inv dirs m] replay_all [OF inv] by simp
  have nxt: "next_sequence ?rs = int (length ?rs) + 1" by (rule next_sequence_numbered [OF log_invD(1) [OF inv]])
  have same: "log_dirs L' D" if "\<forall>m. getd L' m [] = getd L m []" using that dirs by (simp add: log_dirs_def)
  have getd': "getd (if map_of L ?m = None then put ?m [] L else L) m [] = getd L m []" for m by (auto simp: getd_def)
  show ?thesis
  proof (cases "same_id r ?rs")
    case (Some x)
    then have "file_append other r D = (if log_record_eq x r then Inr x else Inl (ValueError Conflict), D)"
      using rep by (simp add: file_append_def append_check_def)
    moreover have "res = (if log_record_eq x r then Inr x else Inl (ValueError Conflict))" "\<forall>m. getd L' m [] = getd L m []"
      using app Some getd' by (auto simp: memory_append_def Let_def)
    ultimately show ?thesis using same inv' by simp
  next
    case None
    show ?thesis
    proof (cases "ol_sequence r = int (length ?rs) + 1")
      case True
      have "file_append other r D = (Inr r, append_write r D)"
        using rep None True nxt new_file [OF inv dirs True] by (simp add: file_append_def append_check_def)
      moreover have "res = Inr r" "\<And>m. getd L' m [] = (if m = ?m then getd L m [] @ [r] else getd L m [])"
        using app None True getd' by (auto simp: memory_append_def Let_def)
      ultimately show ?thesis using append_write_dirs [OF inv dirs True] inv' by blast
    next
      case False
      then have "file_append other r D = (Inl (ValueError SequenceConflict), D)"
        using rep None nxt by (simp add: file_append_def append_check_def)
      moreover have "res = Inl (ValueError SequenceConflict)" "\<forall>m. getd L' m [] = getd L m []"
        using app None False getd' by (auto simp: memory_append_def Let_def)
      ultimately show ?thesis using same inv' by simp
    qed
  qed
qed

section \<open>The files keep the contract\<close>

definition file_inv :: "log_files \<Rightarrow> bool" where
  "file_inv D \<longleftrightarrow> (\<exists>L. log_inv L \<and> log_dirs L D)"

definition file_records :: "(json \<Rightarrow> string) \<Rightarrow> log_files \<Rightarrow> string \<Rightarrow> log_record list" where
  "file_records other D m = map (\<lambda>f. case parse_record other (snd f) of Inr r \<Rightarrow> r | Inl e \<Rightarrow> undefined) (getd D m [])"

lemma file_records_dirs: "log_inv L \<Longrightarrow> log_dirs L D \<Longrightarrow> file_records other D m = getd L m []"
proof -
  assume inv: "log_inv L" and "log_dirs L D"
  then have "getd D m [] = map record_entry (getd L m [])" by (simp add: log_dirs_def getd_def split: option.split)
  then show ?thesis using log_invD(3) [OF inv] by (auto simp: file_records_def parse_record_entry intro!: map_idI)
qed

definition storable :: "log_record \<Rightarrow> bool" where
  "storable r \<longleftrightarrow> log_record_wf r \<and> one_component (ol_mission_id r)"

lemma file_append_memory:
  assumes "log_inv L" and "log_dirs L D" and "storable r" and "file_append other r D = (res, D')"
  shows "\<exists>L'. memory_append r L = (res, L') \<and> log_inv L' \<and> log_dirs L' D'"
proof -
  obtain res' L' where m: "memory_append r L = (res', L')" by (cases "memory_append r L")
  from append_simulation [OF assms(1,2) _ _ m, of other] assms(3,4) m show ?thesis by (auto simp: storable_def)
qed

interpretation file_log: operational_log file_inv "file_records other" storable "file_append other" for other
proof
  fix D r res D'
  assume inv: "file_inv D" and r: "storable r" and app: "file_append other r D = (res, D')"
  from inv obtain L where L: "log_inv L" "log_dirs L D" by (auto simp: file_inv_def)
  from file_append_memory [OF L r app] obtain L' where L': "memory_append r L = (res, L')" "log_inv L'" "log_dirs L' D'" by blast
  have wf: "log_record_wf r" using r by (simp add: storable_def)
  show "file_inv D'" using L'(2,3) by (auto simp: file_inv_def)
  show "log_outcome (file_records other D (ol_mission_id r)) res (file_records other D' (ol_mission_id r))"
    using memory_log.append_here [OF L(1) wf L'(1)] file_records_dirs L L'(2,3) by simp
  show "file_records other D' m = file_records other D m" if "m \<noteq> ol_mission_id r" for m
    using memory_log.append_elsewhere [OF L(1) wf L'(1) that] file_records_dirs L L'(2,3) by simp
next
  fix D m
  assume "file_inv D"
  then obtain L where L: "log_inv L" "log_dirs L D" by (auto simp: file_inv_def)
  with log_invD(1,2) [OF L(1)] show "map ol_sequence (file_records other D m) = [1..int (length (file_records other D m))]"
    "distinct (map ol_record_id (file_records other D m))" by (simp_all add: file_records_dirs)
qed

lemma file_replay_records:
  assumes "file_inv D" and "one_component m"
  shows "file_replay other m 0 D = Inr (file_records other D m)"
proof -
  from assms(1) obtain L where L: "log_inv L" "log_dirs L D" by (auto simp: file_inv_def)
  then show ?thesis using replay_dirs [OF L assms(2)] replay_all [OF L(1)] file_records_dirs [OF L] by simp
qed

section \<open>Calls\<close>

datatype log_request =
    Append log_record
  | Emit string string string string string jobj
  | Replay string int

type_synonym log_answer = "log_record result + log_record list result"

fun memory_request :: "log_request \<Rightarrow> memory_log \<Rightarrow> log_answer \<times> memory_log" where
  "memory_request (Append r) L = map_prod Inl id (memory_append r L)"
| "memory_request (Emit now m source kind outcome d) L = map_prod Inl id (memory_emit now m source kind outcome d L)"
| "memory_request (Replay m a) L = (Inr (Inr (memory_replay m a L)), L)"

fun file_request :: "(json \<Rightarrow> string) \<Rightarrow> log_request \<Rightarrow> log_files \<Rightarrow> log_answer \<times> log_files" where
  "file_request other (Append r) D = map_prod Inl id (file_append other r D)"
| "file_request other (Emit now m source kind outcome d) D = map_prod Inl id (file_emit other now m source kind outcome d D)"
| "file_request other (Replay m a) D = (Inr (file_replay other m a D), D)"

fun answers :: "('q \<Rightarrow> 's \<Rightarrow> 'a \<times> 's) \<Rightarrow> 'q list \<Rightarrow> 's \<Rightarrow> 'a list \<times> 's" where
  "answers f [] s = ([], s)"
| "answers f (q # qs) s = (case f q s of (a, s1) \<Rightarrow> (case answers f qs s1 of (as, s2) \<Rightarrow> (a # as, s2)))"

text \<open>Missions are directory names, and details are not changed by a second redaction.\<close>

fun request_ok :: "log_request \<Rightarrow> bool" where
  "request_ok (Append r) \<longleftrightarrow> storable r"
| "request_ok (Emit now m source kind outcome d) \<longleftrightarrow> one_component m \<and> stable_details (safe_details d)"
| "request_ok (Replay m a) \<longleftrightarrow> one_component m"

lemma log_record_create_wf:
  assumes "log_record_create now m source kind outcome d n None None = Inr r" and "stable_details (safe_details d)"
  shows "log_record_wf r \<and> ol_mission_id r = m \<and> ol_sequence r = n \<and> ol_details r = safe_details d"
  using assms(1) safe_details_stable [OF assms(2)] assms(2)
  by (auto simp: log_record_create_def log_record_new_def log_record_wf_def bindE_eq_Inr)

lemma request_simulation:
  assumes inv: "log_inv L" and dirs: "log_dirs L D" and "request_ok q" and mem: "memory_request q L = (a, L')"
  shows "\<exists>D'. file_request other q D = (a, D') \<and> log_dirs L' D' \<and> log_inv L'"
proof (cases q)
  case (Append r)
  then obtain res where "memory_append r L = (res, L')" "a = Inl res" using mem by (cases "memory_append r L") auto
  with append_simulation [OF inv dirs _ _ this(1), of other] assms(3) Append show ?thesis by (auto simp: storable_def)
next
  case (Emit now m source kind outcome d)
  have rep: "file_replay other m 0 D = Inr (getd L m [])"
    using replay_dirs [OF inv dirs, of m other 0] replay_all [OF inv] assms(3) Emit by simp
  have nxt: "next_sequence (getd L m []) = int (length (getd L m [])) + 1" by (rule next_sequence_numbered [OF log_invD(1) [OF inv]])
  let ?c = "log_record_create now m source kind outcome d (int (length (getd L m [])) + 1) None None"
  show ?thesis
  proof (cases ?c)
    case (Inl e)
    with Emit mem rep nxt inv dirs show ?thesis by (simp add: memory_emit_def file_emit_def)
  next
    case (Inr r)
    have r: "log_record_wf r" "ol_mission_id r = m" using log_record_create_wf [OF Inr] assms(3) Emit by simp_all
    from Inr Emit mem obtain res where res: "memory_append r L = (res, L')" "a = Inl res"
      by (cases "memory_append r L") (auto simp: memory_emit_def)
    from append_simulation [OF inv dirs r(1) _ res(1), of other] assms(3) Emit r(2)
    obtain D' where "file_append other r D = (res, D')" "log_dirs L' D'" "log_inv L'" by auto
    with Emit Inr rep nxt res(2) show ?thesis by (simp add: file_emit_def)
  qed
next
  case (Replay m x)
  with mem have "a = Inr (Inr (memory_replay m x L))" "L' = L" by auto
  with Replay replay_dirs [OF inv dirs, of m other x] assms(3) inv dirs show ?thesis by simp
qed

lemma answers_simulation:
  "log_inv L \<Longrightarrow> log_dirs L D \<Longrightarrow> \<forall>q \<in> set qs. request_ok q \<Longrightarrow> answers memory_request qs L = (as, L') \<Longrightarrow>
    \<exists>D'. answers (file_request other) qs D = (as, D') \<and> log_dirs L' D' \<and> log_inv L'"
proof (induction qs arbitrary: L D as)
  case (Cons q qs)
  obtain a L1 where m: "memory_request q L = (a, L1)" by (cases "memory_request q L")
  obtain bs where r: "answers memory_request qs L1 = (bs, L')" "as = a # bs"
    using Cons.prems(4) m by (auto split: prod.splits)
  from request_simulation [OF Cons.prems(1,2) _ m, of other] Cons.prems(3) obtain D1 where
    d: "file_request other q D = (a, D1)" "log_dirs L1 D1" "log_inv L1" by auto
  from Cons.IH [OF d(3,2) _ r(1)] Cons.prems(3) d(1) r(2) show ?case by auto
qed simp

lemma reachable_inv: "\<forall>q \<in> set qs. request_ok q \<Longrightarrow> file_inv (snd (answers (file_request other) qs []))"
proof -
  assume ok: "\<forall>q \<in> set qs. request_ok q"
  have dirs: "log_dirs [] []" by (simp add: log_dirs_def getd_def)
  obtain as L' where a: "answers memory_request qs [] = (as, L')" by (cases "answers memory_request qs []")
  from answers_simulation [OF log_inv_empty dirs ok a, of other] show ?thesis by (auto simp: file_inv_def)
qed

lemma request_grows:
  assumes "file_inv D" and "request_ok q"
  shows "file_inv (snd (file_request other q D)) \<and> (\<exists>xs. file_records other (snd (file_request other q D)) m = file_records other D m @ xs)"
proof (cases q)
  case (Append r)
  with assms file_log.append_grows [of D r other m] file_log.append_inv [of D r other] show ?thesis
    by (cases "file_append other r D") auto
next
  case (Emit now mi source kind outcome d)
  have rep: "file_replay other mi 0 D = Inr (file_records other D mi)"
    using file_replay_records assms Emit by simp
  let ?c = "log_record_create now mi source kind outcome d (next_sequence (file_records other D mi)) None None"
  show ?thesis
  proof (cases ?c)
    case (Inl e)
    with Emit rep assms show ?thesis by (simp add: file_emit_def)
  next
    case (Inr r)
    have "storable r" using log_record_create_wf [OF Inr] assms(2) Emit by (simp add: storable_def)
    with file_log.append_grows [OF assms(1) this, of other m] file_log.append_inv [OF assms(1) this, of other] Emit Inr rep
    show ?thesis by (cases "file_append other r D") (simp add: file_emit_def)
  qed
qed (use assms in simp)

lemma answers_grow:
  "file_inv D \<Longrightarrow> \<forall>q \<in> set qs. request_ok q \<Longrightarrow>
    file_inv (snd (answers (file_request other) qs D)) \<and>
    (\<exists>xs. file_records other (snd (answers (file_request other) qs D)) m = file_records other D m @ xs)"
proof (induction qs arbitrary: D)
  case (Cons q qs)
  from request_grows [OF Cons.prems(1), of q other m] Cons.prems(2) obtain xs where
    x: "file_inv (snd (file_request other q D))" "file_records other (snd (file_request other q D)) m = file_records other D m @ xs" by auto
  from Cons.IH [OF x(1)] Cons.prems(2) x(2) show ?case by (auto split: prod.splits)
qed simp

section \<open>Properties\<close>

text \<open>C17: the log in files answers like the log in memory. Every sequence of appends, emissions and replays has the same
  answers, errors included, when missions are directory names and no redacted text is redacted further when it is
  read back.\<close>

theorem file_log_refines:
  assumes "\<forall>q \<in> set qs. request_ok q"
  shows "fst (answers (file_request other) qs []) = fst (answers memory_request qs [])"
proof -
  have dirs: "log_dirs [] []" by (simp add: log_dirs_def getd_def)
  obtain as L' where a: "answers memory_request qs [] = (as, L')" by (cases "answers memory_request qs []")
  from answers_simulation [OF log_inv_empty dirs assms a, of other] a show ?thesis by auto
qed



text \<open>C40: two log objects over one directory lose records. The lock of \<open>FileOperationalLog\<close> belongs to the object. When two
  objects append different new records with the next sequence number and both have checked before either writes, both
  report success, and the first record is gone.\<close>

theorem concurrent_append_loses:
  assumes "\<forall>q \<in> set qs. request_ok q" and "D = snd (answers (file_request other) qs [])" and "storable r1" and "storable r2"
    and "ol_mission_id r1 = m" and "ol_mission_id r2 = m" and "file_replay other m 0 D = Inr rs"
    and "ol_sequence r1 = int (length rs) + 1" and "ol_sequence r2 = int (length rs) + 1"
    and "ol_record_id r1 \<notin> ol_record_id ` set rs" and "ol_record_id r2 \<notin> ol_record_id ` set rs"
  shows "append_check other r1 D = Inr None \<and> append_check other r2 D = Inr None \<and>
    file_replay other m 0 (append_write r2 (append_write r1 D)) = Inr (rs @ [r2])"
proof -
  obtain L where L: "log_inv L" "log_dirs L D" using reachable_inv [OF assms(1), of other] assms(2) by (auto simp: file_inv_def)
  have m: "one_component m" using assms(3,5) by (simp add: storable_def)
  have rs: "rs = getd L m []" using replay_dirs [OF L m, of other 0] replay_all [OF L(1)] assms(7) by simp
  have nxt: "next_sequence rs = int (length rs) + 1" unfolding rs by (rule next_sequence_numbered [OF log_invD(1) [OF L(1)]])
  have check: "append_check other r D = Inr None"
    if "ol_mission_id r = m" "ol_sequence r = int (length rs) + 1" "ol_record_id r \<notin> ol_record_id ` set rs" for r
  proof -
    have "same_id r rs = None" by (rule same_id_new [OF that(3)])
    with that assms(7) nxt new_file [OF L, of r m] rs show ?thesis by (simp add: append_check_def)
  qed
  have same: "append_write r2 (append_write r1 D) = append_write r2 D"
    using assms(5,6,8,9) by (simp add: append_write_def)
  have "same_id r2 (getd L m []) = None" using assms(11) by (simp add: same_id_new rs)
  then have "memory_append r2 L = (Inr r2, put m (getd L m [] @ [r2]) (if map_of L m = None then put m [] L else L))"
    using assms(6,9) by (simp add: memory_append_def rs Let_def)
  then obtain L' where app: "memory_append r2 L = (Inr r2, L')" "getd L' m [] = getd L m [] @ [r2]" by simp
  from append_simulation [OF L _ _ app(1), of other] assms(4) obtain D' where
    D': "file_append other r2 D = (Inr r2, D')" "log_dirs L' D'" "log_inv L'" by (auto simp: storable_def)
  from check [OF assms(6,9,11)] D'(1) have "D' = append_write r2 D" by (simp add: file_append_def)
  with D' replay_dirs [OF D'(3,2) m, of other 0] replay_all [OF D'(3)] app(2) rs
  have "file_replay other m 0 (append_write r2 D) = Inr (rs @ [r2])" by simp
  with check [OF assms(5,8,10)] check [OF assms(6,9,11)] same show ?thesis by simp
qed

section \<open>A concrete log\<close>

definition ex_requests :: "log_request list" where
  "ex_requests = [Emit ''t1'' ''m1'' ''fsm-runner'' ''fsm'' ''updated'' [(''state'', JStr ''s''), (''note'', JStr ''x''), (''revision'', JInt 3)],
     Replay ''m1'' 0]"

definition ex_log_record :: "string \<Rightarrow> log_record" where
  "ex_log_record source = \<lparr>ol_schema_version = 1, ol_record_id = source, ol_mission_id = ''m1'', ol_sequence = 2, ol_event_time = ''t2'',
     ol_source = source, ol_event_kind = ''fsm'', ol_outcome = ''updated'', ol_details = []\<rparr>"

definition ex_log_files :: log_files where
  "ex_log_files = snd (answers (file_request (\<lambda>_. [])) ex_requests [])"

definition ex_replayed :: "log_record list" where
  "ex_replayed = [\<lparr>ol_schema_version = 1, ol_record_id = ''m1:1:fsm'', ol_mission_id = ''m1'', ol_sequence = 1, ol_event_time = ''t1'',
     ol_source = ''fsm-runner'', ol_event_kind = ''fsm'', ol_outcome = ''updated'',
     ol_details = [(''revision'', JInt 3), (''state'', JStr ''s'')]\<rparr>]"

lemma ex_requests_ok: "\<forall>q \<in> set ex_requests. request_ok q"
proof -
  have "list_all request_ok ex_requests" by code_simp
  then show ?thesis by (simp add: list_all_iff)
qed

lemma ex_m1: "one_component ''m1''"
  by code_simp

lemma ex_replay: "file_replay (\<lambda>_. []) ''m1'' 0 ex_log_files = Inr ex_replayed"
  by code_simp

theorem file_log_refines_witness:
  "fst (answers (file_request (\<lambda>_. [])) ex_requests []) = fst (answers memory_request ex_requests [])"
  by (rule file_log_refines [OF ex_requests_ok])



theorem concurrent_append_loses_witness:
  "file_replay (\<lambda>_. []) ''m1'' 0 (append_write (ex_log_record ''b'') (append_write (ex_log_record ''a'') ex_log_files)) =
     Inr (ex_replayed @ [ex_log_record ''b'']) \<and> append_check (\<lambda>_. []) (ex_log_record ''a'') ex_log_files = Inr None"
proof -
  have s: "storable (ex_log_record ''a'')" "storable (ex_log_record ''b'')" by code_simp+
  have "ol_mission_id (ex_log_record x) = ''m1''" "ol_sequence (ex_log_record x) = int (length ex_replayed) + 1"
    "ol_record_id (ex_log_record x) = x" for x
    by (simp_all add: ex_log_record_def ex_replayed_def)
  moreover have "ol_record_id ` set ex_replayed = {''m1:1:fsm''}" by (simp add: ex_replayed_def)
  ultimately show ?thesis using concurrent_append_loses [OF ex_requests_ok ex_log_files_def s _ _ ex_replay] by simp
qed

end
