(* ===== verification/Importance.thy ===== *)
theory Importance
  imports Operational_Records
begin

text \<open>
  The importance of operational records, \<open>src/onr/runtime_host/importance.py\<close>: a table of rules assigns one of five
  levels to each record, and a summary has the level of its most severe record. The titles of records are text for
  people and are not modelled.
\<close>

section \<open>Levels\<close>

definition importance_levels :: "string list" where
  "importance_levels = [''critical'', ''warning'', ''notable'', ''routine'', ''debug'']"

definition importance_rank :: "string \<Rightarrow> nat result" where
  "importance_rank level = (case map_of (zip (rev importance_levels) [0..<5]) level of
     None \<Rightarrow> Inl (ValueError BadEnum) | Some n \<Rightarrow> Inr n)"

fun max_importance :: "string \<Rightarrow> string list \<Rightarrow> string result" where
  "max_importance best [] = Inr best"
| "max_importance best (level # levels) =
     bindE (importance_rank level) (\<lambda>m. bindE (importance_rank best) (\<lambda>n.
     max_importance (if n < m then level else best) levels))"

definition empty_importance_counts :: "(string \<times> int) list" where
  "empty_importance_counts = map (\<lambda>level. (level, 0)) importance_levels"

section \<open>The rules\<close>

definition failure_outcomes :: "string list" where
  "failure_outcomes = [''failed'', ''crashed'', ''dead_letter'', ''dead-letter'']"

definition degraded_outcomes :: "string list" where
  "degraded_outcomes = [''rejected'', ''cancelled'', ''timeout'', ''error'', ''unsolvable'', ''incomplete'', ''unsupported'',
     ''missing'', ''unavailable'', ''insufficient_environment_data'', ''gap'', ''conflict'', ''malformed'', ''stale'']"

definition importance_rules :: "(string option \<times> string option \<times> string option \<times> string) list" where
  "importance_rules = [
     (Some ''hyper-agent'', Some ''planning-intent'', Some ''rejected'', ''critical''),
     (Some ''hyper-agent'', Some ''workflow'', Some ''failed'', ''critical''),
     (None, Some ''error'', None, ''critical''),
     (Some ''perception'', None, Some ''failed'', ''critical''),
     (Some ''runtime'', Some ''summary-unavailable'', None, ''warning''),
     (Some ''runtime'', Some ''summary-missing'', None, ''warning''),
     (Some ''maneuver-control'', Some ''heartbeat'', Some ''failed'', ''warning''),
     (Some ''planning-command-handler'', Some ''planning'', Some ''failed'', ''warning''),
     (Some ''runtime'', Some ''planning-environment-data'', Some ''insufficient_environment_data'', ''warning''),
     (Some ''hyper-agent'', Some ''workflow'', Some ''started'', ''notable''),
     (Some ''hyper-agent'', Some ''workflow'', Some ''completed'', ''notable''),
     (Some ''hyper-agent'', Some ''planning-intent'', Some ''completed'', ''notable''),
     (Some ''hyper-agent'', Some ''planner-choice'', None, ''notable''),
     (Some ''hyper-agent'', Some ''planner-assets'', Some ''accepted'', ''notable''),
     (Some ''hyper-agent'', Some ''planner-execution'', Some ''verified'', ''notable''),
     (Some ''hyper-agent'', Some ''planner-generation-attempt'', Some ''accepted'', ''notable''),
     (Some ''hyper-agent'', Some ''statechart-generation'', Some ''verified'', ''notable''),
     (Some ''hyper-agent'', Some ''heartbeat'', Some ''replan'', ''notable''),
     (Some ''hyper-agent'', Some ''prior-knowledge'', Some ''applied'', ''notable''),
     (Some ''fsm-runner'', Some ''fsm'', Some ''initialized'', ''notable''),
     (Some ''fsm-runner'', Some ''fsm'', Some ''transitioned'', ''notable''),
     (Some ''fsm-runner'', Some ''fsm'', Some ''superseded'', ''notable''),
     (Some ''maneuver-control'', Some ''control'', Some ''queued'', ''notable''),
     (Some ''maneuver-control'', Some ''control'', Some ''completed'', ''notable''),
     (Some ''runtime'', Some ''agent'', Some ''started'', ''notable''),
     (Some ''planning-command-handler'', Some ''planning'', Some ''completed'', ''notable''),
     (Some ''fsm-runner'', Some ''fsm'', Some ''updated'', ''routine''),
     (Some ''maneuver-control'', Some ''heartbeat'', Some ''completed'', ''routine''),
     (Some ''hyper-agent'', Some ''heartbeat'', None, ''routine''),
     (Some ''runtime'', Some ''heartbeat'', None, ''routine''),
     (Some ''runtime'', Some ''planning-environment-data'', None, ''routine''),
     (Some ''planning-command-handler'', Some ''solver'', None, ''routine''),
     (Some ''context-coordination'', Some ''heartbeat'', Some ''completed'', ''debug''),
     (Some ''hyper-agent'', Some ''prior-knowledge'', None, ''debug'')]"

definition rule_part :: "string option \<Rightarrow> string \<Rightarrow> bool" where
  "rule_part p s \<longleftrightarrow> (case p of None \<Rightarrow> True | Some x \<Rightarrow> s = x)"

definition rule_matches :: "string \<Rightarrow> string \<Rightarrow> string \<Rightarrow> string option \<times> string option \<times> string option \<times> string \<Rightarrow> bool" where
  "rule_matches source event_kind outcome = (\<lambda>(s, k, r, level). rule_part s source \<and> rule_part k event_kind \<and> rule_part r outcome)"

section \<open>Records\<close>

definition text_field :: "jobj \<Rightarrow> string \<Rightarrow> string" where
  "text_field d k = (case map_of d k of Some (JStr s) \<Rightarrow> s | _ \<Rightarrow> [])"

definition details_of :: "jobj \<Rightarrow> jobj" where
  "details_of d = (case map_of d ''details'' of Some (JObj x) \<Rightarrow> x | _ \<Rightarrow> [])"

text \<open>\<open>x in s\<close> on strings.\<close>

fun contains :: "string \<Rightarrow> string \<Rightarrow> bool" where
  "contains x [] \<longleftrightarrow> x = []"
| "contains x (c # cs) \<longleftrightarrow> take (length x) (c # cs) = x \<or> contains x cs"

definition record_importance :: "jobj \<Rightarrow> string" where
  "record_importance d =
     (let source = text_field d ''source''; event_kind = text_field d ''event_kind''; outcome = text_field d ''outcome'';
          details = details_of d
      in if text_field details ''error_type'' = ''StructuredOutputRetriesExhausted'' then ''critical''
      else if contains ''dead-letter'' event_kind \<or> contains ''dead_letter'' event_kind then ''critical''
      else if source \<in> {''runtime-host'', ''stack''} \<and> outcome \<in> set failure_outcomes then ''critical''
      else if source = ''maneuver-control'' \<and> event_kind = ''heartbeat'' \<and> outcome = ''completed'' \<and>
        (case map_of details ''successful_transition_count'' of Some (JInt n) \<Rightarrow> 0 < n | _ \<Rightarrow> False) then ''notable''
      else (case find (rule_matches source event_kind outcome) importance_rules of
          Some (s, k, r, level) \<Rightarrow> level
        | None \<Rightarrow>
            if outcome \<in> set failure_outcomes \<or> outcome \<in> set degraded_outcomes then ''warning''
            else if source = ''hyper-agent'' \<and> event_kind \<in> {''planner-assets'', ''planner-execution'',
              ''planner-generation-attempt'', ''statechart-generation''} then ''warning''
            else ''routine''))"

definition replay_disposition_importance :: "string \<Rightarrow> string option" where
  "replay_disposition_importance disposition =
     (if disposition \<in> {''dead_letter'', ''dead-letter''} then Some ''critical''
      else if disposition \<in> {''gap'', ''conflict'', ''malformed'', ''stale''} then Some ''warning'' else None)"

definition service_importance :: "string \<Rightarrow> bool \<Rightarrow> int option \<Rightarrow> bool \<Rightarrow> string" where
  "service_importance state required exit_code completes =
     (if state = ''failed'' \<or> state = ''exited'' \<and> exit_code \<notin> {None, Some 0}
      then (if required then ''critical'' else ''warning'')
      else if state = ''exited'' then (if required \<and> \<not> completes then ''warning'' else ''routine'')
      else ''routine'')"

text \<open>The double that is written \<open>0.2\<close>.\<close>

definition belief_change_threshold :: rat where
  "belief_change_threshold = 3602879701896397 / 18014398509481984"

fun belief_change_importance :: "pyfloat \<Rightarrow> string" where
  "belief_change_importance (Fin q) = (if belief_change_threshold \<le> \<bar>q\<bar> then ''notable'' else ''routine'')"
| "belief_change_importance NaN = ''routine''"
| "belief_change_importance _ = ''notable''"

definition component_badges :: "(string \<times> string) list" where
  "component_badges = [(''hyper-agent'', ''HYP''), (''planning-command-handler'', ''HYP''), (''maneuver-control'', ''MAN''),
     (''context-coordination'', ''CC''), (''fsm-runner'', ''FSM''), (''bayesian-belief'', ''BEL''),
     (''reporting-reliability'', ''BEL''), (''object-search-belief'', ''BEL''), (''environment'', ''ENV''),
     (''physical-runtime'', ''ENV''), (''perception'', ''PER''), (''runtime-host'', ''STK''), (''stack'', ''STK'')]"

definition component_badge :: "string \<Rightarrow> string option \<Rightarrow> string" where
  "component_badge source event_kind =
     (if source = ''runtime'' then (if event_kind = Some ''planning-environment-data'' then ''ENV'' else ''STK'')
      else case map_of component_badges source of
        Some b \<Rightarrow> b
      | None \<Rightarrow> if contains ''belief'' source then ''BEL'' else if contains ''perception'' source then ''PER'' else ''STK'')"

section \<open>Ranks\<close>

lemma importance_ranks: "zip (rev importance_levels) [0..<5] = [(''debug'', 0), (''routine'', 1), (''notable'', 2), (''warning'', 3), (''critical'', 4)]"
  by code_simp

definition rank_of :: "string \<Rightarrow> nat" where
  "rank_of level = (case importance_rank level of Inr n \<Rightarrow> n | Inl e \<Rightarrow> 0)"

lemma importance_level_iff: "level \<in> set importance_levels \<longleftrightarrow>
    level = ''critical'' \<or> level = ''warning'' \<or> level = ''notable'' \<or> level = ''routine'' \<or> level = ''debug''"
  by (simp add: importance_levels_def)

lemma importance_rank_ok: "level \<in> set importance_levels \<Longrightarrow> importance_rank level = Inr (rank_of level)"
  unfolding importance_level_iff by (elim disjE) (simp_all add: rank_of_def importance_rank_def importance_ranks)

lemma importance_rank_bad: "level \<notin> set importance_levels \<Longrightarrow> importance_rank level = Inl (ValueError BadEnum)"
  unfolding importance_level_iff by (simp add: importance_rank_def importance_ranks)

lemma rank_of_levels [simp]: "rank_of ''debug'' = 0" "rank_of ''routine'' = 1" "rank_of ''notable'' = 2" "rank_of ''warning'' = 3"
  "rank_of ''critical'' = 4"
  by (simp_all add: rank_of_def importance_rank_def importance_ranks)

lemma rank_of_inject: "a \<in> set importance_levels \<Longrightarrow> b \<in> set importance_levels \<Longrightarrow> rank_of a = rank_of b \<Longrightarrow> a = b"
  unfolding importance_level_iff by (elim disjE) simp_all

lemma max_importance_Inr:
  "set levels \<subseteq> set importance_levels \<Longrightarrow> best \<in> set importance_levels \<Longrightarrow>
    \<exists>m. max_importance best levels = Inr m \<and> m \<in> insert best (set levels) \<and> (\<forall>l \<in> insert best (set levels). rank_of l \<le> rank_of m)"
proof (induction levels arbitrary: best)
  case (Cons level levels)
  let ?best = "if rank_of best < rank_of level then level else best"
  have b: "?best \<in> set importance_levels" "set levels \<subseteq> set importance_levels" using Cons.prems by auto
  from Cons.IH [OF b(2,1)] obtain x where x: "max_importance ?best levels = Inr x" "x \<in> insert ?best (set levels)"
    "\<forall>l \<in> insert ?best (set levels). rank_of l \<le> rank_of x" by blast
  have "max_importance best (level # levels) = Inr x"
    using x(1) Cons.prems by (simp add: importance_rank_ok)
  moreover have "x \<in> insert best (set (level # levels))" using x(2) by (cases "rank_of best < rank_of level") auto
  moreover have "rank_of l \<le> rank_of x" if "l \<in> insert best (set (level # levels))" for l
    using x(3) that by (cases "rank_of best < rank_of level") auto
  ultimately show ?case by blast
qed simp

lemma max_importance_bad: "\<not> set levels \<subseteq> set importance_levels \<Longrightarrow> best \<in> set importance_levels \<Longrightarrow>
    max_importance best levels = Inl (ValueError BadEnum)"
proof (induction levels arbitrary: best)
  case (Cons level levels)
  show ?case
  proof (cases "level \<in> set importance_levels")
    case True
    then show ?thesis using Cons by (simp add: importance_rank_ok)
  qed (simp add: importance_rank_bad)
qed simp

section \<open>Properties\<close>

text \<open>The importance of a summary is the importance of its most severe record. For levels of the table,
  \<open>max_importance\<close> returns the one of greatest rank among them and the default, whatever their order; it raises exactly
  when one of them is not a level.\<close>

theorem max_importance_is_maximum:
  assumes "fallback \<in> set importance_levels"
  shows "(isOk (max_importance fallback levels) \<longleftrightarrow> set levels \<subseteq> set importance_levels) \<and>
    (max_importance fallback levels = Inr m \<longleftrightarrow> set levels \<subseteq> set importance_levels \<and> m \<in> insert fallback (set levels) \<and>
      rank_of m = Max (rank_of ` insert fallback (set levels)))"
proof (cases "set levels \<subseteq> set importance_levels")
  case True
  from max_importance_Inr [OF True assms] obtain x where x: "max_importance fallback levels = Inr x" "x \<in> insert fallback (set levels)"
    "\<forall>l \<in> insert fallback (set levels). rank_of l \<le> rank_of x" by blast
  then have mx: "Max (rank_of ` insert fallback (set levels)) = rank_of x" by (intro Max_eqI) auto
  have "x = m" if "m \<in> insert fallback (set levels)" "rank_of m = rank_of x"
    using rank_of_inject [of x m] that x(2) True assms by auto
  with x mx True show ?thesis by auto
next
  case False
  with max_importance_bad [OF this assms] show ?thesis by simp
qed

text \<open>The records of failed operations that are shown below the level of a warning.\<close>

definition quiet_failure :: "string \<Rightarrow> string \<Rightarrow> string \<Rightarrow> bool" where
  "quiet_failure source event_kind outcome \<longleftrightarrow>
     source = ''hyper-agent'' \<and> event_kind \<in> {''planner-choice'', ''heartbeat'', ''prior-knowledge''} \<or>
     source = ''runtime'' \<and> event_kind = ''heartbeat'' \<or>
     source = ''runtime'' \<and> event_kind = ''planning-environment-data'' \<and> outcome \<noteq> ''insufficient_environment_data'' \<or>
     source = ''planning-command-handler'' \<and> event_kind = ''solver''"

text \<open>The level that the rules give a failure.\<close>

definition rule_level :: "string \<Rightarrow> string \<Rightarrow> string \<Rightarrow> string" where
  "rule_level source event_kind outcome = (case find (rule_matches source event_kind outcome) importance_rules of
     Some (s, k, r, level) \<Rightarrow> level | None \<Rightarrow> ''warning'')"

text \<open>The rules that can match an outcome.\<close>

definition rules_for :: "string \<Rightarrow> (string option \<times> string option \<times> string option \<times> string) list" where
  "rules_for outcome = filter (\<lambda>x. rule_part (fst (snd (snd x))) outcome) importance_rules"

lemma find_rules_for: "find (rule_matches source event_kind outcome) importance_rules = find (rule_matches source event_kind outcome) (rules_for outcome)"
proof -
  have "find (rule_matches source event_kind outcome) rs =
      find (rule_matches source event_kind outcome) (filter (\<lambda>x. rule_part (fst (snd (snd x))) outcome) rs)" for rs
    by (induction rs) (auto simp: rule_matches_def split: prod.splits)
  then show ?thesis by (simp add: rules_for_def)
qed

definition plain_rules :: "(string option \<times> string option \<times> string option \<times> string) list" where
  "plain_rules = [(None, Some ''error'', None, ''critical''), (Some ''runtime'', Some ''summary-unavailable'', None, ''warning''),
     (Some ''runtime'', Some ''summary-missing'', None, ''warning''), (Some ''hyper-agent'', Some ''planner-choice'', None, ''notable''),
     (Some ''hyper-agent'', Some ''heartbeat'', None, ''routine''), (Some ''runtime'', Some ''heartbeat'', None, ''routine''),
     (Some ''runtime'', Some ''planning-environment-data'', None, ''routine''),
     (Some ''planning-command-handler'', Some ''solver'', None, ''routine''), (Some ''hyper-agent'', Some ''prior-knowledge'', None, ''debug'')]"

lemma list_all_notin: "list_all P xs \<Longrightarrow> \<not> P x \<Longrightarrow> x \<notin> set xs"
  by (auto simp: list_all_iff)

lemma rules_for_plain:
  assumes "outcome \<in> set failure_outcomes \<union> set degraded_outcomes" and "outcome \<noteq> ''failed''" and "outcome \<noteq> ''rejected''"
    and "outcome \<noteq> ''insufficient_environment_data''"
  shows "rules_for outcome = plain_rules"
proof -
  have "list_all (\<lambda>x. x \<notin> set failure_outcomes \<union> set degraded_outcomes) [''started'', ''completed'', ''accepted'', ''verified'',
      ''replan'', ''applied'', ''initialized'', ''transitioned'', ''superseded'', ''queued'', ''updated'']" by code_simp
  then have "outcome \<notin> set [''started'', ''completed'', ''accepted'', ''verified'', ''replan'', ''applied'', ''initialized'', ''transitioned'',
      ''superseded'', ''queued'', ''updated'']"
    by (rule list_all_notin) (simp only: assms(1) not_not)
  with assms(2-4) show ?thesis by (simp add: rules_for_def importance_rules_def plain_rules_def rule_part_def)
qed

text \<open>The sources that the rules for failures name.\<close>

lemma source_cases:
  assumes "P ''hyper-agent''" and "P ''runtime''" and "P ''planning-command-handler''" and "P ''maneuver-control''" and "P ''perception''"
    and "\<And>s. s \<noteq> ''hyper-agent'' \<Longrightarrow> s \<noteq> ''runtime'' \<Longrightarrow> s \<noteq> ''planning-command-handler'' \<Longrightarrow> s \<noteq> ''maneuver-control'' \<Longrightarrow>
      s \<noteq> ''perception'' \<Longrightarrow> P s"
  shows "P source"
  using assms by metis

text \<open>Whether the first rule that matches gives a level below that of a warning.\<close>

fun quiet_rules :: "string \<Rightarrow> string \<Rightarrow> string \<Rightarrow> (string option \<times> string option \<times> string option \<times> string) list \<Rightarrow> bool" where
  "quiet_rules source event_kind outcome [] \<longleftrightarrow> False"
| "quiet_rules source event_kind outcome ((s, k, r, level) # rs) \<longleftrightarrow>
     (if rule_part s source \<and> rule_part k event_kind \<and> rule_part r outcome then rank_of level < 3
      else quiet_rules source event_kind outcome rs)"

lemma quiet_rules_iff: "quiet_rules source event_kind outcome rs \<longleftrightarrow>
    rank_of (case find (rule_matches source event_kind outcome) rs of Some (s, k, r, level) \<Rightarrow> level | None \<Rightarrow> ''warning'') < 3"
  by (induction rs) (auto simp: rule_matches_def)

lemma rule_level_quiet: "rank_of (rule_level source event_kind outcome) < 3 \<longleftrightarrow> quiet_rules source event_kind outcome (rules_for outcome)"
  unfolding rule_level_def find_rules_for quiet_rules_iff ..

lemma rule_part_simps [simp]: "rule_part None x" "rule_part (Some y) x \<longleftrightarrow> x = y"
  by (simp_all add: rule_part_def)

lemma rule_level_plain: "outcome \<noteq> ''insufficient_environment_data'' \<Longrightarrow> rules_for outcome = plain_rules \<Longrightarrow>
    rank_of (rule_level source event_kind outcome) < 3 \<longleftrightarrow> quiet_failure source event_kind outcome"
  unfolding rule_level_quiet by (rule source_cases [of _ source]) (simp_all add: plain_rules_def quiet_failure_def)

lemma rule_level_special:
  assumes "outcome = ''failed'' \<or> outcome = ''rejected'' \<or> outcome = ''insufficient_environment_data''"
  shows "rank_of (rule_level source event_kind outcome) < 3 \<longleftrightarrow> quiet_failure source event_kind outcome"
proof -
  have f: "rules_for ''failed'' = (Some ''hyper-agent'', Some ''workflow'', Some ''failed'', ''critical'') #
      (None, Some ''error'', None, ''critical'') # (Some ''perception'', None, Some ''failed'', ''critical'') #
      (Some ''runtime'', Some ''summary-unavailable'', None, ''warning'') # (Some ''runtime'', Some ''summary-missing'', None, ''warning'') #
      (Some ''maneuver-control'', Some ''heartbeat'', Some ''failed'', ''warning'') #
      (Some ''planning-command-handler'', Some ''planning'', Some ''failed'', ''warning'') # drop 3 plain_rules"
    and r: "rules_for ''rejected'' = (Some ''hyper-agent'', Some ''planning-intent'', Some ''rejected'', ''critical'') # plain_rules"
    and i: "rules_for ''insufficient_environment_data'' = take 3 plain_rules @
      [(Some ''runtime'', Some ''planning-environment-data'', Some ''insufficient_environment_data'', ''warning'')] @ drop 3 plain_rules"
    by code_simp+
  from assms show ?thesis
  proof (elim disjE)
    assume o: "outcome = ''failed''"
    show ?thesis
      unfolding rule_level_quiet o f by (rule source_cases [of _ source]) (simp_all add: plain_rules_def quiet_failure_def)
  next
    assume o: "outcome = ''rejected''"
    show ?thesis
      unfolding rule_level_quiet o r by (rule source_cases [of _ source]) (simp_all add: plain_rules_def quiet_failure_def)
  next
    assume o: "outcome = ''insufficient_environment_data''"
    show ?thesis
      unfolding rule_level_quiet o i by (rule source_cases [of _ source]) (simp_all add: plain_rules_def quiet_failure_def)
  qed
qed

lemma rule_level_failure:
  assumes "outcome \<in> set failure_outcomes \<union> set degraded_outcomes"
  shows "rank_of (rule_level source event_kind outcome) < 3 \<longleftrightarrow> quiet_failure source event_kind outcome"
proof (cases "outcome = ''failed'' \<or> outcome = ''rejected'' \<or> outcome = ''insufficient_environment_data''")
  case True
  then show ?thesis by (rule rule_level_special)
next
  case False
  then have "rules_for outcome = plain_rules" by (intro rules_for_plain [OF assms]) simp_all
  with False show ?thesis by (intro rule_level_plain) simp_all
qed

text \<open>C21: which failures are not shown as warnings. A record whose outcome says that an operation failed, was refused or
  is degraded has at least the importance of a warning, except exactly those of five sources of routine
  evidence, unless the agent's retries are exhausted: a failed heartbeat, planner choice or prior-knowledge step
  of the Hyper Agent is shown as notable, routine or debug.\<close>

theorem failures_below_warning:
  assumes "text_field d ''outcome'' \<in> set failure_outcomes \<union> set degraded_outcomes"
  shows "rank_of (record_importance d) < rank_of ''warning'' \<longleftrightarrow>
    quiet_failure (text_field d ''source'') (text_field d ''event_kind'') (text_field d ''outcome'') \<and>
    text_field (details_of d) ''error_type'' \<noteq> ''StructuredOutputRetriesExhausted''"
proof -
  let ?s = "text_field d ''source''" and ?k = "text_field d ''event_kind''" and ?o = "text_field d ''outcome''"
  have comp: "?o \<noteq> ''completed''" using assms by (auto simp: failure_outcomes_def degraded_outcomes_def)
  show ?thesis
  proof (cases "text_field (details_of d) ''error_type'' = ''StructuredOutputRetriesExhausted''")
    case True
    then show ?thesis by (simp add: record_importance_def Let_def)
  next
    case error: False
    show ?thesis
    proof (cases "contains ''dead-letter'' ?k \<or> contains ''dead_letter'' ?k \<or> ?s \<in> {''runtime-host'', ''stack''} \<and> ?o \<in> set failure_outcomes")
      case True
      then have "record_importance d = ''critical''" using error by (auto simp: record_importance_def Let_def)
      moreover have "\<not> quiet_failure ?s ?k ?o"
      proof
        assume q: "quiet_failure ?s ?k ?o"
        then have "?k \<in> {''planner-choice'', ''heartbeat'', ''prior-knowledge'', ''planning-environment-data'', ''solver''}" "?s \<notin> {''runtime-host'', ''stack''}"
          by (auto simp: quiet_failure_def)
        with True show False by auto
      qed
      ultimately show ?thesis by simp
    next
      case False
      then have "\<not> contains ''dead-letter'' ?k" "\<not> contains ''dead_letter'' ?k" "\<not> (?s \<in> {''runtime-host'', ''stack''} \<and> ?o \<in> set failure_outcomes)"
        by blast+
      then have "record_importance d = rule_level ?s ?k ?o"
        unfolding record_importance_def Let_def rule_level_def using error comp assms by (simp only: if_False Un_iff if_True simp_thms)
      with rule_level_failure [OF assms, of ?s ?k] error show ?thesis by simp
    qed
  qed
qed

section \<open>Concrete records\<close>

theorem max_importance_is_maximum_witness:
  "isOk (max_importance ''debug'' [''routine'', ''critical'', ''notable'']) \<and>
   max_importance ''debug'' [''routine'', ''critical'', ''notable''] = Inr ''critical''"
proof -
  have d: "''debug'' \<in> set importance_levels" by code_simp
  have "rank_of ` insert ''debug'' (set [''routine'', ''critical'', ''notable'']) = {0, 1, 2, 4}" by auto
  with max_importance_is_maximum [OF d, of "[''routine'', ''critical'', ''notable'']" "''critical''"] show ?thesis
    by (simp add: importance_level_iff)
qed

definition ex_failed_heartbeat :: jobj where
  "ex_failed_heartbeat = [(''source'', JStr ''hyper-agent''), (''event_kind'', JStr ''heartbeat''), (''outcome'', JStr ''failed'')]"

theorem failures_below_warning_witness:
  "rank_of (record_importance ex_failed_heartbeat) < rank_of ''warning'' \<and> record_importance ex_failed_heartbeat = ''routine''"
proof -
  have o: "text_field ex_failed_heartbeat ''outcome'' \<in> set failure_outcomes \<union> set degraded_outcomes" by code_simp
  have "record_importance ex_failed_heartbeat = ''routine''" by code_simp
  moreover have "quiet_failure (text_field ex_failed_heartbeat ''source'') (text_field ex_failed_heartbeat ''event_kind'')
      (text_field ex_failed_heartbeat ''outcome'')"
    "text_field (details_of ex_failed_heartbeat) ''error_type'' \<noteq> ''StructuredOutputRetriesExhausted''" by code_simp+
  ultimately show ?thesis using failures_below_warning [OF o] by simp
qed

end
