(* ===== verification/Float_Rounding.thy ===== *)
theory Float_Rounding
  imports Py_Float
begin

text \<open>
  Arithmetic of binary64 floats as rationals that are rounded to the nearest float, ties to even, and the format
  \<open>g\<close> of Python's formatted strings. The sign of zero is not represented. Rounding changes a positive number by at most
  its one part in two to the power of 53.
\<close>

section \<open>Floats\<close>

definition power2 :: "int \<Rightarrow> rat" where
  "power2 e = (if 0 \<le> e then 2 ^ nat e else 1 / 2 ^ nat (- e))"

definition round_half_even :: "rat \<Rightarrow> int" where
  "round_half_even q = (let n = \<lfloor>q\<rfloor>; r = q - of_int n in if 1 / 2 < r \<or> r = 1 / 2 \<and> odd n then n + 1 else n)"

text \<open>The exponent of a positive rational: \<open>2\<^sup>e \<le> q < 2\<^sup>e\<^sup>+\<^sup>1\<close>.\<close>

definition float_exponent :: "rat \<Rightarrow> int" where
  "float_exponent q = (let (a, b) = quotient_of q; k = int (bit_length (nat a)) - int (bit_length (nat b))
     in if power2 k \<le> q then k else k - 1)"

definition float_round :: "rat \<Rightarrow> pyfloat" where
  "float_round q = (if q = 0 then Fin 0 else
     (let u = power2 (max (float_exponent \<bar>q\<bar> - 52) (- 1074)); m = of_int (round_half_even (\<bar>q\<bar> / u)) * u
      in if 2 ^ 1024 \<le> m then (if q < 0 then NegInf else PosInf) else Fin (if q < 0 then - m else m)))"

text \<open>\<open>x <= y\<close> on floats, for a finite \<open>x\<close>.\<close>

fun float_at_most :: "rat \<Rightarrow> pyfloat \<Rightarrow> bool" where
  "float_at_most q (Fin x) \<longleftrightarrow> q \<le> x"
| "float_at_most q PosInf \<longleftrightarrow> True"
| "float_at_most q _ \<longleftrightarrow> False"

text \<open>\<open>x - y\<close> for a finite \<open>x\<close>.\<close>

fun float_minus :: "rat \<Rightarrow> pyfloat \<Rightarrow> pyfloat" where
  "float_minus x (Fin y) = float_round (x - y)"
| "float_minus x PosInf = NegInf"
| "float_minus x NegInf = PosInf"
| "float_minus x NaN = NaN"

text \<open>\<open>x / y\<close> for a finite positive \<open>y\<close>.\<close>

fun float_over :: "pyfloat \<Rightarrow> rat \<Rightarrow> pyfloat" where
  "float_over (Fin x) y = float_round (x / y)"
| "float_over x y = x"

text \<open>\<open>math.ceil\<close>.\<close>

fun float_ceil :: "pyfloat \<Rightarrow> int result" where
  "float_ceil (Fin q) = Inr \<lceil>q\<rceil>"
| "float_ceil NaN = Inl (ValueError BadNumber)"
| "float_ceil _ = Inl OverflowError"

section \<open>The format g\<close>

text \<open>\<open>f"{x:g}"\<close> for a float that is not negative: six significant digits without trailing zeros, with an exponent below
  \<open>-4\<close> or from \<open>6\<close> on. The decimal exponent of a positive float is at least \<open>-324\<close>.\<close>

definition power10 :: "int \<Rightarrow> rat" where
  "power10 e = (if 0 \<le> e then 10 ^ nat e else 1 / 10 ^ nat (- e))"

fun leading_zeros :: "nat \<Rightarrow> rat \<Rightarrow> nat" where
  "leading_zeros 0 q = 0"
| "leading_zeros (Suc n) q = (if 1 \<le> q then 0 else Suc (leading_zeros n (10 * q)))"

definition decimal_exponent :: "rat \<Rightarrow> int" where
  "decimal_exponent q = (if 1 \<le> q then int (length (show_nat (nat \<lfloor>q\<rfloor>))) - 1 else - int (leading_zeros 324 q))"

definition strip_zeros :: "string \<Rightarrow> string" where
  "strip_zeros s = rev (dropWhile (\<lambda>c. c = CHR ''0'') (rev s))"

definition with_point :: "string \<Rightarrow> string \<Rightarrow> string" where
  "with_point whole fraction = (let f = strip_zeros fraction in if f = [] then whole else whole @ ''.'' @ f)"

definition show_exponent :: "int \<Rightarrow> string" where
  "show_exponent e = (if e < 0 then ''e-'' else ''e+'') @ (if \<bar>e\<bar> < 10 then ''0'' else []) @ show_nat (nat \<bar>e\<bar>)"

definition show_g :: "rat \<Rightarrow> string" where
  "show_g q = (if q = 0 then ''0'' else
     (let d = decimal_exponent q; n = round_half_even (q / power10 (d - 5));
          e = (if n = 10 ^ 6 then d + 1 else d); digits = (if n = 10 ^ 6 then ''100000'' else show_nat (nat n))
      in if e < - 4 \<or> 6 \<le> e then with_point (take 1 digits) (drop 1 digits) @ show_exponent e
         else if 0 \<le> e then with_point (take (nat e + 1) digits) (drop (nat e + 1) digits)
         else with_point ''0'' (replicate (nat (- e) - 1) CHR ''0'' @ digits)))"

section \<open>The error of rounding\<close>

lemma bit_length_gt: "n < 2 ^ bit_length n"
proof (induction n rule: bit_length.induct)
  case (1 n)
  then show ?case by (cases "n = 0") (auto simp: bit_length.simps [of n])
qed

lemma bit_length_pos: "0 < n \<Longrightarrow> 2 ^ bit_length n \<le> 2 * n"
proof (induction n rule: bit_length.induct)
  case (1 n)
  show ?case
  proof (cases "n < 2")
    case True
    with 1(2) have "n = 1" by simp
    then show ?thesis by (simp add: bit_length.simps)
  next
    case False
    with 1 have "2 ^ bit_length (n div 2) \<le> 2 * (n div 2)" by simp
    with False show ?thesis by (simp add: bit_length.simps [of n])
  qed
qed

lemma power2_add_one: "power2 (k - 1) = power2 k / 2"
proof (cases "0 < k")
  case True
  then obtain m where "k = int m" "0 < m" by (rule pos_int_cases)
  then obtain n where k: "k = int (Suc n)" by (cases m) auto
  then have "nat (k - 1) = n" "nat k = Suc n" "0 \<le> k - 1" "0 \<le> k" by auto
  then show ?thesis by (simp add: power2_def)
next
  case False
  then obtain n where "k = - int n" by (metis linorder_not_less nonpos_int_cases)
  then have "nat (- (k - 1)) = Suc n" "nat (- k) = n" "\<not> 0 \<le> k - 1" "0 \<le> k \<Longrightarrow> n = 0" by auto
  then show ?thesis by (auto simp: power2_def)
qed

lemma power2_pos [simp]: "0 < power2 k"
  by (simp add: power2_def)

lemma power2_diff: "power2 (int m - int n) = 2 ^ m / 2 ^ n"
proof (cases "n \<le> m")
  case True
  then have "nat (int m - int n) = m - n" by simp
  with True show ?thesis by (simp add: power2_def power_diff)
next
  case False
  then have "nat (int n - int m) = n - m" by simp
  with False show ?thesis by (simp add: power2_def power_diff)
qed

lemma float_exponent_le:
  assumes "0 < q"
  shows "power2 (float_exponent q) \<le> q"
proof -
  obtain a b where ab: "quotient_of q = (a, b)" by (cases "quotient_of q")
  then have b: "0 < b" and q: "q = of_int a / of_int b" by (auto dest: quotient_of_denom_pos quotient_of_div)
  with assms have a: "0 < a" by (simp add: zero_less_divide_iff)
  let ?m = "bit_length (nat a)" and ?n = "bit_length (nat b)"
  have "power2 (int ?m - int ?n - 1) \<le> q"
  proof -
    have "2 ^ ?m \<le> 2 * nat a" using a by (intro bit_length_pos) simp
    then have "rat_of_nat (2 ^ ?m) \<le> rat_of_nat (2 * nat a)" by (simp only: of_nat_le_iff)
    then have A: "(2::rat) ^ ?m \<le> 2 * of_int a" using a by simp
    have "nat b < 2 ^ ?n" by (rule bit_length_gt)
    then have "rat_of_nat (nat b) < rat_of_nat (2 ^ ?n)" by (simp only: of_nat_less_iff)
    then have B: "of_int b \<le> (2::rat) ^ ?n" using b by simp
    have "2 ^ ?m / 2 ^ ?n / 2 \<le> of_int a / (of_int b :: rat)"
    proof -
      have "2 ^ ?m / 2 ^ ?n / 2 \<le> (of_int a :: rat) / 2 ^ ?n" using A by (simp add: field_simps)
      also have "\<dots> \<le> of_int a / of_int b" using a b B by (intro divide_left_mono) auto
      finally show ?thesis .
    qed
    then show ?thesis by (simp add: q power2_add_one power2_diff)
  qed
  then show ?thesis by (simp add: float_exponent_def ab Let_def)
qed

lemma round_half_even_near: "\<bar>of_int (round_half_even q) - q\<bar> \<le> 1 / 2"
proof -
  have "of_int \<lfloor>q\<rfloor> \<le> q" "q < of_int \<lfloor>q\<rfloor> + 1" by linarith+
  then show ?thesis by (auto simp: round_half_even_def Let_def)
qed

lemma power2_split: "power2 (k - 52) = power2 k / 2 ^ 52"
proof -
  have "power2 (k - int n) = power2 k / 2 ^ n" for n
  proof (induction n)
    case (Suc n)
    have "k - int (Suc n) = k - int n - 1" by simp
    then show ?case using Suc by (simp only: power2_add_one) simp
  qed simp
  from this [of 52] show ?thesis by simp
qed

lemma float_round_near:
  assumes "0 < q" and "q \<le> 2 ^ 100"
  shows "\<exists>x. float_round q = Fin x \<and> \<bar>x - q\<bar> \<le> q / 2 ^ 53 + 1 / 2 ^ 100"
proof -
  let ?u = "power2 (max (float_exponent q - 52) (- 1074))"
  let ?m = "of_int (round_half_even (q / ?u)) * ?u"
  have u: "0 < ?u" by simp
  have le: "?u \<le> q / 2 ^ 52 + 1 / 2 ^ 100"
  proof (cases "float_exponent q - 52 \<le> - 1074")
    case True
    have "(1::rat) / 2 ^ 1074 \<le> 1 / 2 ^ 100" by (intro divide_left_mono power_increasing) auto
    with True assms(1) show ?thesis by (simp add: max_def power2_def)
  next
    case False
    then have "?u = power2 (float_exponent q) / 2 ^ 52" by (simp add: max_def power2_split)
    with float_exponent_le [OF assms(1)] show ?thesis by simp
  qed
  have "?m - q = (of_int (round_half_even (q / ?u)) - q / ?u) * ?u"
    using less_imp_neq [OF u] by (simp add: left_diff_distrib)
  then have "\<bar>?m - q\<bar> = \<bar>of_int (round_half_even (q / ?u)) - q / ?u\<bar> * ?u"
    using u by (simp only: abs_mult abs_of_pos)
  also have "\<dots> \<le> 1 / 2 * ?u" by (rule mult_right_mono [OF round_half_even_near less_imp_le [OF u]])
  finally have near: "\<bar>?m - q\<bar> \<le> q / 2 ^ 53 + 1 / 2 ^ 100" using le by simp
  then have "?m \<le> q + q / 2 ^ 53 + 1 / 2 ^ 100" by linarith
  also have "\<dots> < 2 ^ 102" using assms by simp
  also have "(2::rat) ^ 102 \<le> 2 ^ 1024" by (intro power_increasing) auto
  finally have "\<not> 2 ^ 1024 \<le> ?m" by simp
  with near assms(1) show ?thesis by (simp add: float_round_def Let_def)
qed

end
