(* ===== verification/Maneuver_Wakeups.thy ===== *)
theory Maneuver_Wakeups
  imports Float_Rounding Importance Transition_Intents
begin

text \<open>
  When Maneuver Control is woken, \<open>src/onr/application/maneuver_wakeups.py\<close>: a deadline that is reached and evidence
  that changed each wake the agent once in every context, which is the active state with its revisions and the
  selected intent.
\<close>

section \<open>Operators on frozen values\<close>

fun jhashable :: "json \<Rightarrow> bool" where
  "jhashable (JObj kvs) = False"
| "jhashable (JArr js) = list_all jhashable js"
| "jhashable j = True"

text \<open>\<open>x in container\<close>.\<close>

fun py_in :: "json \<Rightarrow> json \<Rightarrow> bool result" where
  "py_in x (JArr js) = Inr (\<exists>y \<in> set js. json_eq y x)"
| "py_in x (JObj kvs) = (if jhashable x then Inr (\<exists>kv \<in> set kvs. x = JStr (fst kv)) else Inl (TypeError BadType))"
| "py_in (JStr x) (JStr s) = Inr (contains x s)"
| "py_in x _ = Inl (TypeError BadType)"

text \<open>\<open>for x in value\<close>.\<close>

fun json_iter :: "json \<Rightarrow> json list result" where
  "json_iter (JArr js) = Inr js"
| "json_iter (JObj kvs) = Inr (map (\<lambda>kv. JStr (fst kv)) kvs)"
| "json_iter (JStr s) = Inr (map (\<lambda>c. JStr [c]) s)"
| "json_iter _ = Inl (TypeError BadType)"

abbreviation jget :: "jobj \<Rightarrow> string \<Rightarrow> json" where
  "jget o' k \<equiv> getd o' k JNull"

section \<open>The class ManeuverWakeups\<close>

fun object_of :: "json \<Rightarrow> jobj" where
  "object_of (JObj o') = o'"
| "object_of _ = []"

fun seconds_of :: "pyval \<Rightarrow> rat option result" where
  "seconds_of (PInt i) = bindE (float_of_int i) (\<lambda>q. Inr (if 0 \<le> i then Some q else None))"
| "seconds_of (PFloat (Fin q)) = Inr (if 0 \<le> q then Some q else None)"
| "seconds_of _ = Inr None"

definition wake_seconds :: "pyval \<Rightarrow> rat option result" where
  "wake_seconds value = seconds_of (case as_mapping value of Some kvs \<Rightarrow> item kvs ''seconds'' | None \<Rightarrow> value)"

text \<open>The values of \<open>_signals\<close>: a frozenset, a bool, a tuple.\<close>

datatype wake_signal = Report_Ids "json list" | Visible bool | Fix_Times "json list"

fun signal_eq :: "wake_signal \<Rightarrow> wake_signal \<Rightarrow> bool" where
  "signal_eq (Report_Ids xs) (Report_Ids ys) \<longleftrightarrow>
     (\<forall>x \<in> set xs. \<exists>y \<in> set ys. json_eq x y) \<and> (\<forall>y \<in> set ys. \<exists>x \<in> set xs. json_eq y x)"
| "signal_eq (Visible a) (Visible b) \<longleftrightarrow> a = b"
| "signal_eq (Fix_Times xs) (Fix_Times ys) \<longleftrightarrow> json_eq_list xs ys"
| "signal_eq _ _ \<longleftrightarrow> False"

type_synonym wake_context = "int \<times> int \<times> int \<times> string \<times> string option"

record maneuver_wakeups =
  mw_context :: "wake_context option"
  mw_fired :: "(string \<times> rat) set"
  mw_signals :: "(string \<times> wake_signal) list"

definition maneuver_wakeups_init :: maneuver_wakeups where
  "maneuver_wakeups_init = \<lparr>mw_context = None, mw_fired = {}, mw_signals = []\<rparr>"

text \<open>What \<open>due\<close> returns, before it is a text.\<close>

datatype wake_trigger = Deadline "string \<times> rat" | Evidence string

fun trigger_text :: "wake_trigger \<Rightarrow> string" where
  "trigger_text (Deadline d) = ''deadline:'' @ fst d @ '':'' @ show_g (snd d)"
| "trigger_text (Evidence label) = ''evidence:'' @ label"

type_synonym 'a wake = "('a, maneuver_wakeups \<times> wake_trigger list) eff"

definition wake_context_of :: "fsm_status \<Rightarrow> transition_intent option \<Rightarrow> wake_context" where
  "wake_context_of status intent = (fs_plan_revision status, fs_statechart_revision status, fs_state_entry_revision status,
     fs_active_state status, map_option ti_intent_id intent)"

definition enter_context :: "wake_context \<Rightarrow> maneuver_wakeups \<Rightarrow> maneuver_wakeups" where
  "enter_context c w = (if mw_context w \<noteq> Some c then \<lparr>mw_context = Some c, mw_fired = {}, mw_signals = []\<rparr> else w)"

text \<open>\<open>due <= now + 1e-9\<close>: the literal is the double nearest to it.\<close>

definition wake_tolerance :: rat where
  "wake_tolerance = 4835703278458517 / 2 ^ 82"

definition reached :: "rat \<Rightarrow> rat \<Rightarrow> bool" where
  "reached now q \<longleftrightarrow> float_at_most q (float_round (now + wake_tolerance))"

definition boundary :: "rat \<Rightarrow> string \<Rightarrow> pyval \<Rightarrow> unit wake" where
  "boundary now label value = bindS (liftE (wake_seconds value)) (\<lambda>due ws.
     case due of None \<Rightarrow> (Inr (), ws)
     | Some q \<Rightarrow>
         if \<not> reached now q \<or> (label, q) \<in> mw_fired (fst ws) then (Inr (), ws)
         else (Inr (), ((fst ws)\<lparr>mw_fired := insert (label, q) (mw_fired (fst ws))\<rparr>, snd ws @ [Deadline (label, q)])))"

definition set_signal :: "string \<Rightarrow> wake_signal \<Rightarrow> unit wake" where
  "set_signal label value ws = (Inr (), ((fst ws)\<lparr>mw_signals := put label value (mw_signals (fst ws))\<rparr>, snd ws))"

definition changed :: "string \<Rightarrow> wake_signal \<Rightarrow> unit wake" where
  "changed label value ws = set_signal label value (fst ws,
     (case map_of (mw_signals (fst ws)) label of
        Some old \<Rightarrow> if signal_eq value old then snd ws else snd ws @ [Evidence label]
      | None \<Rightarrow> snd ws))"

definition float_value :: "rat option \<Rightarrow> pyval" where
  "float_value x = (case x of None \<Rightarrow> PNone | Some q \<Rightarrow> PFloat (Fin q))"

definition intent_deadline :: "rat \<Rightarrow> transition_intent option \<Rightarrow> unit wake" where
  "intent_deadline now intent = (case intent of None \<Rightarrow> returnS ()
     | Some i \<Rightarrow> boundary now ''intent-not-before'' (proxied (jget (object_of (jget (ti_condition i) ''readiness'')) ''not_before'')))"

text \<open>The start of the observation window and its end, where it has them.\<close>

definition observation_window :: "jobj \<Rightarrow> (rat option \<times> pyval) result" where
  "observation_window current =
     (let window = object_of (jget current ''observation_window'')
      in bindE (wake_seconds (proxied (jget window ''start''))) (\<lambda>start0.
         bindE (if start0 = None then wake_seconds (proxied (jget window ''start_s'')) else Inr start0) (\<lambda>start.
         bindE (wake_seconds (proxied (jget window ''end_s''))) (\<lambda>end_s.
         bindE (wake_seconds (proxied (jget window ''duration''))) (\<lambda>duration.
         Inr (start, case (end_s, start, duration) of
           (None, Some b, Some d) \<Rightarrow> PFloat (float_round (b + d))
         | _ \<Rightarrow> float_value end_s))))))"

definition window_deadlines :: "rat \<Rightarrow> jobj \<Rightarrow> unit wake" where
  "window_deadlines now current =
     bindS (liftE (observation_window current)) (\<lambda>(start, end_value).
     bindS (boundary now ''observation-start'' (float_value start)) (\<lambda>_.
     boundary now ''observation-end'' end_value))"

text \<open>\<open>str(identity)\<close>: \<open>P\<close> gives the text of a float, an array or an object.\<close>

definition identity_text :: "(json \<Rightarrow> string) \<Rightarrow> json \<Rightarrow> string" where
  "identity_text P j = (case j of JStr s \<Rightarrow> s | JInt i \<Rightarrow> show_int i | JNull \<Rightarrow> ''None''
     | JBool b \<Rightarrow> (if b then ''True'' else ''False'') | _ \<Rightarrow> P j)"

definition maneuver_label :: "(json \<Rightarrow> string) \<Rightarrow> jobj \<Rightarrow> string" where
  "maneuver_label P lifecycle = ''maneuver:'' @
     identity_text P (getd lifecycle ''command_id'' (getd lifecycle ''maneuver_id'' (JStr ''active'')))"

definition maneuver_deadline :: "(json \<Rightarrow> string) \<Rightarrow> rat \<Rightarrow> jobj \<Rightarrow> unit wake" where
  "maneuver_deadline P now lifecycle = (if jget lifecycle ''lifecycle'' = JStr ''active''
     then boundary now (maneuver_label P lifecycle) (proxied (jget (object_of (jget lifecycle ''parameters'')) ''deadline_time''))
     else returnS ())"

fun is_object :: "json \<Rightarrow> bool" where
  "is_object (JObj o') = True"
| "is_object _ = False"

fun report_ids_of :: "json \<Rightarrow> json list \<Rightarrow> json list result" where
  "report_ids_of ids [] = Inr []"
| "report_ids_of ids (check # checks) =
     (if is_object check
      then bindE (py_in (jget (object_of check) ''report_id'') ids) (\<lambda>b.
        bindE (guardE (b \<longrightarrow> jhashable (jget (object_of check) ''report_id'')) (TypeError BadType)) (\<lambda>_.
        bindE (report_ids_of ids checks) (\<lambda>rs. Inr (if b then jget (object_of check) ''report_id'' # rs else rs))))
      else report_ids_of ids checks)"

definition report_signal :: "jobj \<Rightarrow> jobj \<Rightarrow> unit wake" where
  "report_signal current world =
     bindS (liftE (bindE (json_iter (getd world ''event_report_checks'' (JArr [])))
       (report_ids_of (getd current ''target_report_ids'' (JArr []))))) (\<lambda>ids.
     changed ''target-report-checks'' (Report_Ids ids))"

definition pursued :: "jobj \<Rightarrow> json \<Rightarrow> bool" where
  "pursued lifecycle target \<longleftrightarrow> jget lifecycle ''action'' = JStr ''pursue'' \<and> jget lifecycle ''lifecycle'' = JStr ''active'' \<and>
     json_eq (jget (object_of (jget lifecycle ''parameters'')) ''entity_id'') target"

definition fix_times :: "json \<Rightarrow> json list \<Rightarrow> json list" where
  "fix_times target fixes = map (\<lambda>f. jget (object_of f) ''sampled_at_s'')
     (filter (\<lambda>f. is_object f \<and> json_eq (jget (object_of f) ''entity_id'') target) fixes)"

text \<open>The bound of the search by GPS, anchored to the attempt.\<close>

definition gps_deadline :: "rat \<Rightarrow> bool \<Rightarrow> jobj \<Rightarrow> jobj \<Rightarrow> unit wake" where
  "gps_deadline now needs_recovery lifecycle world =
     bindS (liftE (wake_seconds (proxied (jget lifecycle ''start_time'')))) (\<lambda>attempt.
     bindS (liftE (wake_seconds (proxied (jget world ''gps_interval_seconds'')))) (\<lambda>interval.
     bindS (liftE (wake_seconds (proxied (jget world ''next_gps_update_time_s'')))) (\<lambda>next_gps.
     case (needs_recovery, attempt, interval, next_gps) of
       (True, Some a, Some i, Some n) \<Rightarrow>
         if i = 0 then returnS ()
         else bindS (liftE (float_ceil (float_over (float_round (n - a)) i))) (\<lambda>c.
           bindS (liftE (float_of_int (max 0 (c - 1)))) (\<lambda>cycles.
           boundary now ''acquisition-gps'' (PFloat (float_minus n (float_round (cycles * i))))))
     | _ \<Rightarrow> returnS ())))"

definition pursuit_signals :: "rat \<Rightarrow> jobj \<Rightarrow> jobj \<Rightarrow> jobj \<Rightarrow> json \<Rightarrow> unit wake" where
  "pursuit_signals now current lifecycle world target =
     bindS (liftE (py_in target (getd world ''visible_ship_ids'' (JArr [])))) (\<lambda>visible.
     let pursuit = pursued lifecycle target;
         needs_recovery = pursuit \<and> jget lifecycle ''phase'' = JStr ''search'' \<and> \<not> visible
     in bindS ((if pursuit then set_signal else changed) ''target-visibility'' (Visible visible)) (\<lambda>_.
     bindS (liftE (json_iter (getd world ''public_position_fixes'' (JArr [])))) (\<lambda>fixes.
     bindS ((if pursuit \<and> \<not> needs_recovery then set_signal else changed) ''target-gps'' (Fix_Times (fix_times target fixes))) (\<lambda>_.
     bindS (boundary now ''acquisition-arrival'' (proxied (jget (object_of (jget (object_of (jget current ''desired_outcome''))
       ''acquisition_rendezvous'')) ''arrival_deadline''))) (\<lambda>_.
     gps_deadline now needs_recovery lifecycle world)))))"

definition evidence_triggers :: "rat \<Rightarrow> jobj \<Rightarrow> jobj \<Rightarrow> jobj \<Rightarrow> unit wake" where
  "evidence_triggers now current lifecycle world =
     (let target = jget current ''target_entity_id''
      in bindS (report_signal current world) (\<lambda>_.
         if jget current ''surveillance_mode'' = JStr ''pursue_ship'' \<and> target \<noteq> JNull
         then pursuit_signals now current lifecycle world target else returnS ()))"

definition due_triggers :: "(json \<Rightarrow> string) \<Rightarrow> fsm_status \<Rightarrow> transition_intent option \<Rightarrow> jobj \<Rightarrow> rat \<Rightarrow> unit wake" where
  "due_triggers P status intent environment now =
     (let current = fs_active_state_context status; lifecycle = object_of (jget environment ''maneuver_lifecycle'');
          world = object_of (jget environment ''world_model_info'')
      in bindS (intent_deadline now intent) (\<lambda>_.
         bindS (window_deadlines now current) (\<lambda>_.
         bindS (maneuver_deadline P now lifecycle) (\<lambda>_.
         evidence_triggers now current lifecycle world))))"

definition due_calls :: "(json \<Rightarrow> string) \<Rightarrow> fsm_status \<Rightarrow> transition_intent option \<Rightarrow> jobj \<Rightarrow> rat \<Rightarrow>
    (wake_trigger list, maneuver_wakeups) eff" where
  "due_calls P status intent environment now w =
     (case due_triggers P status intent environment now (enter_context (wake_context_of status intent) w, []) of
        (Inl e, (w', ts)) \<Rightarrow> (Inl e, w')
      | (Inr _, (w', ts)) \<Rightarrow> (Inr ts, w'))"

definition due :: "(json \<Rightarrow> string) \<Rightarrow> fsm_status \<Rightarrow> transition_intent option \<Rightarrow> jobj \<Rightarrow> rat \<Rightarrow> (string list, maneuver_wakeups) eff" where
  "due P status intent environment now =
     bindS (due_calls P status intent environment now) (\<lambda>ts. returnS (map trigger_text ts))"

section \<open>What a call issues\<close>

fun deadlines :: "wake_trigger list \<Rightarrow> (string \<times> rat) list" where
  "deadlines [] = []"
| "deadlines (Deadline d # ts) = d # deadlines ts"
| "deadlines (Evidence l # ts) = deadlines ts"

lemma deadlines_append [simp]: "deadlines (xs @ ys) = deadlines xs @ deadlines ys"
  by (induction xs rule: deadlines.induct) auto

lemma deadlines_count: "count_list ts (Deadline d) = count_list (deadlines ts) d"
  by (induction ts rule: deadlines.induct) auto

text \<open>A step adds triggers; each deadline among them is reached, was not fired before and is fired now.\<close>

definition issues :: "rat \<Rightarrow> maneuver_wakeups \<times> wake_trigger list \<Rightarrow> maneuver_wakeups \<times> wake_trigger list \<Rightarrow> bool" where
  "issues now s s' \<longleftrightarrow> (\<exists>new. snd s' = snd s @ new \<and> mw_context (fst s') = mw_context (fst s) \<and>
     mw_fired (fst s') = mw_fired (fst s) \<union> set (deadlines new) \<and> distinct (deadlines new) \<and>
     set (deadlines new) \<inter> mw_fired (fst s) = {} \<and> (\<forall>d \<in> set (deadlines new). reached now (snd d)))"

lemma issues_refl [simp]: "issues now s s"
  by (auto simp: issues_def intro: exI [of _ "[]"])

lemma issues_trans: "issues now s s' \<Longrightarrow> issues now s' s'' \<Longrightarrow> issues now s s''"
proof -
  assume "issues now s s'" and "issues now s' s''"
  then obtain xs ys where "snd s' = snd s @ xs" "mw_context (fst s') = mw_context (fst s)"
      "mw_fired (fst s') = mw_fired (fst s) \<union> set (deadlines xs)" "distinct (deadlines xs)" "set (deadlines xs) \<inter> mw_fired (fst s) = {}"
      "\<forall>d \<in> set (deadlines xs). reached now (snd d)"
    and "snd s'' = snd s' @ ys" "mw_context (fst s'') = mw_context (fst s')"
      "mw_fired (fst s'') = mw_fired (fst s') \<union> set (deadlines ys)" "distinct (deadlines ys)" "set (deadlines ys) \<inter> mw_fired (fst s') = {}"
      "\<forall>d \<in> set (deadlines ys). reached now (snd d)"
    unfolding issues_def by blast
  then show ?thesis unfolding issues_def by (intro exI [of _ "xs @ ys"]) auto
qed

lemma issues_fired: "issues now s s' \<Longrightarrow> d \<in> mw_fired (fst s) \<Longrightarrow> d \<in> mw_fired (fst s')"
  by (auto simp: issues_def)

text \<open>An operation all of whose runs are such steps.\<close>

definition wakes :: "rat \<Rightarrow> 'a wake \<Rightarrow> bool" where
  "wakes now m \<longleftrightarrow> (\<forall>s. issues now s (snd (m s)))"

named_theorems wake_intros \<open>operations that issue triggers\<close>

lemma wakes_bindS [wake_intros]: "wakes now m \<Longrightarrow> (\<And>x. wakes now (f x)) \<Longrightarrow> wakes now (bindS m f)"
proof -
  assume m: "wakes now m" and f: "\<And>x. wakes now (f x)"
  have "issues now s (snd (bindS m f s))" for s
  proof (cases "fst (m s)")
    case (Inl e)
    then have "snd (bindS m f s) = snd (m s)" by (simp add: bindS_cases)
    with m show ?thesis unfolding wakes_def by metis
  next
    case (Inr x)
    have "issues now s (snd (m s))" "issues now (snd (m s)) (snd (f x (snd (m s))))" using m f [of x] unfolding wakes_def by blast+
    then show ?thesis by (simp add: bindS_cases Inr) (rule issues_trans)
  qed
  then show ?thesis by (simp add: wakes_def)
qed

lemma wakes_returnS [wake_intros]: "wakes now (returnS x)"
  by (simp add: wakes_def)

lemma wakes_liftE [wake_intros]: "wakes now (liftE x)"
  by (simp add: wakes_def)

lemma wakes_set_signal [wake_intros]: "wakes now (set_signal l v)"
  by (auto simp: wakes_def set_signal_def issues_def intro: exI [of _ "[]"])

lemma wakes_changed [wake_intros]: "wakes now (changed l v)"
  by (auto simp: wakes_def changed_def set_signal_def issues_def split: option.split intro: exI [of _ "[]"] exI [of _ "[Evidence l]"])

lemma wakes_boundary [wake_intros]: "wakes now (boundary now l v)"
proof -
  have "issues now s (snd (boundary now l v s))" for s
    by (cases "wake_seconds v") (auto simp: boundary_def issues_def split: option.split intro: exI [of _ "[]"])
  then show ?thesis by (simp add: wakes_def)
qed

lemma wakes_steps:
  "wakes now (intent_deadline now intent)" "wakes now (window_deadlines now current)" "wakes now (maneuver_deadline P now lifecycle)"
  "wakes now (report_signal current world)" "wakes now (gps_deadline now b lifecycle world)"
  unfolding intent_deadline_def window_deadlines_def maneuver_deadline_def report_signal_def gps_deadline_def
  by (auto intro!: wake_intros split: option.split bool.split)

lemma wakes_pursuit: "wakes now (pursuit_signals now current lifecycle world target)"
  unfolding pursuit_signals_def Let_def by (auto intro!: wake_intros wakes_steps)

lemma wakes_evidence: "wakes now (evidence_triggers now current lifecycle world)"
  unfolding evidence_triggers_def Let_def by (auto intro!: wake_intros wakes_steps wakes_pursuit)

lemma wakes_due: "wakes now (due_triggers P status intent environment now)"
  unfolding due_triggers_def Let_def by (intro wake_intros wakes_steps wakes_evidence)

section \<open>Declared deadlines\<close>

text \<open>The deadlines that the inputs of a call declare: of the intent, of the observation window, of the active maneuver.\<close>

definition timed :: "string \<Rightarrow> pyval \<Rightarrow> (string \<times> rat) list" where
  "timed label value = (case wake_seconds value of Inr (Some q) \<Rightarrow> [(label, q)] | _ \<Rightarrow> [])"

definition declared :: "(json \<Rightarrow> string) \<Rightarrow> fsm_status \<Rightarrow> transition_intent option \<Rightarrow> jobj \<Rightarrow> (string \<times> rat) list" where
  "declared P status intent environment =
     (let lifecycle = object_of (jget environment ''maneuver_lifecycle'')
      in (case intent of None \<Rightarrow> []
          | Some i \<Rightarrow> timed ''intent-not-before'' (proxied (jget (object_of (jget (ti_condition i) ''readiness'')) ''not_before''))) @
         (case observation_window (fs_active_state_context status) of Inl e \<Rightarrow> []
          | Inr (start, end_value) \<Rightarrow> timed ''observation-start'' (float_value start) @ timed ''observation-end'' end_value) @
         (if jget lifecycle ''lifecycle'' = JStr ''active''
          then timed (maneuver_label P lifecycle) (proxied (jget (object_of (jget lifecycle ''parameters'')) ''deadline_time''))
          else []))"

lemma boundary_fires:
  assumes "boundary now l v s = (Inr (), s')" and "d \<in> set (timed l v)" and "reached now (snd d)"
  shows "d \<in> mw_fired (fst s')"
  using assms by (auto simp: boundary_def timed_def split: sum.splits option.splits if_splits)

lemma wakes_fired: "wakes now m \<Longrightarrow> m s = (x, s') \<Longrightarrow> d \<in> mw_fired (fst s) \<Longrightarrow> d \<in> mw_fired (fst s')"
  unfolding wakes_def by (metis issues_fired snd_conv)

lemma declared_fires:
  assumes ok: "due_triggers P status intent environment now s = (Inr (), s')"
    and d: "d \<in> set (declared P status intent environment)" and r: "reached now (snd d)"
  shows "d \<in> mw_fired (fst s')"
proof -
  let ?cur = "fs_active_state_context status" and ?life = "object_of (jget environment ''maneuver_lifecycle'')"
  from ok obtain s1 s2 s3 where 1: "intent_deadline now intent s = (Inr (), s1)"
    and 2: "window_deadlines now ?cur s1 = (Inr (), s2)" and 3: "maneuver_deadline P now ?life s2 = (Inr (), s3)"
    and 4: "evidence_triggers now ?cur ?life (object_of (jget environment ''world_model_info'')) s3 = (Inr (), s')"
    unfolding due_triggers_def Let_def bindS_eq_Inr by auto
  have later: "x \<in> mw_fired (fst s3) \<Longrightarrow> x \<in> mw_fired (fst s')" for x by (rule wakes_fired [OF wakes_evidence 4])
  have later2: "x \<in> mw_fired (fst s2) \<Longrightarrow> x \<in> mw_fired (fst s')" for x by (intro later wakes_fired [OF wakes_steps(3) 3])
  have later1: "x \<in> mw_fired (fst s1) \<Longrightarrow> x \<in> mw_fired (fst s')" for x by (intro later2 wakes_fired [OF wakes_steps(2) 2])
  from 2 obtain start e u where o: "observation_window ?cur = Inr (start, e)" "boundary now ''observation-start'' (float_value start) s1 = (Inr (), u)"
    "boundary now ''observation-end'' e u = (Inr (), s2)"
    by (auto simp: window_deadlines_def bindS_eq_Inr split: sum.splits)
  from d consider (intent) i where "intent = Some i"
      "d \<in> set (timed ''intent-not-before'' (proxied (jget (object_of (jget (ti_condition i) ''readiness'')) ''not_before'')))"
    | (start) "d \<in> set (timed ''observation-start'' (float_value start))"
    | (stop) "d \<in> set (timed ''observation-end'' e)"
    | (maneuver) "jget ?life ''lifecycle'' = JStr ''active''"
      "d \<in> set (timed (maneuver_label P ?life) (proxied (jget (object_of (jget ?life ''parameters'')) ''deadline_time'')))"
    unfolding declared_def Let_def by (auto simp: o(1) split: option.splits if_splits)
  then show ?thesis
  proof cases
    case intent
    with 1 have "d \<in> mw_fired (fst s1)" by (intro boundary_fires) (auto simp: intent_deadline_def assms(3))
    then show ?thesis by (rule later1)
  next
    case start
    then have "d \<in> mw_fired (fst u)" by (intro boundary_fires [OF o(2)] assms(3))
    then show ?thesis by (intro later2 wakes_fired [OF wakes_boundary o(3)])
  next
    case stop
    then show ?thesis by (intro later2 boundary_fires [OF o(3)] assms(3))
  next
    case maneuver
    with 3 show ?thesis by (intro later boundary_fires [OF _ _ assms(3)]) (auto simp: maneuver_deadline_def)
  qed
qed

section \<open>Runs\<close>

type_synonym wake_call = "fsm_status \<times> transition_intent option \<times> jobj \<times> rat"

fun due_run :: "(json \<Rightarrow> string) \<Rightarrow> wake_call list \<Rightarrow> (wake_trigger list list, maneuver_wakeups) eff" where
  "due_run P [] = returnS []"
| "due_run P ((status, intent, environment, now) # calls) =
     bindS (due_calls P status intent environment now) (\<lambda>ts. bindS (due_run P calls) (\<lambda>tss. returnS (ts # tss)))"

definition call_context :: "wake_call \<Rightarrow> wake_context" where
  "call_context = (\<lambda>(status, intent, environment, now). wake_context_of status intent)"

definition call_time :: "wake_call \<Rightarrow> rat" where
  "call_time = (\<lambda>(status, intent, environment, now). now)"

definition call_declared :: "(json \<Rightarrow> string) \<Rightarrow> wake_call \<Rightarrow> (string \<times> rat) list" where
  "call_declared P = (\<lambda>(status, intent, environment, now). declared P status intent environment)"

lemma enter_context_enter [simp]: "enter_context c (enter_context c w) = enter_context c w"
  by (simp add: enter_context_def)

lemma enter_context_context [simp]: "mw_context (enter_context c w) = Some c"
  by (simp add: enter_context_def)

lemma enter_context_same: "mw_context w = Some c \<Longrightarrow> enter_context c w = w"
  by (simp add: enter_context_def)

lemma due_calls_Inr:
  assumes "due_calls P status intent environment now w = (Inr ts, w')"
  shows "issues now (enter_context (wake_context_of status intent) w, []) (w', ts)"
    and "d \<in> set (declared P status intent environment) \<Longrightarrow> reached now (snd d) \<Longrightarrow> d \<in> mw_fired w'"
proof -
  let ?s = "(enter_context (wake_context_of status intent) w, [])"
  from assms have r: "due_triggers P status intent environment now ?s = (Inr (), (w', ts))"
    unfolding due_calls_def by (auto split: prod.splits sum.splits)
  with wakes_due [of now P status intent environment] show "issues now ?s (w', ts)"
    unfolding wakes_def by (metis snd_conv)
  show "d \<in> mw_fired w'" if "d \<in> set (declared P status intent environment)" "reached now (snd d)"
    using declared_fires [OF r that] by simp
qed

lemma due_run_fired:
  assumes "due_run P calls w = (Inr outs, w')" and "\<forall>call \<in> set calls. call_context call = c" and "mw_context w = Some c"
  shows "mw_fired w' = mw_fired w \<union> set (deadlines (concat outs)) \<and> distinct (deadlines (concat outs)) \<and>
    set (deadlines (concat outs)) \<inter> mw_fired w = {} \<and>
    list_all2 (\<lambda>call ts. \<forall>d \<in> set (deadlines ts). reached (call_time call) (snd d)) calls outs \<and>
    (\<forall>call \<in> set calls. \<forall>d \<in> set (call_declared P call). reached (call_time call) (snd d) \<longrightarrow> d \<in> mw_fired w')"
  using assms
proof (induction calls arbitrary: w outs)
  case (Cons call calls)
  obtain status intent environment now where call: "call = (status, intent, environment, now)" by (metis prod_cases4)
  from Cons.prems(1) obtain ts w1 outs1 where 1: "due_calls P status intent environment now w = (Inr ts, w1)"
    and 2: "due_run P calls w1 = (Inr outs1, w')" and o: "outs = ts # outs1"
    by (auto simp: call bindS_eq_Inr)
  from Cons.prems(2,3) have e: "enter_context (wake_context_of status intent) w = w"
    by (intro enter_context_same) (simp add: call call_context_def)
  have i: "issues now (w, []) (w1, ts)" using due_calls_Inr(1) [OF 1] by (simp only: e)
  then have "mw_context w1 = Some c" using Cons.prems(3) by (simp add: issues_def)
  note ih = Cons.IH [OF 2 _ this]
  have "\<forall>d \<in> set (declared P status intent environment). reached now (snd d) \<longrightarrow> d \<in> mw_fired w1"
    using due_calls_Inr(2) [OF 1] by blast
  with i ih Cons.prems(2) show ?case by (auto simp: o call call_time_def call_declared_def issues_def)
qed auto

section \<open>Calls that change nothing\<close>

text \<open>A step that lets no deadline go and sets signals of \<open>A\<close> only.\<close>

definition kept :: "string set \<Rightarrow> maneuver_wakeups \<times> wake_trigger list \<Rightarrow> maneuver_wakeups \<times> wake_trigger list \<Rightarrow> bool" where
  "kept A s s' \<longleftrightarrow> mw_fired (fst s) \<subseteq> mw_fired (fst s') \<and>
     (\<forall>l. l \<notin> A \<longrightarrow> map_of (mw_signals (fst s')) l = map_of (mw_signals (fst s)) l) \<and>
     (distinct (map fst (mw_signals (fst s))) \<longrightarrow> distinct (map fst (mw_signals (fst s'))))"

text \<open>A later state in which the deadlines of \<open>s\<close> have fired and the signals of \<open>A\<close> have the values of \<open>s\<close>.\<close>

definition settled :: "string set \<Rightarrow> maneuver_wakeups \<times> wake_trigger list \<Rightarrow> maneuver_wakeups \<Rightarrow> bool" where
  "settled A s w \<longleftrightarrow> mw_fired (fst s) \<subseteq> mw_fired w \<and> distinct (map fst (mw_signals w)) \<and>
     (\<forall>l \<in> A. map_of (mw_signals w) l = map_of (mw_signals (fst s)) l)"

text \<open>An operation that issues nothing and changes nothing when it is repeated in such a state.\<close>

definition again :: "string set \<Rightarrow> 'a wake \<Rightarrow> bool" where
  "again A m \<longleftrightarrow> (\<forall>s x s1. m s = (Inr x, s1) \<longrightarrow> kept A s s1 \<and> (\<forall>w ts. settled A s1 w \<longrightarrow> m (w, ts) = (Inr x, (w, ts))))"

lemma kept_trans: "kept A s s1 \<Longrightarrow> kept B s1 s2 \<Longrightarrow> kept (A \<union> B) s s2"
  by (auto simp: kept_def)

lemma settled_earlier: "kept B s1 s2 \<Longrightarrow> A \<inter> B = {} \<Longrightarrow> settled (A \<union> B) s2 w \<Longrightarrow> settled A s1 w"
  unfolding kept_def settled_def by fastforce

lemma settled_mono: "settled B s w \<Longrightarrow> A \<subseteq> B \<Longrightarrow> settled A s w"
  by (auto simp: settled_def)

lemma kept_mono: "kept A s s1 \<Longrightarrow> A \<subseteq> B \<Longrightarrow> kept B s s1"
  by (auto simp: kept_def)

lemma again_bindS:
  assumes m: "again A m" and f: "\<And>x. again B (f x)" and d: "A \<inter> B = {}"
  shows "again (A \<union> B) (bindS m f)"
  unfolding again_def
proof (intro allI impI)
  fix s y s2
  assume "bindS m f s = (Inr y, s2)"
  then obtain x s1 where 1: "m s = (Inr x, s1)" and 2: "f x s1 = (Inr y, s2)" by (auto simp: bindS_eq_Inr)
  note a = m [unfolded again_def, rule_format, OF 1] and b = f [unfolded again_def, rule_format, OF 2]
  have "bindS m f (w, ts) = (Inr y, (w, ts))" if w: "settled (A \<union> B) s2 w" for w ts
  proof -
    have "m (w, ts) = (Inr x, (w, ts))" using a settled_earlier [OF _ d w] b by blast
    moreover have "f x (w, ts) = (Inr y, (w, ts))" using b settled_mono [OF w, of B] by blast
    ultimately show ?thesis by (simp add: bindS_def)
  qed
  moreover have "kept (A \<union> B) s s2" using a b kept_trans by blast
  ultimately show "kept (A \<union> B) s s2 \<and> (\<forall>w ts. settled (A \<union> B) s2 w \<longrightarrow> bindS m f (w, ts) = (Inr y, (w, ts)))" by blast
qed

lemma again_mono: "again A m \<Longrightarrow> A \<subseteq> B \<Longrightarrow> again B m"
  unfolding again_def using kept_mono settled_mono by blast

lemma again_liftE: "(\<And>x. r = Inr x \<Longrightarrow> again A (f x)) \<Longrightarrow> again A (bindS (liftE r) f)"
  by (cases r) (simp_all add: again_def)

lemma again_returnS: "again A (returnS x)"
  by (simp add: again_def kept_def)

lemma again_then: "again A m \<Longrightarrow> (\<And>x. again B (f x)) \<Longrightarrow> A \<inter> B = {} \<Longrightarrow> A \<union> B = C \<Longrightarrow> again C (bindS m f)"
  using again_bindS [of A m B f] by auto

lemma again_boundary: "again {} (boundary now l v)"
  by (auto simp: again_def kept_def settled_def boundary_def split: sum.splits option.splits if_splits)

lemma again_set_signal: "again {l} (set_signal l v)"
  by (auto simp: again_def kept_def settled_def set_signal_def put_same)

lemma again_changed: "signal_eq v v \<Longrightarrow> again {l} (changed l v)"
  by (auto simp: again_def kept_def settled_def changed_def set_signal_def put_same)

lemma again_steps:
  "again {} (intent_deadline now intent)" "again {} (window_deadlines now current)" "again {} (maneuver_deadline P now lifecycle)"
  unfolding intent_deadline_def window_deadlines_def maneuver_deadline_def
  by (auto intro!: again_liftE again_boundary again_returnS again_then split: option.split)

lemma again_gps: "again {} (gps_deadline now b lifecycle world)"
  unfolding gps_deadline_def
  by (auto intro!: again_liftE again_boundary again_returnS split: option.split bool.split)

lemma wf_object_of: "wf_json j \<Longrightarrow> wf_obj (object_of j)"
  by (cases j) (auto simp: wf_obj_def)

lemma wf_getd: "wf_obj o' \<Longrightarrow> wf_json d \<Longrightarrow> wf_json (getd o' k d)"
  by (auto simp: wf_obj_def getd_def split: option.split dest!: map_of_SomeD)

lemma wf_iter: "json_iter j = Inr js \<Longrightarrow> wf_json j \<Longrightarrow> x \<in> set js \<Longrightarrow> wf_json x"
  by (cases j) auto

lemma wf_report_ids: "report_ids_of ids checks = Inr rs \<Longrightarrow> \<forall>c \<in> set checks. wf_json c \<Longrightarrow> \<forall>r \<in> set rs. wf_json r"
proof (induction checks arbitrary: rs)
  case (Cons c checks)
  have "wf_json (jget (object_of c) ''report_id'')" using Cons.prems(2) by (intro wf_getd wf_object_of) simp_all
  with Cons show ?case by (auto simp: err_simps split: if_splits)
qed simp

lemma json_eq_list_refl: "\<forall>x \<in> set xs. wf_json x \<Longrightarrow> json_eq_list xs xs"
  by (induction xs) auto

lemma again_report:
  assumes "wf_obj world"
  shows "again {''target-report-checks''} (report_signal current world)"
  unfolding report_signal_def
proof (intro again_liftE again_changed)
  fix ids
  assume "bindE (json_iter (getd world ''event_report_checks'' (JArr []))) (report_ids_of (getd current ''target_report_ids'' (JArr []))) = Inr ids"
  then obtain checks where c: "json_iter (getd world ''event_report_checks'' (JArr [])) = Inr checks"
    "report_ids_of (getd current ''target_report_ids'' (JArr [])) checks = Inr ids" by (auto simp: err_simps)
  have "wf_json (getd world ''event_report_checks'' (JArr []))" by (rule wf_getd [OF assms]) simp
  with wf_iter [OF c(1)] wf_report_ids [OF c(2)] have "\<forall>x \<in> set ids. wf_json x" by blast
  then show "signal_eq (Report_Ids ids) (Report_Ids ids)" unfolding signal_eq.simps by (blast intro: json_eq_refl)
qed

lemma again_pursuit:
  assumes "wf_obj world"
  shows "again {''target-visibility'', ''target-gps''} (pursuit_signals now current lifecycle world target)"
proof -
  have times: "signal_eq (Fix_Times (fix_times target fs)) (Fix_Times (fix_times target fs))"
    if f: "json_iter (getd world ''public_position_fixes'' (JArr [])) = Inr fs" for fs
  proof -
    have "wf_json (getd world ''public_position_fixes'' (JArr []))" by (rule wf_getd [OF assms]) simp
    with wf_iter [OF f] have "\<forall>x \<in> set (fix_times target fs). wf_json x"
      by (auto simp: fix_times_def intro!: wf_getd wf_object_of)
    then show ?thesis by (simp add: json_eq_list_refl)
  qed
  have set_or: "signal_eq v v \<Longrightarrow> again {l} ((if b then set_signal else changed) l v)" for b l v
    by (simp add: again_set_signal again_changed)
  have rest: "again {} (bindS (boundary now ''acquisition-arrival'' v) (\<lambda>_. gps_deadline now b lifecycle world))" for v b
    by (rule again_then [OF again_boundary again_gps]) auto
  show ?thesis
    unfolding pursuit_signals_def Let_def
    by (intro again_liftE again_then [where A = "{''target-visibility''}" and B = "{''target-gps''}"] again_then [where A = "{''target-gps''}" and B = "{}"]
        set_or times rest) auto
qed

lemma again_due:
  assumes "wf_obj environment"
  shows "again {''target-report-checks'', ''target-visibility'', ''target-gps''} (due_triggers P status intent environment now)"
proof -
  let ?A = "{''target-report-checks'', ''target-visibility'', ''target-gps''}"
  have w: "wf_obj (object_of (jget environment ''world_model_info''))" by (intro wf_object_of wf_getd assms) simp
  have e: "again ?A (evidence_triggers now current lifecycle (object_of (jget environment ''world_model_info'')))" for current lifecycle
    unfolding evidence_triggers_def Let_def
    by (rule again_then [where A = "{''target-report-checks''}" and B = "{''target-visibility'', ''target-gps''}"])
      (auto intro: again_report again_pursuit again_returnS w)
  show ?thesis unfolding due_triggers_def Let_def
    by (rule again_then [OF again_steps(1) _ _ Un_empty_left], rule again_then [OF again_steps(2) _ _ Un_empty_left],
        rule again_then [OF again_steps(3) e _ Un_empty_left]) simp_all
qed

section \<open>When a deadline is reached\<close>

text \<open>A deadline is reached from its time on, and at most two nanoseconds before.\<close>

lemma reached_from:
  assumes "0 \<le> now" and "now \<le> 8000000"
  shows "q \<le> now \<Longrightarrow> reached now q" and "reached now q \<Longrightarrow> q \<le> now + 2 / 1000000000"
proof -
  have t: "999 / 1000000000000 \<le> wake_tolerance" "wake_tolerance \<le> 1001 / 1000000000000"
    by (simp_all add: wake_tolerance_def)
  then have "0 < now + wake_tolerance" "now + wake_tolerance \<le> 2 ^ 100" using assms by auto
  from float_round_near [OF this] obtain x where x: "float_round (now + wake_tolerance) = Fin x"
    "\<bar>x - (now + wake_tolerance)\<bar> \<le> (now + wake_tolerance) / 2 ^ 53 + 1 / 2 ^ 100" by blast
  have "now + wake_tolerance \<le> 8000001" using assms t by simp
  then have "(now + wake_tolerance) / 2 ^ 53 \<le> 8000001 / 2 ^ 53" by (rule divide_right_mono) simp
  moreover have "8000001 / 2 ^ 53 + 1 / 2 ^ 100 \<le> (9 / 10000000000 :: rat)" by simp
  ultimately have "(now + wake_tolerance) / 2 ^ 53 + 1 / 2 ^ 100 \<le> 9 / 10000000000" by linarith
  with x(2) have "\<bar>x - (now + wake_tolerance)\<bar> \<le> 9 / 10000000000" by (rule order_trans)
  then have "x - (now + wake_tolerance) \<le> 9 / 10000000000" "- (x - (now + wake_tolerance)) \<le> 9 / 10000000000"
    unfolding abs_le_iff by blast+
  with t have "now \<le> x" "x \<le> now + 2 / 1000000000" by linarith+
  with x(1) show "q \<le> now \<Longrightarrow> reached now q" and "reached now q \<Longrightarrow> q \<le> now + 2 / 1000000000" by (simp_all add: reached_def)
qed

section \<open>Properties\<close>

lemma reached_wakes_once:
  assumes "due_run P calls w = (Inr outs, w')" and "\<forall>call \<in> set calls. call_context call = c" and "mw_context w \<noteq> Some c"
  shows "(\<forall>call \<in> set calls. \<forall>d \<in> set (call_declared P call). reached (call_time call) (snd d) \<longrightarrow> count_list (concat outs) (Deadline d) = 1) \<and>
    (\<forall>d. count_list (concat outs) (Deadline d) \<le> 1) \<and>
    list_all2 (\<lambda>call ts. \<forall>d. Deadline d \<in> set ts \<longrightarrow> reached (call_time call) (snd d)) calls outs"
proof (cases calls)
  case (Cons call rest)
  obtain status intent environment now where call: "call = (status, intent, environment, now)" by (metis prod_cases4)
  with Cons assms(2) have c: "wake_context_of status intent = c" by (simp add: call_context_def)
  have e: "due_calls P status intent environment now w = due_calls P status intent environment now (enter_context c w)"
    by (simp add: due_calls_def c)
  have "due_run P calls (enter_context c w) = (Inr outs, w')"
    using assms(1) unfolding Cons call due_run.simps bindS_cases e .
  note run = due_run_fired [OF this assms(2) enter_context_context]
  have empty: "mw_fired (enter_context c w) = {}" using assms(3) by (simp add: enter_context_def)
  have mem: "Deadline d \<in> set ts \<longleftrightarrow> d \<in> set (deadlines ts)" for d ts by (induction ts rule: deadlines.induct) auto
  have one: "distinct xs \<Longrightarrow> count_list xs x = (if x \<in> set xs then 1 else 0)" for xs and x :: "string \<times> rat"
    by (induction xs) auto
  from run empty show ?thesis unfolding deadlines_count mem by (auto simp: one Ball_def)
qed (use assms in auto)


text \<open>C23: evidence that has not changed does not wake the agent. When a call of \<open>due\<close> has returned, the same call at the same
  time returns no trigger and changes nothing, in every context: each trigger stands for a deadline that fired in the
  call itself or for evidence that differs from that of the call before.\<close>

theorem repeated_call_is_quiet:
  assumes "due P status intent environment now w = (Inr texts, w')" and "wf_obj environment" and "distinct (map fst (mw_signals w))"
  shows "due P status intent environment now w' = (Inr [], w')"
proof -
  let ?c = "wake_context_of status intent"
  from assms(1) obtain ts where "due_triggers P status intent environment now (enter_context ?c w, []) = (Inr (), (w', ts))"
    by (auto simp: due_def due_calls_def bindS_eq_Inr split: prod.splits sum.splits)
  note r = this
  note q = again_due [OF assms(2), unfolded again_def, rule_format, OF r]
  have "distinct (map fst (mw_signals (enter_context ?c w)))" using assms(3) by (simp add: enter_context_def)
  with conjunct1 [OF q] have "settled {''target-report-checks'', ''target-visibility'', ''target-gps''} (w', ts) w'"
    unfolding kept_def settled_def by simp
  with q have "due_triggers P status intent environment now (w', []) = (Inr (), (w', []))" by blast
  moreover have "issues now (enter_context ?c w, []) (w', ts)"
    using wakes_due [of now P status intent environment] unfolding wakes_def by (metis r snd_conv)
  then have "mw_context w' = Some ?c" by (simp add: issues_def)
  then have "enter_context ?c w' = w'" by (rule enter_context_same)
  ultimately have "due_triggers P status intent environment now (enter_context ?c w', []) = (Inr (), (w', []))" by simp
  then show ?thesis by (simp add: due_def due_calls_def bindS_cases)
qed

section \<open>A concrete run\<close>

definition ex_observing :: fsm_status where
  "ex_observing = ex_status\<lparr>fs_active_state_context := [(''observation_window'',
     JObj [(''start_s'', JFloat 12), (''end_s'', JFloat (25 / 2))])]\<rparr>"

definition ex_wake_calls :: "wake_call list" where
  "ex_wake_calls = map (\<lambda>now. (ex_observing, None, [], now)) [0, 12, 25 / 2, 13]"

definition ex_no_text :: "json \<Rightarrow> string" where
  "ex_no_text j = []"

lemma ex_reached: "\<not> reached 0 12" "\<not> reached 0 (25 / 2)" "reached 12 12" "\<not> reached 12 (25 / 2)" "reached (25 / 2) 12"
  "reached (25 / 2) (25 / 2)" "reached 13 12" "reached 13 (25 / 2)"
  using reached_from [of 0] reached_from [of 12] reached_from [of "25 / 2"] reached_from [of 13] by fastforce+

lemma ex_seconds: "wake_seconds (proxied JNull) = Inr None" "wake_seconds (float_value (Some 12)) = Inr (Some 12)"
  "wake_seconds (float_value (Some (25 / 2))) = Inr (Some (25 / 2))"
  by (simp_all add: wake_seconds_def float_value_def)

lemma ex_window: "observation_window (fs_active_state_context ex_observing) = Inr (Some 12, float_value (Some (25 / 2)))"
  by code_simp

lemma ex_steps: "intent_deadline now None = returnS ()"
  "window_deadlines now (fs_active_state_context ex_observing) =
    bindS (boundary now ''observation-start'' (float_value (Some 12))) (\<lambda>_. boundary now ''observation-end'' (float_value (Some (25 / 2))))"
  "maneuver_deadline P now [] = returnS ()"
  "evidence_triggers now (fs_active_state_context ex_observing) [] [] = bindS (changed ''target-report-checks'' (Report_Ids [])) (\<lambda>_. returnS ())"
proof -
  have "jget (fs_active_state_context ex_observing) ''surveillance_mode'' = JNull" by code_simp
  moreover have "report_signal (fs_active_state_context ex_observing) [] = changed ''target-report-checks'' (Report_Ids [])"
    by (simp add: report_signal_def getd_def fun_eq_iff)
  ultimately show "evidence_triggers now (fs_active_state_context ex_observing) [] [] =
      bindS (changed ''target-report-checks'' (Report_Ids [])) (\<lambda>_. returnS ())"
    by (simp only: evidence_triggers_def Let_def) simp
qed (simp_all add: intent_deadline_def window_deadlines_def ex_window maneuver_deadline_def getd_def fun_eq_iff)

text \<open>A call at which the signals are those of the call before, or none.\<close>

definition ex_wake_state :: "(string \<times> rat) set \<Rightarrow> maneuver_wakeups" where
  "ex_wake_state F = \<lparr>mw_context = Some (wake_context_of ex_observing None), mw_fired = F,
     mw_signals = [(''target-report-checks'', Report_Ids [])]\<rparr>"

definition ex_fire :: "rat \<Rightarrow> string \<times> rat \<Rightarrow> (string \<times> rat) set \<Rightarrow> wake_trigger list" where
  "ex_fire now d F = (if \<not> reached now (snd d) \<or> d \<in> F then [] else [Deadline d])"

lemma ex_boundary: "boundary now l (float_value (Some q)) (w, ts) =
    (Inr (), (w\<lparr>mw_fired := mw_fired w \<union> set (deadlines (ex_fire now (l, q) (mw_fired w)))\<rparr>, ts @ ex_fire now (l, q) (mw_fired w)))"
  if "0 \<le> q"
  using that by (simp add: boundary_def ex_fire_def wake_seconds_def float_value_def)

lemma ex_call:
  assumes "w = ex_wake_state F \<or> w = maneuver_wakeups_init \<and> F = {}"
  shows "due_calls ex_no_text ex_observing None [] now w =
    (Inr (ex_fire now (''observation-start'', 12) F @
       ex_fire now (''observation-end'', 25 / 2) (F \<union> set (deadlines (ex_fire now (''observation-start'', 12) F)))),
     ex_wake_state (F \<union> set (deadlines (ex_fire now (''observation-start'', 12) F)) \<union>
       set (deadlines (ex_fire now (''observation-end'', 25 / 2) (F \<union> set (deadlines (ex_fire now (''observation-start'', 12) F)))))))"
  using assms
  by (auto simp: due_calls_def due_triggers_def Let_def getd_def ex_steps ex_boundary bindS_cases changed_def set_signal_def
    ex_wake_state_def maneuver_wakeups_init_def enter_context_def)

lemma ex_wake_run: "fst (due_run ex_no_text ex_wake_calls maneuver_wakeups_init) =
    Inr [[], [Deadline (''observation-start'', 12)], [Deadline (''observation-end'', 25 / 2)], []]"
  by (simp add: ex_wake_calls_def bindS_cases ex_call [of _ "{}"] ex_call [of "ex_wake_state F" F for F] ex_fire_def ex_reached)


theorem repeated_call_is_quiet_witness:
  "due ex_no_text ex_observing None [] 13 (snd (due ex_no_text ex_observing None [] 13 maneuver_wakeups_init)) =
    (Inr [], snd (due ex_no_text ex_observing None [] 13 maneuver_wakeups_init)) \<and>
   fst (due ex_no_text ex_observing None [] 13 maneuver_wakeups_init) =
    Inr (map trigger_text [Deadline (''observation-start'', 12), Deadline (''observation-end'', 25 / 2)])"
proof -
  have f: "fst (due ex_no_text ex_observing None [] 13 maneuver_wakeups_init) =
    Inr (map trigger_text [Deadline (''observation-start'', 12), Deadline (''observation-end'', 25 / 2)])"
    by (simp add: due_def bindS_cases ex_call [of _ "{}"] ex_fire_def ex_reached)
  then have "due ex_no_text ex_observing None [] 13 maneuver_wakeups_init =
      (Inr (map trigger_text [Deadline (''observation-start'', 12), Deadline (''observation-end'', 25 / 2)]), snd (due ex_no_text ex_observing None [] 13 maneuver_wakeups_init))"
    by (metis prod.collapse)
  from repeated_call_is_quiet [OF this] f show ?thesis by (simp add: wf_obj_def maneuver_wakeups_init_def)
qed

end
