(* ===== verification/Hyper_Contracts.thy ===== *)
theory Hyper_Contracts
  imports Mission_Snapshots FSM_Contracts
begin

text \<open>
  The contracts of the Hyper Agent, \<open>src/onr/contracts/hyper_agent.py\<close>: Mission inputs, requests to replan, heartbeat
  invocations and decisions, and questions to a human. A belief snapshot is any value of a type \<open>'b\<close>; of it the
  contracts read the mission identity, the function \<open>B\<close>.
\<close>

section \<open>Values\<close>

text \<open>\<open>x not in {...}\<close> for a set of strings: an unhashable value raises.\<close>

fun py_hashable :: "pyval \<Rightarrow> bool" where
  "py_hashable (PList vs) = False"
| "py_hashable (PDict kvs) = False"
| "py_hashable (PProxy kvs) = False"
| "py_hashable (PTuple vs) = list_all py_hashable vs"
| "py_hashable v = True"

definition member_text :: "string list \<Rightarrow> pyval \<Rightarrow> string result" where
  "member_text xs v = bindE (guardE (py_hashable v) (TypeError BadType)) (\<lambda>_.
     case v of PStr s \<Rightarrow> if s \<in> set xs then Inr s else Inl (ValueError BadEnum) | _ \<Rightarrow> Inl (ValueError BadEnum))"

text \<open>\<open>tuple(value)\<close> whose items are all strings that are not blank.\<close>

definition text_items :: "pyval list \<Rightarrow> string list result" where
  "text_items vs = mapE text_of vs"

text \<open>\<open>tuple(sorted(set(values)))\<close>.\<close>

definition sorted_set :: "string list \<Rightarrow> string list" where
  "sorted_set xs = sort (remdups xs)"

lemma sorted_set_props [simp]: "set (sorted_set xs) = set xs" "sorted (sorted_set xs)" "distinct (sorted_set xs)"
  by (simp_all add: sorted_set_def)

lemma sorted_set_unique: "set xs = set ys \<Longrightarrow> sorted_set xs = sorted_set ys"
  by (rule sorted_distinct_set_unique) simp_all

lemma sorted_set_same: "sorted xs \<Longrightarrow> distinct xs \<Longrightarrow> sorted_set xs = xs"
  by (rule sorted_distinct_set_unique) simp_all

lemma text_items_PStr: "\<forall>x \<in> set xs. nonblank x \<Longrightarrow> text_items (map PStr xs) = Inr xs"
  using mapE_map_Inr [of xs text_of PStr "\<lambda>x. x"] by (simp add: text_items_def)

lemma text_items_Inr: "text_items vs = Inr xs \<Longrightarrow> vs = map PStr xs \<and> (\<forall>x \<in> set xs. nonblank x)"
  unfolding text_items_def by (rule mapE_text_of_Inr)

section \<open>Mission inputs\<close>

record mission_input =
  mi_mission_id :: string
  mi_mission_text :: string
  mi_source_authority :: string

definition mission_input_new :: "pyval \<Rightarrow> pyval \<Rightarrow> pyval \<Rightarrow> mission_input result" where
  "mission_input_new mission_id mission_text source_authority =
     bindE (text_of mission_id) (\<lambda>m. bindE (text_of mission_text) (\<lambda>t. bindE (text_of source_authority) (\<lambda>a.
     Inr \<lparr>mi_mission_id = m, mi_mission_text = t, mi_source_authority = a\<rparr>)))"

definition mission_input_to_dict :: "mission_input \<Rightarrow> json" where
  "mission_input_to_dict i = JObj [(''mission_id'', JStr (mi_mission_id i)), (''mission_text'', JStr (mi_mission_text i)),
     (''source_authority'', JStr (mi_source_authority i))]"

definition mission_input_json :: "mission_input \<Rightarrow> json" where
  "mission_input_json i = canonical (mission_input_to_dict i)"

section \<open>Requests to replan\<close>

record replan_request =
  rr_request_id :: string
  rr_mission_id :: string
  rr_reason :: string
  rr_requester :: string
  rr_observed_plan_revision :: int
  rr_source_revisions :: "(string \<times> int option) list"
  rr_request_kind :: string
  rr_coalesced_request_ids :: "string list"
  rr_coalesced_reasons :: "string list"

fun source_revision_of :: "pykey \<times> pyval \<Rightarrow> (string \<times> int option) result" where
  "source_revision_of (KStr k, v) = bindE (text_of (PStr k)) (\<lambda>s. bindE (optional nonneg_int v) (\<lambda>n. Inr (s, n)))"
| "source_revision_of (KOther n, v) = Inl (ValueError BlankText)"

definition replan_request_new ::
  "pyval \<Rightarrow> pyval \<Rightarrow> pyval \<Rightarrow> pyval \<Rightarrow> pyval \<Rightarrow> pyval \<Rightarrow> pyval \<Rightarrow> pyval \<Rightarrow> pyval \<Rightarrow> replan_request result" where
  "replan_request_new request_id mission_id reason requester observed_plan_revision source_revisions request_kind ids reasons =
     bindE (text_of request_id) (\<lambda>i.
     bindE (text_of mission_id) (\<lambda>m.
     bindE (text_of reason) (\<lambda>r.
     bindE (guardE (requester = PStr ''maneuver-control'') (ValueError NotPermitted)) (\<lambda>_.
     bindE (nonneg_int observed_plan_revision) (\<lambda>n.
     bindE (case as_mapping source_revisions of None \<Rightarrow> Inl (ValueError NotObject) | Some kvs \<Rightarrow> Inr kvs) (\<lambda>kvs.
     bindE (member_text [''advisory'', ''reachability_required''] request_kind) (\<lambda>k.
     bindE (mapE source_revision_of kvs) (\<lambda>revisions.
     bindE (iterate ids) (\<lambda>is. bindE (iterate reasons) (\<lambda>rs.
     bindE (text_items is) (\<lambda>cids. bindE (text_items rs) (\<lambda>creasons.
     Inr \<lparr>rr_request_id = i, rr_mission_id = m, rr_reason = r, rr_requester = ''maneuver-control'', rr_observed_plan_revision = n,
       rr_source_revisions = revisions, rr_request_kind = k, rr_coalesced_request_ids = cids,
       rr_coalesced_reasons = creasons\<rparr>))))))))))))"

definition strings_json :: "string list \<Rightarrow> json" where
  "strings_json xs = JArr (map JStr xs)"

definition replan_request_to_dict :: "replan_request \<Rightarrow> json" where
  "replan_request_to_dict r = JObj [
     (''request_id'', JStr (rr_request_id r)),
     (''mission_id'', JStr (rr_mission_id r)),
     (''reason'', JStr (rr_reason r)),
     (''requester'', JStr (rr_requester r)),
     (''observed_plan_revision'', JInt (rr_observed_plan_revision r)),
     (''source_revisions'', JObj (map (\<lambda>(k, n). (k, optional_int n)) (rr_source_revisions r))),
     (''request_kind'', JStr (rr_request_kind r)),
     (''coalesced_request_ids'', strings_json (rr_coalesced_request_ids r)),
     (''coalesced_reasons'', strings_json (rr_coalesced_reasons r))]"

definition replan_request_json :: "replan_request \<Rightarrow> json" where
  "replan_request_json r = canonical (replan_request_to_dict r)"

definition replan_request_fields :: "string list" where
  "replan_request_fields = [''request_id'', ''mission_id'', ''reason'', ''requester'', ''observed_plan_revision'', ''source_revisions'',
     ''coalesced_request_ids'', ''coalesced_reasons'']"

definition replan_request_from_dict :: "pyval \<Rightarrow> replan_request result" where
  "replan_request_from_dict value = (case as_mapping value of
     None \<Rightarrow> Inl (ValueError FieldMismatch)
   | Some kvs \<Rightarrow>
       if \<not> has_fields replan_request_fields kvs \<and> \<not> has_fields (''request_kind'' # replan_request_fields) kvs
       then Inl (ValueError FieldMismatch)
       else (case (as_array (item kvs ''coalesced_request_ids''), as_array (item kvs ''coalesced_reasons'')) of
           (Some ids, Some reasons) \<Rightarrow>
             replan_request_new (item kvs ''request_id'') (item kvs ''mission_id'') (item kvs ''reason'') (item kvs ''requester'')
               (item kvs ''observed_plan_revision'') (item kvs ''source_revisions'')
               (case map_of kvs (KStr ''request_kind'') of None \<Rightarrow> PStr ''advisory'' | Some v \<Rightarrow> v) (PTuple ids) (PTuple reasons)
         | _ \<Rightarrow> Inl (ValueError NotArray)))"

definition replan_request_from_json :: "pyval option \<Rightarrow> replan_request result" where
  "replan_request_from_json decoded = (case decoded of
     None \<Rightarrow> Inl (ValueError InvalidJson) | Some v \<Rightarrow> replan_request_from_dict v)"

definition replan_request_wf :: "replan_request \<Rightarrow> bool" where
  "replan_request_wf r \<longleftrightarrow> nonblank (rr_request_id r) \<and> nonblank (rr_mission_id r) \<and> nonblank (rr_reason r) \<and>
     rr_requester r = ''maneuver-control'' \<and> 0 \<le> rr_observed_plan_revision r \<and>
     distinct (map fst (rr_source_revisions r)) \<and>
     (\<forall>(k, n) \<in> set (rr_source_revisions r). nonblank k \<and> opt_all (\<lambda>i. 0 \<le> i) n) \<and>
     rr_request_kind r \<in> {''advisory'', ''reachability_required''} \<and>
     (\<forall>x \<in> set (rr_coalesced_request_ids r). nonblank x) \<and> (\<forall>x \<in> set (rr_coalesced_reasons r). nonblank x)"

section \<open>Heartbeats\<close>

datatype disposition = NoChange | Replan | Decline

fun disposition_text :: "disposition \<Rightarrow> string" where
  "disposition_text NoChange = ''no_change''"
| "disposition_text Replan = ''replan''"
| "disposition_text Decline = ''decline''"

definition disposition_of :: "pyval \<Rightarrow> disposition result" where
  "disposition_of v = enum_of disposition_text [NoChange, Replan, Decline] v"

lemma disposition_of_text [simp]: "disposition_of (PStr (disposition_text d)) = Inr d"
  by (cases d) (simp_all add: disposition_of_def enum_of_def)

record 'b hyper_invocation =
  hi_mission_id :: string
  hi_plan_revision :: int
  hi_triggers :: "string list"
  hi_snapshot :: mission_snapshot
  hi_plan_reference :: string
  hi_statechart_reference :: string
  hi_status :: fsm_status
  hi_environment :: jobj
  hi_belief :: "'b option"
  hi_requests :: "replan_request list"

definition hyper_invocation_new :: "('b \<Rightarrow> string) \<Rightarrow> pyval \<Rightarrow> pyval \<Rightarrow> pyval \<Rightarrow> mission_snapshot \<Rightarrow> pyval \<Rightarrow> pyval \<Rightarrow> fsm_status \<Rightarrow>
    pyval \<Rightarrow> 'b option \<Rightarrow> replan_request list \<Rightarrow> 'b hyper_invocation result" where
  "hyper_invocation_new B mission_id plan_revision triggers snapshot plan_reference statechart_reference status environment belief requests =
     bindE (text_of mission_id) (\<lambda>m.
     bindE (nonneg_int plan_revision) (\<lambda>n.
     bindE (iterate triggers) (\<lambda>vs.
     bindE (guardE (vs \<noteq> []) (ValueError BlankText)) (\<lambda>_.
     bindE (text_items vs) (\<lambda>ts.
     bindE (text_of plan_reference) (\<lambda>p.
     bindE (text_of statechart_reference) (\<lambda>c.
     bindE (guardE (ms_mission_id snapshot = m \<and> fs_mission_id status = m \<and> fs_plan_revision status = n) (ValueError Inconsistent)) (\<lambda>_.
     bindE (payload (ValueError KeyNotString) (TypeError NotObject) environment) (\<lambda>env.
     bindE (guardE (opt_all (\<lambda>b. B b = m) belief) (ValueError MissionMismatch)) (\<lambda>_.
     bindE (guardE (\<forall>r \<in> set requests. rr_mission_id r = m) (ValueError Inconsistent)) (\<lambda>_.
     Inr \<lparr>hi_mission_id = m, hi_plan_revision = n, hi_triggers = sorted_set ts, hi_snapshot = snapshot, hi_plan_reference = p,
       hi_statechart_reference = c, hi_status = status, hi_environment = env, hi_belief = belief,
       hi_requests = requests\<rparr>)))))))))))"

definition hyper_invocation_wf :: "('b \<Rightarrow> string) \<Rightarrow> 'b hyper_invocation \<Rightarrow> bool" where
  "hyper_invocation_wf B i \<longleftrightarrow> nonblank (hi_mission_id i) \<and> 0 \<le> hi_plan_revision i \<and> hi_triggers i \<noteq> [] \<and>
     (\<forall>t \<in> set (hi_triggers i). nonblank t) \<and> sorted (hi_triggers i) \<and> distinct (hi_triggers i) \<and>
     nonblank (hi_plan_reference i) \<and> nonblank (hi_statechart_reference i) \<and>
     ms_mission_id (hi_snapshot i) = hi_mission_id i \<and> fs_mission_id (hi_status i) = hi_mission_id i \<and>
     fs_plan_revision (hi_status i) = hi_plan_revision i \<and> wf_obj (hi_environment i) \<and>
     opt_all (\<lambda>b. B b = hi_mission_id i) (hi_belief i) \<and> (\<forall>r \<in> set (hi_requests i). rr_mission_id r = hi_mission_id i)"

record hyper_decision =
  hb_mission_id :: string
  hb_plan_revision :: int
  hb_disposition :: disposition
  hb_evidence_summary :: string
  hb_triggers :: "string list"
  hb_requests :: "string list"

definition identities_of :: "pyval \<Rightarrow> string list result" where
  "identities_of v = bindE (iterate v) (\<lambda>vs. bindE (text_items vs) (\<lambda>xs. Inr (sorted_set xs)))"

definition hyper_decision_new :: "pyval \<Rightarrow> pyval \<Rightarrow> pyval \<Rightarrow> pyval \<Rightarrow> pyval \<Rightarrow> pyval \<Rightarrow> hyper_decision result" where
  "hyper_decision_new mission_id plan_revision disposition evidence_summary triggers requests =
     bindE (text_of mission_id) (\<lambda>m.
     bindE (nonneg_int plan_revision) (\<lambda>n.
     bindE (disposition_of disposition) (\<lambda>d.
     bindE (text_of evidence_summary) (\<lambda>e.
     bindE (identities_of triggers) (\<lambda>ts.
     bindE (identities_of requests) (\<lambda>rs.
     Inr \<lparr>hb_mission_id = m, hb_plan_revision = n, hb_disposition = d, hb_evidence_summary = e, hb_triggers = ts, hb_requests = rs\<rparr>))))))"

definition hyper_decision_to_dict :: "hyper_decision \<Rightarrow> json" where
  "hyper_decision_to_dict d = JObj [
     (''mission_id'', JStr (hb_mission_id d)),
     (''plan_revision'', JInt (hb_plan_revision d)),
     (''disposition'', JStr (disposition_text (hb_disposition d))),
     (''evidence_summary'', JStr (hb_evidence_summary d)),
     (''trigger_identities'', strings_json (hb_triggers d)),
     (''request_identities'', strings_json (hb_requests d))]"

definition hyper_decision_json :: "hyper_decision \<Rightarrow> json" where
  "hyper_decision_json d = canonical (hyper_decision_to_dict d)"

definition hyper_decision_from_dict :: "pyval \<Rightarrow> hyper_decision result" where
  "hyper_decision_from_dict value =
     bindE (strict_fields [''mission_id'', ''plan_revision'', ''disposition'', ''evidence_summary'', ''trigger_identities'',
       ''request_identities''] value) (\<lambda>kvs.
     bindE (iterate (item kvs ''trigger_identities'')) (\<lambda>ts.
     bindE (iterate (item kvs ''request_identities'')) (\<lambda>rs.
     hyper_decision_new (item kvs ''mission_id'') (item kvs ''plan_revision'') (item kvs ''disposition'') (item kvs ''evidence_summary'')
       (PTuple ts) (PTuple rs))))"

definition hyper_decision_wf :: "hyper_decision \<Rightarrow> bool" where
  "hyper_decision_wf d \<longleftrightarrow> nonblank (hb_mission_id d) \<and> 0 \<le> hb_plan_revision d \<and> nonblank (hb_evidence_summary d) \<and>
     (\<forall>x \<in> set (hb_triggers d). nonblank x) \<and> sorted (hb_triggers d) \<and> distinct (hb_triggers d) \<and>
     (\<forall>x \<in> set (hb_requests d). nonblank x) \<and> sorted (hb_requests d) \<and> distinct (hb_requests d)"

section \<open>Questions to a human\<close>

record human_question =
  hq_question_id :: string
  hq_mission_id :: string
  hq_text :: string
  hq_context :: jobj
  hq_requester :: string

text \<open>The first argument tells whether the caller holds the token of the Hyper Agent.\<close>

definition human_question_new :: "bool \<Rightarrow> pyval \<Rightarrow> pyval \<Rightarrow> pyval \<Rightarrow> pyval \<Rightarrow> human_question result" where
  "human_question_new token question_id mission_id question context =
     bindE (guardE token (ValueError NotPermitted)) (\<lambda>_.
     bindE (text_of question_id) (\<lambda>i.
     bindE (text_of mission_id) (\<lambda>m.
     bindE (text_of question) (\<lambda>t.
     bindE (payload (ValueError KeyNotString) (ValueError NotObject) (if context = PNone then PDict [] else context)) (\<lambda>c.
     Inr \<lparr>hq_question_id = i, hq_mission_id = m, hq_text = t, hq_context = c, hq_requester = ''hyper-agent''\<rparr>)))))"

definition human_question_to_dict :: "human_question \<Rightarrow> json" where
  "human_question_to_dict q = JObj [(''question_id'', JStr (hq_question_id q)), (''mission_id'', JStr (hq_mission_id q)),
     (''text'', JStr (hq_text q)), (''context'', JObj (hq_context q)), (''requester'', JStr (hq_requester q))]"

definition human_question_json :: "human_question \<Rightarrow> json" where
  "human_question_json q = canonical (human_question_to_dict q)"

definition issue_human_question :: "pyval \<Rightarrow> pyval \<Rightarrow> pyval \<Rightarrow> pyval \<Rightarrow> human_question result" where
  "issue_human_question = human_question_new True"

section \<open>Constructors establish the invariants\<close>

lemma member_text_Inr: "member_text xs v = Inr s \<Longrightarrow> v = PStr s \<and> s \<in> set xs"
  by (cases v) (auto simp: member_text_def bindE_eq_Inr split: if_splits)

lemma member_text_PStr [simp]: "s \<in> set xs \<Longrightarrow> member_text xs (PStr s) = Inr s"
  by (simp add: member_text_def)

lemma source_revision_of_Inr: "source_revision_of kv = Inr r \<Longrightarrow>
    fst kv = KStr (fst r) \<and> nonblank (fst r) \<and> opt_all (\<lambda>i. 0 \<le> i) (snd r)"
  by (cases kv rule: source_revision_of.cases) (auto simp: err_simps simp del: text_of.simps split: if_splits)

lemma source_revisions_keys: "mapE source_revision_of kvs = Inr rs \<Longrightarrow> map fst kvs = map (KStr \<circ> fst) rs"
  by (induction kvs arbitrary: rs) (auto simp: bindE_eq_Inr dest: source_revision_of_Inr)

lemma source_revisions_wf: "mapE source_revision_of kvs = Inr rs \<Longrightarrow> (k, n) \<in> set rs \<Longrightarrow> nonblank k \<and> opt_all (\<lambda>i. 0 \<le> i) n"
  using mapE_Inr_set [of source_revision_of kvs rs "(k, n)"] source_revision_of_Inr by fastforce

lemma replan_request_new_wf:
  assumes "replan_request_new a b c d e f g h i = Inr r" and "wf_py f"
  shows "replan_request_wf r"
proof -
  from assms(1) obtain kvs ids rs where
    v: "text_of a = Inr (rr_request_id r)" "text_of b = Inr (rr_mission_id r)" "text_of c = Inr (rr_reason r)"
      "nonneg_int e = Inr (rr_observed_plan_revision r)" "as_mapping f = Some kvs" "mapE source_revision_of kvs = Inr (rr_source_revisions r)"
      "member_text [''advisory'', ''reachability_required''] g = Inr (rr_request_kind r)"
      "text_items ids = Inr (rr_coalesced_request_ids r)" "text_items rs = Inr (rr_coalesced_reasons r)" "rr_requester r = ''maneuver-control''"
    unfolding replan_request_new_def by (auto simp: bindE_eq_Inr split: option.splits)
  have "distinct (map fst kvs)" using assms(2) v(5) by (cases f) auto
  then have "distinct (map fst (rr_source_revisions r))" using source_revisions_keys [OF v(6)] by simp
  moreover have "\<forall>(k, n) \<in> set (rr_source_revisions r). nonblank k \<and> opt_all (\<lambda>i. 0 \<le> i) n" using source_revisions_wf [OF v(6)] by blast
  ultimately show ?thesis
    using v member_text_Inr [OF v(7)] text_items_Inr [OF v(8)] text_items_Inr [OF v(9)]
    unfolding replan_request_wf_def by (auto simp: text_of_Inr nonneg_int_Inr)
qed

lemma replan_request_from_dict_wf:
  assumes "replan_request_from_dict v = Inr r" and "wf_py v"
  shows "replan_request_wf r"
proof -
  from assms(1) obtain kvs where kvs: "as_mapping v = Some kvs" by (auto simp: replan_request_from_dict_def split: option.splits)
  with assms(1) obtain a b c d e g h i where "replan_request_new a b c d e (item kvs ''source_revisions'') g h i = Inr r"
    unfolding replan_request_from_dict_def by (simp split: if_splits option.splits)
  then show ?thesis by (rule replan_request_new_wf) (rule wf_item [OF kvs assms(2)])
qed

lemma replan_request_view:
  assumes "replan_request_wf r"
  shows "replan_request_from_dict (view b (replan_request_to_dict r)) = Inr r"
proof -
  have "mapE source_revision_of (map (\<lambda>(k, j). (KStr k, view b j)) (map (\<lambda>(k, n). (k, optional_int n)) rs)) = Inr rs"
    if "\<forall>(k, n) \<in> set rs. nonblank k \<and> opt_all (\<lambda>i. 0 \<le> i) n" for rs
    using that by (induction rs) (auto simp: iffD2 [OF optional_int_view])
  then have "mapE source_revision_of (map (\<lambda>(k, j). (KStr k, view b j)) (map (\<lambda>(k, n). (k, optional_int n)) (rr_source_revisions r))) =
      Inr (rr_source_revisions r)" using assms by (simp add: replan_request_wf_def)
  moreover have "text_items (map (view b \<circ> JStr) xs) = Inr xs" if "\<forall>x \<in> set xs. nonblank x" for xs
    using text_items_PStr [OF that] by (simp add: comp_def)
  ultimately show ?thesis using assms
    by (cases b) (simp_all add: replan_request_from_dict_def replan_request_to_dict_def replan_request_new_def replan_request_wf_def
      strings_json_def has_fields_def replan_request_fields_def item_def insert_commute)
qed

lemma hyper_decision_new_wf: "hyper_decision_new a b c d e f = Inr r \<Longrightarrow> hyper_decision_wf r"
  by (auto simp: hyper_decision_new_def hyper_decision_wf_def identities_of_def err_simps dest!: text_items_Inr)

lemma hyper_decision_view: "hyper_decision_wf d \<Longrightarrow> hyper_decision_from_dict (view b (hyper_decision_to_dict d)) = Inr d"
proof -
  assume d: "hyper_decision_wf d"
  have "text_items (map (view b \<circ> JStr) xs) = Inr xs" if "\<forall>x \<in> set xs. nonblank x" for xs
    using text_items_PStr [OF that] by (simp add: comp_def)
  with d show ?thesis
    by (cases b) (simp_all add: hyper_decision_from_dict_def hyper_decision_to_dict_def hyper_decision_new_def hyper_decision_wf_def
      strings_json_def identities_of_def sorted_set_same)
qed

lemma hyper_decision_dict_wf: "hyper_decision_to_dict d = JObj o' \<Longrightarrow> wf_obj o'"
  by (auto simp: hyper_decision_to_dict_def strings_json_def wf_obj_def)

lemma hyper_invocation_new_wf: "hyper_invocation_new B a b c d e f g h i j = Inr r \<Longrightarrow> wf_py h \<Longrightarrow> hyper_invocation_wf B r"
  by (auto simp: hyper_invocation_new_def hyper_invocation_wf_def err_simps payload_wf dest!: text_items_Inr simp flip: set_empty)

end
