(* ===== verification/Hyper_Supervisor.thy ===== *)
theory Hyper_Supervisor
  imports Hyper_Contracts Communication Operational_Log
begin

text \<open>
  The supervision of a Mission by the Hyper Agent, \<open>src/onr/application/hyper_supervisor.py\<close>: requests to replan are
  queued, a heartbeat evaluates all that are pending as one, and its decision is published. A lock for each Mission
  makes these operations atomic for that Mission; the provider of decisions is a parameter, which acts on a world of its own and may queue
  further requests while it decides (the lock is reentrant).
\<close>

section \<open>The queue\<close>

record 'w hyper_supervisor =
  sv_topic :: string
  sv_pending :: "(string \<times> replan_request list) list"
  sv_seen :: "(string \<times> string set) list"
  sv_world :: 'w
  sv_log :: "log_call list option"

definition supervisor_init :: "string \<Rightarrow> 'w \<Rightarrow> log_call list option \<Rightarrow> 'w hyper_supervisor" where
  "supervisor_init topic w calls = \<lparr>sv_topic = topic, sv_pending = [], sv_seen = [], sv_world = w, sv_log = calls\<rparr>"

abbreviation pending_of :: "'w hyper_supervisor \<Rightarrow> string \<Rightarrow> replan_request list" where
  "pending_of h m \<equiv> getd (sv_pending h) m []"

abbreviation seen_of :: "'w hyper_supervisor \<Rightarrow> string \<Rightarrow> string set" where
  "seen_of h m \<equiv> getd (sv_seen h) m {}"

definition queue_replan :: "replan_request \<Rightarrow> 'w hyper_supervisor \<Rightarrow> 'w hyper_supervisor" where
  "queue_replan r h =
     (let m = rr_mission_id r; seen = seen_of h m
      in if rr_request_id r \<in> seen then h\<lparr>sv_seen := put m seen (sv_seen h)\<rparr>
         else h\<lparr>sv_pending := put m (pending_of h m @ [r]) (sv_pending h),
           sv_seen := put m (insert (rr_request_id r) seen) (sv_seen h)\<rparr>)"

definition handle_hyper_message :: "agent_message \<Rightarrow> (jobj, 'w hyper_supervisor) eff" where
  "handle_hyper_message a =
     bindS (guardS (am_recipient a = ''hyper-agent'') (ValueError WrongMessage)) (\<lambda>_.
     if am_kind a \<noteq> REPLAN
     then returnS [(''status'', JStr ''queued''), (''message_id'', JStr (am_message_id a)), (''kind'', JStr (message_kind_text (am_kind a)))]
     else (case map_of (am_payload a) ''replan_request'' of
         Some (JObj o') \<Rightarrow>
           bindS (liftE (replan_request_from_dict (proxied (JObj o')))) (\<lambda>r.
           bindS (guardS (rr_request_id r = am_message_id a \<and> rr_mission_id r = am_mission_id a \<and>
             rr_observed_plan_revision r = am_plan_revision a) (ValueError Inconsistent)) (\<lambda>_.
           bindS (\<lambda>h. (Inr (), queue_replan r h)) (\<lambda>_.
           returnS [(''status'', JStr ''queued''), (''request_id'', JStr (rr_request_id r)),
             (''disposition'', JStr ''pending_hyper_evaluation'')])))
       | _ \<Rightarrow> raiseS (TypeError NotObject)))"

definition has_pending :: "'w hyper_supervisor \<Rightarrow> string \<Rightarrow> bool" where
  "has_pending h m \<longleftrightarrow> pending_of h m \<noteq> []"

definition pending_request_identities :: "'w hyper_supervisor \<Rightarrow> string \<Rightarrow> string list" where
  "pending_request_identities h m = sort (map rr_request_id (pending_of h m))"

section \<open>Coalescing\<close>

definition merge_revision :: "(string \<times> int option) list \<Rightarrow> string \<times> int option \<Rightarrow> (string \<times> int option) list" where
  "merge_revision d = (\<lambda>(k, v). let previous = getd d k None
     in if v \<noteq> None \<and> (previous = None \<or> the previous < the v) then put k v d
        else if k \<notin> fst ` set d then put k None d else d)"

definition merged_revisions :: "replan_request list \<Rightarrow> (string \<times> int option) list" where
  "merged_revisions rs = foldl merge_revision [] (concat (map rr_source_revisions rs))"

definition is_required :: "replan_request \<Rightarrow> bool" where
  "is_required r \<longleftrightarrow> rr_request_kind r = ''reachability_required''"

definition coalesce :: "replan_request list \<Rightarrow> string \<Rightarrow> replan_request option result" where
  "coalesce rs m = (case max_by (\<lambda>r. (rr_observed_plan_revision r, rr_request_id r)) rs of
     None \<Rightarrow> Inr None
   | Some latest \<Rightarrow>
       bindE (replan_request_new (PStr (rr_request_id latest)) (PStr m) (PStr (rr_reason latest)) (PStr (rr_requester latest))
         (PInt (rr_observed_plan_revision latest))
         (PDict (map (\<lambda>(k, n). (KStr k, thaw (optional_int n))) (merged_revisions rs)))
         (PStr (if \<exists>r \<in> set rs. is_required r then ''reachability_required'' else ''advisory''))
         (PTuple (map PStr (sorted_set (map rr_request_id rs)))) (PTuple (map PStr (sorted_set (map rr_reason rs))))) (\<lambda>c.
       Inr (Some c)))"

section \<open>Heartbeats\<close>

text \<open>What a provider gives back: a decision, a mapping, something else, or an exception.\<close>

datatype hyper_answer = DecisionReturned hyper_decision | MappingReturned pyitems | ObjectReturned | ProviderRaised exn

type_synonym ('b, 'w) provider = "'b hyper_invocation \<Rightarrow> 'w \<Rightarrow> (hyper_answer \<times> replan_request list) \<times> 'w"

definition request_identities :: "replan_request list \<Rightarrow> string list" where
  "request_identities rs = concat (map (\<lambda>r. if rr_coalesced_request_ids r = [] then [rr_request_id r] else rr_coalesced_request_ids r) rs)"

definition set_default :: "string \<Rightarrow> pyval \<Rightarrow> pyitems \<Rightarrow> pyitems" where
  "set_default k v kvs = (if KStr k \<in> fst ` set kvs then kvs else kvs @ [(KStr k, v)])"

definition decide :: "('b, 'w) provider \<Rightarrow> 'b hyper_invocation \<Rightarrow> (hyper_decision, 'w hyper_supervisor \<times> 's) eff" where
  "decide f i hs = (case f i (sv_world (fst hs)) of ((answer, requests), w) \<Rightarrow>
     let hs1 = (fold queue_replan requests ((fst hs)\<lparr>sv_world := w\<rparr>), snd hs)
     in case answer of
       DecisionReturned d \<Rightarrow> (Inr d, hs1)
     | MappingReturned kvs \<Rightarrow>
         (hyper_decision_from_dict (PDict (set_default ''request_identities'' (PTuple (map PStr (request_identities (hi_requests i))))
           (set_default ''trigger_identities'' (PTuple (map PStr (hi_triggers i))) kvs))), hs1)
     | ObjectReturned \<Rightarrow> (Inl (TypeError BadType), hs1)
     | ProviderRaised e \<Rightarrow> (Inl e, hs1))"

definition hyper_event_id :: "string \<Rightarrow> int \<Rightarrow> int \<Rightarrow> string" where
  "hyper_event_id m revision n = ''hyper-heartbeat:'' @ m @ '':'' @ show_int revision @ '':'' @ show_int n"

definition log_decision :: "hyper_decision \<Rightarrow> (unit, 'w hyper_supervisor \<times> 's) eff" where
  "log_decision d = onFst (\<lambda>h. h\<lparr>sv_log := map_option
     (\<lambda>ls. ls @ [\<lparr>lc_mission_id = hb_mission_id d, lc_source = ''hyper-agent'', lc_event_kind = ''heartbeat'',
       lc_outcome = disposition_text (hb_disposition d), lc_details = [(''plan_revision'', JInt (hb_plan_revision d)),
         (''trigger_identities'', strings_json (hb_triggers d)), (''request_identities'', strings_json (hb_requests d))]\<rparr>]) (sv_log h)\<rparr>)"

definition publish_decision :: "'s event_port option \<Rightarrow> hyper_decision \<Rightarrow> (unit, 'w hyper_supervisor \<times> 's) eff" where
  "publish_decision E d hs = bindS (case E of None \<Rightarrow> returnS ()
     | Some P \<Rightarrow>
         bindS (onSnd (port_next_event_sequence P (sv_topic (fst hs)) (hb_mission_id d))) (\<lambda>n.
         bindS (liftE (transport_event_new (PInt 1) (PStr (hyper_event_id (hb_mission_id d) (hb_plan_revision d) n)) (PStr (hb_mission_id d))
           (PInt n) (PStr ''hyper-heartbeat-decision'') (thaw (hyper_decision_to_dict d)))) (\<lambda>e.
         bindS (onSnd (port_publish_event P (sv_topic (fst hs)) e)) (\<lambda>_. returnS ())))) (\<lambda>_. log_decision d) hs"

definition forget_requests :: "string \<Rightarrow> replan_request list \<Rightarrow> 'w hyper_supervisor \<Rightarrow> 'w hyper_supervisor" where
  "forget_requests m rs h = (if rs = [] then h
     else h\<lparr>sv_pending := put m (filter (\<lambda>r. rr_request_id r \<notin> rr_request_id ` set rs) (pending_of h m)) (sv_pending h)\<rparr>)"

definition required_decision :: "'b hyper_invocation \<Rightarrow> replan_request list \<Rightarrow> hyper_decision result" where
  "required_decision i required = hyper_decision_new (PStr (hi_mission_id i)) (PInt (hi_plan_revision i)) (PStr ''replan'')
     (PStr ''Maneuver Control requires a planner-selected reachable recovery rendezvous.'')
     (PTuple (map PStr (hi_triggers i))) (PTuple (map PStr (request_identities required)))"

definition effective_invocation :: "('b \<Rightarrow> string) \<Rightarrow> 'b hyper_invocation \<Rightarrow> replan_request list \<Rightarrow> 'b hyper_invocation result" where
  "effective_invocation B i rs = hyper_invocation_new B (PStr (hi_mission_id i)) (PInt (hi_plan_revision i))
     (PTuple (map PStr (hi_triggers i))) (hi_snapshot i) (PStr (hi_plan_reference i)) (PStr (hi_statechart_reference i))
     (hi_status i) (proxied (JObj (hi_environment i))) (hi_belief i) rs"

definition hyper_heartbeat :: "('b \<Rightarrow> string) \<Rightarrow> 's event_port option \<Rightarrow> ('b, 'w) provider \<Rightarrow> 'b hyper_invocation \<Rightarrow>
    (hyper_decision, 'w hyper_supervisor \<times> 's) eff" where
  "hyper_heartbeat B E f i hs =
     (let m = hi_mission_id i; pending = pending_of (fst hs) m
      in bindS (liftE (coalesce pending m)) (\<lambda>coalesced.
         bindS (liftE (effective_invocation B i (hi_requests i @ (case coalesced of None \<Rightarrow> [] | Some c \<Rightarrow> [c])))) (\<lambda>effective.
         bindS (let required = filter is_required (hi_requests effective)
           in if required = [] then decide f effective else liftE (required_decision i required)) (\<lambda>d.
         bindS (guardS (hb_mission_id d = m \<and> hb_plan_revision d = hi_plan_revision i) (ValueError Inconsistent)) (\<lambda>_.
         bindS (onFst (forget_requests m pending)) (\<lambda>_.
         bindS (publish_decision E d) (\<lambda>_. returnS d)))))) hs)"

section \<open>What coalescing gives\<close>

text \<open>The revision of a source in a list of reports: none when no report names it, otherwise the greatest that is known.\<close>

definition newest :: "int option list \<Rightarrow> int option option" where
  "newest vs = (if vs = [] then None
     else Some (if \<forall>v \<in> set vs. v = None then None else Some (Max {n. Some n \<in> set vs})))"

definition reports :: "(string \<times> int option) list \<Rightarrow> string \<Rightarrow> int option list" where
  "reports xs k = map snd (filter (\<lambda>x. fst x = k) xs)"

lemma finite_known: "finite {n. Some n \<in> set vs}"
proof -
  have "{n. Some n \<in> set vs} = the ` (set vs \<inter> range Some)" by force
  then show ?thesis by simp
qed

lemma newest_snoc: "newest (vs @ [v]) = (case newest vs of None \<Rightarrow> Some v
   | Some old \<Rightarrow> Some (case v of None \<Rightarrow> old | Some n \<Rightarrow> (case old of None \<Rightarrow> Some n | Some p \<Rightarrow> Some (max p n))))"
proof (cases "vs = []")
  case False
  let ?K = "{n. Some n \<in> set vs}"
  have K: "{n. Some n \<in> set (vs @ [v])} = (case v of None \<Rightarrow> ?K | Some n \<Rightarrow> insert n ?K)" by (cases v) auto
  show ?thesis
  proof (cases "\<forall>v \<in> set vs. v = None")
    case True
    then have "?K = {}" by auto
    with False True show ?thesis unfolding newest_def K by (cases v) auto
  next
    case known: False
    then have "?K \<noteq> {}" by auto
    with known False show ?thesis unfolding newest_def K by (cases v) (auto simp: finite_known max.commute Max_insert)
  qed
next
  case True
  then show ?thesis by (cases v) (auto simp: newest_def)
qed

lemma merge_revision_map: "map_of (merge_revision d (k, v)) j = (if j = k
    then Some (case map_of d k of None \<Rightarrow> v | Some old \<Rightarrow>
      (case v of None \<Rightarrow> old | Some n \<Rightarrow> (case old of None \<Rightarrow> Some n | Some p \<Rightarrow> Some (max p n)))) else map_of d j)"
proof (cases "map_of d k")
  case None
  then have "k \<notin> fst ` set d" by (simp add: map_of_eq_None_iff)
  with None show ?thesis by (cases v) (auto simp: merge_revision_def getd_def)
next
  case (Some old)
  then have "k \<in> fst ` set d" by (metis map_of_eq_None_iff option.distinct(1))
  with Some show ?thesis by (cases v; cases old) (auto simp: merge_revision_def getd_def max_def)
qed

lemma merge_revision_distinct: "distinct (map fst d) \<Longrightarrow> distinct (map fst (merge_revision d x))"
  by (simp add: merge_revision_def Let_def split: prod.split)

lemma merge_revisions:
  "distinct (map fst (foldl merge_revision [] xs)) \<and> (\<forall>k. map_of (foldl merge_revision [] xs) k = newest (reports xs k))"
proof (induction xs rule: rev_induct)
  case (snoc x xs)
  obtain k v where x: "x = (k, v)" by (cases x)
  have r: "reports (xs @ [x]) j = (if j = k then reports xs k @ [v] else reports xs j)" for j by (auto simp: reports_def x)
  have "map_of (merge_revision (foldl merge_revision [] xs) (k, v)) j = newest (reports (xs @ [x]) j)" for j
    unfolding merge_revision_map r using snoc by (auto simp: newest_snoc split: option.split)
  with snoc show ?case by (simp add: x merge_revision_distinct)
qed (simp add: newest_def reports_def)

lemma newest_nonneg: "newest vs = Some n \<Longrightarrow> \<forall>v \<in> set vs. opt_all (\<lambda>i. 0 \<le> i) v \<Longrightarrow> opt_all (\<lambda>i. (0::int) \<le> i) n"
proof -
  assume n: "newest vs = Some n" and v: "\<forall>v \<in> set vs. opt_all (\<lambda>i. 0 \<le> i) v"
  show ?thesis
  proof (cases "\<forall>v \<in> set vs. v = None")
    case True
    with n show ?thesis by (auto simp: newest_def split: if_splits)
  next
    case False
    then have "{n. Some n \<in> set vs} \<noteq> {}" by auto
    then have "Max {n. Some n \<in> set vs} \<in> {n. Some n \<in> set vs}" by (rule Max_in [OF finite_known])
    with n v False show ?thesis by (auto simp: newest_def split: if_splits)
  qed
qed

lemma merged_revisions_wf:
  assumes "\<forall>r \<in> set rs. replan_request_wf r"
  shows "distinct (map fst (merged_revisions rs))" and "(k, n) \<in> set (merged_revisions rs) \<Longrightarrow> nonblank k \<and> opt_all (\<lambda>i. 0 \<le> i) n"
proof -
  let ?xs = "concat (map rr_source_revisions rs)"
  show d: "distinct (map fst (merged_revisions rs))" unfolding merged_revisions_def using merge_revisions by blast
  assume "(k, n) \<in> set (merged_revisions rs)"
  with d have "map_of (merged_revisions rs) k = Some n" by simp
  then have n: "newest (reports ?xs k) = Some n" unfolding merged_revisions_def using merge_revisions by simp
  then have "reports ?xs k \<noteq> []" by (auto simp: newest_def)
  then obtain v where "(k, v) \<in> set ?xs" unfolding reports_def filter_empty_conv map_is_Nil_conv by (metis prod.collapse)
  with assms have "nonblank k" unfolding replan_request_wf_def by fastforce
  moreover have "\<forall>v \<in> set (reports ?xs k). opt_all (\<lambda>i. 0 \<le> i) v"
    using assms unfolding reports_def replan_request_wf_def by fastforce
  ultimately show "nonblank k \<and> opt_all (\<lambda>i. 0 \<le> i) n" using newest_nonneg [OF n] by blast
qed

lemma source_revisions_read: "\<forall>(k, n) \<in> set rs. nonblank k \<and> opt_all (\<lambda>i. 0 \<le> i) n \<Longrightarrow>
    mapE source_revision_of (map (\<lambda>(k, n). (KStr k, thaw (optional_int n))) rs) = Inr rs"
  by (induction rs) (auto simp: iffD2 [OF optional_int_view])

definition coalesced_of :: "replan_request \<Rightarrow> replan_request list \<Rightarrow> string \<Rightarrow> replan_request" where
  "coalesced_of latest rs m = \<lparr>rr_request_id = rr_request_id latest, rr_mission_id = m, rr_reason = rr_reason latest,
     rr_requester = ''maneuver-control'', rr_observed_plan_revision = rr_observed_plan_revision latest,
     rr_source_revisions = merged_revisions rs,
     rr_request_kind = (if \<exists>r \<in> set rs. is_required r then ''reachability_required'' else ''advisory''),
     rr_coalesced_request_ids = sorted_set (map rr_request_id rs), rr_coalesced_reasons = sorted_set (map rr_reason rs)\<rparr>"

lemma coalesce_Inr:
  assumes "\<forall>r \<in> set rs. replan_request_wf r" and "nonblank m"
  shows "coalesce rs m = Inr (map_option (\<lambda>latest. coalesced_of latest rs m)
    (max_by (\<lambda>r. (rr_observed_plan_revision r, rr_request_id r)) rs))"
proof (cases "max_by (\<lambda>r. (rr_observed_plan_revision r, rr_request_id r)) rs")
  case (Some latest)
  then have l: "replan_request_wf latest" using assms(1) max_by_Some by metis
  have "\<forall>(k, n) \<in> set (merged_revisions rs). nonblank k \<and> opt_all (\<lambda>i. 0 \<le> i) n" using merged_revisions_wf(2) [OF assms(1)] by blast
  note rev = source_revisions_read [OF this]
  have "text_items (map PStr (sorted_set (map rr_request_id rs))) = Inr (sorted_set (map rr_request_id rs))"
    "text_items (map PStr (sorted_set (map rr_reason rs))) = Inr (sorted_set (map rr_reason rs))"
    using assms(1) by (auto intro!: text_items_PStr simp: replan_request_wf_def)
  with rev l assms(2) show ?thesis
    by (simp add: coalesce_def Some replan_request_new_def replan_request_wf_def coalesced_of_def)
qed (simp add: coalesce_def)

section \<open>The invariant of the queue\<close>

definition supervisor_inv :: "'w hyper_supervisor \<Rightarrow> bool" where
  "supervisor_inv h \<longleftrightarrow> (\<forall>m. distinct (map rr_request_id (pending_of h m)) \<and>
     rr_request_id ` set (pending_of h m) \<subseteq> seen_of h m \<and>
     (\<forall>r \<in> set (pending_of h m). rr_mission_id r = m \<and> replan_request_wf r))"

lemma supervisor_invD:
  assumes "supervisor_inv h"
  shows "distinct (map rr_request_id (pending_of h m))" "rr_request_id ` set (pending_of h m) \<subseteq> seen_of h m"
    "\<forall>r \<in> set (pending_of h m). rr_mission_id r = m" "\<forall>r \<in> set (pending_of h m). replan_request_wf r"
  using assms by (auto simp: supervisor_inv_def)

lemma supervisor_inv_cong: "sv_pending h' = sv_pending h \<Longrightarrow> sv_seen h' = sv_seen h \<Longrightarrow> supervisor_inv h' = supervisor_inv h"
  by (simp add: supervisor_inv_def)

lemma queue_pending: "pending_of (queue_replan r h) m =
    (if m = rr_mission_id r \<and> rr_request_id r \<notin> seen_of h m then pending_of h m @ [r] else pending_of h m)"
  by (simp add: queue_replan_def Let_def)

lemma queue_seen: "seen_of (queue_replan r h) m = (if m = rr_mission_id r then insert (rr_request_id r) (seen_of h m) else seen_of h m)"
  by (auto simp: queue_replan_def Let_def)

lemma queue_other [simp]: "sv_topic (queue_replan r h) = sv_topic h" "sv_world (queue_replan r h) = sv_world h"
  "sv_log (queue_replan r h) = sv_log h"
  by (simp_all add: queue_replan_def Let_def)

lemma queue_inv: "supervisor_inv h \<Longrightarrow> replan_request_wf r \<Longrightarrow> supervisor_inv (queue_replan r h)"
  unfolding supervisor_inv_def queue_pending queue_seen by (auto split: if_splits)

lemma queue_all_inv: "supervisor_inv h \<Longrightarrow> \<forall>r \<in> set rs. replan_request_wf r \<Longrightarrow> supervisor_inv (fold queue_replan rs h)"
  by (induction rs arbitrary: h) (auto intro: queue_inv)

lemma queue_all_topic [simp]: "sv_topic (fold queue_replan rs h) = sv_topic h"
  by (induction rs arbitrary: h) auto

text \<open>What further requests add: some pending at the end, with identities that were not seen before.\<close>

definition queued_more :: "'w hyper_supervisor \<Rightarrow> 'w hyper_supervisor \<Rightarrow> bool" where
  "queued_more h h' \<longleftrightarrow> sv_topic h' = sv_topic h \<and> (\<forall>m. \<exists>new. pending_of h' m = pending_of h m @ new \<and>
     seen_of h' m = seen_of h m \<union> rr_request_id ` set new \<and> rr_request_id ` set new \<inter> seen_of h m = {} \<and>
     distinct (map rr_request_id new))"

lemma queued_more_refl: "queued_more h h"
  by (auto simp: queued_more_def)

lemma queued_more_queue: "queued_more h h' \<Longrightarrow> queued_more h (queue_replan r h')"
proof -
  assume q: "queued_more h h'"
  have "\<exists>new. pending_of (queue_replan r h') m = pending_of h m @ new \<and>
     seen_of (queue_replan r h') m = seen_of h m \<union> rr_request_id ` set new \<and> rr_request_id ` set new \<inter> seen_of h m = {} \<and>
     distinct (map rr_request_id new)" for m
  proof -
    from q obtain new where n: "pending_of h' m = pending_of h m @ new" "seen_of h' m = seen_of h m \<union> rr_request_id ` set new"
      "rr_request_id ` set new \<inter> seen_of h m = {}" "distinct (map rr_request_id new)" unfolding queued_more_def by blast
    show ?thesis
    proof (cases "m = rr_mission_id r \<and> rr_request_id r \<notin> seen_of h' m")
      case True
      with n show ?thesis by (intro exI [of _ "new @ [r]"]) (auto simp: queue_pending queue_seen)
    next
      case False
      with n show ?thesis by (intro exI [of _ new]) (auto simp: queue_pending queue_seen)
    qed
  qed
  with q show ?thesis by (simp add: queued_more_def)
qed

lemma queued_more_all: "queued_more h h' \<Longrightarrow> queued_more h (fold queue_replan rs h')"
  by (induction rs arbitrary: h') (auto intro: queued_more_queue)

lemma queued_more_cong: "sv_pending h' = sv_pending h \<Longrightarrow> sv_seen h' = sv_seen h \<Longrightarrow> sv_topic h' = sv_topic h \<Longrightarrow> queued_more h h'"
  by (auto simp: queued_more_def)

section \<open>The decision of a heartbeat\<close>

definition provider_ok :: "('b, 'w) provider \<Rightarrow> bool" where
  "provider_ok f \<longleftrightarrow> (\<forall>i w. (\<forall>r \<in> set (snd (fst (f i w))). replan_request_wf r) \<and>
     (\<forall>d. fst (fst (f i w)) = DecisionReturned d \<longrightarrow> hyper_decision_wf d))"

text \<open>The requests that a heartbeat evaluates: those of its invocation, and the pending ones as one.\<close>

definition evaluated_requests :: "'b hyper_invocation \<Rightarrow> replan_request list \<Rightarrow> replan_request list" where
  "evaluated_requests i pending = hi_requests i @
     (case max_by (\<lambda>r. (rr_observed_plan_revision r, rr_request_id r)) pending of None \<Rightarrow> []
      | Some latest \<Rightarrow> [coalesced_of latest pending (hi_mission_id i)])"

definition decision_of :: "('b, 'w) provider \<Rightarrow> 'b hyper_invocation \<Rightarrow> replan_request list \<Rightarrow>
    (hyper_decision, 'w hyper_supervisor \<times> 's) eff" where
  "decision_of f i rs = (if filter is_required rs = [] then decide f (i\<lparr>hi_requests := rs\<rparr>)
     else liftE (required_decision i (filter is_required rs)))"

lemma effective_ok:
  assumes "hyper_invocation_wf B i" and "\<forall>r \<in> set rs. rr_mission_id r = hi_mission_id i"
  shows "effective_invocation B i rs = Inr (i\<lparr>hi_requests := rs\<rparr>)"
  using assms
  by (auto simp: effective_invocation_def hyper_invocation_new_def hyper_invocation_wf_def text_items_PStr sorted_set_same payload_def)

lemma heartbeat_steps:
  assumes h: "supervisor_inv h" and i: "hyper_invocation_wf B i"
  shows "hyper_heartbeat B E f i (h, s) =
    bindS (decision_of f i (evaluated_requests i (pending_of h (hi_mission_id i)))) (\<lambda>d.
    bindS (guardS (hb_mission_id d = hi_mission_id i \<and> hb_plan_revision d = hi_plan_revision i) (ValueError Inconsistent)) (\<lambda>_.
    bindS (onFst (forget_requests (hi_mission_id i) (pending_of h (hi_mission_id i)))) (\<lambda>_.
    bindS (publish_decision E d) (\<lambda>_. returnS d)))) (h, s)"
proof -
  let ?m = "hi_mission_id i" and ?p = "pending_of h (hi_mission_id i)"
  have m: "nonblank ?m" using i by (simp add: hyper_invocation_wf_def)
  have "\<forall>r \<in> set (evaluated_requests i ?p). rr_mission_id r = ?m"
    using i by (auto simp: evaluated_requests_def hyper_invocation_wf_def coalesced_of_def split: option.splits)
  then have e: "effective_invocation B i (evaluated_requests i ?p) = Inr (i\<lparr>hi_requests := evaluated_requests i ?p\<rparr>)"
    by (rule effective_ok [OF i])
  have c: "hi_requests i @ (case map_option (\<lambda>latest. coalesced_of latest ?p ?m) (max_by (\<lambda>r. (rr_observed_plan_revision r, rr_request_id r)) ?p) of
      None \<Rightarrow> [] | Some c \<Rightarrow> [c]) = evaluated_requests i ?p"
    by (simp add: evaluated_requests_def split: option.split)
  show ?thesis
    unfolding hyper_heartbeat_def Let_def fst_conv coalesce_Inr [OF supervisor_invD(4) [OF h] m] bindS_liftE sum.case c e
    by (simp add: decision_of_def)
qed

lemma required_decision_Inr:
  assumes "hyper_invocation_wf B i" and "\<forall>x \<in> set (request_identities rs). nonblank x"
  shows "required_decision i rs = Inr \<lparr>hb_mission_id = hi_mission_id i, hb_plan_revision = hi_plan_revision i, hb_disposition = Replan,
    hb_evidence_summary = ''Maneuver Control requires a planner-selected reachable recovery rendezvous.'',
    hb_triggers = hi_triggers i, hb_requests = sorted_set (request_identities rs)\<rparr>"
proof -
  have "disposition_of (PStr ''replan'') = Inr Replan" using disposition_of_text [of Replan] by simp
  with assms show ?thesis
    by (simp add: required_decision_def hyper_decision_new_def hyper_invocation_wf_def identities_of_def text_items_PStr sorted_set_same)
qed

lemma required_decision_wf: "required_decision i rs = Inr d \<Longrightarrow> hyper_decision_wf d"
  unfolding required_decision_def by (rule hyper_decision_new_wf)

lemma decide_outcome:
  assumes "provider_ok f" and "supervisor_inv h" and "decide f i (h, s) = (x, (h1, s1))"
  shows "s1 = s \<and> queued_more h h1 \<and> supervisor_inv h1 \<and> (\<forall>d. x = Inr d \<longrightarrow> hyper_decision_wf d)"
proof -
  obtain answer requests w where f: "f i (sv_world h) = ((answer, requests), w)" by (metis prod.exhaust)
  have q: "\<forall>r \<in> set requests. replan_request_wf r" and d: "answer = DecisionReturned d \<Longrightarrow> hyper_decision_wf d" for d
    using assms(1) f unfolding provider_ok_def by (metis fst_conv snd_conv)+
  let ?h = "h\<lparr>sv_world := w\<rparr>"
  have "queued_more h (fold queue_replan requests ?h)" by (intro queued_more_all queued_more_cong) simp_all
  moreover have "supervisor_inv ?h" using assms(2) supervisor_inv_cong [of ?h h] by simp
  then have "supervisor_inv (fold queue_replan requests ?h)" using q by (rule queue_all_inv)
  moreover have "hyper_decision_wf e" if "hyper_decision_from_dict v = Inr e" for e v
    using that by (auto simp: hyper_decision_from_dict_def bindE_eq_Inr intro: hyper_decision_new_wf)
  ultimately show ?thesis using assms(3) d by (cases answer) (auto simp: decide_def f Let_def)
qed

lemma decision_outcome:
  assumes "provider_ok f" and "supervisor_inv h" and "decision_of f i rs (h, s) = (x, (h1, s1))"
  shows "s1 = s \<and> queued_more h h1 \<and> supervisor_inv h1 \<and> (\<forall>d. x = Inr d \<longrightarrow> hyper_decision_wf d)"
proof (cases "filter is_required rs = []")
  case True
  then have "decide f (i\<lparr>hi_requests := rs\<rparr>) (h, s) = (x, (h1, s1))" using assms(3) by (simp add: decision_of_def)
  then show ?thesis by (rule decide_outcome [OF assms(1,2)])
next
  case False
  with assms show ?thesis by (auto simp: decision_of_def queued_more_refl required_decision_wf)
qed

section \<open>Publishing a decision\<close>

lemma hyper_event_id_prefixed: "hyper_event_id m r n = prefixed_id ''hyper-heartbeat'' (m @ '':'' @ show_int r) n"
  by (simp add: hyper_event_id_def prefixed_id_def)

lemma hyper_event_id_inject:
  assumes "0 \<le> n" and "0 \<le> n'" and "hyper_event_id m r n = hyper_event_id m' r' n'"
  shows "m = m' \<and> n = n'"
proof -
  from assms have n: "n = n'" and e: "m @ '':'' @ show_int r = m' @ '':'' @ show_int r'"
    by (simp_all add: hyper_event_id_prefixed prefixed_id_inject)
  from e have "m = m'" using last_colon_unique [of m "show_int r" m' "show_int r'"] by (simp add: colon_not_in_show_int)
  with n show ?thesis by simp
qed

text \<open>Only decisions of this topic have the identifiers of decisions.\<close>

definition hyper_owned :: "('s \<Rightarrow> string \<Rightarrow> string \<Rightarrow> transport_event list) \<Rightarrow> ('s \<Rightarrow> string \<Rightarrow> bool) \<Rightarrow> string \<Rightarrow> 's \<Rightarrow> bool" where
  "hyper_owned stream used topic s \<longleftrightarrow> (\<forall>m r n. 0 \<le> n \<longrightarrow> used s (hyper_event_id m r n) \<longrightarrow>
     (\<exists>e \<in> set (stream s topic m). te_sequence e = n))"

text \<open>The event that carries a decision.\<close>

definition carries :: "transport_event \<Rightarrow> hyper_decision \<Rightarrow> bool" where
  "carries e d \<longleftrightarrow> te_event_kind e = ''hyper-heartbeat-decision'' \<and> te_mission_id e = hb_mission_id d \<and>
     JObj (te_payload e) = hyper_decision_to_dict d"

definition decision_event :: "hyper_decision \<Rightarrow> int \<Rightarrow> transport_event result" where
  "decision_event d n = transport_event_new (PInt 1) (PStr (hyper_event_id (hb_mission_id d) (hb_plan_revision d) n))
     (PStr (hb_mission_id d)) (PInt n) (PStr ''hyper-heartbeat-decision'') (thaw (hyper_decision_to_dict d))"

lemma decision_event_Inr:
  assumes "hyper_decision_wf d" and "0 \<le> n"
  shows "\<exists>e. decision_event d n = Inr e \<and> transport_event_wf e \<and> carries e d \<and> te_sequence e = n \<and>
    te_event_id e = hyper_event_id (hb_mission_id d) (hb_plan_revision d) n"
proof -
  obtain o' where o': "hyper_decision_to_dict d = JObj o'" by (simp add: hyper_decision_to_dict_def)
  have "nonblank (hyper_event_id (hb_mission_id d) (hb_plan_revision d) n)" by (simp add: hyper_event_id_prefixed)
  moreover have "nonblank ''hyper-heartbeat-decision''" by simp
  moreover have "transport_payload (thaw (JObj o')) = Inr o'" by (simp add: payload_def)
  ultimately show ?thesis
    using assms hyper_decision_dict_wf [OF o']
    by (simp add: decision_event_def transport_event_new_def o' hyper_decision_wf_def transport_event_wf_def carries_def del: view.simps)
qed

lemma log_decision_apply: "log_decision d (h, s) = (Inr (), (fst (snd (log_decision d (h, s))), s)) \<and>
    sv_pending (fst (snd (log_decision d (h, s)))) = sv_pending h \<and> sv_seen (fst (snd (log_decision d (h, s)))) = sv_seen h \<and>
    sv_topic (fst (snd (log_decision d (h, s)))) = sv_topic h"
  by (simp add: log_decision_def)

context event_stream
begin

lemma publish_decision_ok:
  assumes "inv s" and "nonblank (sv_topic h)" and "hyper_decision_wf d" and own: "hyper_owned stream used (sv_topic h) s"
  shows "\<exists>h' s' e. publish_decision (Some P) d (h, s) = (Inr (), (h', s')) \<and> sv_pending h' = sv_pending h \<and> sv_seen h' = sv_seen h \<and>
    sv_topic h' = sv_topic h \<and> inv s' \<and> hyper_owned stream used (sv_topic h) s' \<and> carries e d \<and>
    set (stream s' (sv_topic h) (hb_mission_id d)) = insert e (set (stream s (sv_topic h) (hb_mission_id d))) \<and>
    (\<forall>m. m \<noteq> hb_mission_id d \<longrightarrow> stream s' (sv_topic h) m = stream s (sv_topic h) m)"
proof -
  let ?t = "sv_topic h" and ?m = "hb_mission_id d"
  let ?n = "next_of s ?t ?m"
  have m: "nonblank ?m" using assms(3) by (simp add: hyper_decision_wf_def)
  have n: "0 \<le> ?n" by (rule next_nonneg [OF assms(1)])
  from decision_event_Inr [OF assms(3) n] obtain e where e: "decision_event d ?n = Inr e" "transport_event_wf e" "carries e d"
    "te_sequence e = ?n" "te_event_id e = hyper_event_id ?m (hb_plan_revision d) ?n" by blast
  have em: "te_mission_id e = ?m" using e(3) by (simp add: carries_def)
  have fresh: "\<not> used s (te_event_id e)"
  proof
    assume "used s (te_event_id e)"
    with own n obtain x where "x \<in> set (stream s ?t ?m)" "te_sequence x = ?n" unfolding hyper_owned_def e(5) by blast
    with next_above show False by fastforce
  qed
  from publish_next [OF assms(1,2) e(2) _ fresh] e(4) em obtain s' where s': "port_publish_event P ?t e s = (Inr e, s')" "inv s'"
    "set (stream s' ?t ?m) = insert e (set (stream s ?t ?m))"
    "\<forall>t' m'. (t', m') \<noteq> (?t, ?m) \<longrightarrow> stream s' t' m' = stream s t' m'" "\<forall>i. used s' i \<longleftrightarrow> i = te_event_id e \<or> used s i" by auto
  have seq: "port_next_event_sequence P ?t ?m s = (Inr ?n, s)" using next_sequence [OF assms(1,2) m] by (simp add: next_of_def)
  have own': "hyper_owned stream used ?t s'"
    unfolding hyper_owned_def
  proof (intro allI impI)
    fix m r k
    assume k: "0 \<le> k" and "used s' (hyper_event_id m r k)"
    then consider "hyper_event_id m r k = te_event_id e" | "used s (hyper_event_id m r k)" using s'(5) by blast
    then show "\<exists>x \<in> set (stream s' ?t m). te_sequence x = k"
    proof cases
      case 1
      with hyper_event_id_inject [OF k n] have "m = ?m \<and> k = ?n" unfolding e(5) by blast
      with s'(3) e(4) show ?thesis by auto
    next
      case 2
      with own k obtain x where "x \<in> set (stream s ?t m)" "te_sequence x = k" unfolding hyper_owned_def by blast
      with s'(3,4) show ?thesis by (cases "m = ?m") auto
    qed
  qed
  have "publish_decision (Some P) d (h, s) = log_decision d (h, s')"
    using e(1) by (simp add: publish_decision_def decision_event_def [symmetric] bindS_cases seq s'(1))
  with log_decision_apply [of d h s'] s' own' e(3) show ?thesis
    by (intro exI [of _ "fst (snd (log_decision d (h, s')))"] exI [of _ s'] exI [of _ e]) auto
qed

text \<open>A heartbeat either fails and keeps every request, or removes exactly those that it evaluated and publishes its decision.\<close>

lemma heartbeat_outcome:
  assumes inv: "inv s" "nonblank (sv_topic h)" "hyper_owned stream used (sv_topic h) s" and h: "supervisor_inv h"
    and i: "hyper_invocation_wf B i" and f: "provider_ok f"
    and hb: "hyper_heartbeat B (Some P) f i (h, s) = (x, (h', s'))"
  shows "(\<exists>e. x = Inl e) \<and> s' = s \<and> queued_more h h' \<and> supervisor_inv h' \<or>
    (\<exists>d h1 e. x = Inr d \<and> queued_more h h1 \<and> supervisor_inv h1 \<and> sv_topic h' = sv_topic h \<and>
      sv_seen h' = sv_seen h1 \<and> sv_pending h' = sv_pending (forget_requests (hi_mission_id i) (pending_of h (hi_mission_id i)) h1) \<and>
      inv s' \<and> hyper_owned stream used (sv_topic h) s' \<and> hb_mission_id d = hi_mission_id i \<and> carries e d \<and>
      set (stream s' (sv_topic h) (hb_mission_id d)) = insert e (set (stream s (sv_topic h) (hb_mission_id d))) \<and>
      (\<forall>m. m \<noteq> hb_mission_id d \<longrightarrow> stream s' (sv_topic h) m = stream s (sv_topic h) m))"
proof -
  let ?m = "hi_mission_id i" and ?p = "pending_of h (hi_mission_id i)"
  obtain y h1 s1 where dec: "decision_of f i (evaluated_requests i ?p) (h, s) = (y, (h1, s1))" by (metis prod.exhaust)
  from decision_outcome [OF f h dec] have o: "s1 = s" "queued_more h h1" "supervisor_inv h1"
    and wf: "\<And>d. y = Inr d \<Longrightarrow> hyper_decision_wf d" by auto
  show ?thesis
  proof (cases y)
    case (Inl e)
    with hb o show ?thesis by (auto simp: heartbeat_steps [OF h i] bindS_cases dec)
  next
    case (Inr d)
    show ?thesis
    proof (cases "hb_mission_id d = ?m \<and> hb_plan_revision d = hi_plan_revision i")
      case False
      with hb o Inr show ?thesis by (auto simp: heartbeat_steps [OF h i] bindS_cases dec guardE_def)
    next
      case True
      let ?h2 = "forget_requests ?m ?p h1"
      have t: "sv_topic ?h2 = sv_topic h" "sv_seen ?h2 = sv_seen h1" using o(2) by (simp_all add: forget_requests_def queued_more_def)
      from publish_decision_ok [of s ?h2 d] inv wf [OF Inr] obtain h3 s3 e where pub:
        "publish_decision (Some P) d (?h2, s) = (Inr (), (h3, s3))" "sv_pending h3 = sv_pending ?h2" "sv_seen h3 = sv_seen ?h2"
        "sv_topic h3 = sv_topic h" "inv s3" "hyper_owned stream used (sv_topic h) s3" "carries e d"
        "set (stream s3 (sv_topic h) (hb_mission_id d)) = insert e (set (stream s (sv_topic h) (hb_mission_id d)))"
        "\<forall>m. m \<noteq> hb_mission_id d \<longrightarrow> stream s3 (sv_topic h) m = stream s (sv_topic h) m"
        unfolding t by blast
      have "x = Inr d \<and> h' = h3 \<and> s' = s3"
        using hb True Inr o(1) by (auto simp: heartbeat_steps [OF h i] bindS_cases dec guardE_def pub(1))
      with pub o True t(2) show ?thesis by (intro disjI2 exI [of _ d] exI [of _ h1] exI [of _ e]) auto
    qed
  qed
qed

end

text \<open>The queue after a heartbeat that decided.\<close>

lemma forgotten:
  assumes "queued_more h h1" and "supervisor_inv h" and "supervisor_inv h1"
    and "sv_pending h' = sv_pending (forget_requests m (pending_of h m) h1)" and "sv_seen h' = sv_seen h1"
  shows "supervisor_inv h'"
    and "\<exists>new. pending_of h' k = (if k = m then [] else pending_of h k) @ new \<and> seen_of h' k = seen_of h k \<union> rr_request_id ` set new \<and>
      rr_request_id ` set new \<inter> seen_of h k = {} \<and> distinct (map rr_request_id new)"
proof -
  let ?p = "pending_of h m"
  have p: "pending_of h' k = (if k = m \<and> ?p \<noteq> [] then filter (\<lambda>r. rr_request_id r \<notin> rr_request_id ` set ?p) (pending_of h1 m) else pending_of h1 k)" for k
    by (simp add: assms(4) forget_requests_def getd_def)
  show "supervisor_inv h'"
    using assms(3) unfolding supervisor_inv_def p assms(5) by (auto simp: distinct_map_filter)
  from assms(1) obtain new where n: "pending_of h1 k = pending_of h k @ new" "seen_of h1 k = seen_of h k \<union> rr_request_id ` set new"
    "rr_request_id ` set new \<inter> seen_of h k = {}" "distinct (map rr_request_id new)" unfolding queued_more_def by blast
  have "pending_of h' k = (if k = m then [] else pending_of h k) @ new"
  proof (cases "k = m \<and> ?p \<noteq> []")
    case True
    have "filter (\<lambda>r. rr_request_id r \<notin> rr_request_id ` set ?p) new = new"
      using supervisor_invD(2) [OF assms(2), of m] n(3) True by (intro filter_True) auto
    with n(1) True show ?thesis by (simp add: p)
  next
    case False
    with n(1) show ?thesis by (auto simp: p)
  qed
  with n assms(5) show "\<exists>new. pending_of h' k = (if k = m then [] else pending_of h k) @ new \<and>
      seen_of h' k = seen_of h k \<union> rr_request_id ` set new \<and> rr_request_id ` set new \<inter> seen_of h k = {} \<and> distinct (map rr_request_id new)"
    by auto
qed

section \<open>Runs of the supervisor\<close>

text \<open>A run on a transport that other clients use too; the list has the heartbeats that decided, each with its mission, the
  identities of the pending requests that it evaluated and its decision.\<close>

type_synonym evaluation = "string \<times> string list \<times> hyper_decision"

inductive supervisor_run :: "('b \<Rightarrow> string) \<Rightarrow> ('b, 'w) provider \<Rightarrow> 'w hyper_supervisor \<times> transport_state \<Rightarrow> evaluation list \<Rightarrow>
    'w hyper_supervisor \<times> transport_state \<Rightarrow> bool" for B f start where
  begin_run: "supervisor_run B f start [] start"
| queue_request: "supervisor_run B f start ev (h, s) \<Longrightarrow> replan_request_wf r \<Longrightarrow> supervisor_run B f start ev (queue_replan r h, s)"
| agent_message: "supervisor_run B f start ev (h, s) \<Longrightarrow> agent_message_wf a \<Longrightarrow> supervisor_run B f start ev (snd (handle_hyper_message a h), s)"
| decided: "supervisor_run B f start ev (h, s) \<Longrightarrow> hyper_invocation_wf B i \<Longrightarrow>
    hyper_heartbeat B (Some inprocess_events) f i (h, s) = (Inr d, hs') \<Longrightarrow>
    supervisor_run B f start (ev @ [(hi_mission_id i, map rr_request_id (pending_of h (hi_mission_id i)), d)]) hs'"
| failed: "supervisor_run B f start ev (h, s) \<Longrightarrow> hyper_invocation_wf B i \<Longrightarrow>
    hyper_heartbeat B (Some inprocess_events) f i (h, s) = (Inl e, hs') \<Longrightarrow> supervisor_run B f start ev hs'"
| other_client: "supervisor_run B f start ev (h, s) \<Longrightarrow> events_inv s' \<Longrightarrow> hyper_owned stream_of event_used (sv_topic h) s' \<Longrightarrow>
    \<forall>m. set (stream_of s (sv_topic h) m) \<subseteq> set (stream_of s' (sv_topic h) m) \<Longrightarrow> supervisor_run B f start ev (h, s')"

definition evaluated_ids :: "evaluation list \<Rightarrow> string \<Rightarrow> string list" where
  "evaluated_ids ev m = concat (map (\<lambda>(k, ids, d). if k = m then ids else []) ev)"

lemma evaluated_ids_simps [simp]: "evaluated_ids [] m = []"
  "evaluated_ids (ev @ [(k, ids, d)]) m = evaluated_ids ev m @ (if k = m then ids else [])"
  by (simp_all add: evaluated_ids_def)

text \<open>Every identity that was accepted is evaluated or pending, and only once.\<close>

definition accounted :: "evaluation list \<Rightarrow> 'w hyper_supervisor \<Rightarrow> bool" where
  "accounted ev h \<longleftrightarrow> (\<forall>m. distinct (evaluated_ids ev m @ map rr_request_id (pending_of h m)) \<and>
     set (evaluated_ids ev m @ map rr_request_id (pending_of h m)) = seen_of h m)"

lemma accounted_more: "accounted ev h \<Longrightarrow> queued_more h h' \<Longrightarrow> accounted ev h'"
proof -
  assume a: "accounted ev h" and q: "queued_more h h'"
  have "distinct (evaluated_ids ev m @ map rr_request_id (pending_of h' m)) \<and>
     set (evaluated_ids ev m @ map rr_request_id (pending_of h' m)) = seen_of h' m" for m
  proof -
    from q obtain new where "pending_of h' m = pending_of h m @ new" "seen_of h' m = seen_of h m \<union> rr_request_id ` set new"
      "rr_request_id ` set new \<inter> seen_of h m = {}" "distinct (map rr_request_id new)" unfolding queued_more_def by blast
    with a show ?thesis unfolding accounted_def by (metis (no_types, lifting) Int_commute append.assoc distinct_append image_set map_append set_append)
  qed
  then show ?thesis by (simp add: accounted_def)
qed

lemma message_queues: "queued_more h (snd (handle_hyper_message a h)) \<and>
    (agent_message_wf a \<longrightarrow> supervisor_inv h \<longrightarrow> supervisor_inv (snd (handle_hyper_message a h)))"
proof (cases "\<exists>o' r. map_of (am_payload a) ''replan_request'' = Some (JObj o') \<and> replan_request_from_dict (proxied (JObj o')) = Inr r \<and>
    snd (handle_hyper_message a h) = queue_replan r h")
  case True
  then obtain o' r where o': "map_of (am_payload a) ''replan_request'' = Some (JObj o')"
    "replan_request_from_dict (proxied (JObj o')) = Inr r" "snd (handle_hyper_message a h) = queue_replan r h" by blast
  have "replan_request_wf r" if "agent_message_wf a"
  proof -
    have "wf_json (JObj o')" using that o'(1) unfolding agent_message_wf_def wf_obj_def
      by (metis map_of_SomeD snd_conv wf_json.simps(2))
    then have "wf_py (proxied (JObj o'))" by (simp only: wf_view)
    with o'(2) show ?thesis by (rule replan_request_from_dict_wf)
  qed
  with o'(3) show ?thesis by (simp add: queued_more_queue queued_more_refl queue_inv)
next
  case False
  then have "snd (handle_hyper_message a h) = h"
    by (auto simp: handle_hyper_message_def bindS_cases guardE_def split: option.splits json.splits sum.splits if_splits)
  then show ?thesis by (simp add: queued_more_refl)
qed

text \<open>What holds in every reachable state.\<close>

definition run_facts :: "string \<Rightarrow> evaluation list \<Rightarrow> 'w hyper_supervisor \<times> transport_state \<Rightarrow> bool" where
  "run_facts topic ev hs \<longleftrightarrow> supervisor_inv (fst hs) \<and> sv_topic (fst hs) = topic \<and> events_inv (snd hs) \<and>
     hyper_owned stream_of event_used topic (snd hs) \<and> accounted ev (fst hs) \<and>
     (\<forall>(k, ids, d) \<in> set ev. hb_mission_id d = k \<and> (\<exists>e \<in> set (stream_of (snd hs) topic k). carries e d))"

lemma supervisor_run_facts:
  assumes "supervisor_run B f start ev hs" and "run_facts topic [] start" and "provider_ok f" and "nonblank topic"
  shows "run_facts topic ev hs"
  using assms(1)
proof (induction rule: supervisor_run.induct)
  case begin_run
  show ?case by (rule assms(2))
next
  case (queue_request ev h s r)
  then show ?case using queue_inv [of h r] accounted_more [of ev h "queue_replan r h"] queued_more_queue [OF queued_more_refl, of h r]
    by (simp add: run_facts_def)
next
  case (agent_message ev h s a)
  then show ?case using message_queues [of h a] accounted_more [of ev h "snd (handle_hyper_message a h)"]
    by (simp add: run_facts_def queued_more_def)
next
  case (decided ev h s i d hs')
  obtain h' s' where hs': "hs' = (h', s')" by (cases hs')
  have facts: "events_inv s" "nonblank (sv_topic h)" "hyper_owned stream_of event_used (sv_topic h) s" "supervisor_inv h"
    and topic: "sv_topic h = topic" and acc: "accounted ev h"
    and pub: "\<forall>(k, ids, d) \<in> set ev. hb_mission_id d = k \<and> (\<exists>e \<in> set (stream_of s topic k). carries e d)"
    using decided.IH assms(4) by (auto simp: run_facts_def)
  let ?m = "hi_mission_id i"
  from inproc.heartbeat_outcome [OF facts decided.hyps(2) assms(3) decided.hyps(3) [unfolded hs']] obtain h1 e where
    o: "queued_more h h1" "supervisor_inv h1" "sv_topic h' = topic" "sv_seen h' = sv_seen h1"
      "sv_pending h' = sv_pending (forget_requests ?m (pending_of h ?m) h1)" "events_inv s'" "hyper_owned stream_of event_used topic s'"
      "hb_mission_id d = ?m" "carries e d" "set (stream_of s' topic ?m) = insert e (set (stream_of s topic ?m))"
      "\<forall>m. m \<noteq> ?m \<longrightarrow> stream_of s' topic m = stream_of s topic m"
    unfolding topic by auto
  note q = forgotten [OF o(1) facts(4) o(2,5,4)]
  have "accounted (ev @ [(?m, map rr_request_id (pending_of h ?m), d)]) h'"
    unfolding accounted_def
  proof
    fix k
    from q(2) [of k] obtain new where n: "pending_of h' k = (if k = ?m then [] else pending_of h k) @ new"
      "seen_of h' k = seen_of h k \<union> rr_request_id ` set new" "rr_request_id ` set new \<inter> seen_of h k = {}" "distinct (map rr_request_id new)" by blast
    have "distinct (evaluated_ids ev k @ map rr_request_id (pending_of h k))"
      "set (evaluated_ids ev k @ map rr_request_id (pending_of h k)) = seen_of h k" using acc by (auto simp: accounted_def)
    with n show "distinct (evaluated_ids (ev @ [(?m, map rr_request_id (pending_of h ?m), d)]) k @ map rr_request_id (pending_of h' k)) \<and>
        set (evaluated_ids (ev @ [(?m, map rr_request_id (pending_of h ?m), d)]) k @ map rr_request_id (pending_of h' k)) = seen_of h' k"
      by auto
  qed
  moreover have "\<forall>(k, ids, d) \<in> set ev. hb_mission_id d = k \<and> (\<exists>e \<in> set (stream_of s' topic k). carries e d)"
  proof -
    have "set (stream_of s topic k) \<subseteq> set (stream_of s' topic k)" for k using o(10,11) by (cases "k = ?m") auto
    with pub show ?thesis by fastforce
  qed
  ultimately show ?case using o(3,6-10) q(1) unfolding run_facts_def hs' by auto
next
  case (failed ev h s i e hs')
  obtain h' s' where hs': "hs' = (h', s')" by (cases hs')
  have facts: "events_inv s" "nonblank (sv_topic h)" "hyper_owned stream_of event_used (sv_topic h) s" "supervisor_inv h"
    using failed.IH assms(4) by (auto simp: run_facts_def)
  from inproc.heartbeat_outcome [OF facts failed.hyps(2) assms(3) failed.hyps(3) [unfolded hs']]
  have "s' = s" "queued_more h h'" "supervisor_inv h'" by auto
  with failed.IH accounted_more [of ev h h'] show ?case by (simp add: run_facts_def hs' queued_more_def)
next
  case (other_client ev h s s')
  then show ?case unfolding run_facts_def by fastforce
qed

section \<open>Properties\<close>


text \<open>C35: a heartbeat whose decision cannot be published loses the requests that it evaluated. They are removed from the queue
  before the decision is published, and their identities stay among those that were seen: the heartbeat raises, none of
  them is pending, and a caller that submits one of them again is told that it is queued although it is not.\<close>

theorem failed_publish_loses_requests:
  assumes h: "supervisor_inv h" and i: "hyper_invocation_wf B i" and f: "provider_ok f"
    and d: "decision_of f i (evaluated_requests i (pending_of h (hi_mission_id i))) (h, s) = (Inr d, (h1, s))"
    and "hb_mission_id d = hi_mission_id i" and "hb_plan_revision d = hi_plan_revision i"
    and p: "publish_decision E d (forget_requests (hi_mission_id i) (pending_of h (hi_mission_id i)) h1, s) = (Inl e, (h2, s2))"
    and r: "r \<in> set (pending_of h (hi_mission_id i))"
  shows "hyper_heartbeat B E f i (h, s) = (Inl e, (h2, s2)) \<and> r \<notin> set (pending_of h2 (hi_mission_id i)) \<and>
    pending_of (queue_replan r h2) (hi_mission_id i) = pending_of h2 (hi_mission_id i)"
proof -
  let ?m = "hi_mission_id i" and ?p = "pending_of h (hi_mission_id i)"
  have "hyper_heartbeat B E f i (h, s) = (Inl e, (h2, s2))"
    using p d assms(5,6) by (simp add: heartbeat_steps [OF h i] bindS_cases guardE_def)
  moreover have q: "queued_more h h1" "supervisor_inv h1" using decision_outcome [OF f h d] by auto
  have same: "sv_pending h2 = sv_pending (forget_requests ?m ?p h1)" "sv_seen h2 = sv_seen h1"
    using p by (auto simp: publish_decision_def bindS_cases log_decision_def forget_requests_def split: option.splits sum.splits)
  from r have "?p \<noteq> []" by auto
  then have "r \<notin> set (pending_of h2 ?m)" using r by (auto simp: same forget_requests_def)
  moreover have "rr_request_id r \<in> seen_of h2 ?m"
    using r supervisor_invD(2) [OF h, of ?m] q(1) unfolding queued_more_def same by blast
  then have "pending_of (queue_replan r h2) ?m = pending_of h2 ?m"
    using r supervisor_invD(3) [OF h, of ?m] by (simp add: queue_pending)
  ultimately show ?thesis by simp
qed

text \<open>C24: a request that asks for a reachable plan is granted. When one of the pending requests is of that kind, a heartbeat that
  succeeds decides to replan, names every pending request in its decision, and does not ask the provider.\<close>

theorem required_request_replans:
  assumes h: "supervisor_inv h" and i: "hyper_invocation_wf B i" and r: "r \<in> set (pending_of h (hi_mission_id i))" "is_required r"
    and hb: "hyper_heartbeat B E f i (h, s) = (Inr d, (h', s'))"
  shows "hb_disposition d = Replan \<and> rr_request_id ` set (pending_of h (hi_mission_id i)) \<subseteq> set (hb_requests d) \<and>
    sv_world h' = sv_world h \<and> pending_of h' (hi_mission_id i) = []"
proof -
  let ?m = "hi_mission_id i" and ?p = "pending_of h (hi_mission_id i)"
  let ?rs = "evaluated_requests i ?p"
  from r(1) have ne: "?p \<noteq> []" by auto
  then obtain latest where l: "max_by (\<lambda>r. (rr_observed_plan_revision r, rr_request_id r)) ?p = Some latest"
    by (cases "max_by (\<lambda>r. (rr_observed_plan_revision r, rr_request_id r)) ?p") auto
  let ?c = "coalesced_of latest ?p ?m"
  have c: "?c \<in> set ?rs" "is_required ?c" using r by (auto simp: evaluated_requests_def l coalesced_of_def is_required_def)
  then have q: "filter is_required ?rs \<noteq> []" by (auto simp: filter_empty_conv)
  have ids: "rr_coalesced_request_ids ?c = sorted_set (map rr_request_id ?p)" by (simp add: coalesced_of_def)
  have "sorted_set (map rr_request_id ?p) \<noteq> []" using ne by (metis Nil_is_map_conv set_empty sorted_set_props(1))
  with c ids have sub: "rr_request_id ` set ?p \<subseteq> set (request_identities (filter is_required ?rs))"
    unfolding request_identities_def by force
  from hb q obtain x where x: "required_decision i (filter is_required ?rs) = Inr x"
    and rest: "bindS (publish_decision E x) (\<lambda>_. returnS x) (forget_requests ?m ?p h, s) = (Inr d, (h', s'))"
    by (auto simp: heartbeat_steps [OF h i] decision_of_def bindS_cases guardE_def split: sum.splits if_splits)
  from rest have d: "d = x" by (auto simp: bindS_cases split: sum.splits)
  have "disposition_of (PStr ''replan'') = Inr Replan" using disposition_of_text [of Replan] by simp
  with x have "hb_disposition x = Replan" "set (hb_requests x) = set (request_identities (filter is_required ?rs))"
    by (auto simp: required_decision_def hyper_decision_new_def identities_of_def bindE_eq_Inr inj_map_eq_map inj_def dest!: text_items_Inr)
  moreover have "sv_world h' = sv_world h" "sv_pending h' = sv_pending (forget_requests ?m ?p h)"
    using rest by (auto simp: publish_decision_def bindS_cases log_decision_def forget_requests_def split: option.splits sum.splits)
  then have "sv_world h' = sv_world h" "pending_of h' ?m = []" using ne by (auto simp: forget_requests_def filter_empty_conv)
  ultimately show ?thesis using sub d by simp
qed

section \<open>Concrete runs\<close>

definition ex_request :: "string \<Rightarrow> string \<Rightarrow> replan_request" where
  "ex_request i kind = \<lparr>rr_request_id = i, rr_mission_id = ''m1'', rr_reason = ''new evidence'', rr_requester = ''maneuver-control'',
     rr_observed_plan_revision = 1, rr_source_revisions = [(''environment_data'', Some 2)], rr_request_kind = kind,
     rr_coalesced_request_ids = [], rr_coalesced_reasons = []\<rparr>"

definition ex_hyper_invocation :: "unit hyper_invocation" where
  "ex_hyper_invocation = \<lparr>hi_mission_id = ''m1'', hi_plan_revision = 1, hi_triggers = [''periodic:10''],
     hi_snapshot = \<lparr>ms_mission_id = ''m1'', ms_version = 4, ms_created_at = ''2026'', ms_plan_revision = Some 1,
       ms_plan_reference = Some ''plan.json'', ms_environment_data = None, ms_belief_snapshot = None, ms_fsm_status = None,
       ms_active_maneuver = None, ms_source_revisions = [], ms_source_references = [], ms_source_health = [],
       ms_source_freshness = [], ms_missing_sources = []\<rparr>,
     hi_plan_reference = ''plan.json'', hi_statechart_reference = ''statechart.json'',
     hi_status = \<lparr>fs_mission_id = ''m1'', fs_plan_revision = 1, fs_statechart_revision = 1, fs_active_state = ''active'',
       fs_transition_candidates = [], fs_status = ''active'', fs_superseded_plan_revision = None, fs_last_applied_event = None,
       fs_schema_version = 1, fs_active_state_context = [], fs_state_entry_revision = 1\<rparr>,
     hi_environment = [], hi_belief = None, hi_requests = []\<rparr>"

definition ex_hyper_decision :: hyper_decision where
  "ex_hyper_decision = \<lparr>hb_mission_id = ''m1'', hb_plan_revision = 1, hb_disposition = NoChange, hb_evidence_summary = ''stable'',
     hb_triggers = [''periodic:10''], hb_requests = [''r1'']\<rparr>"

definition ex_provider :: "(unit, nat) provider" where
  "ex_provider i w = ((DecisionReturned ex_hyper_decision, []), w + 1)"

definition ex_belief_mission :: "unit \<Rightarrow> string" where
  "ex_belief_mission b = ''m1''"

definition ex_supervisor :: "string \<Rightarrow> nat hyper_supervisor" where
  "ex_supervisor kind = queue_replan (ex_request ''r1'' kind) (supervisor_init ''outcomes'' 0 None)"

definition ex_beat :: "string \<Rightarrow> transport_state \<Rightarrow> hyper_decision result \<times> (nat hyper_supervisor \<times> transport_state)" where
  "ex_beat kind s = hyper_heartbeat ex_belief_mission (Some inprocess_events) ex_provider ex_hyper_invocation (ex_supervisor kind, s)"

lemma ex_hyper_facts:
  "hyper_invocation_wf ex_belief_mission ex_hyper_invocation" "provider_ok ex_provider"
  "kind = ''advisory'' \<or> kind = ''reachability_required'' \<Longrightarrow> replan_request_wf (ex_request ''r1'' kind)"
  "supervisor_inv (supervisor_init t w c)" "hyper_owned stream_of event_used t initial_state"
proof -
  show "hyper_invocation_wf ex_belief_mission ex_hyper_invocation" by (simp add: hyper_invocation_wf_def ex_hyper_invocation_def wf_obj_def)
  show "provider_ok ex_provider" by (simp add: provider_ok_def ex_provider_def ex_hyper_decision_def hyper_decision_wf_def)
  show "kind = ''advisory'' \<or> kind = ''reachability_required'' \<Longrightarrow> replan_request_wf (ex_request ''r1'' kind)"
    by (auto simp: replan_request_wf_def ex_request_def)
  show "supervisor_inv (supervisor_init t w c)" by (simp add: supervisor_inv_def supervisor_init_def)
  show "hyper_owned stream_of event_used t initial_state" by (simp add: hyper_owned_def event_used_def initial_state_def)
qed


text \<open>Another client has used the identifier of the decision.\<close>

definition ex_taken :: transport_state where
  "ex_taken = snd (publish_event ''other'' \<lparr>te_schema_version = 1, te_event_id = hyper_event_id ''m1'' 1 0, te_mission_id = ''m1'',
     te_sequence = 0, te_event_kind = ''other'', te_payload = []\<rparr> initial_state)"

theorem failed_publish_loses_requests_witness:
  "fst (ex_beat ''advisory'' ex_taken) = Inl (ValueError Conflict) \<and>
   ex_request ''r1'' ''advisory'' \<in> set (pending_of (ex_supervisor ''advisory'') ''m1'') \<and>
   ex_request ''r1'' ''advisory'' \<notin> set (pending_of (queue_replan (ex_request ''r1'' ''advisory'') (fst (snd (ex_beat ''advisory'' ex_taken)))) ''m1'')"
proof -
  let ?h = "ex_supervisor ''advisory''" and ?i = ex_hyper_invocation and ?r = "ex_request ''r1'' ''advisory''"
  let ?dec = "decision_of ex_provider ?i (evaluated_requests ?i (pending_of ?h (hi_mission_id ?i))) (?h, ex_taken)"
  let ?pub = "publish_decision (Some inprocess_events) ex_hyper_decision
    (forget_requests (hi_mission_id ?i) (pending_of ?h (hi_mission_id ?i)) (fst (snd ?dec)), ex_taken)"
  have m: "hi_mission_id ?i = ''m1''" by (simp add: ex_hyper_invocation_def)
  have inv: "supervisor_inv ?h" unfolding ex_supervisor_def by (intro queue_inv ex_hyper_facts) simp
  have r: "?r \<in> set (pending_of ?h (hi_mission_id ?i))" by (simp add: m ex_supervisor_def supervisor_init_def queue_pending ex_request_def)
  have "fst ?dec = Inr ex_hyper_decision" by code_simp
  moreover have "snd (snd ?dec) = ex_taken" using decision_outcome [OF ex_hyper_facts(2) inv, of ?i _ ex_taken] by (metis prod.collapse)
  ultimately have d: "?dec = (Inr ex_hyper_decision, (fst (snd ?dec), ex_taken))" by (simp add: prod_eq_iff)
  have "fst ?pub = Inl (ValueError Conflict)" by code_simp
  then have p: "?pub = (Inl (ValueError Conflict), (fst (snd ?pub), snd (snd ?pub)))" by (simp add: prod_eq_iff)
  have "hb_mission_id ex_hyper_decision = hi_mission_id ?i" "hb_plan_revision ex_hyper_decision = hi_plan_revision ?i"
    by (simp_all add: ex_hyper_decision_def ex_hyper_invocation_def)
  from failed_publish_loses_requests [OF inv ex_hyper_facts(1,2) d this p r] r show ?thesis unfolding ex_beat_def m by simp
qed

theorem required_request_replans_witness:
  "\<exists>d hs. ex_beat ''reachability_required'' initial_state = (Inr d, hs) \<and> hb_disposition d = Replan \<and> ''r1'' \<in> set (hb_requests d)"
proof -
  let ?h = "ex_supervisor ''reachability_required''" and ?r = "ex_request ''r1'' ''reachability_required''"
  have inv: "supervisor_inv ?h" unfolding ex_supervisor_def by (intro queue_inv ex_hyper_facts) simp
  have r: "?r \<in> set (pending_of ?h (hi_mission_id ex_hyper_invocation))" "is_required ?r"
    by (simp_all add: ex_hyper_invocation_def ex_supervisor_def supervisor_init_def queue_pending ex_request_def is_required_def)
  have "isOk (fst (ex_beat ''reachability_required'' initial_state))" by code_simp
  then obtain d h' s' where b: "ex_beat ''reachability_required'' initial_state = (Inr d, (h', s'))" by (metis isOk_iff prod.exhaust fst_conv)
  from required_request_replans [OF inv ex_hyper_facts(1) r b [unfolded ex_beat_def]] r(1) b show ?thesis
    by (force simp: ex_request_def)
qed

end
