(* ===== verification/Spec2Isabelle.thy ===== *)
theory Spec2Isabelle
  imports Transition_Intents Decision_Runs Communication Normalized_Plans Plan_Events Maneuver_Control File_Deliveries FSM_Delivery Planning_Commands Runtime_Lease FSM_Store State_Machine Operational_Files Importance Maneuver_Wakeups Hyper_Supervisor
begin

text \<open>
  A model of the mission control core of the package \<open>onr\<close> (directory \<open>src/onr/\<close>), with the properties that
  make it correct.

  The program. Services exchange events, commands and outcomes through a durable transport. A planner publishes
  Normalized Plans and a Statechart; the FSM Runner executes the Statechart and publishes its status; Maneuver
  Control decides on physical maneuvers and queues commands; the Transition Intent journal records which
  transition an agent works towards; agents send each other requests through the transport; and a run that
  needs a human decision is paused and resumed. Every service is restarted after a crash and every message may
  be delivered more than once, so most of the code is about idempotence, identities and refusal of conflicts.

  The theories and the files they model:
  \<^item> \<open>Prelude\<close>: results and effects (errors are values of \<open>exn + 'a\<close>, effects pass a state explicitly),
    dictionaries as association lists with Python's insertion order, maxima, sorting, decimal numerals.
  \<^item> \<open>PyValue\<close>: JSON values, the Python values that decode to them (\<open>pyval\<close>: dictionaries, read-only proxies,
    lists, tuples), freezing and thawing, canonical form, and the field checks that all contracts share.
    \<open>Py_Float\<close>: the finite floats as rationals.
  \<^item> \<open>Transport_Contracts\<close> (\<open>contracts/transport.py\<close>), \<open>Planning_Contracts\<close> and \<open>Normalized_Plans\<close>
    (\<open>contracts/planning.py\<close>), \<open>Plan_Events\<close> (the plan events of \<open>contracts/transport.py\<close>),
    \<open>FSM_Contracts\<close> (\<open>contracts/fsm.py\<close>), \<open>Mission_Snapshots\<close> (\<open>contracts/context_coordination.py\<close>),
    \<open>Maneuver_Contracts\<close> (\<open>contracts/maneuver_control.py\<close>): each dataclass is a record or datatype, its
    constructor a function \<open>_new\<close> to a result with the checks in the order of \<open>__post_init__\<close>, and \<open>to_dict\<close>,
    \<open>from_dict\<close>, \<open>to_canonical_json\<close> and \<open>from_json\<close> functions of the same names. The predicates \<open>_wf\<close> are
    the invariants that the constructors establish; the round trips are proved against them.
  \<^item> \<open>Event_Port\<close>, \<open>Command_Port\<close>, \<open>Transport_Port\<close> (\<open>ports/transport.py\<close>): the locales \<open>event_stream\<close>,
    \<open>command_log\<close> and \<open>transport_port\<close> say what clients rely on. The clients' lemmas are proved in them.
  \<^item> \<open>InProcess_Transport\<close>, \<open>InProcess_Commands\<close>, \<open>InProcess_Consumer\<close> (\<open>adapters/inprocess_transport.py\<close>): the
    transport's dictionaries as a record, publishing, commands, outcomes, and the consumers with cursors,
    retries and dead letters. The interpretations \<open>inproc\<close>, \<open>inproc_commands\<close> and \<open>inproc_port\<close> discharge the laws.
  \<^item> \<open>File_Names\<close>, \<open>File_Transport\<close>, \<open>File_Consumer\<close> (\<open>adapters/file_transport.py\<close>): the durable transport. Names
    of files are percent-encoded and numbers padded to twenty digits; the directory tree is a dictionary from
    paths to JSON values; an operation answers and lists the files it writes, in order. \<open>File_Refinement\<close> relates
    files to states of the in-process transport, \<open>File_Calls\<close> proves that every sequence of calls has the same
    answers on both (for plain directory names, sequences of at most twenty digits and contents that Python's
    equality tells apart), \<open>File_Recovery\<close> what an interrupted operation leaves, and \<open>File_Deliveries\<close> what
    consumers guarantee across interruptions and restarts.
  \<^item> \<open>FSM_Runner\<close> (\<open>application/fsm.py\<close>, \<open>ports/fsm.py\<close>) and \<open>FSM_Delivery\<close> (its \<open>run_once\<close>, with the runner,
    its consumer and the transport as one state), \<open>Planning_Commands\<close> (\<open>application/planning_commands.py\<close>),
    \<open>Transition_Intents\<close> (\<open>contracts/transition_intent.py\<close>,
    \<open>application/transition_intents.py\<close>), \<open>Human_Decisions\<close>, \<open>Decision_Coordinator\<close>, \<open>Decision_Files\<close>,
    \<open>Decision_Runs\<close> (the four \<open>human_decision(s).py\<close> files), \<open>Communication\<close> (the three \<open>communication.py\<close>
    files), \<open>Maneuver_Control\<close> (\<open>application/maneuver_control.py\<close>), \<open>Operational_Log\<close> (the calls of
    \<open>ports/operational_log.py\<close> that services make).
  \<^item> \<open>Operational_Records\<close> (\<open>ports/operational_log.py\<close>): the records of the operational log and the redaction of secrets, with
    the pattern as a datatype of regular expressions; \<open>Operational_Files\<close> (\<open>adapters/operational_log.py\<close>): the log in memory and
    the log in files, which keep the contract of the locale \<open>operational_log\<close> (interpretations \<open>memory_log\<close> and
    \<open>file_log\<close>).
  \<^item> \<open>FSM_Store\<close> (\<open>adapters/fsm_store.py\<close>): the files of the runner and runs in which the process stops between two
    saves; \<open>State_Machine\<close> (\<open>adapters/python_statemachine.py\<close>): the class that is built from a Statechart and the machine that
    the runner drives. \<open>library_ok\<close> states what the state machine library promises.
  \<^item> \<open>Importance\<close> (\<open>runtime_host/importance.py\<close>): the levels of operator events and the table of rules that assigns them.
  \<^item> \<open>Float_Rounding\<close>: binary64 arithmetic as rounding to the nearest float, with its error, and the format \<open>g\<close>;
    \<open>Maneuver_Wakeups\<close> (\<open>application/maneuver_wakeups.py\<close>): when a deadline or changed evidence wakes Maneuver Control.
  \<^item> \<open>Hyper_Contracts\<close> (\<open>contracts/hyper_agent.py\<close>) and \<open>Hyper_Supervisor\<close> (\<open>application/hyper_supervisor.py\<close>): requests to
    replan, which are queued, coalesced and evaluated by heartbeats that publish their decisions; the provider of decisions is a parameter.
  \<^item> \<open>Runtime_Lease\<close> (\<open>runtime/lease.py\<close>): the lease file, the operations of a session's store, and the runs of any number
    of processes over one file, with the times at which each session was last granted the lease.

  The lemmas. Each contract theory proves that its constructors establish the invariants, and that records
  survive the dictionary and JSON forms. The transport theories prove an invariant of the whole transport state
  and that every operation keeps it, the laws of the port, and that no command is lost and every delivery is
  bounded by the retry limit. The service theories prove their properties in the context of the port's locale and state them
  for the in-process transport.

  Concurrency. The resume claim of a paused run and a request between agents are split into the steps
  between which other processes or threads may run; the operations on the lease of a session interleave as a whole, since
  a file lock makes each of them atomic. The properties are about reachable states of
  an \<open>inductive\<close> step relation.

  Interruptions. A process may stop after any prefix of the writes of an operation of the file transport; the
  properties of \<open>File_Recovery\<close> and \<open>File_Deliveries\<close> quantify over these prefixes.

  Bounds and termination. Integers are Python's, hence \<open>int\<close>. The consumer's loop terminates because each turn
  either returns or marks one more candidate as processed; it is a \<open>function\<close> with that measure, not fuel. For the file transport, \<open>receive_within\<close> is the same loop with a number
  of turns, and one turn for each message file and two more are enough.

  Parameters. The decision provider, the planner, the handlers of messages, the texts of exceptions and of ISO times, the state machine library behind the FSM Runner,
  the SHA-256 digest and the clock are arguments of the definitions. JSON texts are represented by canonical JSON
  values: \<open>json.dumps\<close> with sorted keys is injective on them.

  Not modelled: the planners and belief updates (floating-point optimisation over NumPy and external solvers),
  the language-model agents and their tools, and with them the heartbeat of Maneuver Control in which a model drives
  tools; the file formats of the solver, service and text adapters; command-line wiring, the HTTP host, the viewer,
  the demonstrations. These call libraries and programs that are not part of the repository or
  produce output for people.
\<close>

end
